(* ===== verification/Bridge_Prelude.thy ===== *)
theory Bridge_Prelude
  imports Main "HOL-Library.Word" "HOL-Library.Monad_Syntax"
begin

text \<open>
  Shared vocabulary of the development: the machine integer types, bounds-checked buffer
  accesses, C character arrays with the string functions the sources use, the search loops
  the sources share, and the locale that lifts a one-step invariant to whole runs.
\<close>

unbundle bit_operations_syntax

type_synonym u8 = "8 word"
type_synonym u16 = "16 word"
type_synonym u32 = "32 word"
type_synonym u64 = "64 word"

named_theorems buf_simps \<open>lengths and reads of buffers after the C memory functions\<close>
named_theorems cstr_simps \<open>C strings held in character arrays\<close>

section \<open>Search loops\<close>

text \<open>
  \<open>first_idx P xs\<close> is the index at which a loop that scans \<open>xs\<close> from the front and stops at
  the first element satisfying \<open>P\<close> stops; \<open>None\<close> when the loop runs to the end.
\<close>

fun first_idx :: "('a \<Rightarrow> bool) \<Rightarrow> 'a list \<Rightarrow> nat option" where
  "first_idx P [] = None"
| "first_idx P (x # xs) = (if P x then Some 0 else map_option Suc (first_idx P xs))"

lemma first_idx_None [simp]: "first_idx P xs = None \<longleftrightarrow> (\<forall>x \<in> set xs. \<not> P x)"
  by (induction xs) auto

lemma first_idx_Some:
  "first_idx P xs = Some i \<longleftrightarrow> i < length xs \<and> P (xs ! i) \<and> (\<forall>j < i. \<not> P (xs ! j))"
proof (induction xs arbitrary: i)
  case Nil
  then show ?case by simp
next
  case (Cons x xs)
  show ?case
    by (cases i) (auto simp: Cons.IH nth_Cons split: nat.splits)
qed

lemma first_idx_SomeD:
  assumes "first_idx P xs = Some i"
  shows "i < length xs" "P (xs ! i)" "\<And>j. j < i \<Longrightarrow> \<not> P (xs ! j)"
  using assms by (auto simp: first_idx_Some)

section \<open>Buffers\<close>

text \<open>
  Arrays are lists of their full size. A write or a read outside the array is \<open>None\<close>, so that
  memory safety is a theorem: the operation is never \<open>None\<close> in a valid state.
\<close>

definition store :: "'a list \<Rightarrow> nat \<Rightarrow> 'a \<Rightarrow> 'a list option" where
  "store xs i v = (if i < length xs then Some (xs[i := v]) else None)"

definition load :: "'a list \<Rightarrow> nat \<Rightarrow> 'a option" where
  "load xs i = (if i < length xs then Some (xs ! i) else None)"

text \<open>\<open>memcpy(dst + off, src, length src)\<close>: the bytes after the copy keep their value.\<close>

definition blit :: "'a list \<Rightarrow> nat \<Rightarrow> 'a list \<Rightarrow> 'a list option" where
  "blit dst off src =
     (if off + length src \<le> length dst
      then Some (take off dst @ src @ drop (off + length src) dst) else None)"

text \<open>A region of a buffer, \<open>len\<close> bytes from \<open>off\<close>.\<close>

definition region :: "'a list \<Rightarrow> nat \<Rightarrow> nat \<Rightarrow> 'a list" where
  "region xs off len = take len (drop off xs)"

lemma store_Some [buf_simps]: "i < length xs \<Longrightarrow> store xs i v = Some (xs[i := v])"
  by (simp add: store_def)

lemma load_Some [buf_simps]: "i < length xs \<Longrightarrow> load xs i = Some (xs ! i)"
  by (simp add: load_def)

lemma blit_Some [buf_simps]:
  "off + length src \<le> length dst \<Longrightarrow>
     blit dst off src = Some (take off dst @ src @ drop (off + length src) dst)"
  by (simp add: blit_def)

lemma blit_length: "blit dst off src = Some d \<Longrightarrow> length d = length dst"
  by (auto simp: blit_def split: if_splits)

lemma length_region [buf_simps]: "off + len \<le> length xs \<Longrightarrow> length (region xs off len) = len"
  by (simp add: region_def)

lemma region_self [buf_simps]: "region xs 0 (length xs) = xs"
  by (simp add: region_def)

lemma two_elems: "2 \<le> length xs \<longleftrightarrow> (\<exists>a b ys. xs = a # b # ys)"
  by (cases xs; cases "tl xs") auto

lemma take_list_update_snoc: "i < length xs \<Longrightarrow> take (Suc i) (xs[i := v]) = take i xs @ [v]"
  by (simp add: take_Suc_conv_app_nth)

section \<open>C strings\<close>

text \<open>
  A \<^verbatim>\<open>char[n]\<close> is a list of \<open>n\<close> characters; the C string it holds is what precedes the first NUL.
\<close>

definition NUL :: char where "NUL = CHR 0x00"

definition cstr :: "string \<Rightarrow> string" where
  "cstr buf = takeWhile (\<lambda>c. c \<noteq> NUL) buf"

text \<open>\<open>strncpy(dst, src, n)\<close>: at most \<open>n\<close> characters of the C string, padded with NULs to \<open>n\<close>.\<close>

definition strncpy :: "string \<Rightarrow> string \<Rightarrow> nat \<Rightarrow> string" where
  "strncpy dst src n = take n (cstr src @ replicate n NUL) @ drop n dst"

text \<open>
  \<open>snprintf(buf, n, ...)\<close> with the text \<open>s\<close> to print leaves at most \<open>n - 1\<close> of its characters in
  \<open>buf\<close>; the conversions \<open>%d\<close>, \<open>%u\<close> and \<open>%ld\<close> print a number in decimal.
\<close>

definition snprintf_str :: "nat \<Rightarrow> string \<Rightarrow> string" where
  "snprintf_str n s = take (n - 1) s"

function show_nat :: "nat \<Rightarrow> string" where
  "show_nat n = (if n < 10 then [char_of (48 + n)] else show_nat (n div 10) @ [char_of (48 + n mod 10)])"
  by pat_completeness auto
termination by (relation "measure id") auto

declare show_nat.simps [simp del]

definition show_int :: "int \<Rightarrow> string" where
  "show_int i = (if i < 0 then CHR ''-'' # show_nat (nat (- i)) else show_nat (nat i))"

lemma length_show_nat: "n < 10 ^ k \<Longrightarrow> 0 < k \<Longrightarrow> length (show_nat n) \<le> k"
proof (induction n arbitrary: k rule: show_nat.induct)
  case (1 n)
  show ?case
  proof (cases "n < 10")
    case True
    then show ?thesis using 1 by (subst show_nat.simps) simp
  next
    case False
    then obtain j where j: "k = Suc j" "0 < j" using "1.prems" by (cases k; cases "k - 1") auto
    have "n div 10 < 10 ^ j" using "1.prems"(1) j by (simp add: less_mult_imp_div_less mult.commute)
    with 1 False j show ?thesis by (subst show_nat.simps) simp
  qed
qed

lemma show_nat_no_NUL: "NUL \<notin> set (show_nat n)"
proof (induction n rule: show_nat.induct)
  case (1 n)
  have d: "char_of (48 + k) \<noteq> NUL" if "k < 10" for k :: nat
    using that by (simp add: NUL_def char_of_eq_iff take_bit_eq_mod)
  show ?case using 1 d by (subst show_nat.simps) (auto simp: d [symmetric])
qed

lemma length_strncpy [cstr_simps]: "n \<le> length dst \<Longrightarrow> length (strncpy dst src n) = length dst"
  by (simp add: strncpy_def)

lemma cstr_no_NUL: "NUL \<notin> set (cstr xs)"
  by (auto simp: cstr_def dest: set_takeWhileD)

lemma cstr_id [cstr_simps]: "NUL \<notin> set xs \<Longrightarrow> cstr xs = xs"
  by (auto simp: cstr_def takeWhile_eq_all_conv)

lemma cstr_append_NUL [cstr_simps]: "NUL \<notin> set xs \<Longrightarrow> cstr (xs @ NUL # ys) = xs"
  by (induction xs) (auto simp: cstr_def)

lemma cstr_NUL [cstr_simps]: "cstr (NUL # xs) = []"
  by (simp add: cstr_def)

lemma cstr_take_no_NUL: "NUL \<notin> set (take n (cstr xs))"
  using cstr_no_NUL by (metis in_set_takeD)

lemma length_cstr: "length (cstr xs) \<le> length xs"
  by (simp add: cstr_def length_takeWhile_le)

lemma cstr_idem [cstr_simps]: "cstr (cstr xs) = cstr xs"
  by (simp add: cstr_id cstr_no_NUL)

lemma length_cstr_less: "NUL \<in> set xs \<Longrightarrow> length (cstr xs) < length xs"
  unfolding cstr_def by (induction xs) auto

lemma cstr_split: "NUL \<in> set xs \<Longrightarrow> \<exists>r. xs = cstr xs @ NUL # r"
  by (induction xs) (auto simp: cstr_def)

section \<open>Words\<close>

lemma word_xor_eq_0: "x XOR y = 0 \<longleftrightarrow> x = (y :: 'a::len word)"
  by (auto simp: bit_eq_iff bit_xor_iff)

lemma word_xor_cancel:
  "x XOR z = y XOR z \<longleftrightarrow> x = (y :: 'a::len word)"
  "z XOR x = z XOR y \<longleftrightarrow> x = y"
  by (auto simp: bit_eq_iff bit_xor_iff)

lemma word_less_Suc_iff:
  assumes "n \<noteq> - 1"
  shows "x < n + 1 \<longleftrightarrow> x \<le> (n :: 'a::len word)"
proof -
  have "1 + n \<noteq> 0" using assms by (metis add_eq_0_iff neg_equal_iff_equal)
  then have "unat (n + 1) = Suc (unat n)" using unatSuc [of n] by (simp add: add.commute)
  then show ?thesis by (simp only: word_less_nat_alt word_le_nat_alt less_Suc_eq_le)
qed

section \<open>Invariants of event-driven components\<close>

text \<open>
  Every event-driven component of the bridge (a task's receive loop, a callback, a timer) is a
  step function on its state. The locale lifts an invariant from one event to any sequence.
\<close>

locale invariant_system =
  fixes step :: "'s \<Rightarrow> 'e \<Rightarrow> 's"
    and inv :: "'s \<Rightarrow> bool"
  assumes step_inv: "inv s \<Longrightarrow> inv (step s e)"
begin

lemma run_inv: "inv s \<Longrightarrow> inv (foldl step s es)"
  by (induction es arbitrary: s) (auto intro: step_inv)

lemma run_stable:
  assumes "inv s" and "\<And>t e. inv t \<Longrightarrow> f (step t e) = f t"
  shows "f (foldl step s es) = f s"
  using assms(1)
proof (induction es arbitrary: s)
  case (Cons e es)
  then show ?case using assms(2) by (auto simp: step_inv)
qed simp

lemma run_mono:
  fixes f :: "'s \<Rightarrow> nat"
  assumes "inv s" and "\<And>t e. inv t \<Longrightarrow> f t \<le> f (step t e)"
  shows "f s \<le> f (foldl step s es)"
  using assms(1)
proof (induction es arbitrary: s)
  case (Cons e es)
  have "f s \<le> f (step s e)" using Cons.prems assms(2) by blast
  also have "\<dots> \<le> f (foldl step (step s e) es)" using Cons by (simp add: step_inv)
  finally show ?case by simp
qed simp

end

section \<open>Simulation\<close>

text \<open>
  Running a sequence of operations on a concrete state, where an operation may fail, and on an
  abstract one; and the sequences that respect a precondition of each operation.
\<close>

fun c_run :: "('c \<Rightarrow> 'o \<Rightarrow> ('c \<times> 'r) option) \<Rightarrow> 'c \<Rightarrow> 'o list \<Rightarrow> ('c \<times> 'r list) option" where
  "c_run cstep c [] = Some (c, [])"
| "c_run cstep c (e # es) = (case cstep c e of None \<Rightarrow> None
     | Some (c', r) \<Rightarrow> map_option (\<lambda>(c'', rs). (c'', r # rs)) (c_run cstep c' es))"

fun a_run :: "('a \<Rightarrow> 'o \<Rightarrow> 'a \<times> 'r) \<Rightarrow> 'a \<Rightarrow> 'o list \<Rightarrow> 'a \<times> 'r list" where
  "a_run astep a [] = (a, [])"
| "a_run astep a (e # es) = (let (a', r) = astep a e; (a'', rs) = a_run astep a' es in (a'', r # rs))"

fun valid_run :: "('a \<Rightarrow> 'o \<Rightarrow> 'a \<times> 'r) \<Rightarrow> ('a \<Rightarrow> 'o \<Rightarrow> bool) \<Rightarrow> 'a \<Rightarrow> 'o list \<Rightarrow> bool" where
  "valid_run astep pre a [] \<longleftrightarrow> True"
| "valid_run astep pre a (e # es) \<longleftrightarrow> pre a e \<and> valid_run astep pre (fst (astep a e)) es"

locale simulation =
  fixes cstep :: "'c \<Rightarrow> 'o \<Rightarrow> ('c \<times> 'r) option"
    and astep :: "'a \<Rightarrow> 'o \<Rightarrow> 'a \<times> 'r"
    and rep :: "'c \<Rightarrow> 'a \<Rightarrow> bool"
    and pre :: "'a \<Rightarrow> 'o \<Rightarrow> bool"
  assumes sim: "rep c a \<Longrightarrow> pre a e \<Longrightarrow>
    \<exists>c'. cstep c e = Some (c', snd (astep a e)) \<and> rep c' (fst (astep a e))"
begin

lemma run_sim:
  "rep c a \<Longrightarrow> valid_run astep pre a es \<Longrightarrow>
     \<exists>c'. c_run cstep c es = Some (c', snd (a_run astep a es)) \<and> rep c' (fst (a_run astep a es))"
proof (induction es arbitrary: c a)
  case (Cons e es)
  obtain c1 where c1: "cstep c e = Some (c1, snd (astep a e))" "rep c1 (fst (astep a e))"
    using sim [of c a e] Cons.prems by auto
  then show ?case using Cons.IH [OF c1(2)] Cons.prems by (auto simp: Let_def split: prod.splits)
qed simp

end

end
