(* ===== verification/Crc.thy ===== *)
theory Crc
  imports Bridge_Prelude
begin

text \<open>
  The table-driven checksums: the CRC-16/XMODEM of \<^verbatim>\<open>framework/src/mmutils/mmcrc.c\<close>.
  The locale \<open>table_crc\<close> relates any table-driven CRC to the bit-serial shift register it
  stands for once; \<open>detecting_crc\<close> adds what a polynomial with a constant term detects.
\<close>

section \<open>The bit-serial reference\<close>

text \<open>
  One clock of a most-significant-bit-first CRC register: shift left, and add (xor) the
  polynomial when a one is shifted out. A byte is fed by adding it to the top eight bits and
  clocking eight times.
\<close>

definition crc_bit :: "'a::len word \<Rightarrow> 'a word \<Rightarrow> 'a word" where
  "crc_bit poly c = push_bit 1 c XOR (if bit c (LENGTH('a) - 1) then poly else 0)"

definition crc_byte :: "'a::len word \<Rightarrow> 'a word \<Rightarrow> u8 \<Rightarrow> 'a word" where
  "crc_byte poly c d = (crc_bit poly ^^ 8) (c XOR push_bit (LENGTH('a) - 8) (ucast d))"

definition crc_bytes :: "'a::len word \<Rightarrow> 'a word \<Rightarrow> u8 list \<Rightarrow> 'a word" where
  "crc_bytes poly = foldl (crc_byte poly)"

lemma bit_crc_bit:
  "bit (crc_bit p x) n \<longleftrightarrow>
     ((0 < n \<and> n < LENGTH('a) \<and> bit x (n - 1)) \<noteq>
      (bit x (LENGTH('a) - 1) \<and> bit (p :: 'a::len word) n))"
  by (simp only: crc_bit_def bit_xor_iff bit_push_bit_iff split: if_split) auto

lemma crc_bit_xor: "crc_bit p (x XOR y) = crc_bit p x XOR crc_bit p y"
  by (simp only: bit_eq_iff bit_xor_iff bit_crc_bit) auto

lemma crc_bit_0 [simp]: "crc_bit p 0 = 0"
  by (simp add: crc_bit_def)

lemma crc_bits_xor: "(crc_bit p ^^ n) (x XOR y) = (crc_bit p ^^ n) x XOR (crc_bit p ^^ n) y"
  by (induction n) (simp_all add: crc_bit_xor)

lemma crc_bits_0 [simp]: "(crc_bit p ^^ n) 0 = 0"
  by (induction n) simp_all

text \<open>Clocking is injective when the polynomial has its constant term.\<close>

lemma crc_bit_inj0:
  assumes "odd p" and "crc_bit p x = 0"
  shows "x = (0 :: 'a::len word)"
proof (rule bit_word_eqI)
  have e: "\<not> bit (crc_bit p x) i" for i using assms(2) by simp
  have top: "\<not> bit x (LENGTH('a) - 1)"
    using e [of 0] assms(1) unfolding bit_crc_bit by (simp add: bit_0)
  fix n assume n: "n < LENGTH('a)"
  show "bit x n = bit 0 n"
  proof (cases "Suc n < LENGTH('a)")
    case True
    with e [of "Suc n"] top show ?thesis by (simp add: bit_crc_bit)
  next
    case False
    with n have "n = LENGTH('a) - 1" by linarith
    with top show ?thesis by simp
  qed
qed

lemma crc_bits_inj0: "odd p \<Longrightarrow> (crc_bit p ^^ n) x = 0 \<Longrightarrow> x = 0"
  by (induction n) (auto dest: crc_bit_inj0)

lemma crc_bits_inj: "odd p \<Longrightarrow> (crc_bit p ^^ n) x = (crc_bit p ^^ n) y \<longleftrightarrow> x = y"
  using crc_bits_inj0 [of p n "x XOR y"] by (auto simp: crc_bits_xor word_xor_eq_0)

lemma crc_byte_inj_state: "odd p \<Longrightarrow> crc_byte p c d = crc_byte p c' d \<longleftrightarrow> c = c'"
  by (simp add: crc_byte_def crc_bits_inj word_xor_cancel)

lemma crc_bytes_inj_state: "odd p \<Longrightarrow> crc_bytes p c ds = crc_bytes p c' ds \<longleftrightarrow> c = c'"
  by (induction ds arbitrary: c c') (simp_all add: crc_bytes_def crc_byte_inj_state)

lemma crc_bytes_Nil [simp]: "crc_bytes p c [] = c"
  by (simp add: crc_bytes_def)

lemma crc_bytes_Cons: "crc_bytes p c (x # xs) = crc_bytes p (crc_byte p c x) xs"
  by (simp add: crc_bytes_def)

lemma crc_bytes_append: "crc_bytes p c (xs @ ys) = crc_bytes p (crc_bytes p c xs) ys"
  by (simp add: crc_bytes_def)

text \<open>A low part that fits below the top eight bits is only shifted by eight clocks.\<close>

lemma crc_bits_low:
  assumes "\<And>i. LENGTH('a) - n \<le> i \<Longrightarrow> \<not> bit (x :: 'a::len word) i"
  shows "(crc_bit p ^^ n) x = push_bit n x"
  using assms
proof (induction n)
  case (Suc n)
  have IH: "(crc_bit p ^^ n) x = push_bit n x"
    using Suc by simp
  have top: "\<not> bit (push_bit n x) (LENGTH('a) - 1)"
    using Suc.prems [of "LENGTH('a) - 1 - n"] by (auto simp: bit_push_bit_iff)
  have "(crc_bit p ^^ Suc n) x = crc_bit p (push_bit n x)"
    using IH by simp
  also have "\<dots> = push_bit 1 (push_bit n x)"
    using top unfolding crc_bit_def by (simp only: if_False xor.right_neutral)
  also have "\<dots> = push_bit (Suc n) x"
    by (simp only: push_bit_push_bit plus_1_eq_Suc)
  finally show ?case .
qed simp

section \<open>Table-driven CRCs\<close>

definition crc_table_step :: "'a::len word list \<Rightarrow> 'a word \<Rightarrow> u8 \<Rightarrow> 'a word" where
  "crc_table_step table c d =
     table ! unat (drop_bit (LENGTH('a) - 8) c XOR ucast d) XOR push_bit 8 c"

locale table_crc =
  fixes poly :: "'a::len word"
    and table :: "'a word list"
  assumes width: "8 \<le> LENGTH('a)"
    and table_length: "length table = 256"
    and table_entry: "i < 256 \<Longrightarrow>
          table ! i = (crc_bit poly ^^ 8) (push_bit (LENGTH('a) - 8) (word_of_nat i))"
begin

text \<open>No byte and no register value index the table out of range.\<close>

lemma index_bound: "unat (drop_bit (LENGTH('a) - 8) c XOR ucast (d :: u8) :: 'a word) < 256"
proof -
  let ?w = "drop_bit (LENGTH('a) - 8) c XOR ucast d :: 'a word"
  have "take_bit 8 ?w = ?w"
    using width by (intro bit_word_eqI) (auto simp: bit_simps dest: bit_imp_le_length)
  then have "unat ?w = take_bit 8 (unat ?w)"
    by (simp flip: unsigned_take_bit_eq)
  also have "\<dots> < 2 ^ 8" by (rule take_bit_nat_less_exp)
  finally show ?thesis by simp
qed

lemma split_register:
  "c XOR push_bit (LENGTH('a) - 8) (ucast (d :: u8)) =
     push_bit (LENGTH('a) - 8) (drop_bit (LENGTH('a) - 8) c XOR ucast d)
       XOR take_bit (LENGTH('a) - 8) c"
  by (intro bit_word_eqI) (auto simp: bit_simps dest: bit_imp_le_length)

lemma step_eq: "crc_table_step table c d = crc_byte poly c d"
proof -
  let ?h = "drop_bit (LENGTH('a) - 8) c XOR ucast d :: 'a word"
  let ?l = "take_bit (LENGTH('a) - 8) c"
  have low: "(crc_bit poly ^^ 8) ?l = push_bit 8 c"
  proof -
    have "(crc_bit poly ^^ 8) ?l = push_bit 8 ?l"
      by (rule crc_bits_low) (simp add: bit_take_bit_iff)
    also have "\<dots> = push_bit 8 c"
      by (intro bit_word_eqI) (auto simp: bit_simps)
    finally show ?thesis .
  qed
  have "table ! unat ?h = (crc_bit poly ^^ 8) (push_bit (LENGTH('a) - 8) ?h)"
    using table_entry [OF index_bound] by simp
  then have "crc_table_step table c d =
      (crc_bit poly ^^ 8) (push_bit (LENGTH('a) - 8) ?h) XOR (crc_bit poly ^^ 8) ?l"
    by (simp add: crc_table_step_def low)
  also have "\<dots> = crc_byte poly c d"
    by (simp only: crc_byte_def split_register crc_bits_xor)
  finally show ?thesis .
qed

lemma run_eq: "foldl (crc_table_step table) c ds = crc_bytes poly c ds"
  by (induction ds arbitrary: c) (simp_all add: crc_bytes_def step_eq)

end

locale detecting_crc = table_crc poly table for poly :: "'a::len word" and table +
  assumes poly_odd: "odd poly"
begin

text \<open>Two different bytes at the same place lead to different registers from then on.\<close>

lemma crc_byte_inj:
  assumes "crc_byte poly c x = crc_byte poly c y"
  shows "x = y"
proof (rule bit_word_eqI)
  have "push_bit (LENGTH('a) - 8) (ucast x :: 'a word) = push_bit (LENGTH('a) - 8) (ucast y)"
    using assms by (simp add: crc_byte_def crc_bits_inj [OF poly_odd] word_xor_cancel)
  then have e: "bit (push_bit (LENGTH('a) - 8) (ucast x :: 'a word)) i =
      bit (push_bit (LENGTH('a) - 8) (ucast y :: 'a word)) i" for i by simp
  fix n assume "n < LENGTH(8)"
  with e [of "n + (LENGTH('a) - 8)"] width show "bit x n = bit y n"
    by (auto simp: bit_simps)
qed

lemma detects_byte:
  assumes "x \<noteq> y"
  shows "crc_bytes poly c (pre @ x # post) \<noteq> crc_bytes poly c (pre @ y # post)"
  using crc_byte_inj assms
  by (auto simp: crc_bytes_append crc_bytes_Cons crc_bytes_inj_state [OF poly_odd])

end

section \<open>CRC-16/XMODEM (mmcrc.c)\<close>

definition crc16_xmodem_lookup_table :: "u16 list" where
  "crc16_xmodem_lookup_table =
   [0x0000, 0x1021, 0x2042, 0x3063, 0x4084, 0x50a5, 0x60c6, 0x70e7, 0x8108, 0x9129, 0xa14a, 0xb16b,
    0xc18c, 0xd1ad, 0xe1ce, 0xf1ef, 0x1231, 0x0210, 0x3273, 0x2252, 0x52b5, 0x4294, 0x72f7, 0x62d6,
    0x9339, 0x8318, 0xb37b, 0xa35a, 0xd3bd, 0xc39c, 0xf3ff, 0xe3de, 0x2462, 0x3443, 0x0420, 0x1401,
    0x64e6, 0x74c7, 0x44a4, 0x5485, 0xa56a, 0xb54b, 0x8528, 0x9509, 0xe5ee, 0xf5cf, 0xc5ac, 0xd58d,
    0x3653, 0x2672, 0x1611, 0x0630, 0x76d7, 0x66f6, 0x5695, 0x46b4, 0xb75b, 0xa77a, 0x9719, 0x8738,
    0xf7df, 0xe7fe, 0xd79d, 0xc7bc, 0x48c4, 0x58e5, 0x6886, 0x78a7, 0x0840, 0x1861, 0x2802, 0x3823,
    0xc9cc, 0xd9ed, 0xe98e, 0xf9af, 0x8948, 0x9969, 0xa90a, 0xb92b, 0x5af5, 0x4ad4, 0x7ab7, 0x6a96,
    0x1a71, 0x0a50, 0x3a33, 0x2a12, 0xdbfd, 0xcbdc, 0xfbbf, 0xeb9e, 0x9b79, 0x8b58, 0xbb3b, 0xab1a,
    0x6ca6, 0x7c87, 0x4ce4, 0x5cc5, 0x2c22, 0x3c03, 0x0c60, 0x1c41, 0xedae, 0xfd8f, 0xcdec, 0xddcd,
    0xad2a, 0xbd0b, 0x8d68, 0x9d49, 0x7e97, 0x6eb6, 0x5ed5, 0x4ef4, 0x3e13, 0x2e32, 0x1e51, 0x0e70,
    0xff9f, 0xefbe, 0xdfdd, 0xcffc, 0xbf1b, 0xaf3a, 0x9f59, 0x8f78, 0x9188, 0x81a9, 0xb1ca, 0xa1eb,
    0xd10c, 0xc12d, 0xf14e, 0xe16f, 0x1080, 0x00a1, 0x30c2, 0x20e3, 0x5004, 0x4025, 0x7046, 0x6067,
    0x83b9, 0x9398, 0xa3fb, 0xb3da, 0xc33d, 0xd31c, 0xe37f, 0xf35e, 0x02b1, 0x1290, 0x22f3, 0x32d2,
    0x4235, 0x5214, 0x6277, 0x7256, 0xb5ea, 0xa5cb, 0x95a8, 0x8589, 0xf56e, 0xe54f, 0xd52c, 0xc50d,
    0x34e2, 0x24c3, 0x14a0, 0x0481, 0x7466, 0x6447, 0x5424, 0x4405, 0xa7db, 0xb7fa, 0x8799, 0x97b8,
    0xe75f, 0xf77e, 0xc71d, 0xd73c, 0x26d3, 0x36f2, 0x0691, 0x16b0, 0x6657, 0x7676, 0x4615, 0x5634,
    0xd94c, 0xc96d, 0xf90e, 0xe92f, 0x99c8, 0x89e9, 0xb98a, 0xa9ab, 0x5844, 0x4865, 0x7806, 0x6827,
    0x18c0, 0x08e1, 0x3882, 0x28a3, 0xcb7d, 0xdb5c, 0xeb3f, 0xfb1e, 0x8bf9, 0x9bd8, 0xabbb, 0xbb9a,
    0x4a75, 0x5a54, 0x6a37, 0x7a16, 0x0af1, 0x1ad0, 0x2ab3, 0x3a92, 0xfd2e, 0xed0f, 0xdd6c, 0xcd4d,
    0xbdaa, 0xad8b, 0x9de8, 0x8dc9, 0x7c26, 0x6c07, 0x5c64, 0x4c45, 0x3ca2, 0x2c83, 0x1ce0, 0x0cc1,
    0xef1f, 0xff3e, 0xcf5d, 0xdf7c, 0xaf9b, 0xbfba, 0x8fd9, 0x9ff8, 0x6e17, 0x7e36, 0x4e55, 0x5e74,
    0x2e93, 0x3eb2, 0x0ed1, 0x1ef0]"

text \<open>
  The loop body of \<^verbatim>\<open>mmcrc_16_xmodem\<close>: \<open>crc >> 8\<close> and \<open>*d\<close> are promoted before the xor, so the
  index is their 16-bit xor, and the assignment truncates \<open>crc << 8\<close> to 16 bits.
\<close>

fun mmcrc_16_xmodem :: "u16 \<Rightarrow> u8 list \<Rightarrow> u16" where
  "mmcrc_16_xmodem crc [] = crc"
| "mmcrc_16_xmodem crc (d # ds) =
     mmcrc_16_xmodem
       (crc16_xmodem_lookup_table ! unat (drop_bit 8 crc XOR ucast d) XOR push_bit 8 crc) ds"

lemma funpow_8: "(f ^^ 8) x = f (f (f (f (f (f (f (f x)))))))"
  by (simp add: eval_nat_numeral)

lemma crc_bit_16:
  "crc_bit p (c :: u16) = (if c AND 0x8000 = 0 then c * 2 else c * 2 XOR p)"
proof -
  have "bit c 15 \<longleftrightarrow> c AND 0x8000 \<noteq> 0"
    using bit_iff_and_push_bit_not_eq_0 [of c 15] by simp
  then show ?thesis by (simp add: crc_bit_def)
qed

text \<open>
  The table is linear in the index: the entry of \<open>2 ^ k + i\<close> is the entry of \<open>2 ^ k\<close> xor the
  entry of \<open>i\<close>. The eight entries at the powers of two therefore determine it, and doubling a
  list with each of them in turn rebuilds it.
\<close>

fun grow_table :: "'a::len word list \<Rightarrow> 'a word list \<Rightarrow> 'a word list" where
  "grow_table [] xs = xs"
| "grow_table (b # bs) xs = grow_table bs (xs @ map ((XOR) b) xs)"

lemma grow_table_snoc:
  "grow_table (bs @ [b]) xs = grow_table bs xs @ map ((XOR) b) (grow_table bs xs)"
  by (induction bs xs rule: grow_table.induct) simp_all

lemma of_nat_power_add_xor:
  assumes "i < 2 ^ k"
  shows "word_of_nat (2 ^ k + i) = (word_of_nat (2 ^ k) XOR word_of_nat i :: 'a::len word)"
proof -
  have "\<not> bit i k" using assms by (simp add: bit_iff_odd)
  then have "2 ^ k AND i = 0"
    by (auto intro!: bit_eqI simp: bit_simps)
  then have "2 ^ k + i = 2 ^ k XOR i" by (simp add: disjunctive_xor_eq_or disjunctive_add_eq_or)
  then show ?thesis by (simp add: of_nat_xor_eq)
qed

lemma linear_table:
  fixes E :: "'b::len word \<Rightarrow> 'a::len word"
  assumes lin: "\<And>x y. E (x XOR y) = E x XOR E y" and zero: "E 0 = 0"
  shows "map (\<lambda>i. E (word_of_nat i)) [0..<2 ^ n] =
    grow_table (map (\<lambda>k. E (word_of_nat (2 ^ k))) [0..<n]) [0]"
proof (induction n)
  case 0
  then show ?case using zero by simp
next
  case (Suc n)
  have "[0..<2 ^ Suc n] = [0..<2 ^ n] @ map (\<lambda>i. 2 ^ n + i) [0..<2 ^ n]"
    by (rule nth_equalityI) (auto simp: nth_append)
  then have "map (\<lambda>i. E (word_of_nat i)) [0..<2 ^ Suc n] =
    map (\<lambda>i. E (word_of_nat i)) [0..<2 ^ n] @
    map (\<lambda>i. E (word_of_nat (2 ^ n + i))) [0..<2 ^ n]"
    by (simp only: map_append map_map o_def)
  also have "map (\<lambda>i. E (word_of_nat (2 ^ n + i))) [0..<2 ^ n] =
    map ((XOR) (E (word_of_nat (2 ^ n)))) (map (\<lambda>i. E (word_of_nat i)) [0..<2 ^ n])"
    by (auto simp only: map_map o_def of_nat_power_add_xor lin set_upt atLeastLessThan_iff
        intro!: map_cong)
  finally show ?case
    by (simp only: Suc grow_table_snoc upt_Suc_append map_append list.map zero_le)
qed

lemma crc_table_linear:
  "map (\<lambda>i. (crc_bit p ^^ 8) (push_bit n (word_of_nat i))) [0..<256] =
    grow_table (map (\<lambda>k. (crc_bit p ^^ 8) (push_bit n (word_of_nat (2 ^ k)))) [0..<8]) [0]"
  using linear_table [of "\<lambda>x. (crc_bit p ^^ 8) (push_bit n x)" 8]
  by (simp add: crc_bits_xor push_bit_xor)

lemma crc16_basis:
  "map (\<lambda>k. (crc_bit 0x1021 ^^ 8) (push_bit 8 (word_of_nat (2 ^ k)))) [0..<8] =
     [0x1021, 0x2042, 0x4084, 0x8108, 0x1231, 0x2462, 0x48c4, 0x9188 :: u16]"
  by (simp add: funpow_8 crc_bit_16 upt_rec)

lemma crc16_grown:
  "grow_table [0x1021, 0x2042, 0x4084, 0x8108, 0x1231, 0x2462, 0x48c4, 0x9188 :: u16] [0] =
     crc16_xmodem_lookup_table"
  by (simp add: crc16_xmodem_lookup_table_def)

lemma crc16_table_entries:
  "map (\<lambda>i. (crc_bit 0x1021 ^^ 8) (push_bit 8 (word_of_nat i))) [0..<256] =
     crc16_xmodem_lookup_table"
  by (simp only: crc_table_linear crc16_basis crc16_grown)

lemma table_of_map:
  assumes "map f [0..<256] = t"
  shows "length t = 256" "i < 256 \<Longrightarrow> t ! i = f i"
  using assms by auto

interpretation xmodem: detecting_crc "0x1021 :: u16" crc16_xmodem_lookup_table
  using table_of_map [OF crc16_table_entries] by unfold_locales simp_all

lemma mmcrc_is_table_run:
  "mmcrc_16_xmodem c ds = foldl (crc_table_step crc16_xmodem_lookup_table) c ds"
  by (induction c ds rule: mmcrc_16_xmodem.induct) (simp_all add: crc_table_step_def)

lemma mmcrc_serial: "mmcrc_16_xmodem c ds = crc_bytes 0x1021 c ds"
  by (simp only: mmcrc_is_table_run xmodem.run_eq)

section \<open>Properties\<close>

text \<open>C36: the table-driven loop of \<^verbatim>\<open>mmcrc_16_xmodem\<close> computes the bit-serial CRC with
  polynomial 0x1021, for every start value and every input.\<close>

theorem mmcrc_is_bit_serial: "mmcrc_16_xmodem crc data = crc_bytes 0x1021 crc data"
  by (rule mmcrc_serial)

text \<open>the checksum detects every corruption of a single byte, wherever it is and whatever
  surrounds it.\<close>

theorem mmcrc_detects_byte_error:
  "mmcrc_16_xmodem crc (pre @ x # post) = mmcrc_16_xmodem crc (pre @ y # post) \<longleftrightarrow> x = y"
  unfolding mmcrc_serial using xmodem.detects_byte by blast

end
