(* ===== verification/Slip.thy ===== *)
theory Slip
  imports Bridge_Prelude
begin

text \<open>
  SLIP framing, \<^verbatim>\<open>framework/src/slip/slip.c\<close> and \<^verbatim>\<open>slip.h\<close>: the receive state machine \<open>slip_rx\<close>,
  one character at a time, and the transmitter \<open>slip_tx\<close> over a transport that is a parameter.
  A write outside the receive buffer is \<open>None\<close>.
\<close>

section \<open>State and operations\<close>

definition SLIP_FRAME_END :: u8 where "SLIP_FRAME_END = 0xc0"
definition SLIP_FRAME_ESC :: u8 where "SLIP_FRAME_ESC = 0xdb"
definition SLIP_FRAME_ESC_END :: u8 where "SLIP_FRAME_ESC_END = 0xdc"
definition SLIP_FRAME_ESC_ESC :: u8 where "SLIP_FRAME_ESC_ESC = 0xdd"

lemmas slip_chars =
  SLIP_FRAME_END_def SLIP_FRAME_ESC_def SLIP_FRAME_ESC_END_def SLIP_FRAME_ESC_ESC_def

datatype slip_rx_status =
  SLIP_RX_COMPLETE | SLIP_RX_IN_PROGRESS | SLIP_RX_BUFFER_LIMIT | SLIP_RX_ERROR

record slip_rx_state =
  slip_buffer :: "u8 list"
  slip_buffer_length :: nat
  slip_length :: nat
  slip_escape :: bool
  slip_frame_started :: bool

definition SLIP_RX_STATE_INIT :: "u8 list \<Rightarrow> nat \<Rightarrow> slip_rx_state" where
  "SLIP_RX_STATE_INIT buffer buffer_length =
     \<lparr>slip_buffer = buffer, slip_buffer_length = buffer_length, slip_length = 0,
      slip_escape = False, slip_frame_started = False\<rparr>"

definition slip_rx_state_reinit :: "slip_rx_state \<Rightarrow> u8 list \<Rightarrow> nat \<Rightarrow> slip_rx_state" where
  "slip_rx_state_reinit st buffer buffer_length =
     st\<lparr>slip_buffer := buffer, slip_buffer_length := buffer_length, slip_length := 0,
        slip_escape := False, slip_frame_started := False\<rparr>"

definition slip_rx_append :: "slip_rx_state \<Rightarrow> u8 \<Rightarrow> (slip_rx_state \<times> slip_rx_status) option" where
  "slip_rx_append st c =
     (if slip_length st = slip_buffer_length st
      then Some (st\<lparr>slip_frame_started := False\<rparr>, SLIP_RX_BUFFER_LIMIT)
      else do {
        buf \<leftarrow> store (slip_buffer st) (slip_length st) c;
        Some (st\<lparr>slip_buffer := buf, slip_length := slip_length st + 1\<rparr>, SLIP_RX_IN_PROGRESS)
      })"

definition slip_rx :: "slip_rx_state \<Rightarrow> u8 \<Rightarrow> (slip_rx_state \<times> slip_rx_status) option" where
  "slip_rx st c =
     (if c = SLIP_FRAME_END then
        (if slip_escape st then
           Some (slip_rx_state_reinit st (slip_buffer st) (slip_buffer_length st), SLIP_RX_ERROR)
         else if slip_length st > 0 then Some (st, SLIP_RX_COMPLETE)
         else Some (st\<lparr>slip_frame_started := True\<rparr>, SLIP_RX_IN_PROGRESS))
      else if slip_escape st then
        (let st = st\<lparr>slip_escape := False\<rparr> in
         if c = SLIP_FRAME_ESC_END then slip_rx_append st SLIP_FRAME_END
         else if c = SLIP_FRAME_ESC_ESC then slip_rx_append st SLIP_FRAME_ESC
         else Some (slip_rx_state_reinit st (slip_buffer st) (slip_buffer_length st), SLIP_RX_ERROR))
      else if c = SLIP_FRAME_ESC then Some (st\<lparr>slip_escape := True\<rparr>, SLIP_RX_IN_PROGRESS)
      else if slip_frame_started st then slip_rx_append st c
      else Some (st, SLIP_RX_IN_PROGRESS))"

text \<open>The receive loop of a client: the characters of a stream one after the other.\<close>

fun slip_rx_stream ::
  "slip_rx_state \<Rightarrow> u8 list \<Rightarrow> (slip_rx_state \<times> slip_rx_status list) option" where
  "slip_rx_stream st [] = Some (st, [])"
| "slip_rx_stream st (c # cs) = do {
     (st, r) \<leftarrow> slip_rx st c;
     (st, rs) \<leftarrow> slip_rx_stream st cs;
     Some (st, r # rs)
   }"

text \<open>
  The transport takes a character and its own state and returns its state and an error code. In
  \<open>slip_tx\<close> the \<open>break\<close> after a failed transport call leaves the \<open>switch\<close>, not the loop: the next
  character is still sent and its code replaces the error.
\<close>

type_synonym 's slip_transport = "u8 \<Rightarrow> 's \<Rightarrow> 's \<times> int"

definition slip_tx_char :: "'s slip_transport \<Rightarrow> u8 \<Rightarrow> 's \<Rightarrow> 's \<times> int" where
  "slip_tx_char tx c s =
     (if c = SLIP_FRAME_ESC then
        (let (s, ret) = tx SLIP_FRAME_ESC s in
         if ret \<noteq> 0 then (s, ret) else tx SLIP_FRAME_ESC_ESC s)
      else if c = SLIP_FRAME_END then
        (let (s, ret) = tx SLIP_FRAME_ESC s in
         if ret \<noteq> 0 then (s, ret) else tx SLIP_FRAME_ESC_END s)
      else tx c s)"

fun slip_tx_loop :: "'s slip_transport \<Rightarrow> u8 list \<Rightarrow> int \<Rightarrow> 's \<Rightarrow> 's \<times> int" where
  "slip_tx_loop tx [] ret s = (s, ret)"
| "slip_tx_loop tx (c # packet) ret s =
     (let (s, ret) = slip_tx_char tx c s in slip_tx_loop tx packet ret s)"

definition slip_tx :: "'s slip_transport \<Rightarrow> u8 list \<Rightarrow> 's \<Rightarrow> 's \<times> int" where
  "slip_tx tx packet s =
     (let (s, _) = tx SLIP_FRAME_END s;
          (s, ret) = slip_tx_loop tx packet 0 s;
          (s, _) = tx SLIP_FRAME_END s
      in (s, ret))"

section \<open>The wire format\<close>

text \<open>A transport that records what it is given and never fails: the wire.\<close>

definition wire :: "u8 list slip_transport" where
  "wire c s = (s @ [c], 0)"

definition slip_escape_char :: "u8 \<Rightarrow> u8 list" where
  "slip_escape_char c =
     (if c = SLIP_FRAME_ESC then [SLIP_FRAME_ESC, SLIP_FRAME_ESC_ESC]
      else if c = SLIP_FRAME_END then [SLIP_FRAME_ESC, SLIP_FRAME_ESC_END] else [c])"

definition slip_frame :: "u8 list \<Rightarrow> u8 list" where
  "slip_frame packet = SLIP_FRAME_END # concat (map slip_escape_char packet) @ [SLIP_FRAME_END]"

lemma slip_tx_char_wire: "slip_tx_char wire c s = (s @ slip_escape_char c, 0)"
  by (simp add: slip_tx_char_def wire_def slip_escape_char_def)

lemma slip_tx_loop_wire:
  "slip_tx_loop wire packet 0 s = (s @ concat (map slip_escape_char packet), 0)"
  by (induction packet arbitrary: s) (simp_all add: slip_tx_char_wire)

lemma slip_tx_wire: "slip_tx wire packet s = (s @ slip_frame packet, 0)"
  by (simp add: slip_tx_def slip_tx_loop_wire wire_def slip_frame_def)

section \<open>Memory safety\<close>

definition slip_inv :: "slip_rx_state \<Rightarrow> bool" where
  "slip_inv st \<longleftrightarrow>
     slip_buffer_length st \<le> length (slip_buffer st) \<and> slip_length st \<le> slip_buffer_length st"

lemma slip_inv_init: "n \<le> length buf \<Longrightarrow> slip_inv (SLIP_RX_STATE_INIT buf n)"
  by (simp add: slip_inv_def SLIP_RX_STATE_INIT_def)

lemma slip_rx_append_safe:
  "slip_inv st \<Longrightarrow> \<exists>st' r. slip_rx_append st c = Some (st', r) \<and> slip_inv st'"
  by (auto simp: slip_rx_append_def slip_inv_def buf_simps)

lemma slip_inv_escape: "slip_inv (st\<lparr>slip_escape := b\<rparr>) = slip_inv st"
  by (simp add: slip_inv_def)

lemma slip_inv_reinit: "slip_inv (slip_rx_state_reinit st buf n) \<longleftrightarrow> n \<le> length buf"
  by (simp add: slip_inv_def slip_rx_state_reinit_def)

lemma slip_rx_safe:
  assumes "slip_inv st"
  shows "\<exists>st' r. slip_rx st c = Some (st', r) \<and> slip_inv st'"
proof -
  have le: "slip_buffer_length st \<le> length (slip_buffer st)"
    using assms by (simp add: slip_inv_def)
  have fs: "slip_inv (st\<lparr>slip_frame_started := True\<rparr>)"
    using assms by (simp add: slip_inv_def)
  show ?thesis
    using assms le fs slip_rx_append_safe
    by (simp add: slip_rx_def slip_inv_escape slip_inv_reinit Let_def)
qed

definition slip_rx_next :: "slip_rx_state \<Rightarrow> u8 \<Rightarrow> slip_rx_state" where
  "slip_rx_next st c = (case slip_rx st c of None \<Rightarrow> st | Some (st', _) \<Rightarrow> st')"

interpretation slip: invariant_system slip_rx_next slip_inv
proof
  fix st c
  assume "slip_inv st"
  then obtain st' r where "slip_rx st c = Some (st', r)" "slip_inv st'"
    using slip_rx_safe by blast
  then show "slip_inv (slip_rx_next st c)" by (simp add: slip_rx_next_def)
qed

lemma slip_rx_stream_run:
  assumes "slip_inv st"
  shows "\<exists>rs. slip_rx_stream st cs = Some (foldl slip_rx_next st cs, rs) \<and> length rs = length cs"
  using assms
proof (induction cs arbitrary: st)
  case (Cons c cs)
  obtain st' r where r: "slip_rx st c = Some (st', r)" "slip_inv st'"
    using slip_rx_safe [OF Cons.prems] by blast
  from Cons.IH [OF r(2)] r(1) show ?case by (auto simp: slip_rx_next_def)
qed simp

section \<open>Reception of a frame\<close>

lemma slip_rx_stream_append:
  "slip_rx_stream st (xs @ ys) = do {
     (st, rs) \<leftarrow> slip_rx_stream st xs;
     (st, rs') \<leftarrow> slip_rx_stream st ys;
     Some (st, rs @ rs')
   }"
  by (induction xs arbitrary: st) (auto simp: bind_eq_Some_conv split: prod.splits option.splits
      Option.bind_splits)

text \<open>Inside a frame and with room left, one escaped character appends one byte.\<close>

lemma slip_rx_escape_char:
  assumes "slip_inv st" "slip_frame_started st" "\<not> slip_escape st"
    and "slip_length st < slip_buffer_length st"
  shows "slip_rx_stream st (slip_escape_char c) =
    Some (st\<lparr>slip_buffer := (slip_buffer st)[slip_length st := c],
             slip_length := slip_length st + 1\<rparr>,
          replicate (length (slip_escape_char c)) SLIP_RX_IN_PROGRESS)"
  using assms
  by (simp add: slip_escape_char_def slip_rx_def slip_rx_append_def slip_inv_def buf_simps slip_chars
      split: if_split)

lemma slip_rx_payload:
  assumes "slip_inv st" "slip_frame_started st" "\<not> slip_escape st"
    and "slip_length st + length packet \<le> slip_buffer_length st"
  obtains st' where
    "slip_rx_stream st (concat (map slip_escape_char packet)) =
       Some (st', replicate (length (concat (map slip_escape_char packet))) SLIP_RX_IN_PROGRESS)"
    "slip_inv st'" "slip_frame_started st'" "\<not> slip_escape st'"
    "slip_length st' = slip_length st + length packet"
    "slip_buffer_length st' = slip_buffer_length st"
    "take (slip_length st') (slip_buffer st') = take (slip_length st) (slip_buffer st) @ packet"
  using assms
proof (induction packet arbitrary: st thesis)
  case Nil
  then show ?case by simp
next
  case (Cons c packet)
  let ?st = "st\<lparr>slip_buffer := (slip_buffer st)[slip_length st := c],
                slip_length := slip_length st + 1\<rparr>"
  have inv: "slip_inv ?st" using Cons.prems by (simp add: slip_inv_def)
  obtain st' where st':
    "slip_rx_stream ?st (concat (map slip_escape_char packet)) =
       Some (st', replicate (length (concat (map slip_escape_char packet))) SLIP_RX_IN_PROGRESS)"
    "slip_inv st'" "slip_frame_started st'" "\<not> slip_escape st'"
    "slip_length st' = slip_length ?st + length packet"
    "slip_buffer_length st' = slip_buffer_length ?st"
    "take (slip_length st') (slip_buffer st') = take (slip_length ?st) (slip_buffer ?st) @ packet"
    by (rule Cons.IH [of ?st]) (use inv Cons.prems in simp_all)
  have step: "slip_rx_stream st (slip_escape_char c) =
      Some (?st, replicate (length (slip_escape_char c)) SLIP_RX_IN_PROGRESS)"
    by (rule slip_rx_escape_char) (use Cons.prems in simp_all)
  have tk: "take (slip_length ?st) (slip_buffer ?st) = take (slip_length st) (slip_buffer st) @ [c]"
    using Cons.prems by (simp add: take_list_update_snoc slip_inv_def)
  show ?case
    by (rule Cons.prems(1) [of st'])
       (use st' step tk in \<open>simp_all add: slip_rx_stream_append replicate_add\<close>)
qed

lemma slip_rx_frame:
  assumes inv: "slip_inv st" and st: "\<not> slip_escape st" "slip_length st = 0"
    and fits: "length packet \<le> slip_buffer_length st" and "packet \<noteq> []"
  obtains st' where
    "slip_rx_stream st (slip_frame packet) =
       Some (st', replicate (length (slip_frame packet) - 1) SLIP_RX_IN_PROGRESS
                    @ [SLIP_RX_COMPLETE])"
    "slip_inv st'" "slip_frame_started st'" "\<not> slip_escape st'"
    "take (slip_length st') (slip_buffer st') = packet" "slip_length st' = length packet"
    "slip_buffer_length st' = slip_buffer_length st"
proof -
  let ?st = "st\<lparr>slip_frame_started := True\<rparr>"
  have i: "slip_inv ?st" using inv by (simp add: slip_inv_def)
  obtain st' where st':
    "slip_rx_stream ?st (concat (map slip_escape_char packet)) =
       Some (st', replicate (length (concat (map slip_escape_char packet))) SLIP_RX_IN_PROGRESS)"
    "slip_inv st'" "slip_frame_started st'" "\<not> slip_escape st'"
    "slip_length st' = slip_length ?st + length packet"
    "slip_buffer_length st' = slip_buffer_length ?st"
    "take (slip_length st') (slip_buffer st') = take (slip_length ?st) (slip_buffer ?st) @ packet"
    by (rule slip_rx_payload [of ?st packet]) (use i st fits in simp_all)
  have first: "slip_rx st SLIP_FRAME_END = Some (?st, SLIP_RX_IN_PROGRESS)"
    using st by (simp add: slip_rx_def)
  have last: "slip_rx st' SLIP_FRAME_END = Some (st', SLIP_RX_COMPLETE)"
    using st'(4,5) st \<open>packet \<noteq> []\<close> by (simp add: slip_rx_def)
  show thesis
    by (rule that [of st'])
       (use st' st in \<open>simp_all add: slip_frame_def first last slip_rx_stream_append\<close>)
qed

section \<open>Properties\<close>

text \<open>C21: no stream of characters makes the receiver write outside its buffer. From a fresh state
  every character is processed, each gives one status, and the frame length stays within the
  buffer.\<close>

theorem slip_rx_memory_safe:
  assumes "n \<le> length buf"
  shows "\<exists>st rs. slip_rx_stream (SLIP_RX_STATE_INIT buf n) cs = Some (st, rs) \<and>
    length rs = length cs \<and> slip_length st \<le> slip_buffer_length st \<and>
    slip_buffer_length st \<le> length (slip_buffer st)"
proof -
  have "slip_inv (foldl slip_rx_next (SLIP_RX_STATE_INIT buf n) cs)"
    using slip_inv_init [OF assms] by (rule slip.run_inv)
  then show ?thesis
    using slip_rx_stream_run [OF slip_inv_init [OF assms], of cs] by (auto simp: slip_inv_def)
qed

theorem slip_rx_memory_safe_witness:
  "\<exists>st rs. slip_rx_stream (SLIP_RX_STATE_INIT [0, 0] 2) [0xc0, 1, 2, 3, 0xc0] = Some (st, rs) \<and>
    length rs = length [0xc0, 1, 2, 3, 0xc0 :: u8] \<and> slip_length st \<le> slip_buffer_length st \<and>
    slip_buffer_length st \<le> length (slip_buffer st)"
  by (rule slip_rx_memory_safe) simp

text \<open>C2: transmit then receive is the identity: what \<open>slip_tx\<close> puts on the wire for a non-empty
  packet that fits the receive buffer is reported complete exactly at its last character, with
  the packet in the buffer.\<close>

theorem slip_roundtrip:
  assumes "packet \<noteq> []" "length packet \<le> n" "n \<le> length buf"
  shows "\<exists>cs st. slip_tx wire packet [] = (cs, 0) \<and>
    slip_rx_stream (SLIP_RX_STATE_INIT buf n) cs =
      Some (st, replicate (length cs - 1) SLIP_RX_IN_PROGRESS @ [SLIP_RX_COMPLETE]) \<and>
    take (slip_length st) (slip_buffer st) = packet"
proof -
  obtain st where "slip_rx_stream (SLIP_RX_STATE_INIT buf n) (slip_frame packet) =
      Some (st, replicate (length (slip_frame packet) - 1) SLIP_RX_IN_PROGRESS
                  @ [SLIP_RX_COMPLETE])"
    "take (slip_length st) (slip_buffer st) = packet"
    by (rule slip_rx_frame [of "SLIP_RX_STATE_INIT buf n" packet])
       (use assms in \<open>simp_all add: slip_inv_init SLIP_RX_STATE_INIT_def slip_inv_def\<close>)
  then show ?thesis by (simp add: slip_tx_wire)
qed

theorem slip_roundtrip_witness:
  "\<exists>cs st. slip_tx wire [0xc0, 7, 0xdb] [] = (cs, 0) \<and>
    slip_rx_stream (SLIP_RX_STATE_INIT [0, 0, 0, 0] 4) cs =
      Some (st, replicate (length cs - 1) SLIP_RX_IN_PROGRESS @ [SLIP_RX_COMPLETE]) \<and>
    take (slip_length st) (slip_buffer st) = [0xc0, 7, 0xdb]"
  by (rule slip_roundtrip) simp_all

end
