(* ===== verification/Dns_Forwarder.thy ===== *)
theory Dns_Forwarder
  imports Bridge_Prelude
begin

text \<open>
  The DNS forwarder of the bridge, \<^verbatim>\<open>examples/iperf/main/src/dns_forwarder.c\<close>: the table of pending
  queries, the response cache, and the receive loop of \<open>dns_forwarder_task\<close> as a step on the
  task's state. One event is one return of \<open>lwip_recvfrom\<close>; a step gives the datagrams passed to
  \<open>lwip_sendto\<close>. An access outside an array is \<open>None\<close>.
\<close>

section \<open>Data\<close>

definition DNS_PORT :: u16 where "DNS_PORT = 53"
definition DNS_MAX_PAYLOAD :: nat where "DNS_MAX_PAYLOAD = 512"
definition PENDING_MAX :: nat where "PENDING_MAX = 16"
definition CACHE_ENTRIES :: nat where "CACHE_ENTRIES = 16"
definition CACHE_TTL_SEC :: u32 where "CACHE_TTL_SEC = 120"

lemmas dns_consts = DNS_MAX_PAYLOAD_def PENDING_MAX_def CACHE_ENTRIES_def CACHE_TTL_SEC_def

record sockaddr_in =
  sin_addr :: u32
  sin_port :: u16

record pending_t =
  p_txid :: u16
  p_client :: sockaddr_in
  p_used :: bool

record cache_entry_t =
  c_key :: u32
  c_expire_sec :: u32
  c_len :: u16
  c_payload :: "u8 list"

text \<open>The static variables of the file and the receive buffer of the task.\<close>

record dns_state =
  s_pending :: "pending_t list"
  s_cache :: "cache_entry_t list"
  s_upstream :: sockaddr_in
  s_sock :: int
  s_task :: bool
  dns_buf :: "u8 list"

section \<open>Reading a message\<close>

function dns_question_scan :: "u8 list \<Rightarrow> nat \<Rightarrow> nat \<Rightarrow> nat option" where
  "dns_question_scan buf n i =
     (if i < n then
        case load buf i of
          None \<Rightarrow> None
        | Some b \<Rightarrow>
            if b = 0 then Some ((i - 12) + 1 + 4)
            else if b AND 0xC0 = 0xC0 then Some (2 + 4)
            else dns_question_scan buf n (i + (1 + unat b))
      else Some 0)"
  by pat_completeness auto
termination by (relation "measure (\<lambda>(buf, n, i). n - i)") auto

declare dns_question_scan.simps [simp del]

definition dns_question_len :: "u8 list \<Rightarrow> nat \<Rightarrow> nat option" where
  "dns_question_len buf n = (if n < 13 then Some 0 else dns_question_scan buf n 12)"

definition dns_hash_bytes :: "u8 list \<Rightarrow> u32" where
  "dns_hash_bytes = foldl (\<lambda>h b. h * 31 + ucast b) 0"

definition dns_question_hash :: "u8 list \<Rightarrow> nat \<Rightarrow> u32 option" where
  "dns_question_hash buf n = do {
     qlen \<leftarrow> dns_question_len buf n;
     if qlen = 0 \<or> 12 + qlen > n then Some 0
     else if 12 + qlen \<le> length buf then Some (dns_hash_bytes (region buf 12 qlen))
     else None
   }"

definition get_dns_txid :: "u8 list \<Rightarrow> u16 option" where
  "get_dns_txid buf = do {
     b0 \<leftarrow> load buf 0;
     b1 \<leftarrow> load buf 1;
     Some (push_bit 8 (ucast b0) OR ucast b1)
   }"

definition set_dns_txid :: "u8 list \<Rightarrow> u16 \<Rightarrow> u8 list option" where
  "set_dns_txid buf t = do {
     buf \<leftarrow> store buf 0 (ucast (drop_bit 8 t));
     store buf 1 (ucast (t AND 0xFF))
   }"

definition is_dns_response :: "u8 list \<Rightarrow> nat \<Rightarrow> bool option" where
  "is_dns_response buf n =
     (if n < 12 then Some False
      else do { b \<leftarrow> load buf 2; Some (b AND 0x80 \<noteq> 0) })"

section \<open>Pending queries\<close>

definition pending_put :: "pending_t list \<Rightarrow> u16 \<Rightarrow> sockaddr_in \<Rightarrow> pending_t list" where
  "pending_put ps t c =
     (let e = \<lparr>p_txid = t, p_client = c, p_used = True\<rparr> in
      case first_idx (\<lambda>p. \<not> p_used p) ps of
        Some i \<Rightarrow> ps[i := e]
      | None \<Rightarrow> ps[0 := e])"

definition pending_get :: "pending_t list \<Rightarrow> u16 \<Rightarrow> (pending_t list \<times> sockaddr_in) option" where
  "pending_get ps t =
     (case first_idx (\<lambda>p. p_used p \<and> p_txid p = t) ps of
        Some i \<Rightarrow> Some (ps[i := (ps ! i)\<lparr>p_used := False\<rparr>], p_client (ps ! i))
      | None \<Rightarrow> None)"

section \<open>Response cache\<close>

definition cache_lookup :: "cache_entry_t list \<Rightarrow> u32 \<Rightarrow> u32 \<Rightarrow> nat option" where
  "cache_lookup cs k now = first_idx (\<lambda>c. c_len c > 0 \<and> c_key c = k \<and> c_expire_sec c > now) cs"

text \<open>The slot loop of \<open>cache_store\<close>, with the loop's index, \<open>slot\<close> and \<open>oldest\<close>.\<close>

fun cache_slot :: "cache_entry_t list \<Rightarrow> nat \<Rightarrow> nat \<Rightarrow> u32 \<Rightarrow> nat" where
  "cache_slot [] i slot oldest = slot"
| "cache_slot (c # cs) i slot oldest =
     (if c_len c = 0 then i
      else if c_expire_sec c < oldest then cache_slot cs (i + 1) i (c_expire_sec c)
      else cache_slot cs (i + 1) slot oldest)"

definition cache_store ::
  "cache_entry_t list \<Rightarrow> u32 \<Rightarrow> u8 list \<Rightarrow> u16 \<Rightarrow> u32 \<Rightarrow> cache_entry_t list option" where
  "cache_store cs k data n now =
     (if unat n > DNS_MAX_PAYLOAD then Some cs
      else let slot = cache_slot cs 0 0 (now + 1) in do {
        c \<leftarrow> load cs slot;
        p \<leftarrow> (if unat n \<le> length data then blit (c_payload c) 0 (take (unat n) data) else None);
        store cs slot (c\<lparr>c_key := k, c_expire_sec := now + CACHE_TTL_SEC, c_len := n, c_payload := p\<rparr>)
      })"

section \<open>The task\<close>

text \<open>
  One return of \<open>lwip_recvfrom(s_sock, buf, sizeof(buf), ...)\<close>: its result, the bytes it stored at
  the start of \<open>buf\<close>, the sender, and the tick count read after it. \<open>sane_recv\<close> is what the socket
  interface documents of it: a positive result is the number of bytes stored, at most the size
  given, and nothing is stored otherwise.
\<close>

record dns_recv =
  rx_n :: int
  rx_data :: "u8 list"
  rx_from :: sockaddr_in
  rx_ticks :: u32

definition sane_recv :: "dns_recv \<Rightarrow> bool" where
  "sane_recv e \<longleftrightarrow> (if rx_n e > 0 then int (length (rx_data e)) = rx_n e \<and>
     length (rx_data e) \<le> DNS_MAX_PAYLOAD else rx_data e = [])"

definition now_sec :: "u32 \<Rightarrow> u32 \<Rightarrow> u32" where
  "now_sec portTICK_PERIOD_MS ticks = ticks * portTICK_PERIOD_MS div 1000"

type_synonym dns_out = "u8 list \<times> sockaddr_in"

definition dns_handle_response ::
  "dns_state \<Rightarrow> nat \<Rightarrow> u32 \<Rightarrow> (dns_state \<times> dns_out list) option" where
  "dns_handle_response st n now = do {
     t \<leftarrow> get_dns_txid (dns_buf st);
     case pending_get (s_pending st) t of
       None \<Rightarrow> Some (st, [])
     | Some (ps, c) \<Rightarrow> do {
         let out = [(take n (dns_buf st), c)];
         let st = st\<lparr>s_pending := ps\<rparr>;
         qlen \<leftarrow> dns_question_len (dns_buf st) n;
         if qlen > 0 then do {
           k \<leftarrow> dns_question_hash (dns_buf st) n;
           cs \<leftarrow> cache_store (s_cache st) k (dns_buf st) (word_of_nat n) now;
           Some (st\<lparr>s_cache := cs\<rparr>, out)
         } else Some (st, out)
       }
   }"

definition dns_forward :: "dns_state \<Rightarrow> nat \<Rightarrow> u16 \<Rightarrow> sockaddr_in \<Rightarrow> dns_state \<times> dns_out list" where
  "dns_forward st n t from =
     (st\<lparr>s_pending := pending_put (s_pending st) t from\<rparr>, [(take n (dns_buf st), s_upstream st)])"

definition dns_handle_query ::
  "dns_state \<Rightarrow> nat \<Rightarrow> sockaddr_in \<Rightarrow> u32 \<Rightarrow> (dns_state \<times> dns_out list) option" where
  "dns_handle_query st n from now = do {
     t \<leftarrow> get_dns_txid (dns_buf st);
     qlen \<leftarrow> dns_question_len (dns_buf st) n;
     if qlen > 0 then do {
       k \<leftarrow> dns_question_hash (dns_buf st) n;
       case cache_lookup (s_cache st) k now of
         Some i \<Rightarrow> do {
           let ce = s_cache st ! i;
           buf \<leftarrow> (if unat (c_len ce) \<le> length (c_payload ce)
                  then blit (dns_buf st) 0 (take (unat (c_len ce)) (c_payload ce)) else None);
           buf \<leftarrow> set_dns_txid buf t;
           Some (st\<lparr>dns_buf := buf\<rparr>, [(take (unat (c_len ce)) buf, from)])
         }
       | None \<Rightarrow> Some (dns_forward st n t from)
     } else Some (dns_forward st n t from)
   }"

definition dns_forwarder_iteration ::
  "u32 \<Rightarrow> dns_state \<Rightarrow> dns_recv \<Rightarrow> (dns_state \<times> dns_out list) option" where
  "dns_forwarder_iteration tick_ms st e = do {
     buf \<leftarrow> blit (dns_buf st) 0 (rx_data e);
     let st = st\<lparr>dns_buf := buf\<rparr>;
     if rx_n e \<le> 0 \<or> rx_n e > int DNS_MAX_PAYLOAD then Some (st, [])
     else do {
       let n = nat (rx_n e);
       let now = now_sec tick_ms (rx_ticks e);
       resp \<leftarrow> is_dns_response (dns_buf st) n;
       if resp then dns_handle_response st n now
       else dns_handle_query st n (rx_from e) now
     }
   }"

text \<open>
  Start-up. The results of \<open>lwip_getaddrinfo\<close>, \<open>lwip_socket\<close>, \<open>lwip_bind\<close> and \<open>xTaskCreate\<close> are
  arguments. \<open>buf0\<close> is the uninitialised stack buffer.
\<close>

datatype dns_error = Getaddrinfo_failed | Socket_failed | Bind_failed

definition dns_forwarder_task_setup ::
  "dns_state \<Rightarrow> sockaddr_in option \<Rightarrow> int \<Rightarrow> int \<Rightarrow> u8 list \<Rightarrow> dns_state \<times> dns_error option" where
  "dns_forwarder_task_setup st getaddrinfo sock bound buf0 =
     (case getaddrinfo of
        None \<Rightarrow> (st, Some Getaddrinfo_failed)
      | Some a \<Rightarrow>
          let st = st\<lparr>s_upstream := a, s_sock := sock\<rparr> in
          if sock < 0 then (st, Some Socket_failed)
          else if bound \<noteq> 0 then (st\<lparr>s_sock := - 1\<rparr>, Some Bind_failed)
          else (st\<lparr>dns_buf := buf0\<rparr>, None))"

definition zero_sockaddr :: sockaddr_in where
  "zero_sockaddr = \<lparr>sin_addr = 0, sin_port = 0\<rparr>"

definition zero_pending :: pending_t where
  "zero_pending = \<lparr>p_txid = 0, p_client = zero_sockaddr, p_used = False\<rparr>"

definition zero_cache_entry :: cache_entry_t where
  "zero_cache_entry = \<lparr>c_key = 0, c_expire_sec = 0, c_len = 0, c_payload = replicate DNS_MAX_PAYLOAD 0\<rparr>"

definition dns_forwarder_start :: "dns_state \<Rightarrow> string option \<Rightarrow> bool \<Rightarrow> dns_state" where
  "dns_forwarder_start st upstream_ip created =
     (if upstream_ip = None \<or> s_task st then st
      else st\<lparr>s_pending := replicate PENDING_MAX zero_pending,
              s_cache := replicate CACHE_ENTRIES zero_cache_entry,
              s_task := created\<rparr>)"

section \<open>Transaction ids\<close>

lemma get_dns_txid_eq:
  "2 \<le> length buf \<Longrightarrow> get_dns_txid buf = Some (push_bit 8 (ucast (buf ! 0)) OR ucast (buf ! 1))"
  by (auto simp: two_elems get_dns_txid_def load_def)

lemma get_dns_txid_take: "2 \<le> n \<Longrightarrow> get_dns_txid (take n buf) = get_dns_txid buf"
  by (auto simp: get_dns_txid_def load_def)

lemma get_dns_txid_append: "2 \<le> length xs \<Longrightarrow> get_dns_txid (xs @ ys) = get_dns_txid xs"
  by (auto simp: two_elems get_dns_txid_def load_def)

lemma txid_bytes: "push_bit 8 (ucast (ucast (drop_bit 8 t) :: u8)) OR ucast (ucast (t AND 0xFF) :: u8)
    = (t :: u16)"
proof (rule bit_word_eqI)
  fix n assume n: "n < LENGTH(16)"
  have ff: "bit (0xFF :: u16) n \<longleftrightarrow> n < 8"
    using bit_mask_iff [of 8 n, where 'a = u16] n by (simp add: mask_eq_exp_minus_1)
  show "bit (push_bit 8 (ucast (ucast (drop_bit 8 t) :: u8)) OR ucast (ucast (t AND 0xFF) :: u8)
      :: u16) n = bit t n"
    using n ff by (auto simp: bit_simps)
qed

lemma set_dns_txid_get:
  assumes "2 \<le> length buf"
  shows "\<exists>b. set_dns_txid buf t = Some b \<and> get_dns_txid b = Some t \<and> length b = length buf \<and>
    drop 2 b = drop 2 buf"
  using assms by (auto simp: two_elems set_dns_txid_def store_def get_dns_txid_eq txid_bytes)

section \<open>Bounds of the question parser\<close>

lemma dns_question_scan_safe:
  assumes "n \<le> length buf"
  shows "\<exists>q. dns_question_scan buf n i = Some q"
  using assms
proof (induction buf n i rule: dns_question_scan.induct)
  case (1 buf n i)
  then show ?case
    by (subst dns_question_scan.simps) (simp add: buf_simps)
qed

lemma dns_question_len_safe:
  "n \<le> length buf \<Longrightarrow> \<exists>q. dns_question_len buf n = Some q \<and> (0 < q \<longrightarrow> 13 \<le> n)"
  using dns_question_scan_safe by (auto simp: dns_question_len_def)

lemma dns_question_hash_safe:
  assumes "n \<le> length buf"
  shows "\<exists>h. dns_question_hash buf n = Some h"
proof -
  obtain q where "dns_question_len buf n = Some q" using dns_question_len_safe [OF assms] by blast
  then show ?thesis using assms by (auto simp: dns_question_hash_def)
qed

section \<open>Slots of the cache\<close>

lemma cache_slot_bound:
  "slot < i + length cs \<or> slot = 0 \<and> i = 0 \<and> cs = [] \<Longrightarrow>
     cache_slot cs i slot oldest < i + length cs \<or> cs = [] \<and> cache_slot cs i slot oldest = slot"
proof (induction cs i slot oldest rule: cache_slot.induct)
  case (2 c cs i slot oldest)
  then show ?case by (cases cs) auto
qed simp

lemma cache_slot_less: "cs \<noteq> [] \<Longrightarrow> cache_slot cs 0 0 oldest < length cs"
  using cache_slot_bound [of 0 0 cs oldest] by auto

text \<open>With every entry in use and none expired the loop never changes \<open>slot\<close>.\<close>

lemma cache_slot_all_live:
  "(\<And>c. c \<in> set cs \<Longrightarrow> c_len c \<noteq> 0 \<and> \<not> c_expire_sec c < oldest) \<Longrightarrow>
     cache_slot cs i slot oldest = slot"
  by (induction cs i slot oldest rule: cache_slot.induct) auto

lemma cache_slot_victim:
  "\<exists>c \<in> set cs. c_len c = 0 \<or> c_expire_sec c < oldest \<Longrightarrow>
     \<exists>j < length cs. cache_slot cs i slot oldest = i + j \<and>
       (c_len (cs ! j) = 0 \<or> c_expire_sec (cs ! j) < oldest)"
proof (induction cs i slot oldest rule: cache_slot.induct)
  case (2 c cs i slot oldest)
  let ?dead = "\<lambda>old. \<exists>c \<in> set cs. c_len c = 0 \<or> c_expire_sec c < old"
  consider "c_len c = 0" | "c_len c \<noteq> 0" "c_expire_sec c < oldest" "?dead (c_expire_sec c)"
    | "c_len c \<noteq> 0" "c_expire_sec c < oldest" "\<not> ?dead (c_expire_sec c)"
    | "c_len c \<noteq> 0" "\<not> c_expire_sec c < oldest" "?dead oldest"
    using "2.prems" by auto
  then show ?case
  proof cases
    case 2
    with "2.IH"(1) obtain j where "j < length cs"
      "cache_slot cs (i + 1) i (c_expire_sec c) = i + 1 + j"
      "c_len (cs ! j) = 0 \<or> c_expire_sec (cs ! j) < c_expire_sec c" by blast
    with 2 show ?thesis by (auto intro!: exI [of _ "Suc j"])
  next
    case 3
    then have "cache_slot cs (i + 1) i (c_expire_sec c) = i"
      by (intro cache_slot_all_live) auto
    with 3 show ?thesis by (auto intro!: exI [of _ 0])
  next
    case 4
    with "2.IH"(2) obtain j where "j < length cs" "cache_slot cs (i + 1) slot oldest = i + 1 + j"
      "c_len (cs ! j) = 0 \<or> c_expire_sec (cs ! j) < oldest" by blast
    with 4 show ?thesis by (auto intro!: exI [of _ "Suc j"])
  qed auto
qed simp

definition cache_entry_ok :: "cache_entry_t \<Rightarrow> bool" where
  "cache_entry_ok c \<longleftrightarrow> length (c_payload c) = DNS_MAX_PAYLOAD \<and>
     (c_len c = 0 \<or> 13 \<le> unat (c_len c) \<and> unat (c_len c) \<le> DNS_MAX_PAYLOAD)"

lemma cache_store_eq:
  assumes "cs \<noteq> []" "\<forall>c \<in> set cs. cache_entry_ok c"
    and "unat n \<le> DNS_MAX_PAYLOAD" "unat n \<le> length data"
  shows "cache_store cs k data n now =
    (let i = cache_slot cs 0 0 (now + 1) in
     Some (cs[i := \<lparr>c_key = k, c_expire_sec = now + CACHE_TTL_SEC, c_len = n,
                   c_payload = take (unat n) data @ drop (unat n) (c_payload (cs ! i))\<rparr>]))"
proof -
  let ?i = "cache_slot cs 0 0 (now + 1)"
  have i: "?i < length cs" by (rule cache_slot_less [OF assms(1)])
  then have "cache_entry_ok (cs ! ?i)" using assms(2) by simp
  then have "length (c_payload (cs ! ?i)) = DNS_MAX_PAYLOAD" by (simp add: cache_entry_ok_def)
  with i assms(3,4) show ?thesis
    by (cases "cs ! ?i") (simp add: cache_store_def buf_simps Let_def)
qed

lemma cache_store_ok:
  assumes "cs \<noteq> []" "\<forall>c \<in> set cs. cache_entry_ok c"
    and n: "13 \<le> unat n" "unat n \<le> DNS_MAX_PAYLOAD" "unat n \<le> length data"
  obtains cs' where "cache_store cs k data n now = Some cs'" "length cs' = length cs"
    "\<forall>c \<in> set cs'. cache_entry_ok c"
proof -
  let ?i = "cache_slot cs 0 0 (now + 1)"
  let ?c = "\<lparr>c_key = k, c_expire_sec = now + CACHE_TTL_SEC, c_len = n,
             c_payload = take (unat n) data @ drop (unat n) (c_payload (cs ! ?i))\<rparr>"
  have i: "?i < length cs" by (rule cache_slot_less [OF assms(1)])
  then have "cache_entry_ok (cs ! ?i)" using assms(2) by simp
  then have "cache_entry_ok ?c" using n by (auto simp: cache_entry_ok_def)
  then have "\<forall>c \<in> set (cs[?i := ?c]). cache_entry_ok c"
    using assms(2) set_update_subset_insert [of cs ?i ?c] by blast
  then show thesis
    using cache_store_eq [OF assms(1,2) n(2,3), of k now] that by (simp add: Let_def)
qed

section \<open>The interface of the pending table\<close>

text \<open>
  What the task relies on: \<open>who p t\<close> is the client a reply with transaction id \<open>t\<close> is sent to, and
  \<open>room p\<close> the number of queries that can be added before one is overwritten.
\<close>

datatype ('t, 'c) pending_op = Put 't 'c | Get 't

locale pending_queries =
  fixes put :: "'p \<Rightarrow> 't \<Rightarrow> 'c \<Rightarrow> 'p"
    and get :: "'p \<Rightarrow> 't \<Rightarrow> ('p \<times> 'c) option"
    and who :: "'p \<Rightarrow> 't \<Rightarrow> 'c option"
    and room :: "'p \<Rightarrow> nat"
  assumes put_same: "0 < room p \<Longrightarrow> who p t = None \<Longrightarrow> who (put p t c) t = Some c"
    and put_other: "0 < room p \<Longrightarrow> t' \<noteq> t \<Longrightarrow> who (put p t' c) t = who p t"
    and put_room: "room p \<le> Suc (room (put p t c))"
    and get_who: "map_option snd (get p t) = who p t"
    and get_other: "get p t' = Some (p', c) \<Longrightarrow> t' \<noteq> t \<Longrightarrow> who p' t = who p t"
    and get_room: "get p t' = Some (p', c) \<Longrightarrow> room p \<le> room p'"
begin

fun op_step :: "'p \<Rightarrow> ('t, 'c) pending_op \<Rightarrow> 'p" where
  "op_step p (Put t c) = put p t c"
| "op_step p (Get t) = (case get p t of None \<Rightarrow> p | Some (p', _) \<Rightarrow> p')"

fun op_id :: "('t, 'c) pending_op \<Rightarrow> 't" where
  "op_id (Put t c) = t"
| "op_id (Get t) = t"

lemma op_step_room: "room p \<le> Suc (room (op_step p a))"
proof (cases a)
  case (Get t)
  then show ?thesis using get_room [of p t] by (auto split: option.splits intro: le_SucI)
qed (simp add: put_room)

lemma op_step_other: "0 < room p \<Longrightarrow> op_id a \<noteq> t \<Longrightarrow> who (op_step p a) t = who p t"
  by (cases a) (auto simp: put_other get_other split: option.splits)

text \<open>An outstanding query survives any operations on other ids that do not use up the room.\<close>

lemma survives:
  assumes "length as \<le> room p" "\<forall>a \<in> set as. op_id a \<noteq> t"
  shows "who (foldl op_step p as) t = who p t"
  using assms
proof (induction as arbitrary: p)
  case (Cons a as)
  have "length as \<le> room (op_step p a)" using Cons.prems(1) op_step_room [of p a] by simp
  then have "who (foldl op_step (op_step p a) as) t = who (op_step p a) t"
    using Cons by simp
  then show ?case using Cons.prems op_step_other [of p a t] by simp
qed simp

lemma answered:
  assumes "who p t = None" "Suc (length as) \<le> room p" "\<forall>a \<in> set as. op_id a \<noteq> t"
  shows "\<exists>p'. get (foldl op_step (put p t c) as) t = Some (p', c)"
proof -
  have "length as \<le> room (put p t c)" using assms(2) put_room [of p t c] by simp
  then have "who (foldl op_step (put p t c) as) t = Some c"
    using survives [OF _ assms(3)] put_same [of p t c] assms(1,2) by simp
  then show ?thesis using get_who [of "foldl op_step (put p t c) as" t] by auto
qed

end

definition pending_client :: "pending_t list \<Rightarrow> u16 \<Rightarrow> sockaddr_in option" where
  "pending_client ps t =
     map_option (\<lambda>i. p_client (ps ! i)) (first_idx (\<lambda>p. p_used p \<and> p_txid p = t) ps)"

definition pending_room :: "pending_t list \<Rightarrow> nat" where
  "pending_room ps = length (filter (\<lambda>p. \<not> p_used p) ps)"

lemma pending_client_Cons:
  "pending_client (p # ps) t =
     (if p_used p \<and> p_txid p = t then Some (p_client p) else pending_client ps t)"
  by (simp add: pending_client_def option.map_comp o_def)

lemma pending_client_Nil [simp]: "pending_client [] t = None"
  by (simp add: pending_client_def)

lemma pending_room_0: "pending_room ps = 0 \<longleftrightarrow> first_idx (\<lambda>p. \<not> p_used p) ps = None"
  by (simp add: pending_room_def filter_empty_conv)

lemma pending_put_Cons:
  "pending_put (p # ps) t c =
     (if \<not> p_used p then \<lparr>p_txid = t, p_client = c, p_used = True\<rparr> # ps
      else if pending_room ps = 0 then \<lparr>p_txid = t, p_client = c, p_used = True\<rparr> # ps
      else p # pending_put ps t c)"
  by (cases "first_idx (\<lambda>p. \<not> p_used p) ps")
     (auto simp: pending_put_def pending_room_0 Let_def simp del: first_idx_None)

lemma pending_room_Cons:
  "pending_room (p # ps) = (if p_used p then pending_room ps else Suc (pending_room ps))"
  by (simp add: pending_room_def)

lemma pending_put_client:
  "0 < pending_room ps \<Longrightarrow> pending_client ps t = None \<Longrightarrow> pending_client (pending_put ps t c) t = Some c"
  "0 < pending_room ps \<Longrightarrow> t' \<noteq> t \<Longrightarrow> pending_client (pending_put ps t' c) t = pending_client ps t"
  by (induction ps)
     (auto simp: pending_room_Cons pending_put_Cons pending_client_Cons pending_room_def split: if_splits)

lemma pending_put_room: "pending_room ps \<le> Suc (pending_room (pending_put ps t c))"
  by (induction ps) (auto simp: pending_room_Cons pending_put_Cons pending_room_def [of "[]"])

lemma pending_get_Cons:
  "pending_get (p # ps) t =
     (if p_used p \<and> p_txid p = t then Some (p\<lparr>p_used := False\<rparr> # ps, p_client p)
      else map_option (\<lambda>(ps', c). (p # ps', c)) (pending_get ps t))"
  by (cases "first_idx (\<lambda>p. p_used p \<and> p_txid p = t) ps")
     (auto simp: pending_get_def simp del: first_idx_None)

lemma pending_get_Nil [simp]: "pending_get [] t = None"
  by (simp add: pending_get_def)

lemma pending_get_laws:
  assumes "pending_get ps t' = Some (ps', c)"
  shows "t' \<noteq> t \<Longrightarrow> pending_client ps' t = pending_client ps t"
    and "pending_room ps \<le> pending_room ps'"
  using assms
  by (induction ps arbitrary: ps')
     (auto simp: pending_get_Cons pending_client_Cons pending_room_Cons split: if_splits)

interpretation pq: pending_queries pending_put pending_get pending_client pending_room
proof
  fix p t show "map_option snd (pending_get p t) = pending_client p t"
    by (simp add: pending_get_def pending_client_def split: option.splits)
qed (use pending_put_client pending_put_room pending_get_laws in auto)

lemma length_pending_put [simp]: "length (pending_put ps t c) = length ps"
  by (simp add: pending_put_def Let_def split: option.splits)

lemma length_pending_get: "pending_get ps t = Some (ps', c) \<Longrightarrow> length ps' = length ps"
  by (auto simp: pending_get_def split: option.splits)

section \<open>One iteration of the task\<close>

definition dns_inv :: "dns_state \<Rightarrow> bool" where
  "dns_inv st \<longleftrightarrow> length (s_pending st) = PENDING_MAX \<and> length (s_cache st) = CACHE_ENTRIES \<and>
     length (dns_buf st) = DNS_MAX_PAYLOAD \<and> (\<forall>c \<in> set (s_cache st). cache_entry_ok c)"

lemma dns_inv_txid: "dns_inv st \<Longrightarrow> \<exists>t. get_dns_txid (dns_buf st) = Some t"
  by (simp add: dns_inv_def dns_consts get_dns_txid_eq)

lemma unat_of_nat_16: "n \<le> DNS_MAX_PAYLOAD \<Longrightarrow> unat (word_of_nat n :: u16) = n"
  by (simp add: dns_consts unat_of_nat take_bit_eq_mod)

lemma dns_handle_response_spec:
  assumes inv: "dns_inv st" and n: "n \<le> DNS_MAX_PAYLOAD"
    and t: "get_dns_txid (dns_buf st) = Some t"
  shows "\<exists>st'. dns_handle_response st n now = Some (st',
      case pending_client (s_pending st) t of None \<Rightarrow> [] | Some c \<Rightarrow> [(take n (dns_buf st), c)]) \<and>
    dns_inv st' \<and> s_pending st' = pq.op_step (s_pending st) (Get t) \<and>
    s_upstream st' = s_upstream st"
proof (cases "pending_get (s_pending st) t")
  case None
  then have "pending_client (s_pending st) t = None" by (simp flip: pq.get_who)
  with None inv t show ?thesis by (simp add: dns_handle_response_def)
next
  case (Some a)
  obtain ps c where a: "a = (ps, c)" by (cases a)
  have c: "pending_client (s_pending st) t = Some c" using Some a by (simp flip: pq.get_who)
  have l: "length ps = length (s_pending st)" using Some a length_pending_get by simp
  have nb: "n \<le> length (dns_buf st)" using inv n by (simp add: dns_inv_def)
  obtain q where q: "dns_question_len (dns_buf st) n = Some q" "0 < q \<Longrightarrow> 13 \<le> n"
    using dns_question_len_safe [OF nb] by blast
  obtain k where k: "dns_question_hash (dns_buf st) n = Some k"
    using dns_question_hash_safe [OF nb] by blast
  have un: "unat (word_of_nat n :: u16) = n" by (rule unat_of_nat_16 [OF n])
  show ?thesis
  proof (cases "0 < q")
    case True
    have ne: "s_cache st \<noteq> []" using inv by (auto simp: dns_inv_def dns_consts)
    obtain cs where cs: "cache_store (s_cache st) k (dns_buf st) (word_of_nat n) now = Some cs"
      "length cs = length (s_cache st)" "\<forall>c \<in> set cs. cache_entry_ok c"
      by (rule cache_store_ok [of "s_cache st" "word_of_nat n" "dns_buf st" k now])
         (use inv ne True q(2) n nb un in \<open>simp_all add: dns_inv_def\<close>)
    with True Some a c l q k t inv show ?thesis
      by (simp add: dns_handle_response_def dns_inv_def)
  next
    case False
    with Some a c l q k t inv show ?thesis by (simp add: dns_handle_response_def dns_inv_def)
  qed
qed

lemma dns_forward_inv: "dns_inv st \<Longrightarrow> dns_inv (fst (dns_forward st n t from))"
  by (simp add: dns_forward_def dns_inv_def)

text \<open>A query is answered from the cache with its own transaction id, or forwarded.\<close>

lemma dns_cached_reply:
  assumes inv: "dns_inv st" and i: "cache_lookup (s_cache st) k now = Some i"
  defines "ce \<equiv> s_cache st ! i"
  shows "\<exists>b. (if unat (c_len ce) \<le> length (c_payload ce)
        then blit (dns_buf st) 0 (take (unat (c_len ce)) (c_payload ce)) else None)
        \<bind> (\<lambda>buf. set_dns_txid buf t) = Some b \<and>
      length b = DNS_MAX_PAYLOAD \<and> get_dns_txid (take (unat (c_len ce)) b) = Some t \<and>
      drop 2 (take (unat (c_len ce)) b) = drop 2 (take (unat (c_len ce)) (c_payload ce)) \<and>
      13 \<le> unat (c_len ce) \<and> unat (c_len ce) \<le> DNS_MAX_PAYLOAD"
proof -
  have "ce \<in> set (s_cache st)" "c_len ce > 0"
    using i by (auto simp: cache_lookup_def ce_def first_idx_Some)
  then have ok: "length (c_payload ce) = DNS_MAX_PAYLOAD" "13 \<le> unat (c_len ce)"
    "unat (c_len ce) \<le> DNS_MAX_PAYLOAD"
    using inv by (auto simp: dns_inv_def cache_entry_ok_def)
  let ?b = "take (unat (c_len ce)) (c_payload ce) @ drop (unat (c_len ce)) (dns_buf st)"
  have lb: "length ?b = DNS_MAX_PAYLOAD" using ok inv by (simp add: dns_inv_def)
  obtain b where b: "set_dns_txid ?b t = Some b" "get_dns_txid b = Some t" "length b = length ?b"
    "drop 2 b = drop 2 ?b"
    using set_dns_txid_get [of ?b t] lb by (auto simp: dns_consts)
  have "blit (dns_buf st) 0 (take (unat (c_len ce)) (c_payload ce)) = Some ?b"
    using ok inv by (simp add: blit_def dns_inv_def)
  with b ok lb show ?thesis
    by (simp add: get_dns_txid_take drop_take)
qed

lemma dns_handle_query_spec:
  assumes inv: "dns_inv st" and n: "n \<le> DNS_MAX_PAYLOAD"
    and t: "get_dns_txid (dns_buf st) = Some t"
  obtains
    (cached) st' out where "dns_handle_query st n from now = Some (st', [(out, from)])" "dns_inv st'"
      "s_pending st' = s_pending st" "s_upstream st' = s_upstream st" "get_dns_txid out = Some t"
      "length out \<le> DNS_MAX_PAYLOAD"
  | (forwarded) st' where "dns_handle_query st n from now = Some (st', [(take n (dns_buf st), s_upstream st)])"
      "dns_inv st'" "s_pending st' = pending_put (s_pending st) t from"
      "s_upstream st' = s_upstream st"
proof -
  have nb: "n \<le> length (dns_buf st)" using inv n by (simp add: dns_inv_def)
  obtain q where q: "dns_question_len (dns_buf st) n = Some q"
    using dns_question_len_safe [OF nb] by blast
  obtain k where k: "dns_question_hash (dns_buf st) n = Some k"
    using dns_question_hash_safe [OF nb] by blast
  have fwd: thesis if "dns_handle_query st n from now = Some (dns_forward st n t from)"
    by (rule forwarded [of "fst (dns_forward st n t from)"])
       (use that dns_forward_inv [OF inv] in \<open>simp_all add: dns_forward_def\<close>)
  show thesis
  proof (cases "0 < q \<and> cache_lookup (s_cache st) k now \<noteq> None")
    case True
    then obtain i where i: "cache_lookup (s_cache st) k now = Some i" by blast
    obtain b where b: "(if unat (c_len (s_cache st ! i)) \<le> length (c_payload (s_cache st ! i))
        then blit (dns_buf st) 0 (take (unat (c_len (s_cache st ! i))) (c_payload (s_cache st ! i)))
        else None) \<bind> (\<lambda>buf. set_dns_txid buf t) = Some b"
      "length b = DNS_MAX_PAYLOAD" "get_dns_txid (take (unat (c_len (s_cache st ! i))) b) = Some t"
      using dns_cached_reply [OF inv i] by blast
    show thesis
      by (rule cached [of "st\<lparr>dns_buf := b\<rparr>" "take (unat (c_len (s_cache st ! i))) b"])
         (use b True i q k t inv in
           \<open>auto simp: dns_handle_query_def dns_inv_def bind_eq_Some_conv Let_def split: if_splits\<close>)
  next
    case False
    then show thesis
      by (intro fwd) (use q k t in \<open>auto simp: dns_handle_query_def\<close>)
  qed
qed

lemma dns_iteration_ignored:
  assumes "sane_recv e" "rx_n e \<le> 0"
  shows "dns_forwarder_iteration tick_ms st e = Some (st, [])"
  using assms by (simp add: sane_recv_def dns_forwarder_iteration_def blit_def)

lemma dns_iteration_received:
  assumes inv: "dns_inv st" and e: "sane_recv e" "0 < rx_n e"
  defines "st1 \<equiv> st\<lparr>dns_buf := rx_data e @ drop (length (rx_data e)) (dns_buf st)\<rparr>"
  shows "dns_inv st1"
    and "take (length (rx_data e)) (dns_buf st1) = rx_data e"
    and "2 \<le> rx_n e \<Longrightarrow> get_dns_txid (dns_buf st1) = get_dns_txid (rx_data e)"
    and "dns_forwarder_iteration tick_ms st e =
      (if is_dns_response (rx_data e) (length (rx_data e)) = Some True
       then dns_handle_response st1 (length (rx_data e)) (now_sec tick_ms (rx_ticks e))
       else dns_handle_query st1 (length (rx_data e)) (rx_from e) (now_sec tick_ms (rx_ticks e)))"
proof -
  have n: "rx_n e = int (length (rx_data e))" "length (rx_data e) \<le> DNS_MAX_PAYLOAD"
    using e by (auto simp: sane_recv_def)
  have bl: "length (dns_buf st) = DNS_MAX_PAYLOAD" using inv by (simp add: dns_inv_def)
  show "dns_inv st1" using inv n by (simp add: dns_inv_def st1_def)
  show "take (length (rx_data e)) (dns_buf st1) = rx_data e" by (simp add: st1_def)
  show "get_dns_txid (dns_buf st1) = get_dns_txid (rx_data e)" if "2 \<le> rx_n e"
    using that n by (simp add: st1_def get_dns_txid_append)
  have r: "is_dns_response (dns_buf st1) (length (rx_data e)) =
      is_dns_response (rx_data e) (length (rx_data e))"
    by (simp add: is_dns_response_def st1_def load_def nth_append)
  have s: "is_dns_response (rx_data e) (length (rx_data e)) \<noteq> None"
    by (simp add: is_dns_response_def load_def del: not_None_eq)
  show "dns_forwarder_iteration tick_ms st e =
      (if is_dns_response (rx_data e) (length (rx_data e)) = Some True
       then dns_handle_response st1 (length (rx_data e)) (now_sec tick_ms (rx_ticks e))
       else dns_handle_query st1 (length (rx_data e)) (rx_from e) (now_sec tick_ms (rx_ticks e)))"
    using n bl e s r unfolding st1_def by (auto simp: dns_forwarder_iteration_def blit_def Let_def)
qed

text \<open>
  The summary used below: an iteration never fails, keeps the invariant, sends at most one
  datagram, carrying the transaction id of the datagram received, and changes the pending table by
  at most one operation on that id.
\<close>

definition txid_ok :: "dns_recv \<Rightarrow> dns_out list \<Rightarrow> bool" where
  "txid_ok e out \<longleftrightarrow> length out \<le> 1 \<and>
     (\<forall>(d, a) \<in> set out. length d \<le> DNS_MAX_PAYLOAD \<and>
        (2 \<le> rx_n e \<longrightarrow> get_dns_txid d = get_dns_txid (rx_data e)))"

lemma dns_iteration_ok:
  assumes inv: "dns_inv st" and e: "sane_recv e"
  shows "\<exists>st' out ops. dns_forwarder_iteration tick_ms st e = Some (st', out) \<and> dns_inv st' \<and>
    txid_ok e out \<and> s_upstream st' = s_upstream st \<and>
    s_pending st' = foldl pq.op_step (s_pending st) ops \<and> length ops \<le> 1 \<and>
    (\<forall>a \<in> set ops. 2 \<le> rx_n e \<longrightarrow> Some (pq.op_id a) = get_dns_txid (rx_data e)) \<and>
    (rx_n e \<le> 0 \<longrightarrow> ops = [])"
proof (cases "0 < rx_n e")
  case False
  then show ?thesis
    using inv dns_iteration_ignored [OF e] by (auto simp: txid_ok_def intro!: exI [of _ "[]"])
next
  case True
  note pos = True
  let ?n = "length (rx_data e)"
  let ?st = "st\<lparr>dns_buf := rx_data e @ drop ?n (dns_buf st)\<rparr>"
  let ?now = "now_sec tick_ms (rx_ticks e)"
  note r = dns_iteration_received [OF inv e True]
  have n: "?n \<le> DNS_MAX_PAYLOAD" "2 \<le> rx_n e \<longleftrightarrow> 2 \<le> ?n" using e True by (auto simp: sane_recv_def)
  obtain t where t: "get_dns_txid (dns_buf ?st) = Some t" using dns_inv_txid [OF r(1)] by blast
  show ?thesis
  proof (cases "is_dns_response (rx_data e) ?n = Some True")
    case True
    obtain st' where "dns_handle_response ?st ?n ?now = Some (st',
        case pending_client (s_pending ?st) t of None \<Rightarrow> [] | Some c \<Rightarrow> [(take ?n (dns_buf ?st), c)])"
      "dns_inv st'" "s_pending st' = pq.op_step (s_pending ?st) (Get t)"
      "s_upstream st' = s_upstream ?st"
      using dns_handle_response_spec [OF r(1) n(1) t] by blast
    then show ?thesis
      using True r t n pos
      by (intro exI [of _ st'] exI [of _ "[Get t]"] exI [of _ "case pending_client (s_pending st) t of
          None \<Rightarrow> [] | Some c \<Rightarrow> [(rx_data e, c)]"]) (auto simp: txid_ok_def split: option.splits)
  next
    case False
    show ?thesis
    proof (rule dns_handle_query_spec [OF r(1) n(1) t, of "rx_from e" ?now])
      fix st' out
      assume "dns_handle_query ?st ?n (rx_from e) ?now = Some (st', [(out, rx_from e)])"
        "dns_inv st'" "s_pending st' = s_pending ?st" "s_upstream st' = s_upstream ?st"
        "get_dns_txid out = Some t" "length out \<le> DNS_MAX_PAYLOAD"
      then show ?thesis
        using False r t pos by (intro exI [of _ st'] exI [of _ "[(out, rx_from e)]"] exI [of _ "[] :: (u16, sockaddr_in) pending_op list"])
            (auto simp: txid_ok_def)
    next
      fix st'
      assume "dns_handle_query ?st ?n (rx_from e) ?now =
          Some (st', [(take ?n (dns_buf ?st), s_upstream ?st)])"
        "dns_inv st'" "s_pending st' = pending_put (s_pending ?st) t (rx_from e)"
        "s_upstream st' = s_upstream ?st"
      then show ?thesis
        using False r t n pos
        by (intro exI [of _ st'] exI [of _ "[(rx_data e, s_upstream st)]"]
              exI [of _ "[Put t (rx_from e)]"]) (auto simp: txid_ok_def)
    qed
  qed
qed

section \<open>Runs of the task\<close>

fun dns_run :: "u32 \<Rightarrow> dns_state \<Rightarrow> dns_recv list \<Rightarrow> (dns_state \<times> dns_out list list) option" where
  "dns_run tick_ms st [] = Some (st, [])"
| "dns_run tick_ms st (e # es) = do {
     (st, out) \<leftarrow> dns_forwarder_iteration tick_ms st e;
     (st, outs) \<leftarrow> dns_run tick_ms st es;
     Some (st, out # outs)
   }"

lemma dns_run_append:
  "dns_run tick_ms st (xs @ ys) = do {
     (st, a) \<leftarrow> dns_run tick_ms st xs;
     (st, b) \<leftarrow> dns_run tick_ms st ys;
     Some (st, a @ b)
   }"
  by (induction xs arbitrary: st)
     (auto simp: bind_eq_Some_conv split: prod.splits option.splits Option.bind_splits)

lemma dns_run_ok:
  assumes "dns_inv st" "\<forall>e \<in> set es. sane_recv e"
  shows "\<exists>st' outs. dns_run tick_ms st es = Some (st', outs) \<and> dns_inv st' \<and>
    list_all2 txid_ok es outs \<and> s_upstream st' = s_upstream st"
  using assms
proof (induction es arbitrary: st)
  case (Cons e es)
  obtain st1 out where 1: "dns_forwarder_iteration tick_ms st e = Some (st1, out)" "dns_inv st1"
    "txid_ok e out" "s_upstream st1 = s_upstream st"
    using dns_iteration_ok [of st e tick_ms] Cons.prems by auto
  obtain st' outs where "dns_run tick_ms st1 es = Some (st', outs)" "dns_inv st'"
    "list_all2 txid_ok es outs" "s_upstream st' = s_upstream st1"
    using Cons.IH [OF 1(2)] Cons.prems by auto
  with 1 show ?case by auto
qed simp

text \<open>Datagrams about other transaction ids than \<open>t\<close>.\<close>

definition other_txid :: "u16 \<Rightarrow> dns_recv \<Rightarrow> bool" where
  "other_txid t e \<longleftrightarrow> rx_n e \<le> 0 \<or> 2 \<le> rx_n e \<and> get_dns_txid (rx_data e) \<noteq> Some t"

lemma dns_run_pending:
  assumes "dns_inv st" "\<forall>e \<in> set es. sane_recv e \<and> other_txid t e"
  shows "\<exists>st' outs ops. dns_run tick_ms st es = Some (st', outs) \<and> dns_inv st' \<and>
    length ops \<le> length es \<and> (\<forall>a \<in> set ops. pq.op_id a \<noteq> t) \<and>
    s_pending st' = foldl pq.op_step (s_pending st) ops"
  using assms
proof (induction es arbitrary: st)
  case Nil
  then show ?case by (auto intro!: exI [of _ "[]"])
next
  case (Cons e es)
  obtain st1 out ops1 where 1: "dns_forwarder_iteration tick_ms st e = Some (st1, out)"
    "dns_inv st1" "s_pending st1 = foldl pq.op_step (s_pending st) ops1" "length ops1 \<le> 1"
    "\<forall>a \<in> set ops1. 2 \<le> rx_n e \<longrightarrow> Some (pq.op_id a) = get_dns_txid (rx_data e)"
    "rx_n e \<le> 0 \<longrightarrow> ops1 = []"
    using dns_iteration_ok [of st e tick_ms] Cons.prems by auto
  have o1: "\<forall>a \<in> set ops1. pq.op_id a \<noteq> t"
    using 1(5,6) Cons.prems by (cases "rx_n e \<le> 0") (auto simp: other_txid_def)
  obtain st' outs ops where "dns_run tick_ms st1 es = Some (st', outs)" "dns_inv st'"
    "length ops \<le> length es" "\<forall>a \<in> set ops. pq.op_id a \<noteq> t"
    "s_pending st' = foldl pq.op_step (s_pending st1) ops"
    using Cons.IH [OF 1(2)] Cons.prems by auto
  then show ?case
    using 1 o1 by (intro exI [of _ st'] exI [of _ "out # outs"] exI [of _ "ops1 @ ops"]) auto
qed

section \<open>Properties\<close>

lemma dns_start_inv:
  assumes "\<not> s_task st" "length buf0 = DNS_MAX_PAYLOAD" "0 \<le> sock"
  shows "dns_inv (fst (dns_forwarder_task_setup
    (dns_forwarder_start st (Some ip) True) (Some up) sock 0 buf0))"
  using assms
  by (auto simp: dns_inv_def dns_forwarder_task_setup_def dns_forwarder_start_def Let_def
      cache_entry_ok_def zero_cache_entry_def)

text \<open>C1: once started, the forwarder never leaves its arrays, whatever it receives: every receive
  is handled without an out-of-range access, and at most one datagram is sent for it, of at most
  512 bytes and carrying the transaction id of the datagram received.\<close>

theorem dns_forwarder_safe:
  assumes "\<not> s_task st0" "length buf0 = DNS_MAX_PAYLOAD" "0 \<le> sock"
    and "\<forall>e \<in> set es. sane_recv e"
  shows "\<exists>st outs. dns_run tick_ms (fst (dns_forwarder_task_setup
      (dns_forwarder_start st0 (Some ip) True) (Some up) sock 0 buf0)) es = Some (st, outs) \<and>
    list_all2 (\<lambda>e out. length out \<le> 1 \<and>
      (\<forall>(d, a) \<in> set out. length d \<le> DNS_MAX_PAYLOAD \<and>
         (2 \<le> rx_n e \<longrightarrow> get_dns_txid d = get_dns_txid (rx_data e)))) es outs"
  using dns_run_ok [OF dns_start_inv [OF assms(1-3)] assms(4), of tick_ms ip up]
  unfolding txid_ok_def by blast

definition idle_state :: dns_state where
  "idle_state = \<lparr>s_pending = [], s_cache = [], s_upstream = zero_sockaddr, s_sock = - 1,
     s_task = False, dns_buf = []\<rparr>"

definition sample_query :: dns_recv where
  "sample_query = \<lparr>rx_n = 18,
     rx_data = [0x12, 0x34, 1, 0, 0, 1, 0, 0, 0, 0, 0, 0, 1, 0x61, 0, 0, 1, 0],
     rx_from = \<lparr>sin_addr = 0xC0A80402, sin_port = 5353\<rparr>, rx_ticks = 100\<rparr>"

definition sample_response :: dns_recv where
  "sample_response = \<lparr>rx_n = 18,
     rx_data = [0x12, 0x34, 0x81, 0, 0, 1, 0, 0, 0, 0, 0, 0, 1, 0x61, 0, 0, 1, 0],
     rx_from = \<lparr>sin_addr = 0x08080808, sin_port = 53\<rparr>, rx_ticks = 200\<rparr>"

theorem dns_forwarder_safe_witness:
  "\<exists>st outs. dns_run 10 (fst (dns_forwarder_task_setup
      (dns_forwarder_start idle_state (Some ''8.8.8.8'') True)
      (Some \<lparr>sin_addr = 0x08080808, sin_port = 53\<rparr>) 3 0 (replicate DNS_MAX_PAYLOAD 0)))
      [sample_query, sample_response] = Some (st, outs) \<and>
    list_all2 (\<lambda>e out. length out \<le> 1 \<and>
      (\<forall>(d, a) \<in> set out. length d \<le> DNS_MAX_PAYLOAD \<and>
         (2 \<le> rx_n e \<longrightarrow> get_dns_txid d = get_dns_txid (rx_data e))))
      [sample_query, sample_response] outs"
  by (rule dns_forwarder_safe)
     (simp_all add: idle_state_def sample_query_def sample_response_def sane_recv_def dns_consts)


definition running_state :: dns_state where
  "running_state = fst (dns_forwarder_task_setup
     (dns_forwarder_start idle_state (Some ''8.8.8.8'') True)
     (Some \<lparr>sin_addr = 0x08080808, sin_port = 53\<rparr>) 3 0 (replicate DNS_MAX_PAYLOAD 0))"

lemma running_state_eq:
  "running_state = \<lparr>s_pending = replicate PENDING_MAX zero_pending,
     s_cache = replicate CACHE_ENTRIES zero_cache_entry,
     s_upstream = \<lparr>sin_addr = 0x08080808, sin_port = 53\<rparr>, s_sock = 3, s_task = True,
     dns_buf = replicate DNS_MAX_PAYLOAD 0\<rparr>"
  by (simp add: running_state_def idle_state_def dns_forwarder_task_setup_def dns_forwarder_start_def)

lemma running_state_inv: "dns_inv running_state"
  by (simp add: running_state_eq dns_inv_def cache_entry_ok_def zero_cache_entry_def)

lemma running_state_pending:
  "pending_client (s_pending running_state) t = None" "pending_room (s_pending running_state) = 16"
  by (simp_all add: running_state_eq pending_client_def pending_room_def zero_pending_def dns_consts)

lemma running_state_up: "s_upstream running_state = \<lparr>sin_addr = 0x08080808, sin_port = 53\<rparr>"
  by (simp add: running_state_eq)

lemma sample_query_forwarded:
  "\<exists>st1. dns_forwarder_iteration 10 running_state sample_query =
     Some (st1, [(rx_data sample_query, s_upstream running_state)])"
proof -
  have sane: "sane_recv sample_query" "0 < rx_n sample_query"
    by (simp_all add: sample_query_def sane_recv_def dns_consts)
  note i = dns_iteration_received [OF running_state_inv sane]
  have miss: "cache_lookup (s_cache running_state) k now = None" for k now
    by (simp add: running_state_eq cache_lookup_def zero_cache_entry_def)
  let ?st = "running_state\<lparr>dns_buf := rx_data sample_query @
    drop (length (rx_data sample_query)) (dns_buf running_state)\<rparr>"
  obtain t where t: "get_dns_txid (dns_buf ?st) = Some t" using dns_inv_txid [OF i(1)] by blast
  have n: "length (rx_data sample_query) \<le> length (dns_buf ?st)"
    by (simp add: sample_query_def)
  obtain q k where "dns_question_len (dns_buf ?st) (length (rx_data sample_query)) = Some q"
    "dns_question_hash (dns_buf ?st) (length (rx_data sample_query)) = Some k"
    using dns_question_len_safe [OF n] dns_question_hash_safe [OF n] by blast
  then have "dns_handle_query ?st (length (rx_data sample_query)) (rx_from sample_query) now =
      Some (dns_forward ?st (length (rx_data sample_query)) t (rx_from sample_query))" for now
    using t miss by (simp add: dns_handle_query_def)
  moreover have "is_dns_response (rx_data sample_query) (length (rx_data sample_query)) = Some False"
    by (simp add: sample_query_def is_dns_response_def load_def)
  ultimately show ?thesis using i(4) [of 10] by (simp add: dns_forward_def)
qed


text \<open>the cache answers. A response stored on a miss is found again under its key for the next
  120 seconds, with the bytes that were received, whatever the cache held before.\<close>

theorem cache_store_lookup:
  assumes "cs \<noteq> []" "\<forall>c \<in> set cs. cache_entry_ok c"
    and n: "0 < n" "unat n \<le> DNS_MAX_PAYLOAD" "unat n \<le> length data"
    and miss: "cache_lookup cs k now = None"
    and time: "now \<le> now'" "unat now' < unat now + 120" "unat now + 120 < 2 ^ 32"
  shows "\<exists>cs' i. cache_store cs k data n now = Some cs' \<and> cache_lookup cs' k now' = Some i \<and>
    c_len (cs' ! i) = n \<and> take (unat n) (c_payload (cs' ! i)) = take (unat n) data"
proof -
  let ?i = "cache_slot cs 0 0 (now + 1)"
  let ?e = "\<lparr>c_key = k, c_expire_sec = now + CACHE_TTL_SEC, c_len = n,
            c_payload = take (unat n) data @ drop (unat n) (c_payload (cs ! ?i))\<rparr>"
  have i: "?i < length cs" by (rule cache_slot_less [OF assms(1)])
  have "unat (now + 120) = unat now + 120"
    using time(3) by (simp add: unat_add_lem [THEN iffD1])
  then have live: "now' < c_expire_sec ?e"
    using time(2) by (simp add: CACHE_TTL_SEC_def word_less_nat_alt)
  have dead: "\<not> (c_len c > 0 \<and> c_key c = k \<and> c_expire_sec c > now')" if "c \<in> set cs" for c
    using miss that time(1) by (auto simp: cache_lookup_def)
  have "cache_lookup (cs[?i := ?e]) k now' = Some ?i"
    unfolding cache_lookup_def first_idx_Some using i live n(1) dead by auto
  then show ?thesis
    using cache_store_eq [OF assms(1,2) n(2,3), of k now] i n(3) by (simp add: Let_def)
qed

theorem cache_store_lookup_witness:
  "\<exists>cs' i. cache_store [zero_cache_entry] 7 [1, 2, 3] 3 50 = Some cs' \<and>
    cache_lookup cs' 7 60 = Some i \<and> c_len (cs' ! i) = 3 \<and>
    take (unat (3 :: u16)) (c_payload (cs' ! i)) = take (unat (3 :: u16)) [1, 2, 3]"
  by (rule cache_store_lookup)
     (simp_all add: zero_cache_entry_def cache_entry_ok_def dns_consts cache_lookup_def)

text \<open>which entry a store replaces. While some entry is empty or expired, the entry replaced is
  empty or expired; when all are live it is always entry 0, whichever entry is the oldest.\<close>

theorem cache_store_victim:
  assumes "cs \<noteq> []" "\<forall>c \<in> set cs. cache_entry_ok c" "now \<noteq> - 1"
    and "unat n \<le> DNS_MAX_PAYLOAD" "unat n \<le> length data"
  shows "\<exists>i e. cache_store cs k data n now = Some (cs[i := e]) \<and> i < length cs \<and>
    c_key e = k \<and> c_len e = n \<and>
    (if \<exists>c \<in> set cs. c_len c = 0 \<or> c_expire_sec c \<le> now
     then c_len (cs ! i) = 0 \<or> c_expire_sec (cs ! i) \<le> now else i = 0)"
proof -
  have le: "x < now + 1 \<longleftrightarrow> x \<le> now" for x :: u32
    by (rule word_less_Suc_iff [OF assms(3)])
  let ?i = "cache_slot cs 0 0 (now + 1)"
  have "if \<exists>c \<in> set cs. c_len c = 0 \<or> c_expire_sec c \<le> now
     then c_len (cs ! ?i) = 0 \<or> c_expire_sec (cs ! ?i) \<le> now else ?i = 0"
    using cache_slot_victim [of cs "now + 1" 0 0] cache_slot_all_live [of cs "now + 1" 0 0]
    by (auto simp: le)
  then show ?thesis
    using cache_store_eq [OF assms(1,2,4,5), of k now] cache_slot_less [OF assms(1)]
    by (intro exI [of _ ?i] exI [of _ "\<lparr>c_key = k, c_expire_sec = now + CACHE_TTL_SEC, c_len = n,
      c_payload = take (unat n) data @ drop (unat n) (c_payload (cs ! ?i))\<rparr>"])
      (simp add: Let_def)
qed

theorem cache_store_victim_witness:
  "\<exists>i e. cache_store [zero_cache_entry] 7 [1, 2, 3] 3 50 = Some ([zero_cache_entry][i := e]) \<and>
    i < length [zero_cache_entry] \<and> c_key e = 7 \<and> c_len e = 3 \<and>
    (if \<exists>c \<in> set [zero_cache_entry]. c_len c = 0 \<or> c_expire_sec c \<le> 50
     then c_len ([zero_cache_entry] ! i) = 0 \<or> c_expire_sec ([zero_cache_entry] ! i) \<le> 50
     else i = 0)"
  by (rule cache_store_victim) (simp_all add: zero_cache_entry_def cache_entry_ok_def dns_consts)

text \<open>the cache key does not identify the question: the questions for \<open>Aa\<close> and for \<open>BB\<close>, of any
  type and class, are different and have the same key, so the cached answer to one is sent for the
  other.\<close>

theorem dns_key_collision:
  assumes "length hdr = 12" "length ty = 4"
  shows "dns_question_len (hdr @ [2, 0x41, 0x61, 0] @ ty) 20 = Some 8 \<and>
    dns_question_len (hdr @ [2, 0x42, 0x42, 0] @ ty) 20 = Some 8 \<and>
    dns_question_hash (hdr @ [2, 0x41, 0x61, 0] @ ty) 20 =
      dns_question_hash (hdr @ [2, 0x42, 0x42, 0] @ ty) 20"
proof -
  have len: "dns_question_len (hdr @ [2, a, b, 0] @ ty) 20 = Some 8" for a b :: u8
    using assms by (simp add: dns_question_len_def dns_question_scan.simps load_def nth_append)
  have reg: "region (hdr @ xs @ ty) 12 8 = xs @ ty" if "length xs = 4" for xs
    using assms that by (simp add: region_def)
  have "dns_question_hash (hdr @ [2, a, b, 0] @ ty) 20 =
      Some (dns_hash_bytes ([2, a, b, 0] @ ty))" for a b :: u8
    unfolding dns_question_hash_def len using assms reg [of "[2, a, b, 0]"] by simp
  with len show ?thesis by (simp add: dns_hash_bytes_def)
qed

theorem dns_key_collision_witness:
  "dns_question_len (replicate 12 0 @ [2, 0x41, 0x61, 0] @ [0, 1, 0, 1]) 20 = Some 8 \<and>
   dns_question_len (replicate 12 0 @ [2, 0x42, 0x42, 0] @ [0, 1, 0, 1]) 20 = Some 8 \<and>
   dns_question_hash (replicate 12 0 @ [2, 0x41, 0x61, 0] @ [0, 1, 0, 1]) 20 =
     dns_question_hash (replicate 12 0 @ [2, 0x42, 0x42, 0] @ [0, 1, 0, 1]) 20"
  by (rule dns_key_collision) simp_all

end
