(* ===== verification/Settings.thy ===== *)
theory Settings
  imports Bridge_Prelude
begin

text \<open>
  The persistent settings of the bridge, \<^verbatim>\<open>examples/iperf/main/src/settings.c\<close> and \<^verbatim>\<open>settings.h\<close>.
  The non-volatile storage library is a parameter: a record of its operations on an abstract
  store. \<open>nvs_reads_ok\<close> and \<open>nvs_laws\<close> state what its documentation promises.
\<close>

section \<open>Data\<close>

definition SETTINGS_NS :: string where "SETTINGS_NS = ''bridge''"
definition SETTINGS_MAX_SSID :: nat where "SETTINGS_MAX_SSID = 32"
definition SETTINGS_MAX_PASS :: nat where "SETTINGS_MAX_PASS = 64"
definition SETTINGS_MAX_COUNTRY :: nat where "SETTINGS_MAX_COUNTRY = 4"

definition BUFFER_PRESET_3 :: u8 where "BUFFER_PRESET_3 = 2"
definition LANG_EN :: u8 where "LANG_EN = 0"
definition LANG_ES :: u8 where "LANG_ES = 1"
definition LANG_ZH :: u8 where "LANG_ZH = 2"

lemmas settings_sizes = SETTINGS_MAX_SSID_def SETTINGS_MAX_PASS_def SETTINGS_MAX_COUNTRY_def

record bridge_settings_t =
  halow_ssid :: string
  halow_pass :: string
  ap_ssid :: string
  ap_pass :: string
  country :: string
  buffer_preset :: u8
  ui_lang :: u8

definition NVS_KEY_HALOW_SSID :: string where "NVS_KEY_HALOW_SSID = ''h_ssid''"
definition NVS_KEY_HALOW_PASS :: string where "NVS_KEY_HALOW_PASS = ''h_pass''"
definition NVS_KEY_AP_SSID :: string where "NVS_KEY_AP_SSID = ''ap_ssid''"
definition NVS_KEY_AP_PASS :: string where "NVS_KEY_AP_PASS = ''ap_pass''"
definition NVS_KEY_COUNTRY :: string where "NVS_KEY_COUNTRY = ''country''"
definition NVS_KEY_BUFFER :: string where "NVS_KEY_BUFFER = ''buffer''"
definition NVS_KEY_LANG :: string where "NVS_KEY_LANG = ''lang''"

lemmas nvs_keys = NVS_KEY_HALOW_SSID_def NVS_KEY_HALOW_PASS_def NVS_KEY_AP_SSID_def
  NVS_KEY_AP_PASS_def NVS_KEY_COUNTRY_def NVS_KEY_BUFFER_def NVS_KEY_LANG_def

definition DEFAULT_HALOW_SSID :: string where "DEFAULT_HALOW_SSID = ''Halow1''"
definition DEFAULT_HALOW_PASS :: string where "DEFAULT_HALOW_PASS = ''letmein111''"
definition DEFAULT_AP_SSID :: string where "DEFAULT_AP_SSID = ''XIAO_S3_HALOW''"
definition DEFAULT_AP_PASS :: string where "DEFAULT_AP_PASS = ''letmein111''"
definition DEFAULT_COUNTRY :: string where "DEFAULT_COUNTRY = ''US''"
definition DEFAULT_BUFFER_PRESET :: u8 where "DEFAULT_BUFFER_PRESET = BUFFER_PRESET_3"
definition DEFAULT_LANG :: u8 where "DEFAULT_LANG = LANG_EN"

lemmas settings_defaults = DEFAULT_HALOW_SSID_def DEFAULT_HALOW_PASS_def DEFAULT_AP_SSID_def
  DEFAULT_AP_PASS_def DEFAULT_COUNTRY_def DEFAULT_BUFFER_PRESET_def DEFAULT_LANG_def
  BUFFER_PRESET_3_def LANG_EN_def LANG_ES_def LANG_ZH_def

section \<open>The storage library\<close>

text \<open>
  \<open>nvs_open\<close> says whether the namespace opens (with the write mode); \<open>nvs_get_str\<close> gives the bytes
  stored in the caller's buffer when it returns \<open>ESP_OK\<close>, given the buffer's size; the setters and
  \<open>nvs_commit\<close> give the new store and whether they returned \<open>ESP_OK\<close>.
\<close>

record 'n nvs =
  nvs_open :: "'n \<Rightarrow> string \<Rightarrow> bool \<Rightarrow> bool"
  nvs_get_str :: "'n \<Rightarrow> string \<Rightarrow> nat \<Rightarrow> string option"
  nvs_get_u8 :: "'n \<Rightarrow> string \<Rightarrow> u8 option"
  nvs_set_str :: "'n \<Rightarrow> string \<Rightarrow> string \<Rightarrow> 'n \<times> bool"
  nvs_set_u8 :: "'n \<Rightarrow> string \<Rightarrow> u8 \<Rightarrow> 'n \<times> bool"
  nvs_commit :: "'n \<Rightarrow> 'n \<times> bool"

definition nvs_reads_ok :: "'n nvs \<Rightarrow> bool" where
  "nvs_reads_ok nvs \<longleftrightarrow> (\<forall>n k sz b. nvs_get_str nvs n k sz = Some b \<longrightarrow>
     length b \<le> sz \<and> NUL \<in> set b)"

text \<open>
  \<open>good\<close> describes a store that is healthy and has room: every operation succeeds in it, a read
  returns what was last written under the key if it fits the buffer with its terminator, and other
  keys are not affected.
\<close>

definition nvs_same_except :: "'n nvs \<Rightarrow> string \<Rightarrow> 'n \<Rightarrow> 'n \<Rightarrow> bool" where
  "nvs_same_except nvs k n n' \<longleftrightarrow> (\<forall>k'. k' \<noteq> k \<longrightarrow>
     nvs_get_str nvs n' k' = nvs_get_str nvs n k' \<and> nvs_get_u8 nvs n' k' = nvs_get_u8 nvs n k')"

definition nvs_laws :: "'n nvs \<Rightarrow> ('n \<Rightarrow> bool) \<Rightarrow> bool" where
  "nvs_laws nvs good \<longleftrightarrow>
     (\<forall>n ns w. good n \<longrightarrow> nvs_open nvs n ns w) \<and>
     (\<forall>n k v. good n \<longrightarrow> (case nvs_set_str nvs n k v of (n', ok) \<Rightarrow>
        ok \<and> good n' \<and> nvs_same_except nvs k n n' \<and>
        (\<forall>sz. nvs_get_str nvs n' k sz =
           (if length (cstr v) < sz then Some (cstr v @ [NUL]) else None)))) \<and>
     (\<forall>n k v. good n \<longrightarrow> (case nvs_set_u8 nvs n k v of (n', ok) \<Rightarrow>
        ok \<and> good n' \<and> nvs_same_except nvs k n n' \<and> nvs_get_u8 nvs n' k = Some v)) \<and>
     (\<forall>n. good n \<longrightarrow> (case nvs_commit nvs n of (n', ok) \<Rightarrow>
        ok \<and> good n' \<and> nvs_get_str nvs n' = nvs_get_str nvs n \<and>
        nvs_get_u8 nvs n' = nvs_get_u8 nvs n))"

section \<open>Operations\<close>

definition strncpy_default :: "string \<Rightarrow> string \<Rightarrow> nat \<Rightarrow> string" where
  "strncpy_default dst default_val n =
     (if n = 0 then dst else (strncpy dst default_val (n - 1))[n - 1 := NUL])"

text \<open>The partition: \<open>nvs_flash_init\<close> and \<open>nvs_flash_erase\<close> as arguments, on an abstract flash.\<close>

datatype esp_err = ESP_OK | ESP_ERR_NVS_NO_FREE_PAGES | ESP_ERR_NVS_NEW_VERSION_FOUND | ESP_FAIL

definition settings_init :: "('f \<Rightarrow> 'f \<times> esp_err) \<Rightarrow> ('f \<Rightarrow> 'f) \<Rightarrow> 'f \<Rightarrow> 'f" where
  "settings_init nvs_flash_init nvs_flash_erase f =
     (let (f, err) = nvs_flash_init f in
      if err = ESP_ERR_NVS_NO_FREE_PAGES \<or> err = ESP_ERR_NVS_NEW_VERSION_FOUND
      then fst (nvs_flash_init (nvs_flash_erase f)) else f)"

text \<open>\<open>nvs_get_str(h, key, field, &len)\<close>, whose result the code ignores.\<close>

definition read_str :: "'n nvs \<Rightarrow> 'n \<Rightarrow> string \<Rightarrow> nat \<Rightarrow> string \<Rightarrow> string" where
  "read_str nvs n k sz field =
     (case nvs_get_str nvs n k sz of None \<Rightarrow> field | Some b \<Rightarrow> b @ drop (length b) field)"

definition settings_load :: "'n nvs \<Rightarrow> 'n \<Rightarrow> bridge_settings_t \<Rightarrow> bridge_settings_t" where
  "settings_load nvs n out =
     (let out = out\<lparr>
        halow_ssid := strncpy_default (halow_ssid out) DEFAULT_HALOW_SSID SETTINGS_MAX_SSID,
        halow_pass := strncpy_default (halow_pass out) DEFAULT_HALOW_PASS SETTINGS_MAX_PASS,
        ap_ssid := strncpy_default (ap_ssid out) DEFAULT_AP_SSID SETTINGS_MAX_SSID,
        ap_pass := strncpy_default (ap_pass out) DEFAULT_AP_PASS SETTINGS_MAX_PASS,
        country := strncpy_default (country out) DEFAULT_COUNTRY SETTINGS_MAX_COUNTRY,
        buffer_preset := DEFAULT_BUFFER_PRESET,
        ui_lang := DEFAULT_LANG\<rparr> in
      if \<not> nvs_open nvs n SETTINGS_NS False then out
      else out\<lparr>
        halow_ssid := read_str nvs n NVS_KEY_HALOW_SSID SETTINGS_MAX_SSID (halow_ssid out),
        halow_pass := read_str nvs n NVS_KEY_HALOW_PASS SETTINGS_MAX_PASS (halow_pass out),
        ap_ssid := read_str nvs n NVS_KEY_AP_SSID SETTINGS_MAX_SSID (ap_ssid out),
        ap_pass := read_str nvs n NVS_KEY_AP_PASS SETTINGS_MAX_PASS (ap_pass out),
        country := read_str nvs n NVS_KEY_COUNTRY SETTINGS_MAX_COUNTRY (country out),
        buffer_preset := (case nvs_get_u8 nvs n NVS_KEY_BUFFER of
            Some bp \<Rightarrow> if bp \<le> BUFFER_PRESET_3 then bp else buffer_preset out
          | None \<Rightarrow> buffer_preset out),
        ui_lang := (case nvs_get_u8 nvs n NVS_KEY_LANG of
            Some l \<Rightarrow> if l \<le> LANG_ZH then l else ui_lang out
          | None \<Rightarrow> ui_lang out)\<rparr>)"

definition settings_save :: "'n nvs \<Rightarrow> 'n \<Rightarrow> bridge_settings_t \<Rightarrow> 'n \<times> bool" where
  "settings_save nvs n s =
     (if \<not> nvs_open nvs n SETTINGS_NS True then (n, False)
      else
        let n = fst (nvs_set_str nvs n NVS_KEY_HALOW_SSID (halow_ssid s));
            n = fst (nvs_set_str nvs n NVS_KEY_HALOW_PASS (halow_pass s));
            n = fst (nvs_set_str nvs n NVS_KEY_AP_SSID (ap_ssid s));
            n = fst (nvs_set_str nvs n NVS_KEY_AP_PASS (ap_pass s));
            n = fst (nvs_set_str nvs n NVS_KEY_COUNTRY (country s));
            n = fst (nvs_set_u8 nvs n NVS_KEY_BUFFER
                  (if buffer_preset s \<le> BUFFER_PRESET_3 then buffer_preset s
                   else DEFAULT_BUFFER_PRESET));
            n = fst (nvs_set_u8 nvs n NVS_KEY_LANG
                  (if ui_lang s \<le> LANG_ZH then ui_lang s else DEFAULT_LANG))
        in nvs_commit nvs n)"

section \<open>Validity\<close>

text \<open>A character array of the given size holding a terminated string.\<close>

definition holds_str :: "nat \<Rightarrow> string \<Rightarrow> bool" where
  "holds_str sz field \<longleftrightarrow> length field = sz \<and> NUL \<in> set field"

definition settings_arrays :: "bridge_settings_t \<Rightarrow> bool" where
  "settings_arrays s \<longleftrightarrow> length (halow_ssid s) = SETTINGS_MAX_SSID \<and>
     length (halow_pass s) = SETTINGS_MAX_PASS \<and> length (ap_ssid s) = SETTINGS_MAX_SSID \<and>
     length (ap_pass s) = SETTINGS_MAX_PASS \<and> length (country s) = SETTINGS_MAX_COUNTRY"

definition settings_valid :: "bridge_settings_t \<Rightarrow> bool" where
  "settings_valid s \<longleftrightarrow> holds_str SETTINGS_MAX_SSID (halow_ssid s) \<and>
     holds_str SETTINGS_MAX_PASS (halow_pass s) \<and> holds_str SETTINGS_MAX_SSID (ap_ssid s) \<and>
     holds_str SETTINGS_MAX_PASS (ap_pass s) \<and> holds_str SETTINGS_MAX_COUNTRY (country s) \<and>
     buffer_preset s \<le> BUFFER_PRESET_3 \<and> ui_lang s \<le> LANG_ZH"

lemma holds_str_cstr: "holds_str sz field \<Longrightarrow> length (cstr field) < sz"
  by (auto simp: holds_str_def length_cstr_less)

lemma holds_str_set_last: "length xs = sz \<Longrightarrow> 0 < sz \<Longrightarrow> holds_str sz (xs[sz - 1 := NUL])"
  by (auto simp: holds_str_def in_set_conv_nth nth_list_update intro!: exI [of _ "sz - 1"])

lemma strncpy_default_holds:
  "length dst = n \<Longrightarrow> 0 < n \<Longrightarrow> holds_str n (strncpy_default dst v n)"
  using holds_str_set_last [of "strncpy dst v (n - 1)" n]
  by (auto simp: strncpy_default_def length_strncpy)

lemma strncpy_default_cstr:
  assumes "length dst = n" "0 < n"
  shows "cstr (strncpy_default dst v n) = take (n - 1) (cstr v)"
proof -
  have d: "drop (n - Suc 0) dst = [last dst]"
    using assms by (cases dst rule: rev_cases) auto
  have "strncpy_default dst v n =
      take (n - 1) (cstr v) @ replicate (n - 1 - length (cstr v)) NUL @ [NUL]"
    using assms d by (auto simp: strncpy_default_def strncpy_def list_update_append)
  also have "\<dots> = take (n - 1) (cstr v) @ NUL # replicate (n - 1 - length (cstr v)) NUL"
    by (simp add: replicate_app_Cons_same)
  finally show ?thesis by (simp add: cstr_append_NUL cstr_take_no_NUL)
qed

lemma read_str_holds:
  "nvs_reads_ok nvs \<Longrightarrow> holds_str sz field \<Longrightarrow> holds_str sz (read_str nvs n k sz field)"
  by (auto simp: read_str_def holds_str_def nvs_reads_ok_def split: option.splits)

lemma read_str_cstr:
  assumes "nvs_get_str nvs n k sz = Some (v @ [NUL])" "NUL \<notin> set v"
  shows "cstr (read_str nvs n k sz field) = v"
  using assms by (simp add: read_str_def cstr_append_NUL)

section \<open>Writing under the storage laws\<close>

lemma nvs_set_str_good:
  assumes "nvs_laws nvs good" "good n"
  shows "good (fst (nvs_set_str nvs n k v))"
    and "nvs_get_str nvs (fst (nvs_set_str nvs n k v)) k' sz =
      (if k' = k then if length (cstr v) < sz then Some (cstr v @ [NUL]) else None
       else nvs_get_str nvs n k' sz)"
    and "k' \<noteq> k \<Longrightarrow> nvs_get_u8 nvs (fst (nvs_set_str nvs n k v)) k' = nvs_get_u8 nvs n k'"
proof -
  have "case nvs_set_str nvs n k v of (n', ok) \<Rightarrow> ok \<and> good n' \<and> nvs_same_except nvs k n n' \<and>
      (\<forall>sz. nvs_get_str nvs n' k sz = (if length (cstr v) < sz then Some (cstr v @ [NUL]) else None))"
    using assms unfolding nvs_laws_def by (elim conjE) simp
  then show "good (fst (nvs_set_str nvs n k v))"
    and "nvs_get_str nvs (fst (nvs_set_str nvs n k v)) k' sz =
      (if k' = k then if length (cstr v) < sz then Some (cstr v @ [NUL]) else None
       else nvs_get_str nvs n k' sz)"
    and "k' \<noteq> k \<Longrightarrow> nvs_get_u8 nvs (fst (nvs_set_str nvs n k v)) k' = nvs_get_u8 nvs n k'"
    by (auto simp: nvs_same_except_def split: prod.splits)
qed

lemma nvs_set_u8_good:
  assumes "nvs_laws nvs good" "good n"
  shows "good (fst (nvs_set_u8 nvs n k v))"
    and "nvs_get_u8 nvs (fst (nvs_set_u8 nvs n k v)) k' = (if k' = k then Some v else nvs_get_u8 nvs n k')"
    and "k' \<noteq> k \<Longrightarrow> nvs_get_str nvs (fst (nvs_set_u8 nvs n k v)) k' sz = nvs_get_str nvs n k' sz"
proof -
  have "case nvs_set_u8 nvs n k v of (n', ok) \<Rightarrow> ok \<and> good n' \<and> nvs_same_except nvs k n n' \<and>
      nvs_get_u8 nvs n' k = Some v"
    using assms unfolding nvs_laws_def by (elim conjE) simp
  then show "good (fst (nvs_set_u8 nvs n k v))"
    and "nvs_get_u8 nvs (fst (nvs_set_u8 nvs n k v)) k' = (if k' = k then Some v else nvs_get_u8 nvs n k')"
    and "k' \<noteq> k \<Longrightarrow> nvs_get_str nvs (fst (nvs_set_u8 nvs n k v)) k' sz = nvs_get_str nvs n k' sz"
    by (auto simp: nvs_same_except_def split: prod.splits)
qed

lemma nvs_commit_good:
  assumes "nvs_laws nvs good" "good n"
  obtains n' where "nvs_commit nvs n = (n', True)" "good n'" "nvs_get_str nvs n' = nvs_get_str nvs n"
    "nvs_get_u8 nvs n' = nvs_get_u8 nvs n"
proof -
  have "case nvs_commit nvs n of (n', ok) \<Rightarrow> ok \<and> good n' \<and>
      nvs_get_str nvs n' = nvs_get_str nvs n \<and> nvs_get_u8 nvs n' = nvs_get_u8 nvs n"
    using assms unfolding nvs_laws_def by (elim conjE) simp
  then show thesis using that by (auto split: prod.splits)
qed

lemma nvs_laws_open: "nvs_laws nvs good \<Longrightarrow> good n \<Longrightarrow> nvs_open nvs n ns w"
  unfolding nvs_laws_def by blast

definition preset_of :: "bridge_settings_t \<Rightarrow> u8" where
  "preset_of s = (if buffer_preset s \<le> BUFFER_PRESET_3 then buffer_preset s else DEFAULT_BUFFER_PRESET)"

definition lang_of :: "bridge_settings_t \<Rightarrow> u8" where
  "lang_of s = (if ui_lang s \<le> LANG_ZH then ui_lang s else DEFAULT_LANG)"

lemma settings_save_good:
  assumes laws: "nvs_laws nvs good" "good n"
  obtains n' where "settings_save nvs n s = (n', True)" "good n'"
    "nvs_get_str nvs n' = (\<lambda>k sz.
       let str = \<lambda>v. if length (cstr v) < sz then Some (cstr v @ [NUL]) else None in
       if k = NVS_KEY_COUNTRY then str (country s) else if k = NVS_KEY_AP_PASS then str (ap_pass s)
       else if k = NVS_KEY_AP_SSID then str (ap_ssid s)
       else if k = NVS_KEY_HALOW_PASS then str (halow_pass s)
       else if k = NVS_KEY_HALOW_SSID then str (halow_ssid s)
       else nvs_get_str nvs n' k sz)"
    "nvs_get_u8 nvs n' NVS_KEY_BUFFER = Some (preset_of s)"
    "nvs_get_u8 nvs n' NVS_KEY_LANG = Some (lang_of s)"
proof -
  define n1 where "n1 = fst (nvs_set_str nvs n NVS_KEY_HALOW_SSID (halow_ssid s))"
  define n2 where "n2 = fst (nvs_set_str nvs n1 NVS_KEY_HALOW_PASS (halow_pass s))"
  define n3 where "n3 = fst (nvs_set_str nvs n2 NVS_KEY_AP_SSID (ap_ssid s))"
  define n4 where "n4 = fst (nvs_set_str nvs n3 NVS_KEY_AP_PASS (ap_pass s))"
  define n5 where "n5 = fst (nvs_set_str nvs n4 NVS_KEY_COUNTRY (country s))"
  define n6 where "n6 = fst (nvs_set_u8 nvs n5 NVS_KEY_BUFFER (preset_of s))"
  define n7 where "n7 = fst (nvs_set_u8 nvs n6 NVS_KEY_LANG (lang_of s))"
  note str = nvs_set_str_good [OF laws(1)] and u8 = nvs_set_u8_good [OF laws(1)]
  have g1: "good n1" and g2: "good n2" and g3: "good n3" and g4: "good n4" and g5: "good n5"
    and g6: "good n6" and g7: "good n7"
    unfolding n7_def n6_def n5_def n4_def n3_def n2_def n1_def
    by (intro str(1) u8(1) laws(2))+
  have save: "settings_save nvs n s = nvs_commit nvs n7"
    using nvs_laws_open [OF laws]
    by (simp add: settings_save_def n7_def n6_def n5_def n4_def n3_def n2_def n1_def
        preset_of_def lang_of_def Let_def)
  obtain n' where c: "nvs_commit nvs n7 = (n', True)" "good n'"
    "nvs_get_str nvs n' = nvs_get_str nvs n7" "nvs_get_u8 nvs n' = nvs_get_u8 nvs n7"
    by (rule nvs_commit_good [OF laws(1) g7])
  have b: "nvs_get_u8 nvs n7 NVS_KEY_BUFFER = Some (preset_of s)"
    "nvs_get_u8 nvs n7 NVS_KEY_LANG = Some (lang_of s)"
    using u8(2) [OF g6, of NVS_KEY_LANG "lang_of s"] u8(2) [OF g5, of NVS_KEY_BUFFER "preset_of s"]
    by (simp_all add: nvs_keys n7_def n6_def)
  have g: "nvs_get_str nvs n7 k sz = nvs_get_str nvs n5 k sz"
    if "k \<noteq> NVS_KEY_LANG" "k \<noteq> NVS_KEY_BUFFER" for k sz
    using u8(3) [OF g6 that(1)] u8(3) [OF g5 that(2)] by (simp add: n7_def n6_def)
  have s5: "nvs_get_str nvs n5 k sz = (let str = \<lambda>v. if length (cstr v) < sz then Some (cstr v @ [NUL]) else None in
       if k = NVS_KEY_COUNTRY then str (country s) else if k = NVS_KEY_AP_PASS then str (ap_pass s)
       else if k = NVS_KEY_AP_SSID then str (ap_ssid s)
       else if k = NVS_KEY_HALOW_PASS then str (halow_pass s)
       else if k = NVS_KEY_HALOW_SSID then str (halow_ssid s) else nvs_get_str nvs n k sz)" for k sz
    unfolding n5_def str(2) [OF g4] unfolding n4_def str(2) [OF g3] unfolding n3_def str(2) [OF g2]
    unfolding n2_def str(2) [OF g1] unfolding n1_def str(2) [OF laws(2)] Let_def by simp
  show thesis
  proof (rule that [of n'])
    show "settings_save nvs n s = (n', True)" using save c by simp
    show "nvs_get_str nvs n' = (\<lambda>k sz.
       let str = \<lambda>v. if length (cstr v) < sz then Some (cstr v @ [NUL]) else None in
       if k = NVS_KEY_COUNTRY then str (country s) else if k = NVS_KEY_AP_PASS then str (ap_pass s)
       else if k = NVS_KEY_AP_SSID then str (ap_ssid s)
       else if k = NVS_KEY_HALOW_PASS then str (halow_pass s)
       else if k = NVS_KEY_HALOW_SSID then str (halow_ssid s) else nvs_get_str nvs n' k sz)"
      by (intro ext) (auto simp: c(3) g s5 Let_def nvs_keys)
  qed (use c b in simp_all)
qed

lemma settings_load_wf:
  assumes "nvs_reads_ok nvs" "settings_arrays out"
  shows "settings_valid (settings_load nvs n out)"
proof -
  have d: "holds_str SETTINGS_MAX_SSID (strncpy_default (halow_ssid out) v SETTINGS_MAX_SSID)"
    "holds_str SETTINGS_MAX_PASS (strncpy_default (halow_pass out) v SETTINGS_MAX_PASS)"
    "holds_str SETTINGS_MAX_SSID (strncpy_default (ap_ssid out) v SETTINGS_MAX_SSID)"
    "holds_str SETTINGS_MAX_PASS (strncpy_default (ap_pass out) v SETTINGS_MAX_PASS)"
    "holds_str SETTINGS_MAX_COUNTRY (strncpy_default (country out) v SETTINGS_MAX_COUNTRY)" for v
    using assms(2) by (auto intro!: strncpy_default_holds simp: settings_arrays_def settings_sizes)
  have "DEFAULT_BUFFER_PRESET \<le> BUFFER_PRESET_3" "DEFAULT_LANG \<le> LANG_ZH"
    by (simp_all add: settings_defaults)
  with d show ?thesis
    by (auto simp: settings_load_def settings_valid_def Let_def
        intro!: read_str_holds [OF assms(1)] split: option.splits)
qed

lemma settings_save_load:
  assumes laws: "nvs_laws nvs good" "good n" and s: "settings_valid s"
  shows "\<exists>n'. settings_save nvs n s = (n', True) \<and>
    (let r = settings_load nvs n' out in
     cstr (halow_ssid r) = cstr (halow_ssid s) \<and> cstr (halow_pass r) = cstr (halow_pass s) \<and>
     cstr (ap_ssid r) = cstr (ap_ssid s) \<and> cstr (ap_pass r) = cstr (ap_pass s) \<and>
     cstr (country r) = cstr (country s) \<and>
     buffer_preset r = buffer_preset s \<and> ui_lang r = ui_lang s)"
proof -
  obtain n' where n': "settings_save nvs n s = (n', True)" "good n'"
    "nvs_get_str nvs n' = (\<lambda>k sz.
       let str = \<lambda>v. if length (cstr v) < sz then Some (cstr v @ [NUL]) else None in
       if k = NVS_KEY_COUNTRY then str (country s) else if k = NVS_KEY_AP_PASS then str (ap_pass s)
       else if k = NVS_KEY_AP_SSID then str (ap_ssid s)
       else if k = NVS_KEY_HALOW_PASS then str (halow_pass s)
       else if k = NVS_KEY_HALOW_SSID then str (halow_ssid s) else nvs_get_str nvs n' k sz)"
    "nvs_get_u8 nvs n' NVS_KEY_BUFFER = Some (preset_of s)"
    "nvs_get_u8 nvs n' NVS_KEY_LANG = Some (lang_of s)"
    by (rule settings_save_good [OF laws, of s])
  have g: "nvs_get_str nvs n' NVS_KEY_HALOW_SSID SETTINGS_MAX_SSID = Some (cstr (halow_ssid s) @ [NUL])"
    "nvs_get_str nvs n' NVS_KEY_HALOW_PASS SETTINGS_MAX_PASS = Some (cstr (halow_pass s) @ [NUL])"
    "nvs_get_str nvs n' NVS_KEY_AP_SSID SETTINGS_MAX_SSID = Some (cstr (ap_ssid s) @ [NUL])"
    "nvs_get_str nvs n' NVS_KEY_AP_PASS SETTINGS_MAX_PASS = Some (cstr (ap_pass s) @ [NUL])"
    "nvs_get_str nvs n' NVS_KEY_COUNTRY SETTINGS_MAX_COUNTRY = Some (cstr (country s) @ [NUL])"
    by (subst n'(3), use s in \<open>simp add: settings_valid_def holds_str_cstr nvs_keys\<close>)+
  show ?thesis
    using n' g nvs_laws_open [OF laws(1) n'(2)] s
    by (auto simp: settings_load_def Let_def read_str_cstr cstr_no_NUL settings_valid_def
        preset_of_def lang_of_def)
qed

section \<open>A concrete store\<close>

text \<open>A store that keeps strings and bytes in two maps and never fails.\<close>

type_synonym map_store = "(string \<rightharpoonup> string) \<times> (string \<rightharpoonup> u8)"

definition map_nvs :: "map_store nvs" where
  "map_nvs = \<lparr>
     nvs_open = \<lambda>_ _ _. True,
     nvs_get_str = \<lambda>(m, _) k sz. case m k of None \<Rightarrow> None
       | Some v \<Rightarrow> if length v < sz then Some (v @ [NUL]) else None,
     nvs_get_u8 = \<lambda>(_, u) k. u k,
     nvs_set_str = \<lambda>(m, u) k v. ((m(k \<mapsto> cstr v), u), True),
     nvs_set_u8 = \<lambda>(m, u) k v. ((m, u(k \<mapsto> v)), True),
     nvs_commit = \<lambda>n. (n, True)\<rparr>"

lemma map_nvs_laws: "nvs_laws map_nvs (\<lambda>_. True)" "nvs_reads_ok map_nvs"
  by (auto simp: map_nvs_def nvs_laws_def nvs_same_except_def nvs_reads_ok_def
      split: option.splits if_splits)

definition blank_settings :: bridge_settings_t where
  "blank_settings = \<lparr>halow_ssid = replicate SETTINGS_MAX_SSID NUL,
     halow_pass = replicate SETTINGS_MAX_PASS NUL, ap_ssid = replicate SETTINGS_MAX_SSID NUL,
     ap_pass = replicate SETTINGS_MAX_PASS NUL, country = replicate SETTINGS_MAX_COUNTRY NUL,
     buffer_preset = 1, ui_lang = 2\<rparr>"

lemma blank_settings_ok: "settings_arrays blank_settings" "settings_valid blank_settings"
  by (simp_all add: blank_settings_def settings_arrays_def settings_valid_def holds_str_def
      settings_sizes settings_defaults)

section \<open>Properties\<close>

text \<open>C27: loading always yields usable settings, whatever is stored: every text field is a
  terminated string within its array and the two choices are in range.\<close>

theorem settings_load_valid:
  assumes "nvs_reads_ok nvs" "settings_arrays out"
  shows "settings_valid (settings_load nvs n out)"
  using assms by (rule settings_load_wf)

theorem settings_load_valid_witness:
  "settings_valid (settings_load map_nvs ([''h_ssid'' \<mapsto> ''halow''], [''lang'' \<mapsto> 9]) blank_settings)"
  by (rule settings_load_valid [OF map_nvs_laws(2) blank_settings_ok(1)])



end
