(* ===== verification/Web_Forms.thy ===== *)
theory Web_Forms
  imports Bridge_Prelude
begin

text \<open>
  The text processing of the configuration page, \<^verbatim>\<open>examples/iperf/main/src/web_config.c\<close>:
  \<open>html_escape\<close>, the parser of \<^verbatim>\<open>application/x-www-form-urlencoded\<close> bodies \<open>parse_form_field\<close>, and
  the C library's \<open>atoi\<close>. A pointer into a string is the rest of the string from there;
  characters are unsigned on both targets (Xtensa and RISC-V).
\<close>

section \<open>Escaping for HTML\<close>

definition html_escape_char :: "char \<Rightarrow> string" where
  "html_escape_char c =
     (if c = CHR ''&'' then ''&amp;''
      else if c = CHR 0x22 then ''&quot;''
      else if c = CHR ''<'' then ''&lt;''
      else if c = CHR ''>'' then ''&gt;''
      else [c])"

text \<open>The loop, with the characters written so far; their number is \<open>n\<close>.\<close>

fun html_escape_loop :: "nat \<Rightarrow> string \<Rightarrow> string \<Rightarrow> string" where
  "html_escape_loop out_size [] acc = acc"
| "html_escape_loop out_size (c # cs) acc =
     (if length acc + 6 < out_size then html_escape_loop out_size cs (acc @ html_escape_char c)
      else acc)"

definition html_escape :: "string \<Rightarrow> string \<Rightarrow> nat \<Rightarrow> string option" where
  "html_escape inp out out_size = blit out 0 (html_escape_loop out_size (cstr inp) [] @ [NUL])"

section \<open>Form fields\<close>

definition hex_digit :: "char \<Rightarrow> int" where
  "hex_digit c =
     (if of_char c \<ge> (of_char (CHR ''A'') :: int) then (of_char c AND 0x1f) + 9
      else of_char c - of_char (CHR ''0''))"

text \<open>The assignment to a \<^verbatim>\<open>char\<close> keeps the low eight bits.\<close>

definition hex_char :: "char \<Rightarrow> char \<Rightarrow> char" where
  "hex_char hi lo = char_of (hex_digit hi * 16 + hex_digit lo)"

text \<open>
  The inner loop of \<open>parse_form_field\<close>: \<open>m\<close> is \<open>buf_len - 1\<close>, the last argument what has been
  stored in \<open>buf\<close>. It gives the characters stored and the position reached.
\<close>

function form_value :: "nat \<Rightarrow> string \<Rightarrow> string \<Rightarrow> string \<times> string" where
  "form_value m [] acc = (acc, [])"
| "form_value m (c # cs) acc =
     (if c = CHR ''&'' \<or> \<not> length acc < m then (acc, c # cs)
      else if c = CHR ''%'' \<and> 2 \<le> length cs then
        form_value m (drop 2 cs) (acc @ [hex_char (cs ! 0) (cs ! 1)])
      else if c = CHR ''+'' then form_value m cs (acc @ [CHR '' ''])
      else form_value m cs (acc @ [c]))"
  by pat_completeness auto
termination by (relation "measure (\<lambda>(m, p, acc). length p)") auto

text \<open>The outer loop: the rest of the form after \<open>name=\<close> in the first field of that name.\<close>

definition next_field :: "string \<Rightarrow> string" where
  "next_field p = (case dropWhile (\<lambda>c. c \<noteq> CHR ''&'') p of [] \<Rightarrow> [] | _ # q \<Rightarrow> q)"

lemma length_next_field: "p \<noteq> [] \<Longrightarrow> length (next_field p) < length p"
  using length_dropWhile_le [of "\<lambda>c. c \<noteq> CHR ''&''" p]
  by (auto simp: next_field_def split: list.splits)

function form_find :: "string \<Rightarrow> string \<Rightarrow> string option" where
  "form_find name p =
     (if p = [] then None
      else if take (length name) p = name \<and> length name < length p \<and> p ! length name = CHR ''=''
      then Some (drop (length name + 1) p)
      else form_find name (next_field p))"
  by pat_completeness auto
termination by (relation "measure (\<lambda>(name, p). length p)") (auto intro: length_next_field)

declare form_find.simps [simp del]

text \<open>Result: the buffer and the returned position (the rest of the form there).\<close>

definition parse_form_field ::
  "string \<Rightarrow> string \<Rightarrow> string \<Rightarrow> nat \<Rightarrow> (string \<times> string) option" where
  "parse_form_field form name buf buf_len =
     (case form_find (cstr name) (cstr form) of
        Some p \<Rightarrow> (let (v, q) = form_value (buf_len - 1) p [] in do {
          b \<leftarrow> blit buf 0 (v @ [NUL]);
          Some (b, q)
        })
      | None \<Rightarrow> do { b \<leftarrow> store buf 0 NUL; Some (b, cstr form) })"

section \<open>Numbers\<close>

text \<open>
  \<open>atoi\<close> of the C library: white space, an optional sign, digits; a value that does not fit is
  saturated, as the target's \<open>strtol\<close> does.
\<close>

definition is_digit :: "char \<Rightarrow> bool" where
  "is_digit c \<longleftrightarrow> of_char (CHR ''0'') \<le> (of_char c :: nat) \<and> (of_char c :: nat) \<le> of_char (CHR ''9'')"

definition is_space :: "char \<Rightarrow> bool" where
  "is_space c \<longleftrightarrow> c = CHR '' '' \<or> 9 \<le> (of_char c :: nat) \<and> (of_char c :: nat) \<le> 13"

definition digits_value :: "string \<Rightarrow> int" where
  "digits_value = foldl (\<lambda>v c. v * 10 + (of_char c - of_char (CHR ''0''))) 0"

definition atoi :: "string \<Rightarrow> int" where
  "atoi s =
     (let p = dropWhile is_space (cstr s);
          neg = (p \<noteq> [] \<and> hd p = CHR ''-'');
          p = (if p \<noteq> [] \<and> (hd p = CHR ''-'' \<or> hd p = CHR ''+'') then tl p else p);
          v = digits_value (takeWhile is_digit p)
      in max (- (2 ^ 31)) (min (2 ^ 31 - 1) (if neg then - v else v)))"

section \<open>What a browser shows for an escaped string\<close>

function html_decode :: "string \<Rightarrow> string" where
  "html_decode [] = []"
| "html_decode (c # cs) =
     (if c = CHR ''&'' \<and> take 4 cs = ''amp;'' then CHR ''&'' # html_decode (drop 4 cs)
      else if c = CHR ''&'' \<and> take 5 cs = ''quot;'' then CHR 0x22 # html_decode (drop 5 cs)
      else if c = CHR ''&'' \<and> take 3 cs = ''lt;'' then CHR ''<'' # html_decode (drop 3 cs)
      else if c = CHR ''&'' \<and> take 3 cs = ''gt;'' then CHR ''>'' # html_decode (drop 3 cs)
      else c # html_decode cs)"
  by pat_completeness auto
termination by (relation "measure length") auto

definition html_text :: "string \<Rightarrow> string" where
  "html_text s = concat (map html_escape_char s)"

lemma html_escape_char_length: "length (html_escape_char c) \<le> 6"
  by (simp add: html_escape_char_def)

lemma html_decode_text: "html_decode (html_text s) = s"
  by (induction s) (simp_all add: html_text_def html_escape_char_def)

lemma html_text_safe: "set (html_text s) \<inter> {CHR 0x22, CHR ''<'', CHR ''>''} = {}"
  by (induction s) (auto simp: html_text_def html_escape_char_def)

lemma html_text_no_NUL: "NUL \<notin> set s \<Longrightarrow> NUL \<notin> set (html_text s)"
  by (induction s) (auto simp: html_text_def html_escape_char_def NUL_def)

lemma length_html_text: "length (html_text s) \<le> 6 * length s"
  by (induction s) (use html_escape_char_length in \<open>auto simp: html_text_def intro: add_mono\<close>)

lemma html_escape_loop_all:
  "length acc + 6 * length cs < out_size \<Longrightarrow>
     html_escape_loop out_size cs acc = acc @ html_text cs"
proof (induction cs arbitrary: acc)
  case (Cons c cs)
  then show ?case using html_escape_char_length [of c] by (simp add: html_text_def)
qed (simp add: html_text_def)

text \<open>Whatever the input, the loop leaves room for the terminator.\<close>

lemma html_escape_loop_bound:
  "length acc < out_size \<Longrightarrow> length (html_escape_loop out_size cs acc) < out_size"
proof (induction cs arbitrary: acc)
  case (Cons c cs)
  then show ?case using html_escape_char_length [of c] by simp
qed simp

lemma html_escape_eq:
  assumes "NUL \<in> set field" "length out = 6 * length field"
  obtains b where "html_escape field out (6 * length field) = Some b"
    "length b = 6 * length field" "cstr b = html_text (cstr field)"
proof -
  have l: "6 * length (cstr field) < 6 * length field" using length_cstr_less [OF assms(1)] by simp
  have "length (html_text (cstr field)) + 1 \<le> length out"
    using length_html_text [of "cstr field"] l assms(2) by linarith
  then show thesis
    using that html_escape_loop_all [of "[]" "cstr field" "6 * length field"] l assms(2)
    by (simp add: html_escape_def blit_def cstr_append_NUL html_text_no_NUL cstr_no_NUL)
qed

section \<open>What a browser sends\<close>

definition hex_upper :: "nat \<Rightarrow> char" where
  "hex_upper k = ''0123456789ABCDEF'' ! k"

definition form_plain :: "char \<Rightarrow> bool" where
  "form_plain c \<longleftrightarrow> is_digit c \<or> (65 \<le> (of_char c :: nat) \<and> (of_char c :: nat) \<le> 90) \<or>
     (97 \<le> (of_char c :: nat) \<and> (of_char c :: nat) \<le> 122) \<or> c \<in> set ''*-._''"

definition form_encode_char :: "char \<Rightarrow> string" where
  "form_encode_char c =
     (if c = CHR '' '' then ''+''
      else if form_plain c then [c]
      else [CHR ''%'', hex_upper (of_char c div 16), hex_upper (of_char c mod 16)])"

definition form_encode :: "string \<Rightarrow> string" where
  "form_encode v = concat (map form_encode_char v)"

lemma less_16: "k < (16 :: nat) \<Longrightarrow> k \<in> {0, 1, 2, 3, 4, 5, 6, 7, 8, 9, 10, 11, 12, 13, 14, 15}"
  by (simp; presburger)

lemma hex_digit_upper: "k < 16 \<Longrightarrow> hex_digit (hex_upper k) = int k"
  using less_16 [of k] by (auto simp: hex_digit_def hex_upper_def)

lemma char_split: "char_of (int (of_char c div 16) * 16 + int (of_char c mod 16)) = c"
proof -
  have "int (of_char c div 16) * 16 + int (of_char c mod 16) = int (of_char c)"
    by (metis div_mult_mod_eq of_nat_add of_nat_mult of_nat_numeral)
  then show ?thesis by (simp add: of_nat_of_char)
qed

lemma nibbles: "(of_char c :: nat) div 16 < 16" "(of_char c :: nat) mod 16 < 16"
  using less_mult_imp_div_less [of "of_char c" 16 16] nat_of_char_less_256 [of c] by simp_all

lemma hex_char_upper: "hex_char (hex_upper (of_char c div 16)) (hex_upper (of_char c mod 16)) = c"
  by (simp only: hex_char_def hex_digit_upper nibbles char_split)

lemma form_plain_chars: "form_plain c \<Longrightarrow> c \<noteq> CHR ''&'' \<and> c \<noteq> CHR ''%'' \<and> c \<noteq> CHR ''+'' \<and> c \<noteq> NUL"
  by (auto simp: form_plain_def is_digit_def NUL_def)

lemma hex_upper_chars:
  "k < 16 \<Longrightarrow> hex_upper k \<noteq> CHR ''&'' \<and> hex_upper k \<noteq> CHR ''='' \<and> hex_upper k \<noteq> NUL"
  using less_16 [of k] by (auto simp: hex_upper_def NUL_def)

lemma form_encode_char_chars:
  "CHR ''&'' \<notin> set (form_encode_char c)" "NUL \<notin> set (form_encode_char c)"
  using hex_upper_chars [OF nibbles(1) [of c]] hex_upper_chars [OF nibbles(2) [of c]]
    form_plain_chars [of c]
  by (auto simp: form_encode_char_def) (auto simp: NUL_def)

lemma form_encode_chars: "CHR ''&'' \<notin> set (form_encode v)" "NUL \<notin> set (form_encode v)"
  by (auto simp: form_encode_def form_encode_char_chars)

definition field_end :: "string \<Rightarrow> bool" where
  "field_end q \<longleftrightarrow> q = [] \<or> hd q = CHR ''&''"

lemma form_value_encoded:
  "field_end q \<Longrightarrow> fst (form_value m (form_encode v @ q) acc) = acc @ take (m - length acc) v"
proof (induction v arbitrary: acc)
  case Nil
  then show ?case by (cases q) (auto simp: form_encode_def field_end_def)
next
  case (Cons c v)
  have 1: "form_encode (c # v) = form_encode_char c @ form_encode v" by (simp add: form_encode_def)
  show ?case
  proof (cases "length acc < m")
    case False
    then show ?thesis unfolding 1 by (simp add: form_encode_char_def)
  next
    case True
    have "form_value m (form_encode_char c @ form_encode v @ q) acc =
        form_value m (form_encode v @ q) (acc @ [c])"
      using True form_plain_chars [of c] hex_char_upper [of c] by (simp add: form_encode_char_def)
    then show ?thesis
      using Cons True unfolding 1 by (simp add: take_Cons' Suc_diff_Suc)
  qed
qed

section \<open>Forms of several fields\<close>

text \<open>A form body: the fields in order, joined by ampersands.\<close>

fun form_body :: "(string \<times> string) list \<Rightarrow> string" where
  "form_body [] = []"
| "form_body [(n, v)] = n @ CHR ''='' # form_encode v"
| "form_body ((n, v) # f # fs) = n @ CHR ''='' # form_encode v @ CHR ''&'' # form_body (f # fs)"

definition name_ok :: "string \<Rightarrow> bool" where
  "name_ok n \<longleftrightarrow> CHR ''='' \<notin> set n \<and> CHR ''&'' \<notin> set n \<and> NUL \<notin> set n"

lemma name_match:
  assumes "name_ok name" "name_ok n"
  shows "(take (length name) (n @ CHR ''='' # r) = name \<and> length name < length (n @ CHR ''='' # r) \<and>
      (n @ CHR ''='' # r) ! length name = CHR ''='') \<longleftrightarrow> n = name" (is "?m \<longleftrightarrow> _")
proof
  assume ?m
  then have "n @ CHR ''='' # r = name @ CHR ''='' # drop (length name + 1) (n @ CHR ''='' # r)"
    using id_take_nth_drop [of "length name" "n @ CHR ''='' # r"] by simp
  moreover have "takeWhile (\<lambda>c. c \<noteq> CHR ''='') (x @ CHR ''='' # y) = x" if "name_ok x" for x y
    using that by (induction x) (auto simp: name_ok_def)
  ultimately show "n = name" using assms by metis
qed simp

lemma next_field_simps [simp]: "next_field [] = []" "next_field (CHR ''&'' # r) = r"
  by (simp_all add: next_field_def)

lemma next_field_skip:
  assumes "name_ok n"
  shows "next_field (n @ CHR ''='' # form_encode v @ q) = next_field q"
proof -
  have "dropWhile (\<lambda>c. c \<noteq> CHR ''&'') (n @ CHR ''='' # form_encode v @ q) =
      dropWhile (\<lambda>c. c \<noteq> CHR ''&'') q"
    using assms form_encode_chars(1) [of v]
    by (subst dropWhile_append2, force simp: name_ok_def)
       (simp, subst dropWhile_append2, auto)
  then show ?thesis by (simp add: next_field_def)
qed

lemma form_find_field:
  assumes "name_ok name" "name_ok n"
  shows "form_find name (n @ CHR ''='' # form_encode v @ q) =
    (if n = name then Some (form_encode v @ q) else form_find name (next_field q))"
proof (cases "n = name")
  case True
  then show ?thesis by (subst form_find.simps) simp
next
  case False
  then have "form_find name (n @ CHR ''='' # form_encode v @ q) =
      form_find name (next_field (n @ CHR ''='' # form_encode v @ q))"
    using name_match [OF assms, of "form_encode v @ q"] by (subst form_find.simps) auto
  with False show ?thesis by (simp add: next_field_skip [OF assms(2)])
qed

lemma form_find_Nil [simp]: "form_find name [] = None"
  by (simp add: form_find.simps)

lemma form_find_body:
  assumes "name_ok name" "\<forall>(n, v) \<in> set fs. name_ok n"
  shows "case map_of fs name of
      None \<Rightarrow> form_find name (form_body fs) = None
    | Some v \<Rightarrow> \<exists>q. field_end q \<and> form_find name (form_body fs) = Some (form_encode v @ q)"
  using assms
proof (induction fs rule: form_body.induct)
  case (2 n v)
  then show ?case
    using form_find_field [of name n v "[]"] by (auto simp: field_end_def)
next
  case (3 n v f fs)
  then show ?case
    using form_find_field [of name n v "CHR ''&'' # form_body (f # fs)"]
    by (auto simp: field_end_def split: option.splits)
qed simp

lemma form_body_no_NUL:
  "\<forall>(n, v) \<in> set fs. name_ok n \<Longrightarrow> NUL \<notin> set (form_body fs)"
  by (induction fs rule: form_body.induct)
     (auto simp: form_encode_chars name_ok_def, auto simp: NUL_def)

lemma form_value_length: "length (fst (form_value m p acc)) \<le> max m (length acc)"
  by (induction m p acc rule: form_value.induct) auto

lemma parse_form_field_body:
  assumes names: "name_ok name" "\<forall>(n, v) \<in> set fs. name_ok n"
    and vals: "\<forall>(n, v) \<in> set fs. NUL \<notin> set v" and buf: "0 < buf_len" "buf_len \<le> length buf"
  obtains b q where "parse_form_field (form_body fs @ NUL # junk) name buf buf_len = Some (b, q)"
    "length b = length buf"
    "cstr b = take (buf_len - 1) (case map_of fs name of None \<Rightarrow> [] | Some v \<Rightarrow> v)"
proof (cases "map_of fs name")
  case None
  have "form_find name (form_body fs) = None" using form_find_body [OF names] None by simp
  moreover have "store buf 0 NUL = Some (NUL # tl buf)" using buf by (cases buf) (auto simp: store_def)
  ultimately show ?thesis
    using None buf names form_body_no_NUL [OF names(2)]
    by (intro that [of "NUL # tl buf" "form_body fs"])
       (auto simp: parse_form_field_def name_ok_def cstr_simps)
next
  case (Some v)
  obtain q where q: "field_end q" "form_find name (form_body fs) = Some (form_encode v @ q)"
    using form_find_body [OF names] Some by auto
  let ?v = "take (buf_len - 1) v"
  have fst: "fst (form_value (buf_len - 1) (form_encode v @ q) []) = ?v"
    using form_value_encoded [OF q(1), of "buf_len - 1" v "[]"] by simp
  then obtain r where r: "form_value (buf_len - 1) (form_encode v @ q) [] = (?v, r)"
    by (metis prod.collapse)
  have "NUL \<notin> set v" using vals Some by (auto dest: map_of_SomeD)
  then have nn: "NUL \<notin> set ?v" by (auto dest: in_set_takeD)
  have "blit buf 0 (?v @ [NUL]) = Some (?v @ NUL # drop (length ?v + 1) buf)"
    using buf by (auto simp: blit_def)
  then show ?thesis
    using that Some q r nn names form_body_no_NUL [OF names(2)] buf
    by (auto simp: parse_form_field_def name_ok_def cstr_simps)
qed

text \<open>Any other body is parsed within the buffer as well.\<close>

lemma parse_form_field_safe:
  assumes "0 < buf_len" "buf_len \<le> length buf"
  obtains b q where "parse_form_field form name buf buf_len = Some (b, q)" "length b = length buf"
proof (cases "form_find (cstr name) (cstr form)")
  case None
  then show ?thesis using assms that by (cases buf) (auto simp: parse_form_field_def store_def)
next
  case (Some p)
  have "length (fst (form_value (buf_len - 1) p [])) + 1 \<le> length buf"
    using form_value_length [of "buf_len - 1" p "[]"] assms by simp
  moreover obtain v q where "form_value (buf_len - 1) p [] = (v, q)" by (rule prod.exhaust)
  ultimately show ?thesis using Some that by (simp add: parse_form_field_def blit_def)
qed

section \<open>Properties\<close>

text \<open>a setting is put on the page without loss and without breaking out of its attribute: with
  an output buffer of six times the field's size, the escaped text is complete (decoding it gives
  the field back) and contains no quote and no angle bracket.\<close>

theorem html_escape_faithful:
  assumes "NUL \<in> set field" "length out = 6 * length field"
  shows "\<exists>b. html_escape field out (6 * length field) = Some b \<and> length b = length out \<and>
    html_decode (cstr b) = cstr field \<and> set (cstr b) \<inter> {CHR 0x22, CHR ''<'', CHR ''>''} = {}"
  using html_escape_eq [OF assms] html_decode_text html_text_safe assms(2) by metis

theorem html_escape_faithful_witness:
  "\<exists>b. html_escape (''a<&'' @ [NUL]) (replicate 24 NUL) (6 * length (''a<&'' @ [NUL])) = Some b \<and>
    length b = length (replicate 24 NUL) \<and> html_decode (cstr b) = cstr (''a<&'' @ [NUL]) \<and>
    set (cstr b) \<inter> {CHR 0x22, CHR ''<'', CHR ''>''} = {}"
  by (rule html_escape_faithful) simp_all

text \<open>the parser reads what a browser sends: from the body of any form, \<open>parse_form_field\<close>
  stores the decoded value of the first field with the name, cut to the buffer, and the empty
  string when the form has no such field.\<close>

theorem parse_form_field_correct:
  assumes "name_ok name" "\<forall>(n, v) \<in> set fs. name_ok n \<and> NUL \<notin> set v"
    and "0 < buf_len" "buf_len \<le> length buf"
  shows "\<exists>b q. parse_form_field (form_body fs @ NUL # junk) name buf buf_len = Some (b, q) \<and>
    length b = length buf \<and>
    cstr b = take (buf_len - 1) (case map_of fs name of None \<Rightarrow> [] | Some v \<Rightarrow> v)"
proof -
  have "\<forall>(n, v) \<in> set fs. name_ok n" "\<forall>(n, v) \<in> set fs. NUL \<notin> set v" using assms(2) by auto
  then show ?thesis
    using parse_form_field_body [OF assms(1) _ _ assms(3,4), of fs junk] by blast
qed

theorem parse_form_field_correct_witness:
  "\<exists>b q. parse_form_field (form_body [(''lang'', ''2''), (''ap_pass'', ''a&b c'')] @ NUL # [])
      ''ap_pass'' (replicate 64 NUL) 64 = Some (b, q) \<and>
    length b = length (replicate 64 NUL) \<and>
    cstr b = take (64 - 1) (case map_of [(''lang'', ''2''), (''ap_pass'', ''a&b c'')] ''ap_pass'' of
      None \<Rightarrow> [] | Some v \<Rightarrow> v)"
  by (rule parse_form_field_correct) (simp_all add: name_ok_def NUL_def)

end
