(* ===== verification/Web_Config.thy ===== *)
theory Web_Config
  imports Settings Web_Forms
begin

text \<open>
  The configuration web server, \<^verbatim>\<open>examples/iperf/main/src/web_config.c\<close>: the texts of the page in its
  three languages, the page itself, and the handlers of \<^verbatim>\<open>/\<close>, \<^verbatim>\<open>/save\<close> and \<^verbatim>\<open>/reboot\<close>. The HTTP
  server, the allocator and the RSSI source are arguments: what they return.
\<close>

section \<open>Texts\<close>

definition MAX_FORM_FIELD :: nat where "MAX_FORM_FIELD = 64"

record lang_strings =
  L_title :: string
  L_h1 :: string
  L_label_lang :: string
  L_saved_msg :: string
  L_rssi_label :: string
  L_refresh_hint :: string
  L_label_halow_ssid :: string
  L_label_halow_pass :: string
  L_label_ap_ssid :: string
  L_label_ap_pass :: string
  L_label_country :: string
  L_label_buffer :: string
  L_buffer_opt1 :: string
  L_buffer_opt2 :: string
  L_buffer_opt3 :: string
  L_hint_reboot :: string
  L_btn_save :: string
  L_btn_reboot :: string
  L_rebooting :: string
  L_credit_prefix :: string

definition lang_en :: lang_strings where
  "lang_en = \<lparr>
     L_title = ''HaLow Bridge Settings'',
     L_h1 = ''HaLow Bridge Settings'',
     L_label_lang = ''Language'',
     L_saved_msg = ''Settings saved. Reboot to apply changes.'',
     L_rssi_label = ''HaLow RSSI:'',
     L_refresh_hint = ''(refreshes every 15 s)'',
     L_label_halow_ssid = ''HaLow AP (STA) SSID'',
     L_label_halow_pass = ''HaLow passphrase'',
     L_label_ap_ssid = ''2.4 GHz AP SSID'',
     L_label_ap_pass = ''2.4 GHz AP password'',
     L_label_country = ''Country code (e.g. US)'',
     L_label_buffer = ''TCP buffer size'',
     L_buffer_opt1 = ''Small (16 KB)'',
     L_buffer_opt2 = ''Medium (32 KB)'',
     L_buffer_opt3 = ''Large (50 KB)'',
     L_hint_reboot = ''Buffer size takes effect after reboot.'',
     L_btn_save = ''Save'',
     L_btn_reboot = ''Reboot device'',
     L_rebooting = ''Rebooting...'',
     L_credit_prefix = ''Built by ''\<rparr>"

definition lang_es :: lang_strings where
  "lang_es = \<lparr>
     L_title = ''Configuraci'' @ [CHR 0xC3, CHR 0xB3] @ ''n Puente HaLow'',
     L_h1 = ''Configuraci'' @ [CHR 0xC3, CHR 0xB3] @ ''n Puente HaLow'',
     L_label_lang = ''Idioma'',
     L_saved_msg = ''Configuraci'' @ [CHR 0xC3, CHR 0xB3] @
       ''n guardada. Reinicie para aplicar cambios.'',
     L_rssi_label = ''RSSI HaLow:'',
     L_refresh_hint = ''(se actualiza cada 15 s)'',
     L_label_halow_ssid = ''SSID AP HaLow (STA)'',
     L_label_halow_pass = ''Contrase'' @ [CHR 0xC3] @ ''n'' @ [CHR 0xC3, CHR 0xB1] @ ''a HaLow'',
     L_label_ap_ssid = ''SSID AP 2.4 GHz'',
     L_label_ap_pass = ''Contrase'' @ [CHR 0xC3] @ ''n'' @ [CHR 0xC3, CHR 0xB1] @
       ''a AP 2.4 GHz'',
     L_label_country = ''C'' @ [CHR 0xC3, CHR 0xB3] @ ''digo de pa'' @ [CHR 0xC3, CHR 0xAD] @
       ''s (ej. US)'',
     L_label_buffer = ''Tama'' @ [CHR 0xC3, CHR 0xB1] @ ''o de b'' @ [CHR 0xC3, CHR 0xBA] @
       ''fer TCP'',
     L_buffer_opt1 = ''Peque'' @ [CHR 0xC3, CHR 0xB1] @ ''o (16 KB)'',
     L_buffer_opt2 = ''Mediano (32 KB)'',
     L_buffer_opt3 = ''Grande (50 KB)'',
     L_hint_reboot = ''El tama'' @ [CHR 0xC3, CHR 0xB1] @ ''o del b'' @ [CHR 0xC3, CHR 0xBA] @
       ''fer tiene efecto tras reiniciar.'',
     L_btn_save = ''Guardar'',
     L_btn_reboot = ''Reiniciar dispositivo'',
     L_rebooting = ''Reiniciando...'',
     L_credit_prefix = ''Creado por ''\<rparr>"

definition lang_zh :: lang_strings where
  "lang_zh = \<lparr>
     L_title = ''HaLow '' @ [CHR 0xE6, CHR 0xA2, CHR 0x81, CHR 0xE6, CHR 0x8E, CHR 0xA5,
       CHR 0xE8, CHR 0xAE, CHR 0xBE, CHR 0xE7, CHR 0xBD, CHR 0xAE],
     L_h1 = ''HaLow '' @ [CHR 0xE6, CHR 0xA2, CHR 0x81, CHR 0xE6, CHR 0x8E, CHR 0xA5, CHR 0xE8,
       CHR 0xAE, CHR 0xBE, CHR 0xE7, CHR 0xBD, CHR 0xAE],
     L_label_lang = [CHR 0xE8, CHR 0xAF, CHR 0xAD, CHR 0xE8, CHR 0xA8, CHR 0x80],
     L_saved_msg = [CHR 0xE8, CHR 0xAE, CHR 0xBE, CHR 0xE7, CHR 0xBD, CHR 0xAE, CHR 0xE5,
       CHR 0xB7, CHR 0xB2, CHR 0xE4, CHR 0xBF, CHR 0x9D, CHR 0xE5, CHR 0xAD, CHR 0x98,
       CHR 0xE3, CHR 0x80, CHR 0x82, CHR 0xE9, CHR 0x87, CHR 0x8D, CHR 0xE5, CHR 0x90,
       CHR 0xAF, CHR 0xE5, CHR 0x90, CHR 0x8E, CHR 0xE7, CHR 0x94, CHR 0x9F, CHR 0xE6,
       CHR 0x95, CHR 0x88, CHR 0xE3, CHR 0x80, CHR 0x82],
     L_rssi_label = ''HaLow RSSI'' @ [CHR 0xEF, CHR 0xBC, CHR 0x9A],
     L_refresh_hint = [CHR 0xEF, CHR 0xBC, CHR 0x88, CHR 0xE6, CHR 0xAF, CHR 0x8F] @ ''15'' @
       [CHR 0xE7, CHR 0xA7, CHR 0x92, CHR 0xE5, CHR 0x88, CHR 0xB7, CHR 0xE6, CHR 0x96, CHR 0xB0, CHR 0xEF, CHR 0xBC, CHR 0x89],
     L_label_halow_ssid = ''HaLow AP (STA) SSID'',
     L_label_halow_pass = ''HaLow '' @ [CHR 0xE5, CHR 0xAF, CHR 0x86, CHR 0xE7, CHR 0xA0,
       CHR 0x81],
     L_label_ap_ssid = ''2.4 GHz AP SSID'',
     L_label_ap_pass = ''2.4 GHz AP '' @ [CHR 0xE5, CHR 0xAF, CHR 0x86, CHR 0xE7, CHR 0xA0,
       CHR 0x81],
     L_label_country = [CHR 0xE5, CHR 0x9B, CHR 0xBD, CHR 0xE5, CHR 0xAE, CHR 0xB6, CHR 0xE4,
       CHR 0xBB, CHR 0xA3, CHR 0xE7, CHR 0xA0, CHR 0x81, CHR 0xEF, CHR 0xBC, CHR 0x88,
       CHR 0xE5, CHR 0xA6, CHR 0x82] @ '' US'' @ [CHR 0xEF, CHR 0xBC, CHR 0x89],
     L_label_buffer = ''TCP '' @ [CHR 0xE7, CHR 0xBC, CHR 0x93, CHR 0xE5, CHR 0x86, CHR 0xB2,
       CHR 0xE5, CHR 0x8C, CHR 0xBA, CHR 0xE5, CHR 0xA4, CHR 0xA7, CHR 0xE5, CHR 0xB0, CHR 0x8F],
     L_buffer_opt1 = [CHR 0xE5, CHR 0xB0, CHR 0x8F] @ '' (16 KB)'',
     L_buffer_opt2 = [CHR 0xE4, CHR 0xB8, CHR 0xAD] @ '' (32 KB)'',
     L_buffer_opt3 = [CHR 0xE5, CHR 0xA4, CHR 0xA7] @ '' (50 KB)'',
     L_hint_reboot = [CHR 0xE7, CHR 0xBC, CHR 0x93, CHR 0xE5, CHR 0x86, CHR 0xB2, CHR 0xE5,
       CHR 0x8C, CHR 0xBA, CHR 0xE5, CHR 0xA4, CHR 0xA7, CHR 0xE5, CHR 0xB0, CHR 0x8F,
       CHR 0xE9, CHR 0x87, CHR 0x8D, CHR 0xE5, CHR 0x90, CHR 0xAF, CHR 0xE5, CHR 0x90,
       CHR 0x8E, CHR 0xE7, CHR 0x94, CHR 0x9F, CHR 0xE6, CHR 0x95, CHR 0x88, CHR 0xE3,
       CHR 0x80, CHR 0x82],
     L_btn_save = [CHR 0xE4, CHR 0xBF, CHR 0x9D, CHR 0xE5, CHR 0xAD, CHR 0x98],
     L_btn_reboot = [CHR 0xE9, CHR 0x87, CHR 0x8D, CHR 0xE5, CHR 0x90, CHR 0xAF, CHR 0xE8,
       CHR 0xAE, CHR 0xBE, CHR 0xE5, CHR 0xA4, CHR 0x87],
     L_rebooting = [CHR 0xE6, CHR 0xAD, CHR 0xA3, CHR 0xE5, CHR 0x9C, CHR 0xA8, CHR 0xE9,
       CHR 0x87, CHR 0x8D, CHR 0xE5, CHR 0x90, CHR 0xAF] @ ''...'',
     L_credit_prefix = [CHR 0xE7, CHR 0x94, CHR 0xB1] @ '' ''\<rparr>"

definition lang_str :: "lang_strings list" where
  "lang_str = [lang_en, lang_es, lang_zh]"

text \<open>
  The format string of the page, cut at its conversions: the text before the first, between two
  and after the last.
\<close>

definition page_segments :: "string list" where
  "page_segments = [
      ''<!DOCTYPE html><html><head><meta charset='' @ [CHR 0x22] @ ''UTF-8'' @ [CHR 0x22] @
        ''><meta name='' @ [CHR 0x22] @ ''viewport'' @ [CHR 0x22] @ '' content='' @ [CHR 0x22] @
        ''width=device-width,initial-scale=1'' @ [CHR 0x22] @ ''><meta http-equiv='' @
        [CHR 0x22] @ ''refresh'' @ [CHR 0x22] @ '' content='' @ [CHR 0x22] @ ''15'' @
        [CHR 0x22] @ ''><title>'',
      ''</title><style>body{font-family:sans-serif;max-width:420px;margin:1em au'' @
        ''to;padding:0 1em;}h1{font-size:1.2em;}label{display:block;margin-top:0.8'' @
        ''em;}input,select{width:100%;box-sizing:border-box;padding:0.4em;}.msg{ba'' @
        ''ckground:#cfc;padding:0.5em;border-radius:4px;}button{margin-top:1em;mar'' @
        ''gin-right:0.5em;padding:0.5em 1em;}.hint{font-size:0.9em;color:#666;}.cr'' @
        ''edit{font-size:0.85em;color:#888;margin-top:1.5em;}</style></head><body>'' @ ''<h1>'',
      ''</h1><form method='' @ [CHR 0x22] @ ''post'' @ [CHR 0x22] @ '' action='' @ [CHR 0x22] @
        ''/save'' @ [CHR 0x22] @ '' style='' @ [CHR 0x22] @
        ''display:inline;margin-right:1em;'' @ [CHR 0x22] @ ''><label style='' @ [CHR 0x22] @
        ''display:inline;'' @ [CHR 0x22] @ ''>'',
      '' <select name='' @ [CHR 0x22] @ ''lang'' @ [CHR 0x22] @ '' onchange='' @ [CHR 0x22] @
        ''this.form.submit()'' @ [CHR 0x22] @ ''><option value='' @ [CHR 0x22] @ ''0'' @
        [CHR 0x22],
      ''>English</option><option value='' @ [CHR 0x22] @ ''1'' @ [CHR 0x22],
      ''>Espa'' @ [CHR 0xC3, CHR 0xB1] @ ''ol</option><option value='' @ [CHR 0x22] @ ''2'' @
        [CHR 0x22],
      ''>'' @ [CHR 0xE4, CHR 0xB8, CHR 0xAD, CHR 0xE6, CHR 0x96, CHR 0x87] @
        ''</option></select></label></form><p><strong>'',
      ''</strong> '',
      '' <span class='' @ [CHR 0x22] @ ''hint'' @ [CHR 0x22] @ ''>'',
      ''</span></p>'',
      ''<form method='' @ [CHR 0x22] @ ''post'' @ [CHR 0x22] @ '' action='' @ [CHR 0x22] @
        ''/save'' @ [CHR 0x22] @ ''><input type='' @ [CHR 0x22] @ ''hidden'' @ [CHR 0x22] @
        '' name='' @ [CHR 0x22] @ ''lang'' @ [CHR 0x22] @ '' value='' @ [CHR 0x22],
      [CHR 0x22] @ ''><label>'',
      '' <input name='' @ [CHR 0x22] @ ''halow_ssid'' @ [CHR 0x22] @ '' value='' @ [CHR 0x22],
      [CHR 0x22] @ '' maxlength='' @ [CHR 0x22],
      [CHR 0x22] @ ''></label><label>'',
      '' <input type='' @ [CHR 0x22] @ ''password'' @ [CHR 0x22] @ '' name='' @ [CHR 0x22] @
        ''halow_pass'' @ [CHR 0x22] @ '' value='' @ [CHR 0x22],
      [CHR 0x22] @ '' maxlength='' @ [CHR 0x22],
      [CHR 0x22] @ ''></label><label>'',
      '' <input name='' @ [CHR 0x22] @ ''ap_ssid'' @ [CHR 0x22] @ '' value='' @ [CHR 0x22],
      [CHR 0x22] @ '' maxlength='' @ [CHR 0x22],
      [CHR 0x22] @ ''></label><label>'',
      '' <input type='' @ [CHR 0x22] @ ''password'' @ [CHR 0x22] @ '' name='' @ [CHR 0x22] @
        ''ap_pass'' @ [CHR 0x22] @ '' value='' @ [CHR 0x22],
      [CHR 0x22] @ '' maxlength='' @ [CHR 0x22],
      [CHR 0x22] @ ''></label><label>'',
      '' <input name='' @ [CHR 0x22] @ ''country'' @ [CHR 0x22] @ '' value='' @ [CHR 0x22],
      [CHR 0x22] @ '' maxlength='' @ [CHR 0x22],
      [CHR 0x22] @ '' size='' @ [CHR 0x22] @ ''4'' @ [CHR 0x22] @ ''></label><label>'',
      '' <select name='' @ [CHR 0x22] @ ''buffer_preset'' @ [CHR 0x22] @ ''><option value='' @
        [CHR 0x22] @ ''0'' @ [CHR 0x22],
      ''>'',
      ''</option><option value='' @ [CHR 0x22] @ ''1'' @ [CHR 0x22],
      ''>'',
      ''</option><option value='' @ [CHR 0x22] @ ''2'' @ [CHR 0x22],
      ''>'',
      ''</option></select></label><p class='' @ [CHR 0x22] @ ''hint'' @ [CHR 0x22] @ ''>'',
      ''</p><button type='' @ [CHR 0x22] @ ''submit'' @ [CHR 0x22] @ ''>'',
      ''</button></form><a href='' @ [CHR 0x22] @ ''/reboot'' @ [CHR 0x22] @
        ''><button type='' @ [CHR 0x22] @ ''button'' @ [CHR 0x22] @ ''>'',
      ''</button></a><p class='' @ [CHR 0x22] @ ''credit'' @ [CHR 0x22] @ ''>'',
      ''<a href='' @ [CHR 0x22] @ ''https://github.com/gtgreenw'' @ [CHR 0x22] @ '' target='' @
        [CHR 0x22] @ ''_blank'' @ [CHR 0x22] @ '' rel='' @ [CHR 0x22] @ ''noopener'' @
        [CHR 0x22] @ ''>Gavin Greenwood</a></p></body></html>'']"

fun fill :: "string list \<Rightarrow> string list \<Rightarrow> string" where
  "fill (s # ss) (a # as) = s @ a @ fill ss as"
| "fill ss _ = concat ss"

section \<open>Responses\<close>

datatype http_response =
  Resp_error nat string
| Resp_page string string
| Resp_redirect string
| Resp_none

section \<open>The page\<close>

text \<open>
  What the handler learns from the request: the results of the two calls of
  \<open>httpd_req_get_url_query_str\<close> (the second with the 16-byte buffer's contents).
\<close>

record page_request =
  query_len_result :: int
  query_result_ok :: bool
  query_buf :: string

definition ui_language :: "bridge_settings_t \<Rightarrow> u8" where
  "ui_language s = (if ui_lang s \<le> LANG_ZH then ui_lang s else LANG_EN)"

definition str_contains :: "string \<Rightarrow> string \<Rightarrow> bool" where
  "str_contains s t \<longleftrightarrow> (\<exists>i \<le> length s. take (length t) (drop i s) = t)"

definition saved_text :: "lang_strings \<Rightarrow> page_request \<Rightarrow> string" where
  "saved_text L req =
     (if query_len_result req > 0 \<and> query_result_ok req \<and> str_contains (cstr (query_buf req)) ''saved=1''
      then snprintf_str 256
        (''<p class='' @ [CHR 0x22] @ ''msg'' @ [CHR 0x22] @ ''>'' @ L_saved_msg L @ ''</p>'')
      else [])"

definition rssi_text :: "int \<Rightarrow> string" where
  "rssi_text rssi =
     (if rssi = - (2 ^ 31) then snprintf_str 24 [CHR 0xE2, CHR 0x80, CHR 0x94]
      else snprintf_str 24 (show_int rssi @ '' dBm''))"

definition selected :: "bool \<Rightarrow> string" where
  "selected b = (if b then '' selected'' else [])"

text \<open>The arguments of the page's \<open>snprintf\<close>, in order.\<close>

definition page_args ::
  "lang_strings \<Rightarrow> u8 \<Rightarrow> u8 \<Rightarrow> string \<Rightarrow> string \<Rightarrow> string \<Rightarrow> string \<Rightarrow> string \<Rightarrow> string \<Rightarrow> string \<Rightarrow>
   string list" where
  "page_args L lang bp h_ssid h_pass a_ssid a_pass h_country rssi saved =
     [L_title L, L_h1 L, L_label_lang L,
      selected (lang = LANG_EN), selected (lang = LANG_ES), selected (lang = LANG_ZH),
      L_rssi_label L, rssi, L_refresh_hint L,
      saved,
      show_nat (unat lang),
      L_label_halow_ssid L, h_ssid, show_nat (SETTINGS_MAX_SSID - 1),
      L_label_halow_pass L, h_pass, show_nat (SETTINGS_MAX_PASS - 1),
      L_label_ap_ssid L, a_ssid, show_nat (SETTINGS_MAX_SSID - 1),
      L_label_ap_pass L, a_pass, show_nat (SETTINGS_MAX_PASS - 1),
      L_label_country L, h_country, show_nat (SETTINGS_MAX_COUNTRY - 1),
      L_label_buffer L,
      selected (bp = 0), L_buffer_opt1 L, selected (bp = 1), L_buffer_opt2 L,
      selected (bp = 2), L_buffer_opt3 L,
      L_hint_reboot L, L_btn_save L, L_btn_reboot L, L_credit_prefix L]"

definition page_html_len ::
  "lang_strings \<Rightarrow> string \<Rightarrow> string \<Rightarrow> string \<Rightarrow> string \<Rightarrow> string \<Rightarrow> string \<Rightarrow> string \<Rightarrow> nat" where
  "page_html_len L h_ssid h_pass a_ssid a_pass h_country rssi saved =
     3200 + length (L_title L) + length (L_h1 L) + length (L_label_lang L) + length (L_saved_msg L) +
     length (L_rssi_label L) + length (L_refresh_hint L) +
     length (L_label_halow_ssid L) + length (L_label_halow_pass L) + length (L_label_ap_ssid L) +
     length (L_label_ap_pass L) +
     length (L_label_country L) + length (L_label_buffer L) + length (L_buffer_opt1 L) +
     length (L_buffer_opt2 L) + length (L_buffer_opt3 L) +
     length (L_hint_reboot L) + length (L_btn_save L) + length (L_btn_reboot L) +
     length (L_credit_prefix L) +
     length h_ssid + length h_pass + length a_ssid + length a_pass + length h_country +
     length rssi + length saved"

text \<open>
  \<open>get_handler\<close>. \<open>s0\<close> is the uninitialised settings variable, \<open>stack n\<close> an uninitialised
  character array of the size. \<open>None\<close> is an access outside an array.
\<close>

definition get_handler ::
  "'n nvs \<Rightarrow> 'n \<Rightarrow> page_request \<Rightarrow> int \<Rightarrow> bool \<Rightarrow> bridge_settings_t \<Rightarrow> (nat \<Rightarrow> string) \<Rightarrow>
   (http_response \<times> bool) option" where
  "get_handler nvs n req rssi malloc_ok s0 stack = do {
     let s = settings_load nvs n s0;
     let lang = ui_language s;
     L \<leftarrow> load lang_str (unat lang);
     h_ssid \<leftarrow> html_escape (halow_ssid s) (stack (SETTINGS_MAX_SSID * 6)) (SETTINGS_MAX_SSID * 6);
     h_pass \<leftarrow> html_escape (halow_pass s) (stack (SETTINGS_MAX_PASS * 6)) (SETTINGS_MAX_PASS * 6);
     a_ssid \<leftarrow> html_escape (ap_ssid s) (stack (SETTINGS_MAX_SSID * 6)) (SETTINGS_MAX_SSID * 6);
     a_pass \<leftarrow> html_escape (ap_pass s) (stack (SETTINGS_MAX_PASS * 6)) (SETTINGS_MAX_PASS * 6);
     h_country \<leftarrow> html_escape (country s) (stack (SETTINGS_MAX_COUNTRY * 6)) (SETTINGS_MAX_COUNTRY * 6);
     let saved = saved_text L req;
     let bp = (if buffer_preset s \<le> BUFFER_PRESET_3 then buffer_preset s else 1);
     let rssi_str = rssi_text rssi;
     let html_len = page_html_len L (cstr h_ssid) (cstr h_pass) (cstr a_ssid) (cstr a_pass)
           (cstr h_country) rssi_str saved;
     if \<not> malloc_ok then Some (Resp_error 500 ''Out of memory'', False)
     else do {
       let html = snprintf_str html_len (fill page_segments
             (page_args L lang bp (cstr h_ssid) (cstr h_pass) (cstr a_ssid) (cstr a_pass)
                (cstr h_country) rssi_str saved));
       Some (Resp_page ''text/html; charset=utf-8'' html, True)
     }
   }"

section \<open>Saving\<close>

text \<open>
  One text field of the form: parse it into \<open>tmp\<close> and, unless empty, copy it to the setting, of
  array size \<open>mx\<close>.
\<close>

definition set_field :: "string \<Rightarrow> string \<Rightarrow> nat \<Rightarrow> string \<Rightarrow> string \<Rightarrow> (string \<times> string) option" where
  "set_field form name mx tmp field = do {
     (tmp, _) \<leftarrow> parse_form_field form name tmp MAX_FORM_FIELD;
     c \<leftarrow> load tmp 0;
     Some (tmp, if c \<noteq> NUL then (strncpy field tmp (mx - 1))[mx - 1 := NUL] else field)
   }"

definition set_choice :: "string \<Rightarrow> string \<Rightarrow> int \<Rightarrow> int \<Rightarrow> string \<Rightarrow> u8 \<Rightarrow> (string \<times> u8) option" where
  "set_choice form name lo hi tmp old = do {
     (tmp, _) \<leftarrow> parse_form_field form name tmp MAX_FORM_FIELD;
     c \<leftarrow> load tmp 0;
     let v = atoi tmp;
     Some (tmp, if c \<noteq> NUL \<and> lo \<le> v \<and> v \<le> hi then word_of_int v else old)
   }"

definition form_update :: "string \<Rightarrow> string \<Rightarrow> bridge_settings_t \<Rightarrow> bridge_settings_t option" where
  "form_update form tmp s = do {
     (tmp, v) \<leftarrow> set_field form ''halow_ssid'' SETTINGS_MAX_SSID tmp (halow_ssid s);
     let s = s\<lparr>halow_ssid := v\<rparr>;
     (tmp, v) \<leftarrow> set_field form ''halow_pass'' SETTINGS_MAX_PASS tmp (halow_pass s);
     let s = s\<lparr>halow_pass := v\<rparr>;
     (tmp, v) \<leftarrow> set_field form ''ap_ssid'' SETTINGS_MAX_SSID tmp (ap_ssid s);
     let s = s\<lparr>ap_ssid := v\<rparr>;
     (tmp, v) \<leftarrow> set_field form ''ap_pass'' SETTINGS_MAX_PASS tmp (ap_pass s);
     let s = s\<lparr>ap_pass := v\<rparr>;
     (tmp, v) \<leftarrow> set_field form ''country'' SETTINGS_MAX_COUNTRY tmp (country s);
     let s = s\<lparr>country := v\<rparr>;
     (tmp, v) \<leftarrow> set_choice form ''buffer_preset'' 0 2 tmp (buffer_preset s);
     let s = s\<lparr>buffer_preset := v\<rparr>;
     (tmp, v) \<leftarrow> set_choice form ''lang'' 0 2 tmp (ui_lang s);
     Some (s\<lparr>ui_lang := v\<rparr>)
   }"

text \<open>
  \<open>save_post_handler\<close>: \<open>recv\<close> is the result of \<open>httpd_req_recv\<close> with the bytes it stored, at most
  \<open>content_len\<close>; the allocated buffer has one byte more for the terminator.
\<close>

definition save_post_handler ::
  "'n nvs \<Rightarrow> 'n \<Rightarrow> nat \<Rightarrow> bool \<Rightarrow> int \<times> string \<Rightarrow> bridge_settings_t \<Rightarrow> string \<Rightarrow>
   ('n \<times> http_response \<times> bool) option" where
  "save_post_handler nvs n content_len malloc_ok recv s0 tmp0 =
     (if content_len = 0 \<or> content_len > 1024 then Some (n, Resp_error 400 ''Bad request'', False)
      else if \<not> malloc_ok then Some (n, Resp_error 500 ''Out of memory'', False)
      else if fst recv \<le> 0 then Some (n, Resp_none, False)
      else do {
        buf \<leftarrow> blit (replicate (content_len + 1) NUL) 0 (snd recv);
        buf \<leftarrow> store buf (nat (fst recv)) NUL;
        s \<leftarrow> form_update buf tmp0 (settings_load nvs n s0);
        let (n, ok) = settings_save nvs n s;
        if ok then Some (n, Resp_redirect ''/?saved=1'', True)
        else Some (n, Resp_error 500 ''Save failed'', False)
      })"

section \<open>Reboot and start\<close>

text \<open>The answer to \<^verbatim>\<open>/reboot\<close>; the device restarts 500 ms after it.\<close>

definition reboot_handler :: "'n nvs \<Rightarrow> 'n \<Rightarrow> bridge_settings_t \<Rightarrow> http_response option" where
  "reboot_handler nvs n s0 = do {
     L \<leftarrow> load lang_str (unat (ui_language (settings_load nvs n s0)));
     Some (Resp_page ''text/plain; charset=utf-8'' (L_rebooting L))
   }"

datatype http_method = HTTP_GET | HTTP_POST
datatype uri_handler = Get_handler | Save_post_handler | Reboot_handler

definition uri_table :: "(string \<times> http_method \<times> uri_handler) list" where
  "uri_table = [(''/'', HTTP_GET, Get_handler), (''/save'', HTTP_POST, Save_post_handler),
     (''/reboot'', HTTP_GET, Reboot_handler)]"

text \<open>The handlers registered, or \<open>None\<close> when \<open>httpd_start\<close> fails.\<close>

definition start_web_config_server ::
  "bool \<Rightarrow> (string \<times> http_method \<times> uri_handler) list option" where
  "start_web_config_server httpd_start_ok = (if httpd_start_ok then Some uri_table else None)"

section \<open>The page is complete\<close>

lemma length_fill:
  "length as < length ss \<Longrightarrow>
     length (fill ss as) = sum_list (map length ss) + sum_list (map length as)"
  by (induction ss as rule: fill.induct) (auto simp: length_concat)

lemma page_segments_size: "length page_segments = 38" "sum_list (map length page_segments) = 1734"
  by (simp_all add: page_segments_def)

lemma length_selected: "length (selected b) \<le> 9"
  by (simp add: selected_def)

lemma length_show_u8: "length (show_nat (unat (x :: u8))) \<le> 3"
proof -
  have "unat x < 2 ^ LENGTH(8)" by (rule unsigned_less)
  then show ?thesis using length_show_nat [of "unat x" 3] by simp
qed

lemma page_fits:
  "length (fill page_segments (page_args L lang bp a b c d e r s)) < page_html_len L a b c d e r s"
proof -
  have n: "length (show_nat (SETTINGS_MAX_SSID - 1)) \<le> 3" "length (show_nat (SETTINGS_MAX_PASS - 1)) \<le> 3"
    "length (show_nat (SETTINGS_MAX_COUNTRY - 1)) \<le> 3"
    using length_show_nat [of _ 3] by (simp_all add: settings_sizes)
  have "length (fill page_segments (page_args L lang bp a b c d e r s)) =
      1734 + sum_list (map length (page_args L lang bp a b c d e r s))"
    by (subst length_fill) (simp_all add: page_segments_size page_args_def)
  also have "\<dots> < page_html_len L a b c d e r s"
    using n length_show_u8 [of lang] length_selected [of "lang = LANG_EN"]
      length_selected [of "lang = LANG_ES"] length_selected [of "lang = LANG_ZH"]
      length_selected [of "bp = 0"] length_selected [of "bp = 1"] length_selected [of "bp = 2"]
    by (simp add: page_args_def page_html_len_def)
  finally show ?thesis .
qed

lemma html_escape_setting:
  assumes "holds_str mx field" "length out = mx * 6"
  shows "\<exists>b. html_escape field out (mx * 6) = Some b \<and> cstr b = html_text (cstr field)"
proof -
  obtain b where "html_escape field out (6 * length field) = Some b" "cstr b = html_text (cstr field)"
    by (rule html_escape_eq [of field out]) (use assms in \<open>auto simp: holds_str_def\<close>)
  then show ?thesis using assms by (auto simp: holds_str_def mult.commute)
qed

lemma lang_str_load: "l \<le> LANG_ZH \<Longrightarrow> load lang_str (unat l) = Some (lang_str ! unat l)"
  by (simp add: load_def lang_str_def LANG_ZH_def word_le_nat_alt)

section \<open>Updates from a form\<close>

definition new_value :: "nat \<Rightarrow> string option \<Rightarrow> string \<Rightarrow> string" where
  "new_value mx v old =
     (case v of None \<Rightarrow> old | Some v \<Rightarrow> if v = [] then old else take (mx - 1) v)"

definition new_choice :: "string option \<Rightarrow> u8 \<Rightarrow> u8" where
  "new_choice v old =
     (case v of None \<Rightarrow> old
      | Some v \<Rightarrow> if v \<noteq> [] \<and> 0 \<le> atoi (take 63 v) \<and> atoi (take 63 v) \<le> 2
                 then word_of_int (atoi (take 63 v)) else old)"

text \<open>A form as a browser encodes it, in the receive buffer.\<close>

definition is_form :: "(string \<times> string) list \<Rightarrow> string \<Rightarrow> bool" where
  "is_form fs buf \<longleftrightarrow> (\<exists>junk. buf = form_body fs @ NUL # junk) \<and>
     (\<forall>(n, v) \<in> set fs. name_ok n \<and> NUL \<notin> set v)"

lemma parse_is_form:
  assumes "is_form fs buf" "name_ok name" "length tmp = MAX_FORM_FIELD"
  obtains tmp' q where "parse_form_field buf name tmp MAX_FORM_FIELD = Some (tmp', q)"
    "length tmp' = MAX_FORM_FIELD"
    "cstr tmp' = take 63 (case map_of fs name of None \<Rightarrow> [] | Some v \<Rightarrow> v)"
    "load tmp' 0 = Some (tmp' ! 0)" "tmp' ! 0 = NUL \<longleftrightarrow> cstr tmp' = []"
proof -
  obtain junk where b: "buf = form_body fs @ NUL # junk" using assms(1) by (auto simp: is_form_def)
  have fs: "\<forall>(n, v) \<in> set fs. name_ok n" "\<forall>(n, v) \<in> set fs. NUL \<notin> set v"
    using assms(1) by (auto simp: is_form_def)
  obtain tmp' q where t: "parse_form_field (form_body fs @ NUL # junk) name tmp MAX_FORM_FIELD = Some (tmp', q)"
    "length tmp' = length tmp"
    "cstr tmp' = take (MAX_FORM_FIELD - 1) (case map_of fs name of None \<Rightarrow> [] | Some v \<Rightarrow> v)"
    by (rule parse_form_field_body [OF assms(2) fs, of MAX_FORM_FIELD tmp junk])
       (use assms(3) in \<open>simp_all add: MAX_FORM_FIELD_def\<close>)
  have "tmp' \<noteq> []" using t(2) assms(3) by (auto simp: MAX_FORM_FIELD_def)
  then have "load tmp' 0 = Some (tmp' ! 0)" "tmp' ! 0 = NUL \<longleftrightarrow> cstr tmp' = []"
    by (cases tmp'; auto simp: load_def cstr_def)+
  with t b assms(3) that show thesis by (simp add: MAX_FORM_FIELD_def)
qed

lemma set_field_form:
  assumes "is_form fs buf" "name_ok name" "length tmp = MAX_FORM_FIELD"
    and f: "holds_str mx field" "mx \<le> MAX_FORM_FIELD"
  shows "\<exists>tmp' field'. set_field buf name mx tmp field = Some (tmp', field') \<and>
    length tmp' = MAX_FORM_FIELD \<and> holds_str mx field' \<and>
    cstr field' = new_value mx (map_of fs name) (cstr field)"
proof -
  obtain tmp' q where t: "parse_form_field buf name tmp MAX_FORM_FIELD = Some (tmp', q)"
    "length tmp' = MAX_FORM_FIELD"
    "cstr tmp' = take 63 (case map_of fs name of None \<Rightarrow> [] | Some v \<Rightarrow> v)"
    "load tmp' 0 = Some (tmp' ! 0)" "tmp' ! 0 = NUL \<longleftrightarrow> cstr tmp' = []"
    by (rule parse_is_form [OF assms(1-3)])
  have mx: "length field = mx" "0 < mx" using f(1) by (auto simp: holds_str_def)
  have def: "(strncpy field tmp' (mx - Suc 0))[mx - Suc 0 := NUL] = strncpy_default field tmp' mx"
    using mx by (simp add: strncpy_default_def)
  have "mx - 1 \<le> 63" using f(2) by (simp add: MAX_FORM_FIELD_def)
  then have "take (mx - 1) (take 63 v) = take (mx - 1) v" for v :: string
    by (simp only: take_take min_absorb1)
  then show ?thesis
    using t f(1) strncpy_default_holds [OF mx, of tmp'] strncpy_default_cstr [OF mx, of tmp']
    by (auto simp: set_field_def def new_value_def split: option.splits)
qed

lemma atoi_cstr: "atoi (cstr s) = atoi s"
  by (simp add: atoi_def cstr_idem)

lemma set_choice_form:
  assumes "is_form fs buf" "name_ok name" "length tmp = MAX_FORM_FIELD"
  shows "\<exists>tmp'. set_choice buf name 0 2 tmp old = Some (tmp', new_choice (map_of fs name) old) \<and>
    length tmp' = MAX_FORM_FIELD"
proof -
  obtain tmp' q where t: "parse_form_field buf name tmp MAX_FORM_FIELD = Some (tmp', q)"
    "length tmp' = MAX_FORM_FIELD"
    "cstr tmp' = take 63 (case map_of fs name of None \<Rightarrow> [] | Some v \<Rightarrow> v)"
    "load tmp' 0 = Some (tmp' ! 0)" "tmp' ! 0 = NUL \<longleftrightarrow> cstr tmp' = []"
    by (rule parse_is_form [OF assms])
  have "atoi tmp' = atoi (take 63 (case map_of fs name of None \<Rightarrow> [] | Some v \<Rightarrow> v))"
    using atoi_cstr [of tmp'] t(3) by simp
  with t show ?thesis
    by (auto simp: set_choice_def new_choice_def split: option.splits)
qed

lemma new_choice_range: "old \<le> 2 \<Longrightarrow> new_choice v old \<le> (2 :: u8)"
proof -
  have "word_of_int i \<le> (2 :: u8)" if "0 \<le> i" "i \<le> 2" for i
  proof -
    have "i = 0 \<or> i = 1 \<or> i = 2" using that by linarith
    then show ?thesis by auto
  qed
  then show "old \<le> 2 \<Longrightarrow> new_choice v old \<le> (2 :: u8)"
    by (auto simp: new_choice_def split: option.splits)
qed

text \<open>The settings after a form, field by field.\<close>

definition updated :: "(string \<times> string) list \<Rightarrow> bridge_settings_t \<Rightarrow> bridge_settings_t \<Rightarrow> bool" where
  "updated fs s r \<longleftrightarrow>
     cstr (halow_ssid r) = new_value SETTINGS_MAX_SSID (map_of fs ''halow_ssid'') (cstr (halow_ssid s)) \<and>
     cstr (halow_pass r) = new_value SETTINGS_MAX_PASS (map_of fs ''halow_pass'') (cstr (halow_pass s)) \<and>
     cstr (ap_ssid r) = new_value SETTINGS_MAX_SSID (map_of fs ''ap_ssid'') (cstr (ap_ssid s)) \<and>
     cstr (ap_pass r) = new_value SETTINGS_MAX_PASS (map_of fs ''ap_pass'') (cstr (ap_pass s)) \<and>
     cstr (country r) = new_value SETTINGS_MAX_COUNTRY (map_of fs ''country'') (cstr (country s)) \<and>
     buffer_preset r = new_choice (map_of fs ''buffer_preset'') (buffer_preset s) \<and>
     ui_lang r = new_choice (map_of fs ''lang'') (ui_lang s)"

lemma form_update_form:
  assumes form: "is_form fs buf" and tmp: "length tmp = MAX_FORM_FIELD" and s: "settings_valid s"
  shows "\<exists>r. form_update buf tmp s = Some r \<and> settings_valid r \<and> updated fs s r"
proof -
  have names: "name_ok ''halow_ssid''" "name_ok ''halow_pass''" "name_ok ''ap_ssid''"
    "name_ok ''ap_pass''" "name_ok ''country''" "name_ok ''buffer_preset''" "name_ok ''lang''"
    by (simp_all add: name_ok_def NUL_def)
  have v: "holds_str SETTINGS_MAX_SSID (halow_ssid s)" "holds_str SETTINGS_MAX_PASS (halow_pass s)"
    "holds_str SETTINGS_MAX_SSID (ap_ssid s)" "holds_str SETTINGS_MAX_PASS (ap_pass s)"
    "holds_str SETTINGS_MAX_COUNTRY (country s)" "buffer_preset s \<le> 2" "ui_lang s \<le> 2"
    using s by (auto simp: settings_valid_def settings_defaults)
  have mx: "SETTINGS_MAX_SSID \<le> MAX_FORM_FIELD" "SETTINGS_MAX_PASS \<le> MAX_FORM_FIELD"
    "SETTINGS_MAX_COUNTRY \<le> MAX_FORM_FIELD"
    by (simp_all add: settings_sizes MAX_FORM_FIELD_def)
  note sf = set_field_form [OF form] and sc = set_choice_form [OF form]
  obtain t1 f1 where 1: "set_field buf ''halow_ssid'' SETTINGS_MAX_SSID tmp (halow_ssid s) = Some (t1, f1)"
    "length t1 = MAX_FORM_FIELD" "holds_str SETTINGS_MAX_SSID f1"
    "cstr f1 = new_value SETTINGS_MAX_SSID (map_of fs ''halow_ssid'') (cstr (halow_ssid s))"
    using sf [OF names(1) tmp v(1) mx(1)] by blast
  obtain t2 f2 where 2: "set_field buf ''halow_pass'' SETTINGS_MAX_PASS t1 (halow_pass s) = Some (t2, f2)"
    "length t2 = MAX_FORM_FIELD" "holds_str SETTINGS_MAX_PASS f2"
    "cstr f2 = new_value SETTINGS_MAX_PASS (map_of fs ''halow_pass'') (cstr (halow_pass s))"
    using sf [OF names(2) 1(2) v(2) mx(2)] by blast
  obtain t3 f3 where 3: "set_field buf ''ap_ssid'' SETTINGS_MAX_SSID t2 (ap_ssid s) = Some (t3, f3)"
    "length t3 = MAX_FORM_FIELD" "holds_str SETTINGS_MAX_SSID f3"
    "cstr f3 = new_value SETTINGS_MAX_SSID (map_of fs ''ap_ssid'') (cstr (ap_ssid s))"
    using sf [OF names(3) 2(2) v(3) mx(1)] by blast
  obtain t4 f4 where 4: "set_field buf ''ap_pass'' SETTINGS_MAX_PASS t3 (ap_pass s) = Some (t4, f4)"
    "length t4 = MAX_FORM_FIELD" "holds_str SETTINGS_MAX_PASS f4"
    "cstr f4 = new_value SETTINGS_MAX_PASS (map_of fs ''ap_pass'') (cstr (ap_pass s))"
    using sf [OF names(4) 3(2) v(4) mx(2)] by blast
  obtain t5 f5 where 5: "set_field buf ''country'' SETTINGS_MAX_COUNTRY t4 (country s) = Some (t5, f5)"
    "length t5 = MAX_FORM_FIELD" "holds_str SETTINGS_MAX_COUNTRY f5"
    "cstr f5 = new_value SETTINGS_MAX_COUNTRY (map_of fs ''country'') (cstr (country s))"
    using sf [OF names(5) 4(2) v(5) mx(3)] by blast
  obtain t6 where 6: "set_choice buf ''buffer_preset'' 0 2 t5 (buffer_preset s) =
      Some (t6, new_choice (map_of fs ''buffer_preset'') (buffer_preset s))"
    "length t6 = MAX_FORM_FIELD"
    using sc [OF names(6) 5(2)] by blast
  obtain t7 where 7: "set_choice buf ''lang'' 0 2 t6 (ui_lang s) =
      Some (t7, new_choice (map_of fs ''lang'') (ui_lang s))"
    using sc [OF names(7) 6(2)] by blast
  show ?thesis
    using 1 2 3 4 5 6 7 new_choice_range v(6,7)
    by (simp add: form_update_def updated_def settings_valid_def settings_defaults Let_def)
qed

section \<open>UTF-8\<close>

text \<open>
  Well-formedness of UTF-8 up to overlong forms: a lead byte followed by as many continuation
  bytes as it announces.
\<close>

definition utf8_cont :: "char \<Rightarrow> bool" where
  "utf8_cont c \<longleftrightarrow> 128 \<le> (of_char c :: nat) \<and> (of_char c :: nat) < 192"

function utf8_ok :: "string \<Rightarrow> bool" where
  "utf8_ok [] = True"
| "utf8_ok (c # cs) =
     (let k = (if (of_char c :: nat) < 128 then Some 0 else if (of_char c :: nat) < 192 then None
               else if (of_char c :: nat) < 224 then Some 1 else if (of_char c :: nat) < 240 then Some 2
               else if (of_char c :: nat) < 248 then Some (3 :: nat) else None)
      in case k of None \<Rightarrow> False
         | Some k \<Rightarrow> k \<le> length cs \<and> list_all utf8_cont (take k cs) \<and> utf8_ok (drop k cs))"
  by pat_completeness auto
termination by (relation "measure length") auto

definition lang_texts :: "lang_strings \<Rightarrow> string list" where
  "lang_texts L = [L_title L, L_h1 L, L_label_lang L, L_saved_msg L, L_rssi_label L,
     L_refresh_hint L, L_label_halow_ssid L, L_label_halow_pass L, L_label_ap_ssid L,
     L_label_ap_pass L, L_label_country L, L_label_buffer L, L_buffer_opt1 L, L_buffer_opt2 L,
     L_buffer_opt3 L, L_hint_reboot L, L_btn_save L, L_btn_reboot L, L_rebooting L,
     L_credit_prefix L]"

section \<open>Properties\<close>

text \<open>the settings page shows the loaded settings in the chosen language and is never cut: the
  response is the whole page, with every setting HTML-escaped in full.\<close>

theorem get_handler_complete:
  assumes nvs: "nvs_reads_ok nvs" and s0: "settings_arrays s0" and st: "\<forall>k. length (stack k) = k"
    and s_def: "s = settings_load nvs n s0"
  shows "get_handler nvs n req rssi True s0 stack = Some (Resp_page ''text/html; charset=utf-8''
    (fill page_segments (page_args (lang_str ! unat (ui_lang s)) (ui_lang s) (buffer_preset s)
      (html_text (cstr (halow_ssid s))) (html_text (cstr (halow_pass s)))
      (html_text (cstr (ap_ssid s))) (html_text (cstr (ap_pass s)))
      (html_text (cstr (country s))) (rssi_text rssi)
      (saved_text (lang_str ! unat (ui_lang s)) req))), True)"
proof -
  have v: "settings_valid s" unfolding s_def by (rule settings_load_wf [OF nvs s0])
  obtain b1 b2 b3 b4 b5 where
    "html_escape (halow_ssid s) (stack (SETTINGS_MAX_SSID * 6)) (SETTINGS_MAX_SSID * 6) = Some b1"
    "cstr b1 = html_text (cstr (halow_ssid s))"
    "html_escape (halow_pass s) (stack (SETTINGS_MAX_PASS * 6)) (SETTINGS_MAX_PASS * 6) = Some b2"
    "cstr b2 = html_text (cstr (halow_pass s))"
    "html_escape (ap_ssid s) (stack (SETTINGS_MAX_SSID * 6)) (SETTINGS_MAX_SSID * 6) = Some b3"
    "cstr b3 = html_text (cstr (ap_ssid s))"
    "html_escape (ap_pass s) (stack (SETTINGS_MAX_PASS * 6)) (SETTINGS_MAX_PASS * 6) = Some b4"
    "cstr b4 = html_text (cstr (ap_pass s))"
    "html_escape (country s) (stack (SETTINGS_MAX_COUNTRY * 6)) (SETTINGS_MAX_COUNTRY * 6) = Some b5"
    "cstr b5 = html_text (cstr (country s))"
    using v st by (simp add: settings_valid_def) (metis html_escape_setting)
  moreover have "ui_lang s \<le> LANG_ZH" "buffer_preset s \<le> BUFFER_PRESET_3"
    using v by (simp_all add: settings_valid_def)
  moreover have "snprintf_str (page_html_len L a b c d e r m)
      (fill page_segments (page_args L lang bp a b c d e r m)) =
      fill page_segments (page_args L lang bp a b c d e r m)" for L lang bp a b c d e r m
    using page_fits [of L lang bp a b c d e r m] by (simp add: snprintf_str_def)
  ultimately show ?thesis
    unfolding get_handler_def by (simp add: ui_language_def lang_str_load Let_def flip: s_def)
qed

definition sample_request :: page_request where
  "sample_request = \<lparr>query_len_result = 0x102, query_result_ok = True,
     query_buf = ''saved=1'' @ [NUL]\<rparr>"

theorem get_handler_complete_witness:
  "get_handler map_nvs (Map.empty, Map.empty) sample_request (- 60) True blank_settings
     (\<lambda>k. replicate k NUL) =
   (let s = settings_load map_nvs (Map.empty, Map.empty) blank_settings in
    Some (Resp_page ''text/html; charset=utf-8''
    (fill page_segments (page_args (lang_str ! unat (ui_lang s)) (ui_lang s) (buffer_preset s)
      (html_text (cstr (halow_ssid s))) (html_text (cstr (halow_pass s)))
      (html_text (cstr (ap_ssid s))) (html_text (cstr (ap_pass s)))
      (html_text (cstr (country s))) (rssi_text (- 60))
      (saved_text (lang_str ! unat (ui_lang s)) sample_request))), True))"
  unfolding Let_def
  by (rule get_handler_complete [OF map_nvs_laws(2) blank_settings_ok(1) _ refl]) simp

lemma save_post_ok:
  assumes laws: "nvs_laws nvs good" "nvs_reads_ok nvs" "good n"
    and s0: "settings_arrays s0" "length tmp0 = MAX_FORM_FIELD"
    and form: "\<forall>(nm, v) \<in> set fs. name_ok nm \<and> NUL \<notin> set v" "fs \<noteq> []"
      "length (form_body fs) \<le> 1024"
  shows "\<exists>n'. save_post_handler nvs n (length (form_body fs)) True
      (int (length (form_body fs)), form_body fs) s0 tmp0 = Some (n', Resp_redirect ''/?saved=1'', True) \<and>
    settings_valid (settings_load nvs n' s0) \<and>
    updated fs (settings_load nvs n s0) (settings_load nvs n' s0)"
proof -
  let ?b = "form_body fs"
  have ne: "?b \<noteq> []" using form(2) by (cases fs rule: form_body.cases) auto
  have pos: "0 < length ?b" using ne by simp
  have buf: "blit (replicate (length ?b + 1) NUL) 0 ?b = Some (?b @ [NUL])"
    by (simp add: blit_def flip: replicate_append_same)
  have st: "store (?b @ [NUL]) (length ?b) NUL = Some (?b @ [NUL])"
    by (simp add: store_def)
  have isf: "is_form fs (?b @ [NUL])" using form(1) by (auto simp: is_form_def)
  obtain r where r: "form_update (?b @ [NUL]) tmp0 (settings_load nvs n s0) = Some r"
    "settings_valid r" "updated fs (settings_load nvs n s0) r"
    using form_update_form [OF isf s0(2) settings_load_wf [OF laws(2) s0(1)]] by blast
  obtain n' where n': "settings_save nvs n r = (n', True)"
    and ld: "cstr (halow_ssid (settings_load nvs n' s0)) = cstr (halow_ssid r)"
      "cstr (halow_pass (settings_load nvs n' s0)) = cstr (halow_pass r)"
      "cstr (ap_ssid (settings_load nvs n' s0)) = cstr (ap_ssid r)"
      "cstr (ap_pass (settings_load nvs n' s0)) = cstr (ap_pass r)"
      "cstr (country (settings_load nvs n' s0)) = cstr (country r)"
      "buffer_preset (settings_load nvs n' s0) = buffer_preset r"
      "ui_lang (settings_load nvs n' s0) = ui_lang r"
    using settings_save_load [OF laws(1,3) r(2), of s0] by (auto simp: Let_def)
  have "save_post_handler nvs n (length ?b) True (int (length ?b), ?b) s0 tmp0 =
      Some (n', Resp_redirect ''/?saved=1'', True)"
    using ne pos form(3) buf st r(1) n' by (simp add: save_post_handler_def)
  moreover have "updated fs (settings_load nvs n s0) (settings_load nvs n' s0)"
    using r(3) ld by (simp add: updated_def)
  ultimately show ?thesis using settings_load_wf [OF laws(2) s0(1)] by blast
qed



text \<open>which texts of the page are well-formed UTF-8, which the response declares: all English and
  Chinese ones and all Spanish ones but the two password labels.\<close>

theorem lang_texts_utf8:
  "list_all utf8_ok (lang_texts lang_en) \<and> list_all utf8_ok (lang_texts lang_zh) \<and>
   map utf8_ok (lang_texts lang_es) =
     [True, True, True, True, True, True, True, False, True, False, True, True, True, True, True,
      True, True, True, True, True]"
  by (simp add: lang_texts_def lang_en_def lang_es_def lang_zh_def utf8_cont_def)

end
