(* ===== verification/Halow_Link.thy ===== *)
theory Halow_Link
  imports Bridge_Prelude
begin

text \<open>
  The HaLow link supervision of the bridge, \<^verbatim>\<open>examples/iperf/main/src/mm_app_common.c\<close>: the timer and
  status callbacks as functions on the file's static variables, and the interleavings of these
  callbacks as a step relation. FreeRTOS timers appear as whether they exist and are running;
  the results of the WLAN and IP libraries are arguments.
\<close>

section \<open>State\<close>

definition LED_STATUS_INTERVAL_MS :: nat where "LED_STATUS_INTERVAL_MS = 10000"
definition LED_BLINK_STEP_MS :: nat where "LED_BLINK_STEP_MS = 200"
definition HALOW_RECONNECT_DELAY_MS :: nat where "HALOW_RECONNECT_DELAY_MS = 15000"
definition RSSI_INTERVAL_MS :: nat where "RSSI_INTERVAL_MS = 15000"
definition RSSI_UNKNOWN :: int where "RSSI_UNKNOWN = - (2 ^ 31)"

text \<open>
  A timer is \<open>None\<close> before it is created (or when creating it failed) and otherwise says whether it
  is running. \<open>gpio\<close> is the level of the LED pin (0 is lit), \<open>leds\<close> the levels written so far,
  \<open>given\<close> how often the semaphore was given, \<open>attempts\<close> how often \<open>mmwlan_sta_enable\<close> was called.
  \<open>in_reconnect\<close> says which of its two library calls \<open>do_halow_reconnect\<close> is in, if any.
\<close>

datatype reconnect_pc = Idle | Disabling | Enabling

record halow_state =
  last_rssi :: int
  link_established :: bool
  given :: nat
  initial_connect_done :: bool
  reconnecting :: bool
  reconnect_timer :: "bool option"
  rssi_timer :: "bool option"
  led_status_timer :: "bool option"
  led_step_timer :: "bool option"
  led_step :: nat
  led_step_total :: nat
  link_up_for_led :: bool
  gpio :: nat
  leds :: "nat list"
  attempts :: nat
  in_reconnect :: reconnect_pc

definition halow_init :: halow_state where
  "halow_init = \<lparr>last_rssi = RSSI_UNKNOWN, link_established = False, given = 0,
     initial_connect_done = False, reconnecting = False, reconnect_timer = None, rssi_timer = None,
     led_status_timer = None, led_step_timer = None, led_step = 0, led_step_total = 0,
     link_up_for_led = False, gpio = 0, leds = [], attempts = 0, in_reconnect = Idle\<rparr>"

section \<open>Callbacks\<close>

definition gpio_set_level :: "halow_state \<Rightarrow> nat \<Rightarrow> halow_state" where
  "gpio_set_level s l = s\<lparr>gpio := l, leds := leds s @ [l]\<rparr>"

definition led_step_timer_cb :: "halow_state \<Rightarrow> halow_state" where
  "led_step_timer_cb s =
     (let s = gpio_set_level s (if odd (led_step s) then 1 else 0);
          s = s\<lparr>led_step := led_step s + 1\<rparr> in
      if led_step s < led_step_total s \<and> led_step_timer s \<noteq> None
      then s\<lparr>led_step_timer := Some True\<rparr> else s)"

definition led_status_timer_cb :: "halow_state \<Rightarrow> halow_state" where
  "led_status_timer_cb s =
     (let s = s\<lparr>led_step := 0, led_step_total := if link_up_for_led s then 2 else 6\<rparr> in
      if led_step_timer s \<noteq> None then s\<lparr>led_step_timer := Some True\<rparr> else s)"

definition halow_led_set_blink :: "bool \<Rightarrow> halow_state \<Rightarrow> halow_state" where
  "halow_led_set_blink link_up s = s\<lparr>link_up_for_led := link_up\<rparr>"

definition rssi_timer_cb :: "int \<Rightarrow> halow_state \<Rightarrow> halow_state" where
  "rssi_timer_cb r s = s\<lparr>last_rssi := r\<rparr>"

definition get_halow_rssi :: "halow_state \<Rightarrow> int" where
  "get_halow_rssi s = last_rssi s"

datatype sta_state = MMWLAN_STA_DISABLED | MMWLAN_STA_CONNECTING | MMWLAN_STA_CONNECTED

fun sta_status_callback :: "sta_state \<Rightarrow> halow_state \<Rightarrow> halow_state" where
  "sta_status_callback MMWLAN_STA_DISABLED s = halow_led_set_blink False s"
| "sta_status_callback MMWLAN_STA_CONNECTING s = halow_led_set_blink False s"
| "sta_status_callback MMWLAN_STA_CONNECTED s = s"

text \<open>
  \<open>do_halow_reconnect\<close> in two parts, since the library calls in it can run the status callbacks:
  up to the return of \<open>mmwlan_sta_disable\<close>, and from there on.
\<close>

definition reconnect_begin :: "halow_state \<Rightarrow> halow_state" where
  "reconnect_begin s = s\<lparr>reconnecting := True, in_reconnect := Disabling\<rparr>"

definition reconnect_disabled :: "bool \<Rightarrow> halow_state \<Rightarrow> halow_state" where
  "reconnect_disabled disable_ok s =
     (if \<not> disable_ok then s\<lparr>reconnecting := False, in_reconnect := Idle\<rparr>
      else s\<lparr>attempts := attempts s + 1, in_reconnect := Enabling\<rparr>)"

definition reconnect_enabled :: "halow_state \<Rightarrow> halow_state" where
  "reconnect_enabled s = s\<lparr>reconnecting := False, in_reconnect := Idle\<rparr>"

definition link_status_callback :: "bool \<Rightarrow> bool \<Rightarrow> halow_state \<Rightarrow> halow_state" where
  "link_status_callback up start_ok s =
     (if up then
        let s = halow_led_set_blink True s;
            s = (if reconnecting s then s\<lparr>reconnecting := False\<rparr> else s) in
        if \<not> initial_connect_done s
        then s\<lparr>initial_connect_done := True, given := given s + 1\<rparr> else s
      else
        let s = halow_led_set_blink False s in
        if initial_connect_done s \<and> \<not> reconnecting s \<and> reconnect_timer s \<noteq> None
        then if start_ok then s\<lparr>reconnect_timer := Some True\<rparr> else s
        else s)"

section \<open>Start-up\<close>

datatype wlan_error = Called_twice | Ipal_init_failed | Version_failed | Sta_enable_failed

text \<open>The timers that \<open>xTimerCreate\<close> could create, and the results of the two checked calls.\<close>

record init_results =
  have_led_status :: bool
  have_led_step :: bool
  have_reconnect :: bool
  have_rssi :: bool
  ipal_ok :: bool
  version_ok :: bool

definition app_wlan_init :: "init_results \<Rightarrow> halow_state \<Rightarrow> wlan_error + halow_state" where
  "app_wlan_init r s =
     (if link_established s then Inl Called_twice
      else if \<not> ipal_ok r then Inl Ipal_init_failed
      else
        let s = gpio_set_level (s\<lparr>link_established := True\<rparr>) 1;
            s = s\<lparr>led_status_timer := (if have_led_status r then Some True else None),
                  led_step_timer := (if have_led_step r then Some False else None),
                  reconnect_timer := (if have_reconnect r then Some False else None),
                  rssi_timer := (if have_rssi r then Some True else None)\<rparr> in
        if \<not> version_ok r then Inl Version_failed else Inr s)"

text \<open>\<open>app_wlan_start\<close> up to the wait on the semaphore, which \<open>given\<close> releases.\<close>

definition app_wlan_start :: "bool \<Rightarrow> halow_state \<Rightarrow> wlan_error + halow_state" where
  "app_wlan_start enable_ok s =
     (if \<not> enable_ok then Inl Sta_enable_failed else Inr (s\<lparr>attempts := attempts s + 1\<rparr>))"

definition start_wait_over :: "halow_state \<Rightarrow> bool" where
  "start_wait_over s \<longleftrightarrow> given s > 0"

section \<open>Interleavings\<close>

datatype halow_event =
  Link bool bool
| Sta sta_state
| Reconnect_fires
| Disable_returns bool
| Enable_returns
| Led_status_fires
| Led_step_fires
| Rssi_fires int

text \<open>A one-shot timer fires only when it is running, and stops by firing.\<close>

inductive halow_step :: "halow_state \<Rightarrow> halow_event \<Rightarrow> halow_state \<Rightarrow> bool" where
  link: "halow_step s (Link up ok) (link_status_callback up ok s)"
| sta: "halow_step s (Sta st) (sta_status_callback st s)"
| fire: "reconnect_timer s = Some True \<Longrightarrow> in_reconnect s = Idle \<Longrightarrow>
    halow_step s Reconnect_fires (reconnect_begin (s\<lparr>reconnect_timer := Some False\<rparr>))"
| disabled: "in_reconnect s = Disabling \<Longrightarrow>
    halow_step s (Disable_returns ok) (reconnect_disabled ok s)"
| enabled: "in_reconnect s = Enabling \<Longrightarrow> halow_step s Enable_returns (reconnect_enabled s)"
| led_status: "led_status_timer s = Some True \<Longrightarrow>
    halow_step s Led_status_fires (led_status_timer_cb s)"
| led_step: "led_step_timer s = Some True \<Longrightarrow>
    halow_step s Led_step_fires (led_step_timer_cb (s\<lparr>led_step_timer := Some False\<rparr>))"
| rssi: "rssi_timer s = Some True \<Longrightarrow> halow_step s (Rssi_fires r) (rssi_timer_cb r s)"

code_pred (modes: i \<Rightarrow> i \<Rightarrow> o \<Rightarrow> bool) halow_step .

inductive_cases halow_stepE: "halow_step s e s'"
inductive_simps led_step_fires_iff: "halow_step s Led_step_fires s'"
inductive_simps reconnect_fires_iff: "halow_step s Reconnect_fires s'"

inductive halow_run :: "halow_state \<Rightarrow> halow_event list \<Rightarrow> halow_state \<Rightarrow> bool" where
  halow_run_Nil: "halow_run s [] s"
| halow_run_Cons: "halow_step s e t \<Longrightarrow> halow_run t es u \<Longrightarrow> halow_run s (e # es) u"

inductive_cases halow_run_ConsE: "halow_run s (e # es) u"
inductive_cases halow_run_NilE: "halow_run s [] u"

text \<open>Each callback as one update, with the conditions inside the values.\<close>

lemma sta_status_callback_eq:
  "sta_status_callback st s =
     s\<lparr>link_up_for_led := (st = MMWLAN_STA_CONNECTED \<and> link_up_for_led s)\<rparr>"
  by (cases st) (simp_all add: halow_led_set_blink_def)

lemma link_status_callback_eq:
  "link_status_callback up ok s =
     s\<lparr>link_up_for_led := up, reconnecting := (reconnecting s \<and> \<not> up),
       initial_connect_done := (initial_connect_done s \<or> up),
       given := given s + (if up \<and> \<not> initial_connect_done s then 1 else 0),
       reconnect_timer := (if \<not> up \<and> initial_connect_done s \<and> \<not> reconnecting s \<and>
         reconnect_timer s \<noteq> None \<and> ok then Some True else reconnect_timer s)\<rparr>"
  by (cases up; cases "reconnecting s"; cases "initial_connect_done s"; cases "reconnect_timer s"; cases ok)
     (simp_all add: link_status_callback_def halow_led_set_blink_def)

lemma led_step_timer_cb_eq:
  "led_step_timer_cb s =
     s\<lparr>gpio := led_step s mod 2, leds := leds s @ [led_step s mod 2], led_step := led_step s + 1,
       led_step_timer := (if led_step s + 1 < led_step_total s \<and> led_step_timer s \<noteq> None
         then Some True else led_step_timer s)\<rparr>"
proof -
  have "(if odd (led_step s) then 1 else 0) = led_step s mod 2" by (simp add: odd_iff_mod_2_eq_one)
  then show ?thesis by (simp add: led_step_timer_cb_def gpio_set_level_def Let_def)
qed

lemma led_status_timer_cb_eq:
  "led_status_timer_cb s =
     s\<lparr>led_step := 0, led_step_total := (if link_up_for_led s then 2 else 6),
       led_step_timer := (if led_step_timer s \<noteq> None then Some True else None)\<rparr>"
  by (simp add: led_status_timer_cb_def Let_def)

lemmas halow_callbacks = sta_status_callback_eq link_status_callback_eq led_step_timer_cb_eq
  led_status_timer_cb_eq reconnect_begin_def reconnect_disabled_def reconnect_enabled_def
  rssi_timer_cb_def

section \<open>The start-up semaphore\<close>

definition link_inv :: "halow_state \<Rightarrow> bool" where
  "link_inv s \<longleftrightarrow> given s = (if initial_connect_done s then 1 else 0) \<and>
     (reconnecting s \<longrightarrow> in_reconnect s \<noteq> Idle)"

lemma link_inv_step: "halow_step s e t \<Longrightarrow> link_inv s \<Longrightarrow> link_inv t"
  by (erule halow_stepE) (auto simp: link_inv_def halow_callbacks)

lemma link_inv_run: "halow_run s es t \<Longrightarrow> link_inv s \<Longrightarrow> link_inv t"
  by (induction rule: halow_run.induct) (auto intro: link_inv_step)

lemma link_inv_init: "app_wlan_init r halow_init = Inr s \<Longrightarrow> link_inv s"
  by (auto simp: app_wlan_init_def halow_init_def link_inv_def gpio_set_level_def Let_def split: if_splits)

lemma initial_connect_step:
  "halow_step s e t \<Longrightarrow> initial_connect_done t = (initial_connect_done s \<or> (\<exists>ok. e = Link True ok))"
  by (erule halow_stepE) (auto simp: halow_callbacks)

lemma initial_connect_run:
  "halow_run s es t \<Longrightarrow>
     initial_connect_done t = (initial_connect_done s \<or> (\<exists>ok. Link True ok \<in> set es))"
  by (induction rule: halow_run.induct) (auto simp: initial_connect_step)

section \<open>LED bursts\<close>

text \<open>
  The steps of a burst from step \<open>k\<close> on, with nothing else firing the LED timers in between; other
  events do not disturb it.
\<close>

definition led_quiet :: "halow_event \<Rightarrow> bool" where
  "led_quiet e \<longleftrightarrow> e \<noteq> Led_status_fires \<and> e \<noteq> Led_step_fires"

lemma led_quiet_step:
  assumes "halow_step s e t" "led_quiet e"
  shows "leds t = leds s" "led_step t = led_step s" "led_step_total t = led_step_total s"
    "led_step_timer t = led_step_timer s"
  using assms by (auto elim!: halow_stepE simp: halow_callbacks led_quiet_def)

lemma led_step_fires:
  assumes "halow_step s Led_step_fires t"
  shows "led_step_timer s = Some True" "leds t = leds s @ [led_step s mod 2]"
    "led_step t = led_step s + 1" "led_step_total t = led_step_total s"
    "led_step_timer t = Some (led_step s + 1 < led_step_total s)"
  using assms unfolding led_step_fires_iff by (auto simp: halow_callbacks)

definition count_steps :: "halow_event list \<Rightarrow> nat" where
  "count_steps es = length (filter (\<lambda>e. e = Led_step_fires) es)"

lemma led_burst_from:
  assumes "halow_run s es t" "Led_status_fires \<notin> set es" "led_step s < led_step_total s"
    and "led_step_timer s = Some True"
  shows "count_steps es \<le> led_step_total s - led_step s \<and>
    leds t = leds s @ map (\<lambda>k. k mod 2) [led_step s..<led_step s + count_steps es] \<and>
    led_step_timer t = Some (count_steps es < led_step_total s - led_step s)"
  using assms
proof (induction s es t rule: halow_run.induct)
  case (halow_run_Nil s)
  then show ?case by (simp add: count_steps_def)
next
  case (halow_run_Cons s e t es u)
  show ?case
  proof (cases "e = Led_step_fires")
    case False
    with halow_run_Cons have "led_quiet e" by (auto simp: led_quiet_def)
    note q = led_quiet_step [OF halow_run_Cons.hyps(1) this]
    with halow_run_Cons False show ?thesis by (simp add: count_steps_def)
  next
    case True
    note f = led_step_fires [OF halow_run_Cons.hyps(1) [unfolded True]]
    have c: "count_steps (e # es) = Suc (count_steps es)" using True by (simp add: count_steps_def)
    show ?thesis
    proof (cases "led_step s + 1 < led_step_total s")
      case True
      with halow_run_Cons f have IH: "count_steps es \<le> led_step_total s - (led_step s + 1) \<and>
          leds u = leds t @ map (\<lambda>k. k mod 2) [led_step s + 1..<led_step s + 1 + count_steps es] \<and>
          led_step_timer u = Some (count_steps es < led_step_total s - (led_step s + 1))"
        by simp
      have "[led_step s..<led_step s + Suc (count_steps es)] =
          led_step s # [led_step s + 1..<led_step s + 1 + count_steps es]"
        by (simp add: upt_conv_Cons)
      with IH f c True show ?thesis by auto
    next
      case False
      then have last: "led_step_total s = led_step s + 1" using halow_run_Cons.prems by linarith
      have "count_steps es = 0 \<and> leds u = leds t \<and> led_step_timer u = led_step_timer t"
        using halow_run_Cons.hyps(2) halow_run_Cons.prems(1) f(5) False
      proof (induction rule: halow_run.induct)
        case (halow_run_Cons a e' b es' c)
        have "e' \<noteq> Led_step_fires"
          using led_step_fires(1) halow_run_Cons by fastforce
        then have "led_quiet e'" using halow_run_Cons by (auto simp: led_quiet_def)
        note q = led_quiet_step [OF halow_run_Cons.hyps(1) this]
        with halow_run_Cons \<open>e' \<noteq> Led_step_fires\<close> show ?case by (simp add: count_steps_def)
      qed (simp add: count_steps_def)
      with f c last False show ?thesis by simp
    qed
  qed
qed

section \<open>Reconnection\<close>

definition no_reconnect :: "halow_state \<Rightarrow> bool" where
  "no_reconnect s \<longleftrightarrow> in_reconnect s = Idle \<and> reconnect_timer s = Some False"

lemma no_reconnect_step:
  "halow_step s e t \<Longrightarrow> no_reconnect s \<Longrightarrow> \<forall>ok. e \<noteq> Link False ok \<Longrightarrow>
     no_reconnect t \<and> attempts t = attempts s"
  by (erule halow_stepE) (auto simp: no_reconnect_def halow_callbacks)

lemma no_reconnect_run:
  "halow_run s es t \<Longrightarrow> no_reconnect s \<Longrightarrow> \<forall>ok. Link False ok \<notin> set es \<Longrightarrow>
     no_reconnect t \<and> attempts t = attempts s"
  by (induction rule: halow_run.induct) (auto dest!: no_reconnect_step)

section \<open>Properties\<close>

text \<open>the wait in \<open>app_wlan_start\<close> is released by the first link-up and the semaphore is given
  once: after initialisation and start, in every interleaving of callbacks, it has been given
  exactly when a link-up has been reported, and never twice.\<close>

theorem start_released_once:
  assumes "app_wlan_init r halow_init = Inr s" "app_wlan_start True s = Inr s1" "halow_run s1 es t"
  shows "given t = (if \<exists>ok. Link True ok \<in> set es then 1 else 0) \<and>
    (start_wait_over t \<longleftrightarrow> (\<exists>ok. Link True ok \<in> set es))"
proof -
  have s: "link_inv s1" "\<not> initial_connect_done s1"
    using link_inv_init [OF assms(1)] assms(1,2)
    by (auto simp: app_wlan_start_def link_inv_def app_wlan_init_def halow_init_def
        gpio_set_level_def Let_def split: if_splits)
  have "link_inv t" by (rule link_inv_run [OF assms(3) s(1)])
  then show ?thesis
    using initial_connect_run [OF assms(3)] s(2) by (auto simp: link_inv_def start_wait_over_def)
qed

definition all_ok :: init_results where
  "all_ok = \<lparr>have_led_status = True, have_led_step = True, have_reconnect = True, have_rssi = True,
     ipal_ok = True, version_ok = True\<rparr>"

definition started :: halow_state where
  "started = halow_init\<lparr>link_established := True, gpio := 1, leds := [1],
     led_status_timer := Some True, led_step_timer := Some False, reconnect_timer := Some False,
     rssi_timer := Some True, attempts := 1\<rparr>"

lemma started_init:
  "app_wlan_init all_ok halow_init = Inr (started\<lparr>attempts := 0\<rparr>)"
  "app_wlan_start True (started\<lparr>attempts := 0\<rparr>) = Inr started"
  by (simp_all add: app_wlan_init_def all_ok_def halow_init_def started_def gpio_set_level_def
      app_wlan_start_def)

theorem start_released_once_witness:
  "given (link_status_callback True True started) =
     (if \<exists>ok. Link True ok \<in> set [Link True True] then 1 else 0) \<and>
   (start_wait_over (link_status_callback True True started) \<longleftrightarrow>
     (\<exists>ok. Link True ok \<in> set [Link True True]))"
  by (rule start_released_once [OF started_init])
     (rule halow_run_Cons [OF halow_step.link halow_run_Nil])

text \<open>a status burst is one blink when the link is up and three when it is down, and ends with
  the LED off: after the status timer fires, whatever happens until it fires again, the levels
  written are the beginning of the burst's pattern (0 is lit), and the step timer is running
  exactly while the pattern is not finished.\<close>

theorem led_burst:
  assumes "halow_step s Led_status_fires t" "led_step_timer s \<noteq> None"
    and "halow_run t es u" "Led_status_fires \<notin> set es"
  shows "\<exists>k. let pattern = (if link_up_for_led s then [0, 1] else [0, 1, 0, 1, 0, 1]) in
    k \<le> length pattern \<and> leds u = leds s @ take k pattern \<and>
    led_step_timer u = Some (k < length pattern)"
proof -
  have t: "leds t = leds s" "led_step t = 0" "led_step_total t = (if link_up_for_led s then 2 else 6)"
    "led_step_timer t = Some True"
    using assms(1,2) by (auto elim!: halow_stepE simp: halow_callbacks)
  let ?c = "count_steps es"
  let ?p = "if link_up_for_led s then [0, 1] else [0, 1, 0, 1, 0, 1 :: nat]"
  have len: "length ?p = led_step_total t" using t(3) by simp
  have b: "?c \<le> length ?p" "leds u = leds s @ map (\<lambda>k. k mod 2) [0..<?c]"
    "led_step_timer u = Some (?c < length ?p)"
    using led_burst_from [OF assms(3,4)] t len by (auto split: if_splits)
  have eq: "map (\<lambda>k. k mod 2) [0..<length ?p] = ?p" by (simp add: upt_rec)
  have "map (\<lambda>k. k mod 2) [0..<?c] = map (\<lambda>k. k mod 2) (take ?c [0..<length ?p])"
    using b(1) by (simp only: take_upt add_0)
  also have "\<dots> = take ?c ?p" by (simp only: take_map [symmetric] eq)
  finally have "map (\<lambda>k. k mod 2) [0..<?c] = take ?c ?p" .
  with b show ?thesis by (intro exI [of _ ?c]) (simp only: Let_def)
qed

theorem led_burst_witness:
  "\<exists>k. let pattern = (if link_up_for_led started then [0, 1] else [0, 1, 0, 1, 0, 1]) in
    k \<le> length pattern \<and> leds (led_status_timer_cb started) = leds started @ take k pattern \<and>
    led_step_timer (led_status_timer_cb started) = Some (k < length pattern)"
  by (rule led_burst [OF halow_step.led_status _ halow_run_Nil]) (simp_all add: started_def)



text \<open>a failed reconnection is not retried. When disabling the station fails, the reconnect timer
  is left stopped, and no further attempt is made until the link goes down once more, although the
  link is already down.\<close>

theorem failed_reconnect_not_retried:
  assumes "halow_run s [Reconnect_fires, Disable_returns False] t" "halow_run t es u"
    and "\<forall>ok. Link False ok \<notin> set es"
  shows "attempts u = attempts s \<and> reconnect_timer u = Some False"
proof -
  have "no_reconnect t \<and> attempts t = attempts s"
    using assms(1)
    by (auto elim!: halow_run_ConsE halow_run_NilE halow_stepE simp: no_reconnect_def halow_callbacks)
  then show ?thesis using no_reconnect_run [OF assms(2) _ assms(3)] by (simp add: no_reconnect_def)
qed

theorem failed_reconnect_not_retried_witness:
  "attempts (reconnect_disabled False (reconnect_begin (started\<lparr>reconnect_timer := Some False\<rparr>))) =
     attempts (started\<lparr>reconnect_timer := Some True\<rparr>) \<and>
   reconnect_timer (reconnect_disabled False (reconnect_begin (started\<lparr>reconnect_timer := Some False\<rparr>))) =
     Some False"
proof -
  let ?s = "started\<lparr>reconnect_timer := Some True\<rparr>"
  let ?t = "reconnect_begin (started\<lparr>reconnect_timer := Some False\<rparr>)"
  have "halow_step ?s Reconnect_fires (reconnect_begin (?s\<lparr>reconnect_timer := Some False\<rparr>))"
    by (rule halow_step.fire) (simp_all add: started_def halow_init_def)
  then have "halow_step ?s Reconnect_fires ?t" by simp
  moreover have "halow_step ?t (Disable_returns False) (reconnect_disabled False ?t)"
    by (rule halow_step.disabled) (simp add: reconnect_begin_def)
  ultimately have "halow_run ?s [Reconnect_fires, Disable_returns False] (reconnect_disabled False ?t)"
    by (blast intro: halow_run.intros)
  then show ?thesis
    by (rule failed_reconnect_not_retried [OF _ halow_run_Nil]) simp
qed

end
