(* ===== verification/Regdb.thy ===== *)
theory Regdb
  imports Bridge_Prelude
begin

text \<open>
  The template regulatory database, \<^verbatim>\<open>framework/src/mmregdb/mmregdb.c\<close>, with its types and the lookup
  \<open>mmwlan_lookup_regulatory_domain\<close> of \<^verbatim>\<open>framework/morselib/include/mmwlan.h\<close>. A pointer into a
  channel array is the array and an offset.
\<close>

section \<open>Types\<close>

record mmwlan_s1g_channel =
  centre_freq_hz :: nat
  duty_cycle_sta :: nat
  duty_cycle_omit_ctrl_resp :: bool
  global_operating_class :: int
  s1g_operating_class :: int
  s1g_chan_num :: nat
  bw_mhz :: nat
  max_tx_eirp_dbm :: int
  pkt_spacing_us :: nat
  airtime_min_us :: nat
  airtime_max_us :: nat

record mmwlan_s1g_channel_list =
  country_code :: string
  num_channels :: nat
  channels :: "mmwlan_s1g_channel list"
  channels_offset :: nat

record mmwlan_regulatory_db =
  num_domains :: nat
  domains :: "mmwlan_s1g_channel_list list"

text \<open>The initialiser of one row of a channel array, in the order of the struct.\<close>

definition ch :: "nat \<Rightarrow> nat \<Rightarrow> bool \<Rightarrow> int \<Rightarrow> int \<Rightarrow> nat \<Rightarrow> nat \<Rightarrow> int \<Rightarrow> nat \<Rightarrow> nat \<Rightarrow> nat \<Rightarrow>
  mmwlan_s1g_channel" where
  "ch freq duty omit gclass sclass num bw eirp spacing amin amax =
     \<lparr>centre_freq_hz = freq, duty_cycle_sta = duty, duty_cycle_omit_ctrl_resp = omit,
      global_operating_class = gclass, s1g_operating_class = sclass, s1g_chan_num = num,
      bw_mhz = bw, max_tx_eirp_dbm = eirp, pkt_spacing_us = spacing, airtime_min_us = amin,
      airtime_max_us = amax\<rparr>"

text \<open>A list over a whole array, and over part of one.\<close>

definition whole_list :: "string \<Rightarrow> mmwlan_s1g_channel list \<Rightarrow> mmwlan_s1g_channel_list" where
  "whole_list cc chs = \<lparr>country_code = cc, num_channels = length chs, channels = chs,
     channels_offset = 0\<rparr>"

section \<open>Channels\<close>

definition s1g_channels_AU :: "mmwlan_s1g_channel list" where
  "s1g_channels_AU = [
     ch 915500000 10000 False 68 22 27 1 30 0 0 0,
     ch 916500000 10000 False 68 22 29 1 30 0 0 0,
     ch 917500000 10000 False 68 22 31 1 30 0 0 0,
     ch 918500000 10000 False 68 22 33 1 30 0 0 0,
     ch 919500000 10000 False 68 22 35 1 30 0 0 0,
     ch 920500000 10000 False 68 22 37 1 30 0 0 0,
     ch 921500000 10000 False 68 22 39 1 30 0 0 0,
     ch 922500000 10000 False 68 22 41 1 30 0 0 0,
     ch 923500000 10000 False 68 22 43 1 30 0 0 0,
     ch 924500000 10000 False 68 22 45 1 30 0 0 0,
     ch 925500000 10000 False 68 22 47 1 30 0 0 0,
     ch 926500000 10000 False 68 22 49 1 30 0 0 0,
     ch 927500000 10000 False 68 22 51 1 30 0 0 0,
     ch 917000000 10000 False 69 23 30 2 30 0 0 0,
     ch 919000000 10000 False 69 23 34 2 30 0 0 0,
     ch 921000000 10000 False 69 23 38 2 30 0 0 0,
     ch 923000000 10000 False 69 23 42 2 30 0 0 0,
     ch 925000000 10000 False 69 23 46 2 30 0 0 0,
     ch 927000000 10000 False 69 23 50 2 30 0 0 0,
     ch 918000000 10000 False 70 24 32 4 30 0 0 0,
     ch 922000000 10000 False 70 24 40 4 30 0 0 0,
     ch 926000000 10000 False 70 24 48 4 30 0 0 0,
     ch 924000000 10000 False 71 25 44 8 30 0 0 0,
     ch 916000000 10000 False 50 22 28 1 30 0 0 0,
     ch 917000000 10000 False 50 22 30 1 30 0 0 0,
     ch 918000000 10000 False 50 22 32 1 30 0 0 0,
     ch 919000000 10000 False 50 22 34 1 30 0 0 0,
     ch 920000000 10000 False 50 22 36 1 30 0 0 0,
     ch 921000000 10000 False 50 22 38 1 30 0 0 0,
     ch 922000000 10000 False 50 22 40 1 30 0 0 0,
     ch 923000000 10000 False 50 22 42 1 30 0 0 0,
     ch 924000000 10000 False 50 22 44 1 30 0 0 0,
     ch 925000000 10000 False 50 22 46 1 30 0 0 0,
     ch 926000000 10000 False 50 22 48 1 30 0 0 0,
     ch 927000000 10000 False 50 22 50 1 30 0 0 0,
     ch 916500000 10000 False 51 23 29 2 30 0 0 0,
     ch 918500000 10000 False 51 23 33 2 30 0 0 0,
     ch 920500000 10000 False 51 23 37 2 30 0 0 0,
     ch 922500000 10000 False 51 23 41 2 30 0 0 0,
     ch 924500000 10000 False 51 23 45 2 30 0 0 0,
     ch 926500000 10000 False 51 23 49 2 30 0 0 0,
     ch 917500000 10000 False 52 24 31 4 30 0 0 0,
     ch 921500000 10000 False 52 24 39 4 30 0 0 0,
     ch 925500000 10000 False 52 24 47 4 30 0 0 0,
     ch 919500000 10000 False 53 25 35 8 30 0 0 0,
     ch 923500000 10000 False 53 25 43 8 30 0 0 0,
     ch 919500000 10000 False 48 39 51 4 30 0 0 0,
     ch 923500000 10000 False 48 39 59 4 30 0 0 0,
     ch 921500000 10000 False 49 40 55 8 30 0 0 0]"

definition s1g_channels_CA :: "mmwlan_s1g_channel list" where
  "s1g_channels_CA = [
     ch 902500000 10000 False 68 1 1 1 36 0 0 0,
     ch 903500000 10000 False 68 1 3 1 36 0 0 0,
     ch 904500000 10000 False 68 1 5 1 36 0 0 0,
     ch 905500000 10000 False 68 1 7 1 36 0 0 0,
     ch 906500000 10000 False 68 1 9 1 36 0 0 0,
     ch 907500000 10000 False 68 1 11 1 36 0 0 0,
     ch 908500000 10000 False 68 1 13 1 36 0 0 0,
     ch 909500000 10000 False 68 1 15 1 36 0 0 0,
     ch 910500000 10000 False 68 1 17 1 36 0 0 0,
     ch 911500000 10000 False 68 1 19 1 36 0 0 0,
     ch 912500000 10000 False 68 1 21 1 36 0 0 0,
     ch 913500000 10000 False 68 1 23 1 36 0 0 0,
     ch 914500000 10000 False 68 1 25 1 36 0 0 0,
     ch 915500000 10000 False 68 1 27 1 36 0 0 0,
     ch 916500000 10000 False 68 1 29 1 36 0 0 0,
     ch 917500000 10000 False 68 1 31 1 36 0 0 0,
     ch 918500000 10000 False 68 1 33 1 36 0 0 0,
     ch 919500000 10000 False 68 1 35 1 36 0 0 0,
     ch 920500000 10000 False 68 1 37 1 36 0 0 0,
     ch 921500000 10000 False 68 1 39 1 36 0 0 0,
     ch 922500000 10000 False 68 1 41 1 36 0 0 0,
     ch 923500000 10000 False 68 1 43 1 36 0 0 0,
     ch 924500000 10000 False 68 1 45 1 36 0 0 0,
     ch 925500000 10000 False 68 1 47 1 36 0 0 0,
     ch 926500000 10000 False 68 1 49 1 36 0 0 0,
     ch 927500000 10000 False 68 1 51 1 36 0 0 0,
     ch 903000000 10000 False 69 2 2 2 36 0 0 0,
     ch 905000000 10000 False 69 2 6 2 36 0 0 0,
     ch 907000000 10000 False 69 2 10 2 36 0 0 0,
     ch 909000000 10000 False 69 2 14 2 36 0 0 0,
     ch 911000000 10000 False 69 2 18 2 36 0 0 0,
     ch 913000000 10000 False 69 2 22 2 36 0 0 0,
     ch 915000000 10000 False 69 2 26 2 36 0 0 0,
     ch 917000000 10000 False 69 2 30 2 36 0 0 0,
     ch 919000000 10000 False 69 2 34 2 36 0 0 0,
     ch 921000000 10000 False 69 2 38 2 36 0 0 0,
     ch 923000000 10000 False 69 2 42 2 36 0 0 0,
     ch 925000000 10000 False 69 2 46 2 36 0 0 0,
     ch 927000000 10000 False 69 2 50 2 36 0 0 0,
     ch 906000000 10000 False 70 3 8 4 36 0 0 0,
     ch 910000000 10000 False 70 3 16 4 36 0 0 0,
     ch 914000000 10000 False 70 3 24 4 36 0 0 0,
     ch 918000000 10000 False 70 3 32 4 36 0 0 0,
     ch 922000000 10000 False 70 3 40 4 36 0 0 0,
     ch 926000000 10000 False 70 3 48 4 36 0 0 0,
     ch 908000000 10000 False 71 4 12 8 36 0 0 0,
     ch 916000000 10000 False 71 4 28 8 36 0 0 0,
     ch 924000000 10000 False 71 4 44 8 36 0 0 0]"

definition s1g_channels_EU :: "mmwlan_s1g_channel list" where
  "s1g_channels_EU = [
     ch 863500000 280 False 66 6 1 1 16 0 0 0,
     ch 864500000 280 False 66 6 3 1 16 0 0 0,
     ch 865500000 280 False 66 6 5 1 16 0 0 0,
     ch 866500000 280 False 66 6 7 1 16 0 0 0,
     ch 867500000 280 False 66 6 9 1 16 0 0 0,
     ch 864000000 280 False 67 7 2 2 16 0 0 0,
     ch 866000000 280 False 67 7 6 2 16 0 0 0]"

definition s1g_channels_GB :: "mmwlan_s1g_channel list" where
  "s1g_channels_GB = [
     ch 863500000 280 False 66 6 1 1 16 0 0 0,
     ch 864500000 280 False 66 6 3 1 16 0 0 0,
     ch 865500000 280 False 66 6 5 1 16 0 0 0,
     ch 866500000 280 False 66 6 7 1 16 0 0 0,
     ch 867500000 280 False 66 6 9 1 16 0 0 0,
     ch 864000000 280 False 67 7 2 2 16 0 0 0,
     ch 866000000 280 False 67 7 6 2 16 0 0 0,
     ch 917900000 280 False 77 30 33 1 16 0 0 0,
     ch 918900000 280 False 77 30 35 1 16 0 0 0]"

definition s1g_channels_IN :: "mmwlan_s1g_channel list" where
  "s1g_channels_IN = [
     ch 865500000 280 False 66 6 5 1 16 0 0 0,
     ch 866500000 280 False 66 6 7 1 16 0 0 0,
     ch 867500000 280 False 66 6 9 1 16 0 0 0]"

definition s1g_channels_JP :: "mmwlan_s1g_channel list" where
  "s1g_channels_JP = [
     ch 921000000 1000 True 73 8 9 1 16 2000 2000 100000,
     ch 923000000 1000 True 73 8 13 1 16 2000 2000 100000,
     ch 924000000 1000 True 73 8 15 1 16 2000 2000 100000,
     ch 925000000 1000 True 73 8 17 1 16 2000 2000 100000,
     ch 926000000 1000 True 73 8 19 1 16 2000 2000 100000,
     ch 927000000 1000 True 73 8 21 1 16 2000 2000 100000,
     ch 923500000 1000 True 64 9 2 2 16 2000 2000 100000,
     ch 924500000 1000 True 64 10 4 2 16 2000 2000 100000,
     ch 925500000 1000 True 64 9 6 2 16 2000 2000 100000,
     ch 926500000 1000 True 64 10 8 2 16 2000 2000 100000,
     ch 924500000 1000 True 65 11 36 4 16 2000 2000 100000,
     ch 925500000 1000 True 65 12 38 4 16 2000 2000 100000]"

definition s1g_channels_KR :: "mmwlan_s1g_channel list" where
  "s1g_channels_KR = [
     ch 918000000 10000 False 74 14 1 1 4 50000 0 4000000,
     ch 919000000 10000 False 74 14 3 1 4 50000 0 4000000,
     ch 920000000 10000 False 74 14 5 1 4 50000 0 4000000,
     ch 921000000 10000 False 74 14 7 1 4 50000 0 4000000,
     ch 922000000 10000 False 74 14 9 1 10 50000 0 4000000,
     ch 923000000 10000 False 74 14 11 1 10 50000 0 4000000,
     ch 918500000 10000 False 75 15 2 2 4 50000 0 4000000,
     ch 920500000 10000 False 75 15 6 2 4 50000 0 4000000,
     ch 922500000 10000 False 75 15 10 2 10 50000 0 4000000,
     ch 921500000 10000 False 76 16 8 4 4 50000 0 4000000,
     ch 926500000 10000 False 74 14 18 1 17 264 0 220000,
     ch 927500000 10000 False 74 14 20 1 17 264 0 220000,
     ch 928500000 10000 False 74 14 22 1 17 264 0 220000,
     ch 929500000 10000 False 74 14 24 1 17 264 0 220000,
     ch 927000000 10000 False 75 15 19 2 20 264 0 220000,
     ch 929000000 10000 False 75 15 23 2 20 264 0 220000]"

definition s1g_channels_NZ :: "mmwlan_s1g_channel list" where
  "s1g_channels_NZ = [
     ch 915500000 10000 False 68 26 27 1 30 0 0 0,
     ch 916500000 10000 False 68 26 29 1 30 0 0 0,
     ch 917500000 10000 False 68 26 31 1 30 0 0 0,
     ch 918500000 10000 False 68 26 33 1 30 0 0 0,
     ch 919500000 10000 False 68 26 35 1 30 0 0 0,
     ch 920500000 10000 False 68 26 37 1 36 0 0 0,
     ch 921500000 10000 False 68 26 39 1 36 0 0 0,
     ch 922500000 10000 False 68 26 41 1 36 0 0 0,
     ch 923500000 10000 False 68 26 43 1 36 0 0 0,
     ch 924500000 10000 False 68 26 45 1 36 0 0 0,
     ch 925500000 10000 False 68 26 47 1 36 0 0 0,
     ch 926500000 10000 False 68 26 49 1 36 0 0 0,
     ch 927500000 10000 False 68 26 51 1 36 0 0 0,
     ch 917000000 10000 False 69 27 30 2 30 0 0 0,
     ch 919000000 10000 False 69 27 34 2 30 0 0 0,
     ch 921000000 10000 False 69 27 38 2 36 0 0 0,
     ch 923000000 10000 False 69 27 42 2 36 0 0 0,
     ch 925000000 10000 False 69 27 46 2 36 0 0 0,
     ch 927000000 10000 False 69 27 50 2 36 0 0 0,
     ch 918000000 10000 False 70 28 32 4 30 0 0 0,
     ch 922000000 10000 False 70 28 40 4 36 0 0 0,
     ch 926000000 10000 False 70 28 48 4 36 0 0 0,
     ch 924000000 10000 False 71 29 44 8 36 0 0 0]"

definition s1g_channels_US :: "mmwlan_s1g_channel list" where
  "s1g_channels_US = [
     ch 902500000 10000 False 68 1 1 1 36 0 0 0,
     ch 903500000 10000 False 68 1 3 1 36 0 0 0,
     ch 904500000 10000 False 68 1 5 1 36 0 0 0,
     ch 905500000 10000 False 68 1 7 1 36 0 0 0,
     ch 906500000 10000 False 68 1 9 1 36 0 0 0,
     ch 907500000 10000 False 68 1 11 1 36 0 0 0,
     ch 908500000 10000 False 68 1 13 1 36 0 0 0,
     ch 909500000 10000 False 68 1 15 1 36 0 0 0,
     ch 910500000 10000 False 68 1 17 1 36 0 0 0,
     ch 911500000 10000 False 68 1 19 1 36 0 0 0,
     ch 912500000 10000 False 68 1 21 1 36 0 0 0,
     ch 913500000 10000 False 68 1 23 1 36 0 0 0,
     ch 914500000 10000 False 68 1 25 1 36 0 0 0,
     ch 915500000 10000 False 68 1 27 1 36 0 0 0,
     ch 916500000 10000 False 68 1 29 1 36 0 0 0,
     ch 917500000 10000 False 68 1 31 1 36 0 0 0,
     ch 918500000 10000 False 68 1 33 1 36 0 0 0,
     ch 919500000 10000 False 68 1 35 1 36 0 0 0,
     ch 920500000 10000 False 68 1 37 1 36 0 0 0,
     ch 921500000 10000 False 68 1 39 1 36 0 0 0,
     ch 922500000 10000 False 68 1 41 1 36 0 0 0,
     ch 923500000 10000 False 68 1 43 1 36 0 0 0,
     ch 924500000 10000 False 68 1 45 1 36 0 0 0,
     ch 925500000 10000 False 68 1 47 1 36 0 0 0,
     ch 926500000 10000 False 68 1 49 1 36 0 0 0,
     ch 927500000 10000 False 68 1 51 1 36 0 0 0,
     ch 903000000 10000 False 69 2 2 2 36 0 0 0,
     ch 905000000 10000 False 69 2 6 2 36 0 0 0,
     ch 907000000 10000 False 69 2 10 2 36 0 0 0,
     ch 909000000 10000 False 69 2 14 2 36 0 0 0,
     ch 911000000 10000 False 69 2 18 2 36 0 0 0,
     ch 913000000 10000 False 69 2 22 2 36 0 0 0,
     ch 915000000 10000 False 69 2 26 2 36 0 0 0,
     ch 917000000 10000 False 69 2 30 2 36 0 0 0,
     ch 919000000 10000 False 69 2 34 2 36 0 0 0,
     ch 921000000 10000 False 69 2 38 2 36 0 0 0,
     ch 923000000 10000 False 69 2 42 2 36 0 0 0,
     ch 925000000 10000 False 69 2 46 2 36 0 0 0,
     ch 927000000 10000 False 69 2 50 2 36 0 0 0,
     ch 906000000 10000 False 70 3 8 4 36 0 0 0,
     ch 910000000 10000 False 70 3 16 4 36 0 0 0,
     ch 914000000 10000 False 70 3 24 4 36 0 0 0,
     ch 918000000 10000 False 70 3 32 4 36 0 0 0,
     ch 922000000 10000 False 70 3 40 4 36 0 0 0,
     ch 926000000 10000 False 70 3 48 4 36 0 0 0,
     ch 908000000 10000 False 71 4 12 8 36 0 0 0,
     ch 916000000 10000 False 71 4 28 8 36 0 0 0,
     ch 924000000 10000 False 71 4 44 8 36 0 0 0]"

section \<open>Domains\<close>

definition s1g_channel_list_au_80211_2020 :: mmwlan_s1g_channel_list where
  "s1g_channel_list_au_80211_2020 =
     \<lparr>country_code = ''AU'', num_channels = 23, channels = s1g_channels_AU, channels_offset = 0\<rparr>"

definition s1g_channel_list_au_80211_2024 :: mmwlan_s1g_channel_list where
  "s1g_channel_list_au_80211_2024 =
     \<lparr>country_code = ''AU'', num_channels = 23, channels = s1g_channels_AU, channels_offset = 23\<rparr>"

definition s1g_channel_list_au_80211_revmf :: mmwlan_s1g_channel_list where
  "s1g_channel_list_au_80211_revmf =
     \<lparr>country_code = ''AU'', num_channels = 26, channels = s1g_channels_AU, channels_offset = 23\<rparr>"

definition s1g_channel_list_CA :: mmwlan_s1g_channel_list where
  "s1g_channel_list_CA = whole_list ''CA'' s1g_channels_CA"

definition s1g_channel_list_EU :: mmwlan_s1g_channel_list where
  "s1g_channel_list_EU = whole_list ''EU'' s1g_channels_EU"

definition s1g_channel_list_GB :: mmwlan_s1g_channel_list where
  "s1g_channel_list_GB = whole_list ''GB'' s1g_channels_GB"

definition s1g_channel_list_IN :: mmwlan_s1g_channel_list where
  "s1g_channel_list_IN = whole_list ''IN'' s1g_channels_IN"

definition s1g_channel_list_JP :: mmwlan_s1g_channel_list where
  "s1g_channel_list_JP = whole_list ''JP'' s1g_channels_JP"

definition s1g_channel_list_KR :: mmwlan_s1g_channel_list where
  "s1g_channel_list_KR = whole_list ''KR'' s1g_channels_KR"

definition s1g_channel_list_NZ :: mmwlan_s1g_channel_list where
  "s1g_channel_list_NZ = whole_list ''NZ'' s1g_channels_NZ"

definition s1g_channel_list_US :: mmwlan_s1g_channel_list where
  "s1g_channel_list_US = whole_list ''US'' s1g_channels_US"

definition regulatory_db_domains :: "mmwlan_s1g_channel_list list" where
  "regulatory_db_domains = [s1g_channel_list_au_80211_revmf, s1g_channel_list_CA,
     s1g_channel_list_EU, s1g_channel_list_GB, s1g_channel_list_IN, s1g_channel_list_JP,
     s1g_channel_list_KR, s1g_channel_list_NZ, s1g_channel_list_US]"

definition regulatory_db :: mmwlan_regulatory_db where
  "regulatory_db = \<lparr>num_domains = length regulatory_db_domains, domains = regulatory_db_domains\<rparr>"

definition get_regulatory_db :: "mmwlan_regulatory_db option" where
  "get_regulatory_db = Some regulatory_db"

section \<open>Lookup\<close>

text \<open>
  The lookup compares the first two characters of the code with those of each domain;
  \<open>None\<close> is a read outside one of the strings (each with its terminator) or the domain array.
\<close>

fun lookup_domains :: "mmwlan_s1g_channel_list list \<Rightarrow> string \<Rightarrow> mmwlan_s1g_channel_list option option" where
  "lookup_domains [] cc = Some None"
| "lookup_domains (d # ds) cc = do {
     d0 \<leftarrow> load (country_code d @ [NUL]) 0;
     c0 \<leftarrow> load cc 0;
     if d0 \<noteq> c0 then lookup_domains ds cc
     else do {
       d1 \<leftarrow> load (country_code d @ [NUL]) 1;
       c1 \<leftarrow> load cc 1;
       if d1 = c1 then Some (Some d) else lookup_domains ds cc
     }
   }"

definition mmwlan_lookup_regulatory_domain ::
  "mmwlan_regulatory_db option \<Rightarrow> string \<Rightarrow> mmwlan_s1g_channel_list option option" where
  "mmwlan_lookup_regulatory_domain db cc =
     (case db of None \<Rightarrow> Some None
      | Some db \<Rightarrow> if num_domains db \<le> length (domains db)
          then lookup_domains (take (num_domains db) (domains db)) cc else None)"

section \<open>Well-formed databases\<close>

definition list_channels :: "mmwlan_s1g_channel_list \<Rightarrow> mmwlan_s1g_channel list" where
  "list_channels l = take (num_channels l) (drop (channels_offset l) (channels l))"

text \<open>
  The S1G channelisation: the starting frequency of an operating class in Hz, from which a
  channel's centre frequency is its number times 500 kHz; and the bandwidth of a global class.
\<close>

definition start_freq :: "int \<Rightarrow> nat" where
  "start_freq c =
     (if c \<in> {1, 2, 3, 4} \<or> c \<in> {22, 23, 24, 25, 26, 27, 28, 29} then 902000000
      else if c \<in> {6, 7} then 863000000 else if c = 8 then 916500000
      else if c \<in> {9, 10} then 922500000 else if c \<in> {11, 12} then 906500000
      else if c \<in> {14, 15, 16} then 917500000 else if c = 30 then 901400000
      else if c \<in> {39, 40} then 894000000 else 0)"

definition class_bw :: "int \<Rightarrow> nat" where
  "class_bw g =
     (if g \<in> {50, 66, 68, 73, 74, 77} then 1 else if g \<in> {51, 64, 67, 69, 75} then 2
      else if g \<in> {48, 52, 65, 70, 76} then 4 else if g \<in> {49, 53, 71} then 8 else 0)"

definition channel_ok :: "mmwlan_s1g_channel \<Rightarrow> bool" where
  "channel_ok c \<longleftrightarrow>
     centre_freq_hz c = start_freq (s1g_operating_class c) + 500000 * s1g_chan_num c \<and>
     bw_mhz c = class_bw (global_operating_class c) \<and> bw_mhz c \<in> {1, 2, 4, 8} \<and>
     0 < duty_cycle_sta c \<and> duty_cycle_sta c \<le> 10000 \<and>
     0 \<le> max_tx_eirp_dbm c \<and> max_tx_eirp_dbm c \<le> 36"

definition channel_key :: "mmwlan_s1g_channel \<Rightarrow> int \<times> nat" where
  "channel_key c = (global_operating_class c, s1g_chan_num c)"

definition list_ok :: "mmwlan_s1g_channel_list \<Rightarrow> bool" where
  "list_ok l \<longleftrightarrow> channels_offset l + num_channels l \<le> length (channels l) \<and>
     num_channels l > 0 \<and> length (country_code l) = 2 \<and>
     list_all channel_ok (list_channels l) \<and> distinct (map channel_key (list_channels l))"

lemmas regdb_lists = s1g_channel_list_au_80211_2020_def s1g_channel_list_au_80211_2024_def
  s1g_channel_list_au_80211_revmf_def s1g_channel_list_CA_def s1g_channel_list_EU_def
  s1g_channel_list_GB_def s1g_channel_list_IN_def s1g_channel_list_JP_def s1g_channel_list_KR_def
  s1g_channel_list_NZ_def s1g_channel_list_US_def whole_list_def

lemmas channel_simps = channel_ok_def channel_key_def ch_def start_freq_def class_bw_def

lemma list_ok_au:
  "list_ok s1g_channel_list_au_80211_2020" "list_ok s1g_channel_list_au_80211_2024"
  "list_ok s1g_channel_list_au_80211_revmf"
  by (simp_all add: list_ok_def list_channels_def regdb_lists s1g_channels_AU_def channel_simps)

lemma list_ok_ca: "list_ok s1g_channel_list_CA"
  by (simp add: list_ok_def list_channels_def regdb_lists s1g_channels_CA_def channel_simps)

lemma list_ok_small:
  "list_ok s1g_channel_list_EU" "list_ok s1g_channel_list_GB" "list_ok s1g_channel_list_IN"
  "list_ok s1g_channel_list_JP" "list_ok s1g_channel_list_KR" "list_ok s1g_channel_list_NZ"
  by (simp_all add: list_ok_def list_channels_def regdb_lists s1g_channels_EU_def
      s1g_channels_GB_def s1g_channels_IN_def s1g_channels_JP_def s1g_channels_KR_def
      s1g_channels_NZ_def channel_simps)

lemma list_ok_us: "list_ok s1g_channel_list_US"
  by (simp add: list_ok_def list_channels_def regdb_lists s1g_channels_US_def channel_simps)

section \<open>The lookup\<close>

definition documented_countries :: "string list" where
  "documented_countries = [''AU'', ''CA'', ''EU'', ''GB'', ''IN'', ''JP'', ''KR'', ''NZ'', ''US'']"

lemma domain_codes: "map country_code regulatory_db_domains = documented_countries"
  by (simp add: regulatory_db_domains_def documented_countries_def regdb_lists)

lemma domains_ok: "\<forall>d \<in> set regulatory_db_domains. list_ok d"
  by (simp add: regulatory_db_domains_def list_ok_au list_ok_ca list_ok_small list_ok_us)

lemma codes_no_NUL: "\<forall>d \<in> set regulatory_db_domains. NUL \<notin> set (country_code d)"
proof -
  have "\<forall>c \<in> set (map country_code regulatory_db_domains). NUL \<notin> set c"
    by (simp add: domain_codes documented_countries_def NUL_def)
  then show ?thesis by simp
qed

lemma lookup_domains_find:
  assumes "\<forall>d \<in> set ds. length (country_code d) = 2 \<and> NUL \<notin> set (country_code d)"
  shows "lookup_domains ds (cc @ NUL # r) = Some (find (\<lambda>d. country_code d = take 2 cc) ds)"
  using assms
proof (induction ds)
  case (Cons d ds)
  obtain x y where d: "country_code d = [x, y]"
    using Cons.prems by (auto simp: length_Suc_conv numeral_2_eq_2)
  have n: "x \<noteq> NUL" "y \<noteq> NUL" using Cons.prems d by auto
  consider "cc = []" | a where "cc = [a]" | a b q where "cc = a # b # q"
    by (cases cc; cases "tl cc") auto
  then show ?case
    by cases (use Cons d n in \<open>auto simp: load_def\<close>)
qed simp

lemma regdb_lookup_find:
  "mmwlan_lookup_regulatory_domain get_regulatory_db (cc @ NUL # r) =
     Some (find (\<lambda>d. country_code d = take 2 cc) regulatory_db_domains)"
  using lookup_domains_find [of regulatory_db_domains cc r] domains_ok codes_no_NUL
  by (simp add: mmwlan_lookup_regulatory_domain_def get_regulatory_db_def regulatory_db_def list_ok_def)

lemma find_domain:
  "case find (\<lambda>d. country_code d = c) regulatory_db_domains of
     None \<Rightarrow> c \<notin> set documented_countries
   | Some l \<Rightarrow> c \<in> set documented_countries \<and> country_code l = c"
proof (cases "find (\<lambda>d. country_code d = c) regulatory_db_domains")
  case None
  then have "c \<notin> set (map country_code regulatory_db_domains)" by (auto simp: find_None_iff)
  with None show ?thesis by (simp add: domain_codes)
next
  case (Some l)
  then have "l \<in> set regulatory_db_domains" "country_code l = c" by (auto simp: find_Some_iff)
  with Some show ?thesis by (metis (mono_tags) domain_codes image_eqI list.set_map option.simps(5))
qed

section \<open>Properties\<close>

text \<open>the regulatory database is sound. A lookup of any string stays in bounds; it finds a domain
  exactly for the documented countries (by the first two characters), and the channels of the
  domain found lie within its array, have distinct numbers per operating class, the bandwidth of
  their class, a legal duty cycle and power, and the centre frequency that their channel number
  stands for.\<close>

theorem regdb_lookup_sound:
  "\<exists>r. mmwlan_lookup_regulatory_domain get_regulatory_db (cc @ [NUL]) = Some r \<and>
    (case r of
       None \<Rightarrow> take 2 cc \<notin> set documented_countries
     | Some l \<Rightarrow> take 2 cc \<in> set documented_countries \<and> country_code l = take 2 cc \<and>
         channels_offset l + num_channels l \<le> length (channels l) \<and>
         list_all channel_ok (list_channels l) \<and> distinct (map channel_key (list_channels l)))"
proof (cases "find (\<lambda>d. country_code d = take 2 cc) regulatory_db_domains")
  case None
  then have "take 2 cc \<notin> set (map country_code regulatory_db_domains)"
    by (auto simp: find_None_iff)
  with None show ?thesis by (simp add: regdb_lookup_find domain_codes)
next
  case (Some l)
  then have l: "l \<in> set regulatory_db_domains" "country_code l = take 2 cc"
    by (auto simp: find_Some_iff)
  then have "take 2 cc \<in> set documented_countries"
    by (metis domain_codes image_eqI list.set_map)
  with Some l show ?thesis using domains_ok by (auto simp: regdb_lookup_find list_ok_def)
qed

end
