(* ===== verification/Load_Config.thy ===== *)
theory Load_Config
  imports Settings Regdb
begin

text \<open>
  The configuration loaded for the WLAN and IP libraries,
  \<^verbatim>\<open>examples/iperf/main/src/mm_app_loadconfig.c\<close>, with \<open>mmosal_safer_strcpy\<close> of \<^verbatim>\<open>mmosal.h\<close>. The
  application links its own regulatory database, so the database is an argument.
\<close>

section \<open>Copying strings\<close>

text \<open>Whether the string was cut, and the destination.\<close>

definition mmosal_safer_strcpy :: "string \<Rightarrow> string \<Rightarrow> nat \<Rightarrow> bool \<times> string" where
  "mmosal_safer_strcpy dst src sz =
     (if sz = 0 then (True, dst)
      else let d = strncpy dst src sz in (d ! (sz - 1) \<noteq> NUL, d[sz - 1 := NUL]))"

lemma safer_strcpy_cstr:
  assumes "length dst = sz" "0 < sz"
  shows "cstr (snd (mmosal_safer_strcpy dst src sz)) = take (sz - 1) (cstr src)"
    and "length (snd (mmosal_safer_strcpy dst src sz)) = sz"
    and "fst (mmosal_safer_strcpy dst src sz) \<longleftrightarrow> sz \<le> length (cstr src)"
proof -
  let ?s = "cstr src"
  let ?d = "take sz (?s @ replicate sz NUL)"
  have d: "strncpy dst src sz = ?d" using assms(1) by (simp add: strncpy_def)
  have "?d[sz - 1 := NUL] = take (sz - 1) ?s @ NUL # replicate (sz - 1 - length ?s) NUL"
  proof (rule nth_equalityI)
    show "length (?d[sz - 1 := NUL]) =
        length (take (sz - 1) ?s @ NUL # replicate (sz - 1 - length ?s) NUL)"
      using assms(2) by auto
    fix i assume "i < length (?d[sz - 1 := NUL])"
    then show "?d[sz - 1 := NUL] ! i =
        (take (sz - 1) ?s @ NUL # replicate (sz - 1 - length ?s) NUL) ! i"
      using assms(2) by (auto simp: nth_append nth_list_update nth_Cons' min_def)
  qed
  then show "cstr (snd (mmosal_safer_strcpy dst src sz)) = take (sz - 1) ?s"
    using assms d by (simp add: mmosal_safer_strcpy_def Let_def cstr_append_NUL cstr_take_no_NUL)
  show "length (snd (mmosal_safer_strcpy dst src sz)) = sz"
    using assms d by (simp add: mmosal_safer_strcpy_def Let_def)
  have "?d ! (sz - 1) \<noteq> NUL \<longleftrightarrow> sz \<le> length ?s"
  proof (cases "sz \<le> length ?s")
    case True
    then have "sz - 1 < length ?s" using assms(2) by simp
    then have "?s ! (sz - 1) \<noteq> NUL" using cstr_no_NUL nth_mem by metis
    with True assms(2) show ?thesis by (simp add: nth_append)
  next
    case False
    then have "\<not> sz - 1 < length ?s" by simp
    with False assms(2) show ?thesis by (simp add: nth_append)
  qed
  then show "fst (mmosal_safer_strcpy dst src sz) \<longleftrightarrow> sz \<le> length ?s"
    using assms d by (simp add: mmosal_safer_strcpy_def Let_def)
qed

section \<open>IP configuration\<close>

datatype mmipal_addr_mode =
  MMIPAL_DISABLED | MMIPAL_STATIC | MMIPAL_DHCP | MMIPAL_AUTOIP | MMIPAL_DHCP_OFFLOAD

datatype mmipal_ip6_addr_mode =
  MMIPAL_IP6_DISABLED | MMIPAL_IP6_STATIC | MMIPAL_IP6_AUTOCONFIG | MMIPAL_IP6_DHCP6_STATELESS

definition MMIPAL_IPADDR_STR_MAXLEN :: nat where "MMIPAL_IPADDR_STR_MAXLEN = 48"

record mmipal_init_args =
  ia_mode :: mmipal_addr_mode
  ia_ip_addr :: string
  ia_netmask :: string
  ia_gateway_addr :: string
  ia_ip6_mode :: mmipal_ip6_addr_mode
  ia_ip6_addr :: string
  ia_offload_arp_response :: bool
  ia_offload_arp_refresh_s :: u32

definition MMIPAL_INIT_ARGS_DEFAULT :: mmipal_init_args where
  "MMIPAL_INIT_ARGS_DEFAULT = \<lparr>ia_mode = MMIPAL_DHCP,
     ia_ip_addr = replicate MMIPAL_IPADDR_STR_MAXLEN NUL,
     ia_netmask = replicate MMIPAL_IPADDR_STR_MAXLEN NUL,
     ia_gateway_addr = replicate MMIPAL_IPADDR_STR_MAXLEN NUL, ia_ip6_mode = MMIPAL_IP6_DISABLED,
     ia_ip6_addr = replicate MMIPAL_IPADDR_STR_MAXLEN NUL, ia_offload_arp_response = False,
     ia_offload_arp_refresh_s = 0\<rparr>"

definition STATIC_LOCAL_IP :: string where "STATIC_LOCAL_IP = ''192.168.1.2''"
definition STATIC_GATEWAY :: string where "STATIC_GATEWAY = ''192.168.1.1''"
definition STATIC_NETMASK :: string where "STATIC_NETMASK = ''255.255.255.0''"
definition STATIC_LOCAL_IP6 :: string where "STATIC_LOCAL_IP6 = ''FE80::2''"

text \<open>\<open>ENABLE_DHCP\<close> is defined in the file, so the mode is DHCP.\<close>

definition load_mmipal_init_args :: "mmipal_init_args \<Rightarrow> mmipal_init_args" where
  "load_mmipal_init_args a =
     a\<lparr>ia_ip_addr := snd (mmosal_safer_strcpy (ia_ip_addr a) STATIC_LOCAL_IP MMIPAL_IPADDR_STR_MAXLEN),
       ia_netmask := snd (mmosal_safer_strcpy (ia_netmask a) STATIC_NETMASK MMIPAL_IPADDR_STR_MAXLEN),
       ia_gateway_addr :=
         snd (mmosal_safer_strcpy (ia_gateway_addr a) STATIC_GATEWAY MMIPAL_IPADDR_STR_MAXLEN),
       ia_mode := MMIPAL_DHCP,
       ia_ip6_addr := snd (mmosal_safer_strcpy (ia_ip6_addr a) STATIC_LOCAL_IP6 MMIPAL_IPADDR_STR_MAXLEN),
       ia_ip6_mode := MMIPAL_IP6_AUTOCONFIG\<rparr>"

section \<open>Regulatory domain\<close>

definition COUNTRY_CODE :: string where "COUNTRY_CODE = ''US''"

text \<open>\<open>s[0] ? s : fallback\<close> for a character array \<open>s\<close>, as a C string.\<close>

definition or_default :: "string \<Rightarrow> string \<Rightarrow> string" where
  "or_default s fallback = (if s ! 0 \<noteq> NUL then s else fallback)"

datatype config_error = Assert_failed | Out_of_bounds

definition load_channel_list ::
  "mmwlan_regulatory_db option \<Rightarrow> 'n nvs \<Rightarrow> 'n \<Rightarrow> bridge_settings_t \<Rightarrow> string \<Rightarrow>
   config_error + mmwlan_s1g_channel_list" where
  "load_channel_list db nvs n s0 strval0 =
     (let s = settings_load nvs n s0;
          strval = snd (mmosal_safer_strcpy strval0 (or_default (country s) COUNTRY_CODE) 16) in
      case mmwlan_lookup_regulatory_domain db strval of
        None \<Rightarrow> Inl Out_of_bounds
      | Some None \<Rightarrow> Inl Assert_failed
      | Some (Some l) \<Rightarrow> Inr l)"

section \<open>Station arguments\<close>

definition MMWLAN_SSID_MAXLEN :: nat where "MMWLAN_SSID_MAXLEN = 32"
definition MMWLAN_PASSPHRASE_MAXLEN :: nat where "MMWLAN_PASSPHRASE_MAXLEN = 100"

datatype mmwlan_security_type = MMWLAN_OPEN | MMWLAN_OWE | MMWLAN_SAE

record mmwlan_sta_args =
  sta_ssid :: string
  sta_ssid_len :: u16
  sta_security_type :: mmwlan_security_type
  sta_passphrase :: string
  sta_passphrase_len :: u16

definition MMWLAN_STA_ARGS_INIT :: mmwlan_sta_args where
  "MMWLAN_STA_ARGS_INIT = \<lparr>sta_ssid = replicate MMWLAN_SSID_MAXLEN NUL, sta_ssid_len = 0,
     sta_security_type = MMWLAN_OPEN,
     sta_passphrase = replicate (MMWLAN_PASSPHRASE_MAXLEN + 1) NUL, sta_passphrase_len = 0\<rparr>"

definition load_mmwlan_sta_args ::
  "'n nvs \<Rightarrow> 'n \<Rightarrow> bridge_settings_t \<Rightarrow> mmwlan_sta_args \<Rightarrow> mmwlan_sta_args" where
  "load_mmwlan_sta_args nvs n s0 c =
     (let s = settings_load nvs n s0;
          c = c\<lparr>sta_ssid := snd (mmosal_safer_strcpy (sta_ssid c)
                 (or_default (halow_ssid s) ''Halow1'') MMWLAN_SSID_MAXLEN)\<rparr>;
          c = c\<lparr>sta_ssid_len := word_of_nat (length (cstr (sta_ssid c)))\<rparr>;
          c = c\<lparr>sta_passphrase := snd (mmosal_safer_strcpy (sta_passphrase c)
                 (or_default (halow_pass s) ''letmein111'') (MMWLAN_PASSPHRASE_MAXLEN + 1))\<rparr>;
          c = c\<lparr>sta_passphrase_len := word_of_nat (length (cstr (sta_passphrase c)))\<rparr>
      in c\<lparr>sta_security_type := MMWLAN_SAE\<rparr>)"

lemma or_default_cstr:
  "holds_str k s \<Longrightarrow> NUL \<notin> set d \<Longrightarrow> cstr (or_default s d) = (if cstr s = [] then d else cstr s)"
  by (cases s) (auto simp: or_default_def holds_str_def cstr_simps cstr_def)

lemma safer_strcpy_array:
  assumes "length dst = sz" "length (cstr src) < sz"
  shows "\<exists>r. snd (mmosal_safer_strcpy dst src sz) = cstr src @ NUL # r"
proof -
  let ?d = "snd (mmosal_safer_strcpy dst src sz)"
  have c: "cstr ?d = cstr src" "length ?d = sz"
    using safer_strcpy_cstr(1,2) [OF assms(1), of src] assms(2) by auto
  then have "NUL \<in> set ?d" using assms(2) by (metis cstr_id nat_neq_iff)
  then show ?thesis using cstr_split [of ?d] c(1) by metis
qed

section \<open>Properties\<close>

text \<open>the station connects with the saved network: the SSID and passphrase handed to the WLAN
  library are the saved ones in full (the built-in ones when empty), terminated, with their exact
  lengths.\<close>

theorem sta_args_from_settings:
  assumes "nvs_reads_ok nvs" "settings_arrays s0"
  shows "let s = settings_load nvs n s0; c = load_mmwlan_sta_args nvs n s0 MMWLAN_STA_ARGS_INIT in
    cstr (sta_ssid c) = (if cstr (halow_ssid s) = [] then ''Halow1'' else cstr (halow_ssid s)) \<and>
    cstr (sta_passphrase c) =
      (if cstr (halow_pass s) = [] then ''letmein111'' else cstr (halow_pass s)) \<and>
    unat (sta_ssid_len c) = length (cstr (sta_ssid c)) \<and>
    unat (sta_passphrase_len c) = length (cstr (sta_passphrase c)) \<and>
    length (cstr (sta_ssid c)) < MMWLAN_SSID_MAXLEN \<and> sta_security_type c = MMWLAN_SAE"
proof -
  define s where "s = settings_load nvs n s0"
  define c where "c = load_mmwlan_sta_args nvs n s0 MMWLAN_STA_ARGS_INIT"
  have v: "holds_str 32 (halow_ssid s)" "holds_str 64 (halow_pass s)"
    using settings_load_wf [OF assms] by (auto simp: s_def settings_valid_def settings_sizes)
  have d: "NUL \<notin> set ''Halow1''" "NUL \<notin> set ''letmein111''" by (simp_all add: NUL_def)
  have l: "length (cstr (halow_ssid s)) < 32" "length (cstr (halow_pass s)) < 64"
    using v by (auto dest: holds_str_cstr)
  have i: "length (sta_ssid MMWLAN_STA_ARGS_INIT) = 32"
    "length (sta_passphrase MMWLAN_STA_ARGS_INIT) = 101"
    by (simp_all add: MMWLAN_STA_ARGS_INIT_def MMWLAN_SSID_MAXLEN_def MMWLAN_PASSPHRASE_MAXLEN_def)
  have ssid: "cstr (sta_ssid c) = (if cstr (halow_ssid s) = [] then ''Halow1'' else cstr (halow_ssid s))"
    using safer_strcpy_cstr(1) [OF i(1), of "or_default (halow_ssid s) ''Halow1''"] l(1)
      or_default_cstr [OF v(1) d(1)]
    by (simp add: c_def load_mmwlan_sta_args_def Let_def MMWLAN_SSID_MAXLEN_def flip: s_def)
  have pass: "cstr (sta_passphrase c) =
      (if cstr (halow_pass s) = [] then ''letmein111'' else cstr (halow_pass s))"
    using safer_strcpy_cstr(1) [OF i(2), of "or_default (halow_pass s) ''letmein111''"] l(2)
      or_default_cstr [OF v(2) d(2)]
    by (simp add: c_def load_mmwlan_sta_args_def Let_def MMWLAN_PASSPHRASE_MAXLEN_def flip: s_def)
  have len: "sta_ssid_len c = word_of_nat (length (cstr (sta_ssid c)))"
    "sta_passphrase_len c = word_of_nat (length (cstr (sta_passphrase c)))"
    "sta_security_type c = MMWLAN_SAE"
    by (simp_all add: c_def load_mmwlan_sta_args_def Let_def)
  have small: "unat (word_of_nat k :: u16) = k" if "k < 100" for k
    using that by (simp add: unat_of_nat take_bit_eq_mod)
  have "length (cstr (sta_ssid c)) < 32" "length (cstr (sta_passphrase c)) < 100"
    using ssid pass l by auto
  then show ?thesis
    unfolding Let_def s_def [symmetric] c_def [symmetric]
    using ssid pass len small by (auto simp: MMWLAN_SSID_MAXLEN_def)
qed

theorem sta_args_from_settings_witness:
  "let s = settings_load map_nvs (Map.empty, Map.empty) blank_settings;
       c = load_mmwlan_sta_args map_nvs (Map.empty, Map.empty) blank_settings MMWLAN_STA_ARGS_INIT in
    cstr (sta_ssid c) = (if cstr (halow_ssid s) = [] then ''Halow1'' else cstr (halow_ssid s)) \<and>
    cstr (sta_passphrase c) =
      (if cstr (halow_pass s) = [] then ''letmein111'' else cstr (halow_pass s)) \<and>
    unat (sta_ssid_len c) = length (cstr (sta_ssid c)) \<and>
    unat (sta_passphrase_len c) = length (cstr (sta_passphrase c)) \<and>
    length (cstr (sta_ssid c)) < MMWLAN_SSID_MAXLEN \<and> sta_security_type c = MMWLAN_SAE"
  by (rule sta_args_from_settings [OF map_nvs_laws(2) blank_settings_ok(1)])

end
