(* ===== verification/Nat_Router.thy ===== *)
theory Nat_Router
  imports Settings
begin

text \<open>
  The 2.4 GHz access point and the routing between it and HaLow,
  \<^verbatim>\<open>examples/iperf/main/src/nat_router.c\<close>. lwIP's list of network interfaces is a list of records; the
  functions handed to \<open>tcpip_callback\<close> transform it. Results of the ESP-IDF calls are arguments,
  and \<open>ESP_ERROR_CHECK\<close> of a failed one aborts.
\<close>

section \<open>Addresses\<close>

definition LWIP_MAKEU32 :: "u32 \<Rightarrow> u32 \<Rightarrow> u32 \<Rightarrow> u32 \<Rightarrow> u32" where
  "LWIP_MAKEU32 a b c d = push_bit 24 a OR push_bit 16 b OR push_bit 8 c OR d"

definition PP_HTONL :: "u32 \<Rightarrow> u32" where
  "PP_HTONL x = push_bit 24 (x AND 0xFF) OR push_bit 8 (x AND 0xFF00) OR
     drop_bit 8 (x AND 0xFF0000) OR drop_bit 24 (x AND 0xFF000000)"

definition HALOW_SUBNET_NBO :: u32 where "HALOW_SUBNET_NBO = PP_HTONL (LWIP_MAKEU32 10 41 0 0)"
definition HALOW_SUBNET_MASK :: u32 where "HALOW_SUBNET_MASK = PP_HTONL (LWIP_MAKEU32 255 255 255 0)"
definition HALOW_GW_NBO :: u32 where "HALOW_GW_NBO = PP_HTONL (LWIP_MAKEU32 10 41 0 1)"
definition AP_IP_NBO :: u32 where "AP_IP_NBO = PP_HTONL (LWIP_MAKEU32 192 168 4 1)"

lemma nat_addresses:
  "HALOW_SUBNET_NBO = 0x0000290A" "HALOW_SUBNET_MASK = 0x00FFFFFF" "HALOW_GW_NBO = 0x0100290A"
  "AP_IP_NBO = 0x0104A8C0"
  by (simp_all add: HALOW_SUBNET_NBO_def HALOW_SUBNET_MASK_def HALOW_GW_NBO_def AP_IP_NBO_def
      PP_HTONL_def LWIP_MAKEU32_def)

section \<open>Interfaces\<close>

record netif =
  nif_up :: bool
  nif_ip4 :: "u32 option"
  nif_netmask :: u32
  nif_gw :: u32

record netifs =
  netif_list :: "netif list"
  netif_default :: "nat option"

definition eligible :: "netif \<Rightarrow> bool" where
  "eligible i \<longleftrightarrow> nif_up i \<and> (case nif_ip4 i of None \<Rightarrow> False | Some a \<Rightarrow> a \<noteq> AP_IP_NBO)"

definition set_halow_default_netif_cb :: "netifs \<Rightarrow> netifs" where
  "set_halow_default_netif_cb n =
     (case first_idx eligible (netif_list n) of
        Some k \<Rightarrow> n\<lparr>netif_default := Some k\<rparr>
      | None \<Rightarrow> n)"

definition lacks_gateway :: "netif \<Rightarrow> bool" where
  "lacks_gateway i \<longleftrightarrow> nif_up i \<and>
     (case nif_ip4 i of None \<Rightarrow> False | Some a \<Rightarrow> a AND HALOW_SUBNET_MASK = HALOW_SUBNET_NBO) \<and>
     \<not> nif_gw i \<noteq> 0"

definition ensure_halow_default_route_cb :: "netifs \<Rightarrow> netifs" where
  "ensure_halow_default_route_cb n =
     (case first_idx lacks_gateway (netif_list n) of
        Some k \<Rightarrow> n\<lparr>netif_list := (netif_list n)[k := (netif_list n ! k)\<lparr>nif_gw := HALOW_GW_NBO\<rparr>]\<rparr>
      | None \<Rightarrow> n)"

text \<open>Both callbacks, in the order the timer schedules them on the TCP/IP thread.\<close>

definition delayed_route_fix_timer_cb :: "netifs \<Rightarrow> netifs" where
  "delayed_route_fix_timer_cb n = ensure_halow_default_route_cb (set_halow_default_netif_cb n)"

section \<open>The start of the access point\<close>

datatype ap_action =
  Napt_enable | Set_default_netif | Dns_forwarder_start string | Ensure_route | Start_route_timer

text \<open>
  \<open>wifi_ap_start_handler\<close>: what it does, in order. \<open>ip_cfg\<close> is the gateway string reported by
  \<open>mmipal_get_ip_config\<close> when it succeeds.
\<close>

definition wifi_ap_start_handler :: "bool \<Rightarrow> bool \<Rightarrow> string option \<Rightarrow> bool \<Rightarrow> ap_action list" where
  "wifi_ap_start_handler is_ap_start have_ap_netif ip_cfg have_timer =
     (if \<not> is_ap_start \<or> \<not> have_ap_netif then []
      else [Napt_enable, Set_default_netif, Dns_forwarder_start ''8.8.8.8''] @
        (case ip_cfg of None \<Rightarrow> []
         | Some gw \<Rightarrow> if cstr gw = ''0.0.0.0'' \<or> cstr gw = [] then [Ensure_route] else []) @
        (if have_timer then [Start_route_timer] else []))"

fun ap_action_netifs :: "ap_action \<Rightarrow> netifs \<Rightarrow> netifs" where
  "ap_action_netifs Set_default_netif n = set_halow_default_netif_cb n"
| "ap_action_netifs Ensure_route n = ensure_halow_default_route_cb n"
| "ap_action_netifs _ n = n"

text \<open>
  \<open>start_2ghz_ap\<close>. The records hold the results of the calls and the configuration given to
  \<open>esp_wifi_set_config\<close>, whose acceptance is a function of it.
\<close>

record ap_config =
  ap_cfg_ssid :: string
  ap_cfg_ssid_len :: u8
  ap_cfg_password :: string
  ap_cfg_channel :: nat
  ap_cfg_max_connection :: nat

datatype ap_outcome =
  Ap_aborted
| Ap_returned
| Ap_started ap_config

record ap_results =
  r_flash_init :: esp_err
  r_flash_erase :: bool
  r_flash_init2 :: esp_err
  r_event_loop :: bool
  r_netif_init :: bool
  r_create_ap :: bool
  r_register :: bool
  r_wifi_init :: bool
  r_set_storage :: bool
  r_set_mode :: bool
  r_set_config :: "ap_config \<Rightarrow> bool"
  r_wifi_start :: bool

definition default_if_empty :: "string \<Rightarrow> string \<Rightarrow> nat \<Rightarrow> string" where
  "default_if_empty field d mx =
     (if field ! 0 = NUL then (strncpy field d (mx - 1))[mx - 1 := NUL] else field)"

definition make_ap_config :: "bridge_settings_t \<Rightarrow> ap_config" where
  "make_ap_config s =
     (let ssid = strncpy (replicate 32 NUL) (ap_ssid s) 31 in
      \<lparr>ap_cfg_ssid = ssid, ap_cfg_ssid_len = word_of_nat (length (cstr ssid)),
       ap_cfg_password = strncpy (replicate 64 NUL) (ap_pass s) 63,
       ap_cfg_channel = 6, ap_cfg_max_connection = 4\<rparr>)"

definition flash_ready :: "ap_results \<Rightarrow> bool" where
  "flash_ready r \<longleftrightarrow>
     (if r_flash_init r = ESP_ERR_NVS_NO_FREE_PAGES \<or> r_flash_init r = ESP_ERR_NVS_NEW_VERSION_FOUND
      then r_flash_erase r \<and> r_flash_init2 r = ESP_OK else r_flash_init r = ESP_OK)"

definition ap_settings :: "bridge_settings_t \<Rightarrow> bridge_settings_t" where
  "ap_settings s =
     s\<lparr>ap_ssid := default_if_empty (ap_ssid s) ''XIAO_S3_HALOW'' SETTINGS_MAX_SSID,
       ap_pass := default_if_empty (ap_pass s) ''letmein111'' SETTINGS_MAX_PASS\<rparr>"

definition start_2ghz_ap :: "ap_results \<Rightarrow> 'n nvs \<Rightarrow> 'n \<Rightarrow> bridge_settings_t \<Rightarrow> ap_outcome" where
  "start_2ghz_ap r nvs n s0 =
     (if \<not> flash_ready r then Ap_aborted
      else if \<not> r_event_loop r then Ap_aborted
      else if \<not> r_netif_init r then Ap_returned
      else if \<not> r_create_ap r then Ap_returned
      else if \<not> r_register r then Ap_aborted
      else
        let s = ap_settings (settings_load nvs n s0);
            cfg = make_ap_config s in
        if \<not> r_wifi_init r \<or> \<not> r_set_storage r \<or> \<not> r_set_mode r then Ap_aborted
        else if \<not> r_set_config r cfg then Ap_aborted
        else if \<not> r_wifi_start r then Ap_aborted
        else Ap_started cfg)"

section \<open>Lemmas\<close>

lemma default_if_empty_cstr:
  assumes "holds_str mx field" "NUL \<notin> set d" "length d < mx"
  shows "cstr (default_if_empty field d mx) = (if cstr field = [] then d else cstr field)"
proof -
  have mx: "length field = mx" "0 < mx" using assms(1) by (auto simp: holds_str_def)
  have e: "field ! 0 = NUL \<longleftrightarrow> cstr field = []" using mx by (cases field) (auto simp: cstr_def)
  have "(strncpy field d (mx - 1))[mx - 1 := NUL] = strncpy_default field d mx"
    using mx by (simp add: strncpy_default_def)
  then show ?thesis
    using strncpy_default_cstr [OF mx, of d] assms(2,3) e by (simp add: default_if_empty_def cstr_id)
qed

lemma strncpy_zeroed:
  assumes "length (cstr src) \<le> n"
  shows "cstr (strncpy (replicate (Suc n) NUL) src n) = cstr src"
proof -
  have "strncpy (replicate (Suc n) NUL) src n =
      cstr src @ NUL # replicate (n - length (cstr src)) NUL"
    using assms by (simp add: strncpy_def flip: replicate_append_same)
  then show ?thesis by (simp add: cstr_append_NUL cstr_no_NUL)
qed

lemma make_ap_config_cstr:
  assumes "settings_valid s"
  shows "cstr (ap_cfg_ssid (make_ap_config (ap_settings s))) =
      (if cstr (ap_ssid s) = [] then ''XIAO_S3_HALOW'' else cstr (ap_ssid s))"
    and "cstr (ap_cfg_password (make_ap_config (ap_settings s))) =
      (if cstr (ap_pass s) = [] then ''letmein111'' else cstr (ap_pass s))"
    and "unat (ap_cfg_ssid_len (make_ap_config (ap_settings s))) =
      length (cstr (ap_cfg_ssid (make_ap_config (ap_settings s))))"
proof -
  have v: "holds_str 32 (ap_ssid s)" "holds_str 64 (ap_pass s)"
    using assms by (auto simp: settings_valid_def settings_sizes)
  have d: "NUL \<notin> set ''XIAO_S3_HALOW''" "NUL \<notin> set ''letmein111''" by (simp_all add: NUL_def)
  have s: "cstr (ap_ssid (ap_settings s)) =
      (if cstr (ap_ssid s) = [] then ''XIAO_S3_HALOW'' else cstr (ap_ssid s))"
    "cstr (ap_pass (ap_settings s)) =
      (if cstr (ap_pass s) = [] then ''letmein111'' else cstr (ap_pass s))"
    using default_if_empty_cstr [OF v(1) d(1)] default_if_empty_cstr [OF v(2) d(2)]
    by (simp_all add: ap_settings_def settings_sizes)
  have l: "length (cstr (ap_ssid (ap_settings s))) \<le> 31" "length (cstr (ap_pass (ap_settings s))) \<le> 63"
    using holds_str_cstr [OF v(1)] holds_str_cstr [OF v(2)] s by auto
  have z: "cstr (strncpy (replicate 32 NUL) (ap_ssid (ap_settings s)) 31) = cstr (ap_ssid (ap_settings s))"
    "cstr (strncpy (replicate 64 NUL) (ap_pass (ap_settings s)) 63) = cstr (ap_pass (ap_settings s))"
    using strncpy_zeroed [OF l(1)] strncpy_zeroed [OF l(2)] by (simp_all add: numeral_eq_Suc)
  show "cstr (ap_cfg_ssid (make_ap_config (ap_settings s))) =
      (if cstr (ap_ssid s) = [] then ''XIAO_S3_HALOW'' else cstr (ap_ssid s))"
    "cstr (ap_cfg_password (make_ap_config (ap_settings s))) =
      (if cstr (ap_pass s) = [] then ''letmein111'' else cstr (ap_pass s))"
    using z s by (simp_all add: make_ap_config_def Let_def)
  have "unat (word_of_nat k :: u8) = k" if "k \<le> 31" for k
    using that by (simp add: unat_of_nat take_bit_eq_mod)
  then show "unat (ap_cfg_ssid_len (make_ap_config (ap_settings s))) =
      length (cstr (ap_cfg_ssid (make_ap_config (ap_settings s))))"
    using z(1) l(1) by (simp add: make_ap_config_def Let_def)
qed

section \<open>Properties\<close>



text \<open>when the access point starts, it uses the saved name and password in full (the built-in ones
  when empty), with the exact name length.\<close>

theorem ap_uses_settings:
  assumes "nvs_reads_ok nvs" "settings_arrays s0" "start_2ghz_ap r nvs n s0 = Ap_started cfg"
  shows "let s = settings_load nvs n s0 in
    cstr (ap_cfg_ssid cfg) = (if cstr (ap_ssid s) = [] then ''XIAO_S3_HALOW'' else cstr (ap_ssid s)) \<and>
    cstr (ap_cfg_password cfg) = (if cstr (ap_pass s) = [] then ''letmein111'' else cstr (ap_pass s)) \<and>
    unat (ap_cfg_ssid_len cfg) = length (cstr (ap_cfg_ssid cfg))"
proof -
  have "cfg = make_ap_config (ap_settings (settings_load nvs n s0))"
    using assms(3) by (auto simp: start_2ghz_ap_def Let_def split: if_splits)
  then show ?thesis
    using make_ap_config_cstr [OF settings_load_wf [OF assms(1,2)]] by (simp add: Let_def)
qed

definition all_results_ok :: ap_results where
  "all_results_ok = \<lparr>r_flash_init = ESP_OK, r_flash_erase = True, r_flash_init2 = ESP_OK,
     r_event_loop = True, r_netif_init = True, r_create_ap = True, r_register = True,
     r_wifi_init = True, r_set_storage = True, r_set_mode = True, r_set_config = (\<lambda>_. True),
     r_wifi_start = True\<rparr>"

theorem ap_uses_settings_witness:
  "let s = settings_load map_nvs (Map.empty, Map.empty) blank_settings; cfg = make_ap_config (ap_settings s) in
    cstr (ap_cfg_ssid cfg) = (if cstr (ap_ssid s) = [] then ''XIAO_S3_HALOW'' else cstr (ap_ssid s)) \<and>
    cstr (ap_cfg_password cfg) = (if cstr (ap_pass s) = [] then ''letmein111'' else cstr (ap_pass s)) \<and>
    unat (ap_cfg_ssid_len cfg) = length (cstr (ap_cfg_ssid cfg))"
  using ap_uses_settings [OF map_nvs_laws(2) blank_settings_ok(1), of all_results_ok "(Map.empty, Map.empty)"]
  by (simp add: start_2ghz_ap_def all_results_ok_def flash_ready_def Let_def)

end
