(* ===== verification/Iperf_App.thy ===== *)
theory Iperf_App
  imports Bridge_Prelude
begin

text \<open>
  The application's entry point and its iperf front end, \<^verbatim>\<open>examples/iperf/main/src/iperf.c\<close>: the unit
  formatting of reports, the arguments of the iperf instances and the order of start-up.
\<close>

section \<open>Reports\<close>

definition units :: string where "units = '' KMGT''"

function format_loop :: "u64 \<Rightarrow> u8 \<Rightarrow> u64 \<times> u8" where
  "format_loop bytes unit_index =
     (if bytes \<ge> 1000 \<and> unit_index < 4 then format_loop (bytes div 1000) (unit_index + 1)
      else (bytes, unit_index))"
  by pat_completeness auto
termination
proof (relation "measure (\<lambda>(bytes, _). unat bytes)")
  fix bytes :: u64 and i :: u8
  assume "1000 \<le> bytes \<and> i < 4"
  then show "((bytes div 1000, i + 1), bytes, i) \<in> measure (\<lambda>(bytes, _). unat bytes)"
    by (auto simp: unat_div word_le_nat_alt)
qed simp

declare format_loop.simps [simp del]

text \<open>The number returned (32 bits) and the unit index.\<close>

definition format_bytes :: "u64 \<Rightarrow> u32 \<times> u8" where
  "format_bytes bytes = (let (b, i) = format_loop bytes 0 in (ucast b, i))"

datatype mmiperf_report_type =
  MMIPERF_TCP_DONE_SERVER | MMIPERF_TCP_DONE_CLIENT | MMIPERF_TCP_ABORTED_LOCAL
| MMIPERF_TCP_ABORTED_LOCAL_DATAERROR | MMIPERF_TCP_ABORTED_LOCAL_TXERROR
| MMIPERF_TCP_ABORTED_REMOTE | MMIPERF_UDP_DONE_SERVER | MMIPERF_UDP_DONE_CLIENT
| MMIPERF_INTERRIM_REPORT

record mmiperf_report =
  report_type :: mmiperf_report_type
  local_addr :: string
  local_port :: u16
  remote_addr :: string
  remote_port :: u16
  bytes_transferred :: u64
  duration_ms :: u32
  bandwidth_kbitpsec :: u32
  tx_frames :: u32
  rx_frames :: u32
  out_of_sequence_frames :: u32
  error_count :: u32
  ipg_count :: u32
  ipg_sum_ms :: u32

definition NL :: string where "NL = [CHR 0x0A]"

text \<open>The text printed; \<open>None\<close> when the unit index is outside \<open>units\<close>.\<close>

definition iperf_report_handler :: "mmiperf_report \<Rightarrow> string option" where
  "iperf_report_handler report = do {
     let (n, i) = format_bytes (bytes_transferred report);
     u \<leftarrow> load units (unat i);
     Some (NL @ ''Iperf Report'' @ NL @
       ''  Remote Address: '' @ cstr (remote_addr report) @ '':'' @
         show_nat (unat (remote_port report)) @ NL @
       ''  Local Address:  '' @ cstr (local_addr report) @ '':'' @
         show_nat (unat (local_port report)) @ NL @
       ''  Transferred: '' @ show_nat (unat n) @ '' '' @ [u] @ ''Bytes, duration: '' @
         show_nat (unat (duration_ms report)) @ '' ms, bandwidth: '' @
         show_nat (unat (bandwidth_kbitpsec report)) @ '' kbps'' @ NL @ NL @
       (if report_type report = MMIPERF_UDP_DONE_SERVER \<or> report_type report = MMIPERF_TCP_DONE_SERVER
        then ''Waiting for client to connect...'' @ NL else []))
   }"

section \<open>Instances\<close>

datatype iperf_version = IPERF_VERSION_2_0_13 | IPERF_VERSION_2_0_9

record mmiperf_client_args =
  ca_server_addr :: string
  ca_server_port :: u16
  ca_target_bw :: u32
  ca_packet_size :: u32
  ca_amount :: "32 word"
  ca_version :: iperf_version

record mmiperf_server_args =
  sa_local_addr :: string
  sa_local_port :: u16
  sa_version :: iperf_version

definition MMIPERF_CLIENT_ARGS_DEFAULT :: mmiperf_client_args where
  "MMIPERF_CLIENT_ARGS_DEFAULT = \<lparr>ca_server_addr = replicate 48 NUL, ca_server_port = 5001,
     ca_target_bw = 0, ca_packet_size = 0, ca_amount = - 1000,
     ca_version = IPERF_VERSION_2_0_13\<rparr>"

definition MMIPERF_SERVER_ARGS_DEFAULT :: mmiperf_server_args where
  "MMIPERF_SERVER_ARGS_DEFAULT = \<lparr>sa_local_addr = replicate 48 NUL, sa_local_port = 5001,
     sa_version = IPERF_VERSION_2_0_13\<rparr>"

definition IPERF_SERVER_IP :: string where "IPERF_SERVER_IP = ''192.168.1.1''"
definition IPERF_SERVER_PORT :: u32 where "IPERF_SERVER_PORT = 5001"
definition IPERF_TIME_AMOUNT :: "32 word" where "IPERF_TIME_AMOUNT = - 10"

text \<open>
  \<open>amount\<close> is a signed 32-bit number: bytes when positive, and when negative a time in seconds,
  turned into hundredths of a second. \<open>None\<close> is the failed assertion on the port.
\<close>

definition client_args :: "u32 \<Rightarrow> 32 word \<Rightarrow> mmiperf_client_args option" where
  "client_args server_port amount =
     (let args = MMIPERF_CLIENT_ARGS_DEFAULT;
          args = args\<lparr>ca_server_addr := strncpy (ca_server_addr args) IPERF_SERVER_IP 48\<rparr> in
      if \<not> server_port \<le> 0xFFFF then None
      else
        let args = args\<lparr>ca_server_port := ucast server_port, ca_amount := amount\<rparr> in
        Some (if sint (ca_amount args) < 0 then args\<lparr>ca_amount := ca_amount args * 100\<rparr> else args))"

definition start_tcp_client :: "mmiperf_client_args option" where
  "start_tcp_client = client_args IPERF_SERVER_PORT IPERF_TIME_AMOUNT"

definition start_udp_client :: "mmiperf_client_args option" where
  "start_udp_client = client_args IPERF_SERVER_PORT IPERF_TIME_AMOUNT"

definition start_tcp_server :: mmiperf_server_args where
  "start_tcp_server = MMIPERF_SERVER_ARGS_DEFAULT\<lparr>sa_local_port := ucast IPERF_SERVER_PORT\<rparr>"

definition start_udp_server :: mmiperf_server_args where
  "start_udp_server = MMIPERF_SERVER_ARGS_DEFAULT\<lparr>sa_local_port := ucast IPERF_SERVER_PORT\<rparr>"

section \<open>Start-up\<close>

datatype iperf_type = IPERF_TCP_SERVER | IPERF_UDP_SERVER | IPERF_TCP_CLIENT | IPERF_UDP_CLIENT

datatype app_action =
  Settings_init | App_wlan_init | App_wlan_start | Delay_ms nat | Start_2ghz_ap
| Start_tcp_server mmiperf_server_args | Start_udp_server mmiperf_server_args
| Start_udp_client "mmiperf_client_args option" | Start_tcp_client "mmiperf_client_args option"

fun start_iperf :: "iperf_type \<Rightarrow> app_action" where
  "start_iperf IPERF_TCP_SERVER = Start_tcp_server start_tcp_server"
| "start_iperf IPERF_UDP_SERVER = Start_udp_server start_udp_server"
| "start_iperf IPERF_UDP_CLIENT = Start_udp_client start_udp_client"
| "start_iperf IPERF_TCP_CLIENT = Start_tcp_client start_tcp_client"

definition IPERF_TYPE :: iperf_type where "IPERF_TYPE = IPERF_UDP_SERVER"

definition app_main :: "app_action list" where
  "app_main = [Settings_init, App_wlan_init, App_wlan_start, Delay_ms 2000, Start_2ghz_ap,
     start_iperf IPERF_TYPE]"

section \<open>Lemmas\<close>

lemma format_loop_spec:
  assumes "unat i \<le> 4"
  shows "case format_loop b i of (r, j) \<Rightarrow> unat i \<le> unat j \<and> unat j \<le> 4 \<and>
    unat r = unat b div 1000 ^ (unat j - unat i) \<and> (unat j < 4 \<longrightarrow> unat r < 1000) \<and>
    (unat i < unat j \<longrightarrow> 0 < unat r)"
  using assms
proof (induction b i rule: format_loop.induct)
  case (1 b i)
  show ?case
  proof (cases "1000 \<le> b \<and> i < 4")
    case False
    then show ?thesis
      using "1.prems" by (subst format_loop.simps) (auto simp: word_le_nat_alt word_less_nat_alt)
  next
    case True
    then have i: "unat i < 4" "1000 \<le> unat b" by (auto simp: word_le_nat_alt word_less_nat_alt)
    then have "unat i + 1 < 2 ^ LENGTH(8)" by simp
    then have s: "unat (i + 1) = unat i + 1" by (simp add: unat_add_lem [THEN iffD1])
    obtain r j where rj: "format_loop (b div 1000) (i + 1) = (r, j)" by (rule prod.exhaust)
    have IH: "unat i + 1 \<le> unat j" "unat j \<le> 4"
      "unat r = unat b div 1000 div 1000 ^ (unat j - (unat i + 1))" "unat j < 4 \<Longrightarrow> unat r < 1000"
      "unat i + 1 < unat j \<Longrightarrow> 0 < unat r"
      using "1.IH" [OF True] i s rj by (auto simp: unat_div)
    obtain k where k: "unat j - unat i = Suc k" "unat j - (unat i + 1) = k"
      using IH(1) by (cases "unat j - unat i") auto
    have "unat r = unat b div 1000 ^ (unat j - unat i)"
      using IH(3) unfolding k by (simp only: div_mult2_eq power_Suc)
    moreover have "0 < unat r"
    proof (cases "unat i + 1 < unat j")
      case False
      then have "unat r = unat b div 1000" using IH(1,3) by simp
      with i(2) show ?thesis by (simp add: div_greater_zero_iff)
    qed (rule IH(5))
    ultimately show ?thesis
      using IH True rj by (subst format_loop.simps) simp
  qed
qed

section \<open>Properties\<close>

text \<open>the amount printed in a report is exact: \<open>format_bytes\<close> divides by a thousand until the
  number is below a thousand or tera is reached, the division result loses nothing in its 32 bits,
  and the unit printed is in the table.\<close>

theorem format_bytes_exact:
  "case format_bytes bytes of (r, j) \<Rightarrow>
     unat j \<le> 4 \<and> unat r = unat bytes div 1000 ^ unat j \<and> (unat j < 4 \<longrightarrow> unat r < 1000) \<and>
     (0 < unat j \<longrightarrow> 0 < unat r) \<and> (\<exists>u. load units (unat j) = Some u)"
proof -
  obtain b j where bj: "format_loop bytes 0 = (b, j)" by (rule prod.exhaust)
  have s: "unat j \<le> 4" "unat b = unat bytes div 1000 ^ unat j" "unat j < 4 \<Longrightarrow> unat b < 1000"
    "0 < unat j \<Longrightarrow> 0 < unat b"
    using format_loop_spec [of 0 bytes] bj by auto
  have "unat b < 2 ^ 32"
  proof (cases "unat j < 4")
    case False
    then have "unat j = 4" using s(1) by linarith
    then have "unat b = unat bytes div 1000 ^ 4" using s(2) by (simp only:)
    moreover have "unat bytes < 2 ^ LENGTH(64)" by (rule unsigned_less)
    then have "unat bytes < 2 ^ 32 * 1000 ^ 4" by simp
    then have "unat bytes div 1000 ^ 4 < 2 ^ 32" by (rule less_mult_imp_div_less)
    ultimately show ?thesis by (simp only:)
  qed (use s(3) in simp)
  then have "unat (ucast b :: u32) = unat b"
    by (simp add: unsigned_ucast_eq take_bit_nat_eq_self)
  then show ?thesis
    using s bj by (simp add: format_bytes_def load_def units_def)
qed

theorem format_bytes_exact_witness:
  "case format_bytes 1400 of (r, j) \<Rightarrow>
     unat j \<le> 4 \<and> unat r = unat (1400 :: u64) div 1000 ^ unat j \<and> (unat j < 4 \<longrightarrow> unat r < 1000) \<and>
     (0 < unat j \<longrightarrow> 0 < unat r) \<and> (\<exists>u. load units (unat j) = Some u)"
  by (rule format_bytes_exact)

end
