(* ===== verification/Mmpkt.thy ===== *)
theory Mmpkt
  imports Bridge_Prelude "HOL-Library.Multiset"
begin

text \<open>
  Packets in fixed blocks, \<^verbatim>\<open>framework/morselib/include/mmpkt.h\<close>: \<open>MM_FAST_ROUND_UP\<close> and
  \<open>mmpkt_init_buf\<close>, which lays a packet out in a block; the packet lists (implemented in the binary
  library) as a record of operations with their documented laws; and the contract of a transmit
  pool with flow control that both packet memories implement.
\<close>

section \<open>Layout of a packet\<close>

definition MM_FAST_ROUND_UP :: "u32 \<Rightarrow> u32 \<Rightarrow> u32" where
  "MM_FAST_ROUND_UP x m = ((x - 1) OR (m - 1)) + 1"

lemma or_3_nat: "n OR 3 = n div 4 * 4 + (3 :: nat)"
proof -
  have "n OR 3 = 1 + 2 * ((n div 2) OR 1)" by (subst or_nat_rec) simp
  also have "(n div 2) OR 1 = 1 + 2 * (n div 2 div 2)" by (subst or_nat_rec) simp
  finally show ?thesis by (simp add: div_mult2_eq [symmetric])
qed

lemma round_up_4:
  assumes "unat x \<le> 2 ^ 32 - 4"
  shows "unat (MM_FAST_ROUND_UP x 4) = (unat x + 3) div 4 * 4"
proof (cases "x = 0")
  case True
  have "(- 1 :: u32) OR 3 = - 1" by (rule bit_word_eqI) (simp add: bit_simps)
  with True show ?thesis by (simp add: MM_FAST_ROUND_UP_def)
next
  case False
  then obtain k where k: "unat x = Suc k" by (metis not0_implies_Suc unat_eq_zero)
  have m: "unat (x - 1) = k" using unatSuc [of "x - 1"] False k by simp
  have o: "unat ((x - 1) OR 3) = k div 4 * 4 + 3"
    by (simp add: unsigned_or_eq m or_3_nat)
  have "k div 4 * 4 \<le> k" by (rule div_times_less_eq_dividend)
  then have "unat ((x - 1) OR 3) + unat (1 :: u32) < 2 ^ LENGTH(32)"
    using assms unfolding o k by simp
  then have "unat (((x - 1) OR 3) + 1) = unat ((x - 1) OR 3) + unat (1 :: u32)"
    by (rule unat_add_lem [THEN iffD1])
  also have "\<dots> = k div 4 * 4 + 4" unfolding o by simp
  also have "\<dots> = (k + 4) div 4 * 4"
    by (subst div_add_self2 [of 4 k]) simp_all
  finally show ?thesis by (simp add: MM_FAST_ROUND_UP_def k)
qed

text \<open>
  The header a packet has in its block; \<open>pk_metadata\<close> is the offset of the metadata from the start
  of the data buffer. \<open>hdr\<close> is \<open>sizeof(struct mmpkt)\<close>.
\<close>

record mmpkt =
  pk_buf :: u32
  pk_buf_len :: u32
  pk_start_offset :: u32
  pk_data_len :: u32
  pk_metadata :: "u32 option"

definition mmpkt_init :: "u32 \<Rightarrow> u32 \<Rightarrow> u32 \<Rightarrow> mmpkt" where
  "mmpkt_init buf buf_len data_start_offset =
     \<lparr>pk_buf = buf, pk_buf_len = buf_len, pk_start_offset = data_start_offset, pk_data_len = 0,
      pk_metadata = None\<rparr>"

definition mmpkt_init_buf :: "u32 \<Rightarrow> u32 \<Rightarrow> u32 \<Rightarrow> u32 \<Rightarrow> u32 \<Rightarrow> mmpkt option" where
  "mmpkt_init_buf hdr buf_len space_at_start space_at_end metadata_size =
     (let header_size = MM_FAST_ROUND_UP hdr 4;
          metadata_size = MM_FAST_ROUND_UP metadata_size 4 in
      let data_len = (if space_at_end \<noteq> - 1 then MM_FAST_ROUND_UP (space_at_start + space_at_end) 4
            else (buf_len - header_size - metadata_size) AND NOT 3) in
      if space_at_end = - 1 \<and> sint data_len < sint space_at_start then None
      else if header_size + data_len + metadata_size > buf_len then None
      else let mmpkt = mmpkt_init header_size data_len space_at_start in
           Some (if metadata_size \<noteq> 0 then mmpkt\<lparr>pk_metadata := Some data_len\<rparr> else mmpkt))"

text \<open>The packet lies in its block: header, reserved space and data buffer, metadata.\<close>

definition pkt_fits :: "nat \<Rightarrow> nat \<Rightarrow> mmpkt \<Rightarrow> bool" where
  "pkt_fits block metadata p \<longleftrightarrow>
     unat (pk_start_offset p) + unat (pk_data_len p) \<le> unat (pk_buf_len p) \<and>
     unat (pk_buf p) + unat (pk_buf_len p) + metadata \<le> block"

lemma round_up_4_ge: "unat x \<le> 2 ^ 32 - 4 \<Longrightarrow> unat x \<le> unat (MM_FAST_ROUND_UP x 4)"
proof -
  have "n \<le> (n + 3) div 4 * 4" for n :: nat by presburger
  then show "unat x \<le> 2 ^ 32 - 4 \<Longrightarrow> ?thesis" by (simp add: round_up_4)
qed

lemma round_up_4_le: "unat x \<le> 2 ^ 32 - 4 \<Longrightarrow> unat (MM_FAST_ROUND_UP x 4) \<le> unat x + 3"
proof -
  have "(n + 3) div 4 * 4 \<le> n + (3 :: nat)" for n by presburger
  then show "unat x \<le> 2 ^ 32 - 4 \<Longrightarrow> ?thesis" by (simp add: round_up_4)
qed

lemma unat_u32: "unat (x :: u32) < 2 ^ 32"
proof -
  have "unat x < 2 ^ LENGTH(32)" by (rule unsigned_less)
  then show ?thesis by simp
qed

lemma unat_of_nat32: "n < 2 ^ 32 \<Longrightarrow> unat (of_nat n :: u32) = n"
  by (simp add: unat_of_nat take_bit_eq_mod)

lemma unat_add_small: "unat x + unat y < 2 ^ 32 \<Longrightarrow> unat (x + y :: u32) = unat x + unat y"
  by (rule unat_add_lem [THEN iffD1]) simp

lemma init_buf_layout:
  assumes small: "unat sas + unat sae + unat ml < 2 ^ 31" and p: "sae \<noteq> - 1"
  shows "mmpkt_init_buf 28 len sas sae ml =
    (let d = MM_FAST_ROUND_UP (sas + sae) 4; m = MM_FAST_ROUND_UP ml 4 in
     if 28 + unat d + unat m > unat len then None
     else Some \<lparr>pk_buf = 28, pk_buf_len = d, pk_start_offset = sas, pk_data_len = 0,
       pk_metadata = (if m \<noteq> 0 then Some d else None)\<rparr>)"
proof -
  let ?d = "MM_FAST_ROUND_UP (sas + sae) 4" and ?m = "MM_FAST_ROUND_UP ml 4"
  have hdr: "MM_FAST_ROUND_UP 28 4 = 28" by (simp add: MM_FAST_ROUND_UP_def)
  have s: "unat (sas + sae) = unat sas + unat sae" by (rule unat_add_small) (use small in simp)
  have d: "unat ?d \<le> unat sas + unat sae + 3" using round_up_4_le [of "sas + sae"] s small by simp
  have m: "unat ?m \<le> unat ml + 3" using round_up_4_le [of ml] small by simp
  have a: "unat (28 + ?d) = 28 + unat ?d" using unat_add_small [of 28 ?d] d small by simp
  have b: "unat (28 + ?d + ?m) = 28 + unat ?d + unat ?m"
    using unat_add_small [of "28 + ?d" ?m] a d m small by simp
  show ?thesis using p by (simp add: mmpkt_init_buf_def mmpkt_init_def hdr Let_def word_less_nat_alt b)
qed

text \<open>\<open>mmpkt_init_buf\<close> lays the packet out inside its block: for a request whose sizes do not wrap
  around 32 bits it fails exactly when header, data space and metadata, each rounded up to 4 bytes,
  exceed the block, and otherwise header, requested space and metadata lie one after the other
  inside it, the data word aligned.\<close>

theorem mmpkt_init_buf_fits:
  assumes "unat sas + unat sae + unat ml < 2 ^ 31" "sae \<noteq> - 1"
  shows "case mmpkt_init_buf 28 len sas sae ml of
      None \<Rightarrow> 28 + (unat sas + unat sae + 3) div 4 * 4 + (unat ml + 3) div 4 * 4 > unat len
    | Some p \<Rightarrow> pkt_fits (unat len) (unat ml) p \<and> unat sas + unat sae \<le> unat (pk_buf_len p) \<and>
        pk_start_offset p = sas \<and> 4 dvd unat (pk_buf_len p)"
proof -
  have s: "unat (sas + sae) = unat sas + unat sae" by (rule unat_add_small) (use assms in simp)
  have d: "unat (MM_FAST_ROUND_UP (sas + sae) 4) = (unat sas + unat sae + 3) div 4 * 4"
    using round_up_4 [of "sas + sae"] s assms(1) by simp
  have m: "unat (MM_FAST_ROUND_UP ml 4) = (unat ml + 3) div 4 * 4"
    using round_up_4 [of ml] assms(1) by simp
  have ge: "unat sas + unat sae \<le> (unat sas + unat sae + 3) div 4 * 4" "unat ml \<le> (unat ml + 3) div 4 * 4"
    using round_up_4_ge [of "sas + sae"] round_up_4_ge [of ml] assms(1) d m s by simp_all
  show ?thesis using ge
    by (simp add: init_buf_layout [OF assms] Let_def d m pkt_fits_def)
qed

theorem mmpkt_init_buf_fits_witness:
  "\<exists>p. mmpkt_init_buf 28 256 32 101 8 = Some p \<and> pkt_fits 256 8 p"
  using mmpkt_init_buf_fits [of 32 101 8 256] by (auto split: option.splits)

text \<open>When the requested space wraps around, the size check passes and the packet starts outside its
  buffer.\<close>

lemma mmpkt_init_buf_wraps:
  "\<exists>p. mmpkt_init_buf 28 256 0xfffffff0 0x20 0 = Some p \<and> \<not> pkt_fits 256 0 p"
  by (simp add: mmpkt_init_buf_def mmpkt_init_def MM_FAST_ROUND_UP_def pkt_fits_def Let_def)

section \<open>Packet lists\<close>

record ('l, 'p) mmpkt_lists =
  mmpkt_list_empty :: 'l
  mmpkt_list_append :: "'l \<Rightarrow> 'p \<Rightarrow> 'l"
  mmpkt_list_dequeue :: "'l \<Rightarrow> ('l \<times> 'p) option"
  mmpkt_list_length :: "'l \<Rightarrow> nat"

definition mmpkt_lists_ok :: "('l, 'p) mmpkt_lists \<Rightarrow> ('l \<Rightarrow> 'p list) \<Rightarrow> bool" where
  "mmpkt_lists_ok L cont \<longleftrightarrow> cont (mmpkt_list_empty L) = [] \<and>
     (\<forall>l p. p \<notin> set (cont l) \<longrightarrow> cont (mmpkt_list_append L l p) = cont l @ [p]) \<and>
     (\<forall>l. mmpkt_list_length L l = length (cont l)) \<and>
     (\<forall>l. case cont l of [] \<Rightarrow> mmpkt_list_dequeue L l = None
        | p # ps \<Rightarrow> \<exists>l'. mmpkt_list_dequeue L l = Some (l', p) \<and> cont l' = ps)"

definition hol_lists :: "('p list, 'p) mmpkt_lists" where
  "hol_lists = \<lparr>mmpkt_list_empty = [], mmpkt_list_append = \<lambda>l p. l @ [p],
     mmpkt_list_dequeue = \<lambda>l. case l of [] \<Rightarrow> None | p # ps \<Rightarrow> Some (ps, p),
     mmpkt_list_length = length\<rparr>"

lemma hol_lists_ok: "mmpkt_lists_ok hol_lists id"
  by (simp add: mmpkt_lists_ok_def hol_lists_def split: list.splits)

lemma lists_dequeue:
  assumes "mmpkt_lists_ok L cont"
  shows "mmpkt_list_dequeue L l = None \<Longrightarrow> cont l = []"
    and "mmpkt_list_dequeue L l = Some (l', q) \<Longrightarrow> cont l = q # cont l'"
proof -
  have "case cont l of [] \<Rightarrow> mmpkt_list_dequeue L l = None
      | p # ps \<Rightarrow> \<exists>l'. mmpkt_list_dequeue L l = Some (l', p) \<and> cont l' = ps"
    using assms unfolding mmpkt_lists_ok_def by blast
  then show "mmpkt_list_dequeue L l = None \<Longrightarrow> cont l = []"
    and "mmpkt_list_dequeue L l = Some (l', q) \<Longrightarrow> cont l = q # cont l'"
    by (auto split: list.splits)
qed

lemma lists_laws:
  assumes "mmpkt_lists_ok L cont"
  shows "cont (mmpkt_list_empty L) = []"
    and "p \<notin> set (cont l) \<Longrightarrow> cont (mmpkt_list_append L l p) = cont l @ [p]"
    and "mmpkt_list_length L l = length (cont l)"
  using assms unfolding mmpkt_lists_ok_def by blast+

text \<open>
  Taking a packet of a free list: the dequeued block is initialised, and returned to the list by
  \<open>put_back\<close> when the request does not fit in it.
\<close>

definition alloc_pkt_from_list ::
  "('l, nat) mmpkt_lists \<Rightarrow> u32 \<Rightarrow> 'l \<Rightarrow> u32 \<Rightarrow> ('l \<Rightarrow> nat \<Rightarrow> 'l) \<Rightarrow> u32 \<Rightarrow> u32 \<Rightarrow> u32
     \<Rightarrow> 'l \<times> (nat \<times> mmpkt) option" where
  "alloc_pkt_from_list L hdr list pktbufsize put_back space_at_start space_at_end metadata_length =
     (case mmpkt_list_dequeue L list of
        None \<Rightarrow> (list, None)
      | Some (list', mmpkt_buf) \<Rightarrow>
          (case mmpkt_init_buf hdr pktbufsize space_at_start space_at_end metadata_length of
             None \<Rightarrow> (put_back list' mmpkt_buf, None)
           | Some pkt \<Rightarrow> (list', Some (mmpkt_buf, pkt))))"

lemma alloc_from_list_mset:
  assumes "mmpkt_lists_ok L cont" "distinct (cont list)"
  shows "alloc_pkt_from_list L hdr list sz (mmpkt_list_append L) sas sae ml = (list', r) \<Longrightarrow>
    mset (cont list') + (case r of None \<Rightarrow> {#} | Some (b, p) \<Rightarrow> {#b#}) = mset (cont list)"
  using assms lists_dequeue [OF assms(1)] lists_laws(2) [OF assms(1)]
  by (fastforce simp: alloc_pkt_from_list_def split: option.splits prod.splits)

text \<open>Blocks \<open>0\<close>, \<open>size\<close>, \<open>2 * size\<close>, \<open>\<dots>\<close> of a static pool, in the order they enter its list.\<close>

fun pool_fill :: "('l, nat) mmpkt_lists \<Rightarrow> nat \<Rightarrow> nat \<Rightarrow> 'l" where
  "pool_fill L blk 0 = mmpkt_list_empty L"
| "pool_fill L blk (Suc ii) = mmpkt_list_append L (pool_fill L blk ii) (blk * ii)"

lemma pool_fill_cont:
  assumes "mmpkt_lists_ok L cont" "0 < blk"
  shows "cont (pool_fill L blk n) = map (\<lambda>ii. blk * ii) [0..<n]"
proof (induction n)
  case (Suc n)
  then have "blk * n \<notin> set (cont (pool_fill L blk n))" using assms(2) by auto
  then show ?case using Suc lists_laws(2) [OF assms(1)] by simp
qed (simp add: lists_laws(1) [OF assms(1)])

text \<open>The element at an index, taken out of a list.\<close>

definition remove_at :: "nat \<Rightarrow> 'a list \<Rightarrow> 'a list" where
  "remove_at i xs = take i xs @ drop (Suc i) xs"

lemma mset_remove_at: "i < length xs \<Longrightarrow> mset xs = add_mset (xs ! i) (mset (remove_at i xs))"
proof -
  assume "i < length xs"
  then have "mset xs = mset (take i xs @ xs ! i # drop (Suc i) xs)"
    using id_take_nth_drop [of i xs] by simp
  then show ?thesis by (simp add: remove_at_def)
qed

lemma sum_list_remove_at:
  "i < length xs \<Longrightarrow>
     sum_list (map f xs) = f (xs ! i) + sum_list (map f (remove_at i xs) :: 'b :: comm_monoid_add list)"
  by (subst id_take_nth_drop [of i xs]) (simp_all add: remove_at_def add_ac)

lemma filter_remove_at:
  "i < length xs \<Longrightarrow>
     length (filter P xs) = (if P (xs ! i) then 1 else 0) + length (filter P (remove_at i xs))"
  by (subst id_take_nth_drop [of i xs]) (simp_all add: remove_at_def)

lemma distinct_parts:
  assumes "mset xs + M = mset ys" "distinct ys"
  shows "distinct xs" "c \<in># M \<Longrightarrow> c \<notin> set xs"
proof -
  obtain zs where M: "M = mset zs" by (metis ex_mset)
  then have "distinct (xs @ zs)" using assms mset_eq_imp_distinct_iff [of "xs @ zs" ys] by simp
  then show "distinct xs" "c \<in># M \<Longrightarrow> c \<notin> set xs" using M by auto
qed

text \<open>A pool keeps its blocks: a taken one moves to the holders, a returned one back to the list.\<close>

lemma take_keeps_blocks:
  assumes "mmpkt_lists_ok L cont" "mset (cont l) + M = mset ys" "distinct ys"
    and "alloc_pkt_from_list L hdr l sz (mmpkt_list_append L) sas sae ml = (l', r)"
  shows "mset (cont l') + ((case r of None \<Rightarrow> {#} | Some (b, p) \<Rightarrow> {#b#}) + M) = mset ys"
  using alloc_from_list_mset [OF assms(1) distinct_parts(1) [OF assms(2,3)] assms(4)] assms(2)
  by (simp add: add.assoc [symmetric])

lemma return_keeps_blocks:
  assumes "mmpkt_lists_ok L cont" "mset (cont l) + add_mset b M = mset ys" "distinct ys"
  shows "mset (cont (mmpkt_list_append L l b)) + M = mset ys"
proof -
  have "b \<notin> set (cont l)" using distinct_parts(2) [OF assms(2,3), of b] by simp
  then show ?thesis using lists_laws(2) [OF assms(1), of b l] assms(2) by simp
qed

section \<open>Transmit pools with flow control\<close>

text \<open>
  What the WLAN library relies on: the flow control callback is invoked exactly when the pause
  state changes, and a pool with nothing allocated is not paused.
\<close>

fun pool_run :: "('s \<Rightarrow> 'e \<Rightarrow> 's \<times> nat) \<Rightarrow> 's \<Rightarrow> 'e list \<Rightarrow> 's \<times> nat" where
  "pool_run step s [] = (s, 0)"
| "pool_run step s (e # es) =
     (let (s', k) = step s e; (s'', m) = pool_run step s' es in (s'', k + m))"

locale tx_pool =
  fixes step :: "'s \<Rightarrow> 'e \<Rightarrow> 's \<times> nat"
    and inv :: "'s \<Rightarrow> bool"
    and paused :: "'s \<Rightarrow> bool"
    and in_use :: "'s \<Rightarrow> nat"
  assumes step_keeps: "inv s \<Longrightarrow> inv (fst (step s e))"
    and callback_iff_flip:
      "inv s \<Longrightarrow> snd (step s e) = (if paused (fst (step s e)) \<noteq> paused s then 1 else 0)"
    and idle_ready: "inv s \<Longrightarrow> in_use s = 0 \<Longrightarrow> \<not> paused s"
begin

lemma run_keeps: "inv s \<Longrightarrow> inv (fst (pool_run step s es))"
  using step_keeps by (induction es arbitrary: s) (auto simp: Let_def split: prod.splits, metis fst_conv)

lemma callbacks_track_pause:
  "inv s \<Longrightarrow> even (snd (pool_run step s es)) \<longleftrightarrow> (paused (fst (pool_run step s es)) = paused s)"
proof (induction es arbitrary: s)
  case (Cons e es)
  obtain s' k where s': "step s e = (s', k)" by (rule prod.exhaust)
  obtain s'' m where s'': "pool_run step s' es = (s'', m)" by (rule prod.exhaust)
  have i: "inv s'" using step_keeps [OF Cons.prems, of e] s' by simp
  have k: "k = (if paused s' \<noteq> paused s then 1 else 0)"
    using callback_iff_flip [OF Cons.prems, of e] s' by simp
  show ?case using Cons.IH [OF i] s' s'' k by auto
qed simp

lemma quiet_when_idle:
  "inv s \<Longrightarrow> \<not> paused s \<Longrightarrow> in_use (fst (pool_run step s es)) = 0 \<Longrightarrow>
     \<not> paused (fst (pool_run step s es)) \<and> even (snd (pool_run step s es))"
  using idle_ready run_keeps callbacks_track_pause by blast

end

end
