(* ===== verification/Pktmem_Heap.thy ===== *)
theory Pktmem_Heap
  imports Mmpkt
begin

text \<open>
  The packet memory on the heap, \<^verbatim>\<open>framework/src/mmpktmem/mmpktmem_heap.c\<close>: transmit and receive
  packets come from the heap, bounded by counters, with a small static pool for command packets in
  each direction, and flow control towards the data path. The packet lists and the heap
  allocator are code of the binary library: the lists are the operations \<open>L\<close>, and
  \<open>heap_ok\<close> is the outcome of one \<open>mmpkt_alloc_on_heap\<close>. Each operation runs to its end before the
  next one starts. The static blocks of a pool are named by their offset, as in the code.
\<close>

section \<open>State and operations\<close>

datatype pkt_class =
    MMHAL_WLAN_PKT_DATA_TID0 | MMHAL_WLAN_PKT_DATA_TID1 | MMHAL_WLAN_PKT_DATA_TID2
  | MMHAL_WLAN_PKT_DATA_TID3 | MMHAL_WLAN_PKT_DATA_TID4 | MMHAL_WLAN_PKT_DATA_TID5
  | MMHAL_WLAN_PKT_DATA_TID6 | MMHAL_WLAN_PKT_DATA_TID7
  | MMHAL_WLAN_PKT_MANAGEMENT | MMHAL_WLAN_PKT_COMMAND

datatype tx_flow = MMWLAN_TX_READY | MMWLAN_TX_PAUSED

record 'l pktmem_heap =
  tx_data_pool_allocated :: int
  tx_data_pool_tx_paused :: bool
  rx_pool_allocated :: int
  tx_command_pool_free_list :: 'l
  rx_command_pool_free_list :: 'l

record pktmem_config =
  tx_pool_n_blocks :: nat
  rx_pool_n_blocks :: nat
  rx_max_size :: u32
  pkt_hdr :: u32

abbreviation (input) TX_COMMAND_POOL_BLOCK_SIZE :: nat where "TX_COMMAND_POOL_BLOCK_SIZE \<equiv> 256"
abbreviation (input) TX_COMMAND_POOL_N_BLOCKS :: nat where "TX_COMMAND_POOL_N_BLOCKS \<equiv> 2"
abbreviation (input) RX_COMMAND_POOL_N_BLOCKS :: nat where "RX_COMMAND_POOL_N_BLOCKS \<equiv> 2"

definition TX_DATA_POOL_UNPAUSE_THRESHOLD :: "pktmem_config \<Rightarrow> int" where
  "TX_DATA_POOL_UNPAUSE_THRESHOLD C = int (tx_pool_n_blocks C) - 2"

definition TX_DATA_POOL_PAUSE_THRESHOLD :: "pktmem_config \<Rightarrow> int" where
  "TX_DATA_POOL_PAUSE_THRESHOLD C = int (tx_pool_n_blocks C) - 1"

definition pktmem_heap_init :: "('l, nat) mmpkt_lists \<Rightarrow> pktmem_config \<Rightarrow> 'l pktmem_heap" where
  "pktmem_heap_init L C =
     \<lparr>tx_data_pool_allocated = 0, tx_data_pool_tx_paused = False, rx_pool_allocated = 0,
      tx_command_pool_free_list = pool_fill L TX_COMMAND_POOL_BLOCK_SIZE TX_COMMAND_POOL_N_BLOCKS,
      rx_command_pool_free_list = pool_fill L (unat (rx_max_size C)) RX_COMMAND_POOL_N_BLOCKS\<rparr>"

definition tx_command_reserved_free ::
  "('l, nat) mmpkt_lists \<Rightarrow> 'l pktmem_heap \<Rightarrow> nat \<Rightarrow> 'l pktmem_heap" where
  "tx_command_reserved_free L s mmpkt = s\<lparr>tx_command_pool_free_list :=
     mmpkt_list_append L (tx_command_pool_free_list s) mmpkt\<rparr>"

definition rx_command_reserved_free ::
  "('l, nat) mmpkt_lists \<Rightarrow> 'l pktmem_heap \<Rightarrow> nat \<Rightarrow> 'l pktmem_heap" where
  "rx_command_reserved_free L s mmpkt = s\<lparr>rx_command_pool_free_list :=
     mmpkt_list_append L (rx_command_pool_free_list s) mmpkt\<rparr>"

definition tx_command_pool_alloc ::
  "('l, nat) mmpkt_lists \<Rightarrow> pktmem_config \<Rightarrow> 'l pktmem_heap \<Rightarrow> u32 \<Rightarrow> u32 \<Rightarrow> u32
     \<Rightarrow> 'l pktmem_heap \<times> (nat \<times> mmpkt) option" where
  "tx_command_pool_alloc L C s space_at_start space_at_end metadata_length =
     (let (l, r) = alloc_pkt_from_list L (pkt_hdr C) (tx_command_pool_free_list s)
            (of_nat TX_COMMAND_POOL_BLOCK_SIZE) (mmpkt_list_append L)
            space_at_start space_at_end metadata_length
      in (s\<lparr>tx_command_pool_free_list := l\<rparr>, r))"

text \<open>
  \<open>None\<close> is the failed assertion on the counter. The number is how often the flow control
  callback is called.
\<close>

definition tx_data_pool_pkt_free :: "pktmem_config \<Rightarrow> 'l pktmem_heap \<Rightarrow> ('l pktmem_heap \<times> nat) option" where
  "tx_data_pool_pkt_free C s =
     (let old_value = tx_data_pool_allocated s;
          s = s\<lparr>tx_data_pool_allocated := old_value - 1\<rparr> in
      if \<not> old_value > 0 then None
      else if tx_data_pool_allocated s < TX_DATA_POOL_UNPAUSE_THRESHOLD C
        then Some (s\<lparr>tx_data_pool_tx_paused := False\<rparr>, if tx_data_pool_tx_paused s then 1 else 0)
      else Some (s, 0))"

datatype tx_pkt = Tx_Command nat mmpkt | Tx_Data

definition mmhal_wlan_alloc_mmpkt_for_tx ::
  "('l, nat) mmpkt_lists \<Rightarrow> pktmem_config \<Rightarrow> 'l pktmem_heap \<Rightarrow> bool \<Rightarrow> pkt_class \<Rightarrow> u32 \<Rightarrow> u32 \<Rightarrow> u32
     \<Rightarrow> 'l pktmem_heap \<times> tx_pkt option \<times> nat" where
  "mmhal_wlan_alloc_mmpkt_for_tx L C s heap_ok pkt_class space_at_start space_at_end metadata_length =
     (let (s, cmd) = (if pkt_class = MMHAL_WLAN_PKT_COMMAND
            then tx_command_pool_alloc L C s space_at_start space_at_end metadata_length
            else (s, None)) in
      case cmd of Some (b, p) \<Rightarrow> (s, Some (Tx_Command b p), 0)
      | None \<Rightarrow>
        (let old_value = tx_data_pool_allocated s;
             s = s\<lparr>tx_data_pool_allocated := old_value + 1\<rparr> in
         if old_value \<ge> int (tx_pool_n_blocks C)
           then (s\<lparr>tx_data_pool_allocated := tx_data_pool_allocated s - 1\<rparr>, None, 0)
         else if \<not> heap_ok
           then (s\<lparr>tx_data_pool_allocated := tx_data_pool_allocated s - 1\<rparr>, None, 0)
         else if tx_data_pool_allocated s > TX_DATA_POOL_PAUSE_THRESHOLD C
           then (s\<lparr>tx_data_pool_tx_paused := True\<rparr>, Some Tx_Data,
                 if \<not> tx_data_pool_tx_paused s then 1 else 0)
         else (s, Some Tx_Data, 0)))"

definition mmhal_wlan_pktmem_tx_flow_control_state :: "'l pktmem_heap \<Rightarrow> tx_flow" where
  "mmhal_wlan_pktmem_tx_flow_control_state s =
     (if tx_data_pool_tx_paused s then MMWLAN_TX_PAUSED else MMWLAN_TX_READY)"

datatype rx_pkt = Rx_Command nat mmpkt | Rx_Heap | Rx_Data

definition rx_pkt_free :: "'l pktmem_heap \<Rightarrow> 'l pktmem_heap" where
  "rx_pkt_free s = s\<lparr>rx_pool_allocated := rx_pool_allocated s - 1\<rparr>"

definition mmhal_wlan_alloc_mmpkt_for_rx ::
  "('l, nat) mmpkt_lists \<Rightarrow> pktmem_config \<Rightarrow> 'l pktmem_heap \<Rightarrow> bool \<Rightarrow> pkt_class \<Rightarrow> u32 \<Rightarrow> u32
     \<Rightarrow> 'l pktmem_heap \<times> rx_pkt option" where
  "mmhal_wlan_alloc_mmpkt_for_rx L C s heap_ok pkt_class capacity metadata_length =
     (if pkt_class = MMHAL_WLAN_PKT_COMMAND then
        (let (l, r) = alloc_pkt_from_list L (pkt_hdr C) (rx_command_pool_free_list s)
               (rx_max_size C) (mmpkt_list_append L) 0 capacity metadata_length;
             s = s\<lparr>rx_command_pool_free_list := l\<rparr> in
         case r of Some (b, p) \<Rightarrow> (s, Some (Rx_Command b p))
         | None \<Rightarrow> (s, if heap_ok then Some Rx_Heap else None))
      else
        (let old_value = rx_pool_allocated s; s = s\<lparr>rx_pool_allocated := old_value + 1\<rparr> in
         if old_value \<ge> int (rx_pool_n_blocks C)
           then (s\<lparr>rx_pool_allocated := rx_pool_allocated s - 1\<rparr>, None)
         else if \<not> heap_ok then (s\<lparr>rx_pool_allocated := rx_pool_allocated s - 1\<rparr>, None)
         else (s, Some Rx_Data)))"

text \<open>
  Shutting down: \<open>env ii\<close> is the state the other threads have left before iteration \<open>ii\<close> of the
  wait loop. The result is the number of 10 ms sleeps and the logged leaks.
\<close>

definition deinit_settled :: "('l, nat) mmpkt_lists \<Rightarrow> 'l pktmem_heap \<Rightarrow> bool" where
  "deinit_settled L s \<longleftrightarrow>
     (int (mmpkt_list_length L (tx_command_pool_free_list s)) OR
      int (mmpkt_list_length L (rx_command_pool_free_list s)) OR
      tx_data_pool_allocated s OR tx_data_pool_allocated s) = 0"

fun deinit_wait :: "('s \<Rightarrow> bool) \<Rightarrow> (nat \<Rightarrow> 's) \<Rightarrow> nat \<Rightarrow> nat \<Rightarrow> nat" where
  "deinit_wait settled env ii 0 = 0"
| "deinit_wait settled env ii (Suc left) =
     (if settled (env ii) then 0 else Suc (deinit_wait settled env (Suc ii) left))"

definition mmhal_wlan_pktmem_deinit ::
  "('l, nat) mmpkt_lists \<Rightarrow> (nat \<Rightarrow> 'l pktmem_heap) \<Rightarrow> nat \<times> (int \<times> string) list" where
  "mmhal_wlan_pktmem_deinit L env =
     (let sleeps = deinit_wait (deinit_settled L) env 0 100; s = env sleeps;
          txc = mmpkt_list_length L (tx_command_pool_free_list s);
          rxc = mmpkt_list_length L (rx_command_pool_free_list s) in
      (sleeps,
       (if tx_data_pool_allocated s \<noteq> 0 then [(tx_data_pool_allocated s, ''data'')] else []) @
       (if txc \<noteq> TX_COMMAND_POOL_N_BLOCKS
          then [(int TX_COMMAND_POOL_N_BLOCKS - int txc, ''command'')] else []) @
       (if rxc \<noteq> RX_COMMAND_POOL_N_BLOCKS
          then [(int RX_COMMAND_POOL_N_BLOCKS - int rxc, ''command'')] else [])))"


section \<open>The memory and the packets its clients hold\<close>

datatype pktmem_event =
    Tx_Alloc bool pkt_class u32 u32 u32
  | Tx_Free nat
  | Rx_Alloc bool pkt_class u32 u32
  | Rx_Free nat

record 'l heap_system =
  hs_mem :: "'l pktmem_heap"
  hs_tx :: "tx_pkt list"
  hs_rx :: "rx_pkt list"

definition heap_free_tx ::
  "('l, nat) mmpkt_lists \<Rightarrow> pktmem_config \<Rightarrow> 'l pktmem_heap \<Rightarrow> tx_pkt \<Rightarrow> ('l pktmem_heap \<times> nat) option" where
  "heap_free_tx L C s p = (case p of Tx_Command b _ \<Rightarrow> Some (tx_command_reserved_free L s b, 0)
     | Tx_Data \<Rightarrow> tx_data_pool_pkt_free C s)"

definition heap_free_rx ::
  "('l, nat) mmpkt_lists \<Rightarrow> 'l pktmem_heap \<Rightarrow> rx_pkt \<Rightarrow> 'l pktmem_heap" where
  "heap_free_rx L s p = (case p of Rx_Command b _ \<Rightarrow> rx_command_reserved_free L s b
     | Rx_Heap \<Rightarrow> s | Rx_Data \<Rightarrow> rx_pkt_free s)"

definition heap_system_step ::
  "('l, nat) mmpkt_lists \<Rightarrow> pktmem_config \<Rightarrow> 'l heap_system \<Rightarrow> pktmem_event \<Rightarrow> 'l heap_system \<times> nat" where
  "heap_system_step L C y e = (case e of
     Tx_Alloc ok c a b m \<Rightarrow>
       (let (s, r, k) = mmhal_wlan_alloc_mmpkt_for_tx L C (hs_mem y) ok c a b m in
        (y\<lparr>hs_mem := s, hs_tx := hs_tx y @ (case r of None \<Rightarrow> [] | Some p \<Rightarrow> [p])\<rparr>, k))
   | Tx_Free i \<Rightarrow>
       (if i < length (hs_tx y) then
          (case heap_free_tx L C (hs_mem y) (hs_tx y ! i) of
             Some (s, k) \<Rightarrow> (y\<lparr>hs_mem := s, hs_tx := remove_at i (hs_tx y)\<rparr>, k)
           | None \<Rightarrow> (y, 0))
        else (y, 0))
   | Rx_Alloc ok c cap m \<Rightarrow>
       (let (s, r) = mmhal_wlan_alloc_mmpkt_for_rx L C (hs_mem y) ok c cap m in
        (y\<lparr>hs_mem := s, hs_rx := hs_rx y @ (case r of None \<Rightarrow> [] | Some p \<Rightarrow> [p])\<rparr>, 0))
   | Rx_Free i \<Rightarrow>
       (if i < length (hs_rx y)
        then (y\<lparr>hs_mem := heap_free_rx L (hs_mem y) (hs_rx y ! i), hs_rx := remove_at i (hs_rx y)\<rparr>, 0)
        else (y, 0)))"

text \<open>The static blocks among held packets, and how many of them count towards the limits.\<close>

definition tx_blocks :: "tx_pkt list \<Rightarrow> nat multiset" where
  "tx_blocks ps = sum_list (map (\<lambda>p. case p of Tx_Command b _ \<Rightarrow> {#b#} | Tx_Data \<Rightarrow> {#}) ps)"

definition tx_data_held :: "tx_pkt list \<Rightarrow> nat" where
  "tx_data_held ps = length (filter (\<lambda>p. p = Tx_Data) ps)"

definition rx_blocks :: "rx_pkt list \<Rightarrow> nat multiset" where
  "rx_blocks ps = sum_list (map (\<lambda>p. case p of Rx_Command b _ \<Rightarrow> {#b#} | _ \<Rightarrow> {#}) ps)"

definition rx_data_held :: "rx_pkt list \<Rightarrow> nat" where
  "rx_data_held ps = length (filter (\<lambda>p. p = Rx_Data) ps)"

definition heap_tx_inv ::
  "('l \<Rightarrow> nat list) \<Rightarrow> pktmem_config \<Rightarrow> 'l pktmem_heap \<Rightarrow> tx_pkt list \<Rightarrow> bool" where
  "heap_tx_inv cont C s ps \<longleftrightarrow>
     (let n = tx_data_pool_allocated s; N = int (tx_pool_n_blocks C) in
      n = int (tx_data_held ps) \<and> n \<le> N \<and>
      (tx_data_pool_tx_paused s \<longrightarrow> N - 2 \<le> n) \<and> (n = N \<longrightarrow> tx_data_pool_tx_paused s) \<and>
      mset (cont (tx_command_pool_free_list s)) + tx_blocks ps = {#0, TX_COMMAND_POOL_BLOCK_SIZE#})"

definition heap_rx_inv ::
  "('l \<Rightarrow> nat list) \<Rightarrow> pktmem_config \<Rightarrow> 'l pktmem_heap \<Rightarrow> rx_pkt list \<Rightarrow> bool" where
  "heap_rx_inv cont C s ps \<longleftrightarrow>
     rx_pool_allocated s = int (rx_data_held ps) \<and> rx_pool_allocated s \<le> int (rx_pool_n_blocks C) \<and>
     mset (cont (rx_command_pool_free_list s)) + rx_blocks ps = {#0, unat (rx_max_size C)#}"

definition heap_system_inv ::
  "('l, nat) mmpkt_lists \<Rightarrow> ('l \<Rightarrow> nat list) \<Rightarrow> pktmem_config \<Rightarrow> 'l heap_system \<Rightarrow> bool" where
  "heap_system_inv L cont C y \<longleftrightarrow>
     mmpkt_lists_ok L cont \<and> 3 \<le> tx_pool_n_blocks C \<and> 0 < rx_max_size C \<and>
     heap_tx_inv cont C (hs_mem y) (hs_tx y) \<and> heap_rx_inv cont C (hs_mem y) (hs_rx y)"

lemma held_append [simp]:
  "tx_blocks (ps @ [Tx_Command b p]) = add_mset b (tx_blocks ps)"
  "tx_blocks (ps @ [Tx_Data]) = tx_blocks ps"
  "tx_data_held (ps @ [Tx_Command b p]) = tx_data_held ps"
  "tx_data_held (ps @ [Tx_Data]) = Suc (tx_data_held ps)"
  "rx_blocks (qs @ [Rx_Command b p]) = add_mset b (rx_blocks qs)"
  "rx_blocks (qs @ [Rx_Data]) = rx_blocks qs" "rx_blocks (qs @ [Rx_Heap]) = rx_blocks qs"
  "rx_data_held (qs @ [Rx_Command b p]) = rx_data_held qs"
  "rx_data_held (qs @ [Rx_Data]) = Suc (rx_data_held qs)"
  "rx_data_held (qs @ [Rx_Heap]) = rx_data_held qs"
  by (simp_all add: tx_blocks_def tx_data_held_def rx_blocks_def rx_data_held_def)

lemma tx_held_remove:
  "i < length ps \<Longrightarrow> tx_blocks ps =
     (case ps ! i of Tx_Command b _ \<Rightarrow> {#b#} | Tx_Data \<Rightarrow> {#}) + tx_blocks (remove_at i ps)"
  "i < length ps \<Longrightarrow> tx_data_held ps =
     (if ps ! i = Tx_Data then 1 else 0) + tx_data_held (remove_at i ps)"
  unfolding tx_blocks_def tx_data_held_def by (rule sum_list_remove_at filter_remove_at, assumption)+

lemma rx_held_remove:
  "i < length ps \<Longrightarrow> rx_blocks ps =
     (case ps ! i of Rx_Command b _ \<Rightarrow> {#b#} | _ \<Rightarrow> {#}) + rx_blocks (remove_at i ps)"
  "i < length ps \<Longrightarrow> rx_data_held ps =
     (if ps ! i = Rx_Data then 1 else 0) + rx_data_held (remove_at i ps)"
  unfolding rx_blocks_def rx_data_held_def by (rule sum_list_remove_at filter_remove_at, assumption)+

lemma alloc_tx_keeps_tx:
  assumes "mmpkt_lists_ok L cont" "3 \<le> tx_pool_n_blocks C" "heap_tx_inv cont C s ps"
    and "mmhal_wlan_alloc_mmpkt_for_tx L C s ok c a b m = (s', r, k)"
  shows "heap_tx_inv cont C s' (ps @ (case r of None \<Rightarrow> [] | Some p \<Rightarrow> [p]))"
    and "k = (if tx_data_pool_tx_paused s' \<noteq> tx_data_pool_tx_paused s then 1 else 0)"
proof -
  obtain l q where q: "alloc_pkt_from_list L (pkt_hdr C) (tx_command_pool_free_list s) 256
      (mmpkt_list_append L) a b m = (l, q)" by (rule prod.exhaust)
  have "mset (cont (tx_command_pool_free_list s)) + tx_blocks ps = mset [0, 256]"
    using assms(3) by (simp add: heap_tx_inv_def Let_def)
  note blocks = take_keeps_blocks [OF assms(1) this _ q]
  show "heap_tx_inv cont C s' (ps @ (case r of None \<Rightarrow> [] | Some p \<Rightarrow> [p]))"
    using assms(2-4) q blocks
    by (auto simp: mmhal_wlan_alloc_mmpkt_for_tx_def tx_command_pool_alloc_def heap_tx_inv_def Let_def
        TX_DATA_POOL_PAUSE_THRESHOLD_def split: if_splits option.splits)
  show "k = (if tx_data_pool_tx_paused s' \<noteq> tx_data_pool_tx_paused s then 1 else 0)"
    using assms(4) q
    by (auto simp: mmhal_wlan_alloc_mmpkt_for_tx_def tx_command_pool_alloc_def Let_def
        split: if_splits option.splits)
qed

lemma free_tx_keeps_tx:
  assumes "mmpkt_lists_ok L cont" "3 \<le> tx_pool_n_blocks C" "heap_tx_inv cont C s ps" "i < length ps"
  obtains s' k where "heap_free_tx L C s (ps ! i) = Some (s', k)"
    "heap_tx_inv cont C s' (remove_at i ps)"
    "k = (if tx_data_pool_tx_paused s' \<noteq> tx_data_pool_tx_paused s then 1 else 0)"
proof (cases "ps ! i")
  case (Tx_Command b p)
  then have "mset (cont (tx_command_pool_free_list s)) + add_mset b (tx_blocks (remove_at i ps)) = mset [0, 256]"
    using assms(3) tx_held_remove(1) [OF assms(4)] by (simp add: heap_tx_inv_def Let_def)
  from return_keeps_blocks [OF assms(1) this]
  have "mset (cont (mmpkt_list_append L (tx_command_pool_free_list s) b)) +
      tx_blocks (remove_at i ps) = {#0, 256#}" by simp
  then show ?thesis using assms(3) Tx_Command tx_held_remove(2) [OF assms(4)] that
    by (auto simp: heap_free_tx_def tx_command_reserved_free_def heap_tx_inv_def Let_def)
next
  case Tx_Data
  note held = tx_held_remove [OF assms(4), unfolded Tx_Data]
  have "0 < tx_data_pool_allocated s" using assms(3) held by (simp add: heap_tx_inv_def Let_def)
  then obtain s' k where f: "tx_data_pool_pkt_free C s = Some (s', k)"
    by (cases "tx_data_pool_pkt_free C s") (auto simp: tx_data_pool_pkt_free_def Let_def split: if_splits)
  moreover have "heap_tx_inv cont C s' (remove_at i ps)"
    using f assms(2,3) held
    by (auto simp: tx_data_pool_pkt_free_def heap_tx_inv_def Let_def
        TX_DATA_POOL_UNPAUSE_THRESHOLD_def split: if_splits)
  moreover have "k = (if tx_data_pool_tx_paused s' \<noteq> tx_data_pool_tx_paused s then 1 else 0)"
    using f by (auto simp: tx_data_pool_pkt_free_def Let_def split: if_splits)
  ultimately show ?thesis using Tx_Data that by (simp add: heap_free_tx_def)
qed

lemma alloc_rx_keeps_rx:
  assumes "mmpkt_lists_ok L cont" "0 < rx_max_size C" "heap_rx_inv cont C s ps"
    and "mmhal_wlan_alloc_mmpkt_for_rx L C s ok c cap m = (s', r)"
  shows "heap_rx_inv cont C s' (ps @ (case r of None \<Rightarrow> [] | Some p \<Rightarrow> [p]))"
proof -
  obtain l q where q: "alloc_pkt_from_list L (pkt_hdr C) (rx_command_pool_free_list s) (rx_max_size C)
      (mmpkt_list_append L) 0 cap m = (l, q)" by (rule prod.exhaust)
  have "mset (cont (rx_command_pool_free_list s)) + rx_blocks ps = mset [0, unat (rx_max_size C)]"
    using assms(3) by (simp add: heap_rx_inv_def)
  note blocks = take_keeps_blocks [OF assms(1) this _ q]
  have "unat (rx_max_size C) \<noteq> 0" using assms(2) by (simp add: unat_eq_zero word_neq_0_conv)
  then show ?thesis using assms(3,4) q blocks
    by (auto simp: mmhal_wlan_alloc_mmpkt_for_rx_def heap_rx_inv_def Let_def
        split: if_splits option.splits)
qed

lemma free_rx_keeps_rx:
  assumes "mmpkt_lists_ok L cont" "0 < rx_max_size C" "heap_rx_inv cont C s ps" "i < length ps"
  shows "heap_rx_inv cont C (heap_free_rx L s (ps ! i)) (remove_at i ps)"
proof (cases "ps ! i")
  case (Rx_Command b p)
  then have b: "mset (cont (rx_command_pool_free_list s)) + add_mset b (rx_blocks (remove_at i ps)) =
      mset [0, unat (rx_max_size C)]"
    using assms(3) rx_held_remove(1) [OF assms(4)] by (simp add: heap_rx_inv_def)
  have "unat (rx_max_size C) \<noteq> 0" using assms(2) by (simp add: unat_eq_zero word_neq_0_conv)
  with return_keeps_blocks [OF assms(1) b] have "mset (cont (mmpkt_list_append L (rx_command_pool_free_list s) b)) +
      rx_blocks (remove_at i ps) = {#0, unat (rx_max_size C)#}" by simp
  then show ?thesis using assms(3) Rx_Command rx_held_remove(2) [OF assms(4)]
    by (simp add: heap_free_rx_def rx_command_reserved_free_def heap_rx_inv_def)
qed (use assms rx_held_remove [OF assms(4)] in
    \<open>auto simp: heap_free_rx_def rx_pkt_free_def heap_rx_inv_def\<close>)

lemma tx_ops_frame:
  "mmhal_wlan_alloc_mmpkt_for_tx L C s ok c a b m = (s', r, k) \<Longrightarrow> heap_rx_inv cont C s' qs = heap_rx_inv cont C s qs"
  "heap_free_tx L C s p = Some (s', k) \<Longrightarrow> heap_rx_inv cont C s' qs = heap_rx_inv cont C s qs"
  by (auto simp: mmhal_wlan_alloc_mmpkt_for_tx_def tx_command_pool_alloc_def heap_free_tx_def
      tx_command_reserved_free_def tx_data_pool_pkt_free_def heap_rx_inv_def Let_def
      split: if_splits option.splits tx_pkt.splits prod.splits)

lemma rx_ops_frame:
  "mmhal_wlan_alloc_mmpkt_for_rx L C s ok c cap m = (s', r) \<Longrightarrow> heap_tx_inv cont C s' ps = heap_tx_inv cont C s ps"
  "mmhal_wlan_alloc_mmpkt_for_rx L C s ok c cap m = (s', r) \<Longrightarrow>
     tx_data_pool_tx_paused s' = tx_data_pool_tx_paused s"
  "heap_tx_inv cont C (heap_free_rx L s p) ps = heap_tx_inv cont C s ps"
  "tx_data_pool_tx_paused (heap_free_rx L s p) = tx_data_pool_tx_paused s"
  by (auto simp: mmhal_wlan_alloc_mmpkt_for_rx_def heap_free_rx_def rx_command_reserved_free_def
      rx_pkt_free_def heap_tx_inv_def Let_def split: if_splits option.splits rx_pkt.splits prod.splits)

lemma heap_system_step_inv:
  assumes "heap_system_inv L cont C y"
  shows "heap_system_inv L cont C (fst (heap_system_step L C y e))" (is ?keeps)
    and "snd (heap_system_step L C y e) =
      (if tx_data_pool_tx_paused (hs_mem (fst (heap_system_step L C y e))) \<noteq>
          tx_data_pool_tx_paused (hs_mem y) then 1 else 0)" (is ?calls)
proof -
  have L: "mmpkt_lists_ok L cont" and N: "3 \<le> tx_pool_n_blocks C" and R: "0 < rx_max_size C"
    and tx: "heap_tx_inv cont C (hs_mem y) (hs_tx y)" and rx: "heap_rx_inv cont C (hs_mem y) (hs_rx y)"
    using assms by (auto simp: heap_system_inv_def)
  have "?keeps \<and> ?calls"
  proof (cases e)
    case (Tx_Alloc ok c a b m)
    obtain s' r k where "mmhal_wlan_alloc_mmpkt_for_tx L C (hs_mem y) ok c a b m = (s', r, k)"
      by (rule prod_cases3)
    note this alloc_tx_keeps_tx [OF L N tx this] tx_ops_frame(1) [OF this, of cont "hs_rx y"]
    then show ?thesis using Tx_Alloc L N R rx by (simp add: heap_system_step_def heap_system_inv_def)
  next
    case (Tx_Free i)
    show ?thesis
    proof (cases "i < length (hs_tx y)")
      case True
      obtain s' k where f: "heap_free_tx L C (hs_mem y) (hs_tx y ! i) = Some (s', k)"
        "heap_tx_inv cont C s' (remove_at i (hs_tx y))"
        "k = (if tx_data_pool_tx_paused s' \<noteq> tx_data_pool_tx_paused (hs_mem y) then 1 else 0)"
        by (rule free_tx_keeps_tx [OF L N tx True])
      then show ?thesis using Tx_Free True L N R rx tx_ops_frame(2) [OF f(1), of cont "hs_rx y"]
        by (simp add: heap_system_step_def heap_system_inv_def)
    qed (use Tx_Free assms in \<open>simp add: heap_system_step_def\<close>)
  next
    case (Rx_Alloc ok c cap m)
    obtain s' r where "mmhal_wlan_alloc_mmpkt_for_rx L C (hs_mem y) ok c cap m = (s', r)"
      by (rule prod.exhaust)
    note this alloc_rx_keeps_rx [OF L R rx this] rx_ops_frame(1) [OF this, of cont "hs_tx y"]
      rx_ops_frame(2) [OF this]
    then show ?thesis using Rx_Alloc L N R tx by (simp add: heap_system_step_def heap_system_inv_def)
  next
    case (Rx_Free i)
    then show ?thesis using assms L N R tx free_rx_keeps_rx [OF L R rx]
      by (simp add: heap_system_step_def heap_system_inv_def rx_ops_frame(3,4))
  qed
  then show ?keeps ?calls by auto
qed


lemma heap_idle_ready:
  "heap_system_inv L cont C y \<Longrightarrow> tx_data_held (hs_tx y) = 0 \<Longrightarrow> \<not> tx_data_pool_tx_paused (hs_mem y)"
  by (auto simp: heap_system_inv_def heap_tx_inv_def Let_def)

interpretation heap_pool: tx_pool "heap_system_step L C" "heap_system_inv L cont C"
  "\<lambda>y. tx_data_pool_tx_paused (hs_mem y)" "\<lambda>y. tx_data_held (hs_tx y)"
  by unfold_locales (rule heap_system_step_inv heap_idle_ready; assumption)+

definition heap_system_init :: "('l, nat) mmpkt_lists \<Rightarrow> pktmem_config \<Rightarrow> 'l heap_system" where
  "heap_system_init L C = \<lparr>hs_mem = pktmem_heap_init L C, hs_tx = [], hs_rx = []\<rparr>"

lemma heap_init_inv:
  assumes "mmpkt_lists_ok L cont" "3 \<le> tx_pool_n_blocks C" "0 < rx_max_size C"
  shows "heap_system_inv L cont C (heap_system_init L C)"
proof -
  have "0 < unat (rx_max_size C)" using assms(3) by (simp add: unat_gt_0 word_neq_0_conv)
  then show ?thesis using assms pool_fill_cont [OF assms(1), of 256 2]
      pool_fill_cont [OF assms(1), of "unat (rx_max_size C)" 2]
    by (simp add: heap_system_inv_def heap_system_init_def pktmem_heap_init_def heap_tx_inv_def
        heap_rx_inv_def tx_data_held_def rx_data_held_def tx_blocks_def rx_blocks_def upt_rec numeral_2_eq_2)
qed

section \<open>Properties\<close>



definition example_config :: pktmem_config where
  "example_config = \<lparr>tx_pool_n_blocks = 3, rx_pool_n_blocks = 2, rx_max_size = 1664, pkt_hdr = 28\<rparr>"

definition example_tx :: pktmem_event where
  "example_tx = Tx_Alloc True MMHAL_WLAN_PKT_DATA_TID0 32 100 8"

lemma example_config_ok [simp]:
  "tx_pool_n_blocks example_config = 3" "0 < rx_max_size example_config"
  by (simp_all add: example_config_def)



text \<open>Shutting down the heap packet memory with nothing allocated waits the whole second: the
  loop leaves early only when both command pools are empty, so 100 sleeps of 10 ms pass although
  every packet has been returned, and no leak is reported.\<close>

theorem heap_deinit_idle_waits:
  assumes "mmpkt_lists_ok L cont" "0 < rx_max_size C"
  shows "mmhal_wlan_pktmem_deinit L (\<lambda>ii. pktmem_heap_init L C) = (100, [])"
proof -
  have n: "mmpkt_list_length L (tx_command_pool_free_list (pktmem_heap_init L C)) = 2"
    "mmpkt_list_length L (rx_command_pool_free_list (pktmem_heap_init L C)) = 2"
    using lists_laws(3) [OF assms(1)] pool_fill_cont [OF assms(1), of 256 2]
      pool_fill_cont [OF assms(1), of "unat (rx_max_size C)" 2] assms(2)
    by (simp_all add: pktmem_heap_init_def unat_gt_0 word_neq_0_conv)
  have "\<not> deinit_settled L (pktmem_heap_init L C)"
    by (simp add: deinit_settled_def n) (simp add: pktmem_heap_init_def)
  then have "deinit_wait (deinit_settled L) (\<lambda>ii. pktmem_heap_init L C) ii m = m" for ii m
    by (induction m arbitrary: ii) simp_all
  then show ?thesis by (simp add: mmhal_wlan_pktmem_deinit_def n Let_def) (simp add: pktmem_heap_init_def)
qed

theorem heap_deinit_idle_waits_witness:
  "mmhal_wlan_pktmem_deinit hol_lists (\<lambda>ii. pktmem_heap_init hol_lists example_config) = (100, [])"
  by (rule heap_deinit_idle_waits [OF hol_lists_ok]) (simp add: example_config_def)

end
