(* ===== verification/Pktmem_Static.thy ===== *)
theory Pktmem_Static
  imports Pktmem_Heap
begin

text \<open>
  The packet memory in static blocks, \<^verbatim>\<open>framework/src/mmpktmem/mmpktmem_static.c\<close>: four pools, for
  commands and data in each direction, each with a free list, and flow control on the transmit data
  pool. The names of the code carry the suffix \<open>_static\<close> where
  \<^verbatim>\<open>mmpktmem_heap.c\<close> has the same ones. A packet is the offset of its block in the pool and its header.
\<close>

section \<open>State and operations\<close>

record 'l pktmem_static =
  sp_paused :: bool
  sp_tx_command :: 'l
  sp_tx_data :: 'l
  sp_rx_command :: 'l
  sp_rx_data :: 'l
  sp_tx_flow_control_cb :: bool

record static_config = pktmem_config + tx_max_size :: u32

definition pktmem_static_init :: "('l, nat) mmpkt_lists \<Rightarrow> static_config \<Rightarrow> bool \<Rightarrow> 'l pktmem_static" where
  "pktmem_static_init L C cb =
     \<lparr>sp_paused = False,
      sp_tx_command = pool_fill L 256 2,
      sp_tx_data = pool_fill L (unat (tx_max_size C)) (tx_pool_n_blocks C),
      sp_rx_command = pool_fill L (unat (rx_max_size C)) 2,
      sp_rx_data = pool_fill L (unat (rx_max_size C)) (rx_pool_n_blocks C),
      sp_tx_flow_control_cb = cb\<rparr>"

definition tx_command_free :: "('l, nat) mmpkt_lists \<Rightarrow> 'l pktmem_static \<Rightarrow> nat \<Rightarrow> 'l pktmem_static" where
  "tx_command_free L s pkt = s\<lparr>sp_tx_command := mmpkt_list_append L (sp_tx_command s) pkt\<rparr>"

definition tx_data_free_locked ::
  "('l, nat) mmpkt_lists \<Rightarrow> 'l pktmem_static \<Rightarrow> nat \<Rightarrow> 'l pktmem_static \<times> bool" where
  "tx_data_free_locked L s pkt =
     (let s = s\<lparr>sp_tx_data := mmpkt_list_append L (sp_tx_data s) pkt\<rparr> in
      if sp_paused s \<and> mmpkt_list_length L (sp_tx_data s) \<ge> 2
        then (s\<lparr>sp_paused := False\<rparr>, True) else (s, False))"

definition tx_data_free ::
  "('l, nat) mmpkt_lists \<Rightarrow> 'l pktmem_static \<Rightarrow> nat \<Rightarrow> 'l pktmem_static \<times> nat" where
  "tx_data_free L s pkt = (let (s, invoke_fc_callback) = tx_data_free_locked L s pkt in
     (s, if invoke_fc_callback \<and> sp_tx_flow_control_cb s then 1 else 0))"

text \<open>The list each allocator takes from is also the one \<open>alloc_pkt_from_list\<close> returns a block to.\<close>

definition tx_command_pool_alloc_static ::
  "('l, nat) mmpkt_lists \<Rightarrow> static_config \<Rightarrow> 'l pktmem_static \<Rightarrow> u32 \<Rightarrow> u32 \<Rightarrow> u32
     \<Rightarrow> 'l pktmem_static \<times> (nat \<times> mmpkt) option" where
  "tx_command_pool_alloc_static L C s space_at_start space_at_end metadata_length =
     (let (l, r) = alloc_pkt_from_list L (pkt_hdr C) (sp_tx_command s) 256 (mmpkt_list_append L)
            space_at_start space_at_end metadata_length in (s\<lparr>sp_tx_command := l\<rparr>, r))"

definition tx_data_pool_alloc ::
  "('l, nat) mmpkt_lists \<Rightarrow> static_config \<Rightarrow> 'l pktmem_static \<Rightarrow> u32 \<Rightarrow> u32 \<Rightarrow> u32
     \<Rightarrow> 'l pktmem_static \<times> (nat \<times> mmpkt) option" where
  "tx_data_pool_alloc L C s space_at_start space_at_end metadata_length =
     (let (l, r) = alloc_pkt_from_list L (pkt_hdr C) (sp_tx_data s) (tx_max_size C) (mmpkt_list_append L)
            space_at_start space_at_end metadata_length in (s\<lparr>sp_tx_data := l\<rparr>, r))"

definition update_tx_flow_control_state ::
  "('l, nat) mmpkt_lists \<Rightarrow> 'l pktmem_static \<Rightarrow> 'l pktmem_static \<times> bool" where
  "update_tx_flow_control_state L s =
     (if \<not> sp_paused s \<and> mmpkt_list_length L (sp_tx_data s) \<le> 1
        then (s\<lparr>sp_paused := True\<rparr>, True) else (s, False))"

datatype static_pkt = Command_Block nat mmpkt | Data_Block nat mmpkt

definition alloc_for_tx_static ::
  "('l, nat) mmpkt_lists \<Rightarrow> static_config \<Rightarrow> 'l pktmem_static \<Rightarrow> pkt_class \<Rightarrow> u32 \<Rightarrow> u32 \<Rightarrow> u32
     \<Rightarrow> 'l pktmem_static \<times> static_pkt option \<times> nat" where
  "alloc_for_tx_static L C s pkt_class space_at_start space_at_end metadata_length =
     (let (s, cmd) = (if pkt_class = MMHAL_WLAN_PKT_COMMAND
            then tx_command_pool_alloc_static L C s space_at_start space_at_end metadata_length
            else (s, None)) in
      case cmd of Some (b, p) \<Rightarrow> (s, Some (Command_Block b p), 0)
      | None \<Rightarrow>
        (let (s, r) = tx_data_pool_alloc L C s space_at_start space_at_end metadata_length;
             (s, invoke_fc_callback) = update_tx_flow_control_state L s in
         (s, map_option (\<lambda>(b, p). Data_Block b p) r,
          if invoke_fc_callback \<and> sp_tx_flow_control_cb s then 1 else 0)))"

definition flow_control_state_static :: "'l pktmem_static \<Rightarrow> tx_flow" where
  "flow_control_state_static s = (if sp_paused s then MMWLAN_TX_PAUSED else MMWLAN_TX_READY)"

definition rx_command_free :: "('l, nat) mmpkt_lists \<Rightarrow> 'l pktmem_static \<Rightarrow> nat \<Rightarrow> 'l pktmem_static" where
  "rx_command_free L s pkt = s\<lparr>sp_rx_command := mmpkt_list_append L (sp_rx_command s) pkt\<rparr>"

definition rx_data_free :: "('l, nat) mmpkt_lists \<Rightarrow> 'l pktmem_static \<Rightarrow> nat \<Rightarrow> 'l pktmem_static" where
  "rx_data_free L s pkt = s\<lparr>sp_rx_data := mmpkt_list_append L (sp_rx_data s) pkt\<rparr>"

definition rx_command_pool_alloc ::
  "('l, nat) mmpkt_lists \<Rightarrow> static_config \<Rightarrow> 'l pktmem_static \<Rightarrow> u32 \<Rightarrow> u32 \<Rightarrow> u32
     \<Rightarrow> 'l pktmem_static \<times> (nat \<times> mmpkt) option" where
  "rx_command_pool_alloc L C s space_at_start space_at_end metadata_length =
     (let (l, r) = alloc_pkt_from_list L (pkt_hdr C) (sp_rx_command s) (rx_max_size C) (mmpkt_list_append L)
            space_at_start space_at_end metadata_length in (s\<lparr>sp_rx_command := l\<rparr>, r))"

definition rx_data_pool_alloc ::
  "('l, nat) mmpkt_lists \<Rightarrow> static_config \<Rightarrow> 'l pktmem_static \<Rightarrow> u32 \<Rightarrow> u32 \<Rightarrow> u32
     \<Rightarrow> 'l pktmem_static \<times> (nat \<times> mmpkt) option" where
  "rx_data_pool_alloc L C s space_at_start space_at_end metadata_length =
     (let (l, r) = alloc_pkt_from_list L (pkt_hdr C) (sp_rx_data s) (rx_max_size C) (mmpkt_list_append L)
            space_at_start space_at_end metadata_length in (s\<lparr>sp_rx_data := l\<rparr>, r))"

definition alloc_for_rx_static ::
  "('l, nat) mmpkt_lists \<Rightarrow> static_config \<Rightarrow> 'l pktmem_static \<Rightarrow> pkt_class \<Rightarrow> u32 \<Rightarrow> u32
     \<Rightarrow> 'l pktmem_static \<times> static_pkt option" where
  "alloc_for_rx_static L C s pkt_class capacity metadata_length =
     (let (s, cmd) = (if pkt_class = MMHAL_WLAN_PKT_COMMAND
            then rx_command_pool_alloc L C s 0 capacity metadata_length else (s, None)) in
      case cmd of Some (b, p) \<Rightarrow> (s, Some (Command_Block b p))
      | None \<Rightarrow> (let (s, r) = rx_data_pool_alloc L C s 0 capacity metadata_length in
          (s, map_option (\<lambda>(b, p). Data_Block b p) r)))"

definition deinit_settled_static :: "('l, nat) mmpkt_lists \<Rightarrow> static_config \<Rightarrow> 'l pktmem_static \<Rightarrow> bool" where
  "deinit_settled_static L C s \<longleftrightarrow>
     mmpkt_list_length L (sp_tx_command s) \<noteq> 2 \<or>
     mmpkt_list_length L (sp_tx_data s) \<noteq> tx_pool_n_blocks C \<or>
     mmpkt_list_length L (sp_rx_command s) \<noteq> 2 \<or>
     mmpkt_list_length L (sp_rx_data s) \<noteq> rx_pool_n_blocks C"

definition leak :: "nat \<Rightarrow> nat \<Rightarrow> string \<Rightarrow> (int \<times> string) list" where
  "leak n_blocks len pool = (if len \<noteq> n_blocks then [(int n_blocks - int len, pool)] else [])"

definition pktmem_static_deinit ::
  "('l, nat) mmpkt_lists \<Rightarrow> static_config \<Rightarrow> (nat \<Rightarrow> 'l pktmem_static) \<Rightarrow> nat \<times> (int \<times> string) list" where
  "pktmem_static_deinit L C env =
     (let sleeps = deinit_wait (deinit_settled_static L C) env 0 100; s = env sleeps in
      (sleeps,
       leak 2 (mmpkt_list_length L (sp_tx_command s)) ''tx cmd'' @
       leak (tx_pool_n_blocks C) (mmpkt_list_length L (sp_tx_data s)) ''tx data'' @
       leak 2 (mmpkt_list_length L (sp_rx_command s)) ''rx'' @
       leak (rx_pool_n_blocks C) (mmpkt_list_length L (sp_rx_data s)) ''rx''))"

section \<open>The memory and the packets its clients hold\<close>

record 'l static_system =
  ss_mem :: "'l pktmem_static"
  ss_tx :: "static_pkt list"
  ss_rx :: "static_pkt list"

definition static_free_tx ::
  "('l, nat) mmpkt_lists \<Rightarrow> 'l pktmem_static \<Rightarrow> static_pkt \<Rightarrow> 'l pktmem_static \<times> nat" where
  "static_free_tx L s p = (case p of Command_Block b _ \<Rightarrow> (tx_command_free L s b, 0)
     | Data_Block b _ \<Rightarrow> tx_data_free L s b)"

definition static_free_rx ::
  "('l, nat) mmpkt_lists \<Rightarrow> 'l pktmem_static \<Rightarrow> static_pkt \<Rightarrow> 'l pktmem_static" where
  "static_free_rx L s p = (case p of Command_Block b _ \<Rightarrow> rx_command_free L s b
     | Data_Block b _ \<Rightarrow> rx_data_free L s b)"

definition static_system_step ::
  "('l, nat) mmpkt_lists \<Rightarrow> static_config \<Rightarrow> 'l static_system \<Rightarrow> pktmem_event \<Rightarrow> 'l static_system \<times> nat" where
  "static_system_step L C y e = (case e of
     Tx_Alloc ok c a b m \<Rightarrow>
       (let (s, r, k) = alloc_for_tx_static L C (ss_mem y) c a b m in
        (y\<lparr>ss_mem := s, ss_tx := ss_tx y @ (case r of None \<Rightarrow> [] | Some p \<Rightarrow> [p])\<rparr>, k))
   | Tx_Free i \<Rightarrow>
       (if i < length (ss_tx y) then
          (let (s, k) = static_free_tx L (ss_mem y) (ss_tx y ! i) in
           (y\<lparr>ss_mem := s, ss_tx := remove_at i (ss_tx y)\<rparr>, k))
        else (y, 0))
   | Rx_Alloc ok c cap m \<Rightarrow>
       (let (s, r) = alloc_for_rx_static L C (ss_mem y) c cap m in
        (y\<lparr>ss_mem := s, ss_rx := ss_rx y @ (case r of None \<Rightarrow> [] | Some p \<Rightarrow> [p])\<rparr>, 0))
   | Rx_Free i \<Rightarrow>
       (if i < length (ss_rx y)
        then (y\<lparr>ss_mem := static_free_rx L (ss_mem y) (ss_rx y ! i), ss_rx := remove_at i (ss_rx y)\<rparr>, 0)
        else (y, 0)))"

definition command_blocks :: "static_pkt list \<Rightarrow> nat multiset" where
  "command_blocks ps = sum_list (map (\<lambda>p. case p of Command_Block b _ \<Rightarrow> {#b#} | _ \<Rightarrow> {#}) ps)"

definition data_blocks :: "static_pkt list \<Rightarrow> nat multiset" where
  "data_blocks ps = sum_list (map (\<lambda>p. case p of Data_Block b _ \<Rightarrow> {#b#} | _ \<Rightarrow> {#}) ps)"

definition pool_blocks :: "u32 \<Rightarrow> nat \<Rightarrow> nat list" where
  "pool_blocks blk n = map (\<lambda>ii. unat blk * ii) [0..<n]"

definition static_tx_inv ::
  "('l \<Rightarrow> nat list) \<Rightarrow> static_config \<Rightarrow> 'l pktmem_static \<Rightarrow> static_pkt list \<Rightarrow> bool" where
  "static_tx_inv cont C s ps \<longleftrightarrow> sp_tx_flow_control_cb s \<and>
     (sp_paused s \<longleftrightarrow> length (cont (sp_tx_data s)) \<le> 1) \<and>
     mset (cont (sp_tx_command s)) + command_blocks ps = mset (pool_blocks 256 2) \<and>
     mset (cont (sp_tx_data s)) + data_blocks ps = mset (pool_blocks (tx_max_size C) (tx_pool_n_blocks C))"

definition static_rx_inv ::
  "('l \<Rightarrow> nat list) \<Rightarrow> static_config \<Rightarrow> 'l pktmem_static \<Rightarrow> static_pkt list \<Rightarrow> bool" where
  "static_rx_inv cont C s ps \<longleftrightarrow>
     mset (cont (sp_rx_command s)) + command_blocks ps = mset (pool_blocks (rx_max_size C) 2) \<and>
     mset (cont (sp_rx_data s)) + data_blocks ps = mset (pool_blocks (rx_max_size C) (rx_pool_n_blocks C))"

definition static_system_inv ::
  "('l, nat) mmpkt_lists \<Rightarrow> ('l \<Rightarrow> nat list) \<Rightarrow> static_config \<Rightarrow> 'l static_system \<Rightarrow> bool" where
  "static_system_inv L cont C y \<longleftrightarrow>
     mmpkt_lists_ok L cont \<and> 2 \<le> tx_pool_n_blocks C \<and> 0 < rx_max_size C \<and> 0 < tx_max_size C \<and>
     static_tx_inv cont C (ss_mem y) (ss_tx y) \<and> static_rx_inv cont C (ss_mem y) (ss_rx y)"

lemma distinct_pool_blocks [simp]: "0 < blk \<Longrightarrow> distinct (pool_blocks blk n)"
  by (simp add: pool_blocks_def distinct_map inj_on_def unat_eq_zero word_neq_0_conv)

lemma blocks_append [simp]:
  "command_blocks (ps @ [Command_Block b p]) = add_mset b (command_blocks ps)"
  "command_blocks (ps @ [Data_Block b p]) = command_blocks ps"
  "data_blocks (ps @ [Command_Block b p]) = data_blocks ps"
  "data_blocks (ps @ [Data_Block b p]) = add_mset b (data_blocks ps)"
  by (simp_all add: command_blocks_def data_blocks_def)

lemma blocks_remove:
  "i < length ps \<Longrightarrow> command_blocks ps =
     (case ps ! i of Command_Block b _ \<Rightarrow> {#b#} | _ \<Rightarrow> {#}) + command_blocks (remove_at i ps)"
  "i < length ps \<Longrightarrow> data_blocks ps =
     (case ps ! i of Data_Block b _ \<Rightarrow> {#b#} | _ \<Rightarrow> {#}) + data_blocks (remove_at i ps)"
  unfolding command_blocks_def data_blocks_def by (rule sum_list_remove_at, assumption)+

lemma length_part: "mset xs + M = mset ys \<Longrightarrow> length xs = length ys - size M"
  by (metis add_diff_cancel_right' size_mset size_union)


lemmas static_alloc_defs = alloc_for_tx_static_def tx_command_pool_alloc_static_def tx_data_pool_alloc_def
  update_tx_flow_control_state_def alloc_for_rx_static_def rx_command_pool_alloc_def rx_data_pool_alloc_def

lemmas static_free_defs = static_free_tx_def static_free_rx_def tx_command_free_def tx_data_free_def
  tx_data_free_locked_def rx_command_free_def rx_data_free_def

lemma static_alloc_tx:
  assumes L: "mmpkt_lists_ok L cont" and C: "0 < tx_max_size C" and inv: "static_tx_inv cont C s ps"
    and r: "alloc_for_tx_static L C s c a b m = (s', r, k)"
  shows "static_tx_inv cont C s' (ps @ (case r of None \<Rightarrow> [] | Some p \<Rightarrow> [p]))" (is ?inv)
    and "k = (if sp_paused s' \<noteq> sp_paused s then 1 else 0)" (is ?calls)
    and "static_rx_inv cont C s' qs = static_rx_inv cont C s qs" (is ?frame)
proof -
  have cmd: "mset (cont (sp_tx_command s)) + command_blocks ps = mset (pool_blocks 256 2)"
    and data: "mset (cont (sp_tx_data s)) + data_blocks ps = mset (pool_blocks (tx_max_size C) (tx_pool_n_blocks C))"
    using inv by (auto simp: static_tx_inv_def)
  obtain l1 q1 where q1: "alloc_pkt_from_list L (pkt_hdr C) (sp_tx_command s) 256 (mmpkt_list_append L) a b m = (l1, q1)"
    by (rule prod.exhaust)
  obtain l2 q2 where q2: "alloc_pkt_from_list L (pkt_hdr C) (sp_tx_data s) (tx_max_size C) (mmpkt_list_append L) a b m = (l2, q2)"
    by (rule prod.exhaust)
  note b1 = take_keeps_blocks [OF L cmd _ q1, simplified]
  note b2 = take_keeps_blocks [OF L data distinct_pool_blocks [OF C] q2]
  have len: "length (cont l2) \<le> length (cont (sp_tx_data s))"
    using length_part [OF b2] length_part [OF data] by (simp add: algebra_simps)
  show ?inv ?calls ?frame using r inv q1 q2 b1 b2 len lists_laws(3) [OF L]
    by (auto simp: static_alloc_defs static_tx_inv_def static_rx_inv_def Let_def
        split: if_splits option.splits)
qed


lemma static_free_tx:
  assumes L: "mmpkt_lists_ok L cont" and C: "0 < tx_max_size C" and inv: "static_tx_inv cont C s ps"
    and i: "i < length ps" and r: "static_free_tx L s (ps ! i) = (s', k)"
  shows "static_tx_inv cont C s' (remove_at i ps)" (is ?inv)
    and "k = (if sp_paused s' \<noteq> sp_paused s then 1 else 0)" (is ?calls)
    and "static_rx_inv cont C s' qs = static_rx_inv cont C s qs" (is ?frame)
proof -
  have cmd: "mset (cont (sp_tx_command s)) + command_blocks ps = mset (pool_blocks 256 2)"
    and data: "mset (cont (sp_tx_data s)) + data_blocks ps = mset (pool_blocks (tx_max_size C) (tx_pool_n_blocks C))"
    using inv by (auto simp: static_tx_inv_def)
  have "?inv \<and> ?calls \<and> ?frame"
  proof (cases "ps ! i")
    case (Command_Block b p)
    note held = blocks_remove [OF i, unfolded Command_Block, simplified]
    from return_keeps_blocks [OF L cmd [unfolded held(1)] distinct_pool_blocks]
    show ?thesis using r Command_Block inv held by (auto simp: static_free_defs static_tx_inv_def static_rx_inv_def)
  next
    case (Data_Block b p)
    note held = blocks_remove [OF i, unfolded Data_Block, simplified]
    note b2 = return_keeps_blocks [OF L data [unfolded held(2)] distinct_pool_blocks [OF C]]
    have "length (cont (mmpkt_list_append L (sp_tx_data s) b)) = Suc (length (cont (sp_tx_data s)))"
      using distinct_parts(2) [OF data distinct_pool_blocks [OF C], of b] held(2) lists_laws(2) [OF L, of b "sp_tx_data s"]
      by simp
    then show ?thesis using r Data_Block inv held b2 lists_laws(3) [OF L]
      by (auto simp: static_free_defs static_tx_inv_def static_rx_inv_def Let_def split: if_splits)
        (cases "cont (sp_tx_data s)"; simp)+
  qed
  then show ?inv ?calls ?frame by auto
qed

lemma static_alloc_rx:
  assumes L: "mmpkt_lists_ok L cont" and C: "0 < rx_max_size C" and inv: "static_rx_inv cont C s ps"
    and r: "alloc_for_rx_static L C s c cap m = (s', r)"
  shows "static_rx_inv cont C s' (ps @ (case r of None \<Rightarrow> [] | Some p \<Rightarrow> [p]))" (is ?inv)
    and "static_tx_inv cont C s' qs = static_tx_inv cont C s qs" "sp_paused s' = sp_paused s" (is ?frame)
proof -
  have cmd: "mset (cont (sp_rx_command s)) + command_blocks ps = mset (pool_blocks (rx_max_size C) 2)"
    and data: "mset (cont (sp_rx_data s)) + data_blocks ps = mset (pool_blocks (rx_max_size C) (rx_pool_n_blocks C))"
    using inv by (auto simp: static_rx_inv_def)
  obtain l1 q1 where q1: "alloc_pkt_from_list L (pkt_hdr C) (sp_rx_command s) (rx_max_size C) (mmpkt_list_append L) 0 cap m = (l1, q1)"
    by (rule prod.exhaust)
  obtain l2 q2 where q2: "alloc_pkt_from_list L (pkt_hdr C) (sp_rx_data s) (rx_max_size C) (mmpkt_list_append L) 0 cap m = (l2, q2)"
    by (rule prod.exhaust)
  note b1 = take_keeps_blocks [OF L cmd distinct_pool_blocks [OF C] q1]
  note b2 = take_keeps_blocks [OF L data distinct_pool_blocks [OF C] q2]
  show ?inv "static_tx_inv cont C s' qs = static_tx_inv cont C s qs" ?frame
    using r inv q1 q2 b1 b2
    by (auto simp: static_alloc_defs static_tx_inv_def static_rx_inv_def Let_def
        split: if_splits option.splits)
qed

lemma static_free_rx:
  assumes L: "mmpkt_lists_ok L cont" and C: "0 < rx_max_size C" and inv: "static_rx_inv cont C s ps"
    and i: "i < length ps"
  shows "static_rx_inv cont C (static_free_rx L s (ps ! i)) (remove_at i ps)"
proof (cases "ps ! i")
  case (Command_Block b p)
  note held = blocks_remove [OF i, unfolded Command_Block, simplified]
  have "mset (cont (sp_rx_command s)) + add_mset b (command_blocks (remove_at i ps)) = mset (pool_blocks (rx_max_size C) 2)"
    using inv held by (simp add: static_rx_inv_def)
  from return_keeps_blocks [OF L this distinct_pool_blocks [OF C]]
  show ?thesis using Command_Block inv held by (auto simp: static_free_defs static_rx_inv_def)
next
  case (Data_Block b p)
  note held = blocks_remove [OF i, unfolded Data_Block, simplified]
  have "mset (cont (sp_rx_data s)) + add_mset b (data_blocks (remove_at i ps)) =
      mset (pool_blocks (rx_max_size C) (rx_pool_n_blocks C))"
    using inv held by (simp add: static_rx_inv_def)
  from return_keeps_blocks [OF L this distinct_pool_blocks [OF C]]
  show ?thesis using Data_Block inv held by (auto simp: static_free_defs static_rx_inv_def)
qed

lemma static_free_rx_frame [simp]:
  "static_tx_inv cont C (static_free_rx L s p) ps = static_tx_inv cont C s ps"
  "sp_paused (static_free_rx L s p) = sp_paused s"
  by (simp_all add: static_free_defs static_tx_inv_def split: static_pkt.splits)

lemma static_system_step_inv:
  assumes "static_system_inv L cont C y"
  shows "static_system_inv L cont C (fst (static_system_step L C y e))" (is ?keeps)
    and "snd (static_system_step L C y e) =
      (if sp_paused (ss_mem (fst (static_system_step L C y e))) \<noteq> sp_paused (ss_mem y) then 1 else 0)" (is ?calls)
proof -
  have L: "mmpkt_lists_ok L cont" and R: "0 < rx_max_size C" and T: "0 < tx_max_size C"
    and tx: "static_tx_inv cont C (ss_mem y) (ss_tx y)" and rx: "static_rx_inv cont C (ss_mem y) (ss_rx y)"
    using assms by (auto simp: static_system_inv_def)
  have "?keeps \<and> ?calls"
  proof (cases e)
    case (Tx_Alloc ok c a b m)
    obtain s' r k where "alloc_for_tx_static L C (ss_mem y) c a b m = (s', r, k)" by (rule prod_cases3)
    note this static_alloc_tx(1,2) [OF L T tx this] static_alloc_tx(3) [OF L T tx this, of "ss_rx y"]
    then show ?thesis using Tx_Alloc assms by (simp add: static_system_step_def static_system_inv_def)
  next
    case (Tx_Free i)
    obtain s' k where r: "static_free_tx L (ss_mem y) (ss_tx y ! i) = (s', k)" by (rule prod.exhaust)
    show ?thesis using Tx_Free assms r static_free_tx(1,2) [OF L T tx _ r] static_free_tx(3) [OF L T tx _ r, of "ss_rx y"]
      by (simp add: static_system_step_def static_system_inv_def)
  next
    case (Rx_Alloc ok c cap m)
    obtain s' r where "alloc_for_rx_static L C (ss_mem y) c cap m = (s', r)" by (rule prod.exhaust)
    note this static_alloc_rx(1,3) [OF L R rx this] static_alloc_rx(2) [OF L R rx this, of "ss_tx y"]
    then show ?thesis using Rx_Alloc assms by (simp add: static_system_step_def static_system_inv_def)
  next
    case (Rx_Free i)
    then show ?thesis using assms static_free_rx [OF L R rx]
      by (simp add: static_system_step_def static_system_inv_def)
  qed
  then show ?keeps ?calls by auto
qed

lemma static_idle_ready:
  assumes "static_system_inv L cont C y" "size (data_blocks (ss_tx y)) = 0"
  shows "\<not> sp_paused (ss_mem y)"
proof -
  have "mset (cont (sp_tx_data (ss_mem y))) + data_blocks (ss_tx y) =
      mset (pool_blocks (tx_max_size C) (tx_pool_n_blocks C))"
    using assms(1) by (simp add: static_system_inv_def static_tx_inv_def)
  from length_part [OF this] have "length (cont (sp_tx_data (ss_mem y))) = tx_pool_n_blocks C"
    using assms(2) by (simp add: pool_blocks_def)
  then show ?thesis using assms by (simp add: static_system_inv_def static_tx_inv_def)
qed

interpretation static_pool: tx_pool "static_system_step L C" "static_system_inv L cont C"
  "\<lambda>y. sp_paused (ss_mem y)" "\<lambda>y. size (data_blocks (ss_tx y))"
  by unfold_locales (rule static_system_step_inv static_idle_ready; assumption)+

definition static_system_init :: "('l, nat) mmpkt_lists \<Rightarrow> static_config \<Rightarrow> 'l static_system" where
  "static_system_init L C = \<lparr>ss_mem = pktmem_static_init L C True, ss_tx = [], ss_rx = []\<rparr>"

lemma static_pools_full:
  assumes "mmpkt_lists_ok L cont" "0 < rx_max_size C" "0 < tx_max_size C"
  shows "cont (sp_tx_command (pktmem_static_init L C cb)) = pool_blocks 256 2"
    "cont (sp_tx_data (pktmem_static_init L C cb)) = pool_blocks (tx_max_size C) (tx_pool_n_blocks C)"
    "cont (sp_rx_command (pktmem_static_init L C cb)) = pool_blocks (rx_max_size C) 2"
    "cont (sp_rx_data (pktmem_static_init L C cb)) = pool_blocks (rx_max_size C) (rx_pool_n_blocks C)"
  using assms pool_fill_cont [OF assms(1)]
  by (simp_all add: pktmem_static_init_def pool_blocks_def unat_gt_0 word_neq_0_conv)

lemma static_init_inv:
  assumes "mmpkt_lists_ok L cont" "2 \<le> tx_pool_n_blocks C" "0 < rx_max_size C" "0 < tx_max_size C"
  shows "static_system_inv L cont C (static_system_init L C)"
  using assms(2-4) assms(1) static_pools_full [OF assms(1,3,4)]
  by (simp add: static_system_inv_def static_system_init_def static_tx_inv_def static_rx_inv_def
      command_blocks_def data_blocks_def)
    (simp add: pktmem_static_init_def pool_blocks_def)

section \<open>Properties\<close>


definition example_static :: static_config where
  "example_static = \<lparr>tx_pool_n_blocks = 2, rx_pool_n_blocks = 2, rx_max_size = 1664, pkt_hdr = 28, tx_max_size = 1664\<rparr>"


lemma deinit_wait_settled: "settled (env ii) \<Longrightarrow> deinit_wait settled env ii m = 0"
  by (cases m) simp_all

text \<open>Shutting down the static packet memory: with every packet returned it sleeps all 100 times,
  and with any packet still out it does not wait for it at all.\<close>

theorem static_deinit_wait_inverted:
  assumes "mmpkt_lists_ok L cont" "0 < rx_max_size C" "0 < tx_max_size C"
  shows "pktmem_static_deinit L C (\<lambda>ii. pktmem_static_init L C cb) = (100, []) \<and>
    (length (cont (sp_tx_data (env 0))) \<noteq> tx_pool_n_blocks C \<longrightarrow> fst (pktmem_static_deinit L C env) = 0)"
proof -
  note n = lists_laws(3) [OF assms(1)] static_pools_full [OF assms]
  have nset: "\<not> deinit_settled_static L C (pktmem_static_init L C cb)"
    by (simp add: deinit_settled_static_def n pool_blocks_def)
  then have "deinit_wait (deinit_settled_static L C) (\<lambda>ii. pktmem_static_init L C cb) ii m = m" for ii m
    by (induction m arbitrary: ii) simp_all
  moreover have "length (cont (sp_tx_data (env 0))) \<noteq> tx_pool_n_blocks C \<Longrightarrow>
      deinit_wait (deinit_settled_static L C) env 0 100 = 0"
    by (rule deinit_wait_settled) (simp add: deinit_settled_static_def n)
  ultimately show ?thesis
    by (simp add: pktmem_static_deinit_def Let_def n pool_blocks_def leak_def)
qed

theorem static_deinit_wait_inverted_witness:
  "pktmem_static_deinit hol_lists example_static (\<lambda>ii. pktmem_static_init hol_lists example_static True) = (100, [])"
  using static_deinit_wait_inverted [OF hol_lists_ok, of example_static True]
  by (simp add: example_static_def)

end
