(* ===== verification/Mmbuf.thy ===== *)
theory Mmbuf
  imports Mmpkt
begin

text \<open>
  Byte buffers with room at both ends, \<^verbatim>\<open>framework/src/mmutils/mmbuf.h\<close> and \<^verbatim>\<open>mmbuf.c\<close>. A buffer
  holds its memory as a byte list; a pointer into it is an offset. Failed assertions and accesses
  outside the memory are \<open>None\<close>. The interface \<open>packet_buffer\<close> states what the operations
  promise about the payload, and adding and stripping protocol headers is derived from it.
\<close>

section \<open>Buffers\<close>

record mmbuf =
  bf_buf :: "u8 list"
  bf_buf_len :: u32
  bf_start_offset :: u32
  bf_data_len :: u32

definition mmbuf_init :: "u8 list \<Rightarrow> u32 \<Rightarrow> u32 \<Rightarrow> mmbuf" where
  "mmbuf_init buf buf_len data_start_offset =
     \<lparr>bf_buf = buf, bf_buf_len = buf_len, bf_start_offset = data_start_offset, bf_data_len = 0\<rparr>"

definition mmbuf_get_data_start :: "mmbuf \<Rightarrow> u32" where
  "mmbuf_get_data_start mmbuf = bf_start_offset mmbuf"

definition mmbuf_get_data_end :: "mmbuf \<Rightarrow> u32" where
  "mmbuf_get_data_end mmbuf = bf_start_offset mmbuf + bf_data_len mmbuf"

definition mmbuf_get_data_length :: "mmbuf \<Rightarrow> u32" where
  "mmbuf_get_data_length mmbuf = bf_data_len mmbuf"

definition mmbuf_available_space_at_start :: "mmbuf \<Rightarrow> u32" where
  "mmbuf_available_space_at_start mmbuf = bf_start_offset mmbuf"

definition mmbuf_available_space_at_end :: "mmbuf \<Rightarrow> u32" where
  "mmbuf_available_space_at_end mmbuf =
     bf_buf_len mmbuf - (bf_start_offset mmbuf + bf_data_len mmbuf)"

definition mmbuf_prepend :: "mmbuf \<Rightarrow> u32 \<Rightarrow> (mmbuf \<times> u32) option" where
  "mmbuf_prepend mmbuf len =
     (if \<not> len \<le> mmbuf_available_space_at_start mmbuf then None
      else let mmbuf = mmbuf\<lparr>bf_start_offset := bf_start_offset mmbuf - len,
                             bf_data_len := bf_data_len mmbuf + len\<rparr>
           in Some (mmbuf, bf_start_offset mmbuf))"

definition memcpy_in :: "mmbuf \<Rightarrow> u32 \<Rightarrow> u8 list \<Rightarrow> u32 \<Rightarrow> mmbuf option" where
  "memcpy_in mmbuf dest data len =
     (if unat len \<le> length data
      then map_option (\<lambda>m. mmbuf\<lparr>bf_buf := m\<rparr>) (blit (bf_buf mmbuf) (unat dest) (take (unat len) data))
      else None)"

definition mmbuf_prepend_data :: "mmbuf \<Rightarrow> u8 list \<Rightarrow> u32 \<Rightarrow> mmbuf option" where
  "mmbuf_prepend_data mmbuf data len =
     (case mmbuf_prepend mmbuf len of None \<Rightarrow> None
      | Some (mmbuf, dest) \<Rightarrow> memcpy_in mmbuf dest data len)"

definition mmbuf_append :: "mmbuf \<Rightarrow> u32 \<Rightarrow> (mmbuf \<times> u32) option" where
  "mmbuf_append mmbuf len =
     (let ret = mmbuf_get_data_end mmbuf in
      if \<not> len \<le> mmbuf_available_space_at_end mmbuf then None
      else Some (mmbuf\<lparr>bf_data_len := bf_data_len mmbuf + len\<rparr>, ret))"

definition mmbuf_append_data :: "mmbuf \<Rightarrow> u8 list \<Rightarrow> u32 \<Rightarrow> mmbuf option" where
  "mmbuf_append_data mmbuf data len =
     (case mmbuf_append mmbuf len of None \<Rightarrow> None
      | Some (mmbuf, dest) \<Rightarrow> memcpy_in mmbuf dest data len)"

definition mmbuf_remove_from_start :: "mmbuf \<Rightarrow> u32 \<Rightarrow> mmbuf \<times> u32 option" where
  "mmbuf_remove_from_start mmbuf len =
     (if mmbuf_get_data_length mmbuf < len then (mmbuf, None)
      else (mmbuf\<lparr>bf_start_offset := bf_start_offset mmbuf + len,
                  bf_data_len := bf_data_len mmbuf - len\<rparr>, Some (mmbuf_get_data_start mmbuf)))"

definition mmbuf_remove_from_end :: "mmbuf \<Rightarrow> u32 \<Rightarrow> mmbuf \<times> u32 option" where
  "mmbuf_remove_from_end mmbuf len =
     (if mmbuf_get_data_length mmbuf < len then (mmbuf, None)
      else (mmbuf\<lparr>bf_data_len := bf_data_len mmbuf - len\<rparr>, Some (mmbuf_get_data_end mmbuf - len)))"

definition mmbuf_truncate :: "mmbuf \<Rightarrow> u32 \<Rightarrow> mmbuf option" where
  "mmbuf_truncate mmbuf len =
     (if \<not> len \<le> bf_data_len mmbuf then None else Some (mmbuf\<lparr>bf_data_len := len\<rparr>))"

text \<open>
  Allocation: \<open>malloc n\<close> is the memory of the block after its header, of \<open>n\<close> bytes less the 24 of
  \<open>struct mmbuf\<close>, or \<open>None\<close>.
\<close>

definition malloc_law :: "(u32 \<Rightarrow> u8 list option) \<Rightarrow> bool" where
  "malloc_law malloc \<longleftrightarrow> (\<forall>n m. malloc n = Some m \<longrightarrow> length m = unat n - 24)"

definition mmbuf_alloc_on_heap :: "(u32 \<Rightarrow> u8 list option) \<Rightarrow> u32 \<Rightarrow> u32 \<Rightarrow> mmbuf option" where
  "mmbuf_alloc_on_heap malloc space_at_start space_at_end =
     (let alloc_len = MM_FAST_ROUND_UP 24 4 + MM_FAST_ROUND_UP (space_at_start + space_at_end) 4 in
      case malloc alloc_len of None \<Rightarrow> None
      | Some mem \<Rightarrow> Some (mmbuf_init (replicate (length mem) 0)
          (MM_FAST_ROUND_UP (space_at_start + space_at_end) 4) space_at_start))"

definition mmbuf_make_copy_on_heap :: "(u32 \<Rightarrow> u8 list option) \<Rightarrow> mmbuf \<Rightarrow> mmbuf option" where
  "mmbuf_make_copy_on_heap malloc original =
     (let alloc_len = MM_FAST_ROUND_UP 24 4 + bf_buf_len original in
      case malloc alloc_len of None \<Rightarrow> None
      | Some mem \<Rightarrow>
        (let mmbuf = (mmbuf_init mem (bf_buf_len original) (bf_start_offset original))
               \<lparr>bf_data_len := bf_data_len original\<rparr> in
         if bf_data_len original \<noteq> 0
         then memcpy_in mmbuf (mmbuf_get_data_start mmbuf)
                (drop (unat (mmbuf_get_data_start original)) (bf_buf original))
                (mmbuf_get_data_length original)
         else Some mmbuf))"

section \<open>The interface\<close>

locale packet_buffer =
  fixes ok :: "'b \<Rightarrow> bool"
    and data :: "'b \<Rightarrow> 'x list"
    and headroom :: "'b \<Rightarrow> nat"
    and tailroom :: "'b \<Rightarrow> nat"
    and push :: "'b \<Rightarrow> 'x list \<Rightarrow> 'b option"
    and put :: "'b \<Rightarrow> 'x list \<Rightarrow> 'b option"
    and pull :: "'b \<Rightarrow> nat \<Rightarrow> 'b option"
    and trim :: "'b \<Rightarrow> nat \<Rightarrow> 'b option"
  assumes push_law: "ok b \<Longrightarrow> length d \<le> headroom b \<Longrightarrow> \<exists>b'. push b d = Some b' \<and> ok b' \<and>
      data b' = d @ data b \<and> headroom b' = headroom b - length d \<and> tailroom b' = tailroom b"
    and push_fails: "ok b \<Longrightarrow> headroom b < length d \<Longrightarrow> push b d = None"
    and put_law: "ok b \<Longrightarrow> length d \<le> tailroom b \<Longrightarrow> \<exists>b'. put b d = Some b' \<and> ok b' \<and>
      data b' = data b @ d \<and> headroom b' = headroom b \<and> tailroom b' = tailroom b - length d"
    and put_fails: "ok b \<Longrightarrow> tailroom b < length d \<Longrightarrow> put b d = None"
    and pull_law: "ok b \<Longrightarrow> n \<le> length (data b) \<Longrightarrow> \<exists>b'. pull b n = Some b' \<and> ok b' \<and>
      data b' = drop n (data b) \<and> headroom b' = headroom b + n \<and> tailroom b' = tailroom b"
    and trim_law: "ok b \<Longrightarrow> n \<le> length (data b) \<Longrightarrow> \<exists>b'. trim b n = Some b' \<and> ok b' \<and>
      data b' = take (length (data b) - n) (data b) \<and> headroom b' = headroom b \<and>
      tailroom b' = tailroom b + n"
begin

text \<open>Prepending headers one after the other, as each protocol layer does on transmission.\<close>

fun push_all :: "'b \<Rightarrow> 'x list list \<Rightarrow> 'b option" where
  "push_all b [] = Some b"
| "push_all b (h # hs) = (case push b h of None \<Rightarrow> None | Some b' \<Rightarrow> push_all b' hs)"

fun pull_all :: "'b \<Rightarrow> nat list \<Rightarrow> 'b option" where
  "pull_all b [] = Some b"
| "pull_all b (n # ns) = (case pull b n of None \<Rightarrow> None | Some b' \<Rightarrow> pull_all b' ns)"

lemma push_all_law:
  "ok b \<Longrightarrow> sum_list (map length hs) \<le> headroom b \<Longrightarrow> \<exists>b'. push_all b hs = Some b' \<and> ok b' \<and>
     data b' = concat (rev hs) @ data b \<and> headroom b' = headroom b - sum_list (map length hs) \<and>
     tailroom b' = tailroom b"
proof (induction hs arbitrary: b)
  case (Cons h hs)
  obtain b1 where b1: "push b h = Some b1" "ok b1" "data b1 = h @ data b"
    "headroom b1 = headroom b - length h" "tailroom b1 = tailroom b"
    using push_law [of b h] Cons.prems by auto
  then show ?case using Cons.IH [of b1] Cons.prems by auto
qed simp

lemma pull_all_law:
  "ok b \<Longrightarrow> data b = concat hs @ d \<Longrightarrow> \<exists>b'. pull_all b (map length hs) = Some b' \<and> ok b' \<and>
     data b' = d \<and> headroom b' = headroom b + sum_list (map length hs) \<and> tailroom b' = tailroom b"
proof (induction hs arbitrary: b)
  case (Cons h hs)
  obtain b1 where b1: "pull b (length h) = Some b1" "ok b1" "data b1 = concat hs @ d"
    "headroom b1 = headroom b + length h" "tailroom b1 = tailroom b"
    using pull_law [of b "length h"] Cons.prems by auto
  then show ?case using Cons.IH [of b1] Cons.prems by auto
qed simp

text \<open>Appending pieces one after the other, as a chain of buffers is gathered into one.\<close>

fun put_all :: "'b \<Rightarrow> 'x list list \<Rightarrow> 'b option" where
  "put_all b [] = Some b"
| "put_all b (d # ds) = (case put b d of None \<Rightarrow> None | Some b' \<Rightarrow> put_all b' ds)"

lemma put_all_law:
  "ok b \<Longrightarrow> sum_list (map length ds) \<le> tailroom b \<Longrightarrow> \<exists>b'. put_all b ds = Some b' \<and> ok b' \<and>
     data b' = data b @ concat ds \<and> headroom b' = headroom b"
proof (induction ds arbitrary: b)
  case (Cons d ds)
  obtain b1 where b1: "put b d = Some b1" "ok b1" "data b1 = data b @ d" "headroom b1 = headroom b"
    "tailroom b1 = tailroom b - length d"
    using put_law [of b d] Cons.prems by auto
  then show ?case using Cons.IH [of b1] Cons.prems by auto
qed simp

lemma encapsulation:
  assumes "ok b" "sum_list (map length hs) \<le> headroom b"
  shows "\<exists>b1 b2. push_all b hs = Some b1 \<and> pull_all b1 (map length (rev hs)) = Some b2 \<and>
     ok b1 \<and> ok b2 \<and> data b1 = concat (rev hs) @ data b \<and> data b2 = data b \<and>
     headroom b2 = headroom b \<and> tailroom b2 = tailroom b"
proof -
  obtain b1 where b1: "push_all b hs = Some b1" "ok b1" "data b1 = concat (rev hs) @ data b"
    "headroom b1 = headroom b - sum_list (map length hs)" "tailroom b1 = tailroom b"
    using push_all_law [OF assms] by auto
  have "sum_list (map length (rev hs)) = sum_list (map length hs)" by (metis rev_map sum_list_rev)
  then show ?thesis using pull_all_law [OF b1(2,3)] b1 assms(2) by auto
qed

end

section \<open>The buffers implement it\<close>

definition mmbuf_ok :: "mmbuf \<Rightarrow> bool" where
  "mmbuf_ok b \<longleftrightarrow> length (bf_buf b) = unat (bf_buf_len b) \<and>
     unat (bf_start_offset b) + unat (bf_data_len b) \<le> unat (bf_buf_len b)"

definition mmbuf_data :: "mmbuf \<Rightarrow> u8 list" where
  "mmbuf_data b = region (bf_buf b) (unat (bf_start_offset b)) (unat (bf_data_len b))"

definition mmbuf_headroom :: "mmbuf \<Rightarrow> nat" where
  "mmbuf_headroom b = unat (mmbuf_available_space_at_start b)"

definition mmbuf_tailroom :: "mmbuf \<Rightarrow> nat" where
  "mmbuf_tailroom b = unat (mmbuf_available_space_at_end b)"

definition mmbuf_push :: "mmbuf \<Rightarrow> u8 list \<Rightarrow> mmbuf option" where
  "mmbuf_push b d = (if length d < 2 ^ 32 then mmbuf_prepend_data b d (of_nat (length d)) else None)"

definition mmbuf_put :: "mmbuf \<Rightarrow> u8 list \<Rightarrow> mmbuf option" where
  "mmbuf_put b d = (if length d < 2 ^ 32 then mmbuf_append_data b d (of_nat (length d)) else None)"

definition mmbuf_pull :: "mmbuf \<Rightarrow> nat \<Rightarrow> mmbuf option" where
  "mmbuf_pull b n = (case mmbuf_remove_from_start b (of_nat n) of (b', p) \<Rightarrow> if p = None then None else Some b')"

definition mmbuf_trim :: "mmbuf \<Rightarrow> nat \<Rightarrow> mmbuf option" where
  "mmbuf_trim b n = (case mmbuf_remove_from_end b (of_nat n) of (b', p) \<Rightarrow> if p = None then None else Some b')"


lemma mmbuf_end: "mmbuf_ok b \<Longrightarrow>
    unat (bf_start_offset b + bf_data_len b) = unat (bf_start_offset b) + unat (bf_data_len b)"
  using unat_u32 [of "bf_buf_len b"] by (intro unat_add_small) (simp add: mmbuf_ok_def)

lemma mmbuf_rooms:
  assumes "mmbuf_ok b"
  shows "mmbuf_headroom b = unat (bf_start_offset b)"
    and "mmbuf_tailroom b = unat (bf_buf_len b) - (unat (bf_start_offset b) + unat (bf_data_len b))"
proof -
  have "bf_start_offset b + bf_data_len b \<le> bf_buf_len b"
    using assms mmbuf_end [OF assms] by (simp add: word_le_nat_alt mmbuf_ok_def)
  then show "mmbuf_tailroom b = unat (bf_buf_len b) - (unat (bf_start_offset b) + unat (bf_data_len b))"
    by (simp add: mmbuf_tailroom_def mmbuf_available_space_at_end_def unat_sub mmbuf_end [OF assms])
qed (simp add: mmbuf_headroom_def mmbuf_available_space_at_start_def)

lemma region_blit_front:
  "blit m off d = Some m' \<Longrightarrow> off + length d + n \<le> length m \<Longrightarrow>
     region m' off (length d + n) = d @ region m (off + length d) n"
  by (auto simp: blit_def region_def split: if_splits)

lemma region_blit_back:
  "blit m (off + n) d = Some m' \<Longrightarrow> region m' off (n + length d) = region m off n @ d"
  by (auto simp: blit_def region_def drop_take split: if_splits)

lemma mmbuf_prepend_ok:
  assumes "mmbuf_ok b" "unat len \<le> mmbuf_headroom b"
  obtains b' dest where "mmbuf_prepend b len = Some (b', dest)" "bf_buf b' = bf_buf b"
    "bf_buf_len b' = bf_buf_len b" "unat dest = unat (bf_start_offset b) - unat len"
    "unat (bf_start_offset b') = unat (bf_start_offset b) - unat len"
    "unat (bf_data_len b') = unat (bf_data_len b) + unat len"
proof -
  have le: "len \<le> bf_start_offset b" using assms(2) mmbuf_rooms(1) [OF assms(1)] by (simp add: word_le_nat_alt)
  have "unat (bf_data_len b + len) = unat (bf_data_len b) + unat len"
    using assms mmbuf_rooms(1) [OF assms(1)] unat_u32 [of "bf_buf_len b"]
    by (intro unat_add_small) (simp add: mmbuf_ok_def)
  then show ?thesis using le that
    by (simp add: mmbuf_prepend_def mmbuf_available_space_at_start_def Let_def unat_sub)
qed

lemma mmbuf_push_law:
  assumes ok: "mmbuf_ok b" and d: "length d \<le> mmbuf_headroom b"
  shows "\<exists>b'. mmbuf_push b d = Some b' \<and> mmbuf_ok b' \<and> mmbuf_data b' = d @ mmbuf_data b \<and>
    mmbuf_headroom b' = mmbuf_headroom b - length d \<and> mmbuf_tailroom b' = mmbuf_tailroom b"
proof -
  note room = mmbuf_rooms [OF ok]
  have "length d < 2 ^ 32" using d room(1) unat_u32 [of "bf_start_offset b"] by simp
  note len = unat_of_nat32 [OF this] this
  obtain b1 dest where p: "mmbuf_prepend b (of_nat (length d)) = Some (b1, dest)" "bf_buf b1 = bf_buf b"
      "bf_buf_len b1 = bf_buf_len b" "unat dest = unat (bf_start_offset b) - length d"
      "unat (bf_start_offset b1) = unat (bf_start_offset b) - length d"
      "unat (bf_data_len b1) = unat (bf_data_len b) + length d"
    using mmbuf_prepend_ok [OF ok, of "of_nat (length d)"] d len by auto
  have fit: "unat dest + length d + unat (bf_data_len b) \<le> length (bf_buf b)"
    using ok d p(4) room by (simp add: mmbuf_ok_def)
  then obtain m where m: "blit (bf_buf b) (unat dest) d = Some m" by (simp add: blit_def)
  let ?b = "b1\<lparr>bf_buf := m\<rparr>"
  have "mmbuf_push b d = Some ?b" using p m len by (simp add: mmbuf_push_def mmbuf_prepend_data_def memcpy_in_def)
  moreover have ok': "mmbuf_ok ?b" using ok p fit d room blit_length [OF m] by (simp add: mmbuf_ok_def)
  moreover have "mmbuf_data ?b = d @ mmbuf_data b"
    using region_blit_front [OF m fit] p d room by (simp add: mmbuf_data_def add.commute)
  ultimately show ?thesis using mmbuf_rooms [OF ok'] room p d by simp
qed

lemma mmbuf_put_law:
  assumes ok: "mmbuf_ok b" and d: "length d \<le> mmbuf_tailroom b"
  shows "\<exists>b'. mmbuf_put b d = Some b' \<and> mmbuf_ok b' \<and> mmbuf_data b' = mmbuf_data b @ d \<and>
    mmbuf_headroom b' = mmbuf_headroom b \<and> mmbuf_tailroom b' = mmbuf_tailroom b - length d"
proof -
  note room = mmbuf_rooms [OF ok] and e = mmbuf_end [OF ok]
  have "length d < 2 ^ 32" using d room(2) unat_u32 [of "bf_buf_len b"] by simp
  note len = unat_of_nat32 [OF this] this
  have "unat (bf_data_len b) + length d < 2 ^ 32"
    using d room ok unat_u32 [of "bf_buf_len b"] unfolding mmbuf_ok_def by linarith
  then have dl: "unat (bf_data_len b + of_nat (length d)) = unat (bf_data_len b) + length d"
    using unat_add_small [of "bf_data_len b" "of_nat (length d)"] len by simp
  have fit: "unat (mmbuf_get_data_end b) + length d \<le> length (bf_buf b)"
    using ok d room e by (auto simp: mmbuf_ok_def mmbuf_get_data_end_def)
  then obtain m where m: "blit (bf_buf b) (unat (mmbuf_get_data_end b)) d = Some m" by (simp add: blit_def)
  let ?b = "b\<lparr>bf_data_len := bf_data_len b + of_nat (length d), bf_buf := m\<rparr>"
  have "of_nat (length d) \<le> mmbuf_available_space_at_end b"
    using d len by (simp add: word_le_nat_alt mmbuf_tailroom_def)
  then have "mmbuf_put b d = Some ?b"
    using m len by (simp add: mmbuf_put_def mmbuf_append_data_def mmbuf_append_def memcpy_in_def Let_def)
  moreover have ok': "mmbuf_ok ?b" using ok dl fit d room e blit_length [OF m]
    by (simp add: mmbuf_ok_def mmbuf_get_data_end_def)
  moreover have "mmbuf_data ?b = mmbuf_data b @ d"
    using region_blit_back [of "bf_buf b" "unat (bf_start_offset b)" "unat (bf_data_len b)" d m] m dl e
    by (simp add: mmbuf_data_def mmbuf_get_data_end_def)
  ultimately show ?thesis using mmbuf_rooms [OF ok'] room dl by simp
qed

lemma length_mmbuf_data: "mmbuf_ok b \<Longrightarrow> length (mmbuf_data b) = unat (bf_data_len b)"
  by (simp add: mmbuf_data_def mmbuf_ok_def length_region)

lemma mmbuf_pull_law:
  assumes ok: "mmbuf_ok b" and n: "n \<le> length (mmbuf_data b)"
  shows "\<exists>b'. mmbuf_pull b n = Some b' \<and> mmbuf_ok b' \<and> mmbuf_data b' = drop n (mmbuf_data b) \<and>
    mmbuf_headroom b' = mmbuf_headroom b + n \<and> mmbuf_tailroom b' = mmbuf_tailroom b"
proof -
  note room = mmbuf_rooms [OF ok]
  have n': "n \<le> unat (bf_data_len b)" using n length_mmbuf_data [OF ok] by simp
  then have w: "unat (of_nat n :: u32) = n" using unat_u32 [of "bf_data_len b"] by (intro unat_of_nat32) simp
  have le: "of_nat n \<le> bf_data_len b" using n' w by (simp add: word_le_nat_alt)
  have so: "unat (bf_start_offset b + of_nat n) = unat (bf_start_offset b) + n"
    using unat_add_small [of "bf_start_offset b" "of_nat n"] n' w ok unat_u32 [of "bf_buf_len b"]
    by (simp add: mmbuf_ok_def)
  let ?b = "b\<lparr>bf_start_offset := bf_start_offset b + of_nat n, bf_data_len := bf_data_len b - of_nat n\<rparr>"
  have "mmbuf_pull b n = Some ?b"
    using le by (simp add: mmbuf_pull_def mmbuf_remove_from_start_def mmbuf_get_data_length_def)
  moreover have ok': "mmbuf_ok ?b" using ok so n' w le by (simp add: mmbuf_ok_def unat_sub)
  moreover have "mmbuf_data ?b = drop n (mmbuf_data b)"
    using so w le by (simp add: mmbuf_data_def region_def unat_sub drop_take add.commute)
  ultimately show ?thesis using mmbuf_rooms [OF ok'] room so n' w le by (simp add: unat_sub)
qed

lemma mmbuf_trim_law:
  assumes ok: "mmbuf_ok b" and n: "n \<le> length (mmbuf_data b)"
  shows "\<exists>b'. mmbuf_trim b n = Some b' \<and> mmbuf_ok b' \<and>
    mmbuf_data b' = take (length (mmbuf_data b) - n) (mmbuf_data b) \<and>
    mmbuf_headroom b' = mmbuf_headroom b \<and> mmbuf_tailroom b' = mmbuf_tailroom b + n"
proof -
  note room = mmbuf_rooms [OF ok]
  have n': "n \<le> unat (bf_data_len b)" using n length_mmbuf_data [OF ok] by simp
  then have w: "unat (of_nat n :: u32) = n" using unat_u32 [of "bf_data_len b"] by (intro unat_of_nat32) simp
  have le: "of_nat n \<le> bf_data_len b" using n' w by (simp add: word_le_nat_alt)
  let ?b = "b\<lparr>bf_data_len := bf_data_len b - of_nat n\<rparr>"
  have "mmbuf_trim b n = Some ?b"
    using le by (simp add: mmbuf_trim_def mmbuf_remove_from_end_def mmbuf_get_data_length_def)
  moreover have ok': "mmbuf_ok ?b" using ok n' w le by (simp add: mmbuf_ok_def unat_sub) linarith
  moreover have "mmbuf_data ?b = take (length (mmbuf_data b) - n) (mmbuf_data b)"
    using w le length_mmbuf_data [OF ok] by (simp add: mmbuf_data_def region_def unat_sub)
  ultimately show ?thesis using mmbuf_rooms [OF ok'] room n' w le ok by (simp add: unat_sub mmbuf_ok_def)
qed

lemma mmbuf_push_fails: "mmbuf_headroom b < length d \<Longrightarrow> mmbuf_push b d = None"
  using unat_of_nat32 [of "length d"]
  by (simp add: mmbuf_push_def mmbuf_prepend_data_def mmbuf_prepend_def mmbuf_headroom_def word_le_nat_alt)

lemma mmbuf_put_fails: "mmbuf_tailroom b < length d \<Longrightarrow> mmbuf_put b d = None"
  using unat_of_nat32 [of "length d"]
  by (simp add: mmbuf_put_def mmbuf_append_data_def mmbuf_append_def mmbuf_tailroom_def word_le_nat_alt Let_def)

interpretation mmbuf: packet_buffer mmbuf_ok mmbuf_data mmbuf_headroom mmbuf_tailroom
  mmbuf_push mmbuf_put mmbuf_pull mmbuf_trim
  by unfold_locales (rule mmbuf_push_law mmbuf_push_fails mmbuf_put_law mmbuf_put_fails mmbuf_pull_law
      mmbuf_trim_law; assumption)+


section \<open>Properties\<close>

fun mmbuf_push_all :: "mmbuf \<Rightarrow> u8 list list \<Rightarrow> mmbuf option" where
  "mmbuf_push_all b [] = Some b"
| "mmbuf_push_all b (h # hs) = (case mmbuf_push b h of None \<Rightarrow> None | Some b' \<Rightarrow> mmbuf_push_all b' hs)"

fun mmbuf_pull_all :: "mmbuf \<Rightarrow> nat list \<Rightarrow> mmbuf option" where
  "mmbuf_pull_all b [] = Some b"
| "mmbuf_pull_all b (n # ns) = (case mmbuf_pull b n of None \<Rightarrow> None | Some b' \<Rightarrow> mmbuf_pull_all b' ns)"

lemma mmbuf_all_eq: "mmbuf_push_all b hs = mmbuf.push_all b hs" "mmbuf_pull_all b ns = mmbuf.pull_all b ns"
  by (induction hs arbitrary: b) (auto split: option.splits, induction ns arbitrary: b, auto split: option.splits)

text \<open>Headers round trip: on a well-formed \<open>mmbuf\<close> whose space at the start is enough for a
  stack of headers, \<open>mmbuf_prepend_data\<close> of each never asserts and gives the headers, last first,
  before the payload; \<open>mmbuf_remove_from_start\<close> of their lengths then gives back exactly the payload
  and both rooms.\<close>

theorem mmbuf_headers_roundtrip:
  assumes "mmbuf_ok b" "sum_list (map length hs) \<le> mmbuf_headroom b"
  shows "\<exists>b1 b2. mmbuf_push_all b hs = Some b1 \<and> mmbuf_pull_all b1 (map length (rev hs)) = Some b2 \<and>
    mmbuf_data b1 = concat (rev hs) @ mmbuf_data b \<and> mmbuf_data b2 = mmbuf_data b \<and>
    mmbuf_headroom b2 = mmbuf_headroom b \<and> mmbuf_tailroom b2 = mmbuf_tailroom b"
  unfolding mmbuf_all_eq using mmbuf.encapsulation [OF assms] by blast

lemma mmbuf_alloc_fresh:
  assumes "malloc_law malloc" "unat sas + unat sae < 2 ^ 31"
    and "mmbuf_alloc_on_heap malloc sas sae = Some b"
  shows "mmbuf_ok b \<and> mmbuf_data b = [] \<and> mmbuf_headroom b = unat sas \<and> unat sae \<le> mmbuf_tailroom b"
proof -
  let ?d = "MM_FAST_ROUND_UP (sas + sae) 4"
  have s: "unat (sas + sae) = unat sas + unat sae" by (rule unat_add_small) (use assms(2) in simp)
  have d: "unat ?d \<le> unat sas + unat sae + 3" "unat sas + unat sae \<le> unat ?d"
    using round_up_4_le [of "sas + sae"] round_up_4_ge [of "sas + sae"] s assms(2) by simp_all
  have h: "MM_FAST_ROUND_UP 24 4 = 24" by (simp add: MM_FAST_ROUND_UP_def)
  have a: "unat (24 + ?d) = 24 + unat ?d" using unat_add_small [of 24 ?d] d assms(2) by simp
  obtain mem where "malloc (24 + ?d) = Some mem"
    "b = mmbuf_init (replicate (length mem) 0) ?d sas"
    using assms(3) by (auto simp: mmbuf_alloc_on_heap_def h Let_def split: option.splits)
  with assms(1) a have b: "b = mmbuf_init (replicate (unat ?d) 0) ?d sas" by (simp add: malloc_law_def)
  then have ok: "mmbuf_ok b" using d by (simp add: mmbuf_ok_def mmbuf_init_def)
  then show ?thesis using b d mmbuf_rooms [OF ok] by (simp add: mmbuf_data_def mmbuf_init_def region_def)
qed

lemma mmbuf_copy_same:
  assumes "malloc_law malloc" "mmbuf_ok b" "unat (bf_buf_len b) < 2 ^ 31"
    and "malloc (24 + bf_buf_len b) \<noteq> None"
  shows "\<exists>b'. mmbuf_make_copy_on_heap malloc b = Some b' \<and> mmbuf_ok b' \<and> mmbuf_data b' = mmbuf_data b \<and>
    mmbuf_headroom b' = mmbuf_headroom b \<and> mmbuf_tailroom b' = mmbuf_tailroom b"
proof -
  have h: "MM_FAST_ROUND_UP 24 4 = 24" by (simp add: MM_FAST_ROUND_UP_def)
  have a: "unat (24 + bf_buf_len b) = 24 + unat (bf_buf_len b)"
    using unat_add_small [of 24 "bf_buf_len b"] assms(3) by simp
  obtain mem where mem: "malloc (24 + bf_buf_len b) = Some mem" "length mem = unat (bf_buf_len b)"
    using assms(1,4) a by (fastforce simp: malloc_law_def)
  let ?b = "b\<lparr>bf_buf := mem\<rparr>"
  have src: "take (unat (bf_data_len b)) (drop (unat (bf_start_offset b)) (bf_buf b)) = mmbuf_data b"
    by (simp add: mmbuf_data_def region_def)
  have fit: "unat (bf_start_offset b) + length (mmbuf_data b) \<le> length mem"
    using mem(2) assms(2) length_mmbuf_data [OF assms(2)] by (simp add: mmbuf_ok_def)
  then obtain m where m: "blit mem (unat (bf_start_offset b)) (mmbuf_data b) = Some m" by (simp add: blit_def)
  let ?c = "if bf_data_len b \<noteq> 0 then b\<lparr>bf_buf := m\<rparr> else b\<lparr>bf_buf := mem\<rparr>"
  have "mmbuf_make_copy_on_heap malloc b = Some ?c"
    using mem m src assms(2)
    by (auto simp: mmbuf_make_copy_on_heap_def h Let_def mmbuf_init_def memcpy_in_def mmbuf_get_data_start_def
        mmbuf_get_data_length_def mmbuf_ok_def)
  moreover have ok: "mmbuf_ok ?c" using assms(2) mem(2) blit_length [OF m] by (simp add: mmbuf_ok_def)
  moreover have "mmbuf_data ?c = mmbuf_data b"
    using region_blit_back [of mem "unat (bf_start_offset b)" 0 "mmbuf_data b" m] m length_mmbuf_data [OF assms(2)]
    by (simp add: mmbuf_data_def region_def)
  ultimately show ?thesis using mmbuf_rooms [OF ok] mmbuf_rooms [OF assms(2)] by (auto split: if_splits)
qed

text \<open>A buffer from \<open>mmbuf_alloc_on_heap\<close> is well formed and empty, with the requested room at the
  start and at least the requested room at the end, and bytes appended to it survive
  \<open>mmbuf_make_copy_on_heap\<close>: the copy has the same data and rooms, whatever memory the
  allocator hands out.\<close>

theorem mmbuf_alloc_append_copy:
  assumes "malloc_law malloc" "unat sas + unat sae < 2 ^ 30"
    and "\<And>n. malloc n \<noteq> None" "length d \<le> unat sae"
  shows "\<exists>b b1 b2. mmbuf_alloc_on_heap malloc sas sae = Some b \<and> mmbuf_headroom b = unat sas \<and>
    mmbuf_put b d = Some b1 \<and> mmbuf_make_copy_on_heap malloc b1 = Some b2 \<and>
    mmbuf_data b2 = d \<and> mmbuf_headroom b2 = unat sas \<and> mmbuf_tailroom b2 = mmbuf_tailroom b1"
proof -
  have small: "unat sas + unat sae < 2 ^ 31" using assms(2) by simp
  obtain b where b: "mmbuf_alloc_on_heap malloc sas sae = Some b"
    using assms(3) [of "MM_FAST_ROUND_UP 24 4 + MM_FAST_ROUND_UP (sas + sae) 4"]
    by (auto simp: mmbuf_alloc_on_heap_def Let_def)
  have f: "mmbuf_ok b" "mmbuf_data b = []" "mmbuf_headroom b = unat sas" "unat sae \<le> mmbuf_tailroom b"
    using mmbuf_alloc_fresh [OF assms(1) small b] by blast+
  obtain b1 where b1: "mmbuf_put b d = Some b1" "mmbuf_ok b1" "mmbuf_data b1 = d" "mmbuf_headroom b1 = unat sas"
    using mmbuf_put_law [OF f(1), of d] f assms(4) by auto
  have "bf_buf_len b1 = bf_buf_len b"
    using b1(1) by (auto simp: mmbuf_put_def mmbuf_append_data_def mmbuf_append_def memcpy_in_def Let_def
        split: if_splits option.splits)
  moreover have "unat (bf_buf_len b) \<le> unat sas + unat sae + 3"
  proof -
    have "unat (sas + sae) = unat sas + unat sae" by (rule unat_add_small) (use assms(2) in simp)
    then show ?thesis using b round_up_4_le [of "sas + sae"] assms(2)
      by (auto simp: mmbuf_alloc_on_heap_def mmbuf_init_def Let_def split: option.splits)
  qed
  ultimately have "unat (bf_buf_len b1) < 2 ^ 31" using assms(2) by simp
  from mmbuf_copy_same [OF assms(1) b1(2) this assms(3)] obtain b2
    where "mmbuf_make_copy_on_heap malloc b1 = Some b2" "mmbuf_data b2 = d" "mmbuf_headroom b2 = unat sas"
      "mmbuf_tailroom b2 = mmbuf_tailroom b1"
    unfolding b1(3,4) by blast
  then show ?thesis using b f(3) b1(1) by blast
qed

definition example_buf :: mmbuf where
  "example_buf = \<lparr>bf_buf = replicate 8 0, bf_buf_len = 8, bf_start_offset = 4, bf_data_len = 2\<rparr>"

theorem mmbuf_headers_roundtrip_witness:
  "\<exists>b1 b2. mmbuf_push_all example_buf [[1, 2], [3]] = Some b1 \<and> mmbuf_data b1 = [3, 1, 2, 0, 0] \<and>
     mmbuf_pull_all b1 [1, 2] = Some b2 \<and> mmbuf_data b2 = [0, 0]"
proof -
  have "mmbuf_ok example_buf" "mmbuf_data example_buf = [0, 0]" "mmbuf_headroom example_buf = 4" by code_simp+
  then show ?thesis using mmbuf_headers_roundtrip [of example_buf "[[1, 2], [3]]"]
    by (auto simp: numeral_2_eq_2 simp del: mmbuf_push_all.simps mmbuf_pull_all.simps)
qed

theorem mmbuf_alloc_append_copy_witness:
  "\<exists>b2. mmbuf_data b2 = [7, 8, 9] \<and> mmbuf_headroom b2 = 4"
  using mmbuf_alloc_append_copy [of "\<lambda>n. Some (replicate (unat n - 24) 1)" 4 10 "[7, 8, 9]"] by (auto simp: malloc_law_def)

end
