(* ===== verification/Mmbuf_List.thy ===== *)
theory Mmbuf_List
  imports Mmbuf
begin

text \<open>
  The singly linked lists of buffers in \<^verbatim>\<open>framework/src/mmutils/mmbuf.c\<close>. The heap gives the
  \<open>next\<close> field of each buffer, an address is a number and \<open>NULL\<close> is 0; following a null pointer
  is \<open>None\<close>. The lists implement a double-ended queue of addresses.
\<close>

section \<open>Pointers\<close>

type_synonym ptr = nat
type_synonym next_heap = "ptr \<Rightarrow> ptr"

abbreviation (input) NULL :: ptr where "NULL \<equiv> 0"

definition get_next :: "next_heap \<Rightarrow> ptr \<Rightarrow> ptr option" where
  "get_next h p = (if p = NULL then None else Some (h p))"

record mmbuf_list =
  ml_head :: ptr
  ml_tail :: ptr
  ml_len :: u32

definition mmbuf_list_init :: mmbuf_list where
  "mmbuf_list_init = \<lparr>ml_head = NULL, ml_tail = NULL, ml_len = 0\<rparr>"

section \<open>Operations\<close>

definition mmbuf_list_prepend :: "next_heap \<Rightarrow> mmbuf_list \<Rightarrow> ptr \<Rightarrow> (next_heap \<times> mmbuf_list) option" where
  "mmbuf_list_prepend h l mmbuf =
     (if mmbuf = NULL then None
      else let h = h(mmbuf := ml_head l);
               l = l\<lparr>ml_head := mmbuf, ml_len := ml_len l + 1\<rparr> in
           Some (h, if ml_tail l = NULL then l\<lparr>ml_tail := ml_head l\<rparr> else l))"

definition mmbuf_list_append :: "next_heap \<Rightarrow> mmbuf_list \<Rightarrow> ptr \<Rightarrow> (next_heap \<times> mmbuf_list) option" where
  "mmbuf_list_append h l mmbuf =
     (if mmbuf = NULL then None
      else let h = h(mmbuf := NULL) in
           if ml_head l = NULL
           then Some (h, l\<lparr>ml_head := mmbuf, ml_tail := mmbuf, ml_len := ml_len l + 1\<rparr>)
           else if ml_tail l = NULL then None
           else Some (h(ml_tail l := mmbuf), l\<lparr>ml_tail := mmbuf, ml_len := ml_len l + 1\<rparr>))"

partial_function (option) find_prev_loop :: "next_heap \<Rightarrow> ptr \<Rightarrow> ptr \<Rightarrow> ptr option" where
  "find_prev_loop h mmbuf walk =
     (case get_next h walk of None \<Rightarrow> None
      | Some nxt \<Rightarrow> if nxt = NULL then Some NULL
          else if nxt = mmbuf then Some walk else find_prev_loop h mmbuf nxt)"

definition mmbuf_find_prev :: "next_heap \<Rightarrow> mmbuf_list \<Rightarrow> ptr \<Rightarrow> ptr option" where
  "mmbuf_find_prev h l mmbuf = find_prev_loop h mmbuf (ml_head l)"

text \<open>Taking \<open>mmbuf\<close>, whose predecessor is \<open>prev\<close>, out of the tail and the count.\<close>

definition unlink_rest :: "next_heap \<Rightarrow> mmbuf_list \<Rightarrow> ptr \<Rightarrow> ptr \<Rightarrow> next_heap \<times> mmbuf_list" where
  "unlink_rest h l mmbuf prev =
     (let l = (if ml_tail l = mmbuf then l\<lparr>ml_tail := prev\<rparr> else l) in
      (h(mmbuf := NULL), l\<lparr>ml_len := ml_len l - 1\<rparr>))"

definition mmbuf_list_remove ::
  "next_heap \<Rightarrow> mmbuf_list \<Rightarrow> ptr \<Rightarrow> (next_heap \<times> mmbuf_list \<times> bool) option" where
  "mmbuf_list_remove h l mmbuf =
     (if ml_head l = NULL then Some (h, l, False)
      else if ml_head l = mmbuf then
        (case unlink_rest h (l\<lparr>ml_head := h mmbuf\<rparr>) mmbuf NULL of (h, l) \<Rightarrow> Some (h, l, True))
      else case mmbuf_find_prev h l mmbuf of None \<Rightarrow> None
        | Some prev \<Rightarrow>
            if prev = NULL then Some (h, l, False)
            else if mmbuf = NULL then None
            else (case unlink_rest (h(prev := h mmbuf)) l mmbuf prev of (h, l) \<Rightarrow> Some (h, l, True)))"

definition mmbuf_list_dequeue :: "next_heap \<Rightarrow> mmbuf_list \<Rightarrow> next_heap \<times> mmbuf_list \<times> ptr" where
  "mmbuf_list_dequeue h l =
     (if ml_head l = NULL then (h, l, NULL)
      else let mmbuf = ml_head l;
               l = l\<lparr>ml_head := h mmbuf, ml_len := ml_len l - 1\<rparr>;
               l = (if ml_tail l = mmbuf then l\<lparr>ml_tail := NULL\<rparr> else l) in
           (h(mmbuf := NULL), l, mmbuf))"

definition mmbuf_list_dequeue_tail :: "next_heap \<Rightarrow> mmbuf_list \<Rightarrow> (next_heap \<times> mmbuf_list \<times> ptr) option" where
  "mmbuf_list_dequeue_tail h l =
     (if ml_tail l = NULL then Some (h, l, NULL)
      else let mmbuf = ml_tail l in
        case mmbuf_list_remove h l mmbuf of None \<Rightarrow> None | Some (h, l, _) \<Rightarrow> Some (h, l, mmbuf))"

definition mmbuf_list_dequeue_all :: "mmbuf_list \<Rightarrow> mmbuf_list \<times> ptr" where
  "mmbuf_list_dequeue_all l = (l\<lparr>ml_head := NULL, ml_tail := NULL, ml_len := 0\<rparr>, ml_head l)"

text \<open>
  Releasing every buffer: \<open>freed\<close> are the released ones, and reading the \<open>next\<close> field of one of
  them is \<open>None\<close>. The result is the list of released buffers in order.
\<close>

definition read_next :: "next_heap \<Rightarrow> ptr list \<Rightarrow> ptr \<Rightarrow> ptr option" where
  "read_next h freed p = (if p = NULL \<or> p \<in> set freed then None else Some (h p))"

partial_function (option) clear_loop :: "next_heap \<Rightarrow> ptr list \<Rightarrow> ptr \<Rightarrow> ptr \<Rightarrow> ptr list option" where
  "clear_loop h freed walk nxt =
     (if walk = NULL then Some freed
      else let freed' = freed @ [walk]; walk' = nxt in
        case (if walk' \<noteq> NULL then read_next h freed' walk' else Some NULL) of None \<Rightarrow> None
        | Some nxt' \<Rightarrow> clear_loop h freed' walk' nxt')"

definition mmbuf_list_clear :: "next_heap \<Rightarrow> mmbuf_list \<Rightarrow> (mmbuf_list \<times> ptr list) option" where
  "mmbuf_list_clear h l =
     (if ml_head l = NULL then Some (l, [])
      else case read_next h [] (ml_head l) of None \<Rightarrow> None
        | Some nxt \<Rightarrow> (case clear_loop h [] (ml_head l) nxt of None \<Rightarrow> None
            | Some freed \<Rightarrow> Some (l\<lparr>ml_len := 0, ml_head := NULL, ml_tail := NULL\<rparr>, freed)))"

section \<open>Representation\<close>

fun chain :: "next_heap \<Rightarrow> ptr \<Rightarrow> ptr list \<Rightarrow> bool" where
  "chain h p [] \<longleftrightarrow> p = NULL"
| "chain h p (x # xs) \<longleftrightarrow> p = x \<and> x \<noteq> NULL \<and> chain h (h x) xs"

definition mmbuf_list_rep :: "next_heap \<times> mmbuf_list \<Rightarrow> ptr list \<Rightarrow> bool" where
  "mmbuf_list_rep s xs \<longleftrightarrow> (case s of (h, l) \<Rightarrow>
     chain h (ml_head l) xs \<and> ml_tail l = (if xs = [] then NULL else last xs) \<and>
     ml_len l = of_nat (length xs) \<and> distinct xs)"

lemma chain_frame [simp]: "y \<notin> set xs \<Longrightarrow> chain (h(y := z)) p xs \<longleftrightarrow> chain h p xs"
  by (induction xs arbitrary: p) auto

lemma chain_null [simp]: "chain h p xs \<Longrightarrow> p = NULL \<longleftrightarrow> xs = []"
  by (cases xs) auto

lemma chain_not_null: "chain h p xs \<Longrightarrow> NULL \<notin> set xs"
  by (induction xs arbitrary: p) auto



lemma chain_snoc:
  "chain h p (xs @ [y]) \<Longrightarrow> distinct (xs @ [y]) \<Longrightarrow> m \<notin> set (xs @ [y]) \<Longrightarrow> m \<noteq> NULL \<Longrightarrow>
     chain (h(m := NULL, y := m)) p (xs @ [y, m])"
  by (induction xs arbitrary: p) auto

lemma chain_unlink:
  "chain h p (us @ w # m # vs) \<Longrightarrow> distinct (us @ w # m # vs) \<Longrightarrow>
     chain (h(w := h m, m := NULL)) p (us @ w # vs)"
  by (induction us arbitrary: p) auto

lemma find_prev_found:
  "chain h p (us @ w # m # vs) \<Longrightarrow> distinct (us @ w # m # vs) \<Longrightarrow> find_prev_loop h m p = Some w"
proof (induction us arbitrary: p)
  case Nil
  then show ?case by (subst find_prev_loop.simps) (auto simp: get_next_def)
next
  case (Cons u us)
  have "chain h (h u) (us @ w # m # vs)" "p = u" "u \<noteq> NULL" using Cons.prems by auto
  moreover from this have "h u \<noteq> NULL" by (metis append_is_Nil_conv chain_null list.distinct(1))
  moreover have "h u \<noteq> m" using \<open>chain h (h u) _\<close> Cons.prems(2) by (cases us) auto
  ultimately show ?case using Cons.IH [of "h u"] Cons.prems(2)
    by (subst find_prev_loop.simps) (simp add: get_next_def)
qed

lemma find_prev_missing:
  "chain h p (x # xs) \<Longrightarrow> m \<notin> set xs \<Longrightarrow> find_prev_loop h m p = Some NULL"
proof (induction xs arbitrary: p x)
  case Nil
  then show ?case by (subst find_prev_loop.simps) (auto simp: get_next_def)
next
  case (Cons y ys)
  then show ?case using Cons.IH [of "h x" y] by (subst find_prev_loop.simps) (auto simp: get_next_def)
qed

section \<open>A double-ended queue\<close>

datatype list_op = L_Prepend ptr | L_Append ptr | L_Remove ptr | L_Dequeue | L_Dequeue_Tail

definition mmbuf_list_step ::
  "next_heap \<times> mmbuf_list \<Rightarrow> list_op \<Rightarrow> ((next_heap \<times> mmbuf_list) \<times> ptr) option" where
  "mmbuf_list_step s e = (case s of (h, l) \<Rightarrow> (case e of
     L_Prepend m \<Rightarrow> map_option (\<lambda>s. (s, NULL)) (mmbuf_list_prepend h l m)
   | L_Append m \<Rightarrow> map_option (\<lambda>s. (s, NULL)) (mmbuf_list_append h l m)
   | L_Remove m \<Rightarrow> map_option (\<lambda>(h, l, b). ((h, l), if b then m else NULL)) (mmbuf_list_remove h l m)
   | L_Dequeue \<Rightarrow> (case mmbuf_list_dequeue h l of (h, l, p) \<Rightarrow> Some ((h, l), p))
   | L_Dequeue_Tail \<Rightarrow> map_option (\<lambda>(h, l, p). ((h, l), p)) (mmbuf_list_dequeue_tail h l)))"

fun deque_step :: "ptr list \<Rightarrow> list_op \<Rightarrow> ptr list \<times> ptr" where
  "deque_step xs (L_Prepend m) = (m # xs, NULL)"
| "deque_step xs (L_Append m) = (xs @ [m], NULL)"
| "deque_step xs (L_Remove m) = (remove1 m xs, if m \<in> set xs then m else NULL)"
| "deque_step xs L_Dequeue = (tl xs, if xs = [] then NULL else hd xs)"
| "deque_step xs L_Dequeue_Tail = (butlast xs, if xs = [] then NULL else last xs)"

fun deque_pre :: "ptr list \<Rightarrow> list_op \<Rightarrow> bool" where
  "deque_pre xs (L_Prepend m) \<longleftrightarrow> m \<noteq> NULL \<and> m \<notin> set xs"
| "deque_pre xs (L_Append m) \<longleftrightarrow> m \<noteq> NULL \<and> m \<notin> set xs"
| "deque_pre xs (L_Remove m) \<longleftrightarrow> m \<noteq> NULL"
| "deque_pre xs _ \<longleftrightarrow> True"

lemma last_fresh: "last xs = x \<Longrightarrow> x \<notin> set xs \<Longrightarrow> xs = []"
  using last_in_set by blast

lemma rep_prepend:
  assumes "mmbuf_list_rep (h, l) xs" "m \<noteq> NULL" "m \<notin> set xs"
  shows "\<exists>s. mmbuf_list_prepend h l m = Some s \<and> mmbuf_list_rep s (m # xs)"
  using assms
  by (auto simp: mmbuf_list_prepend_def mmbuf_list_rep_def Let_def dest: chain_not_null intro: last_fresh)

lemma rep_append:
  assumes "mmbuf_list_rep (h, l) xs" "m \<noteq> NULL" "m \<notin> set xs"
  shows "\<exists>s. mmbuf_list_append h l m = Some s \<and> mmbuf_list_rep s (xs @ [m])"
proof (cases xs rule: rev_cases)
  case Nil
  then show ?thesis using assms by (auto simp: mmbuf_list_append_def mmbuf_list_rep_def Let_def)
next
  case (snoc ys y)
  have c: "chain h (ml_head l) (ys @ [y])" "distinct (ys @ [y])" "ml_tail l = y"
    using assms(1) snoc by (auto simp: mmbuf_list_rep_def)
  have "y \<noteq> NULL" "ml_head l \<noteq> NULL" using chain_not_null [OF c(1)] chain_null [OF c(1)] by auto
  then show ?thesis using assms snoc c chain_snoc [OF c(1,2), of m]
    by (simp add: mmbuf_list_append_def mmbuf_list_rep_def Let_def)
qed

lemma rep_remove_found:
  assumes rep: "mmbuf_list_rep (h, l) (us @ w # m # vs)"
  shows "\<exists>h' l'. mmbuf_list_remove h l m = Some (h', l', True) \<and> mmbuf_list_rep (h', l') (us @ w # vs)"
proof -
  have c: "chain h (ml_head l) (us @ w # m # vs)" and d: "distinct (us @ w # m # vs)"
    and t: "ml_tail l = last (w # m # vs)" and n: "ml_len l = of_nat (length (us @ w # m # vs))"
    using rep by (auto simp: mmbuf_list_rep_def)
  have nz: "m \<noteq> NULL" "w \<noteq> NULL" using chain_not_null [OF c] by auto
  have hd: "ml_head l \<noteq> NULL" "ml_head l \<noteq> m"
    using c d chain_null [OF c] by (auto, cases us) auto
  have "ml_tail l = m \<longleftrightarrow> vs = []" using t d by (cases vs rule: rev_cases) auto
  then show ?thesis
    using hd nz find_prev_found [OF c d] chain_unlink [OF c d] d t n
    by (auto simp: mmbuf_list_remove_def mmbuf_find_prev_def unlink_rest_def mmbuf_list_rep_def Let_def)
qed

lemma rep_remove_head:
  assumes "mmbuf_list_rep (h, l) (m # xs)"
  shows "\<exists>h' l'. mmbuf_list_remove h l m = Some (h', l', True) \<and> mmbuf_list_rep (h', l') xs"
  using assms
  by (auto simp: mmbuf_list_remove_def unlink_rest_def mmbuf_list_rep_def Let_def intro: last_fresh)

lemma rep_remove:
  assumes rep: "mmbuf_list_rep (h, l) xs" and m: "m \<noteq> NULL"
  shows "\<exists>h' l'. mmbuf_list_remove h l m = Some (h', l', m \<in> set xs) \<and>
    mmbuf_list_rep (h', l') (remove1 m xs)"
proof (cases "m \<in> set xs")
  case True
  then obtain us vs where xs: "xs = us @ m # vs" "m \<notin> set us" by (meson split_list_first)
  show ?thesis
  proof (cases us rule: rev_cases)
    case Nil
    then show ?thesis using rep_remove_head rep xs by auto
  next
    case (snoc us' w)
    then show ?thesis using rep_remove_found [of h l us' w m vs] rep xs by (auto simp: remove1_append)
  qed
next
  case False
  show ?thesis
  proof (cases xs)
    case Nil
    then show ?thesis using rep by (auto simp: mmbuf_list_rep_def mmbuf_list_remove_def)
  next
    case (Cons x ys)
    then show ?thesis using rep False m find_prev_missing [of h "ml_head l" x ys m]
      by (auto simp: mmbuf_list_rep_def mmbuf_list_remove_def mmbuf_find_prev_def remove1_idem)
  qed
qed

lemma rep_dequeue:
  assumes "mmbuf_list_rep (h, l) xs"
  shows "\<exists>h' l'. mmbuf_list_dequeue h l = (h', l', if xs = [] then NULL else hd xs) \<and>
    mmbuf_list_rep (h', l') (tl xs)"
  using assms by (cases xs) (auto simp: mmbuf_list_dequeue_def mmbuf_list_rep_def Let_def intro: last_fresh)

lemma rep_dequeue_tail:
  assumes rep: "mmbuf_list_rep (h, l) xs"
  shows "\<exists>h' l'. mmbuf_list_dequeue_tail h l = Some (h', l', if xs = [] then NULL else last xs) \<and>
    mmbuf_list_rep (h', l') (butlast xs)"
proof (cases xs rule: rev_cases)
  case Nil
  then show ?thesis using rep by (auto simp: mmbuf_list_dequeue_tail_def mmbuf_list_rep_def)
next
  case (snoc ys y)
  then have "ml_tail l = y" "y \<noteq> NULL" "remove1 y xs = ys"
    using rep chain_not_null [of h "ml_head l" xs]
    by (auto simp: mmbuf_list_rep_def remove1_append)
  then show ?thesis using rep_remove [OF rep, of y] snoc
    by (auto simp: mmbuf_list_dequeue_tail_def)
qed

lemma mmbuf_list_sim:
  assumes "mmbuf_list_rep s xs" "deque_pre xs e"
  shows "\<exists>s'. mmbuf_list_step s e = Some (s', snd (deque_step xs e)) \<and> mmbuf_list_rep s' (fst (deque_step xs e))"
proof -
  obtain h l where s: "s = (h, l)" by (rule prod.exhaust)
  note r = assms(1) [unfolded s]
  show ?thesis
  proof (cases e)
    case (L_Prepend m)
    then show ?thesis using rep_prepend [OF r, of m] assms(2) by (auto simp: mmbuf_list_step_def s)
  next
    case (L_Append m)
    then show ?thesis using rep_append [OF r, of m] assms(2) by (auto simp: mmbuf_list_step_def s)
  next
    case (L_Remove m)
    then obtain h' l' where "mmbuf_list_remove h l m = Some (h', l', m \<in> set xs)"
      "mmbuf_list_rep (h', l') (remove1 m xs)"
      using rep_remove [OF r, of m] assms(2) by auto
    then show ?thesis using L_Remove by (simp add: mmbuf_list_step_def s)
  next
    case L_Dequeue
    then show ?thesis using rep_dequeue [OF r] by (auto simp: mmbuf_list_step_def s)
  next
    case L_Dequeue_Tail
    then show ?thesis using rep_dequeue_tail [OF r] by (auto simp: mmbuf_list_step_def s)
  qed
qed

interpretation mmbuf_deque: simulation mmbuf_list_step deque_step mmbuf_list_rep deque_pre
  by unfold_locales (rule mmbuf_list_sim)


section \<open>Properties\<close>

text \<open>C8: The linked lists of \<open>mmbuf.c\<close> refine a double-ended queue: every sequence of prepend,
  append, remove, dequeue and dequeue-tail operations, started on an empty list and adding only
  buffers that are not in it, runs without following a null pointer, each operation returns what
  the abstract queue returns, the chain from the head is the abstract queue in order, and the tail
  pointer and the count agree with it.\<close>

theorem mmbuf_list_refines_deque:
  assumes "valid_run deque_step deque_pre [] es"
  shows "\<exists>h' l'. c_run mmbuf_list_step (h, mmbuf_list_init) es = Some ((h', l'), snd (a_run deque_step [] es)) \<and>
    (let xs = fst (a_run deque_step [] es) in
     chain h' (ml_head l') xs \<and> ml_tail l' = (if xs = [] then NULL else last xs) \<and>
     ml_len l' = of_nat (length xs))"
proof -
  have "mmbuf_list_rep (h, mmbuf_list_init) []" by (simp add: mmbuf_list_rep_def mmbuf_list_init_def)
  from mmbuf_deque.run_sim [OF this assms] show ?thesis by (auto simp: mmbuf_list_rep_def Let_def)
qed

theorem mmbuf_list_refines_deque_witness:
  "\<exists>h' l'. c_run mmbuf_list_step (\<lambda>_. 9, mmbuf_list_init)
      [L_Append 1, L_Append 2, L_Prepend 3, L_Remove 1, L_Dequeue_Tail] = Some ((h', l'), [0, 0, 0, 1, 2]) \<and>
    chain h' (ml_head l') [3] \<and> ml_tail l' = 3 \<and> ml_len l' = 1"
proof -
  let ?es = "[L_Append 1, L_Append 2, L_Prepend 3, L_Remove 1, L_Dequeue_Tail]"
  have "valid_run deque_step deque_pre [] ?es" "a_run deque_step [] ?es = ([3], [0, 0, 0, 1, 2])"
    by simp_all
  then show ?thesis using mmbuf_list_refines_deque [of ?es "\<lambda>_. 9"] by (simp only: fst_conv snd_conv Let_def) simp
qed

lemma clear_loop_chain:
  "chain h p xs \<Longrightarrow> distinct (freed @ xs) \<Longrightarrow>
     clear_loop h freed p (if xs = [] then NULL else h p) = Some (freed @ xs)"
proof (induction xs arbitrary: p freed)
  case Nil
  then show ?case by (subst clear_loop.simps) simp
next
  case (Cons x xs)
  have c: "chain h (h x) xs" "p = x" "x \<noteq> NULL" using Cons.prems by auto
  show ?case
  proof (cases xs)
    case Nil
    then show ?thesis using c Cons.IH [of "h x" "freed @ [x]"] Cons.prems
      by (subst clear_loop.simps) (simp add: Let_def)
  next
    case (Cons y ys)
    then have "h x = y" "y \<noteq> NULL" "y \<notin> set (freed @ [x])" using c Cons.prems(2) by auto
    then show ?thesis using c Cons.IH [of "h x" "freed @ [x]"] Cons.prems Cons
      by (subst clear_loop.simps) (simp add: Let_def read_next_def)
  qed
qed

text \<open>\<open>mmbuf_list_clear\<close> releases every buffer of the list exactly once, in order, never reads
  the link of a buffer it has already released, and leaves an empty list.\<close>

theorem mmbuf_list_clear_releases:
  assumes "mmbuf_list_rep (h, l) xs"
  shows "\<exists>l'. mmbuf_list_clear h l = Some (l', xs) \<and> mmbuf_list_rep (h, l') [] \<and> distinct xs"
proof (cases xs)
  case Nil
  then show ?thesis using assms by (auto simp: mmbuf_list_clear_def mmbuf_list_rep_def)
next
  case (Cons x ys)
  then show ?thesis using assms clear_loop_chain [of h "ml_head l" xs "[]"]
    by (auto simp: mmbuf_list_clear_def mmbuf_list_rep_def read_next_def)
qed

theorem mmbuf_list_clear_releases_witness:
  "\<exists>l'. mmbuf_list_clear (\<lambda>p. if p = 5 then 7 else 0) \<lparr>ml_head = 5, ml_tail = 7, ml_len = 2\<rparr> = Some (l', [5, 7])"
proof -
  have "mmbuf_list_rep (\<lambda>p. if p = 5 then 7 else 0, \<lparr>ml_head = 5, ml_tail = 7, ml_len = 2\<rparr>) [5, 7]"
    by (simp add: mmbuf_list_rep_def)
  from mmbuf_list_clear_releases [OF this] show ?thesis by blast
qed

end
