(* ===== verification/Ie_Parser.thy ===== *)
theory Ie_Parser
  imports Mmpkt "HOL-Library.Monad_Syntax"
begin

text \<open>
  The parsers of 802.11 information elements in \<^verbatim>\<open>framework/src/mmutils/mmutils_wlan.c\<close>, which read
  beacons received over the air. Every read goes through \<open>load\<close>: \<open>None\<close> is a read outside the
  given bytes or a loop that does not end. Offsets and the remaining length keep their
  width; return codes are integers as in the code (-1 not found, -2 malformed).
\<close>

section \<open>Parsers\<close>

definition mm_akm_suite_to_string :: "u32 \<Rightarrow> string" where
  "mm_akm_suite_to_string akm_suite_oui =
     (if akm_suite_oui = 0 then ''None'' else if akm_suite_oui = 0x506f9a02 then ''PSK''
      else if akm_suite_oui = 0x000fac08 then ''SAE'' else if akm_suite_oui = 0x000fac12 then ''OWE''
      else ''Other'')"

partial_function (option) mm_find_ie_from_offset :: "u8 list \<Rightarrow> u32 \<Rightarrow> u32 \<Rightarrow> u8 \<Rightarrow> int option" where
  "mm_find_ie_from_offset ies ies_len search_offset ie_type =
     (if search_offset + 2 \<le> ies_len then
        (case load ies (unat search_offset) of None \<Rightarrow> None | Some ty \<Rightarrow>
         (case load ies (unat (search_offset + 1)) of None \<Rightarrow> None | Some len \<Rightarrow>
          if ty = ie_type then
            (if search_offset + 2 + ucast len > ies_len then Some (- 2) else Some (sint search_offset))
          else mm_find_ie_from_offset ies ies_len (search_offset + (2 + ucast len)) ie_type))
      else Some (- 1))"

definition mm_find_ie :: "u8 list \<Rightarrow> u32 \<Rightarrow> u8 \<Rightarrow> int option" where
  "mm_find_ie ies ies_len ie_type = mm_find_ie_from_offset ies ies_len 0 ie_type"

definition MM_RSN_INFORMATION_IE_TYPE :: u8 where "MM_RSN_INFORMATION_IE_TYPE = 48"
definition MM_VENDOR_SPECIFIC_IE_TYPE :: u8 where "MM_VENDOR_SPECIFIC_IE_TYPE = 221"
definition MM_S1G_OPERATION_IE_TYPE :: u8 where "MM_S1G_OPERATION_IE_TYPE = 232"

definition load_n :: "'a list \<Rightarrow> nat \<Rightarrow> nat \<Rightarrow> 'a list option" where
  "load_n xs off n = (if off + n \<le> length xs then Some (region xs off n) else None)"

partial_function (option) mm_find_vendor_specific_ie_from_offset ::
  "u8 list \<Rightarrow> u32 \<Rightarrow> u32 \<Rightarrow> u8 list \<Rightarrow> u32 \<Rightarrow> int option" where
  "mm_find_vendor_specific_ie_from_offset ies ies_len search_offset ident id_len =
     (if search_offset + id_len \<le> ies_len then do {
        offset \<leftarrow> mm_find_ie_from_offset ies ies_len search_offset MM_VENDOR_SPECIFIC_IE_TYPE;
        if offset < 0 then Some offset
        else do {
          ie_type \<leftarrow> load ies (nat offset);
          ie_length \<leftarrow> load ies (nat offset + 1);
          matches \<leftarrow> (if ie_type = MM_VENDOR_SPECIFIC_IE_TYPE \<and> unat id_len \<le> unat ie_length
            then map_option (\<lambda>d. d = take (unat id_len) ident) (load_n ies (nat offset + 2) (unat id_len))
            else Some False);
          if matches then
            (if word_of_int offset + 2 + ucast ie_length > ies_len then Some (- 2) else Some offset)
          else mm_find_vendor_specific_ie_from_offset ies ies_len
                 (2 + ucast ie_length + word_of_int offset) ident id_len
        }
      }
      else Some (- 1))"

record mm_rsn_information =
  rsn_group_cipher_suite :: u32
  rsn_pairwise_cipher_suites :: "u32 list"
  rsn_akm_suites :: "u32 list"
  rsn_num_pairwise_cipher_suites :: u16
  rsn_num_akm_suites :: u16
  rsn_version :: u16
  rsn_capabilities :: u16

definition rsn_zero :: mm_rsn_information where
  "rsn_zero = \<lparr>rsn_group_cipher_suite = 0, rsn_pairwise_cipher_suites = [0, 0], rsn_akm_suites = [0, 0],
     rsn_num_pairwise_cipher_suites = 0, rsn_num_akm_suites = 0, rsn_version = 0, rsn_capabilities = 0\<rparr>"

definition load_le16 :: "u8 list \<Rightarrow> nat \<Rightarrow> u16 option" where
  "load_le16 ies off = (case (load ies off, load ies (off + 1)) of
     (Some a, Some b) \<Rightarrow> Some (ucast a OR push_bit 8 (ucast b)) | _ \<Rightarrow> None)"

definition load_be32 :: "u8 list \<Rightarrow> nat \<Rightarrow> u32 option" where
  "load_be32 ies off = (case (load ies off, load ies (off + 1), load ies (off + 2), load ies (off + 3)) of
     (Some a, Some b, Some c, Some d) \<Rightarrow>
       Some (push_bit 24 (ucast a) OR push_bit 16 (ucast b) OR push_bit 8 (ucast c) OR ucast d)
   | _ \<Rightarrow> None)"

text \<open>
  The loop over \<open>n\<close> suites from index \<open>ii\<close>: the first \<open>kept\<close> of them are stored. It returns the
  array, the offset and the remaining length.
\<close>

fun suites_loop :: "u8 list \<Rightarrow> nat \<Rightarrow> nat \<Rightarrow> nat \<Rightarrow> u32 list \<Rightarrow> nat \<Rightarrow> u8 \<Rightarrow> (u32 list \<times> nat \<times> u8) option" where
  "suites_loop ies kept 0 ii arr off len = Some (arr, off, len)"
| "suites_loop ies kept (Suc n) ii arr off len =
     (if ii < kept then
        (case load_be32 ies off of None \<Rightarrow> None | Some v \<Rightarrow>
          (case store arr ii v of None \<Rightarrow> None
           | Some arr' \<Rightarrow> suites_loop ies kept n (Suc ii) arr' (off + 4) (len - 4)))
      else suites_loop ies kept n (Suc ii) arr (off + 4) (len - 4))"

text \<open>
  The parser, in the order of the code: from the count of AKM suites on, from the version on, and
  the whole. \<open>off\<close> and \<open>len\<close> are the variables \<open>offset\<close> and \<open>length\<close> there.
\<close>

definition rsn_akm_part :: "u8 list \<Rightarrow> nat \<Rightarrow> u8 \<Rightarrow> mm_rsn_information \<Rightarrow> (int \<times> mm_rsn_information) option" where
  "rsn_akm_part ies off len out = do {
     n_akm \<leftarrow> load_le16 ies off;
     let len = len - 2;
     let out = out\<lparr>rsn_num_akm_suites := (if n_akm > 2 then 2 else n_akm)\<rparr>;
     if int (unat len) < 4 * int (unat n_akm) + 2 then Some (- 2, out)
     else do {
       (akms, off, len) \<leftarrow> suites_loop ies (unat (rsn_num_akm_suites out)) (unat n_akm) 0
         (rsn_akm_suites out) (off + 2) len;
       caps \<leftarrow> load_le16 ies off;
       Some (0, out\<lparr>rsn_akm_suites := akms, rsn_capabilities := caps\<rparr>)
     }
   }"

definition rsn_body :: "u8 list \<Rightarrow> nat \<Rightarrow> u8 \<Rightarrow> (int \<times> mm_rsn_information) option" where
  "rsn_body ies off len = do {
     version \<leftarrow> load_le16 ies off;
     grp \<leftarrow> load_be32 ies (off + 2);
     n_pw \<leftarrow> load_le16 ies (off + 6);
     let len = len - 2 - 4 - 2;
     let out = rsn_zero\<lparr>rsn_version := version, rsn_group_cipher_suite := grp,
       rsn_num_pairwise_cipher_suites := (if n_pw > 2 then 2 else n_pw)\<rparr>;
     if int (unat len) < 4 * int (unat n_pw) + 2 then Some (- 2, out)
     else do {
       (pws, off, len) \<leftarrow> suites_loop ies (unat (rsn_num_pairwise_cipher_suites out)) (unat n_pw) 0
         (rsn_pairwise_cipher_suites out) (off + 8) len;
       rsn_akm_part ies off len (out\<lparr>rsn_pairwise_cipher_suites := pws\<rparr>)
     }
   }"

definition mm_parse_rsn_information :: "u8 list \<Rightarrow> u32 \<Rightarrow> (int \<times> mm_rsn_information) option" where
  "mm_parse_rsn_information ies ies_len = do {
     offset \<leftarrow> mm_find_ie ies ies_len MM_RSN_INFORMATION_IE_TYPE;
     if offset < 0 then Some (offset, rsn_zero)
     else do {
       len \<leftarrow> load ies (nat offset + 1);
       if len < 8 then Some (- 2, rsn_zero) else rsn_body ies (nat offset + 2) len
     }
   }"

record mm_s1g_operation =
  s1g_operating_class :: u8
  s1g_operating_channel_number :: u8
  s1g_operating_channel_width_mhz :: u8
  s1g_primary_channel_number :: u8
  s1g_primary_channel_width_mhz :: u8

definition mm_parse_s1g_operation :: "u8 list \<Rightarrow> u32 \<Rightarrow> (int \<times> mm_s1g_operation option) option" where
  "mm_parse_s1g_operation ies ies_len = do {
     offset \<leftarrow> mm_find_ie ies ies_len MM_S1G_OPERATION_IE_TYPE;
     if offset < 0 then Some (offset, None)
     else do {
       len \<leftarrow> load ies (nat offset + 1);
       if 8 > unat len + 2 then Some (- 2, None)
       else do {
         e \<leftarrow> load_n ies (nat offset) 8;
         Some (0, Some \<lparr>s1g_operating_class = e ! 3, s1g_operating_channel_number = e ! 5,
           s1g_operating_channel_width_mhz = (drop_bit 1 (e ! 2) AND 0x0f) + 1,
           s1g_primary_channel_number = e ! 4,
           s1g_primary_channel_width_mhz = 2 - (e ! 2 AND 0x01)\<rparr>)
       }
     }
   }"

section \<open>A reference search\<close>

text \<open>The elements in order, by recursion on the bytes that are left.\<close>

fun ie_search :: "u8 \<Rightarrow> nat \<Rightarrow> u8 list \<Rightarrow> int" where
  "ie_search t off (ty # len # rest) =
     (if ty = t then if length rest < unat len then - 2 else int off
      else ie_search t (off + 2 + unat len) (drop (unat len) rest))"
| "ie_search t off _ = - 1"


lemma sint_of_nat: "n < 2 ^ 31 \<Longrightarrow> sint (of_nat n :: u32) = int n"
  by (simp add: signed_of_nat signed_take_bit_int_eq_self)

lemma drop_two:
  "off + 2 \<le> length xs \<Longrightarrow> drop off xs = xs ! off # xs ! Suc off # drop (off + 2) xs"
  by (simp add: Cons_nth_drop_Suc)

lemma find_ie_search:
  assumes small: "length ies < 2 ^ 31" and "off < length ies + 258"
  shows "mm_find_ie_from_offset ies (of_nat (length ies)) (of_nat off) t = Some (ie_search t off (drop off ies))"
  using assms(2)
proof (induction "length ies - off" arbitrary: off rule: less_induct)
  case less
  have w: "unat (of_nat (length ies) :: u32) = length ies" "unat (of_nat off :: u32) = off"
    "unat (of_nat off + 1 :: u32) = off + 1" "unat (of_nat off + 2 :: u32) = off + 2"
    using small less.prems unat_of_nat32 [of "off + 1"] unat_of_nat32 [of "off + 2"]
    by (simp_all add: unat_of_nat32 add.commute)
  show ?case
  proof (cases "off + 2 \<le> length ies")
    case True
    let ?l = "ies ! Suc off"
    have l: "unat ?l < 256" using unsigned_less [of ?l] by simp
    have nxt: "of_nat off + (2 + ucast ?l) = (of_nat (off + 2 + unat ?l) :: u32)"
      by (simp add: add.commute)
    have fits: "unat (of_nat off + 2 + ucast ?l :: u32) = off + 2 + unat ?l"
      using unat_of_nat32 [of "off + 2 + unat ?l"] l True small by (simp add: add_ac)
    have IH: "mm_find_ie_from_offset ies (of_nat (length ies)) (of_nat off + (2 + ucast ?l)) t =
        Some (ie_search t (off + 2 + unat ?l) (drop (off + 2 + unat ?l) ies))"
      unfolding nxt using less.hyps [of "off + 2 + unat ?l"] True l by simp
    show ?thesis using True w fits IH drop_two [OF True] sint_of_nat [of off] small
      by (subst mm_find_ie_from_offset.simps) (auto simp: load_def word_le_nat_alt word_less_nat_alt add_ac)
  next
    case False
    then have "length (drop off ies) < 2" by simp
    then have "ie_search t off (drop off ies) = - 1"
      by (cases "drop off ies"; cases "tl (drop off ies)") auto
    then show ?thesis using False w by (subst mm_find_ie_from_offset.simps) (simp add: word_le_nat_alt)
  qed
qed


text \<open>What a non-negative result says, and that there are no other error codes.\<close>

definition ie_found :: "u8 list \<Rightarrow> u8 \<Rightarrow> nat \<Rightarrow> bool" where
  "ie_found ies t k \<longleftrightarrow> k + 1 < length ies \<and> ies ! k = t \<and> k + 2 + unat (ies ! (k + 1)) \<le> length ies"

lemma ie_search_result:
  assumes "off \<le> length ies"
  shows "ie_search t off (drop off ies) = - 1 \<or> ie_search t off (drop off ies) = - 2 \<or>
    (\<exists>k. ie_search t off (drop off ies) = int k \<and> off \<le> k \<and> ie_found ies t k)"
  using assms
proof (induction "length ies - off" arbitrary: off rule: less_induct)
  case less
  show ?case
  proof (cases "off + 2 \<le> length ies")
    case True
    let ?n = "off + 2 + unat (ies ! Suc off)"
    have "?n \<le> length ies \<Longrightarrow> ie_search t ?n (drop ?n ies) = - 1 \<or> ie_search t ?n (drop ?n ies) = - 2 \<or>
        (\<exists>k. ie_search t ?n (drop ?n ies) = int k \<and> ?n \<le> k \<and> ie_found ies t k)"
      using less.hyps [of ?n] True by simp
    then have step: "ie_search t ?n (drop ?n ies) = - 1 \<or> ie_search t ?n (drop ?n ies) = - 2 \<or>
        (\<exists>k. ie_search t ?n (drop ?n ies) = int k \<and> off \<le> k \<and> ie_found ies t k)"
      by (cases "?n \<le> length ies") (auto intro: order_trans [of off ?n])
    have "ie_search t off (drop off ies) = (if ies ! off = t
        then if length ies - (off + 2) < unat (ies ! Suc off) then - 2 else int off
        else ie_search t ?n (drop ?n ies))"
      by (simp add: drop_two [OF True] add.commute)
    then show ?thesis using step True by (auto simp: ie_found_def)
  next
    case False
    then have "length (drop off ies) < 2" by simp
    then show ?thesis by (cases "drop off ies"; cases "tl (drop off ies)") auto
  qed
qed

lemma find_ie_result:
  assumes "length ies < 2 ^ 31" "off < length ies + 258"
  obtains r where "mm_find_ie_from_offset ies (of_nat (length ies)) (of_nat off) t = Some r"
    "r = - 1 \<or> r = - 2 \<or> (\<exists>k. r = int k \<and> off \<le> k \<and> ie_found ies t k)"
proof (cases "off \<le> length ies")
  case True
  then show ?thesis using that find_ie_search [OF assms, of t] ie_search_result [OF True, of t] by blast
next
  case False
  then show ?thesis using that find_ie_search [OF assms, of t] by simp
qed

section \<open>Encoded elements\<close>

definition encode_ie :: "u8 \<times> u8 list \<Rightarrow> u8 list" where
  "encode_ie e = fst e # of_nat (length (snd e)) # snd e"

definition encode_ies :: "(u8 \<times> u8 list) list \<Rightarrow> u8 list" where
  "encode_ies es = concat (map encode_ie es)"

lemma unat_len8: "n \<le> 255 \<Longrightarrow> unat (of_nat n :: u8) = n"
  by (simp add: unat_of_nat take_bit_eq_mod)

lemma search_encoded:
  assumes "\<forall>e \<in> set es. length (snd e) \<le> 255" "\<forall>e \<in> set es. fst e \<noteq> t" "length d \<le> 255"
  shows "ie_search t off (encode_ies (es @ (t, d) # fs)) = int (off + length (encode_ies es))"
    and "ie_search t off (encode_ies es) = - 1"
  using assms
  by (induction es arbitrary: off) (auto simp: encode_ies_def encode_ie_def unat_len8)

lemma find_encoded:
  assumes "\<forall>e \<in> set es. length (snd e) \<le> 255" "\<forall>e \<in> set es. fst e \<noteq> t" "length d \<le> 255"
    and "length (encode_ies (es @ (t, d) # fs)) < 2 ^ 31"
  shows "mm_find_ie (encode_ies (es @ (t, d) # fs)) (of_nat (length (encode_ies (es @ (t, d) # fs)))) t =
      Some (int (length (encode_ies es)))"
  using find_ie_search [OF assms(4), of 0 t] search_encoded(1) [OF assms(1-3), of 0 fs]
  by (simp add: mm_find_ie_def)

text \<open>Searching the information elements of a frame: on any sequence of well-formed elements
  \<open>mm_find_ie\<close> returns the offset of the first one with the type asked for, and -1 when there
  is none.\<close>

theorem find_ie_first:
  assumes "\<forall>e \<in> set es. length (snd e) \<le> 255" "\<forall>e \<in> set es. fst e \<noteq> t" "length d \<le> 255"
    and "length (encode_ies (es @ (t, d) # fs)) < 2 ^ 31"
  shows "mm_find_ie (encode_ies (es @ (t, d) # fs)) (of_nat (length (encode_ies (es @ (t, d) # fs)))) t =
      Some (int (length (encode_ies es))) \<and>
    mm_find_ie (encode_ies es) (of_nat (length (encode_ies es))) t = Some (- 1)"
proof -
  have "length (encode_ies es) < 2 ^ 31" using assms(4) by (simp add: encode_ies_def)
  then show ?thesis using find_encoded [OF assms] find_ie_search [of "encode_ies es" 0 t]
      search_encoded(2) [OF assms(1-3), of 0]
    by (simp add: mm_find_ie_def)
qed

theorem find_ie_first_witness:
  "mm_find_ie [0, 2, 65, 66, 48, 1, 7] 7 48 = Some 4"
  using find_ie_first [of "[(0, [65, 66])]" 48 "[7]" "[]"] by (simp add: encode_ies_def encode_ie_def)


section \<open>Robustness\<close>

lemma find_ie_from_0:
  assumes "length ies < 2 ^ 31"
  obtains r where "mm_find_ie ies (of_nat (length ies)) t = Some r"
    "r = - 1 \<or> r = - 2 \<or> (\<exists>k. r = int k \<and> ie_found ies t k)"
  using find_ie_result [OF assms, of 0 t] by (auto simp: mm_find_ie_def)

lemma load_le16_ok: "off + 2 \<le> length ies \<Longrightarrow> load_le16 ies off \<noteq> None"
  by (simp add: load_le16_def load_def)

lemma load_be32_ok: "off + 4 \<le> length ies \<Longrightarrow> load_be32 ies off \<noteq> None"
  by (simp add: load_be32_def load_def)

lemma suites_loop_ok:
  "off + 4 * n \<le> length ies \<Longrightarrow> kept \<le> length arr \<Longrightarrow> 4 * n \<le> unat len \<Longrightarrow>
     \<exists>arr' len'. suites_loop ies kept n ii arr off len = Some (arr', off + 4 * n, len') \<and>
       length arr' = length arr \<and> unat len' = unat len - 4 * n"
proof (induction n arbitrary: ii arr off len)
  case (Suc n)
  have "4 \<le> len" using Suc.prems(3) by (simp add: word_le_nat_alt)
  then have len: "unat (len - 4) = unat len - 4" by (simp add: unat_sub)
  obtain v where v: "load_be32 ies off = Some v" using load_be32_ok [of off ies] Suc.prems(1) by auto
  show ?case
    using Suc.IH [of "off + 4" "arr[ii := v]" "len - 4" "Suc ii"] Suc.IH [of "off + 4" arr "len - 4" "Suc ii"]
      Suc.prems v len
    by (auto simp: store_def algebra_simps)
qed simp


lemma len_sub_8: "8 \<le> len \<Longrightarrow> unat (len - 2 - 4 - 2 :: u8) = unat len - 8"
  by (simp add: unat_sub diff_diff_eq)

lemma min_2_le: "unat (if n > 2 then 2 else (n :: u16)) \<le> 2"
  by (simp add: word_less_nat_alt)

lemma rsn_akm_part_safe:
  assumes "off + unat len \<le> length ies" "2 \<le> unat len" "length (rsn_akm_suites out) = 2"
  shows "\<exists>r out'. rsn_akm_part ies off len out = Some (r, out') \<and> r \<in> {0, - 2}"
proof -
  obtain n where n: "load_le16 ies off = Some n" using load_le16_ok [of off ies] assms(1,2) by auto
  have len2: "unat (len - 2) = unat len - 2" using assms(2) by (simp add: unat_sub word_le_nat_alt)
  show ?thesis
  proof (cases "int (unat (len - 2)) < 4 * int (unat n) + 2")
    case True
    then show ?thesis by (simp add: rsn_akm_part_def n Let_def del: of_nat_unat)
  next
    case False
    then have le: "4 * unat n + 4 \<le> unat len" using len2 assms(2) by linarith
    then obtain akms len' where ak: "suites_loop ies (unat (if n > 2 then 2 else n)) (unat n) 0 (rsn_akm_suites out)
        (off + 2) (len - 2) = Some (akms, off + 2 + 4 * unat n, len')"
      using suites_loop_ok [of "off + 2" "unat n" ies "unat (if n > 2 then 2 else n)" "rsn_akm_suites out" "len - 2" 0]
        min_2_le [of n] assms len2 by fastforce
    obtain caps where "load_le16 ies (off + 2 + 4 * unat n) = Some caps"
      using load_le16_ok [of "off + 2 + 4 * unat n" ies] le assms(1) by auto
    then show ?thesis using False ak by (simp add: rsn_akm_part_def n Let_def)
  qed
qed

lemma rsn_body_safe:
  assumes "off + unat len \<le> length ies" "8 \<le> unat len"
  shows "\<exists>r out'. rsn_body ies off len = Some (r, out') \<and> r \<in> {0, - 2}"
proof -
  obtain v g n where l: "load_le16 ies off = Some v" "load_be32 ies (off + 2) = Some g" "load_le16 ies (off + 6) = Some n"
    using load_le16_ok [of off ies] load_be32_ok [of "off + 2" ies] load_le16_ok [of "off + 6" ies] assms by auto
  have len8: "unat (len - 2 - 4 - 2) = unat len - 8" using assms(2) len_sub_8 by (simp add: word_le_nat_alt)
  show ?thesis
  proof (cases "int (unat (len - 2 - 4 - 2)) < 4 * int (unat n) + 2")
    case True
    then show ?thesis using l by (simp add: rsn_body_def Let_def)
  next
    case False
    then have le: "4 * unat n + 10 \<le> unat len" using len8 assms(2) by linarith
    then obtain pws len' where pw: "suites_loop ies (unat (if n > 2 then 2 else n)) (unat n) 0 [0, 0]
        (off + 8) (len - 2 - 4 - 2) = Some (pws, off + 8 + 4 * unat n, len')" "unat len' = unat len - 8 - 4 * unat n"
      using suites_loop_ok [of "off + 8" "unat n" ies "unat (if n > 2 then 2 else n)" "[0, 0]" "len - 2 - 4 - 2" 0]
        min_2_le [of n] assms len8 by fastforce
    have "off + 8 + 4 * unat n + unat len' \<le> length ies" "2 \<le> unat len'" using pw(2) le assms by auto
    from rsn_akm_part_safe [OF this] show ?thesis using False pw(1) l
      by (simp add: rsn_body_def Let_def rsn_zero_def)
  qed
qed

lemma rsn_reads_inside:
  assumes "length ies < 2 ^ 31"
  shows "\<exists>r out. mm_parse_rsn_information ies (of_nat (length ies)) = Some (r, out) \<and> r \<in> {0, - 1, - 2}"
proof -
  obtain r where r: "mm_find_ie ies (of_nat (length ies)) MM_RSN_INFORMATION_IE_TYPE = Some r"
    and cs: "r = - 1 \<or> r = - 2 \<or> (\<exists>k. r = int k \<and> ie_found ies MM_RSN_INFORMATION_IE_TYPE k)"
    by (rule find_ie_from_0 [OF assms])
  show ?thesis
  proof (cases "r < 0")
    case True
    then show ?thesis using r cs by (auto simp: mm_parse_rsn_information_def)
  next
    case False
    then obtain k where k: "r = int k" "k + 1 < length ies" "k + 2 + unat (ies ! (k + 1)) \<le> length ies"
      using cs by (auto simp: ie_found_def)
    then show ?thesis using r rsn_body_safe [of "k + 2" "ies ! (k + 1)" ies]
      by (auto simp: mm_parse_rsn_information_def load_def word_less_nat_alt)
  qed
qed

lemma s1g_reads_inside:
  assumes "length ies < 2 ^ 31"
  shows "\<exists>r out. mm_parse_s1g_operation ies (of_nat (length ies)) = Some (r, out) \<and> r \<in> {0, - 1, - 2}"
proof -
  obtain r where r: "mm_find_ie ies (of_nat (length ies)) MM_S1G_OPERATION_IE_TYPE = Some r"
    and cs: "r = - 1 \<or> r = - 2 \<or> (\<exists>k. r = int k \<and> ie_found ies MM_S1G_OPERATION_IE_TYPE k)"
    by (rule find_ie_from_0 [OF assms])
  then show ?thesis
    by (auto simp: mm_parse_s1g_operation_def ie_found_def load_def load_n_def)
qed

lemma vendor_reads_inside:
  assumes "length ies < 2 ^ 31" "length ident < 2 ^ 30" "off < length ies + 258"
  shows "\<exists>r. mm_find_vendor_specific_ie_from_offset ies (of_nat (length ies)) (of_nat off) ident
      (of_nat (length ident)) = Some r \<and>
    (r = - 1 \<or> r = - 2 \<or> (\<exists>k. r = int k \<and> off \<le> k \<and> ie_found ies MM_VENDOR_SPECIFIC_IE_TYPE k \<and>
      length ident \<le> unat (ies ! (k + 1)) \<and> region ies (k + 2) (length ident) = ident))"
  using assms(3)
proof (induction "length ies + 258 - off" arbitrary: off rule: less_induct)
  case less
  obtain r where r: "mm_find_ie_from_offset ies (of_nat (length ies)) (of_nat off) MM_VENDOR_SPECIFIC_IE_TYPE = Some r"
    and cs: "r = - 1 \<or> r = - 2 \<or> (\<exists>k. r = int k \<and> off \<le> k \<and> ie_found ies MM_VENDOR_SPECIFIC_IE_TYPE k)"
    by (rule find_ie_result [OF assms(1) less.prems])
  have idl: "unat (of_nat (length ident) :: u32) = length ident" using assms(2) by (intro unat_of_nat32) simp
  show ?case
  proof (cases "r < 0")
    case True
    then show ?thesis using r cs by (subst mm_find_vendor_specific_ie_from_offset.simps) auto
  next
    case False
    then obtain k where k: "r = int k" "off \<le> k" "ie_found ies MM_VENDOR_SPECIFIC_IE_TYPE k" using cs by auto
    let ?n = "k + 2 + unat (ies ! Suc k)"
    have nxt: "2 + ucast (ies ! Suc k) + (of_nat k) = (of_nat ?n :: u32)" by (simp add: add_ac)
    have kn: "?n \<le> length ies" using k(3) by (simp add: ie_found_def)
    then have fits: "\<not> (of_nat k + 2 + ucast (ies ! Suc k) > (of_nat (length ies) :: u32))"
      using unat_of_nat32 [of ?n] unat_of_nat32 [of "length ies"] assms(1)
      by (simp add: word_less_nat_alt add_ac)
    obtain r' where IH: "mm_find_vendor_specific_ie_from_offset ies (of_nat (length ies))
        (2 + ucast (ies ! Suc k) + of_nat k) ident (of_nat (length ident)) = Some r'"
      "r' = - 1 \<or> r' = - 2 \<or> (\<exists>k. r' = int k \<and> off \<le> k \<and> ie_found ies MM_VENDOR_SPECIFIC_IE_TYPE k \<and>
        length ident \<le> unat (ies ! (k + 1)) \<and> region ies (k + 2) (length ident) = ident)"
      unfolding nxt using less.hyps [of ?n] less.prems k kn by fastforce
    show ?thesis
      using r k kn idl fits IH
      by (subst mm_find_vendor_specific_ie_from_offset.simps)
        (auto simp: load_def load_n_def ie_found_def region_def)
  qed
qed


section \<open>Round trip of the RSN element\<close>

definition le16 :: "u16 \<Rightarrow> u8 list" where
  "le16 v = [ucast v, ucast (drop_bit 8 v)]"

definition be32 :: "u32 \<Rightarrow> u8 list" where
  "be32 v = [ucast (drop_bit 24 v), ucast (drop_bit 16 v), ucast (drop_bit 8 v), ucast v]"

definition encode_rsn :: "u16 \<Rightarrow> u32 \<Rightarrow> u32 list \<Rightarrow> u32 list \<Rightarrow> u16 \<Rightarrow> u8 list" where
  "encode_rsn version grp pws akms caps =
     le16 version @ be32 grp @ le16 (of_nat (length pws)) @ concat (map be32 pws) @
     le16 (of_nat (length akms)) @ concat (map be32 akms) @ le16 caps"

lemma load_drop: "drop off xs = a # ys \<Longrightarrow> load xs off = Some a" "drop off xs = a # ys \<Longrightarrow> drop (Suc off) xs = ys"
proof -
  assume d: "drop off xs = a # ys"
  then have "off < length xs" by (metis drop_all linorder_not_le list.distinct(1))
  then show "load xs off = Some a" using d by (simp add: load_def Cons_nth_drop_Suc [symmetric])
  show "drop (Suc off) xs = ys" using d by (metis drop_Suc list.sel(3) tl_drop)
qed

lemma load_le16_at:
  assumes "drop off ies = le16 v @ ys"
  shows "load_le16 ies off = Some v" "drop (off + 2) ies = ys"
proof -
  note d1 = load_drop [OF assms [unfolded le16_def append_Cons]]
  note d2 = load_drop [OF d1(2)]
  have "ucast (ucast v :: u8) OR push_bit 8 (ucast (ucast (drop_bit 8 v) :: u8)) = v"
    by (rule bit_word_eqI) (auto simp: bit_simps)
  then show "load_le16 ies off = Some v" using d1 d2 by (simp add: load_le16_def)
  show "drop (off + 2) ies = ys" using d2(2) by simp
qed

lemma load_be32_at:
  assumes "drop off ies = be32 v @ ys"
  shows "load_be32 ies off = Some v" "drop (off + 4) ies = ys"
proof -
  note d1 = load_drop [OF assms [unfolded be32_def append_Cons]]
  note d2 = load_drop [OF d1(2)]
  note d3 = load_drop [OF d2(2)]
  note d4 = load_drop [OF d3(2)]
  have "push_bit 24 (ucast (ucast (drop_bit 24 v) :: u8)) OR push_bit 16 (ucast (ucast (drop_bit 16 v) :: u8)) OR
      push_bit 8 (ucast (ucast (drop_bit 8 v) :: u8)) OR ucast (ucast v :: u8) = v" (is "?w = v")
  proof (rule bit_word_eqI)
    fix n assume "n < LENGTH(32)"
    then show "bit ?w n \<longleftrightarrow> bit v n"
      by (cases "24 \<le> n"; cases "16 \<le> n"; cases "8 \<le> n"; auto simp: bit_simps)
  qed
  then show "load_be32 ies off = Some v" using d1 d2 d3 d4 by (simp add: load_be32_def numeral_eq_Suc)
  show "drop (off + 4) ies = ys" using d4(2) by (simp add: numeral_eq_Suc)
qed

lemma suites_loop_skip:
  "kept \<le> ii \<Longrightarrow> suites_loop ies kept n ii arr off len = Some (arr, off + 4 * n, len - of_nat (4 * n))"
  by (induction n arbitrary: ii off len) (simp_all add: algebra_simps)

lemma suites_loop_at:
  assumes "drop off ies = concat (map be32 vs) @ ys" "kept \<le> length arr" "ii \<le> kept"
  shows "suites_loop ies kept (length vs) ii arr off len =
      Some (take ii arr @ take (kept - ii) vs @ drop (ii + length (take (kept - ii) vs)) arr,
            off + 4 * length vs, len - of_nat (4 * length vs))"
    and "drop (off + 4 * length vs) ies = ys"
proof -
  have "suites_loop ies kept (length vs) ii arr off len =
      Some (take ii arr @ take (kept - ii) vs @ drop (ii + length (take (kept - ii) vs)) arr,
            off + 4 * length vs, len - of_nat (4 * length vs)) \<and> drop (off + 4 * length vs) ies = ys"
    using assms
  proof (induction vs arbitrary: off ii arr len)
    case (Cons v vs)
    have "drop off ies = be32 v @ concat (map be32 vs) @ ys" using Cons.prems(1) by simp
    note v = load_be32_at [OF this]
    show ?case
    proof (cases "ii < kept")
      case True
      then have "take (Suc ii) (arr[ii := v]) = take ii arr @ [v]" "kept - ii = Suc (kept - Suc ii)"
        using Cons.prems(2) by (auto simp: take_Suc_conv_app_nth)
      then show ?thesis using Cons.IH [OF v(2), of "arr[ii := v]" "Suc ii" "len - 4"] Cons.prems True v(1)
        by (simp add: store_def algebra_simps)
    next
      case False
      then show ?thesis using Cons.IH [OF v(2), of arr kept len] Cons.prems
        by (simp add: suites_loop_skip algebra_simps)
    qed
  qed simp
  then show "suites_loop ies kept (length vs) ii arr off len =
      Some (take ii arr @ take (kept - ii) vs @ drop (ii + length (take (kept - ii) vs)) arr,
            off + 4 * length vs, len - of_nat (4 * length vs))"
    "drop (off + 4 * length vs) ies = ys" by blast+
qed


lemma length_be32s: "length (concat (map be32 vs)) = 4 * length vs"
  by (induction vs) (simp_all add: be32_def)

lemma min2: "n < 2 ^ 16 \<Longrightarrow> unat (if (2 :: u16) < of_nat n then 2 else of_nat n :: u16) = min 2 n"
  by (simp add: word_less_nat_alt unat_of_nat take_bit_eq_mod)

lemma pad2: "take (min 2 (length vs)) vs @ drop (min 2 (length vs)) [0, 0] = take 2 (vs @ [0, 0 :: u32])"
  by (cases vs; cases "tl vs") auto

lemma unat_u16: "n < 2 ^ 16 \<Longrightarrow> unat (of_nat n :: u16) = n"
  by (simp add: unat_of_nat take_bit_eq_mod)

lemma suites_from_zero:
  assumes "drop off ies = concat (map be32 vs) @ ys"
  shows "suites_loop ies (min 2 (length vs)) (length vs) 0 [0, 0] off len =
      Some (take 2 (vs @ [0, 0]), off + 4 * length vs, len - of_nat (4 * length vs))"
    and "drop (off + 4 * length vs) ies = ys"
proof -
  have k: "min 2 (length vs) \<le> length [0, 0 :: u32]" by simp
  show "drop (off + 4 * length vs) ies = ys" by (rule suites_loop_at(2) [OF assms k le0])
  show "suites_loop ies (min 2 (length vs)) (length vs) 0 [0, 0] off len =
      Some (take 2 (vs @ [0, 0]), off + 4 * length vs, len - of_nat (4 * length vs))"
    unfolding suites_loop_at(1) [OF assms k le0] pad2 [symmetric] by simp
qed

definition rsn_result :: "u16 \<Rightarrow> u32 \<Rightarrow> u32 list \<Rightarrow> u32 list \<Rightarrow> u16 \<Rightarrow> mm_rsn_information" where
  "rsn_result version grp pws akms caps =
     \<lparr>rsn_group_cipher_suite = grp, rsn_pairwise_cipher_suites = take 2 (pws @ [0, 0]),
      rsn_akm_suites = take 2 (akms @ [0, 0]), rsn_num_pairwise_cipher_suites = of_nat (min 2 (length pws)),
      rsn_num_akm_suites = of_nat (min 2 (length akms)), rsn_version = version, rsn_capabilities = caps\<rparr>"

lemma kept_word: "n < 2 ^ 16 \<Longrightarrow> (if (2 :: u16) < of_nat n then 2 else of_nat n :: u16) = of_nat (min 2 n)"
  by (simp add: word_less_nat_alt unat_of_nat take_bit_eq_mod min_def)

lemma rsn_akm_part_at:
  assumes "drop off ies = le16 (of_nat (length akms)) @ concat (map be32 akms) @ le16 caps @ ys"
    and "unat len = 2 + 4 * length akms + 2" "rsn_akm_suites out = [0, 0]"
  shows "rsn_akm_part ies off len out =
    Some (0, out\<lparr>rsn_num_akm_suites := of_nat (min 2 (length akms)), rsn_akm_suites := take 2 (akms @ [0, 0]),
      rsn_capabilities := caps\<rparr>)"
proof -
  have "unat len < 2 ^ LENGTH(8)" by (rule unsigned_less)
  then have small: "length akms < 2 ^ 16" using assms(2) by simp
  note n = load_le16_at [OF assms(1)]
  note a = suites_from_zero(1) [OF n(2), of "len - 2"]
  note c = load_le16_at [OF suites_from_zero(2) [OF n(2)]]
  have "unat (len - 2) = 4 * length akms + 2" using assms(2) by (simp add: unat_sub word_le_nat_alt)
  then have guard: "\<not> int (unat (len - 2)) < 4 * int (length akms) + 2" by simp
  show ?thesis unfolding rsn_akm_part_def n(1) Let_def Option.bind.bind_lunit kept_word [OF small]
      unat_u16 [OF small] using guard a c(1) assms(3) by (simp add: unat_u16)
qed


lemma length_encode_rsn: "length (encode_rsn v g pws akms caps) = 12 + 4 * length pws + 4 * length akms"
  by (simp only: encode_rsn_def length_append length_be32s) (simp add: le16_def be32_def)

lemma rsn_body_at:
  assumes "drop off ies = encode_rsn v g pws akms caps @ ys"
    and "unat len = length (encode_rsn v g pws akms caps)"
  shows "rsn_body ies off len = Some (0, rsn_result v g pws akms caps)"
proof -
  have "unat len < 2 ^ LENGTH(8)" by (rule unsigned_less)
  then have small: "length pws < 2 ^ 16" using assms(2) by (simp add: length_encode_rsn)
  note n0 = load_le16_at [OF assms(1) [unfolded encode_rsn_def append_assoc]]
  note n1 = load_be32_at [OF n0(2)]
  have "drop (off + 6) ies = le16 (of_nat (length pws)) @ concat (map be32 pws) @
     le16 (of_nat (length akms)) @ concat (map be32 akms) @ le16 caps @ ys" using n1(2) by (simp add: add.commute)
  note n2 = load_le16_at [OF this]
  have "drop (off + 8) ies = concat (map be32 pws) @
     le16 (of_nat (length akms)) @ concat (map be32 akms) @ le16 caps @ ys" using n2(2) by (simp add: add.commute)
  note p1 = suites_from_zero(1) [OF this, of "len - 2 - 4 - 2"] and p2 = suites_from_zero(2) [OF this]
  have len8: "unat (len - 2 - 4 - 2) = 4 + 4 * length pws + 4 * length akms"
    using len_sub_8 [of len] assms(2) by (simp add: length_encode_rsn word_le_nat_alt)
  then have guard: "\<not> int (unat (len - 2 - 4 - 2)) < 4 * int (length pws) + 2" by simp
  let ?len = "len - 2 - 4 - 2 - of_nat (4 * length pws)"
  have "unat (of_nat (4 * length pws) :: u8) = 4 * length pws"
    using assms(2) \<open>unat len < _\<close> unat_len8 [of "4 * length pws"] by (simp add: length_encode_rsn)
  then have "unat ?len = 2 + 4 * length akms + 2"
    using len8 by (simp add: unat_sub word_le_nat_alt)
  note a = rsn_akm_part_at [OF p2 this]
  show ?thesis unfolding rsn_body_def n0(1) n1(1) n2(1) Let_def Option.bind.bind_lunit kept_word [OF small]
      unat_u16 [OF small]
    using guard p1 a by (simp add: unat_u16 rsn_zero_def rsn_result_def)
qed

text \<open>C22: The RSN element round trip: in a frame of well-formed elements whose first RSN element is
  built from a version, a group cipher, lists of pairwise ciphers and AKM suites and the
  capabilities, \<open>mm_parse_rsn_information\<close> succeeds and returns exactly these fields, the first
  two suites of each list and their number cut to two.\<close>

theorem rsn_roundtrip:
  assumes "\<forall>e \<in> set es. length (snd e) \<le> 255" "\<forall>e \<in> set es. fst e \<noteq> MM_RSN_INFORMATION_IE_TYPE"
    and "length (encode_rsn v g pws akms caps) \<le> 255"
    and "ies = encode_ies (es @ (MM_RSN_INFORMATION_IE_TYPE, encode_rsn v g pws akms caps) # fs)"
    and "length ies < 2 ^ 31"
  shows "mm_parse_rsn_information ies (of_nat (length ies)) = Some (0, rsn_result v g pws akms caps)"
proof -
  let ?k = "length (encode_ies es)" and ?b = "encode_rsn v g pws akms caps"
  have f: "mm_find_ie ies (of_nat (length ies)) MM_RSN_INFORMATION_IE_TYPE = Some (int ?k)"
    using find_encoded [OF assms(1-3), of fs] assms(4,5) by simp
  have d: "drop ?k ies = MM_RSN_INFORMATION_IE_TYPE # of_nat (length ?b) # ?b @ encode_ies fs"
    unfolding assms(4) by (simp add: encode_ies_def encode_ie_def)
  note d1 = load_drop [OF d]
  note d2 = load_drop [OF d1(2)]
  have len: "unat (of_nat (length ?b) :: u8) = length ?b" by (rule unat_len8 [OF assms(3)])
  have "\<not> (of_nat (length ?b) :: u8) < 8" using len by (simp add: word_less_nat_alt length_encode_rsn)
  then show ?thesis using f d2 rsn_body_at [OF d2(2) len]
    by (simp add: mm_parse_rsn_information_def)
qed

theorem rsn_roundtrip_witness:
  "mm_parse_rsn_information [48, 20, 1, 0, 0, 15, 172, 4, 1, 0, 0, 15, 172, 4, 1, 0, 0, 15, 172, 8, 192, 0] 22 =
     Some (0, \<lparr>rsn_group_cipher_suite = 0x000fac04, rsn_pairwise_cipher_suites = [0x000fac04, 0],
       rsn_akm_suites = [0x000fac08, 0], rsn_num_pairwise_cipher_suites = 1, rsn_num_akm_suites = 1,
       rsn_version = 1, rsn_capabilities = 192\<rparr>)"
proof -
  have "be32 0x000fac04 = [0, 15, 172, 4]" "be32 0x000fac08 = [0, 15, 172, 8]" by code_simp+
  then show ?thesis
    using rsn_roundtrip [where es = "[]" and v = 1 and g = "0x000fac04" and pws = "[0x000fac04]" and
      akms = "[0x000fac08]" and caps = 192 and fs = "[]", OF _ _ _ refl]
    by (simp add: encode_ies_def encode_ie_def encode_rsn_def le16_def rsn_result_def
        MM_RSN_INFORMATION_IE_TYPE_def)
qed

text \<open>C6: The parsers are memory safe on untrusted input: for every block of bytes shorter than
  \<open>2 ^ 31\<close>, whatever it holds, the searches and the RSN and S1G parsers end without
  reading outside it and return 0, an offset inside it, or one of the two documented errors; a vendor
  specific element that is returned lies inside the block and starts with the identifier.\<close>

theorem ie_parsers_safe:
  assumes "length ies < 2 ^ 31" "length ident < 2 ^ 30"
  shows "(\<exists>r. mm_find_ie ies (of_nat (length ies)) t = Some r \<and>
      (r = - 1 \<or> r = - 2 \<or> (\<exists>k. r = int k \<and> ie_found ies t k))) \<and>
    (\<exists>r out. mm_parse_rsn_information ies (of_nat (length ies)) = Some (r, out) \<and> r \<in> {0, - 1, - 2}) \<and>
    (\<exists>r out. mm_parse_s1g_operation ies (of_nat (length ies)) = Some (r, out) \<and> r \<in> {0, - 1, - 2}) \<and>
    (\<exists>r. mm_find_vendor_specific_ie_from_offset ies (of_nat (length ies)) 0 ident (of_nat (length ident)) = Some r \<and>
      (r = - 1 \<or> r = - 2 \<or> (\<exists>k. r = int k \<and> ie_found ies MM_VENDOR_SPECIFIC_IE_TYPE k \<and>
        length ident \<le> unat (ies ! (k + 1)) \<and> region ies (k + 2) (length ident) = ident)))"
proof (intro conjI)
  show "\<exists>r. mm_find_ie ies (of_nat (length ies)) t = Some r \<and>
      (r = - 1 \<or> r = - 2 \<or> (\<exists>k. r = int k \<and> ie_found ies t k))"
    by (rule find_ie_from_0 [OF assms(1), of t]) blast
  show "\<exists>r. mm_find_vendor_specific_ie_from_offset ies (of_nat (length ies)) 0 ident (of_nat (length ident)) = Some r \<and>
      (r = - 1 \<or> r = - 2 \<or> (\<exists>k. r = int k \<and> ie_found ies MM_VENDOR_SPECIFIC_IE_TYPE k \<and>
        length ident \<le> unat (ies ! (k + 1)) \<and> region ies (k + 2) (length ident) = ident))"
    using vendor_reads_inside [OF assms, of 0] by auto
qed (rule rsn_reads_inside [OF assms(1)] s1g_reads_inside [OF assms(1)])+

theorem ie_parsers_safe_witness:
  "\<exists>r out. mm_parse_rsn_information [48, 200, 1] (of_nat (length [48, 200, 1 :: u8])) = Some (r, out)"
  using ie_parsers_safe [of "[48, 200, 1]" "[]" 0] by (simp del: of_nat_numeral) blast

end
