(* ===== verification/Osal.thy ===== *)
theory Osal
  imports Mmpkt
begin

text \<open>
  The operating system abstraction: \<^verbatim>\<open>framework/mm_shims/mmosal_shim_freertos_esp32.c\<close> and the inline time
  functions of \<^verbatim>\<open>mmosal.h\<close>. The log of failures that survives a reset is a ring in memory; time
  comparison works modulo \<open>2 ^ 32\<close>; blocking calls translate milliseconds into ticks; timers
  delegate to the ESP timer service. FreeRTOS and the ESP timers are records of operations.
\<close>

section \<open>The failure log\<close>

record mmosal_failure_info =
  fi_pc :: u32
  fi_lr :: u32
  fi_fileid :: u32
  fi_line :: u32
  fi_platform_info :: "u32 list"

record failure_log =
  fl_magic :: u32
  fl_failure_count :: u32
  fl_displayed_failure_count :: u32
  fl_info :: "mmosal_failure_info list"

definition ASSERT_INFO_MAGIC :: u32 where "ASSERT_INFO_MAGIC = 0xabcd1234"
definition MAX_FAILURE_RECORDS :: u32 where "MAX_FAILURE_RECORDS = 4"

definition FAST_MOD :: "u32 \<Rightarrow> u32 \<Rightarrow> u32" where
  "FAST_MOD x m = (x AND (m - 1))"

definition mmosal_log_failure_info :: "failure_log \<Rightarrow> mmosal_failure_info \<Rightarrow> failure_log" where
  "mmosal_log_failure_info p info =
     (let p = (if fl_magic p \<noteq> ASSERT_INFO_MAGIC
            then p\<lparr>fl_failure_count := 0, fl_displayed_failure_count := 0\<rparr> else p);
          p = p\<lparr>fl_magic := ASSERT_INFO_MAGIC\<rparr>;
          record_num = FAST_MOD (fl_failure_count p) MAX_FAILURE_RECORDS in
      p\<lparr>fl_failure_count := fl_failure_count p + 1,
        fl_info := (fl_info p)[unat record_num := info]\<rparr>)"

text \<open>The dump prints a number and a record for each failure.\<close>

definition mmosal_dump_failure_info :: "failure_log \<Rightarrow> failure_log \<times> (u32 \<times> mmosal_failure_info) list" where
  "mmosal_dump_failure_info p =
     (let first_failure_num = fl_displayed_failure_count p;
          new_failure_count = fl_failure_count p - fl_displayed_failure_count p;
          (first_failure_num, new_failure_count) =
            (if new_failure_count \<ge> MAX_FAILURE_RECORDS
             then (FAST_MOD (fl_failure_count p) MAX_FAILURE_RECORDS, MAX_FAILURE_RECORDS)
             else (first_failure_num, new_failure_count)) in
      (p\<lparr>fl_displayed_failure_count := fl_failure_count p\<rparr>,
       map (\<lambda>failure_offset.
         let idx = FAST_MOD (first_failure_num + of_nat failure_offset) MAX_FAILURE_RECORDS in
         (first_failure_num + of_nat failure_offset, fl_info p ! unat idx))
         [0..<unat new_failure_count]))"

definition dump_at_boot :: "failure_log \<Rightarrow> failure_log \<times> (u32 \<times> mmosal_failure_info) list" where
  "dump_at_boot p = (if fl_magic p = ASSERT_INFO_MAGIC then mmosal_dump_failure_info p else (p, []))"

lemma fast_mod_4: "unat (FAST_MOD x MAX_FAILURE_RECORDS) = unat x mod 4"
proof -
  have "(x AND 3) = take_bit 2 x" by (simp add: take_bit_eq_mask mask_eq_exp_minus_1)
  then show ?thesis by (simp add: FAST_MOD_def MAX_FAILURE_RECORDS_def unat_mod take_bit_eq_mod)
qed

lemma mod4_add: "unat (a + of_nat k :: u32) mod 4 = (unat a + k) mod 4"
proof -
  have d: "4 dvd (2 ^ 32 :: nat)" by simp
  have "unat (a + of_nat k :: u32) mod 4 = (unat a + k mod 2 ^ 32) mod 2 ^ 32 mod 4"
    by (simp add: unat_word_ariths unat_of_nat take_bit_eq_mod)
  also have "\<dots> = (unat a + k mod 2 ^ 32 mod 4) mod 4" by (simp only: mod_mod_cancel [OF d] mod_add_right_eq)
  also have "\<dots> = (unat a + k) mod 4" by (simp only: mod_mod_cancel [OF d] mod_add_right_eq)
  finally show ?thesis .
qed

text \<open>
  The ring after logging \<open>xs\<close>: of the last four, the record \<open>j\<close> places before the last is \<open>j + 1\<close>
  places behind the next one to be written.
\<close>

definition ring_holds :: "failure_log \<Rightarrow> mmosal_failure_info list \<Rightarrow> bool" where
  "ring_holds p xs \<longleftrightarrow> fl_magic p = ASSERT_INFO_MAGIC \<and> length (fl_info p) = 4 \<and>
     fl_failure_count p = fl_displayed_failure_count p + of_nat (length xs) \<and>
     (\<forall>j < min 4 (length xs). fl_info p ! ((unat (fl_failure_count p) mod 4 + 3 - j) mod 4) = rev xs ! j)"

lemma below_4: "(n :: nat) < 4 \<Longrightarrow> n = 0 \<or> n = 1 \<or> n = 2 \<or> n = 3"
  by arith

lemma ringD:
  assumes "ring_holds p xs"
  shows "fl_magic p = ASSERT_INFO_MAGIC" "length (fl_info p) = 4"
    "fl_failure_count p = fl_displayed_failure_count p + of_nat (length xs)"
    "j < 4 \<Longrightarrow> j < length xs \<Longrightarrow> fl_info p ! ((unat (fl_failure_count p) mod 4 + 3 - j) mod 4) = rev xs ! j"
  using assms unfolding ring_holds_def by auto

lemma log_ring:
  assumes "ring_holds p xs"
  shows "ring_holds (mmosal_log_failure_info p i) (xs @ [i])"
proof -
  let ?r = "unat (fl_failure_count p) mod 4"
  have r: "?r < 4" by simp
  have r': "unat (fl_failure_count p + 1) mod 4 = (?r + 1) mod 4"
    using mod4_add [of "fl_failure_count p" 1] by (simp add: mod_Suc_eq)
  have "(fl_info p)[?r := i] ! (((?r + 1) mod 4 + 3 - j) mod 4) = (i # rev xs) ! j" if "j < min 4 (Suc (length xs))" for j
  proof (cases j)
    case 0
    then show ?thesis using ringD(2) [OF assms] below_4 [OF r] by auto
  next
    case (Suc k)
    then have k: "k < 3" "k < length xs" using that by auto
    then have "fl_info p ! ((?r + 3 - k) mod 4) = rev xs ! k" using ringD(4) [OF assms, of k] by simp
    moreover have "((?r + 1) mod 4 + 3 - j) mod 4 = (?r + 3 - k) mod 4" "(?r + 3 - k) mod 4 \<noteq> ?r"
      using Suc k(1) below_4 [OF r] below_4 [of k] by auto
    ultimately show ?thesis using Suc by simp
  qed
  then show ?thesis using ringD(1-3) [OF assms] r r'
    by (auto simp: ring_holds_def mmosal_log_failure_info_def Let_def fast_mod_4)
qed

lemma log_first:
  assumes "fl_magic p \<noteq> ASSERT_INFO_MAGIC \<or> fl_failure_count p = fl_displayed_failure_count p"
    and "length (fl_info p) = 4"
  shows "ring_holds (mmosal_log_failure_info p i) [i]"
proof (cases "fl_magic p = ASSERT_INFO_MAGIC")
  case True
  then have "ring_holds p []" using assms by (simp add: ring_holds_def)
  from log_ring [OF this, of i] show ?thesis by simp
next
  case False
  have "ring_holds (p\<lparr>fl_magic := ASSERT_INFO_MAGIC, fl_failure_count := 0, fl_displayed_failure_count := 0\<rparr>) []"
    using assms by (simp add: ring_holds_def)
  from log_ring [OF this, of i] show ?thesis using False
    by (simp add: mmosal_log_failure_info_def Let_def)
qed

lemma log_all_ring: "ring_holds p xs \<Longrightarrow> ring_holds (foldl mmosal_log_failure_info p ys) (xs @ ys)"
  by (induction ys arbitrary: p xs) (auto dest: log_ring, metis append.assoc append_Cons append_Nil log_ring)

lemma ring_index:
  assumes "(d :: nat) < 4" "k < n" "n < 4"
  shows "(d + k) mod 4 = ((d + n) mod 4 + 3 - (n - 1 - k)) mod 4"
  using below_4 [OF assms(1)] below_4 [OF assms(3)] below_4 [of k] assms(2,3) by auto

lemma ring_dump:
  assumes "ring_holds p xs" "length xs < 2 ^ 32"
  shows "map snd (snd (mmosal_dump_failure_info p)) = drop (length xs - 4) xs"
proof (rule nth_equalityI)
  let ?n = "length xs" and ?r = "unat (fl_failure_count p) mod 4"
  have new: "fl_failure_count p - fl_displayed_failure_count p = of_nat ?n" using assms(1) by (simp add: ring_holds_def)
  have n: "unat (of_nat ?n :: u32) = ?n" by (rule unat_of_nat32 [OF assms(2)])
  have many: "MAX_FAILURE_RECORDS \<le> of_nat ?n \<longleftrightarrow> 4 \<le> ?n" by (simp add: MAX_FAILURE_RECORDS_def word_le_nat_alt n)
  have four: "unat MAX_FAILURE_RECORDS = 4" by (simp add: MAX_FAILURE_RECORDS_def)
  show "length (map snd (snd (mmosal_dump_failure_info p))) = length (drop (?n - 4) xs)"
    using many by (auto simp: mmosal_dump_failure_info_def new n four Let_def)
  fix k assume "k < length (map snd (snd (mmosal_dump_failure_info p)))"
  then have k: "k < min 4 ?n" using many by (auto simp: mmosal_dump_failure_info_def new n four Let_def split: if_splits)
  have at: "fl_info p ! ((?r + 3 - j) mod 4) = rev xs ! j" if "j < min 4 ?n" for j
    using ringD(4) [OF assms(1), of j] that by simp
  show "map snd (snd (mmosal_dump_failure_info p)) ! k = drop (?n - 4) xs ! k"
  proof (cases "4 \<le> ?n")
    case True
    have "(unat (FAST_MOD (fl_failure_count p) MAX_FAILURE_RECORDS) + k) mod 4 = (?r + 3 - (3 - k)) mod 4"
      using k fast_mod_4 by simp
    then show ?thesis using True k at [of "3 - k"] many
      by (simp add: mmosal_dump_failure_info_def new n four Let_def fast_mod_4 mod4_add rev_nth)
  next
    case False
    let ?d = "unat (fl_displayed_failure_count p) mod 4"
    have "?r = (?d + ?n) mod 4"
      using ringD(3) [OF assms(1)] mod4_add by (simp add: mod_add_left_eq)
    moreover have "(unat (fl_displayed_failure_count p) + k) mod 4 = (?d + k) mod 4" by (simp add: mod_add_left_eq)
    moreover have "(?d + k) mod 4 = ((?d + ?n) mod 4 + 3 - (?n - 1 - k)) mod 4"
      by (rule ring_index) (use k False in auto)
    ultimately have "(unat (fl_displayed_failure_count p) + k) mod 4 = (?r + 3 - (?n - 1 - k)) mod 4" by simp
    then show ?thesis using False k at [of "?n - 1 - k"] many
      by (simp add: mmosal_dump_failure_info_def new n four Let_def fast_mod_4 mod4_add rev_nth)
  qed
qed


text \<open>The failure log: whatever the memory held at power-up, and also after an earlier dump, the
  dump at the next boot after the failures \<open>xs\<close> prints exactly the last four of them (all, when
  there are fewer), oldest first, and a second dump prints nothing.\<close>

theorem failure_log_dump:
  assumes "fl_magic p \<noteq> ASSERT_INFO_MAGIC \<or> fl_failure_count p = fl_displayed_failure_count p"
    and "length (fl_info p) = 4" "xs \<noteq> []" "length xs < 2 ^ 32"
    and "dump_at_boot (foldl mmosal_log_failure_info p xs) = (q, out)"
  shows "map snd out = drop (length xs - 4) xs \<and> snd (dump_at_boot q) = []"
proof -
  obtain x ys where xs: "xs = x # ys" using assms(3) by (cases xs) auto
  have ring: "ring_holds (foldl mmosal_log_failure_info p xs) xs"
    using log_all_ring [OF log_first [OF assms(1,2), of x], of ys] xs by simp
  then have d: "mmosal_dump_failure_info (foldl mmosal_log_failure_info p xs) = (q, out)"
    using assms(5) ringD(1) by (simp add: dump_at_boot_def)
  then have "q = (foldl mmosal_log_failure_info p xs)
      \<lparr>fl_displayed_failure_count := fl_failure_count (foldl mmosal_log_failure_info p xs)\<rparr>"
    by (auto simp: mmosal_dump_failure_info_def Let_def split: if_splits)
  then have "snd (dump_at_boot q) = []"
    by (simp add: dump_at_boot_def mmosal_dump_failure_info_def MAX_FAILURE_RECORDS_def Let_def)
  then show ?thesis using ring_dump [OF ring assms(4)] d by simp
qed

definition example_failure :: "u32 \<Rightarrow> mmosal_failure_info" where
  "example_failure n = \<lparr>fi_pc = n, fi_lr = 0, fi_fileid = 0, fi_line = 0, fi_platform_info = [0, 0, 0, 0]\<rparr>"

definition example_log :: failure_log where
  "example_log = \<lparr>fl_magic = 7, fl_failure_count = 9, fl_displayed_failure_count = 3,
     fl_info = replicate 4 (example_failure 0)\<rparr>"

theorem failure_log_dump_witness:
  "map snd (snd (dump_at_boot (foldl mmosal_log_failure_info example_log (map example_failure [1, 2, 3, 4, 5])))) =
     map example_failure [2, 3, 4, 5]"
proof -
  have "fl_magic example_log \<noteq> ASSERT_INFO_MAGIC" "length (fl_info example_log) = 4"
    by (simp_all add: example_log_def ASSERT_INFO_MAGIC_def)
  then show ?thesis
    using failure_log_dump [of example_log "map example_failure [1, 2, 3, 4, 5]", OF _ _ _ _ prod.collapse [symmetric]]
    by simp
qed

section \<open>Time\<close>

definition mmosal_time_lt :: "u32 \<Rightarrow> u32 \<Rightarrow> bool" where
  "mmosal_time_lt a b \<longleftrightarrow> sint (a - b) < 0"

definition mmosal_time_le :: "u32 \<Rightarrow> u32 \<Rightarrow> bool" where
  "mmosal_time_le a b \<longleftrightarrow> sint (a - b) \<le> 0"

definition mmosal_time_max :: "u32 \<Rightarrow> u32 \<Rightarrow> u32" where
  "mmosal_time_max a b = (if mmosal_time_lt a b then b else a)"

text \<open>\<open>ticks\<close> is \<open>xTaskGetTickCount()\<close> and \<open>tick_ms\<close> is \<open>portTICK_PERIOD_MS\<close>.\<close>

definition mmosal_get_time_ms :: "u32 \<Rightarrow> u32 \<Rightarrow> u32" where
  "mmosal_get_time_ms tick_ms ticks = ticks * tick_ms"

definition mmosal_time_has_passed :: "u32 \<Rightarrow> u32 \<Rightarrow> u32 \<Rightarrow> bool" where
  "mmosal_time_has_passed tick_ms ticks t \<longleftrightarrow> mmosal_time_le t (mmosal_get_time_ms tick_ms ticks)"

definition mmosal_ticks_per_second :: "u32 \<Rightarrow> u32" where
  "mmosal_ticks_per_second tick_ms = tick_ms * 1000"

lemma sint_neg: "sint (x :: u32) < 0 \<longleftrightarrow> 2 ^ 31 \<le> unat x"
proof -
  have "sint x < 0 \<longleftrightarrow> bit (uint x) 31" by (simp add: sint_uint signed_take_bit_negative_iff)
  also have "\<dots> \<longleftrightarrow> bit (unat x) 31" by (simp add: bit_simps)
  also have "\<dots> \<longleftrightarrow> odd (unat x div 2 ^ 31)" by (rule bit_iff_odd)
  also have "\<dots> \<longleftrightarrow> 2 ^ 31 \<le> unat x"
  proof -
    have "unat x div 2 ^ 31 < 2" using unat_u32 [of x] by (simp add: div_less_iff_less_mult)
    then have "odd (unat x div 2 ^ 31) \<longleftrightarrow> 0 < unat x div 2 ^ 31" by (cases "unat x div 2 ^ 31") auto
    then show ?thesis by (simp add: div_greater_zero_iff)
  qed
  finally show ?thesis .
qed

lemma unat_minus32: "(k :: u32) \<noteq> 0 \<Longrightarrow> unat (- k) = 2 ^ 32 - unat k"
  using unat_sub_if_size [of 0 k] by (simp add: word_size unat_eq_zero)

text \<open>Time comparison survives the wrap-around of the 32-bit clock: a time less than \<open>2 ^ 31\<close>
  after another is later than it, also across zero, is their maximum, and has not passed when the
  clock shows the earlier one, while the earlier one has passed at the later one.\<close>

theorem time_order_wraps:
  assumes "0 < unat k" "unat k < 2 ^ 31"
  shows "mmosal_time_lt a (a + k) \<and> \<not> mmosal_time_lt (a + k) a \<and> mmosal_time_le a (a + k) \<and>
    \<not> mmosal_time_le (a + k) a \<and> mmosal_time_max a (a + k) = a + k \<and> mmosal_time_max (a + k) a = a + k \<and>
    (mmosal_get_time_ms tick_ms ticks = a \<longrightarrow> \<not> mmosal_time_has_passed tick_ms ticks (a + k)) \<and>
    (mmosal_get_time_ms tick_ms ticks = a + k \<longrightarrow> mmosal_time_has_passed tick_ms ticks a)"
proof -
  have nz: "k \<noteq> 0" using assms(1) by auto
  have s: "sint (- k) < 0" "\<not> sint k < 0"
    using assms sint_neg [of "- k"] sint_neg [of k] unat_minus32 [OF nz] by auto
  moreover have "sint k \<noteq> 0" using nz by (simp add: signed_eq_0_iff)
  ultimately have "sint k > 0" by linarith
  with s show ?thesis
    by (auto simp: mmosal_time_lt_def mmosal_time_le_def mmosal_time_max_def mmosal_time_has_passed_def)
qed

theorem time_order_wraps_witness: "mmosal_time_lt (- 1) 1 \<and> \<not> mmosal_time_lt 1 (- 1)"
  using time_order_wraps [of 2 "- 1"] by simp


text \<open>The number of ticks in a second is \<open>1000 / tick_ms\<close>: the function is right for the tick of
  1 ms the projects configure, and with a tick of 10 ms it is a hundred times too big.\<close>

lemma ticks_per_second_10ms: "mmosal_ticks_per_second 10 = 100 * (1000 div 10)"
  by (simp add: mmosal_ticks_per_second_def)

section \<open>Blocking calls\<close>

text \<open>
  The FreeRTOS calls with a timeout in ticks, on a state of the kernel; a handle is a number.
\<close>

record ('k, 'x) freertos =
  xSemaphoreTake :: "'k \<Rightarrow> nat \<Rightarrow> u32 \<Rightarrow> 'k \<times> bool"
  xSemaphoreGive :: "'k \<Rightarrow> nat \<Rightarrow> 'k \<times> bool"
  xQueueReceive :: "'k \<Rightarrow> nat \<Rightarrow> u32 \<Rightarrow> 'k \<times> 'x option"
  xQueueSendToBack :: "'k \<Rightarrow> nat \<Rightarrow> 'x \<Rightarrow> u32 \<Rightarrow> 'k \<times> bool"
  vTaskDelay :: "'k \<Rightarrow> u32 \<Rightarrow> 'k"
  portTICK_PERIOD_MS :: u32

definition portMAX_DELAY :: u32 where "portMAX_DELAY = - 1"

definition timeout_ticks :: "u32 \<Rightarrow> u32 \<Rightarrow> u32" where
  "timeout_ticks tick_ms timeout_ms =
     (if timeout_ms \<noteq> - 1 then timeout_ms div tick_ms else portMAX_DELAY)"

definition mmosal_mutex_get :: "('k, 'x) freertos \<Rightarrow> 'k \<Rightarrow> nat \<Rightarrow> u32 \<Rightarrow> 'k \<times> bool" where
  "mmosal_mutex_get R k mutex timeout_ms =
     xSemaphoreTake R k mutex (timeout_ticks (portTICK_PERIOD_MS R) timeout_ms)"

definition mmosal_mutex_release :: "('k, 'x) freertos \<Rightarrow> 'k \<Rightarrow> nat \<Rightarrow> 'k \<times> bool" where
  "mmosal_mutex_release R k mutex = xSemaphoreGive R k mutex"

definition mmosal_sem_give :: "('k, 'x) freertos \<Rightarrow> 'k \<Rightarrow> nat \<Rightarrow> 'k \<times> bool" where
  "mmosal_sem_give R k sem = xSemaphoreGive R k sem"

definition mmosal_sem_wait :: "('k, 'x) freertos \<Rightarrow> 'k \<Rightarrow> nat \<Rightarrow> u32 \<Rightarrow> 'k \<times> bool" where
  "mmosal_sem_wait R k sem timeout_ms =
     xSemaphoreTake R k sem (timeout_ticks (portTICK_PERIOD_MS R) timeout_ms)"

definition mmosal_semb_give :: "('k, 'x) freertos \<Rightarrow> 'k \<Rightarrow> nat \<Rightarrow> 'k \<times> bool" where
  "mmosal_semb_give R k semb = xSemaphoreGive R k semb"

definition mmosal_semb_wait :: "('k, 'x) freertos \<Rightarrow> 'k \<Rightarrow> nat \<Rightarrow> u32 \<Rightarrow> 'k \<times> bool" where
  "mmosal_semb_wait R k semb timeout_ms =
     xSemaphoreTake R k semb (timeout_ticks (portTICK_PERIOD_MS R) timeout_ms)"

definition mmosal_queue_pop :: "('k, 'x) freertos \<Rightarrow> 'k \<Rightarrow> nat \<Rightarrow> u32 \<Rightarrow> 'k \<times> 'x option" where
  "mmosal_queue_pop R k queue timeout_ms =
     xQueueReceive R k queue (timeout_ticks (portTICK_PERIOD_MS R) timeout_ms)"

definition mmosal_queue_push :: "('k, 'x) freertos \<Rightarrow> 'k \<Rightarrow> nat \<Rightarrow> 'x \<Rightarrow> u32 \<Rightarrow> 'k \<times> bool" where
  "mmosal_queue_push R k queue item timeout_ms =
     xQueueSendToBack R k queue item (timeout_ticks (portTICK_PERIOD_MS R) timeout_ms)"

definition mmosal_task_sleep :: "('k, 'x) freertos \<Rightarrow> 'k \<Rightarrow> u32 \<Rightarrow> 'k" where
  "mmosal_task_sleep R k duration_ms = vTaskDelay R k (duration_ms div portTICK_PERIOD_MS R)"

text \<open>A finite timeout never becomes the infinite one, and is rounded down to whole ticks.\<close>

lemma timeout_ticks_finite:
  assumes "0 < unat tick_ms" "timeout_ms \<noteq> - 1"
  shows "timeout_ticks tick_ms timeout_ms \<noteq> portMAX_DELAY"
    and "unat (timeout_ticks tick_ms timeout_ms) * unat tick_ms \<le> unat timeout_ms"
    and "unat timeout_ms < (unat (timeout_ticks tick_ms timeout_ms) + 1) * unat tick_ms"
proof -
  have t: "unat (timeout_ticks tick_ms timeout_ms) = unat timeout_ms div unat tick_ms"
    using assms(2) by (simp add: timeout_ticks_def unat_div)
  have "unat timeout_ms \<noteq> unat (- 1 :: u32)" using assms(2) by (simp add: word_unat_eq_iff)
  then have "unat timeout_ms < unat (portMAX_DELAY)"
    using unat_u32 [of timeout_ms] unat_minus32 [of 1] by (simp add: portMAX_DELAY_def)
  moreover have "unat timeout_ms div unat tick_ms \<le> unat timeout_ms" by (rule div_le_dividend)
  ultimately show "timeout_ticks tick_ms timeout_ms \<noteq> portMAX_DELAY" using t by (metis not_le)
  show "unat (timeout_ticks tick_ms timeout_ms) * unat tick_ms \<le> unat timeout_ms" by (simp add: t)
  show "unat timeout_ms < (unat (timeout_ticks tick_ms timeout_ms) + 1) * unat tick_ms"
    using assms(1) unfolding t by (metis Suc_eq_plus1 dividend_less_div_times mult_Suc add.commute)
qed

section \<open>Memory\<close>

definition mmosal_calloc :: "(u32 \<Rightarrow> u8 list option) \<Rightarrow> u32 \<Rightarrow> u32 \<Rightarrow> u8 list option" where
  "mmosal_calloc pvPortMalloc nitems sz =
     (case pvPortMalloc (nitems * sz) of None \<Rightarrow> None
      | Some mem \<Rightarrow> Some (replicate (unat (nitems * sz)) 0))"

text \<open>The product is not checked: a request of \<open>2 ^ 31\<close> items of 2 bytes succeeds with no memory.\<close>

lemma calloc_wraps:
  "mmosal_calloc (\<lambda>n. Some (replicate (unat n) x)) 0x80000000 2 = Some []"
proof -
  have "(0x80000000 :: u32) * 2 = 0" by (simp add: word_eq_iff_unsigned) 
  then show ?thesis by (simp add: mmosal_calloc_def)
qed

section \<open>Timers\<close>

text \<open>
  The ESP timer service on its state; the microseconds are the timeout or the period. The laws
  are those of its documentation: starting an active timer and stopping or restarting an inactive one
  fail and change nothing.
\<close>

record 't esp_timer =
  esp_timer_create :: "'t \<Rightarrow> 't \<times> nat option"
  esp_timer_start_periodic :: "'t \<Rightarrow> nat \<Rightarrow> u64 \<Rightarrow> 't \<times> bool"
  esp_timer_start_once :: "'t \<Rightarrow> nat \<Rightarrow> u64 \<Rightarrow> 't \<times> bool"
  esp_timer_restart :: "'t \<Rightarrow> nat \<Rightarrow> u64 \<Rightarrow> 't \<times> bool"
  esp_timer_stop :: "'t \<Rightarrow> nat \<Rightarrow> 't \<times> bool"
  esp_timer_delete :: "'t \<Rightarrow> nat \<Rightarrow> 't"
  esp_timer_is_active :: "'t \<Rightarrow> nat \<Rightarrow> bool"

definition esp_timer_laws :: "'t esp_timer \<Rightarrow> bool" where
  "esp_timer_laws E \<longleftrightarrow> (\<forall>s h us.
     (esp_timer_is_active E s h \<longrightarrow> esp_timer_start_periodic E s h us = (s, False) \<and>
        esp_timer_start_once E s h us = (s, False)) \<and>
     (\<not> esp_timer_is_active E s h \<longrightarrow> snd (esp_timer_start_periodic E s h us) \<and>
        esp_timer_is_active E (fst (esp_timer_start_periodic E s h us)) h \<and>
        snd (esp_timer_start_once E s h us) \<and> esp_timer_is_active E (fst (esp_timer_start_once E s h us)) h \<and>
        esp_timer_restart E s h us = (s, False) \<and> esp_timer_stop E s h = (s, False)) \<and>
     (esp_timer_is_active E s h \<longrightarrow> snd (esp_timer_stop E s h) \<and>
        \<not> esp_timer_is_active E (fst (esp_timer_stop E s h)) h))"

record mmosal_timer =
  tm_handle :: nat
  tm_arg :: nat
  tm_auto_reload :: bool
  tm_period_us :: u64

definition mmosal_timer_create ::
  "'t esp_timer \<Rightarrow> 't \<Rightarrow> bool \<Rightarrow> u32 \<Rightarrow> bool \<Rightarrow> nat \<Rightarrow> 't \<times> mmosal_timer option" where
  "mmosal_timer_create E s malloc_ok timer_period_ms auto_reload arg =
     (if \<not> malloc_ok then (s, None)
      else case esp_timer_create E s of
        (s, None) \<Rightarrow> (s, None)
      | (s, Some h) \<Rightarrow> (s, Some \<lparr>tm_handle = h, tm_arg = arg, tm_auto_reload = auto_reload,
          tm_period_us = ucast timer_period_ms * 1000\<rparr>))"

definition mmosal_timer_delete :: "'t esp_timer \<Rightarrow> 't \<Rightarrow> mmosal_timer option \<Rightarrow> 't" where
  "mmosal_timer_delete E s timer = (case timer of None \<Rightarrow> s
     | Some t \<Rightarrow> esp_timer_delete E (fst (esp_timer_stop E s (tm_handle t))) (tm_handle t))"

definition mmosal_timer_start :: "'t esp_timer \<Rightarrow> 't \<Rightarrow> mmosal_timer \<Rightarrow> 't \<times> bool" where
  "mmosal_timer_start E s timer =
     (if tm_auto_reload timer then esp_timer_start_periodic E s (tm_handle timer) (tm_period_us timer)
      else esp_timer_start_once E s (tm_handle timer) (tm_period_us timer))"

definition mmosal_timer_stop :: "'t esp_timer \<Rightarrow> 't \<Rightarrow> mmosal_timer \<Rightarrow> 't \<times> bool" where
  "mmosal_timer_stop E s timer = esp_timer_stop E s (tm_handle timer)"

definition mmosal_timer_change_period ::
  "'t esp_timer \<Rightarrow> 't \<Rightarrow> mmosal_timer \<Rightarrow> u32 \<Rightarrow> 't \<times> mmosal_timer \<times> bool" where
  "mmosal_timer_change_period E s timer new_period_ms =
     (let timer = timer\<lparr>tm_period_us := ucast new_period_ms * 1000\<rparr>;
          (s, ok) = esp_timer_restart E s (tm_handle timer) (tm_period_us timer) in (s, timer, ok))"

definition mmosal_timer_get_arg :: "mmosal_timer \<Rightarrow> nat" where
  "mmosal_timer_get_arg timer = tm_arg timer"

definition mmosal_is_timer_active :: "'t esp_timer \<Rightarrow> 't \<Rightarrow> mmosal_timer \<Rightarrow> bool" where
  "mmosal_is_timer_active E s timer = esp_timer_is_active E s (tm_handle timer)"

lemma timer_period_exact: "unat (ucast (ms :: u32) * 1000 :: u64) = unat ms * 1000"
proof -
  have u: "unat (ucast ms :: u64) = unat ms"
    using unat_u32 [of ms] by (simp add: unsigned_ucast_eq take_bit_nat_eq_self)
  have "unat (ucast ms :: u64) * unat (1000 :: u64) < 2 ^ LENGTH(64)" using unat_u32 [of ms] u by simp
  then have "unat (ucast ms * 1000 :: u64) = unat (ucast ms :: u64) * unat (1000 :: u64)"
    by (rule unat_mult_lem [THEN iffD1])
  then show ?thesis using u by simp
qed

text \<open>\<open>mmosal_timer_start\<close> starts a timer exactly when it is not already running: on a running
  timer it returns false and leaves the timer as it is, although the interface says that the timer
  restarts; after \<open>mmosal_timer_stop\<close> it succeeds.\<close>

theorem timer_start_running_fails:
  assumes "esp_timer_laws E"
  shows "(mmosal_is_timer_active E s t \<longrightarrow> mmosal_timer_start E s t = (s, False)) \<and>
    (\<not> mmosal_is_timer_active E s t \<longrightarrow> snd (mmosal_timer_start E s t) \<and>
      mmosal_is_timer_active E (fst (mmosal_timer_start E s t)) t) \<and>
    (mmosal_is_timer_active E s t \<longrightarrow>
      snd (mmosal_timer_start E (fst (mmosal_timer_stop E s t)) t))"
  using assms unfolding esp_timer_laws_def mmosal_is_timer_active_def mmosal_timer_start_def mmosal_timer_stop_def
  by simp

text \<open>A service whose state is the set of active timers.\<close>

definition set_timers :: "nat set esp_timer" where
  "set_timers = \<lparr>esp_timer_create = \<lambda>s. (s, Some 1),
     esp_timer_start_periodic = \<lambda>s h us. if h \<in> s then (s, False) else (insert h s, True),
     esp_timer_start_once = \<lambda>s h us. if h \<in> s then (s, False) else (insert h s, True),
     esp_timer_restart = \<lambda>s h us. (s, h \<in> s),
     esp_timer_stop = \<lambda>s h. if h \<in> s then (s - {h}, True) else (s, False),
     esp_timer_delete = \<lambda>s h. s - {h},
     esp_timer_is_active = \<lambda>s h. h \<in> s\<rparr>"

lemma set_timers_laws: "esp_timer_laws set_timers"
  by (simp add: esp_timer_laws_def set_timers_def)

theorem timer_start_running_fails_witness:
  "mmosal_timer_start set_timers {1} \<lparr>tm_handle = 1, tm_arg = 0, tm_auto_reload = True, tm_period_us = 5000\<rparr> =
     ({1}, False)"
  using timer_start_running_fails [OF set_timers_laws, of "{1}"
      "\<lparr>tm_handle = 1, tm_arg = 0, tm_auto_reload = True, tm_period_us = 5000\<rparr>"]
  by (simp add: mmosal_is_timer_active_def set_timers_def)

end
