(* ===== verification/Iperf_Common.thy ===== *)
theory Iperf_Common
  imports Iperf_App Osal Ie_Parser Mmbuf_List
begin

text \<open>
  The parts of iperf shared by its protocols, \<^verbatim>\<open>framework/src/mmiperf/common\<close>: the state of a session and
  its report, the report a UDP server sends to its client in network byte order, the list of
  active sessions on the heap of \<open>next\<close> fields, and the payload data.
\<close>

section \<open>Sessions and reports\<close>

record mmiperf_state =
  ms_tcp :: bool
  ms_server :: bool
  ms_time_started_ms :: u32
  ms_last_rx_time_ms :: u32
  ms_report :: mmiperf_report
  ms_has_report_fn :: bool

definition zero_report :: mmiperf_report where
  "zero_report = \<lparr>report_type = MMIPERF_TCP_DONE_SERVER, local_addr = replicate 48 NUL, local_port = 0,
     remote_addr = replicate 48 NUL, remote_port = 0, bytes_transferred = 0, duration_ms = 0,
     bandwidth_kbitpsec = 0, tx_frames = 0, rx_frames = 0, out_of_sequence_frames = 0, error_count = 0,
     ipg_count = 0, ipg_sum_ms = 0\<rparr>"

text \<open>The result is the new state and the report handed to the callback, if there is one.\<close>

definition iperf_finalize_report_and_invoke_callback ::
  "mmiperf_state \<Rightarrow> u32 \<Rightarrow> mmiperf_report_type \<Rightarrow> mmiperf_state \<times> mmiperf_report list" where
  "iperf_finalize_report_and_invoke_callback s duration ty =
     (let r = (ms_report s)\<lparr>report_type := ty, duration_ms := duration\<rparr>;
          r = (if sint duration \<le> 0 then r\<lparr>duration_ms := 0, bandwidth_kbitpsec := 0\<rparr>
               else r\<lparr>bandwidth_kbitpsec := ucast (bytes_transferred r * 8 div ucast duration)\<rparr>);
          s = s\<lparr>ms_report := r\<rparr> in
      (s, if ms_has_report_fn s then [r] else []))"

definition interim_report :: "mmiperf_state \<Rightarrow> u32 \<Rightarrow> mmiperf_report" where
  "interim_report s now =
     (let r = ms_report s in
      if report_type r = MMIPERF_INTERRIM_REPORT then
        (let r = r\<lparr>duration_ms := now - ms_time_started_ms s\<rparr> in
         if sint (duration_ms r) \<le> 0 then r\<lparr>duration_ms := 0, bandwidth_kbitpsec := 0\<rparr>
         else r\<lparr>bandwidth_kbitpsec := ucast (bytes_transferred r * 8 div ucast (duration_ms r))\<rparr>)
      else r)"

section \<open>The UDP server report\<close>

text \<open>Byte order: the host is little endian.\<close>

definition htobe32 :: "u32 \<Rightarrow> u32" where
  "htobe32 x = push_bit 24 x OR push_bit 8 (x AND 0xff00) OR (drop_bit 8 x AND 0xff00) OR drop_bit 24 x"

abbreviation (input) be32toh :: "u32 \<Rightarrow> u32" where "be32toh \<equiv> htobe32"

lemma bit_0xff00: "bit (0xff00 :: u32) n \<longleftrightarrow> 8 \<le> n \<and> n < 16"
proof -
  have *: "(0xff00 :: u32) = push_bit 8 (mask 8)" by (simp add: mask_eq_exp_minus_1 push_bit_eq_mult)
  show ?thesis unfolding * bit_push_bit_iff bit_mask_iff by auto
qed

lemma bit_htobe32:
  assumes "n < 32"
  shows "bit (htobe32 x) n \<longleftrightarrow>
     bit x (if n < 8 then n + 24 else if n < 16 then n + 8 else if n < 24 then n - 8 else n - 24)"
proof -
  have high: "\<not> bit x k" if "32 \<le> k" for k using that by (simp add: bit_word.rep_eq)
  show ?thesis
    unfolding htobe32_def bit_or_iff bit_and_iff bit_push_bit_iff bit_drop_bit_eq o_def bit_0xff00
    using assms by (auto simp: high add.commute)
qed

lemma be32toh_htobe32 [simp]: "be32toh (htobe32 x) = x"
proof (rule bit_word_eqI)
  fix n assume n: "n < LENGTH(32)"
  consider "n < 8" | "8 \<le> n" "n < 16" | "16 \<le> n" "n < 24" | "24 \<le> n" by linarith
  then show "bit (htobe32 (htobe32 x)) n \<longleftrightarrow> bit x n"
  proof cases
    case 3
    then have "n = (n - 8) + 8" "8 \<le> n - 8" "n - 8 < 16" by auto
    then obtain m where "n = m + 8" "8 \<le> m" "m < 16" by blast
    then show ?thesis by (simp add: bit_htobe32)
  next
    case 4
    with n have "n - 24 < 8" "n - 24 + 24 = n" by auto
    with 4 n show ?thesis by (simp add: bit_htobe32)
  qed (simp_all add: bit_htobe32)
qed

record iperf_udp_header =
  uh_id_lo :: u32
  uh_tv_sec :: u32
  uh_tv_usec :: u32
  uh_id_hi :: u32

text \<open>The fields that the code sets; \<open>sr_transit\<close> are the fifteen between \<open>datagrams\<close> and \<open>IPGcnt\<close>.\<close>

record iperf_udp_server_report =
  sr_flags :: u32
  sr_total_len1 :: u32
  sr_total_len2 :: u32
  sr_stop_sec :: u32
  sr_stop_usec :: u32
  sr_error_cnt :: u32
  sr_outorder_cnt :: u32
  sr_datagrams :: u32
  sr_transit :: "u32 list"
  sr_IPGcnt :: u32
  sr_IPGsum :: u32

definition IPERF_HEADER_VERSION1 :: u32 where "IPERF_HEADER_VERSION1 = 0x80000000"

definition iperf_populate_udp_server_report :: "mmiperf_state \<Rightarrow> iperf_udp_server_report" where
  "iperf_populate_udp_server_report s =
     (let duration_ms = ms_last_rx_time_ms s - ms_time_started_ms s; r = ms_report s in
      \<lparr>sr_flags = htobe32 IPERF_HEADER_VERSION1,
       sr_total_len1 = htobe32 (ucast (drop_bit 32 (bytes_transferred r))),
       sr_total_len2 = htobe32 (ucast (bytes_transferred r AND 0xFFFFFFFF)),
       sr_stop_sec = htobe32 (duration_ms div 1000),
       sr_stop_usec = htobe32 (duration_ms mod 1000 * 1000),
       sr_error_cnt = htobe32 (error_count r),
       sr_outorder_cnt = htobe32 (out_of_sequence_frames r),
       sr_datagrams = htobe32 (rx_frames r),
       sr_transit = replicate 15 0,
       sr_IPGcnt = htobe32 (ipg_count r),
       sr_IPGsum = htobe32 (ipg_sum_ms r)\<rparr>)"

definition report_header_ok :: "iperf_udp_header \<Rightarrow> iperf_version \<Rightarrow> bool" where
  "report_header_ok hdr version \<longleftrightarrow>
     (if version = IPERF_VERSION_2_0_9 then \<not> sint (be32toh (uh_id_lo hdr)) > 0
      else \<not> sint (be32toh (uh_id_hi hdr)) > 0 \<and> \<not> (uh_id_hi hdr = 0 \<and> uh_id_lo hdr \<noteq> 0))"

definition iperf_parse_udp_server_report ::
  "mmiperf_state \<Rightarrow> iperf_udp_header \<Rightarrow> iperf_udp_server_report \<Rightarrow> iperf_version \<Rightarrow> mmiperf_state \<times> bool" where
  "iperf_parse_udp_server_report s hdr report version =
     (if \<not> report_header_ok hdr version then (s, False)
      else (s\<lparr>ms_report := (ms_report s)
        \<lparr>bytes_transferred := push_bit 32 (ucast (be32toh (sr_total_len1 report))) OR
            ucast (be32toh (sr_total_len2 report)),
         error_count := be32toh (sr_error_cnt report),
         out_of_sequence_frames := be32toh (sr_outorder_cnt report),
         rx_frames := be32toh (sr_datagrams report),
         duration_ms := be32toh (sr_stop_sec report) * 1000 + be32toh (sr_stop_usec report) div 1000,
         bandwidth_kbitpsec := 0\<rparr>\<rparr>, True))"

lemma split_u64:
  fixes x :: u64
  shows "push_bit 32 (ucast (ucast (drop_bit 32 x) :: u32)) OR ucast (ucast (x AND 0xFFFFFFFF) :: u32) = x"
proof (rule bit_word_eqI)
  fix n assume n: "n < LENGTH(64)"
  have m: "(0xFFFFFFFF :: u64) = mask 32" by (simp add: mask_eq_exp_minus_1)
  show "bit (push_bit 32 (ucast (ucast (drop_bit 32 x) :: u32)) OR
      ucast (ucast (x AND 0xFFFFFFFF) :: u32) :: u64) n \<longleftrightarrow> bit x n"
    unfolding m bit_or_iff bit_and_iff bit_push_bit_iff bit_unsigned_iff bit_drop_bit_eq o_def bit_mask_iff
    using n by auto
qed

lemma ms_split: "(d div 1000) * 1000 + (d mod 1000 * 1000) div 1000 = (d :: u32)"
proof -
  have m: "unat (d mod 1000) < 1000" by (simp add: unat_mod)
  have "unat (d mod 1000) * unat (1000 :: u32) < 2 ^ LENGTH(32)" using m by simp
  then have "unat (d mod 1000 * 1000) = unat (d mod 1000) * unat (1000 :: u32)" by (rule unat_mult_lem [THEN iffD1])
  then have "unat (d mod 1000 * 1000 div 1000) = unat (d mod 1000)" by (simp add: unat_div)
  then have "d mod 1000 * 1000 div 1000 = d mod 1000" by (simp only: word_unat_eq_iff)
  then show ?thesis by (simp add: word_mod_div_equality)
qed

lemma report_roundtrip:
  assumes "report_header_ok hdr version"
  shows "iperf_parse_udp_server_report c hdr (iperf_populate_udp_server_report s) version =
    (c\<lparr>ms_report := (ms_report c)\<lparr>bytes_transferred := bytes_transferred (ms_report s),
       error_count := error_count (ms_report s),
       out_of_sequence_frames := out_of_sequence_frames (ms_report s), rx_frames := rx_frames (ms_report s),
       duration_ms := ms_last_rx_time_ms s - ms_time_started_ms s, bandwidth_kbitpsec := 0\<rparr>\<rparr>, True)"
  using assms by (simp add: iperf_parse_udp_server_report_def iperf_populate_udp_server_report_def Let_def
      split_u64 ms_split)

section \<open>Active sessions\<close>

text \<open>
  The list of active sessions is linked through the \<open>next\<close> field of the sessions: a heap of
  \<open>next\<close> fields and the head \<open>iperf_all_connections\<close>. \<open>None\<close> is the failed assertion that an item
  is listed once, or a loop that does not end because the list is circular.
\<close>

type_synonym session_list = "next_heap \<times> ptr"

definition iperf_list_add :: "session_list \<Rightarrow> ptr \<Rightarrow> session_list" where
  "iperf_list_add l item = (case l of (h, head) \<Rightarrow> (h(item := head), item))"

partial_function (option) listed_once_loop :: "next_heap \<Rightarrow> ptr \<Rightarrow> ptr \<Rightarrow> unit option" where
  "listed_once_loop h item iter =
     (if iter = NULL then Some ()
      else if iter = item then None else listed_once_loop h item (h iter))"

partial_function (option) list_remove_loop ::
  "next_heap \<Rightarrow> ptr \<Rightarrow> ptr \<Rightarrow> ptr \<Rightarrow> ptr \<Rightarrow> session_list option" where
  "list_remove_loop h head item prev iter =
     (if iter = NULL then Some (h, head)
      else if iter = item then do {
        let (h, head) = (if prev = NULL then (h, h iter) else (h(prev := h iter), head));
        listed_once_loop h item (h iter);
        Some (h, head)
      }
      else list_remove_loop h head item iter (h iter))"

definition iperf_list_remove :: "session_list \<Rightarrow> ptr \<Rightarrow> session_list option" where
  "iperf_list_remove l item = (case l of (h, head) \<Rightarrow> list_remove_loop h head item NULL head)"

partial_function (option) list_find_loop :: "next_heap \<Rightarrow> ptr \<Rightarrow> ptr \<Rightarrow> ptr option" where
  "list_find_loop h item iter =
     (if iter = NULL then Some NULL
      else if iter = item then Some item else list_find_loop h item (h iter))"

definition iperf_list_find :: "session_list \<Rightarrow> ptr \<Rightarrow> ptr option" where
  "iperf_list_find l item = (case l of (h, head) \<Rightarrow> list_find_loop h item head)"

definition iperf_list_get :: "session_list \<Rightarrow> ptr \<Rightarrow> ptr option" where
  "iperf_list_get l handle = (case l of (h, head) \<Rightarrow> list_find_loop h handle head)"

text \<open>\<open>Some None\<close> is the result \<open>false\<close>.\<close>

definition mmiperf_get_interim_report ::
  "session_list \<Rightarrow> (ptr \<Rightarrow> mmiperf_state) \<Rightarrow> u32 \<Rightarrow> ptr \<Rightarrow> mmiperf_report option option" where
  "mmiperf_get_interim_report l sessions now handle = do {
     p \<leftarrow> iperf_list_get l handle;
     Some (if p = NULL then None else Some (interim_report (sessions p) now))
   }"

datatype session_op = SAdd ptr | SRemove ptr | SFind ptr

definition session_list_step :: "session_list \<Rightarrow> session_op \<Rightarrow> (session_list \<times> ptr) option" where
  "session_list_step l op = (case op of
       SAdd p \<Rightarrow> Some (iperf_list_add l p, NULL)
     | SRemove p \<Rightarrow> map_option (\<lambda>l. (l, NULL)) (iperf_list_remove l p)
     | SFind p \<Rightarrow> map_option (\<lambda>q. (l, q)) (iperf_list_find l p))"

text \<open>The specification: the active sessions, the newest first.\<close>

fun sessions_step :: "ptr list \<Rightarrow> session_op \<Rightarrow> ptr list \<times> ptr" where
  "sessions_step xs (SAdd p) = (p # xs, NULL)"
| "sessions_step xs (SRemove p) = (remove1 p xs, NULL)"
| "sessions_step xs (SFind p) = (xs, if p \<in> set xs then p else NULL)"

fun sessions_pre :: "ptr list \<Rightarrow> session_op \<Rightarrow> bool" where
  "sessions_pre xs (SAdd p) \<longleftrightarrow> p \<noteq> NULL \<and> p \<notin> set xs"
| "sessions_pre xs (SRemove p) \<longleftrightarrow> True"
| "sessions_pre xs (SFind p) \<longleftrightarrow> True"

definition session_list_rep :: "session_list \<Rightarrow> ptr list \<Rightarrow> bool" where
  "session_list_rep l xs \<longleftrightarrow> (case l of (h, head) \<Rightarrow> chain h head xs \<and> distinct xs)"

lemma loops_null [simp]:
  "listed_once_loop h item NULL = Some ()" "list_find_loop h item NULL = Some NULL"
  "list_remove_loop h head item prev NULL = Some (h, head)"
  by (simp_all add: listed_once_loop.simps list_find_loop.simps list_remove_loop.simps)

lemma listed_once_step:
  "iter \<noteq> NULL \<Longrightarrow> iter \<noteq> item \<Longrightarrow> listed_once_loop h item iter = listed_once_loop h item (h iter)"
  by (subst listed_once_loop.simps) simp

lemma list_find_step:
  "iter \<noteq> NULL \<Longrightarrow> list_find_loop h item iter = (if iter = item then Some item else list_find_loop h item (h iter))"
  by (subst list_find_loop.simps) simp

lemma list_remove_step:
  "iter \<noteq> NULL \<Longrightarrow> iter \<noteq> item \<Longrightarrow>
     list_remove_loop h head item prev iter = list_remove_loop h head item iter (h iter)"
  by (subst list_remove_loop.simps) simp

lemma listed_once_ok: "chain h iter xs \<Longrightarrow> item \<notin> set xs \<Longrightarrow> listed_once_loop h item iter = Some ()"
  by (induction xs arbitrary: iter) (auto simp: listed_once_step)

lemma list_find_ok:
  "chain h iter xs \<Longrightarrow> list_find_loop h item iter = Some (if item \<in> set xs then item else NULL)"
  by (induction xs arbitrary: iter) (auto simp: list_find_step)

lemma list_remove_inner:
  assumes "chain h prev (prev # xs)" and "distinct (prev # xs)" and "item \<noteq> prev"
  shows "\<exists>h'. list_remove_loop h head item prev (h prev) = Some (h', head) \<and>
    chain h' prev (prev # remove1 item xs) \<and> (\<forall>y. y \<notin> set (prev # xs) \<longrightarrow> h' y = h y)"
  using assms
proof (induction xs arbitrary: prev)
  case Nil
  then show ?case by simp
next
  case (Cons x xs)
  have x: "h prev = x" "x \<noteq> NULL" "prev \<noteq> NULL" "chain h x (x # xs)" "distinct (x # xs)" "prev \<noteq> x"
      "prev \<notin> set xs"
    using Cons.prems by auto
  show ?case
  proof (cases "x = item")
    case True
    have "chain (h(prev := h x)) (h x) xs" using x by simp
    then have "listed_once_loop (h(prev := h x)) item (h x) = Some ()"
      using x(5) True by (intro listed_once_ok) auto
    with True x show ?thesis by (subst list_remove_loop.simps) simp
  next
    case False
    then obtain h' where h': "list_remove_loop h head item x (h x) = Some (h', head)"
        "chain h' x (x # remove1 item xs)" "\<forall>y. y \<notin> set (x # xs) \<longrightarrow> h' y = h y"
      using Cons.IH [of x] x by auto
    have "h' prev = x" using h'(3) x by auto
    with h' False x show ?thesis by (simp add: list_remove_step)
  qed
qed

lemma list_remove_ok:
  assumes "session_list_rep l xs"
  shows "\<exists>l'. iperf_list_remove l item = Some l' \<and> session_list_rep l' (remove1 item xs)"
proof -
  obtain h head where l: "l = (h, head)" by (rule prod.exhaust)
  have ch: "chain h head xs" "distinct xs" using assms l by (auto simp: session_list_rep_def)
  show ?thesis
  proof (cases xs)
    case Nil
    then show ?thesis using ch l
      by (simp add: iperf_list_remove_def session_list_rep_def)
  next
    case (Cons x ys)
    show ?thesis
    proof (cases "x = item")
      case True
      then have "listed_once_loop h item (h x) = Some ()" using ch Cons by (intro listed_once_ok) auto
      then show ?thesis using ch Cons l True
        by (simp add: iperf_list_remove_def list_remove_loop.simps session_list_rep_def)
    next
      case False
      then obtain h' where "list_remove_loop h head item x (h x) = Some (h', head)"
          "chain h' x (x # remove1 item ys)"
        using list_remove_inner [of h x ys item head] ch Cons by auto
      then show ?thesis using ch Cons l False
        by (simp add: iperf_list_remove_def list_remove_step session_list_rep_def)
    qed
  qed
qed

lemma session_list_sim:
  assumes "session_list_rep l xs" and "sessions_pre xs op"
  shows "\<exists>l'. session_list_step l op = Some (l', snd (sessions_step xs op)) \<and>
    session_list_rep l' (fst (sessions_step xs op))"
proof (cases op)
  case (SAdd p)
  then show ?thesis using assms
    by (auto simp: session_list_step_def iperf_list_add_def session_list_rep_def)
next
  case (SRemove p)
  then show ?thesis using list_remove_ok [OF assms(1), of p] by (auto simp: session_list_step_def)
next
  case (SFind p)
  obtain h head where l: "l = (h, head)" by (rule prod.exhaust)
  then show ?thesis using assms SFind list_find_ok [of h head xs p]
    by (auto simp: session_list_step_def iperf_list_find_def session_list_rep_def)
qed

interpretation active_sessions: simulation session_list_step sessions_step session_list_rep sessions_pre
  by unfold_locales (rule session_list_sim)

lemma interim_report_active:
  assumes "session_list_rep l xs"
  shows "mmiperf_get_interim_report l sessions now p =
    Some (if p \<in> set xs then Some (interim_report (sessions p) now) else None)"
proof -
  obtain h head where l: "l = (h, head)" by (rule prod.exhaust)
  then have "chain h head xs" using assms by (simp add: session_list_rep_def)
  then show ?thesis using l list_find_ok [of h head xs p] chain_not_null [of h head xs]
    by (auto simp: mmiperf_get_interim_report_def iperf_list_get_def)
qed

section \<open>The payload\<close>

text \<open>The payload is read from \<open>iperf_data\<close>, the digits 0 to 9 repeated; \<open>IPERF_DATA_LEN\<close> is its size.\<close>

definition IPERF_DATA_LEN :: nat where "IPERF_DATA_LEN = 1600"

definition iperf_data :: "u8 list" where
  "iperf_data = map (\<lambda>i. of_nat (48 + i mod 10)) [0..<IPERF_DATA_LEN]"

text \<open>\<open>len\<close> bytes read at the pointer that \<open>iperf_get_data\<close> returns.\<close>

definition iperf_get_data :: "u32 \<Rightarrow> nat \<Rightarrow> u8 list option" where
  "iperf_get_data offset len =
     (let i = unat (offset mod 10) in
      if i + len \<le> length iperf_data then Some (region iperf_data i len) else None)"

lemma iperf_get_data_exact:
  assumes "10 + len \<le> IPERF_DATA_LEN"
  shows "iperf_get_data offset len = Some (map (\<lambda>i. of_nat (48 + (unat offset + i) mod 10)) [0..<len])"
proof -
  have i: "unat (offset mod 10) = unat offset mod 10" by (simp add: unat_mod)
  then have "unat (offset mod 10) + len \<le> length iperf_data"
    using assms by (simp add: iperf_data_def)
  then show ?thesis unfolding iperf_get_data_def Let_def i
    using assms by (auto simp: iperf_data_def region_def intro!: nth_equalityI) (simp add: mod_simps)
qed

end
