(* ===== verification/Iperf_Udp.thy ===== *)
theory Iperf_Udp
  imports Iperf_Common Load_Config
begin

text \<open>
  The UDP engine of iperf on lwIP, \<^verbatim>\<open>framework/src/mmiperf/lwip/mmiperf_udp.c\<close>: the server's receive
  callback with its single session, its report to the client, and the client's task with its
  receive callback. The lwIP functions on IP addresses are the fields of a record, the results of
  lwIP's allocation and send functions and the readings of the clock are arguments.
\<close>

section \<open>Addresses and packets\<close>

record 'ip ip_ops =
  ip_addr_cmp_zoneless :: "'ip \<Rightarrow> 'ip \<Rightarrow> bool"
  ip_addr_ismulticast :: "'ip \<Rightarrow> bool"
  ipaddr_ntoa_r :: "'ip \<Rightarrow> nat \<Rightarrow> string option"
  ipaddr_aton :: "string \<Rightarrow> 'ip option"
  ip_is_v4 :: "'ip \<Rightarrow> bool"
  ip_addr_zero :: 'ip
  ip_addr_any :: 'ip

text \<open>The text of an address in an array of 48 characters that was zero before.\<close>

definition addr_text :: "string \<Rightarrow> string" where
  "addr_text txt = take 48 (txt @ replicate 48 NUL)"

text \<open>
  A 32-bit field of a structure lies in memory in the byte order of the host, which is little
  endian: its bytes are those of the swapped value in network order.
\<close>

definition mem32 :: "u32 \<Rightarrow> u8 list" where
  "mem32 w = be32 (htobe32 w)"

definition load_mem32 :: "u8 list \<Rightarrow> nat \<Rightarrow> u32 option" where
  "load_mem32 p off = map_option htobe32 (load_be32 p off)"

definition read_udp_header :: "u8 list \<Rightarrow> iperf_udp_header option" where
  "read_udp_header p = do {
     id_lo \<leftarrow> load_mem32 p 0;
     sec \<leftarrow> load_mem32 p 4;
     usec \<leftarrow> load_mem32 p 8;
     id_hi \<leftarrow> load_mem32 p 12;
     Some \<lparr>uh_id_lo = id_lo, uh_tv_sec = sec, uh_tv_usec = usec, uh_id_hi = id_hi\<rparr>
   }"

definition server_report_bytes :: "iperf_udp_server_report \<Rightarrow> u8 list" where
  "server_report_bytes r = concat (map mem32
     ([sr_flags r, sr_total_len1 r, sr_total_len2 r, sr_stop_sec r, sr_stop_usec r, sr_error_cnt r,
       sr_outorder_cnt r, sr_datagrams r] @ sr_transit r @ [sr_IPGcnt r, sr_IPGsum r]))"

definition SIZEOF_HEADER :: nat where "SIZEOF_HEADER = 16"
definition SIZEOF_SETTINGS :: nat where "SIZEOF_SETTINGS = 24"
definition SIZEOF_REPORT :: nat where "SIZEOF_REPORT = 100"

section \<open>The server\<close>

record 'ip udp_session =
  us_next_packet_id :: u32
  us_client_addr :: 'ip
  us_client_port :: u16
  us_ipg_start :: "u32 \<times> u32"

record 'ip udp_server =
  sv_base :: mmiperf_state
  sv_local_addr :: 'ip
  sv_local_port :: u16
  sv_version :: iperf_version
  sv_pcb_local_ip :: 'ip
  sv_session :: "'ip udp_session"

text \<open>The readings of the clock that one call makes, in the order of the code.\<close>

record clocks =
  ck_get :: u32
  ck_start_check :: u32
  ck_start :: u32
  ck_rx :: u32

datatype 'ip udp_effect = Report_fn mmiperf_report | Udp_sendto 'ip u16 "u8 list"

definition IPERF_UDP_SERVER_SESSION_TIMEOUT_MS :: u32 where
  "IPERF_UDP_SERVER_SESSION_TIMEOUT_MS = 60000"

definition udp_server_session_has_timed_out :: "'ip udp_server \<Rightarrow> u32 \<Rightarrow> bool" where
  "udp_server_session_has_timed_out s now \<longleftrightarrow>
     mmosal_time_le (ms_last_rx_time_ms (sv_base s) + IPERF_UDP_SERVER_SESSION_TIMEOUT_MS) now"

text \<open>\<open>None\<close> is a failed assertion, \<open>Some None\<close> the result \<open>NULL\<close>.\<close>

definition udp_server_start_session ::
  "'ip ip_ops \<Rightarrow> clocks \<Rightarrow> 'ip udp_server \<Rightarrow> 'ip \<Rightarrow> u16 \<Rightarrow> 'ip udp_server option option" where
  "udp_server_start_session ip ck s addr port =
     (if 0 \<le> sint (us_next_packet_id (sv_session s)) \<and> \<not> udp_server_session_has_timed_out s (ck_start_check ck)
      then Some None
      else do {
        local_txt \<leftarrow> ipaddr_ntoa_r ip (sv_pcb_local_ip s) 48;
        remote_txt \<leftarrow> ipaddr_ntoa_r ip addr 48;
        let r = zero_report\<lparr>report_type := MMIPERF_INTERRIM_REPORT, local_port := sv_local_port s,
          remote_port := port, local_addr := addr_text local_txt, remote_addr := addr_text remote_txt\<rparr>;
        Some (Some (s\<lparr>sv_session := \<lparr>us_next_packet_id = 0, us_client_addr = addr, us_client_port = port,
            us_ipg_start = (0, 0)\<rparr>,
          sv_base := (sv_base s)\<lparr>ms_report := r, ms_time_started_ms := ck_start ck\<rparr>\<rparr>))
      })"

definition get_session ::
  "'ip ip_ops \<Rightarrow> clocks \<Rightarrow> 'ip udp_server \<Rightarrow> 'ip \<Rightarrow> u16 \<Rightarrow> 'ip udp_server option option" where
  "get_session ip ck s addr port =
     (if ip_addr_cmp_zoneless ip (us_client_addr (sv_session s)) addr \<and>
         us_client_port (sv_session s) = port \<and> \<not> udp_server_session_has_timed_out s (ck_get ck)
      then Some (Some s) else udp_server_start_session ip ck s addr port)"

text \<open>Conversion to \<open>int32_t\<close> keeps the low 32 bits, so the whole computation is modulo \<open>2 ^ 32\<close>.\<close>

definition time_delta :: "u32 \<times> u32 \<Rightarrow> u32 \<times> u32 \<Rightarrow> u32" where
  "time_delta a b = (fst a - fst b) * 1000000 + (snd a - snd b)"

definition iperf_udp_server_handle_final_packet ::
  "'ip ip_ops \<Rightarrow> bool \<Rightarrow> 'ip udp_server \<Rightarrow> 'ip \<Rightarrow> u16 \<Rightarrow> u8 list \<Rightarrow> 'ip udp_effect list" where
  "iperf_udp_server_handle_final_packet ip alloc_ok s addr port p =
     (if ip_addr_ismulticast ip (sv_local_addr s) then []
      else if \<not> alloc_ok then []
      else if length p < SIZEOF_HEADER then []
      else [Udp_sendto addr port (take SIZEOF_HEADER p @
              server_report_bytes (iperf_populate_udp_server_report (sv_base s)))])"

text \<open>The packet number, a signed 64-bit value.\<close>

definition packet_id_of :: "iperf_version \<Rightarrow> u8 list \<Rightarrow> u64 option" where
  "packet_id_of version p = do {
     id_lo \<leftarrow> load_be32 p 0;
     id_hi \<leftarrow> load_be32 p 12;
     Some (if version = IPERF_VERSION_2_0_9 then scast id_lo
           else push_bit 32 (ucast id_hi) OR ucast id_lo)
   }"

definition count_packet :: "clocks \<Rightarrow> 'ip udp_server \<Rightarrow> nat \<Rightarrow> u64 \<Rightarrow> u32 \<times> u32 \<Rightarrow> 'ip udp_server" where
  "count_packet ck s tot_len packet_id packet_time =
     (let b = sv_base s; ss = sv_session s; r = ms_report b;
          r = r\<lparr>bytes_transferred := bytes_transferred r + ucast (of_nat tot_len :: u16),
                rx_frames := rx_frames r + 1, ipg_count := ipg_count r + 1,
                ipg_sum_ms := ipg_sum_ms r + time_delta packet_time (us_ipg_start ss)\<rparr>;
          n = us_next_packet_id ss;
          r = (if sint packet_id < sint n
               then r\<lparr>out_of_sequence_frames := out_of_sequence_frames r + 1\<rparr>
               else if sint packet_id > sint n
               then r\<lparr>error_count := error_count r + ucast (packet_id - scast n)\<rparr> else r);
          n = (if sint packet_id \<ge> sint n then ucast (packet_id + 1) else n) in
      s\<lparr>sv_base := b\<lparr>ms_last_rx_time_ms := ck_rx ck, ms_report := r\<rparr>,
        sv_session := ss\<lparr>us_ipg_start := packet_time, us_next_packet_id := n\<rparr>\<rparr>)"

definition server_final ::
  "'ip ip_ops \<Rightarrow> bool \<Rightarrow> 'ip udp_server \<Rightarrow> 'ip \<Rightarrow> u16 \<Rightarrow> u8 list \<Rightarrow> 'ip udp_server \<times> 'ip udp_effect list" where
  "server_final ip alloc_ok s addr port p =
     (let (s, rs) =
        (if 0 \<le> sint (us_next_packet_id (sv_session s)) then
           (let duration = ms_last_rx_time_ms (sv_base s) - ms_time_started_ms (sv_base s);
                (b, rs) = iperf_finalize_report_and_invoke_callback (sv_base s) duration MMIPERF_UDP_DONE_SERVER in
            (s\<lparr>sv_base := b, sv_session := (sv_session s)\<lparr>us_next_packet_id := - 1\<rparr>\<rparr>, rs))
         else (s, [])) in
      (s, map Report_fn rs @ iperf_udp_server_handle_final_packet ip alloc_ok s addr port p))"

definition iperf_udp_server_recv ::
  "'ip ip_ops \<Rightarrow> clocks \<Rightarrow> bool \<Rightarrow> 'ip udp_server \<Rightarrow> u8 list \<Rightarrow> 'ip \<Rightarrow> u16 \<Rightarrow>
     ('ip udp_server \<times> 'ip udp_effect list) option" where
  "iperf_udp_server_recv ip ck alloc_ok s p addr port =
     (if length p < SIZEOF_HEADER then Some (s, [])
      else if length p < SIZEOF_HEADER + SIZEOF_SETTINGS then Some (s, [])
      else do {
        packet_id \<leftarrow> packet_id_of (sv_version s) p;
        sec \<leftarrow> load_be32 p 4;
        usec \<leftarrow> load_be32 p 8;
        let final_packet = sint packet_id < 0;
        let packet_id = (if final_packet then - packet_id else packet_id);
        session \<leftarrow> get_session ip ck s addr port;
        Some (if session = None then (s, [])
          else let s = the session;
                   s = (if 0 \<le> sint (us_next_packet_id (sv_session s))
                        then count_packet ck s (length p) packet_id (sec, usec) else s) in
               if final_packet then server_final ip alloc_ok s addr port p else (s, []))
      })"

text \<open>
  Starting a server: \<open>self\<close> is the memory for the state (\<open>NULL\<close> when there is none), \<open>pcb_ok\<close> and
  \<open>bind_ok\<close> are the results of lwIP's allocation and bind. The result is the server and the list of
  active sessions, whether a protocol control block stays allocated, and the multicast groups joined.
\<close>

definition mmiperf_start_udp_server ::
  "'ip ip_ops \<Rightarrow> session_list \<Rightarrow> ptr \<Rightarrow> bool \<Rightarrow> bool \<Rightarrow> mmiperf_server_args \<Rightarrow> bool \<Rightarrow>
     'ip udp_server option \<times> session_list \<times> bool \<times> 'ip list" where
  "mmiperf_start_udp_server ip l self pcb_ok bind_ok args has_fn =
     (if self = NULL then (None, l, False, [])
      else
        let base = \<lparr>ms_tcp = False, ms_server = True, ms_time_started_ms = 0, ms_last_rx_time_ms = 0,
              ms_report = zero_report\<lparr>report_type := MMIPERF_INTERRIM_REPORT\<rparr>, ms_has_report_fn = has_fn\<rparr>;
            laddr = (if cstr (sa_local_addr args) \<noteq> [] then ipaddr_aton ip (cstr (sa_local_addr args))
                     else Some (ip_addr_any ip)) in
        if laddr = None then (None, l, False, [])
        else if \<not> pcb_ok then (None, l, False, [])
        else if \<not> bind_ok then (None, l, True, [])
        else (Some \<lparr>sv_base = base, sv_local_addr = the laddr, sv_local_port = sa_local_port args,
                sv_version = sa_version args, sv_pcb_local_ip = the laddr,
                sv_session = \<lparr>us_next_packet_id = - 1, us_client_addr = ip_addr_zero ip,
                  us_client_port = 0, us_ipg_start = (0, 0)\<rparr>\<rparr>,
              iperf_list_add l self, True,
              if ip_addr_ismulticast ip (the laddr) then [the laddr] else []))"

section \<open>The client\<close>

record 'ip udp_client =
  uc_base :: mmiperf_state
  uc_args :: mmiperf_client_args
  uc_server_addr :: 'ip
  uc_pcb_local_ip :: 'ip
  uc_local_port :: u16
  uc_awaiting_report :: bool
  uc_report :: "u8 list option"
  uc_block_tx_amount :: u32

text \<open>
  What one transmission gets from lwIP: the memory of the pool buffer for the headers (\<open>None\<close> when
  there is none), the time, whether the payload buffer is allocated and whether the send succeeds.
\<close>

record send_env =
  se_raw :: "u8 list option"
  se_now :: u32
  se_rom_ok :: bool
  se_send_ok :: bool

definition hdrs_len :: "iperf_version \<Rightarrow> u32" where
  "hdrs_len version =
     (let len = of_nat (SIZEOF_HEADER + SIZEOF_SETTINGS) in
      if version = IPERF_VERSION_2_0_9 then len - 4 else len)"

lemma hdrs_len_simps [simp]:
  "hdrs_len IPERF_VERSION_2_0_9 = 36" "v \<noteq> IPERF_VERSION_2_0_9 \<Longrightarrow> hdrs_len v = 40"
  by (simp_all add: hdrs_len_def SIZEOF_HEADER_def SIZEOF_SETTINGS_def)

text \<open>
  The result is whether the packet was sent, and the packet; \<open>None\<close> is an access outside the pool
  buffer or outside the payload data, or the assertion that the buffer is not chained.
\<close>

definition iperf_udp_client_send_packet ::
  "'ip udp_client \<Rightarrow> send_env \<Rightarrow> u32 \<Rightarrow> bool \<Rightarrow> (bool \<times> u8 list list) option" where
  "iperf_udp_client_send_packet c env tx_amount final =
     (let v209 = ca_version (uc_args c) = IPERF_VERSION_2_0_9;
          hlen = hdrs_len (ca_version (uc_args c)) in
      case se_raw env of None \<Rightarrow> Some (False, [])
      | Some raw \<Rightarrow>
          if length raw < unat hlen then None
          else do {
            let datagrams_cnt = (ucast (tx_frames (ms_report (uc_base c))) :: u64);
            let datagrams_cnt = (if final then - datagrams_cnt else datagrams_cnt);
            raw \<leftarrow> blit raw 0 (be32 (ucast datagrams_cnt));
            raw \<leftarrow> (if v209 then Some raw else blit raw 12 (be32 (ucast (drop_bit 32 datagrams_cnt))));
            raw \<leftarrow> blit raw 8 (be32 (se_now env mod 1000 * 1000));
            raw \<leftarrow> blit raw 4 (be32 (se_now env div 1000));
            raw \<leftarrow> blit raw SIZEOF_HEADER (replicate SIZEOF_SETTINGS 0);
            let payload_len = (if tx_amount > hlen then tx_amount - hlen else 0);
            if \<not> se_rom_ok env then Some (False, [])
            else do {
              payload \<leftarrow> iperf_get_data 0 (unat (ucast payload_len :: u16));
              Some (if se_send_ok env then (True, [take (unat hlen) raw @ payload]) else (False, []))
            }
          })"

definition read_server_report :: "u8 list \<Rightarrow> nat \<Rightarrow> iperf_udp_server_report option" where
  "read_server_report p off = do {
     flags \<leftarrow> load_mem32 p off;
     len1 \<leftarrow> load_mem32 p (off + 4);
     len2 \<leftarrow> load_mem32 p (off + 8);
     sec \<leftarrow> load_mem32 p (off + 12);
     usec \<leftarrow> load_mem32 p (off + 16);
     err \<leftarrow> load_mem32 p (off + 20);
     oo \<leftarrow> load_mem32 p (off + 24);
     dg \<leftarrow> load_mem32 p (off + 28);
     transit \<leftarrow> those (map (\<lambda>k. load_mem32 p (off + 32 + 4 * k)) [0..<15]);
     cnt \<leftarrow> load_mem32 p (off + 92);
     sm \<leftarrow> load_mem32 p (off + 96);
     Some \<lparr>sr_flags = flags, sr_total_len1 = len1, sr_total_len2 = len2, sr_stop_sec = sec,
       sr_stop_usec = usec, sr_error_cnt = err, sr_outorder_cnt = oo, sr_datagrams = dg,
       sr_transit = transit, sr_IPGcnt = cnt, sr_IPGsum = sm\<rparr>
   }"

text \<open>The session and the duration of the server's report; the duration stays as it was when the
  received packet is too short.\<close>

definition iperf_udp_client_report :: "'ip udp_client \<Rightarrow> u8 list \<Rightarrow> u32 \<Rightarrow> ('ip udp_client \<times> u32) option" where
  "iperf_udp_client_report c p final_duration =
     (if length p < SIZEOF_HEADER then Some (c, final_duration)
      else if length p < SIZEOF_HEADER + SIZEOF_REPORT then Some (c, final_duration)
      else do {
        hdr \<leftarrow> read_udp_header p;
        report \<leftarrow> read_server_report p SIZEOF_HEADER;
        let (b, _) = iperf_parse_udp_server_report (uc_base c) hdr report (ca_version (uc_args c));
        Some (c\<lparr>uc_base := b\<rparr>, duration_ms (ms_report b))
      })"

definition iperf_udp_client_recv :: "'ip ip_ops \<Rightarrow> 'ip udp_client \<Rightarrow> u8 list \<times> 'ip \<times> u16 \<Rightarrow> 'ip udp_client" where
  "iperf_udp_client_recv ip c pkt = (case pkt of (p, addr, port) \<Rightarrow>
     if \<not> ip_addr_cmp_zoneless ip addr (uc_server_addr c) then c
     else if port \<noteq> ca_server_port (uc_args c) then c
     else if \<not> uc_awaiting_report c then c
     else if uc_report c \<noteq> None then c
     else c\<lparr>uc_report := Some p\<rparr>)"

text \<open>The variables of the transmit loop, and what one iteration reads from its environment.\<close>

record 'ip client_loop_vars =
  lv_client :: "'ip udp_client"
  lv_remaining :: u64
  lv_final :: bool
  lv_failure_cnt :: nat
  lv_tx_amount :: u32
  lv_block_end_time :: u32
  lv_block_remaining :: u32
  lv_sent :: "u8 list list"

record iter_env =
  ie_now_end :: u32
  ie_now_block :: u32
  ie_now_block_end :: u32
  ie_now_send :: u32
  ie_send :: send_env

definition IPERF_UDP_CLIENT_MAX_CONSEC_FAILURES :: nat where "IPERF_UDP_CLIENT_MAX_CONSEC_FAILURES = 60"
definition IPERF_UDP_CLIENT_REPORT_RETRIES :: nat where "IPERF_UDP_CLIENT_REPORT_RETRIES = 3"
definition UINT32_MAX :: u32 where "UINT32_MAX = - 1"
definition BLOCK_DURATION_MS :: u32 where "BLOCK_DURATION_MS = 200"

definition iter_begin :: "u32 \<Rightarrow> 'ip client_loop_vars \<Rightarrow> iter_env \<Rightarrow> 'ip client_loop_vars" where
  "iter_begin end_time v env =
     (let c = lv_client v; psize = ca_packet_size (uc_args c);
          last = ie_now_end env > end_time \<or> lv_remaining v \<le> ucast psize \<or>
            tx_frames (ms_report (uc_base c)) \<ge> UINT32_MAX - 10;
          v = v\<lparr>lv_client := c\<lparr>uc_awaiting_report := (last \<or> uc_awaiting_report c)\<rparr>, lv_final := last,
                lv_tx_amount := ucast (if ucast psize < lv_remaining v then ucast psize else lv_remaining v)\<rparr> in
      if ca_target_bw (uc_args c) \<noteq> 0 \<and> lv_block_end_time v < ie_now_block env
      then v\<lparr>lv_block_end_time := ie_now_block_end env + BLOCK_DURATION_MS,
             lv_block_remaining := lv_block_remaining v + uc_block_tx_amount c\<rparr>
      else v)"

definition iter_transmit :: "'ip client_loop_vars \<Rightarrow> send_env \<Rightarrow> 'ip client_loop_vars option" where
  "iter_transmit v env = do {
     let c = lv_client v;
     let tx_amount = lv_tx_amount v;
     (ok, pkts) \<leftarrow> iperf_udp_client_send_packet c env tx_amount (lv_final v);
     let r = ms_report (uc_base c);
     Some (if ok
       then v\<lparr>lv_client := c\<lparr>uc_base := (uc_base c)\<lparr>ms_report := r
                \<lparr>bytes_transferred := bytes_transferred r + ucast tx_amount,
                 tx_frames := tx_frames r + 1\<rparr>\<rparr>\<rparr>,
              lv_remaining := lv_remaining v - ucast tx_amount,
              lv_block_remaining := lv_block_remaining v - tx_amount,
              lv_failure_cnt := 0, lv_sent := lv_sent v @ pkts\<rparr>
       else v\<lparr>lv_failure_cnt := lv_failure_cnt v + 1\<rparr>)
   }"

definition client_iter ::
  "u32 \<Rightarrow> 'ip client_loop_vars \<Rightarrow> iter_env \<Rightarrow> 'ip client_loop_vars option" where
  "client_iter end_time v env =
     (let v = iter_begin end_time v env in
      if ca_target_bw (uc_args (lv_client v)) = 0 \<or> lv_block_remaining v \<ge> lv_tx_amount v \<or>
         ie_now_send env > end_time
      then iter_transmit v (ie_send env) else Some v)"

text \<open>\<open>fuel\<close> bounds the iterations and \<open>env\<close> gives the environment of each.\<close>

fun client_loop ::
  "nat \<Rightarrow> u32 \<Rightarrow> (nat \<Rightarrow> iter_env) \<Rightarrow> 'ip client_loop_vars \<Rightarrow> 'ip client_loop_vars option" where
  "client_loop 0 end_time env v = None"
| "client_loop (Suc fuel) end_time env v =
     (if \<not> lv_final v \<and> lv_failure_cnt v < IPERF_UDP_CLIENT_MAX_CONSEC_FAILURES
      then do {
        v \<leftarrow> client_iter end_time v (env 0);
        client_loop fuel end_time (\<lambda>i. env (Suc i)) v
      }
      else Some v)"

definition client_limits :: "'ip udp_client \<Rightarrow> u32 \<times> u64" where
  "client_limits c =
     (let amount = ca_amount (uc_args c) in
      if sint amount < 0 then (ms_time_started_ms (uc_base c) + (- amount) * 10, - 1)
      else (UINT32_MAX, ucast amount))"

definition client_vars :: "'ip udp_client \<Rightarrow> u32 \<Rightarrow> 'ip client_loop_vars" where
  "client_vars c now = \<lparr>lv_client = c, lv_remaining = snd (client_limits c), lv_final = False,
     lv_failure_cnt = 0, lv_tx_amount = 0, lv_block_end_time = now + BLOCK_DURATION_MS,
     lv_block_remaining = uc_block_tx_amount c, lv_sent = []\<rparr>"

text \<open>
  Waiting for the report: \<open>pkts\<close> are the packets that the receive callback gets until the wait
  ends. A retry transmits the final packet again, with the next number.
\<close>

definition client_wait :: "'ip ip_ops \<Rightarrow> 'ip udp_client \<Rightarrow> (u8 list \<times> 'ip \<times> u16) list \<Rightarrow> 'ip udp_client" where
  "client_wait ip c pkts = foldl (iperf_udp_client_recv ip) c pkts"

fun client_retries ::
  "nat \<Rightarrow> 'ip ip_ops \<Rightarrow> (nat \<Rightarrow> send_env \<times> (u8 list \<times> 'ip \<times> u16) list) \<Rightarrow> u32 \<Rightarrow> 'ip udp_client \<Rightarrow>
     ('ip udp_client \<times> u8 list list) option" where
  "client_retries 0 ip env tx_amount c = Some (c, [])"
| "client_retries (Suc n) ip env tx_amount c =
     (if uc_report c \<noteq> None then Some (c, [])
      else do {
        (_, pkts) \<leftarrow> iperf_udp_client_send_packet c (fst (env 0)) tx_amount True;
        (c, more) \<leftarrow> client_retries n ip (\<lambda>i. env (Suc i)) tx_amount (client_wait ip c (snd (env 0)));
        Some (c, pkts @ more)
      })"

definition client_result :: "'ip ip_ops \<Rightarrow> u32 \<Rightarrow> 'ip udp_client \<Rightarrow> ('ip udp_client \<times> u32) option" where
  "client_result ip now c = (case uc_report c of
       Some p \<Rightarrow> do {
         (c, final_duration) \<leftarrow> iperf_udp_client_report c p 0;
         Some (c\<lparr>uc_report := None\<rparr>, final_duration)
       }
     | None \<Rightarrow>
         let b = uc_base c;
             b = (if \<not> ip_addr_ismulticast ip (uc_server_addr c)
                  then b\<lparr>ms_report := (ms_report b)\<lparr>bytes_transferred := 0\<rparr>\<rparr> else b) in
         Some (c\<lparr>uc_base := b\<rparr>, now - ms_time_started_ms (uc_base c)))"

record 'ip task_env =
  te_start :: u32
  te_iter :: "nat \<Rightarrow> iter_env"
  te_wait :: "(u8 list \<times> 'ip \<times> u16) list"
  te_retry :: "nat \<Rightarrow> send_env \<times> (u8 list \<times> 'ip \<times> u16) list"
  te_end :: u32

text \<open>The packets sent, the reports handed to the callback and the list of active sessions.\<close>

definition iperf_udp_client_task ::
  "nat \<Rightarrow> 'ip ip_ops \<Rightarrow> 'ip task_env \<Rightarrow> session_list \<Rightarrow> ptr \<Rightarrow> 'ip udp_client \<Rightarrow>
     (u8 list list \<times> mmiperf_report list \<times> session_list) option" where
  "iperf_udp_client_task fuel ip env l self c = do {
     let limits = client_limits c;
     local_txt \<leftarrow> ipaddr_ntoa_r ip (uc_pcb_local_ip c) 48;
     let r = ms_report (uc_base c);
     let r = r\<lparr>local_addr := addr_text local_txt, local_port := uc_local_port c,
       remote_addr := snd (mmosal_safer_strcpy (remote_addr r) (ca_server_addr (uc_args c)) 48),
       remote_port := ca_server_port (uc_args c)\<rparr>;
     let c = c\<lparr>uc_base := (uc_base c)\<lparr>ms_report := r\<rparr>\<rparr>;
     v \<leftarrow> client_loop fuel (fst limits) (te_iter env) (client_vars c (te_start env));
     let c = client_wait ip (lv_client v) (te_wait env);
     (c, pkts) \<leftarrow> (if \<not> ip_addr_ismulticast ip (uc_server_addr c)
       then client_retries IPERF_UDP_CLIENT_REPORT_RETRIES ip (te_retry env) (lv_tx_amount v) c
       else Some (c, []));
     (c, final_duration) \<leftarrow> client_result ip (te_end env) c;
     l \<leftarrow> iperf_list_remove l self;
     let (_, rs) = iperf_finalize_report_and_invoke_callback (uc_base c) final_duration MMIPERF_UDP_DONE_CLIENT;
     Some (lv_sent v @ pkts, rs, l)
   }"

text \<open>
  Starting a client. \<open>session_counter\<close> is the counter that spreads the local ports; the last part
  of the result is what stays allocated.
\<close>

datatype udp_resource = Report_semb | Udp_pcb

definition mmiperf_start_udp_client ::
  "'ip ip_ops \<Rightarrow> session_list \<Rightarrow> ptr \<Rightarrow> bool \<Rightarrow> bool \<Rightarrow> u32 \<Rightarrow> u32 \<Rightarrow> mmiperf_client_args \<Rightarrow> bool \<Rightarrow>
     'ip udp_client option \<times> session_list \<times> u32 \<times> udp_resource list" where
  "mmiperf_start_udp_client ip l self pcb_ok bind_ok session_counter now args has_fn =
     (if self = NULL then (None, l, session_counter, [])
      else case ipaddr_aton ip (cstr (ca_server_addr args)) of None \<Rightarrow> (None, l, session_counter, [])
      | Some server_addr \<Rightarrow>
          let args = (if ca_server_port args = 0 then args\<lparr>ca_server_port := 5001\<rparr> else args);
              args = (if ca_packet_size args = 0
                      then args\<lparr>ca_packet_size := if ip_is_v4 ip server_addr then 1460 else 1440\<rparr> else args);
              args = (if ca_amount args = 0 then args\<lparr>ca_amount := - 1000\<rparr> else args);
              block = ca_target_bw args * BLOCK_DURATION_MS div 8;
              pkt_size = ca_target_bw args * 1000 div 8 in
          if ca_target_bw args \<noteq> 0 \<and> ca_packet_size args > pkt_size then (None, l, session_counter, [])
          else
            let counter = session_counter + 1;
                base = \<lparr>ms_tcp = False, ms_server = False, ms_time_started_ms = now, ms_last_rx_time_ms = 0,
                  ms_report = zero_report\<lparr>report_type := MMIPERF_INTERRIM_REPORT\<rparr>, ms_has_report_fn = has_fn\<rparr> in
            if \<not> pcb_ok then (None, l, counter, [Report_semb])
            else if \<not> bind_ok then (None, l, counter, [Report_semb, Udp_pcb])
            else (Some \<lparr>uc_base = base, uc_args = args, uc_server_addr = server_addr,
                    uc_pcb_local_ip = ip_addr_any ip, uc_local_port = 5010 + (ucast counter AND 15),
                    uc_awaiting_report = False, uc_report = None, uc_block_tx_amount = block\<rparr>,
                  iperf_list_add l self, counter, [Report_semb, Udp_pcb]))"

section \<open>The server's counters\<close>

text \<open>
  The specification of the counters of a session, over the numbers of the packets counted so far,
  in the order of arrival.
\<close>

definition next_id :: "nat list \<Rightarrow> nat" where
  "next_id ids = foldl (\<lambda>n i. max n (Suc i)) 0 ids"

definition session_counts :: "'ip udp_server \<Rightarrow> nat list \<Rightarrow> nat \<Rightarrow> bool" where
  "session_counts s ids bytes \<longleftrightarrow>
     (let r = ms_report (sv_base s) in
      next_id ids < 2 ^ 31 \<and> length ids < 2 ^ 31 \<and>
      us_next_packet_id (sv_session s) = of_nat (next_id ids) \<and>
      bytes_transferred r = of_nat bytes \<and> rx_frames r = of_nat (length ids) \<and>
      (\<exists>e l. error_count r = of_nat e \<and> out_of_sequence_frames r = of_nat l \<and> e \<le> next_id ids \<and>
         l \<le> length ids \<and> length ids + e = next_id ids + l))"

lemma next_id_snoc [simp]: "next_id (ids @ [i]) = max (next_id ids) (Suc i)"
  by (simp add: next_id_def)

lemma next_id_Nil [simp]: "next_id [] = 0"
  by (simp add: next_id_def)

lemma next_id_bound: "i \<in> set ids \<Longrightarrow> i < next_id ids"
  by (induction ids rule: rev_induct) auto

lemma sint_of_nat64: "n < 2 ^ 63 \<Longrightarrow> sint (of_nat n :: u64) = int n"
  by (simp add: signed_of_nat signed_take_bit_int_eq_self)

lemma sint_of_nat32: "n < 2 ^ 31 \<Longrightarrow> sint (of_nat n :: u32) = int n"
  by (simp add: signed_of_nat signed_take_bit_int_eq_self)

lemma scast_of_nat: "n < 2 ^ 31 \<Longrightarrow> scast (of_nat n :: u32) = (of_nat n :: u64)"
  by (simp add: scast_eq sint_of_nat32)

lemma ucast_of_nat: "ucast (of_nat n :: u64) = (of_nat n :: u32)"
  by (rule bit_word_eqI) (simp add: bit_simps)

lemma ucast_of_nat_Suc: "ucast (of_nat n + 1 :: u64) = (of_nat n + 1 :: u32)"
  using ucast_of_nat [of "Suc n"] by (simp add: add.commute)

lemma ucast_len: "len < 2 ^ 16 \<Longrightarrow> ucast (of_nat len :: u16) = (of_nat len :: u64)"
  by (simp add: unsigned_of_nat take_bit_nat_eq_self)

lemma ucast_of_nat_diff: "m \<le> n \<Longrightarrow> ucast (of_nat n - of_nat m :: u64) = (of_nat (n - m) :: u32)"
  using ucast_of_nat [of "n - m"] by (simp only: of_nat_diff)

lemma session_countsI:
  assumes "next_id ids < 2 ^ 31" "length ids < 2 ^ 31"
    and "us_next_packet_id (sv_session s) = of_nat (next_id ids)"
    and "bytes_transferred (ms_report (sv_base s)) = of_nat bytes"
    and "rx_frames (ms_report (sv_base s)) = of_nat (length ids)"
    and "error_count (ms_report (sv_base s)) = of_nat e"
    and "out_of_sequence_frames (ms_report (sv_base s)) = of_nat l"
    and "e \<le> next_id ids" "l \<le> length ids" "length ids + e = next_id ids + l"
  shows "session_counts s ids bytes"
  using assms unfolding session_counts_def Let_def by blast

lemma count_packet_counts:
  assumes "session_counts s ids bytes" and "i < 2 ^ 31 - 1" and "length ids < 2 ^ 31 - 1"
    and "len < 2 ^ 16"
  shows "session_counts (count_packet ck s len (of_nat i) t) (ids @ [i]) (bytes + len)"
proof -
  let ?r = "ms_report (sv_base s)" and ?n = "next_id ids"
  obtain e l where el: "error_count ?r = of_nat e" "out_of_sequence_frames ?r = of_nat l" "e \<le> ?n"
      "l \<le> length ids" "length ids + e = ?n + l"
    using assms(1) by (auto simp: session_counts_def Let_def)
  have n: "?n < 2 ^ 31" "us_next_packet_id (sv_session s) = of_nat ?n"
    using assms(1) by (auto simp: session_counts_def Let_def)
  have ids: "bytes_transferred ?r = of_nat bytes" "rx_frames ?r = of_nat (length ids)"
    using assms(1) by (auto simp: session_counts_def Let_def)
  have "i < 2 ^ 63" using assms(2) by simp
  then have cmp: "sint (of_nat i :: u64) = int i" "sint (of_nat ?n :: u32) = int ?n"
    using n(1) by (simp_all add: sint_of_nat64 sint_of_nat32)
  have len: "ucast (of_nat len :: u16) = (of_nat len :: u64)"
    by (rule ucast_len) (rule assms(4))
  consider "i < ?n" | "i = ?n" | "?n < i" by linarith
  then show ?thesis
  proof cases
    case 1
    then have m: "next_id (ids @ [i]) = ?n" by simp
    show ?thesis
      by (rule session_countsI [where e = e and l = "Suc l"], unfold m)
        (use 1 el n ids cmp len assms(3) in \<open>auto simp: count_packet_def Let_def\<close>)
  next
    case 2
    then have m: "next_id (ids @ [i]) = Suc i" by simp
    show ?thesis
      by (rule session_countsI [where e = e and l = l], unfold m)
        (use 2 el n ids cmp len assms(2,3) in \<open>auto simp: count_packet_def Let_def ucast_of_nat_Suc\<close>)
  next
    case 3
    then have m: "next_id (ids @ [i]) = Suc i" by simp
    have d: "ucast (of_nat i - scast (of_nat ?n :: u32) :: u64) = (of_nat (i - ?n) :: u32)"
      using 3 n(1) by (simp only: scast_of_nat ucast_of_nat_diff less_imp_le)
    show ?thesis
      by (rule session_countsI [where e = "e + (i - ?n)" and l = l], unfold m)
        (use 3 el n ids cmp len assms(2,3) in \<open>auto simp: count_packet_def Let_def ucast_of_nat_Suc d\<close>)
  qed
qed

end
