(* ===== verification/Iperf_Tcp.thy ===== *)
theory Iperf_Tcp
  imports Iperf_Udp
begin

text \<open>
  The TCP engine of iperf on lwIP, \<^verbatim>\<open>framework/src/mmiperf/lwip/mmiperf_tcp.c\<close>: a session with its
  listening and its connected control block, and the callbacks that lwIP invokes on it. The state
  has the session (absent once it is freed), the control blocks that lwIP holds, whose argument is
  the session, and the list of active sessions. \<open>None\<close> is a failed assertion or an access to the
  freed session. \<open>now\<close> is the time at which a callback runs; the send loop reads the clock anew in
  each iteration.
\<close>

section \<open>Sessions\<close>

record tcp_conn =
  tc_base :: mmiperf_state
  tc_server_pcb :: bool
  tc_conn_pcb :: bool
  tc_poll_count :: u8
  tc_mss :: u32
  tc_settings :: "u8 list"
  tc_have_settings_buf :: bool
  tc_bw_limit :: bool
  tc_block_end_time :: u32
  tc_block_txlen :: u32
  tc_block_remaining_txlen :: u32

record tcp_world =
  tw_conn :: "tcp_conn option"
  tw_listener :: bool
  tw_pcb :: bool
  tw_sessions :: session_list

datatype tcp_effect =
  Tcp_report mmiperf_report | Tcp_write "u8 list" | Tcp_output | Tcp_recved nat | Tcp_close | Tcp_abort

definition TCP_MSS :: u32 where "TCP_MSS = 1460"
definition IPERF_TCP_MAX_IDLE_S :: u8 where "IPERF_TCP_MAX_IDLE_S = 140"

text \<open>\<open>self\<close> is the address of the session and \<open>close_ok\<close> whether \<open>tcp_close\<close> succeeds.\<close>

definition iperf_tcp_close ::
  "ptr \<Rightarrow> u32 \<Rightarrow> bool \<Rightarrow> mmiperf_report_type \<Rightarrow> tcp_world \<Rightarrow> (tcp_world \<times> tcp_effect list) option" where
  "iperf_tcp_close self now close_ok ty w = do {
     c \<leftarrow> tw_conn w;
     let (b, rs) = iperf_finalize_report_and_invoke_callback (tc_base c) (now - ms_time_started_ms (tc_base c)) ty;
     let c = c\<lparr>tc_base := b\<rparr>;
     (c, w, es) \<leftarrow>
       (if tc_conn_pcb c then Some (c\<lparr>tc_conn_pcb := False\<rparr>, w\<lparr>tw_pcb := False\<rparr>,
          if close_ok then [Tcp_close] else [Tcp_close, Tcp_abort])
        else if tc_server_pcb c then
          (if close_ok then Some (c\<lparr>tc_server_pcb := False\<rparr>, w\<lparr>tw_listener := False\<rparr>, [Tcp_close]) else None)
        else Some (c, w, []));
     if \<not> tc_conn_pcb c \<and> \<not> tc_server_pcb c
     then do {
       l \<leftarrow> iperf_list_remove (tw_sessions w) self;
       Some (w\<lparr>tw_sessions := l, tw_conn := None\<rparr>, map Tcp_report rs @ es)
     }
     else Some (w\<lparr>tw_conn := Some c\<rparr>, map Tcp_report rs @ es)
   }"

section \<open>The client\<close>

text \<open>What one iteration of the send loop reads: the time, and the state of lwIP's send buffer.\<close>

record tcp_iter =
  ti_now_limit :: u32
  ti_now_block :: u32
  ti_snd_buf :: u32
  ti_queue_ok :: bool
  ti_write_ok :: bool

definition settings_amount :: "tcp_conn \<Rightarrow> u32 option" where
  "settings_amount c = load_be32 (tc_settings c) 20"

text \<open>Whether the time or the bytes of the test are used up.\<close>

definition test_over :: "tcp_conn \<Rightarrow> u32 \<Rightarrow> bool option" where
  "test_over c now = do {
     amount \<leftarrow> settings_amount c;
     Some (if bit amount 31
       then now - ms_time_started_ms (tc_base c) \<ge> (- amount) * 10
       else ucast amount \<le> bytes_transferred (ms_report (tc_base c)))
   }"

text \<open>The bytes offered to \<open>tcp_write\<close>, as a function of their number, and whether to send more.\<close>

definition next_chunk :: "tcp_conn \<Rightarrow> (nat \<Rightarrow> u8 list option) \<times> u16 \<times> bool" where
  "next_chunk c =
     (let n = bytes_transferred (ms_report (tc_base c)) in
      if n < 24 then (\<lambda>len. if unat n + len \<le> length (tc_settings c)
          then Some (region (tc_settings c) (unat n) len) else None, ucast (24 - n), False)
      else if n < 48 then (\<lambda>len. if unat (n - 24) + len \<le> length (tc_settings c)
          then Some (region (tc_settings c) (unat (n - 24)) len) else None, ucast (48 - n), True)
      else (iperf_get_data (ucast n), ucast (if n = 48 then tc_mss c - 24 else tc_mss c), True))"

definition write_chunk :: "tcp_iter \<Rightarrow> tcp_conn \<Rightarrow> (tcp_conn \<times> bool \<times> tcp_effect list) option" where
  "write_chunk env c =
     (let (src, txlen_max, send_more) = next_chunk c in
      if ti_snd_buf env \<ge> tc_mss c div 2 \<and> ti_queue_ok env
      then (let txlen = (if ucast txlen_max > ti_snd_buf env then ucast (ti_snd_buf env) else txlen_max) in
        do {
          bytes \<leftarrow> src (unat txlen);
          let r = ms_report (tc_base c);
          Some (if ti_write_ok env
            then (c\<lparr>tc_base := (tc_base c)\<lparr>ms_report := r\<lparr>bytes_transferred := bytes_transferred r + ucast txlen\<rparr>\<rparr>,
                    tc_block_remaining_txlen := tc_block_remaining_txlen c - ucast txlen\<rparr>, send_more, [Tcp_write bytes])
            else (c, False, []))
        })
      else Some (c, False, []))"

text \<open>The send loop; \<open>now\<close> and \<open>close_ok\<close> are for the close at the end of the test.\<close>

fun iperf_tcp_client_send_more ::
  "nat \<Rightarrow> ptr \<Rightarrow> u32 \<Rightarrow> bool \<Rightarrow> (nat \<Rightarrow> tcp_iter) \<Rightarrow> tcp_world \<Rightarrow> (tcp_world \<times> tcp_effect list) option" where
  "iperf_tcp_client_send_more 0 self now close_ok env w = None"
| "iperf_tcp_client_send_more (Suc fuel) self now close_ok env w = do {
     c \<leftarrow> tw_conn w;
     over \<leftarrow> test_over c (ti_now_limit (env 0));
     if over then iperf_tcp_close self now close_ok MMIPERF_TCP_DONE_CLIENT w
     else do {
       let c = (if tc_bw_limit c \<and> tc_block_end_time c < ti_now_block (env 0)
         then c\<lparr>tc_block_end_time := tc_block_end_time c + BLOCK_DURATION_MS,
                tc_block_remaining_txlen := tc_block_remaining_txlen c + tc_block_txlen c\<rparr> else c);
       (c, send_more, es) \<leftarrow> write_chunk (env 0) c;
       let w = w\<lparr>tw_conn := Some c\<rparr>;
       if send_more \<and> \<not> (tc_bw_limit c \<and> sint (tc_block_remaining_txlen c) \<le> 0)
       then do {
         (w, es') \<leftarrow> iperf_tcp_client_send_more fuel self now close_ok (\<lambda>i. env (Suc i)) w;
         Some (w, es @ es')
       }
       else Some (w, es @ [Tcp_output])
     }
   }"

definition set_poll_count :: "u8 \<Rightarrow> tcp_conn \<Rightarrow> tcp_conn" where
  "set_poll_count n c = c\<lparr>tc_poll_count := n\<rparr>"

text \<open>The busy wait of the sent callback for the end of a block; \<open>now\<close> are the readings of the clock.\<close>

fun block_wait :: "nat \<Rightarrow> tcp_conn \<Rightarrow> (nat \<Rightarrow> u32) \<Rightarrow> unit option" where
  "block_wait 0 c now = None"
| "block_wait (Suc fuel) c now =
     (if tc_bw_limit c \<and> sint (tc_block_remaining_txlen c) \<le> 0 \<and> now 0 < tc_block_end_time c
      then block_wait fuel c (\<lambda>i. now (Suc i)) else Some ())"

definition iperf_tcp_client_sent ::
  "nat \<Rightarrow> ptr \<Rightarrow> u32 \<Rightarrow> bool \<Rightarrow> (nat \<Rightarrow> u32) \<Rightarrow> (nat \<Rightarrow> tcp_iter) \<Rightarrow> tcp_world \<Rightarrow>
     (tcp_world \<times> tcp_effect list) option" where
  "iperf_tcp_client_sent fuel self now close_ok clock env w = do {
     c \<leftarrow> tw_conn w;
     if \<not> tc_conn_pcb c then None
     else do {
       let c = set_poll_count 0 c;
       block_wait fuel c clock;
       iperf_tcp_client_send_more fuel self now close_ok env (w\<lparr>tw_conn := Some c\<rparr>)
     }
   }"

text \<open>The addresses of a connected control block.\<close>

record 'ip tcp_addrs =
  ta_local_ip :: 'ip
  ta_local_port :: u16
  ta_remote_ip :: 'ip
  ta_remote_port :: u16

definition init_report :: "'ip ip_ops \<Rightarrow> 'ip tcp_addrs \<Rightarrow> tcp_conn \<Rightarrow> tcp_conn option" where
  "init_report ip pcb c = do {
     local_txt \<leftarrow> ipaddr_ntoa_r ip (ta_local_ip pcb) 48;
     remote_txt \<leftarrow> ipaddr_ntoa_r ip (ta_remote_ip pcb) 48;
     let r = (ms_report (tc_base c))\<lparr>report_type := MMIPERF_INTERRIM_REPORT, local_addr := addr_text local_txt,
       local_port := ta_local_port pcb, remote_addr := addr_text remote_txt, remote_port := ta_remote_port pcb\<rparr>;
     Some (c\<lparr>tc_base := (tc_base c)\<lparr>ms_report := r\<rparr>\<rparr>)
   }"

definition iperf_tcp_client_connected ::
  "nat \<Rightarrow> 'ip ip_ops \<Rightarrow> ptr \<Rightarrow> u32 \<Rightarrow> bool \<Rightarrow> bool \<Rightarrow> 'ip tcp_addrs \<Rightarrow> (nat \<Rightarrow> tcp_iter) \<Rightarrow> tcp_world \<Rightarrow>
     (tcp_world \<times> tcp_effect list) option" where
  "iperf_tcp_client_connected fuel ip self now close_ok err_ok pcb env w = do {
     c \<leftarrow> tw_conn w;
     if \<not> tc_conn_pcb c then None
     else if \<not> err_ok then iperf_tcp_close self now close_ok MMIPERF_TCP_ABORTED_REMOTE w
     else do {
       c \<leftarrow> init_report ip pcb ((set_poll_count 0 c)
         \<lparr>tc_base := (tc_base c)\<lparr>ms_time_started_ms := now\<rparr>, tc_block_end_time := now + BLOCK_DURATION_MS\<rparr>);
       iperf_tcp_client_send_more fuel self now close_ok env (w\<lparr>tw_conn := Some c\<rparr>)
     }
   }"

definition iperf_settings_bytes :: "u32 \<Rightarrow> u8 list" where
  "iperf_settings_bytes amount = concat (map be32 [0, 1, 5001, 0, 0, amount])"

text \<open>
  Starting a client: \<open>self\<close> is the allocated memory and \<open>pcb_ok\<close> and \<open>connect_ok\<close> are lwIP's results.
  The result is whether a handle is returned.
\<close>

definition iperf_tx_start_impl ::
  "'ip ip_ops \<Rightarrow> ptr \<Rightarrow> bool \<Rightarrow> bool \<Rightarrow> bool \<Rightarrow> u32 \<Rightarrow> mmiperf_client_args \<Rightarrow> u8 list \<Rightarrow> bool \<Rightarrow> session_list \<Rightarrow>
     (tcp_world \<times> tcp_effect list \<times> bool) option" where
  "iperf_tx_start_impl ip self pcb_ok connect_ok close_ok now args settings has_fn l =
     (let none = \<lparr>tw_conn = None, tw_listener = False, tw_pcb = False, tw_sessions = l\<rparr> in
      if self = NULL then Some (none, [], False)
      else case ipaddr_aton ip (cstr (ca_server_addr args)) of None \<Rightarrow> Some (none, [], False)
      | Some remote \<Rightarrow>
          if \<not> pcb_ok then Some (none, [], False)
          else
            let mss = (if ip_is_v4 ip remote then TCP_MSS else TCP_MSS - 20);
                limit = ca_target_bw args \<noteq> 0;
                block = (if limit then ca_target_bw args * BLOCK_DURATION_MS div 8 else 0);
                base = \<lparr>ms_tcp = True, ms_server = False, ms_time_started_ms = now, ms_last_rx_time_ms = 0,
                  ms_report = zero_report, ms_has_report_fn = has_fn\<rparr>;
                c = \<lparr>tc_base = base, tc_server_pcb = False, tc_conn_pcb = True, tc_poll_count = 0, tc_mss = mss,
                  tc_settings = settings, tc_have_settings_buf = True, tc_bw_limit = limit,
                  tc_block_end_time = 0, tc_block_txlen = block, tc_block_remaining_txlen = block\<rparr>;
                w = \<lparr>tw_conn = Some c, tw_listener = False, tw_pcb = True, tw_sessions = l\<rparr> in
            if limit \<and> mss > block \<or> \<not> connect_ok
            then map_option (\<lambda>(w, es). (w, es, False)) (iperf_tcp_close self now close_ok MMIPERF_TCP_ABORTED_LOCAL w)
            else Some (w\<lparr>tw_sessions := iperf_list_add l self\<rparr>, [], True))"

definition mmiperf_start_tcp_client ::
  "'ip ip_ops \<Rightarrow> ptr \<Rightarrow> bool \<Rightarrow> bool \<Rightarrow> bool \<Rightarrow> u32 \<Rightarrow> mmiperf_client_args \<Rightarrow> bool \<Rightarrow> session_list \<Rightarrow>
     (tcp_world \<times> tcp_effect list \<times> bool) option" where
  "mmiperf_start_tcp_client ip self pcb_ok connect_ok close_ok now args has_fn l =
     iperf_tx_start_impl ip self pcb_ok connect_ok close_ok now args (iperf_settings_bytes (ca_amount args)) has_fn l"

section \<open>The server\<close>

datatype tcp_rx = Rx_error | Rx_closed | Rx_data "u8 list"

definition SETTINGS_PERIOD :: u64 where "SETTINGS_PERIOD = 1024 * 128"

definition add_bytes :: "tcp_conn \<Rightarrow> nat \<Rightarrow> tcp_conn" where
  "add_bytes c n = c\<lparr>tc_base := (tc_base c)\<lparr>ms_report := (ms_report (tc_base c))
     \<lparr>bytes_transferred := bytes_transferred (ms_report (tc_base c)) + of_nat n\<rparr>\<rparr>\<rparr>"

definition settings_due :: "tcp_conn \<Rightarrow> bool" where
  "settings_due c \<longleftrightarrow> \<not> tc_have_settings_buf c \<or>
     (bytes_transferred (ms_report (tc_base c)) - 24) mod SETTINGS_PERIOD = 0"

definition recv_data :: "ptr \<Rightarrow> u32 \<Rightarrow> bool \<Rightarrow> u8 list \<Rightarrow> tcp_conn \<Rightarrow> tcp_world \<Rightarrow>
    (tcp_world \<times> tcp_effect list) option" where
  "recv_data self now close_ok p c w =
     (if settings_due c then
        if length p < 24 then iperf_tcp_close self now close_ok MMIPERF_TCP_ABORTED_LOCAL_DATAERROR w
        else
          let c = (if \<not> tc_have_settings_buf c then c\<lparr>tc_settings := take 24 p, tc_have_settings_buf := True\<rparr> else c);
              c = add_bytes c 24 in
          if bytes_transferred (ms_report (tc_base c)) \<le> 24
          then Some (w\<lparr>tw_conn := Some (c\<lparr>tc_base := (tc_base c)\<lparr>ms_time_started_ms := now\<rparr>\<rparr>)\<rparr>,
                     [Tcp_recved (length p)])
          else Some (w\<lparr>tw_conn := Some (add_bytes c (length p - 24))\<rparr>, [Tcp_recved (length p)])
      else Some (w\<lparr>tw_conn := Some (add_bytes c (length p))\<rparr>, [Tcp_recved (length p)]))"

definition iperf_tcp_recv ::
  "ptr \<Rightarrow> u32 \<Rightarrow> bool \<Rightarrow> tcp_rx \<Rightarrow> tcp_world \<Rightarrow> (tcp_world \<times> tcp_effect list) option" where
  "iperf_tcp_recv self now close_ok rx w = do {
     c \<leftarrow> tw_conn w;
     if \<not> tc_conn_pcb c then None
     else (case rx of
         Rx_error \<Rightarrow> iperf_tcp_close self now close_ok MMIPERF_TCP_ABORTED_REMOTE w
       | Rx_closed \<Rightarrow> iperf_tcp_close self now close_ok MMIPERF_TCP_DONE_SERVER w
       | Rx_data p \<Rightarrow> (let c = set_poll_count 0 c in
           recv_data self now close_ok p c (w\<lparr>tw_conn := Some c\<rparr>)))
   }"

text \<open>lwIP has freed the connected control block when it calls this.\<close>

definition iperf_tcp_err :: "ptr \<Rightarrow> u32 \<Rightarrow> bool \<Rightarrow> tcp_world \<Rightarrow> (tcp_world \<times> tcp_effect list) option" where
  "iperf_tcp_err self now close_ok w = do {
     c \<leftarrow> tw_conn w;
     iperf_tcp_close self now close_ok MMIPERF_TCP_ABORTED_REMOTE
       (w\<lparr>tw_conn := Some (c\<lparr>tc_conn_pcb := False, tc_server_pcb := False\<rparr>)\<rparr>)
   }"

definition iperf_tcp_poll ::
  "nat \<Rightarrow> ptr \<Rightarrow> u32 \<Rightarrow> bool \<Rightarrow> (nat \<Rightarrow> tcp_iter) \<Rightarrow> tcp_world \<Rightarrow> (tcp_world \<times> tcp_effect list) option" where
  "iperf_tcp_poll fuel self now close_ok env w = do {
     c \<leftarrow> tw_conn w;
     if \<not> tc_conn_pcb c then None
     else
       let c = set_poll_count (tc_poll_count c + 1) c; w = w\<lparr>tw_conn := Some c\<rparr> in
       if tc_poll_count c \<ge> IPERF_TCP_MAX_IDLE_S
       then iperf_tcp_close self now close_ok MMIPERF_TCP_ABORTED_LOCAL w
       else if \<not> ms_server (tc_base c) then iperf_tcp_client_send_more fuel self now close_ok env w
       else Some (w, [])
   }"

text \<open>The last part of the result is whether the connection is accepted.\<close>

definition iperf_tcp_accept ::
  "'ip ip_ops \<Rightarrow> bool \<Rightarrow> 'ip tcp_addrs \<Rightarrow> tcp_world \<Rightarrow> (tcp_world \<times> bool) option" where
  "iperf_tcp_accept ip err_ok pcb w =
     (if \<not> err_ok then Some (w, False)
      else do {
        c \<leftarrow> tw_conn w;
        if \<not> ms_server (tc_base c) \<or> \<not> tc_server_pcb c then None
        else if tc_conn_pcb c then Some (w, False)
        else do {
          c \<leftarrow> init_report ip pcb (c\<lparr>tc_base := (tc_base c)\<lparr>ms_report := zero_report\<rparr>,
            tc_settings := replicate 24 0, tc_have_settings_buf := False, tc_conn_pcb := True\<rparr>);
          Some (w\<lparr>tw_conn := Some c, tw_pcb := True\<rparr>, True)
        }
      })"

text \<open>Starting a server; the result is the state and whether it was started.\<close>

definition iperf_start_tcp_server_impl ::
  "'ip ip_ops \<Rightarrow> ptr \<Rightarrow> bool \<Rightarrow> bool \<Rightarrow> bool \<Rightarrow> mmiperf_server_args \<Rightarrow> bool \<Rightarrow> session_list \<Rightarrow> tcp_world \<times> bool" where
  "iperf_start_tcp_server_impl ip self pcb_ok bind_ok listen_ok args has_fn l =
     (let none = \<lparr>tw_conn = None, tw_listener = False, tw_pcb = False, tw_sessions = l\<rparr> in
      if cstr (sa_local_addr args) \<noteq> [] \<and> ipaddr_aton ip (cstr (sa_local_addr args)) = None then (none, False)
      else if self = NULL then (none, False)
      else if \<not> pcb_ok \<or> \<not> bind_ok \<or> \<not> listen_ok then (none, False)
      else (\<lparr>tw_conn = Some \<lparr>tc_base = \<lparr>ms_tcp = True, ms_server = True, ms_time_started_ms = 0,
                ms_last_rx_time_ms = 0, ms_report = zero_report, ms_has_report_fn = has_fn\<rparr>,
              tc_server_pcb = True, tc_conn_pcb = False, tc_poll_count = 0, tc_mss = 0,
              tc_settings = replicate 24 0, tc_have_settings_buf = False, tc_bw_limit = False,
              tc_block_end_time = 0, tc_block_txlen = 0, tc_block_remaining_txlen = 0\<rparr>,
             tw_listener = True, tw_pcb = False, tw_sessions = iperf_list_add l self\<rparr>, True))"

text \<open>The handle is \<open>NULL\<close> when the server is not started.\<close>

definition mmiperf_start_tcp_server ::
  "'ip ip_ops \<Rightarrow> ptr \<Rightarrow> bool \<Rightarrow> bool \<Rightarrow> bool \<Rightarrow> mmiperf_server_args \<Rightarrow> bool \<Rightarrow> session_list \<Rightarrow> tcp_world \<times> ptr" where
  "mmiperf_start_tcp_server ip self pcb_ok bind_ok listen_ok args has_fn l =
     (let (w, ok) = iperf_start_tcp_server_impl ip self pcb_ok bind_ok listen_ok args has_fn l in
      (w, if ok then self else NULL))"

end
