(* ===== verification/Iperf_Udp_Correct.thy ===== *)
theory Iperf_Udp_Correct
  imports Iperf_Udp
begin

text \<open>
  What the UDP engine of iperf guarantees: the server's counters over a whole session, the report
  on its way from the server to the client, and the end of the client's transmit loop.
\<close>

section \<open>The server's session\<close>

text \<open>
  What the code relies on of lwIP: comparing an address with itself succeeds, and the text of an
  address fits into 48 characters.
\<close>

definition ip_laws :: "'ip ip_ops \<Rightarrow> bool" where
  "ip_laws ip \<longleftrightarrow> (\<forall>a. ip_addr_cmp_zoneless ip a a) \<and> (\<forall>a. ipaddr_ntoa_r ip a 48 \<noteq> None)"

text \<open>A packet event: the clock readings, the result of the report's allocation and the packet.\<close>

type_synonym pkt_event = "clocks \<times> bool \<times> u8 list"

definition server_step ::
  "'ip ip_ops \<Rightarrow> 'ip \<Rightarrow> u16 \<Rightarrow> 'ip udp_server \<Rightarrow> pkt_event \<Rightarrow> ('ip udp_server \<times> 'ip udp_effect list) option" where
  "server_step ip addr port s e = (case e of (ck, ok, p) \<Rightarrow> iperf_udp_server_recv ip ck ok s p addr port)"

definition session_of :: "'ip ip_ops \<Rightarrow> 'ip udp_server \<Rightarrow> 'ip \<Rightarrow> u16 \<Rightarrow> bool" where
  "session_of ip s addr port \<longleftrightarrow>
     ip_addr_cmp_zoneless ip (us_client_addr (sv_session s)) addr \<and> us_client_port (sv_session s) = port"

text \<open>Every packet comes within the session timeout of the one before it.\<close>

fun timely :: "u32 \<Rightarrow> pkt_event list \<Rightarrow> bool" where
  "timely t [] \<longleftrightarrow> True"
| "timely t (e # es) \<longleftrightarrow>
     \<not> mmosal_time_le (t + IPERF_UDP_SERVER_SESSION_TIMEOUT_MS) (ck_get (fst e)) \<and> timely (ck_rx (fst e)) es"

text \<open>A data packet with the number \<open>i\<close>.\<close>

definition data_packet :: "iperf_version \<Rightarrow> pkt_event \<Rightarrow> nat \<Rightarrow> bool" where
  "data_packet version e i \<longleftrightarrow> (case e of (_, _, p) \<Rightarrow>
     SIZEOF_HEADER + SIZEOF_SETTINGS \<le> length p \<and> length p < 2 ^ 16 \<and> i < 2 ^ 31 - 1 \<and>
     packet_id_of version p = Some (of_nat i))"

definition final_packet :: "iperf_version \<Rightarrow> pkt_event \<Rightarrow> nat \<Rightarrow> bool" where
  "final_packet version e i \<longleftrightarrow> (case e of (_, _, p) \<Rightarrow>
     SIZEOF_HEADER + SIZEOF_SETTINGS \<le> length p \<and> length p < 2 ^ 16 \<and> 0 < i \<and> i < 2 ^ 31 - 1 \<and>
     packet_id_of version p = Some (- of_nat i))"

definition event_len :: "pkt_event \<Rightarrow> nat" where
  "event_len e = length (snd (snd e))"

lemma event_len_pkt [simp]: "event_len (ck, ok, p) = length p"
  by (simp add: event_len_def)

lemma load_be32_Some: "off + 4 \<le> length p \<Longrightarrow> \<exists>v. load_be32 p off = Some v"
  using load_be32_ok [of off p] by auto

lemma counts_active: "session_counts s ids bytes \<Longrightarrow> 0 \<le> sint (us_next_packet_id (sv_session s))"
  by (auto simp: session_counts_def Let_def sint_of_nat32)

lemma count_packet_fields [simp]:
  "sv_version (count_packet ck s len i t) = sv_version s"
  "sv_local_addr (count_packet ck s len i t) = sv_local_addr s"
  "us_client_addr (sv_session (count_packet ck s len i t)) = us_client_addr (sv_session s)"
  "us_client_port (sv_session (count_packet ck s len i t)) = us_client_port (sv_session s)"
  "ms_last_rx_time_ms (sv_base (count_packet ck s len i t)) = ck_rx ck"
  "ms_time_started_ms (sv_base (count_packet ck s len i t)) = ms_time_started_ms (sv_base s)"
  "ms_has_report_fn (sv_base (count_packet ck s len i t)) = ms_has_report_fn (sv_base s)"
  by (simp_all add: count_packet_def Let_def)

lemma sint_minus_nat: "i < 2 ^ 31 \<Longrightarrow> sint (- of_nat i :: u64) = - int i"
proof -
  assume i: "i < 2 ^ 31"
  have "(- of_nat i :: u64) = of_int (- int i)" by simp
  then have "sint (- of_nat i :: u64) = signed_take_bit 63 (- int i)" by (simp only: signed_of_int) simp
  also have "\<dots> = - int i" using i by (intro signed_take_bit_int_eq_self) simp_all
  finally show ?thesis .
qed

lemma sint_minus_of_nat: "0 < i \<Longrightarrow> i < 2 ^ 31 \<Longrightarrow> sint (- of_nat i :: u64) < 0"
  by (simp only: sint_minus_nat)

lemma recv_data:
  assumes "data_packet (sv_version s) (ck, ok, p) i" and "get_session ip ck s addr port = Some (Some s')"
    and "session_counts s' ids bytes"
  shows "\<exists>t. iperf_udp_server_recv ip ck ok s p addr port = Some (count_packet ck s' (length p) (of_nat i) t, [])"
proof -
  have p: "40 \<le> length p" "i < 2 ^ 63" using assms(1) by (auto simp: data_packet_def SIZEOF_HEADER_def SIZEOF_SETTINGS_def)
  obtain sec usec where t: "load_be32 p 4 = Some sec" "load_be32 p 8 = Some usec"
    using load_be32_Some [of 4 p] load_be32_Some [of 8 p] p by auto
  have id: "packet_id_of (sv_version s) p = Some (of_nat i)" using assms(1) by (simp add: data_packet_def)
  show ?thesis
    using p t id assms(2) counts_active [OF assms(3)]
    by (intro exI [of _ "(sec, usec)"])
      (simp add: iperf_udp_server_recv_def SIZEOF_HEADER_def SIZEOF_SETTINGS_def sint_of_nat64 Let_def)
qed

lemma recv_final:
  assumes "final_packet (sv_version s) (ck, ok, p) i" and "get_session ip ck s addr port = Some (Some s')"
    and "session_counts s' ids bytes"
  shows "\<exists>t. iperf_udp_server_recv ip ck ok s p addr port =
    Some (server_final ip ok (count_packet ck s' (length p) (of_nat i) t) addr port p)"
proof -
  have p: "40 \<le> length p" "0 < i" "i < 2 ^ 31" using assms(1) by (auto simp: final_packet_def SIZEOF_HEADER_def SIZEOF_SETTINGS_def)
  obtain sec usec where t: "load_be32 p 4 = Some sec" "load_be32 p 8 = Some usec"
    using load_be32_Some [of 4 p] load_be32_Some [of 8 p] p by auto
  have id: "packet_id_of (sv_version s) p = Some (- of_nat i)" using assms(1) by (simp add: final_packet_def)
  show ?thesis
    using p t id assms(2) counts_active [OF assms(3)] sint_minus_of_nat [OF p(2,3)]
    by (intro exI [of _ "(sec, usec)"])
      (simp add: iperf_udp_server_recv_def SIZEOF_HEADER_def SIZEOF_SETTINGS_def Let_def)
qed

lemma get_session_same:
  "session_of ip s addr port \<Longrightarrow>
   \<not> mmosal_time_le (ms_last_rx_time_ms (sv_base s) + IPERF_UDP_SERVER_SESSION_TIMEOUT_MS) (ck_get ck) \<Longrightarrow>
   get_session ip ck s addr port = Some (Some s)"
  by (simp add: get_session_def session_of_def udp_server_session_has_timed_out_def)

lemma run_data:
  assumes "session_counts s ids bytes" and "session_of ip s addr port"
    and "timely (ms_last_rx_time_ms (sv_base s)) es"
    and "list_all2 (data_packet (sv_version s)) es is" and "length ids + length is < 2 ^ 31"
  shows "\<exists>s' rs. c_run (server_step ip addr port) s es = Some (s', rs) \<and> concat rs = [] \<and>
    session_counts s' (ids @ is) (bytes + sum_list (map event_len es)) \<and> session_of ip s' addr port \<and>
    sv_version s' = sv_version s \<and> ms_has_report_fn (sv_base s') = ms_has_report_fn (sv_base s) \<and>
    sv_local_addr s' = sv_local_addr s \<and> ms_time_started_ms (sv_base s') = ms_time_started_ms (sv_base s) \<and>
    ms_last_rx_time_ms (sv_base s') =
      (if es = [] then ms_last_rx_time_ms (sv_base s) else ck_rx (fst (last es)))"
  using assms
proof (induction es arbitrary: s ids "is" bytes)
  case Nil
  then show ?case by simp
next
  case (Cons e es)
  obtain ck ok p where e: "e = (ck, ok, p)" by (metis prod.exhaust)
  obtain i js where js: "is = i # js" "data_packet (sv_version s) e i" "list_all2 (data_packet (sv_version s)) es js"
    using Cons.prems(4) by (auto simp: list_all2_Cons1)
  have gs: "get_session ip ck s addr port = Some (Some s)"
    using Cons.prems(2,3) e by (intro get_session_same) auto
  obtain t where t: "iperf_udp_server_recv ip ck ok s p addr port =
      Some (count_packet ck s (length p) (of_nat i) t, [])"
    using recv_data [OF js(2) [unfolded e] gs Cons.prems(1)] by blast
  let ?s = "count_packet ck s (length p) (of_nat i) t"
  have c: "session_counts ?s (ids @ [i]) (bytes + length p)"
    using js(2) Cons.prems(5) js(1) e
    by (intro count_packet_counts [OF Cons.prems(1)]) (auto simp: data_packet_def)
  have "session_of ip ?s addr port" using Cons.prems(2) by (simp add: session_of_def)
  moreover have "timely (ms_last_rx_time_ms (sv_base ?s)) es" using Cons.prems(3) e by simp
  ultimately obtain s' rs where s': "c_run (server_step ip addr port) ?s es = Some (s', rs)" "concat rs = []"
      "session_counts s' ((ids @ [i]) @ js) (bytes + length p + sum_list (map event_len es))"
      "session_of ip s' addr port" "sv_version s' = sv_version s"
      "ms_has_report_fn (sv_base s') = ms_has_report_fn (sv_base s)" "sv_local_addr s' = sv_local_addr s"
      "ms_time_started_ms (sv_base s') = ms_time_started_ms (sv_base s)"
      "ms_last_rx_time_ms (sv_base s') = (if es = [] then ck_rx ck else ck_rx (fst (last es)))"
    using Cons.IH [of ?s "ids @ [i]" "bytes + length p" js] c js(1,3) Cons.prems(5) by auto
  have "server_step ip addr port s e = Some (?s, [])" using t e by (simp add: server_step_def)
  with s' e js(1) show ?case by (auto simp: add.assoc)
qed

text \<open>The first packet of a client that has no session, when the server is free.\<close>

definition server_free :: "'ip ip_ops \<Rightarrow> 'ip udp_server \<Rightarrow> 'ip \<Rightarrow> u16 \<Rightarrow> clocks \<Rightarrow> bool" where
  "server_free ip s addr port ck \<longleftrightarrow>
     (\<not> session_of ip s addr port \<or> udp_server_session_has_timed_out s (ck_get ck)) \<and>
     (sint (us_next_packet_id (sv_session s)) < 0 \<or> udp_server_session_has_timed_out s (ck_start_check ck))"

lemma session_starts:
  assumes "ip_laws ip" and "server_free ip s addr port ck"
  shows "\<exists>s'. get_session ip ck s addr port = Some (Some s') \<and> session_counts s' [] 0 \<and>
    session_of ip s' addr port \<and> sv_version s' = sv_version s \<and>
    ms_has_report_fn (sv_base s') = ms_has_report_fn (sv_base s) \<and> sv_local_addr s' = sv_local_addr s"
proof -
  obtain lt rt where "ipaddr_ntoa_r ip (sv_pcb_local_ip s) 48 = Some lt" "ipaddr_ntoa_r ip addr 48 = Some rt"
    using assms(1) unfolding ip_laws_def by blast
  then show ?thesis
    using assms
    by (auto simp: get_session_def session_of_def server_free_def udp_server_start_session_def ip_laws_def
        session_counts_def zero_report_def Let_def)
qed

lemma session_run:
  assumes ip: "ip_laws ip" and free: "server_free ip s addr port (fst e)"
    and "data_packet (sv_version s) e i" and "list_all2 (data_packet (sv_version s)) es is"
    and "timely (ck_rx (fst e)) es" and "length is < 2 ^ 31 - 1"
  shows "\<exists>s' rs. c_run (server_step ip addr port) s (e # es) = Some (s', rs) \<and> concat rs = [] \<and>
    session_counts s' (i # is) (sum_list (map event_len (e # es))) \<and> session_of ip s' addr port \<and>
    sv_version s' = sv_version s \<and> ms_has_report_fn (sv_base s') = ms_has_report_fn (sv_base s) \<and>
    sv_local_addr s' = sv_local_addr s \<and> ms_last_rx_time_ms (sv_base s') = ck_rx (fst (last (e # es)))"
proof -
  obtain ck ok p where e: "e = (ck, ok, p)" by (metis prod.exhaust)
  obtain s0 where s0: "get_session ip ck s addr port = Some (Some s0)" "session_counts s0 [] 0"
      "session_of ip s0 addr port" "sv_version s0 = sv_version s"
      "ms_has_report_fn (sv_base s0) = ms_has_report_fn (sv_base s)" "sv_local_addr s0 = sv_local_addr s"
    using session_starts [OF ip free] e by auto
  obtain t where t: "iperf_udp_server_recv ip ck ok s p addr port =
      Some (count_packet ck s0 (length p) (of_nat i) t, [])"
    using recv_data [OF assms(3) [unfolded e] s0(1,2)] by blast
  let ?s = "count_packet ck s0 (length p) (of_nat i) t"
  have c: "session_counts ?s [i] (length p)"
    using count_packet_counts [OF s0(2), of i "length p" ck t] assms(3) e by (auto simp: data_packet_def)
  have so: "session_of ip ?s addr port" using s0(3) by (simp add: session_of_def)
  have "server_step ip addr port s e = Some (?s, [])" using t e by (simp add: server_step_def)
  then show ?thesis
    using run_data [OF c so, of es "is"] assms(4-6) s0(4-6) e by auto
qed

lemma counts_unat:
  assumes "session_counts s ids bytes"
  shows "unat (rx_frames (ms_report (sv_base s))) = length ids"
    and "length ids + unat (error_count (ms_report (sv_base s))) =
      next_id ids + unat (out_of_sequence_frames (ms_report (sv_base s)))"
    and "bytes_transferred (ms_report (sv_base s)) = of_nat bytes"
proof -
  obtain e l where el: "error_count (ms_report (sv_base s)) = of_nat e"
      "out_of_sequence_frames (ms_report (sv_base s)) = of_nat l" "e \<le> next_id ids" "l \<le> length ids"
      "length ids + e = next_id ids + l" "next_id ids < 2 ^ 31" "length ids < 2 ^ 31"
      "rx_frames (ms_report (sv_base s)) = of_nat (length ids)"
    using assms by (auto simp: session_counts_def Let_def)
  then have "unat (of_nat e :: u32) = e" "unat (of_nat l :: u32) = l" "unat (of_nat (length ids) :: u32) = length ids"
    by (simp_all add: unat_of_nat32)
  with el show "unat (rx_frames (ms_report (sv_base s))) = length ids"
    "length ids + unat (error_count (ms_report (sv_base s))) =
      next_id ids + unat (out_of_sequence_frames (ms_report (sv_base s)))" by simp_all
  show "bytes_transferred (ms_report (sv_base s)) = of_nat bytes"
    using assms by (simp add: session_counts_def Let_def)
qed

lemma missing_ids: "distinct ids \<Longrightarrow> card ({..<next_id ids} - set ids) + length ids = next_id ids"
proof -
  assume d: "distinct ids"
  have sub: "set ids \<subseteq> {..<next_id ids}" by (auto simp: next_id_bound)
  have "card ({..<next_id ids} - set ids) = next_id ids - length ids"
    using sub d by (simp add: card_Diff_subset distinct_card)
  moreover have "length ids \<le> next_id ids"
    using card_mono [OF _ sub] d by (simp add: distinct_card)
  ultimately show ?thesis by simp
qed

lemma next_id_Max: "ids \<noteq> [] \<Longrightarrow> next_id ids = Suc (Max (set ids))"
proof (induction ids rule: rev_induct)
  case (snoc x xs)
  then show ?case by (cases "xs = []") (simp_all add: next_id_def max.commute)
qed simp

lemma timely_snoc:
  "timely t (es @ [e]) \<longleftrightarrow> timely t es \<and>
     \<not> mmosal_time_le ((if es = [] then t else ck_rx (fst (last es))) + IPERF_UDP_SERVER_SESSION_TIMEOUT_MS)
         (ck_get (fst e))"
  by (induction es arbitrary: t) auto

lemma final_step:
  assumes "session_counts s ids bytes" and "session_of ip s addr port" and "ms_has_report_fn (sv_base s)"
    and "\<not> ip_addr_ismulticast ip (sv_local_addr s)" and "final_packet (sv_version s) (ck, True, p) m"
    and "\<not> mmosal_time_le (ms_last_rx_time_ms (sv_base s) + IPERF_UDP_SERVER_SESSION_TIMEOUT_MS) (ck_get ck)"
    and "length ids < 2 ^ 31 - 1"
  shows "\<exists>s' r. server_step ip addr port s (ck, True, p) = Some (s', [Report_fn r, Udp_sendto addr port
      (take SIZEOF_HEADER p @ server_report_bytes (iperf_populate_udp_server_report (sv_base s')))]) \<and>
    ms_report (sv_base s') = r \<and> report_type r = MMIPERF_UDP_DONE_SERVER \<and>
    sint (us_next_packet_id (sv_session s')) < 0 \<and>
    unat (rx_frames r) = Suc (length ids) \<and> bytes_transferred r = of_nat (bytes + length p) \<and>
    Suc (length ids) + unat (error_count r) = next_id (ids @ [m]) + unat (out_of_sequence_frames r)"
proof -
  have gs: "get_session ip ck s addr port = Some (Some s)"
    using assms(2,6) by (intro get_session_same) auto
  obtain t where t: "iperf_udp_server_recv ip ck True s p addr port =
      Some (server_final ip True (count_packet ck s (length p) (of_nat m) t) addr port p)"
    using recv_final [OF assms(5) gs assms(1)] by blast
  let ?s = "count_packet ck s (length p) (of_nat m) t"
  have c: "session_counts ?s (ids @ [m]) (bytes + length p)"
    using assms(5,7) by (intro count_packet_counts [OF assms(1)]) (auto simp: final_packet_def)
  have l: "16 \<le> length p" using assms(5) by (simp add: final_packet_def SIZEOF_HEADER_def SIZEOF_SETTINGS_def)
  obtain b r where b: "iperf_finalize_report_and_invoke_callback (sv_base ?s)
      (ms_last_rx_time_ms (sv_base ?s) - ms_time_started_ms (sv_base ?s)) MMIPERF_UDP_DONE_SERVER = (b, [r])"
      "ms_report b = r" "report_type r = MMIPERF_UDP_DONE_SERVER" "rx_frames r = rx_frames (ms_report (sv_base ?s))"
      "bytes_transferred r = bytes_transferred (ms_report (sv_base ?s))"
      "error_count r = error_count (ms_report (sv_base ?s))"
      "out_of_sequence_frames r = out_of_sequence_frames (ms_report (sv_base ?s))"
    using assms(3) by (simp add: iperf_finalize_report_and_invoke_callback_def Let_def)
  have "server_final ip True ?s addr port p =
      (?s\<lparr>sv_base := b, sv_session := (sv_session ?s)\<lparr>us_next_packet_id := - 1\<rparr>\<rparr>, [Report_fn r, Udp_sendto addr port
        (take SIZEOF_HEADER p @ server_report_bytes (iperf_populate_udp_server_report b))])"
    using b(1) counts_active [OF c] assms(4) l
    by (simp add: server_final_def iperf_udp_server_handle_final_packet_def SIZEOF_HEADER_def)
  then show ?thesis
    using t b(2-) counts_unat [OF c] by (simp add: server_step_def)
qed

section \<open>Examples\<close>

text \<open>Addresses are numbers here; a server with the default arguments, a client of 100 bytes.\<close>

definition example_ip :: "nat ip_ops" where
  "example_ip = \<lparr>ip_addr_cmp_zoneless = (=), ip_addr_ismulticast = (\<lambda>_. False),
     ipaddr_ntoa_r = (\<lambda>_ _. Some ''10.0.0.1''), ipaddr_aton = (\<lambda>_. Some 1), ip_is_v4 = (\<lambda>_. True),
     ip_addr_zero = 0, ip_addr_any = 0\<rparr>"

definition example_server :: "nat udp_server" where
  "example_server = the (fst (mmiperf_start_udp_server example_ip (\<lambda>_. 0, 0) 5 True True MMIPERF_SERVER_ARGS_DEFAULT True))"

definition example_clock :: "u32 \<Rightarrow> clocks" where
  "example_clock t = \<lparr>ck_get = t, ck_start_check = t, ck_start = t, ck_rx = t\<rparr>"

definition example_packet :: "u32 \<Rightarrow> u32 \<Rightarrow> u8 list" where
  "example_packet lo hi = be32 lo @ replicate 8 0 @ be32 hi @ replicate 24 0"

definition example_args :: mmiperf_client_args where
  "example_args = MMIPERF_CLIENT_ARGS_DEFAULT\<lparr>ca_amount := 100, ca_packet_size := 40\<rparr>"

definition example_client :: "nat udp_client" where
  "example_client = the (fst (mmiperf_start_udp_client example_ip (\<lambda>_. 0, 0) 5 True True 0 0 example_args True))"

definition example_base :: mmiperf_state where
  "example_base = \<lparr>ms_tcp = False, ms_server = True, ms_time_started_ms = 100, ms_last_rx_time_ms = 300,
     ms_report = zero_report, ms_has_report_fn = True\<rparr>"

definition example_send :: send_env where
  "example_send = \<lparr>se_raw = Some (replicate 40 0), se_now = 0, se_rom_ok = True, se_send_ok = True\<rparr>"

definition example_iter :: iter_env where
  "example_iter = \<lparr>ie_now_end = 0, ie_now_block = 0, ie_now_block_end = 0, ie_now_send = 0, ie_send = example_send\<rparr>"

definition example_task :: "nat task_env" where
  "example_task = \<lparr>te_start = 0, te_iter = (\<lambda>_. example_iter), te_wait = [], te_retry = (\<lambda>_. (example_send, [])),
     te_end = 5000\<rparr>"

lemma example_client_fields:
  "uc_args example_client = example_args" "tx_frames (ms_report (uc_base example_client)) = 0"
  "bytes_transferred (ms_report (uc_base example_client)) = 0" "ms_has_report_fn (uc_base example_client)"
  by (simp_all add: example_client_def mmiperf_start_udp_client_def example_ip_def example_args_def
      MMIPERF_CLIENT_ARGS_DEFAULT_def zero_report_def Let_def)

lemma example_args_fields:
  "ca_version example_args = IPERF_VERSION_2_0_13" "ca_target_bw example_args = 0" "ca_amount example_args = 100"
  "ca_packet_size example_args = 40"
  by (simp_all add: example_args_def MMIPERF_CLIENT_ARGS_DEFAULT_def)

lemma example_packet_facts:
  "packet_id_of IPERF_VERSION_2_0_13 (example_packet lo hi) = Some (push_bit 32 (ucast hi) OR ucast lo)"
  "length (example_packet lo hi) = 40"
proof -
  have "load_be32 (example_packet lo hi) 0 = Some lo"
    using load_be32_at(1) [of 0 "example_packet lo hi" lo] by (simp add: example_packet_def)
  moreover have "drop 12 (example_packet lo hi) = be32 hi @ replicate 24 0"
    by (simp add: example_packet_def be32_def)
  then have "load_be32 (example_packet lo hi) 12 = Some hi" by (rule load_be32_at)
  ultimately show "packet_id_of IPERF_VERSION_2_0_13 (example_packet lo hi) = Some (push_bit 32 (ucast hi) OR ucast lo)"
    by (simp add: packet_id_of_def)
qed (simp add: example_packet_def be32_def)

lemma example_final_id: "push_bit 32 (ucast (- 1 :: u32)) OR 4294967293 = (- 3 :: u64)"
  by code_simp

lemma example_ip_laws: "ip_laws example_ip"
  by (simp add: ip_laws_def example_ip_def)

section \<open>Properties of the server\<close>



section \<open>The report on the wire\<close>

lemma length_be32 [simp]: "length (be32 w) = 4"
  by (simp add: be32_def)

lemma length_mem32 [simp]: "length (mem32 w) = 4"
  by (simp add: mem32_def)

lemma drop_mem32s:
  "k \<le> length ws \<Longrightarrow> drop (4 * k) (concat (map mem32 ws) @ post) = concat (map mem32 (drop k ws)) @ post"
proof (induction k arbitrary: ws)
  case (Suc k)
  then obtain w vs where "ws = w # vs" by (cases ws) auto
  with Suc show ?case by simp
qed simp

lemma load_mem32_nth:
  assumes "k < length ws"
  shows "load_mem32 (pre @ concat (map mem32 ws) @ post) (length pre + 4 * k) = Some (ws ! k)"
proof -
  have "drop (length pre + 4 * k) (pre @ concat (map mem32 ws) @ post) = concat (map mem32 (drop k ws)) @ post"
    using drop_mem32s [of k ws post] assms by simp
  also have "\<dots> = be32 (htobe32 (ws ! k)) @ concat (map mem32 (drop (Suc k) ws)) @ post"
    using assms by (simp add: Cons_nth_drop_Suc [symmetric] mem32_def)
  finally show ?thesis by (simp add: load_mem32_def load_be32_at(1))
qed

lemma those_nth: "length xs = n \<Longrightarrow> (\<And>k. k < n \<Longrightarrow> f k = Some (xs ! k)) \<Longrightarrow> those (map f [0..<n]) = Some xs"
proof (induction xs arbitrary: f n)
  case (Cons x xs)
  then obtain m where n: "n = Suc m" "length xs = m" by auto
  have "those (map (\<lambda>k. f (Suc k)) [0..<m]) = Some xs"
    using Cons.IH [OF n(2), of "\<lambda>k. f (Suc k)"] Cons.prems(2) n by (metis Suc_less_eq nth_Cons_Suc)
  moreover have "f 0 = Some x" using Cons.prems(2) [of 0] n by simp
  moreover have "map f [0..<n] = f 0 # map (\<lambda>k. f (Suc k)) [0..<m]"
    unfolding n(1) by (simp only: map_upt_Suc)
  ultimately show ?case by simp
qed simp

lemma read_server_report_bytes:
  assumes "length (sr_transit r) = 15"
  shows "read_server_report (pre @ server_report_bytes r) (length pre) = Some r"
proof -
  let ?ws = "[sr_flags r, sr_total_len1 r, sr_total_len2 r, sr_stop_sec r, sr_stop_usec r, sr_error_cnt r,
       sr_outorder_cnt r, sr_datagrams r] @ sr_transit r @ [sr_IPGcnt r, sr_IPGsum r]"
  let ?p = "pre @ server_report_bytes r"
  have l: "load_mem32 ?p (length pre + 4 * k) = Some (?ws ! k)" if "k < 25" for k
    using load_mem32_nth [of k ?ws pre "[]"] that assms by (simp only: server_report_bytes_def append_Nil2) simp
  have tr: "those (map (\<lambda>k. load_mem32 ?p (length pre + 32 + 4 * k)) [0..<15]) = Some (sr_transit r)"
  proof (rule those_nth [OF assms])
    fix k :: nat assume k: "k < 15"
    have "load_mem32 ?p (length pre + 4 * (8 + k)) = Some (?ws ! (8 + k))" using l [of "8 + k"] k by simp
    moreover have "?ws ! (8 + k) = sr_transit r ! k" using k assms by (simp add: nth_append)
    ultimately show "load_mem32 ?p (length pre + 32 + 4 * k) = Some (sr_transit r ! k)"
      by (simp add: algebra_simps)
  qed
  have n: "?ws ! 23 = sr_IPGcnt r" "?ws ! 24 = sr_IPGsum r" using assms by (simp_all add: nth_append)
  show ?thesis
    unfolding read_server_report_def
    using l [of 0] l [of 1] l [of 2] l [of 3] l [of 4] l [of 5] l [of 6] l [of 7] l [of 23] l [of 24] tr n
    by simp
qed

lemma length_report_bytes: "length (server_report_bytes r) = 4 * (10 + length (sr_transit r))"
proof -
  have "length (concat (map mem32 ws)) = 4 * length ws" for ws by (induction ws) simp_all
  then show ?thesis by (simp add: server_report_bytes_def)
qed

lemma load_be32_take: "off + 4 \<le> n \<Longrightarrow> n \<le> length p \<Longrightarrow> load_be32 (take n p @ q) off = load_be32 p off"
  by (simp add: load_be32_def load_def nth_append)

lemma sint_split64: "sint (push_bit 32 (ucast hi) OR ucast (lo :: u32) :: u64) < 0 \<longleftrightarrow> sint (hi :: u32) < 0"
proof -
  have "bit (push_bit 32 (ucast hi) OR ucast lo :: u64) 63 \<longleftrightarrow> bit hi 31"
    unfolding bit_or_iff bit_push_bit_iff bit_unsigned_iff by (auto dest: bit_imp_le_length)
  then show ?thesis by (simp add: sint_uint signed_take_bit_negative_iff bit_simps)
qed

lemma scast_neg: "sint (scast (x :: u32) :: u64) < 0 \<longleftrightarrow> sint x < 0"
proof -
  have "bit (scast x :: u64) 63 \<longleftrightarrow> bit x 31" by (simp add: bit_simps)
  then show ?thesis by (simp add: sint_uint signed_take_bit_negative_iff bit_simps)
qed

lemma final_header_ok:
  assumes "16 \<le> length p" and "packet_id_of version p = Some pid" and "sint pid < 0"
  shows "\<exists>hdr. read_udp_header (take 16 p @ q) = Some hdr \<and> report_header_ok hdr version"
proof -
  obtain lo sec usec hi where l: "load_be32 p 0 = Some lo" "load_be32 p 4 = Some sec" "load_be32 p 8 = Some usec"
      "load_be32 p 12 = Some hi"
    using load_be32_Some [of 0 p] load_be32_Some [of 4 p] load_be32_Some [of 8 p] load_be32_Some [of 12 p] assms(1)
    by auto
  have lt: "load_be32 (take 16 p @ q) k = load_be32 p k" if "k + 4 \<le> 16" for k
    using load_be32_take [of k 16 p q] that assms(1) by simp
  have h: "read_udp_header (take 16 p @ q) = Some \<lparr>uh_id_lo = htobe32 lo, uh_tv_sec = htobe32 sec,
      uh_tv_usec = htobe32 usec, uh_id_hi = htobe32 hi\<rparr>"
    using l lt [of 0] lt [of 4] lt [of 8] lt [of 12] by (simp add: read_udp_header_def load_mem32_def)
  have hi0: "htobe32 hi \<noteq> 0" if "sint hi < 0"
  proof
    assume "htobe32 hi = 0"
    moreover have "htobe32 0 = 0" by (simp add: htobe32_def)
    ultimately have "hi = 0" using be32toh_htobe32 [of hi] by simp
    with that show False by simp
  qed
  have "report_header_ok \<lparr>uh_id_lo = htobe32 lo, uh_tv_sec = htobe32 sec,
      uh_tv_usec = htobe32 usec, uh_id_hi = htobe32 hi\<rparr> version"
    using assms(2,3) l hi0
    by (auto simp: report_header_ok_def packet_id_of_def scast_neg sint_split64 split: if_splits)
  with h show ?thesis by blast
qed

lemma client_reads_reply:
  assumes "16 \<le> length p" and "packet_id_of (ca_version (uc_args c)) p = Some pid" and "sint pid < 0"
  shows "iperf_udp_client_report c
      (take SIZEOF_HEADER p @ server_report_bytes (iperf_populate_udp_server_report b)) d =
    Some (c\<lparr>uc_base := (uc_base c)\<lparr>ms_report := (ms_report (uc_base c))
      \<lparr>bytes_transferred := bytes_transferred (ms_report b), error_count := error_count (ms_report b),
       out_of_sequence_frames := out_of_sequence_frames (ms_report b), rx_frames := rx_frames (ms_report b),
       duration_ms := ms_last_rx_time_ms b - ms_time_started_ms b, bandwidth_kbitpsec := 0\<rparr>\<rparr>\<rparr>,
      ms_last_rx_time_ms b - ms_time_started_ms b)"
proof -
  let ?r = "iperf_populate_udp_server_report b"
  obtain hdr where h: "read_udp_header (take 16 p @ server_report_bytes ?r) = Some hdr"
      "report_header_ok hdr (ca_version (uc_args c))"
    using final_header_ok [OF assms] by blast
  have t: "length (sr_transit ?r) = 15" by (simp add: iperf_populate_udp_server_report_def Let_def)
  have r: "read_server_report (take 16 p @ server_report_bytes ?r) 16 = Some ?r"
    using read_server_report_bytes [OF t, of "take 16 p"] assms(1) by simp
  have len: "length (take 16 p @ server_report_bytes ?r) = 116"
    using t assms(1) by (simp add: length_report_bytes)
  show ?thesis
    using h(1) r len assms(1) unfolding iperf_udp_client_report_def SIZEOF_HEADER_def SIZEOF_REPORT_def
    by (simp add: report_roundtrip [OF h(2)])
qed

section \<open>Property of the report\<close>

text \<open>C31: The server's counters reach the client unchanged: the reply to a packet with a negative
  number, read by the client as it arrives, gives the client's report the bytes, the errors, the
  frames out of sequence and the frames of the server and the duration that the server measured,
  and the bandwidth that the client reports is computed from them.\<close>

theorem udp_report_reaches_client:
  assumes "SIZEOF_HEADER \<le> length p" "packet_id_of (ca_version (uc_args c)) p = Some pid" "sint pid < 0"
    "0 < sint (ms_last_rx_time_ms b - ms_time_started_ms b)" "ms_has_report_fn (uc_base c)"
    "uc_report c = Some (take SIZEOF_HEADER p @ server_report_bytes (iperf_populate_udp_server_report b))"
  shows "\<exists>c' d r. client_result ip now c = Some (c', d) \<and> uc_report c' = None \<and>
    snd (iperf_finalize_report_and_invoke_callback (uc_base c') d MMIPERF_UDP_DONE_CLIENT) = [r] \<and>
    bytes_transferred r = bytes_transferred (ms_report b) \<and> error_count r = error_count (ms_report b) \<and>
    out_of_sequence_frames r = out_of_sequence_frames (ms_report b) \<and> rx_frames r = rx_frames (ms_report b) \<and>
    duration_ms r = ms_last_rx_time_ms b - ms_time_started_ms b \<and>
    tx_frames r = tx_frames (ms_report (uc_base c)) \<and>
    bandwidth_kbitpsec r = ucast (bytes_transferred (ms_report b) * 8 div ucast (duration_ms r))"
  using assms client_reads_reply [of p c pid b 0]
  by (simp add: client_result_def iperf_finalize_report_and_invoke_callback_def Let_def SIZEOF_HEADER_def)

theorem udp_report_reaches_client_witness:
  "\<exists>c' d r. client_result example_ip 0 (example_client\<lparr>uc_report := Some (take SIZEOF_HEADER (example_packet (- 3) (- 1)) @
      server_report_bytes (iperf_populate_udp_server_report example_base))\<rparr>) = Some (c', d) \<and>
    snd (iperf_finalize_report_and_invoke_callback (uc_base c') d MMIPERF_UDP_DONE_CLIENT) = [r] \<and>
    duration_ms r = 200"
proof -
  have "0 < sint (ms_last_rx_time_ms example_base - ms_time_started_ms example_base)"
      "ms_last_rx_time_ms example_base - ms_time_started_ms example_base = 200"
    by (simp_all add: example_base_def)
  moreover have "sint (- 3 :: u64) < 0" by simp
  ultimately show ?thesis
    using udp_report_reaches_client [of "example_packet (- 3) (- 1)" "example_client\<lparr>uc_report := Some
        (take SIZEOF_HEADER (example_packet (- 3) (- 1)) @
          server_report_bytes (iperf_populate_udp_server_report example_base))\<rparr>" "- 3" example_base example_ip 0]
    by (auto simp: example_client_fields example_args_fields example_packet_facts example_final_id SIZEOF_HEADER_def)
qed

section \<open>The client's transmit loop\<close>

lemma blit_ok: "off + length src \<le> length dst \<Longrightarrow> \<exists>d. blit dst off src = Some d \<and> length d = length dst"
  by (simp add: blit_def)

text \<open>The pool buffers hold the headers, and the payload of a packet is in the payload data.\<close>

definition pool_ok :: "send_env \<Rightarrow> bool" where
  "pool_ok e \<longleftrightarrow> (\<forall>raw. se_raw e = Some raw \<longrightarrow> 40 \<le> length raw)"

definition send_ok :: "send_env \<Rightarrow> bool" where
  "send_ok e \<longleftrightarrow> se_raw e \<noteq> None \<and> se_rom_ok e \<and> se_send_ok e"

lemma get_data_ok: "len \<le> 1590 \<Longrightarrow> iperf_get_data 0 len \<noteq> None"
  using iperf_get_data_exact [of len 0] by (simp add: IPERF_DATA_LEN_def)

lemma send_packet_returns:
  assumes "pool_ok e" and "unat tx_amount \<le> 1590"
  shows "\<exists>pkts. iperf_udp_client_send_packet c e tx_amount final = Some (send_ok e, pkts)"
proof (cases "se_raw e")
  case None
  then show ?thesis by (simp add: iperf_udp_client_send_packet_def send_ok_def)
next
  case (Some raw)
  then have r: "40 \<le> length raw" using assms(1) by (simp add: pool_ok_def)
  have pl: "iperf_get_data 0 (unat (ucast (if tx_amount > h then tx_amount - h else 0) :: u16)) \<noteq> None" for h :: u32
  proof (rule get_data_ok)
    have "unat (if tx_amount > h then tx_amount - h else 0) \<le> 1590"
      using assms(2) unat_sub [of h tx_amount] by auto
    then show "unat (ucast (if tx_amount > h then tx_amount - h else 0) :: u16) \<le> 1590"
      by (simp only: unsigned_ucast_eq) (rule order_trans [OF take_bit_nat_less_eq_self])
  qed
  obtain y where "iperf_get_data 0 (unat (ucast (if tx_amount > 36 then tx_amount - 36 else 0) :: u16)) = Some y"
    using pl by blast
  moreover obtain z where
    "iperf_get_data 0 (unat (ucast (if tx_amount > 40 then tx_amount - 40 else 0) :: u16)) = Some z"
    using pl by blast
  ultimately show ?thesis
    using r Some
    by (cases "ca_version (uc_args c) = IPERF_VERSION_2_0_9"; cases "se_rom_ok e"; cases "se_send_ok e")
      (simp_all add: iperf_udp_client_send_packet_def Let_def blit_def SIZEOF_HEADER_def SIZEOF_SETTINGS_def
        send_ok_def split del: if_split)
qed

text \<open>A transfer of a number of bytes without a bandwidth limit.\<close>

definition byte_transfer :: "'ip client_loop_vars \<Rightarrow> nat \<Rightarrow> bool" where
  "byte_transfer v psize \<longleftrightarrow>
     (let args = uc_args (lv_client v) in
      ca_target_bw args = 0 \<and> unat (ca_packet_size args) = psize \<and> 0 < psize \<and> psize \<le> 1590)"

definition frames_of :: "'ip client_loop_vars \<Rightarrow> u32" where
  "frames_of v = tx_frames (ms_report (uc_base (lv_client v)))"

definition bytes_of :: "'ip client_loop_vars \<Rightarrow> u64" where
  "bytes_of v = bytes_transferred (ms_report (uc_base (lv_client v)))"

definition last_iter :: "'ip client_loop_vars \<Rightarrow> nat \<Rightarrow> bool" where
  "last_iter v psize \<longleftrightarrow> unat (lv_remaining v) \<le> psize \<or> frames_of v \<ge> UINT32_MAX - 10"

lemma unat_ucast64: "unat (ucast (x :: u32) :: u64) = unat x"
  by (simp add: unsigned_ucast_eq take_bit_nat_eq_self order_less_le_trans [OF unat_u32])

lemma not_above_max: "\<not> UINT32_MAX < x"
  by (simp add: UINT32_MAX_def)

lemma iter_spec:
  assumes v: "byte_transfer v psize" and e: "pool_ok (ie_send env)"
  shows "\<exists>v'. client_iter UINT32_MAX v env = Some v' \<and> byte_transfer v' psize \<and>
    (lv_final v' \<longleftrightarrow> last_iter v psize) \<and>
    (if send_ok (ie_send env)
     then lv_failure_cnt v' = 0 \<and> frames_of v' = frames_of v + 1 \<and>
       bytes_of v' = bytes_of v + of_nat (min (unat (lv_remaining v)) psize) \<and>
       unat (lv_remaining v') = unat (lv_remaining v) - psize
     else lv_failure_cnt v' = lv_failure_cnt v + 1 \<and> lv_remaining v' = lv_remaining v)"
proof -
  let ?c = "lv_client v" and ?R = "lv_remaining v"
  let ?p = "ca_packet_size (uc_args ?c)"
  let ?m = "if ucast ?p < ?R then ucast ?p else ?R"
  have p: "unat ?p = psize" "0 < psize" "psize \<le> 1590" "ca_target_bw (uc_args ?c) = 0"
    using v by (auto simp: byte_transfer_def Let_def)
  have R: "?R \<le> ucast ?p \<longleftrightarrow> unat ?R \<le> psize" by (simp only: word_le_nat_alt unat_ucast64 p(1))
  have m: "unat ?m = min (unat ?R) psize"
    by (auto simp only: word_less_nat_alt unat_ucast64 p(1) min_def split: if_splits)
  have "unat (ucast ?m :: u32) = unat ?m"
    using m p(3) by (simp add: unsigned_ucast_eq take_bit_nat_eq_self split del: if_split)
  then have t: "unat (ucast ?m :: u32) = min (unat ?R) psize" using m by simp
  then have "unat (ucast ?m :: u32) \<le> 1590" using p(3) by simp
  have tu: "ucast (ucast ?m :: u32) = ?m"
    by (rule word_unat_eq_iff [THEN iffD2]) (simp only: unat_ucast64 t m)
  have mo: "?m = of_nat (min (unat ?R) psize)" by (simp only: m [symmetric] of_nat_unat ucast_id)
  have rem: "unat (?R - ?m) = unat ?R - psize"
    using m by (subst unat_sub) (auto simp: word_le_nat_alt)
  define w where "w = iter_begin UINT32_MAX v env"
  have w: "uc_args (lv_client w) = uc_args ?c" "uc_base (lv_client w) = uc_base ?c" "lv_remaining w = ?R"
      "lv_failure_cnt w = lv_failure_cnt v" "lv_tx_amount w = ucast ?m"
    using p(4) by (simp_all add: w_def iter_begin_def Let_def split del: if_split)
  have wf: "lv_final w = last_iter v psize"
    using p(4) by (simp add: w_def iter_begin_def Let_def last_iter_def frames_of_def R not_above_max)
  obtain pkts where s: "iperf_udp_client_send_packet (lv_client w) (ie_send env) (lv_tx_amount w) (lv_final w) =
      Some (send_ok (ie_send env), pkts)"
    using send_packet_returns [OF e] t p(3) unfolding w(5) by (metis min.coboundedI2)
  have i: "client_iter UINT32_MAX v env = iter_transmit w (ie_send env)"
    using p(4) w(1) by (simp add: client_iter_def w_def [symmetric] Let_def)
  show ?thesis
    unfolding i iter_transmit_def Let_def s
    using p rem mo w wf tu
    by (cases "send_ok (ie_send env)")
      (simp_all add: frames_of_def bytes_of_def byte_transfer_def Let_def split del: if_split)
qed

lemma loop_ends:
  assumes "byte_transfer v psize" and "\<And>i. pool_ok (ie_send (env i))"
    and "61 * (unat (lv_remaining v) div psize) + (60 - lv_failure_cnt v) < fuel"
  shows "\<exists>v'. client_loop fuel UINT32_MAX env v = Some v' \<and>
    (lv_final v' \<or> 60 \<le> lv_failure_cnt v')"
  using assms
proof (induction fuel arbitrary: v env)
  case (Suc fuel)
  show ?case
  proof (cases "\<not> lv_final v \<and> lv_failure_cnt v < 60")
    case False
    then show ?thesis by (auto simp: IPERF_UDP_CLIENT_MAX_CONSEC_FAILURES_def)
  next
    case True
    obtain v' where v': "client_iter UINT32_MAX v (env 0) = Some v'" "byte_transfer v' psize"
        "lv_final v' \<longleftrightarrow> last_iter v psize"
        "if send_ok (ie_send (env 0))
         then lv_failure_cnt v' = 0 \<and> unat (lv_remaining v') = unat (lv_remaining v) - psize
         else lv_failure_cnt v' = lv_failure_cnt v + 1 \<and> lv_remaining v' = lv_remaining v"
      using iter_spec [OF Suc.prems(1) Suc.prems(2) [of 0]] by (metis (no_types, lifting))
    have step: "client_loop (Suc fuel) UINT32_MAX env v = client_loop fuel UINT32_MAX (\<lambda>i. env (Suc i)) v'"
      using True v'(1) by (simp add: IPERF_UDP_CLIENT_MAX_CONSEC_FAILURES_def)
    show ?thesis
    proof (cases "lv_final v'")
      case True
      moreover have "fuel \<noteq> 0" using Suc.prems(3) \<open>\<not> lv_final v \<and> lv_failure_cnt v < 60\<close> by auto
      ultimately show ?thesis using step by (cases fuel) auto
    next
      case False
      then have R: "psize < unat (lv_remaining v)" using v'(3) by (simp add: last_iter_def)
      have p: "0 < psize" using Suc.prems(1) by (simp add: byte_transfer_def Let_def)
      have d: "unat (lv_remaining v) div psize = Suc ((unat (lv_remaining v) - psize) div psize)"
        using R p by (simp add: le_div_geq)
      have "61 * (unat (lv_remaining v') div psize) + (60 - lv_failure_cnt v') < fuel"
        using Suc.prems(3) v'(4) d True by (auto split: if_splits)
      then show ?thesis unfolding step using Suc.IH [OF v'(2)] Suc.prems(2) by simp
    qed
  qed
qed simp

lemma loop_exact:
  assumes "byte_transfer v psize" and "\<And>i. pool_ok (ie_send (env i)) \<and> send_ok (ie_send (env i))"
    and "\<not> lv_final v" "lv_failure_cnt v = 0"
    and "unat (frames_of v) + unat (lv_remaining v) < 2 ^ 32 - 11" and "0 < unat (lv_remaining v)"
    and "61 * (unat (lv_remaining v) div psize) + 60 < fuel"
  shows "\<exists>v'. client_loop fuel UINT32_MAX env v = Some v' \<and> lv_final v' \<and> lv_failure_cnt v' = 0 \<and>
    unat (lv_remaining v') = 0 \<and> bytes_of v' = bytes_of v + lv_remaining v \<and>
    unat (frames_of v') = unat (frames_of v) + (unat (lv_remaining v) + psize - 1) div psize"
  using assms
proof (induction fuel arbitrary: v env)
  case (Suc fuel)
  let ?R = "unat (lv_remaining v)"
  have p: "0 < psize" using Suc.prems(1) by (simp add: byte_transfer_def Let_def)
  obtain v' where v': "client_iter UINT32_MAX v (env 0) = Some v'" "byte_transfer v' psize"
      "lv_final v' \<longleftrightarrow> last_iter v psize" "lv_failure_cnt v' = 0" "frames_of v' = frames_of v + 1"
      "bytes_of v' = bytes_of v + of_nat (min ?R psize)" "unat (lv_remaining v') = ?R - psize"
    using iter_spec [OF Suc.prems(1), of "env 0"] Suc.prems(2) by auto
  have f: "unat (frames_of v') = unat (frames_of v) + 1"
    using v'(5) Suc.prems(5) by (simp add: unat_add_small)
  have "unat (UINT32_MAX - 10) = 2 ^ 32 - 11" by (simp add: UINT32_MAX_def)
  then have nf: "\<not> frames_of v \<ge> UINT32_MAX - 10" using Suc.prems(5) by (simp only: word_le_nat_alt)
  have step: "client_loop (Suc fuel) UINT32_MAX env v = client_loop fuel UINT32_MAX (\<lambda>i. env (Suc i)) v'"
    using Suc.prems(3,4) v'(1) by (simp add: IPERF_UDP_CLIENT_MAX_CONSEC_FAILURES_def)
  show ?case
  proof (cases "?R \<le> psize")
    case True
    then have "lv_final v'" using v'(3) by (simp add: last_iter_def)
    moreover have "fuel \<noteq> 0" using Suc.prems(7) by auto
    ultimately have "client_loop (Suc fuel) UINT32_MAX env v = Some v'" using step by (cases fuel) auto
    moreover have "(?R + psize - 1) div psize = 1"
      using True p Suc.prems(6) by (intro div_nat_eqI) auto
    moreover have "(of_nat (min ?R psize) :: u64) = lv_remaining v" using True by simp
    ultimately show ?thesis using v' f True \<open>lv_final v'\<close> by simp
  next
    case False
    then have nl: "\<not> lv_final v'" using v'(3) nf by (simp add: last_iter_def)
    have d: "?R div psize = Suc ((?R - psize) div psize)" using False p by (simp add: le_div_geq)
    have fr: "unat (frames_of v') + unat (lv_remaining v') < 2 ^ 32 - 11"
      using Suc.prems(5) v'(7) f False p by linarith
    obtain w where w: "client_loop fuel UINT32_MAX (\<lambda>i. env (Suc i)) v' = Some w" "lv_final w"
        "lv_failure_cnt w = 0" "unat (lv_remaining w) = 0" "bytes_of w = bytes_of v' + lv_remaining v'"
        "unat (frames_of w) = unat (frames_of v') + (unat (lv_remaining v') + psize - 1) div psize"
      using Suc.IH [OF v'(2) _ nl v'(4) fr, of "\<lambda>i. env (Suc i)"] Suc.prems(2,7) v'(7) False d p by auto
    have "(?R + psize - 1) div psize = Suc ((?R - psize + psize - 1) div psize)"
      using False p by (subst le_div_geq) auto
    moreover have "lv_remaining v' = of_nat (?R - psize)" using v'(7) by (metis of_nat_unat ucast_id)
    moreover have "(of_nat psize + of_nat (?R - psize) :: u64) = lv_remaining v"
      using False by (simp add: of_nat_add [symmetric] del: of_nat_add)
    ultimately show ?thesis unfolding step using w v'(6,7) f False by (simp add: add.assoc)
  qed
qed simp

section \<open>The client's task\<close>

lemma recv_fields [simp]:
  "uc_args (client_wait ip c pkts) = uc_args c" "uc_base (client_wait ip c pkts) = uc_base c"
  unfolding client_wait_def
  by (induction pkts arbitrary: c) (auto simp: iperf_udp_client_recv_def split: prod.splits if_splits)

lemma retries_return:
  assumes "\<And>i. pool_ok (fst (env i))" and "unat tx_amount \<le> 1590"
  shows "\<exists>c' pkts. client_retries n ip env tx_amount c = Some (c', pkts) \<and> uc_base c' = uc_base c"
  using assms(1)
proof (induction n arbitrary: env c)
  case (Suc n)
  obtain pkts where "iperf_udp_client_send_packet c (fst (env 0)) tx_amount True = Some (send_ok (fst (env 0)), pkts)"
    using send_packet_returns [OF Suc.prems assms(2)] by blast
  moreover obtain c' more where
    "client_retries n ip (\<lambda>i. env (Suc i)) tx_amount (client_wait ip c (snd (env 0))) = Some (c', more)"
    "uc_base c' = uc_base (client_wait ip c (snd (env 0)))"
    using Suc.IH [of "\<lambda>i. env (Suc i)"] Suc.prems by blast
  ultimately show ?case by simp
qed simp

lemma read_header_ok: "16 \<le> length p \<Longrightarrow> read_udp_header p \<noteq> None"
  using load_be32_Some [of 0 p] load_be32_Some [of 4 p] load_be32_Some [of 8 p] load_be32_Some [of 12 p]
  by (auto simp: read_udp_header_def load_mem32_def)

lemma those_Some: "(\<And>k. k \<in> set ks \<Longrightarrow> f k \<noteq> None) \<Longrightarrow> those (map f ks) \<noteq> None"
  by (induction ks) (auto split: option.splits)

lemma read_report_ok:
  assumes "off + 100 \<le> length p"
  shows "read_server_report p off \<noteq> None"
proof -
  have l: "\<exists>w. load_mem32 p k = Some w" if "k + 4 \<le> off + 100" for k
    using load_be32_Some [of k p] that assms by (auto simp: load_mem32_def)
  have "those (map (\<lambda>k. load_mem32 p (off + 32 + 4 * k)) [0..<15]) \<noteq> None"
    by (rule those_Some) (use l in fastforce)
  then obtain t where "those (map (\<lambda>k. load_mem32 p (off + 32 + 4 * k)) [0..<15]) = Some t" by auto
  then show ?thesis
    using l [of off] l [of "off + 4"] l [of "off + 8"] l [of "off + 12"] l [of "off + 16"] l [of "off + 20"]
      l [of "off + 24"] l [of "off + 28"] l [of "off + 92"] l [of "off + 96"]
    by (auto simp: read_server_report_def)
qed

lemma parse_keeps_fn [simp]:
  "ms_has_report_fn (fst (iperf_parse_udp_server_report b hdr r version)) = ms_has_report_fn b"
  by (simp add: iperf_parse_udp_server_report_def)

lemma client_result_returns:
  "\<exists>c' d. client_result ip now c = Some (c', d) \<and> ms_has_report_fn (uc_base c') = ms_has_report_fn (uc_base c)"
proof (cases "uc_report c")
  case None
  then show ?thesis by (simp add: client_result_def Let_def)
next
  case (Some p)
  show ?thesis
  proof (cases "116 \<le> length p")
    case False
    then show ?thesis using Some
      by (simp add: client_result_def iperf_udp_client_report_def SIZEOF_HEADER_def SIZEOF_REPORT_def)
  next
    case True
    obtain h where h: "read_udp_header p = Some h" using read_header_ok [of p] True by auto
    obtain r where r: "read_server_report p 16 = Some r" using read_report_ok [of 16 p] True by auto
    obtain b ok where b: "iperf_parse_udp_server_report (uc_base c) h r (ca_version (uc_args c)) = (b, ok)"
      by (rule prod.exhaust)
    then have "ms_has_report_fn b = ms_has_report_fn (uc_base c)" using parse_keeps_fn by (metis fst_conv)
    then show ?thesis using Some True h r b
      by (simp add: client_result_def iperf_udp_client_report_def SIZEOF_HEADER_def SIZEOF_REPORT_def)
  qed
qed

text \<open>A client that sends a number of bytes, as \<open>mmiperf_start_udp_client\<close> leaves it.\<close>

definition byte_client :: "'ip udp_client \<Rightarrow> nat \<Rightarrow> bool" where
  "byte_client c psize \<longleftrightarrow>
     (let args = uc_args c in
      ca_target_bw args = 0 \<and> unat (ca_packet_size args) = psize \<and> 0 < psize \<and> psize \<le> 1590 \<and>
      0 < sint (ca_amount args) \<and> tx_frames (ms_report (uc_base c)) = 0 \<and>
      bytes_transferred (ms_report (uc_base c)) = 0)"

lemma byte_client_start:
  assumes "mmiperf_start_udp_client ip l self pc b n now args fn = (Some c, l', n', res)"
    and "ca_target_bw args = 0" "0 < sint (ca_amount args)" "unat (ca_packet_size args) \<le> 1590"
  shows "byte_client c (unat (ca_packet_size (uc_args c)))" and "ms_has_report_fn (uc_base c) = fn"
    and "ca_amount (uc_args c) = ca_amount args"
  using assms
  by (auto simp: mmiperf_start_udp_client_def byte_client_def zero_report_def Let_def unat_gt_0
      split: if_splits option.splits)

lemma client_vars_byte:
  assumes "byte_client c psize"
  shows "byte_transfer (client_vars c now) psize" "\<not> lv_final (client_vars c now)"
    "lv_failure_cnt (client_vars c now) = 0" "fst (client_limits c) = UINT32_MAX"
    "unat (lv_remaining (client_vars c now)) = unat (ca_amount (uc_args c))"
    "lv_remaining (client_vars c now) = ucast (ca_amount (uc_args c))"
    "frames_of (client_vars c now) = 0" "bytes_of (client_vars c now) = 0"
    "0 < unat (ca_amount (uc_args c))" "unat (ca_amount (uc_args c)) < 2 ^ 31"
proof -
  have a: "\<not> sint (ca_amount (uc_args c)) < 0" "ca_amount (uc_args c) \<noteq> 0"
    using assms by (auto simp: byte_client_def Let_def)
  show "unat (ca_amount (uc_args c)) < 2 ^ 31" using a(1) by (simp only: sint_neg not_le)
  show "0 < unat (ca_amount (uc_args c))" using a(2) by (simp add: unat_gt_0)
  show "unat (lv_remaining (client_vars c now)) = unat (ca_amount (uc_args c))"
    using a(1) by (simp only: client_vars_def client_limits_def Let_def) (simp add: unat_ucast64)
qed (use assms in \<open>auto simp: client_vars_def client_limits_def byte_client_def byte_transfer_def Let_def
      frames_of_def bytes_of_def\<close>)

lemma iter_tx_amount:
  assumes "client_iter end_time v env = Some v'" "unat (ca_packet_size (uc_args (lv_client v))) \<le> 1590"
  shows "unat (lv_tx_amount v') \<le> 1590 \<and> uc_args (lv_client v') = uc_args (lv_client v) \<and>
    ms_has_report_fn (uc_base (lv_client v')) = ms_has_report_fn (uc_base (lv_client v))"
proof -
  let ?m = "if ucast (ca_packet_size (uc_args (lv_client v))) < lv_remaining v
    then ucast (ca_packet_size (uc_args (lv_client v))) else lv_remaining v"
  have "unat ?m \<le> 1590" using assms(2)
    by (auto simp: word_less_nat_alt unat_ucast64)
  then have "unat (ucast ?m :: u32) \<le> 1590"
    by (simp only: unsigned_ucast_eq) (rule order_trans [OF take_bit_nat_less_eq_self])
  moreover define w where "w = iter_begin end_time v env"
  then have w: "lv_tx_amount w = ucast ?m" "uc_args (lv_client w) = uc_args (lv_client v)"
      "ms_has_report_fn (uc_base (lv_client w)) = ms_has_report_fn (uc_base (lv_client v))"
    by (simp_all add: iter_begin_def Let_def)
  have "lv_tx_amount v' = lv_tx_amount w \<and> uc_args (lv_client v') = uc_args (lv_client w) \<and>
    ms_has_report_fn (uc_base (lv_client v')) = ms_has_report_fn (uc_base (lv_client w))"
    using assms(1)
    by (auto simp: client_iter_def iter_transmit_def w_def [symmetric] Let_def bind_eq_Some_conv split: if_splits)
  ultimately show ?thesis using w by simp
qed

lemma loop_tx_amount:
  "client_loop fuel end_time env v = Some v' \<Longrightarrow> unat (ca_packet_size (uc_args (lv_client v))) \<le> 1590 \<Longrightarrow>
   unat (lv_tx_amount v) \<le> 1590 \<Longrightarrow>
   unat (lv_tx_amount v') \<le> 1590 \<and>
     ms_has_report_fn (uc_base (lv_client v')) = ms_has_report_fn (uc_base (lv_client v))"
proof (induction fuel arbitrary: v env)
  case (Suc fuel)
  show ?case
  proof (cases "\<not> lv_final v \<and> lv_failure_cnt v < IPERF_UDP_CLIENT_MAX_CONSEC_FAILURES")
    case True
    then obtain w where w: "client_iter end_time v (env 0) = Some w"
        "client_loop fuel end_time (\<lambda>i. env (Suc i)) w = Some v'"
      using Suc.prems(1) by (auto simp: bind_eq_Some_conv)
    show ?thesis using iter_tx_amount [OF w(1) Suc.prems(2)] Suc.IH [OF w(2)] Suc.prems(2) by simp
  qed (use Suc.prems in auto)
qed simp

section \<open>Properties of the client\<close>



text \<open>When every send succeeds, a client started for a number of bytes transmits exactly these
  bytes, in as few packets of the packet size as hold them, and its loop ends with the final
  packet.\<close>

theorem udp_client_sends_amount:
  assumes "mmiperf_start_udp_client ip l self True True n now args fn = (Some c, l', n', res)"
    "ca_target_bw args = 0" "0 < sint (ca_amount args)" "unat (ca_packet_size args) \<le> 1590"
    "\<And>i. pool_ok (ie_send (env i)) \<and> send_ok (ie_send (env i))"
    "61 * (unat (ca_amount args) div unat (ca_packet_size (uc_args c)) + 1) \<le> fuel"
  shows "\<exists>v. client_loop fuel (fst (client_limits c)) env (client_vars c now') = Some v \<and> lv_final v \<and>
    bytes_transferred (ms_report (uc_base (lv_client v))) = ucast (ca_amount args) \<and>
    unat (tx_frames (ms_report (uc_base (lv_client v)))) =
      (unat (ca_amount args) + unat (ca_packet_size (uc_args c)) - 1) div unat (ca_packet_size (uc_args c))"
proof -
  note bc = byte_client_start [OF assms(1-4)]
  note cv = client_vars_byte [OF bc(1)]
  have "unat (frames_of (client_vars c now')) + unat (lv_remaining (client_vars c now')) < 2 ^ 32 - 11"
    using cv(5,7,10) by simp
  then obtain v where "client_loop fuel UINT32_MAX env (client_vars c now') = Some v" "lv_final v"
      "bytes_of v = bytes_of (client_vars c now') + lv_remaining (client_vars c now')"
      "unat (frames_of v) = unat (frames_of (client_vars c now')) + (unat (lv_remaining (client_vars c now')) +
         unat (ca_packet_size (uc_args c)) - 1) div unat (ca_packet_size (uc_args c))"
    using loop_exact [OF cv(1) [of now'] _ cv(2,3), where env = env and fuel = fuel] assms(5,6) cv(5,9) bc(3) by auto
  then show ?thesis using cv(4-8) bc(3) by (simp add: bytes_of_def frames_of_def)
qed

theorem udp_client_sends_amount_witness:
  "\<exists>v. client_loop 183 (fst (client_limits example_client)) (\<lambda>_. example_iter) (client_vars example_client 0) = Some v \<and>
    lv_final v \<and> unat (tx_frames (ms_report (uc_base (lv_client v)))) = 3"
proof -
  obtain l' n' res where "mmiperf_start_udp_client example_ip (\<lambda>_. 0, 0) 5 True True 0 0 example_args True =
      (Some example_client, l', n', res)"
    by (simp add: example_client_def mmiperf_start_udp_client_def example_ip_def example_args_fields Let_def)
  moreover have "pool_ok (ie_send example_iter) \<and> send_ok (ie_send example_iter)"
    by (simp add: example_iter_def example_send_def pool_ok_def send_ok_def)
  ultimately show ?thesis
    using udp_client_sends_amount [of example_ip "(\<lambda>_. 0, 0)" 5 0 0 example_args True example_client l' n' res "\<lambda>_. example_iter" 183 0]
    by (auto simp: example_client_fields example_args_fields)
qed

section \<open>Packet numbers\<close>

text \<open>The value of the packet counter in a packet, negative in the final one.\<close>

definition packet_number :: "'ip udp_client \<Rightarrow> bool \<Rightarrow> u64" where
  "packet_number c final =
     (let cnt = ucast (tx_frames (ms_report (uc_base c))) in if final then - cnt else cnt)"

lemma split_u64': "push_bit 32 (ucast (ucast (drop_bit 32 x) :: u32)) OR ucast (ucast x :: u32) = (x :: u64)"
proof -
  have "ucast (x AND 0xFFFFFFFF) = (ucast x :: u32)"
  proof (rule bit_word_eqI)
    fix n assume n: "n < LENGTH(32)"
    have "(0xFFFFFFFF :: u64) = mask 32" by (simp add: mask_eq_exp_minus_1)
    then show "bit (ucast (x AND 0xFFFFFFFF) :: u32) n \<longleftrightarrow> bit (ucast x :: u32) n"
      using n by (simp only: bit_unsigned_iff bit_and_iff bit_mask_iff) auto
  qed
  then show ?thesis using split_u64 [of x] by simp
qed

lemma scast_number: "unat f < 2 ^ 31 \<Longrightarrow> x = ucast f \<or> x = - ucast f \<Longrightarrow> scast (ucast x :: u32) = (x :: u64)"
  for f :: u32
proof -
  assume f: "unat f < 2 ^ 31" and x: "x = ucast f \<or> x = - ucast f"
  define k where "k = int (unat f)"
  have "ucast f = (of_int k :: u64)" by (simp add: k_def)
  moreover have "int (unat f) < int (2 ^ 31)" using f by (simp only: of_nat_less_iff)
  then have "0 \<le> k" "k < 2 ^ 31" by (simp_all add: k_def)
  ultimately have "(x = of_int k \<or> x = of_int (- k)) \<and> 0 \<le> k \<and> k < 2 ^ 31" using x by auto
  then obtain j where j: "x = of_int j" "- (2 ^ 31) \<le> j" "j < 2 ^ 31" by fastforce
  have u: "(ucast x :: u32) = of_int j"
    unfolding j(1) by (rule bit_word_eqI) (simp add: bit_simps)
  have "sint (of_int j :: u32) = signed_take_bit 31 j" by (simp only: signed_of_int) simp
  also have "\<dots> = j" using j(2,3) by (rule signed_take_bit_int_eq_self)
  finally have "sint (of_int j :: u32) = j" .
  then have "scast (ucast x :: u32) = (of_int j :: u64)" unfolding u by (simp only: scast_eq)
  then show ?thesis unfolding j(1) [symmetric] .
qed

lemma sent_packet_shape:
  assumes "iperf_udp_client_send_packet c e tx_amount final = Some (True, [pkt])" and "pool_ok e"
  shows "\<exists>a b w rest. pkt = be32 (ucast (packet_number c final)) @ a @ b @ w @ rest \<and>
    length a = 4 \<and> length b = 4 \<and> length w = 4 \<and>
    (ca_version (uc_args c) \<noteq> IPERF_VERSION_2_0_9 \<longrightarrow> w = be32 (ucast (drop_bit 32 (packet_number c final))))"
proof -
  obtain raw where raw: "se_raw e = Some raw" "40 \<le> length raw"
    using assms by (cases "se_raw e") (auto simp: iperf_udp_client_send_packet_def pool_ok_def)
  show ?thesis
    using assms(1) raw unfolding iperf_udp_client_send_packet_def packet_number_def
    by (cases "ca_version (uc_args c) = IPERF_VERSION_2_0_9"; cases "se_rom_ok e"; cases "se_send_ok e")
      (force simp: Let_def blit_def SIZEOF_HEADER_def SIZEOF_SETTINGS_def bind_eq_Some_conv split del: if_split)+
qed

lemma sent_packet_id:
  assumes "iperf_udp_client_send_packet c e tx_amount final = Some (True, [pkt])" and "pool_ok e"
    and "unat (tx_frames (ms_report (uc_base c))) < 2 ^ 31"
  shows "packet_id_of (ca_version (uc_args c)) pkt = Some (packet_number c final)"
proof -
  let ?n = "packet_number c final"
  obtain a b w rest where p: "pkt = be32 (ucast ?n) @ a @ b @ w @ rest" "length a = 4" "length b = 4" "length w = 4"
      "ca_version (uc_args c) \<noteq> IPERF_VERSION_2_0_9 \<longrightarrow> w = be32 (ucast (drop_bit 32 ?n))"
    using sent_packet_shape [OF assms(1,2)] by blast
  have lo: "load_be32 pkt 0 = Some (ucast ?n)"
    using load_be32_at(1) [of 0 pkt "ucast ?n" "a @ b @ w @ rest"] p(1) by simp
  have d: "drop 12 pkt = w @ rest" using p by simp
  show ?thesis
  proof (cases "ca_version (uc_args c) = IPERF_VERSION_2_0_9")
    case True
    obtain hi where "load_be32 pkt 12 = Some hi" using load_be32_Some [of 12 pkt] p by auto
    moreover have "scast (ucast ?n :: u32) = ?n"
      by (rule scast_number [OF assms(3)]) (simp add: packet_number_def Let_def)
    ultimately show ?thesis using lo True by (simp add: packet_id_of_def)
  next
    case False
    then have "load_be32 pkt 12 = Some (ucast (drop_bit 32 ?n))"
      using load_be32_at(1) [of 12 pkt "ucast (drop_bit 32 ?n)" rest] d p(5) by simp
    then show ?thesis using lo False by (simp add: packet_id_of_def split_u64')
  qed
qed

text \<open>The first packet has the number zero, which has no negative: when it is also the last one, the
  server takes it for a data packet and sends no report.\<close>

text \<open>The server reads the number that the client wrote, and takes a packet for the final one
  exactly when the client sent it as the final one and it is not the first: a transfer of a single
  packet is never recognised as finished by that packet.\<close>

theorem udp_packet_number_roundtrip:
  assumes "iperf_udp_client_send_packet c e tx_amount final = Some (True, [pkt])" "pool_ok e"
    "unat (tx_frames (ms_report (uc_base c))) < 2 ^ 31"
  shows "\<exists>pid. packet_id_of (ca_version (uc_args c)) pkt = Some pid \<and>
    \<bar>sint pid\<bar> = int (unat (tx_frames (ms_report (uc_base c)))) \<and>
    (sint pid < 0 \<longleftrightarrow> final \<and> tx_frames (ms_report (uc_base c)) \<noteq> 0)"
proof -
  let ?f = "unat (tx_frames (ms_report (uc_base c)))"
  have n: "packet_number c final = (if final then - of_nat ?f else of_nat ?f)"
    by (simp add: packet_number_def Let_def)
  have "sint (of_nat ?f :: u64) = int ?f" using assms(3) by (intro sint_of_nat64) simp
  moreover have "sint (- of_nat ?f :: u64) = - int ?f"
    using assms(3) by (intro sint_minus_nat) simp
  ultimately have "sint (packet_number c final) = (if final then - int ?f else int ?f)"
    unfolding n by simp
  moreover have "tx_frames (ms_report (uc_base c)) \<noteq> 0 \<longleftrightarrow> 0 < ?f" by (simp only: unat_gt_0)
  ultimately show ?thesis using sent_packet_id [OF assms] by (intro exI conjI) (assumption, auto simp only: split: if_splits)
qed

theorem udp_packet_number_roundtrip_witness:
  "\<exists>pid pkt. iperf_udp_client_send_packet example_client example_send 40 True = Some (True, [pkt]) \<and>
    packet_id_of IPERF_VERSION_2_0_13 pkt = Some pid \<and> \<not> sint pid < 0"
proof -
  have pool: "pool_ok example_send" by (simp add: pool_ok_def example_send_def)
  obtain pkt where "iperf_udp_client_send_packet example_client example_send 40 True = Some (True, [pkt])"
    using iperf_get_data_exact [of 0 0]
    by (simp add: iperf_udp_client_send_packet_def example_client_fields example_args_fields example_send_def
        blit_def SIZEOF_HEADER_def SIZEOF_SETTINGS_def IPERF_DATA_LEN_def Let_def)
  then show ?thesis
    using udp_packet_number_roundtrip [of example_client example_send 40 True pkt] pool
    by (auto simp: example_client_fields example_args_fields)
qed

end
