(* ===== verification/Iperf_Tcp_Correct.thy ===== *)
theory Iperf_Tcp_Correct
  imports Iperf_Tcp Iperf_Udp_Correct
begin

text \<open>
  What the TCP engine of iperf guarantees: the states a server reaches, what a connection error
  does to it, the bytes it counts, and the byte stream and the end of the client's send loop.
\<close>

section \<open>Reachable states of a server\<close>

text \<open>
  lwIP calls the accept callback while the listening control block exists, and the receive and
  poll callbacks while the connected one does.
\<close>

inductive tcp_server_reachable :: "'ip ip_ops \<Rightarrow> ptr \<Rightarrow> session_list \<Rightarrow> tcp_world \<Rightarrow> bool"
  for ip self l where
  started: "iperf_start_tcp_server_impl ip self True True True args has_fn l = (w, True) \<Longrightarrow>
    tcp_server_reachable ip self l w"
| accept: "tcp_server_reachable ip self l w \<Longrightarrow> tw_listener w \<Longrightarrow>
    iperf_tcp_accept ip err_ok pcb w = Some (w', ok) \<Longrightarrow> tcp_server_reachable ip self l w'"
| recv: "tcp_server_reachable ip self l w \<Longrightarrow> tw_pcb w \<Longrightarrow>
    iperf_tcp_recv self now close_ok rx w = Some (w', es) \<Longrightarrow> tcp_server_reachable ip self l w'"
| poll: "tcp_server_reachable ip self l w \<Longrightarrow> tw_pcb w \<Longrightarrow>
    iperf_tcp_poll fuel self now close_ok env w = Some (w', es) \<Longrightarrow> tcp_server_reachable ip self l w'"

definition server_ok :: "session_list \<Rightarrow> ptr \<Rightarrow> tcp_world \<Rightarrow> bool" where
  "server_ok l self w \<longleftrightarrow> tw_listener w \<and> tw_sessions w = iperf_list_add l self \<and>
     (case tw_conn w of None \<Rightarrow> False
      | Some c \<Rightarrow> tc_server_pcb c \<and> tc_conn_pcb c = tw_pcb w \<and> ms_server (tc_base c))"

lemma finalize_fields:
  assumes "iperf_finalize_report_and_invoke_callback b d ty = (b', rs)"
  shows "ms_server b' = ms_server b" "bytes_transferred (ms_report b') = bytes_transferred (ms_report b)"
    "rs = (if ms_has_report_fn b then [ms_report b'] else [])"
    "report_type (ms_report b') = ty"
  using assms by (auto simp: iperf_finalize_report_and_invoke_callback_def Let_def split: if_splits)

lemma close_server:
  assumes "server_ok l self w" and "tw_pcb w"
  shows "\<exists>w' es. iperf_tcp_close self now close_ok ty w = Some (w', es) \<and> server_ok l self w' \<and> \<not> tw_pcb w'"
proof -
  obtain c where c: "tw_conn w = Some c" "tc_server_pcb c" "tc_conn_pcb c" "ms_server (tc_base c)"
    using assms by (auto simp: server_ok_def split: option.splits)
  obtain b rs where b: "iperf_finalize_report_and_invoke_callback (tc_base c)
      (now - ms_time_started_ms (tc_base c)) ty = (b, rs)" by (rule prod.exhaust)
  show ?thesis
    using assms c b finalize_fields(1) [OF b] by (simp add: iperf_tcp_close_def server_ok_def)
qed

lemma init_report_ok:
  assumes "ip_laws ip"
  shows "\<exists>c'. init_report ip pcb c = Some c' \<and> tc_server_pcb c' = tc_server_pcb c \<and>
    tc_conn_pcb c' = tc_conn_pcb c \<and> ms_server (tc_base c') = ms_server (tc_base c) \<and>
    bytes_transferred (ms_report (tc_base c')) = bytes_transferred (ms_report (tc_base c)) \<and>
    tc_have_settings_buf c' = tc_have_settings_buf c"
proof -
  obtain a b where "ipaddr_ntoa_r ip (ta_local_ip pcb) 48 = Some a" "ipaddr_ntoa_r ip (ta_remote_ip pcb) 48 = Some b"
    using assms unfolding ip_laws_def by blast
  then show ?thesis by (simp add: init_report_def Let_def)
qed

lemma accept_server:
  assumes "server_ok l self w" and "ip_laws ip"
  shows "\<exists>w' ok. iperf_tcp_accept ip err_ok pcb w = Some (w', ok) \<and> server_ok l self w'"
proof -
  obtain c where c: "tw_conn w = Some c" "tc_server_pcb c" "tc_conn_pcb c = tw_pcb w" "ms_server (tc_base c)"
      "tw_listener w" "tw_sessions w = iperf_list_add l self"
    using assms(1) by (auto simp: server_ok_def split: option.splits)
  let ?c = "c\<lparr>tc_base := (tc_base c)\<lparr>ms_report := zero_report\<rparr>,
      tc_settings := replicate 24 0, tc_have_settings_buf := False, tc_conn_pcb := True\<rparr>"
  obtain c' where "init_report ip pcb ?c = Some c'" "tc_server_pcb c'" "tc_conn_pcb c'" "ms_server (tc_base c')"
    using init_report_ok [OF assms(2), of pcb ?c] c by auto
  then show ?thesis using c assms(1)
    by (cases err_ok; cases "tw_pcb w") (auto simp: iperf_tcp_accept_def server_ok_def)
qed

lemma recv_server:
  assumes "server_ok l self w" and "tw_pcb w"
  shows "\<exists>w' es. iperf_tcp_recv self now close_ok rx w = Some (w', es) \<and> server_ok l self w'"
proof -
  obtain c where c: "tw_conn w = Some c" "tc_server_pcb c" "tc_conn_pcb c" "ms_server (tc_base c)"
    using assms by (auto simp: server_ok_def split: option.splits)
  let ?w = "w\<lparr>tw_conn := Some (set_poll_count 0 c)\<rparr>"
  have ok: "server_ok l self ?w" using assms c by (simp add: server_ok_def set_poll_count_def)
  show ?thesis
  proof (cases rx)
    case (Rx_data p)
    then show ?thesis
      using c assms close_server [OF ok, of now close_ok MMIPERF_TCP_ABORTED_LOCAL_DATAERROR]
      by (auto simp: iperf_tcp_recv_def recv_data_def set_poll_count_def add_bytes_def server_ok_def Let_def)
  qed (use c close_server [OF assms] in \<open>fastforce simp: iperf_tcp_recv_def\<close>)+
qed

lemma poll_server:
  assumes "server_ok l self w" and "tw_pcb w"
  shows "\<exists>w' es. iperf_tcp_poll fuel self now close_ok env w = Some (w', es) \<and> server_ok l self w'"
proof -
  obtain c where c: "tw_conn w = Some c" "tc_server_pcb c" "tc_conn_pcb c" "ms_server (tc_base c)"
    using assms by (auto simp: server_ok_def split: option.splits)
  let ?w = "w\<lparr>tw_conn := Some (set_poll_count (tc_poll_count c + 1) c)\<rparr>"
  have ok: "server_ok l self ?w" "tw_pcb ?w" using assms c by (simp_all add: server_ok_def set_poll_count_def)
  show ?thesis
    using c ok(1) close_server [OF ok, of now close_ok MMIPERF_TCP_ABORTED_LOCAL]
    by (auto simp: iperf_tcp_poll_def Let_def set_poll_count_def)
qed

lemma reachable_server_ok:
  assumes "tcp_server_reachable ip self l w" and "ip_laws ip"
  shows "server_ok l self w"
  using assms(1)
proof induction
  case (started args has_fn w)
  then show ?case by (auto simp: iperf_start_tcp_server_impl_def server_ok_def Let_def split: if_splits)
next
  case (accept w err_ok pcb w' ok)
  then show ?case using accept_server [OF accept.IH assms(2), of err_ok pcb] by auto
next
  case (recv w now close_ok rx w' es)
  then show ?case using recv_server [OF recv.IH recv.hyps(2), of now close_ok rx] by auto
next
  case (poll w fuel now close_ok env w' es)
  then show ?case using poll_server [OF poll.IH poll.hyps(2), of fuel now close_ok env] by auto
qed

lemma err_frees_session:
  assumes "server_ok l self w" and "session_list_rep l xs" "self \<noteq> NULL" "self \<notin> set xs"
  shows "\<exists>w' es. iperf_tcp_err self now close_ok w = Some (w', es) \<and> tw_conn w' = None \<and> tw_listener w'"
proof -
  obtain c where c: "tw_conn w = Some c" "tw_listener w" "tw_sessions w = iperf_list_add l self"
    using assms(1) by (auto simp: server_ok_def split: option.splits)
  obtain b rs where b: "iperf_finalize_report_and_invoke_callback (tc_base c)
      (now - ms_time_started_ms (tc_base c)) MMIPERF_TCP_ABORTED_REMOTE = (b, rs)" by (rule prod.exhaust)
  have "session_list_rep (iperf_list_add l self) (self # xs)"
    using session_list_sim [OF assms(2), of "SAdd self"] assms(3,4) by (auto simp: session_list_step_def)
  then obtain l' where "iperf_list_remove (iperf_list_add l self) self = Some l'"
    using list_remove_ok by blast
  then show ?thesis using c b by (simp add: iperf_tcp_err_def iperf_tcp_close_def)
qed

section \<open>Examples\<close>

definition example_tcp_server :: tcp_world where
  "example_tcp_server = fst (iperf_start_tcp_server_impl example_ip 5 True True True MMIPERF_SERVER_ARGS_DEFAULT True
     (\<lambda>_. 0, 0))"

definition example_addrs :: "nat tcp_addrs" where
  "example_addrs = \<lparr>ta_local_ip = 1, ta_local_port = 5001, ta_remote_ip = 2, ta_remote_port = 4000\<rparr>"

lemma example_tcp_started:
  "iperf_start_tcp_server_impl example_ip 5 True True True MMIPERF_SERVER_ARGS_DEFAULT True (\<lambda>_. 0, 0) =
     (example_tcp_server, True)"
  unfolding example_tcp_server_def
  by (simp add: iperf_start_tcp_server_impl_def example_ip_def MMIPERF_SERVER_ARGS_DEFAULT_def cstr_def NUL_def Let_def)

lemma example_tcp_reachable: "tcp_server_reachable example_ip 5 (\<lambda>_. 0, 0) example_tcp_server"
  by (rule started) (rule example_tcp_started)

lemma empty_sessions: "session_list_rep (\<lambda>_. 0, 0) []"
  by (simp add: session_list_rep_def)

section \<open>Properties of the server\<close>

text \<open>C12: A TCP server keeps working through any sequence of connections, data, closes and idle
  timeouts: in every state that is reached without a connection error, its session is allocated
  and on the list of active sessions, its control blocks are those that lwIP holds, and no callback
  that lwIP can invoke fails an assertion or touches freed memory.\<close>

theorem tcp_server_safe:
  assumes "tcp_server_reachable ip self l w" "ip_laws ip"
  shows "(\<exists>c. tw_conn w = Some c \<and> tc_server_pcb c = tw_listener w \<and> tc_conn_pcb c = tw_pcb w) \<and>
    tw_listener w \<and> tw_sessions w = iperf_list_add l self \<and>
    (\<forall>err_ok pcb. iperf_tcp_accept ip err_ok pcb w \<noteq> None) \<and>
    (tw_pcb w \<longrightarrow> (\<forall>now close_ok rx. iperf_tcp_recv self now close_ok rx w \<noteq> None) \<and>
       (\<forall>fuel now close_ok env. iperf_tcp_poll fuel self now close_ok env w \<noteq> None))"
proof -
  have ok: "server_ok l self w" by (rule reachable_server_ok [OF assms])
  have "iperf_tcp_accept ip err_ok pcb w \<noteq> None" for err_ok and pcb :: "'a tcp_addrs"
    using accept_server [OF ok assms(2), of err_ok pcb] by fastforce
  moreover have "iperf_tcp_recv self now close_ok rx w \<noteq> None" if "tw_pcb w" for now close_ok rx
    using recv_server [OF ok that, of now close_ok rx] by fastforce
  moreover have "iperf_tcp_poll fuel self now close_ok env w \<noteq> None" if "tw_pcb w" for fuel now close_ok env
    using poll_server [OF ok that, of fuel now close_ok env] by fastforce
  ultimately show ?thesis using ok by (auto simp: server_ok_def split: option.splits)
qed

theorem tcp_server_safe_witness:
  "tw_listener example_tcp_server \<and> iperf_tcp_accept example_ip True example_addrs example_tcp_server \<noteq> None"
  using tcp_server_safe [OF example_tcp_reachable example_ip_laws] by blast

text \<open>C35: A connection error, such as a reset by the client, ends the server for good and leaves a
  dangling listener: the session is freed while lwIP still listens with the session as its
  argument, and the next client that connects makes the accept callback use the freed session.\<close>

theorem tcp_reset_frees_listening_session:
  assumes "tcp_server_reachable ip self l w" "ip_laws ip" "session_list_rep l xs" "self \<noteq> NULL" "self \<notin> set xs"
  shows "\<exists>w' es. iperf_tcp_err self now close_ok w = Some (w', es) \<and> tw_conn w' = None \<and> tw_listener w' \<and>
    iperf_tcp_accept ip True pcb w' = None"
proof -
  obtain w' es where "iperf_tcp_err self now close_ok w = Some (w', es)" "tw_conn w' = None" "tw_listener w'"
    using err_frees_session [OF reachable_server_ok [OF assms(1,2)] assms(3-5)] by blast
  then show ?thesis by (simp add: iperf_tcp_accept_def)
qed

theorem tcp_reset_frees_listening_session_witness:
  "\<exists>w' es. iperf_tcp_err 5 1000 True example_tcp_server = Some (w', es) \<and> tw_listener w' \<and>
    iperf_tcp_accept example_ip True example_addrs w' = None"
  using tcp_reset_frees_listening_session [OF example_tcp_reachable example_ip_laws empty_sessions, of 1000 True example_addrs]
  by auto

section \<open>The bytes a server counts\<close>

abbreviation (input) conn_bytes :: "tcp_conn \<Rightarrow> u64" where
  "conn_bytes c \<equiv> bytes_transferred (ms_report (tc_base c))"

definition rx_step :: "ptr \<Rightarrow> tcp_world \<Rightarrow> u32 \<times> u8 list \<Rightarrow> (tcp_world \<times> tcp_effect list) option" where
  "rx_step self w e = (case e of (now, p) \<Rightarrow> iperf_tcp_recv self now True (Rx_data p) w)"

definition counting :: "tcp_world \<Rightarrow> nat \<Rightarrow> bool" where
  "counting w n \<longleftrightarrow> (case tw_conn w of None \<Rightarrow> False
     | Some c \<Rightarrow> tc_conn_pcb c \<and> tc_have_settings_buf c \<and> conn_bytes c = of_nat n)"

lemma add_bytes_fields [simp]:
  "conn_bytes (add_bytes c n) = conn_bytes c + of_nat n" "tc_conn_pcb (add_bytes c n) = tc_conn_pcb c"
  "tc_have_settings_buf (add_bytes c n) = tc_have_settings_buf c"
  by (simp_all add: add_bytes_def)

lemma of_nat_le_24: "n < 2 ^ 63 \<Longrightarrow> (of_nat n :: u64) \<le> 24 \<longleftrightarrow> n \<le> 24"
  by (simp add: word_le_nat_alt unsigned_of_nat take_bit_nat_eq_self)

lemma rx_step_counts:
  assumes "counting w n" "24 \<le> n" "n < 2 ^ 62" "24 \<le> length p" "length p < 2 ^ 16"
  shows "\<exists>w' es. rx_step self w (now, p) = Some (w', es) \<and> counting w' (n + length p)"
proof -
  obtain c where c: "tw_conn w = Some c" "tc_conn_pcb c" "tc_have_settings_buf c" "conn_bytes c = of_nat n"
    using assms(1) by (auto simp: counting_def split: option.splits)
  let ?c = "set_poll_count 0 c"
  have p: "tc_conn_pcb ?c" "tc_have_settings_buf ?c" "conn_bytes ?c = of_nat n"
    using c by (simp_all add: set_poll_count_def)
  have le: "\<not> (of_nat n + 24 :: u64) \<le> 24"
    using of_nat_le_24 [of "n + 24"] assms(2,3) by simp
  have sum: "(of_nat n + 24 + of_nat (length p - 24) :: u64) = of_nat (n + length p)"
    using assms(4) by (simp add: of_nat_diff)
  show ?thesis
    using c(1,2) p le sum assms(4)
    by (cases "settings_due ?c") (simp_all add: rx_step_def iperf_tcp_recv_def recv_data_def counting_def Let_def)
qed

lemma rx_run_counts:
  assumes "counting w n" "24 \<le> n" "\<forall>(now, p) \<in> set es. 24 \<le> length p \<and> length p < 2 ^ 16"
    "n + 2 ^ 16 * length es < 2 ^ 62"
  shows "\<exists>w' rs. c_run (rx_step self) w es = Some (w', rs) \<and>
    counting w' (n + sum_list (map (\<lambda>(now, p). length p) es))"
  using assms
proof (induction es arbitrary: w n)
  case (Cons e es)
  obtain now p where e: "e = (now, p)" by (rule prod.exhaust)
  obtain w1 r where w1: "rx_step self w e = Some (w1, r)" "counting w1 (n + length p)"
    using rx_step_counts [OF Cons.prems(1,2), of p self now] Cons.prems(3,4) e by auto
  show ?case using Cons.IH [OF w1(2)] w1(1) Cons.prems(2-4) e by (auto simp: add.assoc)
qed simp

lemma first_segment:
  assumes "tw_conn w = Some c" "tc_conn_pcb c" "\<not> tc_have_settings_buf c" "conn_bytes c = 0" "24 \<le> length p"
  shows "\<exists>w' es. rx_step self w (now, p) = Some (w', es) \<and> counting w' 24"
  using assms
  by (simp add: rx_step_def iperf_tcp_recv_def recv_data_def settings_due_def set_poll_count_def
      counting_def Let_def)

text \<open>A TCP server counts every byte it receives except those after the settings in the first
  segment: when a client is accepted and its data arrives in segments of at least 24 bytes, the
  bytes reported are the 24 of the settings and all bytes of the later segments, however the
  stream is split and however often the settings are checked again.\<close>

theorem tcp_server_counts_bytes:
  assumes "server_ok l self w" "ip_laws ip" "\<not> tw_pcb w"
    "24 \<le> length p" "\<forall>(now, p) \<in> set es. 24 \<le> length p \<and> length p < 2 ^ 16" "length es < 2 ^ 45"
  shows "\<exists>w1 w2 rs c. iperf_tcp_accept ip True pcb w = Some (w1, True) \<and>
    c_run (rx_step self) w1 ((now, p) # es) = Some (w2, rs) \<and> tw_conn w2 = Some c \<and>
    bytes_transferred (ms_report (tc_base c)) = of_nat (24 + sum_list (map (\<lambda>(now, p). length p) es))"
proof -
  obtain c where c: "tw_conn w = Some c" "tc_server_pcb c" "\<not> tc_conn_pcb c" "ms_server (tc_base c)"
    using assms(1,3) by (auto simp: server_ok_def split: option.splits)
  let ?c = "c\<lparr>tc_base := (tc_base c)\<lparr>ms_report := zero_report\<rparr>,
      tc_settings := replicate 24 0, tc_have_settings_buf := False, tc_conn_pcb := True\<rparr>"
  obtain c' where c': "init_report ip pcb ?c = Some c'" "tc_conn_pcb c'" "conn_bytes c' = 0" "\<not> tc_have_settings_buf c'"
    using init_report_ok [OF assms(2), of pcb ?c] by (auto simp: zero_report_def)
  define w1 where "w1 = w\<lparr>tw_conn := Some c', tw_pcb := True\<rparr>"
  have a: "iperf_tcp_accept ip True pcb w = Some (w1, True)"
    using c c'(1) by (simp add: iperf_tcp_accept_def w1_def)
  obtain w2 r where w2: "rx_step self w1 (now, p) = Some (w2, r)" "counting w2 24"
    using first_segment [of w1 c' p self now] c' assms(4) by (auto simp: w1_def)
  obtain w3 rs where "c_run (rx_step self) w2 es = Some (w3, rs)"
      "counting w3 (24 + sum_list (map (\<lambda>(now, p). length p) es))"
    using rx_run_counts [OF w2(2), of es self] assms(5,6) by auto
  then show ?thesis using a w2(1) by (auto simp: counting_def split: option.splits)
qed

theorem tcp_server_counts_bytes_witness:
  "\<exists>w1 w2 rs c. iperf_tcp_accept example_ip True example_addrs example_tcp_server = Some (w1, True) \<and>
    c_run (rx_step 5) w1 [(0, replicate 30 0), (1, replicate 100 0)] = Some (w2, rs) \<and> tw_conn w2 = Some c \<and>
    bytes_transferred (ms_report (tc_base c)) = 124"
proof -
  have "\<not> tw_pcb example_tcp_server"
    by (simp add: example_tcp_server_def iperf_start_tcp_server_impl_def Let_def)
  then show ?thesis
    using tcp_server_counts_bytes [OF reachable_server_ok [OF example_tcp_reachable example_ip_laws] example_ip_laws,
        of "replicate 30 0" "[(1, replicate 100 0)]" example_addrs 0] by fastforce
qed

section \<open>The client's byte stream\<close>

text \<open>The byte at each position of the stream: the settings twice, then the repeated digits.\<close>

definition tcp_stream :: "u8 list \<Rightarrow> nat \<Rightarrow> u8" where
  "tcp_stream settings k =
     (if k < 24 then settings ! k else if k < 48 then settings ! (k - 24) else of_nat (48 + k mod 10))"

fun written :: "tcp_effect list \<Rightarrow> u8 list" where
  "written [] = []"
| "written (Tcp_write bs # es) = bs @ written es"
| "written (_ # es) = written es"

lemma written_append [simp]: "written (es @ es') = written es @ written es'"
  by (induction es rule: written.induct) auto

lemma written_reports [simp]: "written (map Tcp_report rs) = []"
  by (induction rs) auto

lemma region_stream:
  assumes "length xs = 24" "off + len \<le> 24" "\<And>i. i < len \<Longrightarrow> f (n + i) = xs ! (off + i)"
  shows "region xs off len = map f [n..<n + len]"
  using assms by (intro nth_equalityI) (auto simp: region_def)

definition chunk_ok :: "tcp_conn \<Rightarrow> bool" where
  "chunk_ok c \<longleftrightarrow> length (tc_settings c) = 24 \<and> 48 \<le> unat (tc_mss c) \<and> unat (tc_mss c) \<le> 1590"

lemma next_chunk_stream:
  assumes "chunk_ok c" and "unat (conn_bytes c) < 2 ^ 31"
  shows "\<exists>src mx more. next_chunk c = (src, mx, more) \<and> 0 < unat mx \<and> unat mx \<le> 1590 \<and>
    (\<forall>len \<le> unat mx. src len = Some (map (tcp_stream (tc_settings c)) [unat (conn_bytes c)..<unat (conn_bytes c) + len]))"
proof -
  let ?n = "conn_bytes c"
  have st: "length (tc_settings c) = 24" and mss: "48 \<le> unat (tc_mss c)" "unat (tc_mss c) \<le> 1590"
    using assms(1) by (auto simp: chunk_ok_def)
  have lt: "?n < 24 \<longleftrightarrow> unat ?n < 24" "?n < 48 \<longleftrightarrow> unat ?n < 48" "?n = 48 \<longleftrightarrow> unat ?n = 48"
    by (simp_all add: word_less_nat_alt word_unat_eq_iff)
  consider "unat ?n < 24" | "24 \<le> unat ?n" "unat ?n < 48" | "48 \<le> unat ?n" by linarith
  then show ?thesis
  proof cases
    case 1
    have "unat (24 - ?n) = 24 - unat ?n" using 1 by (subst unat_sub) (auto simp: word_le_nat_alt)
    then have m: "unat (ucast (24 - ?n) :: u16) = 24 - unat ?n"
      by (simp add: unsigned_ucast_eq take_bit_nat_eq_self)
    have "region (tc_settings c) (unat ?n) len = map (tcp_stream (tc_settings c)) [unat ?n..<unat ?n + len]"
      if "unat ?n + len \<le> 24" for len
      by (rule region_stream [OF st that]) (use that in \<open>simp add: tcp_stream_def\<close>)
    then show ?thesis using 1 lt m st by (auto simp: next_chunk_def Let_def)
  next
    case 2
    have a: "unat (48 - ?n) = 48 - unat ?n" using 2 by (subst unat_sub) (auto simp: word_le_nat_alt)
    have b: "unat (?n - 24) = unat ?n - 24" using 2 by (subst unat_sub) (auto simp: word_le_nat_alt)
    have m: "unat (ucast (48 - ?n) :: u16) = 48 - unat ?n"
      using a by (simp add: unsigned_ucast_eq take_bit_nat_eq_self)
    have "region (tc_settings c) (unat ?n - 24) len = map (tcp_stream (tc_settings c)) [unat ?n..<unat ?n + len]"
      if "unat ?n - 24 + len \<le> 24" for len
      by (rule region_stream [OF st that]) (use 2 that in \<open>auto simp: tcp_stream_def\<close>)
    then show ?thesis using 2 lt m b st by (auto simp: next_chunk_def Let_def)
  next
    case 3
    let ?m = "ucast (if ?n = 48 then tc_mss c - 24 else tc_mss c) :: u16"
    have "unat (tc_mss c - 24) = unat (tc_mss c) - 24" using mss by (subst unat_sub) (auto simp: word_le_nat_alt)
    then have m: "0 < unat ?m" "unat ?m \<le> 1590"
      using mss by (auto simp: unsigned_ucast_eq take_bit_nat_eq_self)
    have u: "unat (ucast ?n :: u32) = unat ?n"
      using assms(2) by (simp add: unsigned_ucast_eq take_bit_nat_eq_self)
    have "iperf_get_data (ucast ?n) len = Some (map (tcp_stream (tc_settings c)) [unat ?n..<unat ?n + len])"
      if "len \<le> 1590" for len
    proof -
      have "map (\<lambda>i. of_nat (48 + (unat ?n + i) mod 10)) [0..<len] =
          map (tcp_stream (tc_settings c)) [unat ?n..<unat ?n + len]"
        using 3 by (intro nth_equalityI) (auto simp: tcp_stream_def)
      then show ?thesis using iperf_get_data_exact [of len "ucast ?n"] that by (simp add: u IPERF_DATA_LEN_def)
    qed
    then show ?thesis using 3 lt m by (auto simp: next_chunk_def Let_def)
  qed
qed

lemma write_chunk_stream:
  assumes "chunk_ok c" and "unat (conn_bytes c) < 2 ^ 31"
  shows "\<exists>c' more es. write_chunk env c = Some (c', more, es) \<and> (more \<longrightarrow> written es \<noteq> []) \<and>
    written es = map (tcp_stream (tc_settings c)) [unat (conn_bytes c)..<unat (conn_bytes c) + length (written es)] \<and>
    unat (conn_bytes c') = unat (conn_bytes c) + length (written es) \<and>
    tc_settings c' = tc_settings c \<and> tc_mss c' = tc_mss c \<and> tc_conn_pcb c' = tc_conn_pcb c \<and>
    tc_server_pcb c' = tc_server_pcb c"
proof (cases "ti_snd_buf env \<ge> tc_mss c div 2 \<and> ti_queue_ok env \<and> ti_write_ok env")
  case True
  let ?n = "conn_bytes c" and ?s = "map (tcp_stream (tc_settings c))"
  obtain src mx more where ch: "next_chunk c = (src, mx, more)" "0 < unat mx" "unat mx \<le> 1590"
      "\<And>len. len \<le> unat mx \<Longrightarrow> src len = Some (?s [unat ?n..<unat ?n + len])"
    using next_chunk_stream [OF assms] by blast
  define txlen :: u16 where "txlen = (if ucast mx > ti_snd_buf env then ucast (ti_snd_buf env) else mx)"
  have mu: "unat (ucast mx :: u32) = unat mx"
    using ch(3) by (simp add: unsigned_ucast_eq take_bit_nat_eq_self)
  have "unat (tc_mss c div 2) = unat (tc_mss c) div 2" by (simp add: unat_div)
  then have sb: "0 < unat (ti_snd_buf env)"
    using True assms(1) by (auto simp: chunk_ok_def word_le_nat_alt)
  have tx: "0 < unat txlen" "unat txlen \<le> unat mx"
    using ch(2,3) sb mu
    by (auto simp: txlen_def word_less_nat_alt unsigned_ucast_eq take_bit_nat_eq_self)
  have u: "unat (?n + ucast txlen) = unat ?n + unat txlen"
  proof -
    have "unat (ucast txlen :: u64) = unat txlen"
      using tx(2) ch(3) by (simp add: unsigned_ucast_eq take_bit_nat_eq_self)
    then show ?thesis using tx(2) ch(3) assms(2) by (subst unat_add_lem [THEN iffD1]) auto
  qed
  show ?thesis
    using True ch(1) ch(4) [OF tx(2)] tx(1) u
    by (simp add: write_chunk_def Let_def txlen_def [symmetric])
next
  case False
  obtain src mx more where ch: "next_chunk c = (src, mx, more)" "unat mx \<le> 1590"
      "\<And>len. len \<le> unat mx \<Longrightarrow> src len = Some (map (tcp_stream (tc_settings c)) [unat (conn_bytes c)..<unat (conn_bytes c) + len])"
    using next_chunk_stream [OF assms] by blast
  have "unat (if ucast mx > ti_snd_buf env then ucast (ti_snd_buf env) else mx) \<le> unat mx"
    using ch(2) by (auto simp: word_less_nat_alt unsigned_ucast_eq take_bit_nat_eq_self)
  from ch(3) [OF this] show ?thesis using False ch(1)
    by (auto simp: write_chunk_def Let_def)
qed

lemma close_client:
  assumes "tw_conn w = Some c" "\<not> tc_server_pcb c" "session_list_rep (tw_sessions w) xs"
  shows "\<exists>w' es. iperf_tcp_close self now close_ok ty w = Some (w', es) \<and> tw_conn w' = None \<and> written es = [] \<and>
    session_list_rep (tw_sessions w') (remove1 self xs)"
proof -
  obtain b rs where b: "iperf_finalize_report_and_invoke_callback (tc_base c)
      (now - ms_time_started_ms (tc_base c)) ty = (b, rs)" by (rule prod.exhaust)
  obtain l where "iperf_list_remove (tw_sessions w) self = Some l" "session_list_rep l (remove1 self xs)"
    using list_remove_ok [OF assms(3)] by blast
  then show ?thesis using assms(1,2) b
    by (cases "tc_conn_pcb c"; cases close_ok) (simp_all add: iperf_tcp_close_def Let_def)
qed

lemma bit31: "bit (x :: u32) 31 \<longleftrightarrow> sint x < 0"
  by (simp add: sint_uint signed_take_bit_negative_iff bit_simps)

lemma send_more_stream:
  assumes "tw_conn w = Some c" "\<not> tc_server_pcb c" "chunk_ok c" "session_list_rep (tw_sessions w) xs"
    and "settings_amount c = Some amount" "\<not> bit amount 31"
    and "unat amount - unat (conn_bytes c) < fuel"
  shows "\<exists>w' es. iperf_tcp_client_send_more fuel self now close_ok env w = Some (w', es) \<and>
    written es = map (tcp_stream (tc_settings c)) [unat (conn_bytes c)..<unat (conn_bytes c) + length (written es)] \<and>
    (case tw_conn w' of
       None \<Rightarrow> unat amount \<le> unat (conn_bytes c) + length (written es) \<and>
         session_list_rep (tw_sessions w') (remove1 self xs)
     | Some c' \<Rightarrow> unat (conn_bytes c') = unat (conn_bytes c) + length (written es) \<and> tw_sessions w' = tw_sessions w)"
  using assms
proof (induction fuel arbitrary: w c env)
  case (Suc fuel)
  let ?n = "unat (conn_bytes c)"
  have a31: "unat amount < 2 ^ 31"
    using Suc.prems(6) by (simp only: bit31 sint_neg not_le)
  have over: "test_over c now' = Some (unat amount \<le> ?n)" for now'
    using Suc.prems(5,6) by (simp add: test_over_def word_le_nat_alt unat_ucast64)
  show ?case
  proof (cases "unat amount \<le> ?n")
    case True
    obtain w' es where "iperf_tcp_close self now close_ok MMIPERF_TCP_DONE_CLIENT w = Some (w', es)"
        "tw_conn w' = None" "written es = []" "session_list_rep (tw_sessions w') (remove1 self xs)"
      using close_client [OF Suc.prems(1,2,4)] by blast
    with True show ?thesis using Suc.prems(1) over by simp
  next
    case False
    define c1 where "c1 = (if tc_bw_limit c \<and> tc_block_end_time c < ti_now_block (env 0)
         then c\<lparr>tc_block_end_time := tc_block_end_time c + BLOCK_DURATION_MS,
                tc_block_remaining_txlen := tc_block_remaining_txlen c + tc_block_txlen c\<rparr> else c)"
    have c1: "conn_bytes c1 = conn_bytes c" "tc_settings c1 = tc_settings c" "tc_mss c1 = tc_mss c"
        "tc_server_pcb c1 = tc_server_pcb c"
      by (simp_all add: c1_def)
    have "chunk_ok c1" "unat (conn_bytes c1) < 2 ^ 31" using Suc.prems(3) c1 False a31 by (simp_all add: chunk_ok_def)
    then obtain c2 more es where c2: "write_chunk (env 0) c1 = Some (c2, more, es)" "more \<longrightarrow> written es \<noteq> []"
        "written es = map (tcp_stream (tc_settings c)) [?n..<?n + length (written es)]"
        "unat (conn_bytes c2) = ?n + length (written es)" "tc_settings c2 = tc_settings c" "tc_mss c2 = tc_mss c"
        "\<not> tc_server_pcb c2"
      using write_chunk_stream [of c1 "env 0"] c1 Suc.prems(2) by auto
    let ?w = "w\<lparr>tw_conn := Some c2\<rparr>"
    show ?thesis
    proof (cases "more \<and> \<not> (tc_bw_limit c2 \<and> sint (tc_block_remaining_txlen c2) \<le> 0)")
      case False
      with \<open>\<not> unat amount \<le> ?n\<close> show ?thesis
        using Suc.prems(1) over c2(1,3,4) by (auto simp: c1_def [symmetric] Let_def)
    next
      case True
      have "chunk_ok c2" "settings_amount c2 = Some amount"
        using Suc.prems(3,5) c2(5,6) by (simp_all add: chunk_ok_def settings_amount_def)
      moreover have "unat amount - unat (conn_bytes c2) < fuel"
        using Suc.prems(7) c2(2,4) True \<open>\<not> unat amount \<le> ?n\<close> by (cases "written es") auto
      ultimately obtain w' es' where w': "iperf_tcp_client_send_more fuel self now close_ok (\<lambda>i. env (Suc i)) ?w = Some (w', es')"
          "written es' = map (tcp_stream (tc_settings c2))
             [unat (conn_bytes c2)..<unat (conn_bytes c2) + length (written es')]"
          "case tw_conn w' of
             None \<Rightarrow> unat amount \<le> unat (conn_bytes c2) + length (written es') \<and>
               session_list_rep (tw_sessions w') (remove1 self xs)
           | Some c' \<Rightarrow> unat (conn_bytes c') = unat (conn_bytes c2) + length (written es') \<and>
               tw_sessions w' = tw_sessions ?w"
        using Suc.IH [of ?w c2 "\<lambda>i. env (Suc i)"] c2(7) Suc.prems(4,6) by auto
      have "written (es @ es') = map (tcp_stream (tc_settings c)) [?n..<?n + length (written (es @ es'))]"
        using c2(3,4,5) w'(2) upt_add_eq_append [of ?n "?n + length (written es)" "length (written es')"]
        by (metis (no_types, lifting) add.assoc le_add1 length_append map_append written_append)
      then show ?thesis
        using True \<open>\<not> unat amount \<le> ?n\<close> Suc.prems(1) over c2(1,4) w'(1,3)
        by (auto simp: c1_def [symmetric] Let_def add.assoc split: option.splits)
    qed
  qed
qed simp

lemma settings_bytes:
  "length (iperf_settings_bytes a) = 24" "load_be32 (iperf_settings_bytes a) 20 = Some a"
proof -
  have "drop 20 (iperf_settings_bytes a) = be32 a @ []" by (simp add: iperf_settings_bytes_def)
  then show "load_be32 (iperf_settings_bytes a) 20 = Some a" by (rule load_be32_at)
qed (simp add: iperf_settings_bytes_def)

lemma started_client:
  assumes "mmiperf_start_tcp_client ip self True True close_ok t args fn l = Some (w, es, True)"
  shows "\<exists>c. tw_conn w = Some c \<and> tc_conn_pcb c \<and> \<not> tc_server_pcb c \<and> chunk_ok c \<and> conn_bytes c = 0 \<and>
    tc_settings c = iperf_settings_bytes (ca_amount args) \<and> tw_sessions w = iperf_list_add l self \<and> self \<noteq> NULL"
  using assms
  by (auto simp: mmiperf_start_tcp_client_def iperf_tx_start_impl_def Let_def chunk_ok_def settings_bytes
      TCP_MSS_def zero_report_def split: if_splits option.splits)



end
