(* ===== verification/Mmpkt_View.thy ===== *)
theory Mmpkt_View
  imports Mmbuf
begin

text \<open>
  The accessors of a packet, \<^verbatim>\<open>framework/morselib/include/mmpkt.h\<close>: reserving, appending, removing and
  truncating data through an opened view. A view is the packet's header together with the memory of
  its block; a pointer is an offset in the block. On a well-formed packet every accessor does to the
  data buffer what the byte buffers of \<open>Mmbuf\<close> do, so that the interface \<open>packet_buffer\<close> holds of
  packets too, and no accessor touches the header or the metadata around the data buffer.
\<close>

section \<open>Accessors\<close>

record pktview =
  pv_pkt :: mmpkt
  pv_mem :: "u8 list"

definition mmpkt_open :: "u8 list \<Rightarrow> mmpkt \<Rightarrow> pktview" where
  "mmpkt_open mem mmpkt = \<lparr>pv_pkt = mmpkt, pv_mem = mem\<rparr>"

definition mmpkt_close :: "pktview option option \<Rightarrow> pktview option option" where
  "mmpkt_close view = (case view of None \<Rightarrow> None | Some _ \<Rightarrow> Some None)"

definition mmpkt_from_view :: "pktview \<Rightarrow> mmpkt" where
  "mmpkt_from_view view = pv_pkt view"

definition mmpkt_get_data_start :: "pktview \<Rightarrow> u32" where
  "mmpkt_get_data_start view = (let mmpkt = pv_pkt view in pk_buf mmpkt + pk_start_offset mmpkt)"

definition mmpkt_get_data_end :: "pktview \<Rightarrow> u32" where
  "mmpkt_get_data_end view =
     (let mmpkt = pv_pkt view in pk_buf mmpkt + pk_start_offset mmpkt + pk_data_len mmpkt)"

definition mmpkt_peek_data_length :: "mmpkt \<Rightarrow> u32" where
  "mmpkt_peek_data_length mmpkt = pk_data_len mmpkt"

definition mmpkt_get_data_length :: "pktview \<Rightarrow> u32" where
  "mmpkt_get_data_length view = pk_data_len (pv_pkt view)"

definition mmpkt_available_space_at_start :: "pktview \<Rightarrow> u32" where
  "mmpkt_available_space_at_start view = pk_start_offset (pv_pkt view)"

definition mmpkt_available_space_at_end :: "pktview \<Rightarrow> u32" where
  "mmpkt_available_space_at_end view =
     (let mmpkt = pv_pkt view in pk_buf_len mmpkt - (pk_start_offset mmpkt + pk_data_len mmpkt))"

definition mmpkt_prepend :: "pktview \<Rightarrow> u32 \<Rightarrow> (pktview \<times> u32) option" where
  "mmpkt_prepend view len =
     (if \<not> len \<le> mmpkt_available_space_at_start view then None
      else let mmpkt = (pv_pkt view)\<lparr>pk_start_offset := pk_start_offset (pv_pkt view) - len,
                                     pk_data_len := pk_data_len (pv_pkt view) + len\<rparr>
           in Some (view\<lparr>pv_pkt := mmpkt\<rparr>, pk_buf mmpkt + pk_start_offset mmpkt))"

definition view_memcpy :: "pktview \<Rightarrow> u32 \<Rightarrow> u8 list \<Rightarrow> u32 \<Rightarrow> pktview option" where
  "view_memcpy view dest data len =
     (if unat len \<le> length data
      then map_option (\<lambda>m. view\<lparr>pv_mem := m\<rparr>) (blit (pv_mem view) (unat dest) (take (unat len) data))
      else None)"

definition mmpkt_prepend_data :: "pktview \<Rightarrow> u8 list \<Rightarrow> u32 \<Rightarrow> pktview option" where
  "mmpkt_prepend_data view data len =
     (case mmpkt_prepend view len of None \<Rightarrow> None
      | Some (view, dest) \<Rightarrow> view_memcpy view dest data len)"

definition mmpkt_append :: "pktview \<Rightarrow> u32 \<Rightarrow> (pktview \<times> u32) option" where
  "mmpkt_append view len =
     (let ret = mmpkt_get_data_end view in
      if \<not> len \<le> mmpkt_available_space_at_end view then None
      else Some (view\<lparr>pv_pkt := (pv_pkt view)\<lparr>pk_data_len := pk_data_len (pv_pkt view) + len\<rparr>\<rparr>, ret))"

definition mmpkt_append_data :: "pktview \<Rightarrow> u8 list \<Rightarrow> u32 \<Rightarrow> pktview option" where
  "mmpkt_append_data view data len =
     (case mmpkt_append view len of None \<Rightarrow> None
      | Some (view, dest) \<Rightarrow> view_memcpy view dest data len)"

definition mmpkt_get_metadata :: "mmpkt \<Rightarrow> u32 option" where
  "mmpkt_get_metadata mmpkt = pk_metadata mmpkt"

definition mmpkt_adjust_start_offset :: "mmpkt \<Rightarrow> u32 \<Rightarrow> mmpkt option" where
  "mmpkt_adjust_start_offset mmpkt delta =
     (if pk_data_len mmpkt \<noteq> 0 then None
      else let mmpkt = mmpkt\<lparr>pk_start_offset := pk_start_offset mmpkt + delta\<rparr> in
           if \<not> pk_start_offset mmpkt \<le> pk_buf_len mmpkt then None else Some mmpkt)"

definition mmpkt_remove_from_start :: "pktview \<Rightarrow> u32 \<Rightarrow> pktview \<times> u32 option" where
  "mmpkt_remove_from_start view len =
     (let mmpkt = pv_pkt view in
      if mmpkt_get_data_length view < len then (view, None)
      else (view\<lparr>pv_pkt := mmpkt\<lparr>pk_start_offset := pk_start_offset mmpkt + len,
                                  pk_data_len := pk_data_len mmpkt - len\<rparr>\<rparr>,
            Some (mmpkt_get_data_start view)))"

definition mmpkt_remove_from_end :: "pktview \<Rightarrow> u32 \<Rightarrow> pktview \<times> u32 option" where
  "mmpkt_remove_from_end view len =
     (let mmpkt = pv_pkt view in
      if mmpkt_get_data_length view < len then (view, None)
      else (view\<lparr>pv_pkt := mmpkt\<lparr>pk_data_len := pk_data_len mmpkt - len\<rparr>\<rparr>,
            Some (mmpkt_get_data_end view - len)))"

definition mmpkt_truncate :: "mmpkt \<Rightarrow> u32 \<Rightarrow> mmpkt option" where
  "mmpkt_truncate mmpkt len =
     (if \<not> len \<le> pk_data_len mmpkt then None else Some (mmpkt\<lparr>pk_data_len := len\<rparr>))"

definition mmpkt_contains_ptr :: "pktview \<Rightarrow> u32 \<Rightarrow> bool" where
  "mmpkt_contains_ptr view ptr \<longleftrightarrow>
     ptr \<ge> pk_buf (pv_pkt view) \<and> ptr < pk_buf (pv_pkt view) + pk_buf_len (pv_pkt view)"

section \<open>A packet's data buffer is a byte buffer\<close>

definition view_buf :: "pktview \<Rightarrow> mmbuf" where
  "view_buf v = \<lparr>bf_buf = region (pv_mem v) (unat (pk_buf (pv_pkt v))) (unat (pk_buf_len (pv_pkt v))),
     bf_buf_len = pk_buf_len (pv_pkt v), bf_start_offset = pk_start_offset (pv_pkt v),
     bf_data_len = pk_data_len (pv_pkt v)\<rparr>"

definition view_ok :: "pktview \<Rightarrow> bool" where
  "view_ok v \<longleftrightarrow> length (pv_mem v) < 2 ^ 32 \<and> pkt_fits (length (pv_mem v)) 0 (pv_pkt v)"

text \<open>What lies around the data buffer: the packet header before it, the metadata behind it.\<close>

definition view_frame :: "pktview \<Rightarrow> u8 list \<times> u8 list" where
  "view_frame v = (take (unat (pk_buf (pv_pkt v))) (pv_mem v),
     drop (unat (pk_buf (pv_pkt v)) + unat (pk_buf_len (pv_pkt v))) (pv_mem v))"

lemma view_ok_buf: "view_ok v \<Longrightarrow> mmbuf_ok (view_buf v)"
  by (simp add: view_ok_def view_buf_def mmbuf_ok_def pkt_fits_def length_region)

lemma view_buf_sel:
  "bf_start_offset (view_buf v) = pk_start_offset (pv_pkt v)"
  "bf_data_len (view_buf v) = pk_data_len (pv_pkt v)"
  "bf_buf_len (view_buf v) = pk_buf_len (pv_pkt v)"
  "mmbuf_available_space_at_start (view_buf v) = mmpkt_available_space_at_start v"
  "mmbuf_available_space_at_end (view_buf v) = mmpkt_available_space_at_end v"
  "mmbuf_get_data_length (view_buf v) = mmpkt_get_data_length v"
  by (simp_all add: view_buf_def mmbuf_available_space_at_start_def mmpkt_available_space_at_start_def
      mmbuf_available_space_at_end_def mmpkt_available_space_at_end_def mmbuf_get_data_length_def
      mmpkt_get_data_length_def Let_def)

lemma view_buf_same_start: "(view_buf v)\<lparr>bf_start_offset := pk_start_offset (pv_pkt v)\<rparr> = view_buf v"
  by (simp add: view_buf_def)

lemma region_blit_inside:
  assumes "o' + length d \<le> l" "b + l \<le> length m"
  shows "\<exists>m'. blit m (b + o') d = Some m' \<and> blit (region m b l) o' d = Some (region m' b l) \<and>
    length m' = length m \<and> take b m' = take b m \<and> drop (b + l) m' = drop (b + l) m"
proof -
  define A R C where "A = take b m" and "R = region m b l" and "C = drop (b + l) m"
  have m: "m = A @ R @ C"
    by (simp add: A_def R_def C_def region_def add.commute [of b] drop_drop [symmetric] del: drop_drop)
  have len: "length A = b" "length R = l" using assms by (simp_all add: A_def R_def length_region)
  let ?R = "take o' R @ d @ drop (o' + length d) R"
  have "blit m (b + o') d = Some (A @ ?R @ C)" using assms len unfolding m by (simp add: blit_def)
  moreover have "region (A @ ?R @ C) b l = ?R" "region m b l = R" "length ?R = l"
    using assms len unfolding m by (simp_all add: region_def)
  ultimately show ?thesis using assms len unfolding m by (simp add: blit_def)
qed

lemma view_memcpy_buf:
  assumes "view_ok v" "unat off + unat len \<le> unat (pk_buf_len (pv_pkt v))" "unat len \<le> length d"
  shows "\<exists>v'. view_memcpy v (pk_buf (pv_pkt v) + off) d len = Some v' \<and>
    memcpy_in (view_buf v) off d len = Some (view_buf v') \<and> view_ok v' \<and> view_frame v' = view_frame v \<and>
    pv_pkt v' = pv_pkt v"
proof -
  let ?b = "unat (pk_buf (pv_pkt v))" and ?l = "unat (pk_buf_len (pv_pkt v))"
  have fit: "?b + ?l \<le> length (pv_mem v)" "length (pv_mem v) < 2 ^ 32"
    using assms(1) by (simp_all add: view_ok_def pkt_fits_def)
  have "unat (pk_buf (pv_pkt v) + off) = ?b + unat off"
    using fit assms(2) by (intro unat_add_small) simp
  moreover have "unat off + length (take (unat len) d) \<le> ?l" using assms(2,3) by simp
  ultimately show ?thesis
    using region_blit_inside [OF _ fit(1), of "unat off" "take (unat len) d"] assms(1,3)
    by (fastforce simp: view_memcpy_def memcpy_in_def view_buf_def view_ok_def view_frame_def)
qed

definition refines_buf :: "pktview \<Rightarrow> pktview option \<Rightarrow> mmbuf option \<Rightarrow> bool" where
  "refines_buf v r rb \<longleftrightarrow> (case r of None \<Rightarrow> rb = None
     | Some v' \<Rightarrow> rb = Some (view_buf v') \<and> view_ok v' \<and> view_frame v' = view_frame v)"

lemma view_ok_update:
  assumes "view_ok v" "unat s + unat l \<le> unat (pk_buf_len (pv_pkt v))"
  shows "view_ok (v\<lparr>pv_pkt := (pv_pkt v)\<lparr>pk_start_offset := s, pk_data_len := l\<rparr>\<rparr>)"
    and "view_frame (v\<lparr>pv_pkt := (pv_pkt v)\<lparr>pk_start_offset := s, pk_data_len := l\<rparr>\<rparr>) = view_frame v"
    and "view_buf (v\<lparr>pv_pkt := (pv_pkt v)\<lparr>pk_start_offset := s, pk_data_len := l\<rparr>\<rparr>) =
      (view_buf v)\<lparr>bf_start_offset := s, bf_data_len := l\<rparr>"
  using assms by (simp_all add: view_ok_def pkt_fits_def view_frame_def view_buf_def)

lemma view_start_sum: "view_ok v \<Longrightarrow>
    unat (pk_start_offset (pv_pkt v)) + unat (pk_data_len (pv_pkt v)) \<le> unat (pk_buf_len (pv_pkt v))"
  by (simp add: view_ok_def pkt_fits_def)

lemma prepend_data_refines:
  assumes "view_ok v" "unat len \<le> length d"
  shows "refines_buf v (mmpkt_prepend_data v d len) (mmbuf_prepend_data (view_buf v) d len)"
proof (cases "len \<le> pk_start_offset (pv_pkt v)")
  case False
  then show ?thesis
    by (simp add: refines_buf_def mmpkt_prepend_data_def mmpkt_prepend_def mmpkt_available_space_at_start_def
        mmbuf_prepend_data_def mmbuf_prepend_def view_buf_sel)
next
  case True
  let ?s = "pk_start_offset (pv_pkt v) - len" and ?l = "pk_data_len (pv_pkt v) + len"
  let ?v = "v\<lparr>pv_pkt := (pv_pkt v)\<lparr>pk_start_offset := ?s, pk_data_len := ?l\<rparr>\<rparr>"
  have le: "unat len \<le> unat (pk_start_offset (pv_pkt v))" using True by (simp add: word_le_nat_alt)
  have u: "unat ?s = unat (pk_start_offset (pv_pkt v)) - unat len"
    "unat ?l = unat (pk_data_len (pv_pkt v)) + unat len"
    using True view_start_sum [OF assms(1)] le unat_u32 [of "pk_buf_len (pv_pkt v)"]
    by (simp_all add: unat_sub unat_add_small)
  have fit: "unat ?s + unat ?l \<le> unat (pk_buf_len (pv_pkt v))" using u le view_start_sum [OF assms(1)] by simp
  note upd = view_ok_update [OF assms(1) fit]
  have "unat ?s + unat len \<le> unat (pk_buf_len (pv_pkt ?v))" using fit u by simp
  from view_memcpy_buf [OF upd(1) this assms(2)] show ?thesis
    using True upd by (auto simp: refines_buf_def mmpkt_prepend_data_def mmpkt_prepend_def Let_def
        mmpkt_available_space_at_start_def mmbuf_prepend_data_def mmbuf_prepend_def view_buf_sel)
qed

lemma append_data_refines:
  assumes "view_ok v" "unat len \<le> length d"
  shows "refines_buf v (mmpkt_append_data v d len) (mmbuf_append_data (view_buf v) d len)"
proof (cases "len \<le> mmpkt_available_space_at_end v")
  case False
  then show ?thesis
    by (simp add: refines_buf_def mmpkt_append_data_def mmpkt_append_def mmbuf_append_data_def
        mmbuf_append_def view_buf_sel Let_def)
next
  case True
  let ?s = "pk_start_offset (pv_pkt v)" and ?l = "pk_data_len (pv_pkt v) + len"
  let ?v = "v\<lparr>pv_pkt := (pv_pkt v)\<lparr>pk_start_offset := ?s, pk_data_len := ?l\<rparr>\<rparr>"
  have "unat len \<le> mmbuf_tailroom (view_buf v)"
    using True by (simp add: mmbuf_tailroom_def view_buf_sel word_le_nat_alt)
  then have room: "unat len \<le> unat (pk_buf_len (pv_pkt v)) - (unat ?s + unat (pk_data_len (pv_pkt v)))"
    using mmbuf_rooms(2) [OF view_ok_buf [OF assms(1)]] by (simp add: view_buf_sel)
  have u: "unat ?l = unat (pk_data_len (pv_pkt v)) + unat len"
    "unat (?s + pk_data_len (pv_pkt v)) = unat ?s + unat (pk_data_len (pv_pkt v))"
    using room view_start_sum [OF assms(1)] unat_u32 [of "pk_buf_len (pv_pkt v)"] by (simp_all add: unat_add_small)
  have fit: "unat ?s + unat ?l \<le> unat (pk_buf_len (pv_pkt v))" using u room view_start_sum [OF assms(1)] by simp
  note upd = view_ok_update [OF assms(1) fit]
  have "unat (?s + pk_data_len (pv_pkt v)) + unat len \<le> unat (pk_buf_len (pv_pkt ?v))" using fit u by simp
  from view_memcpy_buf [OF upd(1) this assms(2)] show ?thesis
    using True upd by (auto simp: refines_buf_def mmpkt_append_data_def mmpkt_append_def Let_def
        mmpkt_get_data_end_def mmbuf_append_data_def mmbuf_append_def mmbuf_get_data_end_def view_buf_sel
        view_buf_same_start add.assoc)
qed

text \<open>The operations in the shape of the interface: what is removed is not returned.\<close>

definition pkt_push :: "pktview \<Rightarrow> u8 list \<Rightarrow> pktview option" where
  "pkt_push v d = (if length d < 2 ^ 32 then mmpkt_prepend_data v d (of_nat (length d)) else None)"

definition pkt_put :: "pktview \<Rightarrow> u8 list \<Rightarrow> pktview option" where
  "pkt_put v d = (if length d < 2 ^ 32 then mmpkt_append_data v d (of_nat (length d)) else None)"

definition pkt_pull :: "pktview \<Rightarrow> nat \<Rightarrow> pktview option" where
  "pkt_pull v n = (case mmpkt_remove_from_start v (of_nat n) of (v', p) \<Rightarrow> if p = None then None else Some v')"

definition pkt_trim :: "pktview \<Rightarrow> nat \<Rightarrow> pktview option" where
  "pkt_trim v n = (case mmpkt_remove_from_end v (of_nat n) of (v', p) \<Rightarrow> if p = None then None else Some v')"

lemma pkt_pull_trim_refines:
  assumes "view_ok v"
  shows "refines_buf v (pkt_pull v n) (mmbuf_pull (view_buf v) n)"
    and "refines_buf v (pkt_trim v n) (mmbuf_trim (view_buf v) n)"
proof -
  let ?s = "pk_start_offset (pv_pkt v)" and ?l = "pk_data_len (pv_pkt v)" and ?n = "of_nat n :: u32"
  note sum = view_start_sum [OF assms]
  have fit: "unat (?s + ?n) + unat (?l - ?n) \<le> unat (pk_buf_len (pv_pkt v))"
    "unat ?s + unat (?l - ?n) \<le> unat (pk_buf_len (pv_pkt v))" if "?n \<le> ?l"
    using that sum unat_u32 [of "pk_buf_len (pv_pkt v)"] unat_add_small [of ?s ?n]
    by (simp_all add: unat_sub word_le_nat_alt)
  note upd = view_ok_update [OF assms fit(1)] view_ok_update [OF assms fit(2)]
  show "refines_buf v (pkt_pull v n) (mmbuf_pull (view_buf v) n)"
    using upd by (auto simp: refines_buf_def pkt_pull_def mmbuf_pull_def mmpkt_remove_from_start_def Let_def
        mmbuf_remove_from_start_def mmpkt_get_data_length_def mmbuf_get_data_length_def view_buf_sel)
  show "refines_buf v (pkt_trim v n) (mmbuf_trim (view_buf v) n)"
    using upd by (auto simp: refines_buf_def pkt_trim_def mmbuf_trim_def mmpkt_remove_from_end_def Let_def
        mmbuf_remove_from_end_def mmpkt_get_data_length_def mmbuf_get_data_length_def view_buf_sel
        view_buf_same_start)
qed

definition pkt_data :: "pktview \<Rightarrow> u8 list" where
  "pkt_data v = mmbuf_data (view_buf v)"

definition pkt_headroom :: "pktview \<Rightarrow> nat" where
  "pkt_headroom v = unat (mmpkt_available_space_at_start v)"

definition pkt_tailroom :: "pktview \<Rightarrow> nat" where
  "pkt_tailroom v = unat (mmpkt_available_space_at_end v)"

lemma pkt_rooms: "pkt_headroom v = mmbuf_headroom (view_buf v)" "pkt_tailroom v = mmbuf_tailroom (view_buf v)"
  by (simp_all add: pkt_headroom_def pkt_tailroom_def mmbuf_headroom_def mmbuf_tailroom_def view_buf_sel)

lemma pkt_push_put_refines:
  assumes "view_ok v"
  shows "refines_buf v (pkt_push v d) (mmbuf_push (view_buf v) d)"
    and "refines_buf v (pkt_put v d) (mmbuf_put (view_buf v) d)"
  using prepend_data_refines [OF assms, of "of_nat (length d)" d]
    append_data_refines [OF assms, of "of_nat (length d)" d] unat_of_nat32 [of "length d"]
  by (auto simp: pkt_push_def mmbuf_push_def pkt_put_def mmbuf_put_def refines_buf_def)

text \<open>A packet and the frame it must not touch.\<close>

definition pkt_inv :: "u8 list \<times> u8 list \<Rightarrow> pktview \<Rightarrow> bool" where
  "pkt_inv frame v \<longleftrightarrow> view_ok v \<and> view_frame v = frame"

lemma refines_buf_transfer:
  assumes "pkt_inv frame v" "refines_buf v r rb"
    and "\<exists>b'. rb = Some b' \<and> mmbuf_ok b' \<and> mmbuf_data b' = D \<and> mmbuf_headroom b' = H \<and> mmbuf_tailroom b' = T"
  shows "\<exists>v'. r = Some v' \<and> pkt_inv frame v' \<and> pkt_data v' = D \<and> pkt_headroom v' = H \<and> pkt_tailroom v' = T"
  using assms by (auto simp: refines_buf_def pkt_inv_def pkt_data_def pkt_rooms split: option.splits)

lemma refines_buf_fails: "refines_buf v r None \<Longrightarrow> r = None"
  by (simp add: refines_buf_def split: option.splits)

lemma pkt_inv_ok: "pkt_inv frame v \<Longrightarrow> view_ok v" "pkt_inv frame v \<Longrightarrow> mmbuf_ok (view_buf v)"
  by (simp_all add: pkt_inv_def view_ok_buf)

interpretation pkt: packet_buffer "pkt_inv frame" pkt_data pkt_headroom pkt_tailroom
  pkt_push pkt_put pkt_pull pkt_trim for frame
proof (unfold_locales, goal_cases)
  case (1 v d)
  then show ?case unfolding pkt_data_def pkt_rooms(1) [of v] pkt_rooms(2) [of v]
    by (intro refines_buf_transfer [unfolded pkt_data_def, OF _ pkt_push_put_refines(1)] mmbuf_push_law pkt_inv_ok)
next
  case (2 v d)
  then show ?case
    using pkt_push_put_refines(1) [of v d] mmbuf_push_fails [of "view_buf v" d] pkt_inv_ok(1)
    by (metis pkt_rooms(1) refines_buf_fails)
next
  case (3 v d)
  then show ?case unfolding pkt_data_def pkt_rooms(1) [of v] pkt_rooms(2) [of v]
    by (intro refines_buf_transfer [unfolded pkt_data_def, OF _ pkt_push_put_refines(2)] mmbuf_put_law pkt_inv_ok)
next
  case (4 v d)
  then show ?case
    using pkt_push_put_refines(2) [of v d] mmbuf_put_fails [of "view_buf v" d] pkt_inv_ok(1)
    by (metis pkt_rooms(2) refines_buf_fails)
next
  case (5 v n)
  then show ?case unfolding pkt_data_def pkt_rooms(1) [of v] pkt_rooms(2) [of v]
    by (intro refines_buf_transfer [unfolded pkt_data_def, OF _ pkt_pull_trim_refines(1)] mmbuf_pull_law pkt_inv_ok)
next
  case (6 v n)
  then show ?case unfolding pkt_data_def pkt_rooms(1) [of v] pkt_rooms(2) [of v]
    by (intro refines_buf_transfer [unfolded pkt_data_def, OF _ pkt_pull_trim_refines(2)] mmbuf_trim_law pkt_inv_ok)
qed

section \<open>Properties\<close>

lemma truncate_trims:
  assumes "view_ok v" "len \<le> pk_data_len (pv_pkt v)"
  shows "map_option (\<lambda>p. v\<lparr>pv_pkt := p\<rparr>) (mmpkt_truncate (pv_pkt v) len) =
    pkt_trim v (length (pkt_data v) - unat len)"
proof -
  have "length (pkt_data v) = unat (pk_data_len (pv_pkt v))"
    using length_mmbuf_data [OF view_ok_buf [OF assms(1)]] by (simp add: pkt_data_def view_buf_sel)
  then have n: "of_nat (length (pkt_data v) - unat len) = pk_data_len (pv_pkt v) - len"
    using assms(2) by (simp add: of_nat_diff word_le_nat_alt)
  have "pk_data_len (pv_pkt v) - len \<le> pk_data_len (pv_pkt v)"
    using assms(2) by (simp add: word_le_nat_alt unat_sub)
  then show ?thesis using assms(2)
    by (simp add: n mmpkt_truncate_def pkt_trim_def mmpkt_remove_from_end_def mmpkt_get_data_length_def Let_def)
qed

lemma adjust_start_offset_room:
  assumes "view_ok v" "mmpkt_adjust_start_offset (pv_pkt v) delta = Some p"
  shows "view_ok (v\<lparr>pv_pkt := p\<rparr>) \<and> pkt_data (v\<lparr>pv_pkt := p\<rparr>) = [] \<and>
    pk_start_offset p = pk_start_offset (pv_pkt v) + delta \<and>
    pkt_headroom (v\<lparr>pv_pkt := p\<rparr>) + pkt_tailroom (v\<lparr>pv_pkt := p\<rparr>) = pkt_headroom v + pkt_tailroom v"
  using assms by (auto simp: mmpkt_adjust_start_offset_def view_ok_def pkt_fits_def Let_def pkt_data_def
      view_buf_def mmbuf_data_def region_def pkt_headroom_def pkt_tailroom_def word_le_nat_alt unat_sub
      mmpkt_available_space_at_start_def mmpkt_available_space_at_end_def split: if_splits)

lemma data_in_buffer:
  assumes "view_ok v" "0 < length (pkt_data v)"
  shows "mmpkt_contains_ptr v (mmpkt_get_data_start v)"
proof -
  let ?p = "pv_pkt v"
  have len: "length (pkt_data v) = unat (pk_data_len ?p)"
    using length_mmbuf_data [OF view_ok_buf [OF assms(1)]] by (simp add: pkt_data_def view_buf_sel)
  have "unat (pk_buf ?p + pk_start_offset ?p) = unat (pk_buf ?p) + unat (pk_start_offset ?p)"
    "unat (pk_buf ?p + pk_buf_len ?p) = unat (pk_buf ?p) + unat (pk_buf_len ?p)"
    using assms(1) by (simp_all add: view_ok_def pkt_fits_def unat_add_small)
  then show ?thesis using assms len
    by (simp add: mmpkt_contains_ptr_def mmpkt_get_data_start_def Let_def word_le_nat_alt word_less_nat_alt
        view_ok_def pkt_fits_def)
qed

fun pkt_push_all :: "pktview \<Rightarrow> u8 list list \<Rightarrow> pktview option" where
  "pkt_push_all v [] = Some v"
| "pkt_push_all v (h # hs) = (case pkt_push v h of None \<Rightarrow> None | Some v' \<Rightarrow> pkt_push_all v' hs)"

fun pkt_pull_all :: "pktview \<Rightarrow> nat list \<Rightarrow> pktview option" where
  "pkt_pull_all v [] = Some v"
| "pkt_pull_all v (n # ns) = (case pkt_pull v n of None \<Rightarrow> None | Some v' \<Rightarrow> pkt_pull_all v' ns)"

lemma pkt_all_eq: "pkt_push_all v hs = pkt.push_all v hs" "pkt_pull_all v ns = pkt.pull_all v ns"
  by (induction hs arbitrary: v) (auto split: option.splits, induction ns arbitrary: v, auto split: option.splits)

lemma init_buf_view:
  assumes "mmpkt_init_buf 28 len sas sae ml = Some p" "length mem = unat len"
    and "unat sas + unat sae + unat ml < 2 ^ 31" "sae \<noteq> - 1"
  shows "view_ok (mmpkt_open mem p)" "pkt_data (mmpkt_open mem p) = []"
    "pkt_headroom (mmpkt_open mem p) = unat sas" "unat sae \<le> pkt_tailroom (mmpkt_open mem p)"
proof -
  let ?d = "MM_FAST_ROUND_UP (sas + sae) 4"
  have s: "unat (sas + sae) = unat sas + unat sae" by (rule unat_add_small) (use assms(3) in simp)
  have d: "unat sas + unat sae \<le> unat ?d" using round_up_4_ge [of "sas + sae"] s assms(3) by simp
  have p: "28 + unat ?d \<le> unat len" "pk_buf p = 28" "pk_buf_len p = ?d" "pk_start_offset p = sas" "pk_data_len p = 0"
    using assms(1) unfolding init_buf_layout [OF assms(3,4)] by (auto simp: Let_def split: if_splits)
  show "view_ok (mmpkt_open mem p)"
    using p d assms(2) unat_u32 [of len] by (simp add: view_ok_def pkt_fits_def mmpkt_open_def)
  show "pkt_data (mmpkt_open mem p) = []" "pkt_headroom (mmpkt_open mem p) = unat sas"
    using p by (simp_all add: pkt_data_def view_buf_def mmbuf_data_def region_def mmpkt_open_def pkt_headroom_def
        mmpkt_available_space_at_start_def)
  show "unat sae \<le> pkt_tailroom (mmpkt_open mem p)"
    using p d by (simp add: pkt_tailroom_def mmpkt_available_space_at_end_def mmpkt_open_def word_le_nat_alt unat_sub)
qed

text \<open>C25: A packet carries its payload through the protocol layers: in a packet laid out by
  \<open>mmpkt_init_buf\<close> (sizes that do not wrap around 32 bits), a payload of at most the space requested at
  the end and a stack of headers of at most the space requested at the start never fail an assertion;
  the data is the headers, last first, and the payload; removing the header lengths gives back
  exactly the payload; and the packet header before the data buffer and the metadata behind it are
  never written.\<close>

theorem packet_payload_roundtrip:
  assumes "mmpkt_init_buf 28 len sas sae ml = Some p" "length mem = unat len"
    and "unat sas + unat sae + unat ml < 2 ^ 31" "sae \<noteq> - 1"
    and "length payload \<le> unat sae" "sum_list (map length hs) \<le> unat sas"
  shows "\<exists>v1 v2 v3. pkt_put (mmpkt_open mem p) payload = Some v1 \<and> pkt_push_all v1 hs = Some v2 \<and>
    pkt_pull_all v2 (map length (rev hs)) = Some v3 \<and>
    pkt_data v2 = concat (rev hs) @ payload \<and> pkt_data v3 = payload \<and>
    (\<forall>v \<in> {v1, v2, v3}. view_ok v \<and> view_frame v = view_frame (mmpkt_open mem p))"
proof -
  let ?v = "mmpkt_open mem p" and ?F = "view_frame (mmpkt_open mem p)"
  note init = init_buf_view [OF assms(1-4)]
  have "pkt_inv ?F ?v" using init(1) by (simp add: pkt_inv_def)
  from pkt.put_law [OF this, of payload] init(2-4) assms(5) obtain v1 where
    v1: "pkt_put ?v payload = Some v1" "pkt_inv ?F v1" "pkt_data v1 = payload" "pkt_headroom v1 = unat sas"
    by auto
  from pkt.encapsulation [OF v1(2), of hs] assms(6) v1 show ?thesis
    unfolding pkt_all_eq by (fastforce simp: pkt_inv_def)
qed

theorem packet_payload_roundtrip_witness:
  "\<exists>p v1 v2 v3. mmpkt_init_buf 28 64 8 12 4 = Some p \<and>
    pkt_put (mmpkt_open (replicate 64 0) p) [1, 2, 3] = Some v1 \<and> pkt_push_all v1 [[8], [9, 9]] = Some v2 \<and>
    pkt_data v2 = [9, 9, 8, 1, 2, 3] \<and> pkt_pull_all v2 [length [9, 9 :: u8], length [8 :: u8]] = Some v3 \<and> pkt_data v3 = [1, 2, 3]"
proof -
  obtain p where p: "mmpkt_init_buf 28 64 8 12 4 = Some p"
    by (simp add: mmpkt_init_buf_def MM_FAST_ROUND_UP_def mmpkt_init_def Let_def)
  with packet_payload_roundtrip [OF p, of "replicate 64 0" "[1, 2, 3]" "[[8], [9, 9]]"] show ?thesis by auto
qed

end
