(* ===== verification/Netif.thy ===== *)
theory Netif
  imports Mmpkt_View
begin

text \<open>
  The network interface between the HaLow driver and the IP stack,
  \<^verbatim>\<open>framework/src/mmipal/lwip/mmnetif.c\<close>, and the transmit functions of \<^verbatim>\<open>mmwlan.h\<close>: received
  packets are wrapped in custom pbufs without copying and released when the stack frees them,
  transmitted pbuf chains are copied into one packet, and changes of the link state are passed on to
  the TCP/IP thread. The WLAN library and lwIP are outside the sources: the results of their functions
  are arguments (a block of the wrapper pool, an error code) or the fields of a record. A failed
  assertion is \<open>None\<close> or \<open>Assert_fails\<close>; waiting for a lock that is already taken is \<open>Blocks\<close>.
\<close>

section \<open>The WLAN transmit interface\<close>

datatype mmwlan_status = MMWLAN_SUCCESS | MMWLAN_ERROR | MMWLAN_INVALID_ARGUMENT | MMWLAN_UNAVAILABLE
  | MMWLAN_CHANNEL_LIST_NOT_SET | MMWLAN_NO_MEM | MMWLAN_TIMED_OUT | MMWLAN_SHUTDOWN_BLOCKED
  | MMWLAN_CHANNEL_INVALID | MMWLAN_NOT_FOUND | MMWLAN_NOT_RUNNING | MMWLAN_NOT_INITIALIZED
  | MMWLAN_VIF_ERROR

datatype mmwlan_vif = MMWLAN_VIF_UNSPECIFIED | MMWLAN_VIF_STA | MMWLAN_VIF_AP

datatype mmwlan_link_state = MMWLAN_LINK_DOWN | MMWLAN_LINK_UP

record mmwlan_tx_metadata =
  tm_tid :: u8
  tm_vif :: mmwlan_vif

definition MMWLAN_TX_DEFAULT_QOS_TID :: u8 where "MMWLAN_TX_DEFAULT_QOS_TID = 0"

definition MMWLAN_MAX_QOS_TID :: u8 where "MMWLAN_MAX_QOS_TID = 7"

definition MMWLAN_TX_METADATA_INIT :: mmwlan_tx_metadata where
  "MMWLAN_TX_METADATA_INIT = \<lparr>tm_tid = MMWLAN_TX_DEFAULT_QOS_TID, tm_vif = MMWLAN_VIF_UNSPECIFIED\<rparr>"

text \<open>
  The functions of the WLAN library a transmission calls. An allocated packet is empty and has at
  least the requested space; \<open>mmwlan_tx_pkt\<close> consumes its packet whatever it returns.
\<close>

record wlan_tx =
  mmwlan_tx_wait_until_ready :: "nat \<Rightarrow> mmwlan_status"
  mmwlan_alloc_mmpkt_for_tx :: "u32 \<Rightarrow> u8 \<Rightarrow> pktview option"
  mmwlan_tx_pkt :: "pktview \<Rightarrow> mmwlan_tx_metadata \<Rightarrow> mmwlan_status"

definition wlan_tx_ok :: "wlan_tx \<Rightarrow> bool" where
  "wlan_tx_ok W \<longleftrightarrow> (\<forall>len tid v. mmwlan_alloc_mmpkt_for_tx W len tid = Some v \<longrightarrow>
     view_ok v \<and> pkt_data v = [] \<and> unat len \<le> pkt_tailroom v)"

text \<open>The result of a transmission: the status, and the packet given to \<open>mmwlan_tx_pkt\<close>.\<close>

definition mmwlan_tx_tid ::
  "wlan_tx \<Rightarrow> u8 list \<Rightarrow> u32 \<Rightarrow> u8 \<Rightarrow> (mmwlan_status \<times> (pktview \<times> mmwlan_tx_metadata) option) option" where
  "mmwlan_tx_tid W data len tid =
     (let status = mmwlan_tx_wait_until_ready W 1000 in
      if status \<noteq> MMWLAN_SUCCESS then Some (status, None)
      else case mmwlan_alloc_mmpkt_for_tx W len tid of
        None \<Rightarrow> Some (MMWLAN_NO_MEM, None)
      | Some pktview \<Rightarrow>
          (case mmpkt_append_data pktview data len of None \<Rightarrow> None
           | Some pktview \<Rightarrow>
               (let metadata = MMWLAN_TX_METADATA_INIT\<lparr>tm_tid := tid\<rparr> in
                Some (mmwlan_tx_pkt W pktview metadata, Some (pktview, metadata)))))"

definition mmwlan_tx :: "wlan_tx \<Rightarrow> u8 list \<Rightarrow> u32 \<Rightarrow> (mmwlan_status \<times> (pktview \<times> mmwlan_tx_metadata) option) option" where
  "mmwlan_tx W data len = mmwlan_tx_tid W data len MMWLAN_TX_DEFAULT_QOS_TID"

section \<open>The interface and its state\<close>

datatype err_t = ERR_OK | ERR_MEM | ERR_BUF | ERR_IF

datatype netif_flag = NETIF_FLAG_BROADCAST | NETIF_FLAG_ETHARP | NETIF_FLAG_IGMP | NETIF_FLAG_MLD6
  | NETIF_FLAG_LINK_UP

record netif_state =
  ns_vif :: mmwlan_vif
  ns_tx_qos_tid :: u8

record netif =
  ni_state :: "netif_state option"
  ni_hwaddr :: "u8 list"
  ni_hwaddr_len :: u8
  ni_mtu :: u16
  ni_flags :: "netif_flag set"
  ni_name :: string

record link_stats =
  st_recv :: nat
  st_xmit :: nat
  st_memerr :: nat
  st_drop :: nat

text \<open>
  What \<open>mmnetif_rx\<close> passes to \<open>pbuf_alloced_custom\<close>: the wrapper, the length of the pbuf (lwIP's
  lengths have 16 bits), and where the payload lies.
\<close>

record pbuf_args =
  pa_wrapper :: nat
  pa_length :: u16
  pa_payload_mem :: u32
  pa_payload_mem_len :: u16

text \<open>
  The interface with the wrappers the stack holds (each with its packet), the packets released so far,
  the pbufs \<open>tcpip_input\<close> accepted with their packets, the core lock, the calls posted to the TCP/IP
  thread (\<open>True\<close> for \<open>netif_set_link_up\<close>) and the link statistics.
\<close>

record mmnetif =
  mn_netif :: netif
  mn_wrappers :: "(nat \<times> pktview) list"
  mn_released :: "pktview list"
  mn_input :: "(pbuf_args \<times> pktview) list"
  mn_core_locked :: bool
  mn_posted :: "bool list"
  mn_stats :: link_stats

datatype 's cb_result = Returns 's | Blocks | Assert_fails

definition get_netif_state :: "netif \<Rightarrow> netif_state option" where
  "get_netif_state netif = ni_state netif"

definition mmpkt_release :: "pktview \<Rightarrow> mmnetif \<Rightarrow> mmnetif" where
  "mmpkt_release pkt s = s\<lparr>mn_released := mn_released s @ [pkt]\<rparr>"

definition mmpkt_pbuf_wrapper_free :: "nat option \<Rightarrow> mmnetif \<Rightarrow> mmnetif" where
  "mmpkt_pbuf_wrapper_free p s =
     (case p of None \<Rightarrow> s
      | Some pbuf \<Rightarrow>
          (case map_of (mn_wrappers s) pbuf of None \<Rightarrow> s
           | Some pkt \<Rightarrow> (mmpkt_release pkt s)\<lparr>mn_wrappers := filter (\<lambda>x. fst x \<noteq> pbuf) (mn_wrappers s)\<rparr>))"

definition stats_inc :: "(link_stats \<Rightarrow> link_stats) \<Rightarrow> mmnetif \<Rightarrow> mmnetif" where
  "stats_inc f s = s\<lparr>mn_stats := f (mn_stats s)\<rparr>"

text \<open>
  Reception. \<open>block\<close> is the result of \<open>LWIP_MEMPOOL_ALLOC\<close> and \<open>ret\<close> that of \<open>tcpip_input\<close>; \<open>pbuf_free\<close>
  of the pbuf nobody else refers to calls its free function.
\<close>

definition mmnetif_rx :: "pktview \<Rightarrow> mmwlan_vif \<Rightarrow> nat option \<Rightarrow> err_t \<Rightarrow> mmnetif \<Rightarrow> mmnetif cb_result" where
  "mmnetif_rx rxpkt vif block ret s =
     (case get_netif_state (mn_netif s) of None \<Rightarrow> Assert_fails
      | Some state \<Rightarrow>
        if vif \<noteq> ns_vif state then Returns (mmpkt_release rxpkt s)
        else case block of
          Some pbuf \<Rightarrow>
            (let s = s\<lparr>mn_wrappers := (pbuf, rxpkt) # mn_wrappers s\<rparr>;
                 p = \<lparr>pa_wrapper = pbuf, pa_length = ucast (mmpkt_get_data_length rxpkt),
                      pa_payload_mem = mmpkt_get_data_start rxpkt,
                      pa_payload_mem_len = ucast (mmpkt_get_data_length rxpkt)\<rparr>
             in if ret = ERR_OK
                then Returns (stats_inc (\<lambda>t. t\<lparr>st_recv := st_recv t + 1\<rparr>)
                                (s\<lparr>mn_input := mn_input s @ [(p, rxpkt)]\<rparr>))
                else Returns (stats_inc (\<lambda>t. t\<lparr>st_memerr := st_memerr t + 1, st_drop := st_drop t + 1\<rparr>)
                                (mmpkt_pbuf_wrapper_free (Some pbuf) s)))
        | None \<Rightarrow> Returns (mmpkt_release rxpkt (stats_inc (\<lambda>t. t\<lparr>st_memerr := st_memerr t + 1\<rparr>) s)))"

text \<open>
  A change of the state of a virtual interface. \<open>mac\<close> is what \<open>mmwlan_get_vif_mac_addr\<close> stores for the
  interface and \<open>err\<close> the result of \<open>tcpip_callback_with_block\<close>.
\<close>

definition mmnetif_vif_state ::
  "mmwlan_vif \<Rightarrow> mmwlan_link_state \<Rightarrow> u8 list \<Rightarrow> err_t \<Rightarrow> mmnetif \<Rightarrow> mmnetif cb_result" where
  "mmnetif_vif_state vif link mac err s =
     (case get_netif_state (mn_netif s) of None \<Rightarrow> Assert_fails
      | Some netif_state \<Rightarrow>
        if mn_core_locked s then Blocks
        else let s = s\<lparr>mn_core_locked := True\<rparr> in
          if link = MMWLAN_LINK_DOWN
          then if ns_vif netif_state \<noteq> vif then Returns s
               else if err \<noteq> ERR_OK then Assert_fails
               else Returns (s\<lparr>mn_posted := mn_posted s @ [False], mn_core_locked := False\<rparr>)
          else let s = (if NETIF_FLAG_LINK_UP \<notin> ni_flags (mn_netif s)
                        then s\<lparr>mn_netif := (mn_netif s)\<lparr>ni_state := Some (netif_state\<lparr>ns_vif := vif\<rparr>),
                                                       ni_hwaddr := mac\<rparr>\<rparr>
                        else s)
               in if err \<noteq> ERR_OK then Assert_fails
                  else Returns (s\<lparr>mn_posted := mn_posted s @ [True], mn_core_locked := False\<rparr>))"

section \<open>Transmission and initialisation\<close>

record pbuf =
  pb_payload :: "u8 list"
  pb_len :: u16

text \<open>The loop over the pbuf chain.\<close>

fun tx_copy :: "pktview \<Rightarrow> pbuf list \<Rightarrow> pktview option" where
  "tx_copy pktview [] = Some pktview"
| "tx_copy pktview (walk # rest) =
     (case mmpkt_append_data pktview (pb_payload walk) (ucast (pb_len walk)) of None \<Rightarrow> None
      | Some pktview \<Rightarrow> tx_copy pktview rest)"

definition mmnetif_tx ::
  "wlan_tx \<Rightarrow> pbuf list \<Rightarrow> u16 \<Rightarrow> mmnetif \<Rightarrow> (err_t \<times> (pktview \<times> mmwlan_tx_metadata) option \<times> mmnetif) option" where
  "mmnetif_tx W p tot_len s =
     (case get_netif_state (mn_netif s) of None \<Rightarrow> None
      | Some state \<Rightarrow>
        let metadata = \<lparr>tm_tid = ns_tx_qos_tid state, tm_vif = ns_vif state\<rparr> in
        if mmwlan_tx_wait_until_ready W 1000 \<noteq> MMWLAN_SUCCESS
        then Some (ERR_BUF, None, stats_inc (\<lambda>t. t\<lparr>st_drop := st_drop t + 1\<rparr>) s)
        else case mmwlan_alloc_mmpkt_for_tx W (ucast tot_len) (tm_tid metadata) of
          None \<Rightarrow> Some (ERR_MEM, None, stats_inc (\<lambda>t. t\<lparr>st_memerr := st_memerr t + 1\<rparr>) s)
        | Some pktview \<Rightarrow>
            (case tx_copy pktview p of None \<Rightarrow> None
             | Some pktview \<Rightarrow>
                 if mmwlan_tx_pkt W pktview metadata \<noteq> MMWLAN_SUCCESS
                 then Some (ERR_BUF, Some (pktview, metadata), stats_inc (\<lambda>t. t\<lparr>st_drop := st_drop t + 1\<rparr>) s)
                 else Some (ERR_OK, Some (pktview, metadata), stats_inc (\<lambda>t. t\<lparr>st_xmit := st_xmit t + 1\<rparr>) s)))"

text \<open>What initialisation gets from the WLAN library and the heap.\<close>

record netif_env =
  en_boot :: mmwlan_status
  en_mac :: "mmwlan_status \<times> u8 list"
  en_calloc :: bool
  en_register_rx :: mmwlan_status
  en_register_vif :: mmwlan_status

text \<open>\<open>initialised\<close> is the static variable of the function; \<open>ip6\<close> says that lwIP is built with IPv6.\<close>

definition mmnetif_init :: "netif_env \<Rightarrow> bool \<Rightarrow> bool \<Rightarrow> netif \<Rightarrow> (err_t \<times> bool \<times> netif) option" where
  "mmnetif_init env ip6 initialised netif =
     (if initialised then Some (ERR_IF, initialised, netif)
      else if en_boot env \<noteq> MMWLAN_SUCCESS then None
      else if fst (en_mac env) \<noteq> MMWLAN_SUCCESS then None
      else let netif = netif\<lparr>ni_hwaddr_len := 6, ni_hwaddr := snd (en_mac env), ni_mtu := 1500,
              ni_flags := ni_flags netif \<union> {NETIF_FLAG_BROADCAST, NETIF_FLAG_ETHARP, NETIF_FLAG_IGMP} \<union>
                (if ip6 then {NETIF_FLAG_MLD6} else {}),
              ni_state := None, ni_name := ''MM''\<rparr> in
        if \<not> en_calloc env then None
        else let netif = netif\<lparr>ni_state := Some \<lparr>ns_vif = MMWLAN_VIF_UNSPECIFIED,
                                  ns_tx_qos_tid = MMWLAN_TX_DEFAULT_QOS_TID\<rparr>\<rparr> in
          if en_register_rx env \<noteq> MMWLAN_SUCCESS then None
          else if en_register_vif env \<noteq> MMWLAN_SUCCESS then None
          else Some (ERR_OK, True, netif))"

definition mmnetif_set_tx_qos_tid :: "u8 \<Rightarrow> netif \<Rightarrow> netif option" where
  "mmnetif_set_tx_qos_tid tid netif =
     (if \<not> tid \<le> MMWLAN_MAX_QOS_TID then None
      else case get_netif_state netif of None \<Rightarrow> None
        | Some state \<Rightarrow> Some (netif\<lparr>ni_state := Some (state\<lparr>ns_tx_qos_tid := tid\<rparr>)\<rparr>))"

section \<open>Runs of the interface\<close>

text \<open>
  The events of the interface: a packet arrives, the stack frees a pbuf it was given, a virtual
  interface changes its state, the TCP/IP thread runs a posted call. The pool never gives out a block
  that is in use, and the stack frees only pbufs it holds.
\<close>

datatype netif_event = Rx_packet pktview mmwlan_vif "nat option" err_t | Pbuf_freed nat
  | Vif_event mmwlan_vif mmwlan_link_state "u8 list" err_t | Tcpip_callback

inductive netif_step :: "mmnetif \<Rightarrow> netif_event \<Rightarrow> mmnetif \<Rightarrow> bool" where
  rx: "(\<And>b. block = Some b \<Longrightarrow> b \<notin> fst ` set (mn_wrappers s)) \<Longrightarrow>
    mmnetif_rx v vif block ret s = Returns s' \<Longrightarrow> netif_step s (Rx_packet v vif block ret) s'"
| freed: "b \<in> fst ` set (mn_wrappers s) \<Longrightarrow>
    netif_step s (Pbuf_freed b) (mmpkt_pbuf_wrapper_free (Some b) s)"
| vif: "mmnetif_vif_state vif link mac err s = Returns s' \<Longrightarrow> netif_step s (Vif_event vif link mac err) s'"
| callback: "mn_posted s = up # calls \<Longrightarrow>
    netif_step s Tcpip_callback (s\<lparr>mn_posted := calls, mn_netif := (mn_netif s)\<lparr>ni_flags :=
      (if up then insert NETIF_FLAG_LINK_UP (ni_flags (mn_netif s))
       else ni_flags (mn_netif s) - {NETIF_FLAG_LINK_UP})\<rparr>\<rparr>)"

inductive netif_runs :: "mmnetif \<Rightarrow> netif_event list \<Rightarrow> mmnetif \<Rightarrow> bool" where
  none: "netif_runs s [] s"
| more: "netif_runs s es t \<Longrightarrow> netif_step t e u \<Longrightarrow> netif_runs s (es @ [e]) u"

fun packet_of :: "netif_event \<Rightarrow> pktview multiset" where
  "packet_of (Rx_packet v vif block ret) = {#v#}"
| "packet_of e = {#}"

definition owned :: "mmnetif \<Rightarrow> pktview multiset" where
  "owned s = mset (mn_released s) + mset (map snd (mn_wrappers s))"

text \<open>What the stack reads through a pbuf.\<close>

definition pbuf_bytes :: "pbuf_args \<Rightarrow> pktview \<Rightarrow> u8 list" where
  "pbuf_bytes p v = region (pv_mem v) (unat (pa_payload_mem p)) (unat (pa_length p))"

lemmas netif_defs = mmnetif_rx_def mmnetif_vif_state_def mmpkt_pbuf_wrapper_free_def mmpkt_release_def
  stats_inc_def get_netif_state_def owned_def

lemma wrapper_free_owned:
  assumes "distinct (map fst (mn_wrappers s))" "b \<in> fst ` set (mn_wrappers s)"
  shows "owned (mmpkt_pbuf_wrapper_free (Some b) s) = owned s"
proof -
  obtain v where m: "map_of (mn_wrappers s) b = Some v" using assms(2) by (metis map_of_eq_None_iff option.exhaust)
  then obtain xs ys where xs: "mn_wrappers s = xs @ (b, v) # ys" by (metis map_of_SomeD in_set_conv_decomp)
  then have "b \<notin> fst ` set xs" "b \<notin> fst ` set ys" using assms(1) by (auto simp: image_iff)
  then have "filter (\<lambda>x. fst x \<noteq> b) xs = xs" "filter (\<lambda>x. fst x \<noteq> b) ys = ys"
    by (auto simp: filter_id_conv image_iff)
  then have "filter (\<lambda>x. fst x \<noteq> b) (mn_wrappers s) = xs @ ys" unfolding xs by simp
  then show ?thesis using m xs by (simp add: netif_defs)
qed

lemma wrapper_free_distinct:
  "distinct (map fst (mn_wrappers s)) \<Longrightarrow> distinct (map fst (mn_wrappers (mmpkt_pbuf_wrapper_free p s)))"
  by (auto simp: netif_defs distinct_map_filter split: option.splits)

lemma wrapper_free_input: "mn_input (mmpkt_pbuf_wrapper_free p s) = mn_input s"
  by (auto simp: netif_defs split: option.splits)

lemma pbuf_bytes_data:
  assumes "view_ok v" "length (pkt_data v) < 2 ^ 16"
  shows "pbuf_bytes \<lparr>pa_wrapper = b, pa_length = ucast (mmpkt_get_data_length v),
    pa_payload_mem = mmpkt_get_data_start v, pa_payload_mem_len = l\<rparr> v = pkt_data v"
proof -
  let ?p = "pv_pkt v"
  have len: "length (pkt_data v) = unat (pk_data_len ?p)"
    using length_mmbuf_data [OF view_ok_buf [OF assms(1)]] by (simp add: pkt_data_def view_buf_sel)
  have "unat (ucast (pk_data_len ?p) :: u16) = unat (pk_data_len ?p)"
    using assms(2) len by (simp add: unsigned_ucast_eq take_bit_eq_mod)
  moreover have "unat (pk_buf ?p + pk_start_offset ?p) = unat (pk_buf ?p) + unat (pk_start_offset ?p)"
    using assms(1) by (simp add: view_ok_def pkt_fits_def unat_add_small)
  moreover have "unat (pk_start_offset ?p) + unat (pk_data_len ?p) \<le> unat (pk_buf_len ?p)"
    by (rule view_start_sum [OF assms(1)])
  ultimately show ?thesis
    by (simp add: pbuf_bytes_def pkt_data_def mmbuf_data_def view_buf_def region_def mmpkt_get_data_length_def
        mmpkt_get_data_start_def Let_def take_drop min_def add.commute add.left_commute)
qed

lemma rx_drops:
  "mmnetif_rx v vif None ret s = Returns s' \<Longrightarrow>
     owned s' = owned s + {#v#} \<and> mn_wrappers s' = mn_wrappers s \<and> mn_input s' = mn_input s"
  by (auto simp: netif_defs split: option.splits if_splits)

lemma rx_conserves:
  assumes "mmnetif_rx v vif block ret s = Returns s'" "\<And>b. block = Some b \<Longrightarrow> b \<notin> fst ` set (mn_wrappers s)"
    and "distinct (map fst (mn_wrappers s))"
  shows "owned s' = owned s + {#v#} \<and> distinct (map fst (mn_wrappers s'))"
proof (cases block)
  case None
  then show ?thesis using rx_drops assms by metis
next
  case (Some b)
  let ?s = "s\<lparr>mn_wrappers := (b, v) # mn_wrappers s\<rparr>"
  have d: "distinct (map fst (mn_wrappers ?s))" using assms(2) [OF Some] assms(3) by simp
  have f: "owned (mmpkt_pbuf_wrapper_free (Some b) ?s) = owned s + {#v#}"
    using wrapper_free_owned [OF d, of b] by (simp add: owned_def)
  have "owned (stats_inc g t) = owned t" "mn_wrappers (stats_inc g t) = mn_wrappers t" for g t
    by (simp_all add: stats_inc_def owned_def)
  then show ?thesis using assms(1) Some f d wrapper_free_distinct [OF d, of "Some b"] assms(3)
    by (auto simp: mmnetif_rx_def Let_def get_netif_state_def owned_def mmpkt_release_def
        split: option.splits if_splits)
qed

lemma rx_input_cases:
  assumes "mmnetif_rx v vif block ret s = Returns s'"
  shows "mn_input s' = mn_input s \<or> (\<exists>b. mn_input s' = mn_input s @ [(\<lparr>pa_wrapper = b,
    pa_length = ucast (mmpkt_get_data_length v), pa_payload_mem = mmpkt_get_data_start v,
    pa_payload_mem_len = ucast (mmpkt_get_data_length v)\<rparr>, v)])"
proof (cases block)
  case None
  then show ?thesis using rx_drops assms by metis
next
  case (Some b)
  have "mn_input (stats_inc g t) = mn_input t" "mn_input (mmpkt_release w t) = mn_input t" for g w t
    by (simp_all add: stats_inc_def mmpkt_release_def)
  then show ?thesis using assms Some
    by (auto simp: mmnetif_rx_def Let_def wrapper_free_input split: option.splits if_splits)
qed

lemma rx_input:
  assumes "mmnetif_rx v vif block ret s = Returns s'" "view_ok v" "length (pkt_data v) < 2 ^ 16"
    and "\<forall>(p, w) \<in> set (mn_input s). pbuf_bytes p w = pkt_data w"
  shows "\<forall>(p, w) \<in> set (mn_input s'). pbuf_bytes p w = pkt_data w"
  using rx_input_cases [OF assms(1)] assms(4) pbuf_bytes_data [OF assms(2,3)] by auto

lemma vif_state_keeps:
  "mmnetif_vif_state vif link mac err s = Returns s' \<Longrightarrow>
     owned s' = owned s \<and> mn_wrappers s' = mn_wrappers s \<and> mn_input s' = mn_input s"
  by (auto simp: netif_defs Let_def split: option.splits if_splits)

lemma step_conserves:
  assumes "netif_step s e s'" "distinct (map fst (mn_wrappers s))"
  shows "owned s' = owned s + packet_of e \<and> distinct (map fst (mn_wrappers s'))"
  using assms
proof cases
  case (rx block v vif ret)
  then show ?thesis using rx_conserves assms(2) by auto
next
  case (freed b)
  then show ?thesis using wrapper_free_owned wrapper_free_distinct assms(2) by auto
next
  case (vif v link mac err)
  then show ?thesis using vif_state_keeps [OF vif(2)] assms(2) by simp
next
  case (callback up calls)
  then show ?thesis using assms(2) by (simp add: owned_def)
qed

fun rx_fits :: "netif_event \<Rightarrow> bool" where
  "rx_fits (Rx_packet v vif block ret) \<longleftrightarrow> view_ok v \<and> length (pkt_data v) < 2 ^ 16"
| "rx_fits e \<longleftrightarrow> True"

lemma step_input:
  assumes "netif_step s e s'" "rx_fits e" "\<forall>(p, w) \<in> set (mn_input s). pbuf_bytes p w = pkt_data w"
  shows "\<forall>(p, w) \<in> set (mn_input s'). pbuf_bytes p w = pkt_data w"
  using assms
proof cases
  case (rx block v vif ret)
  then show ?thesis using rx_input assms(2,3) by simp
next
  case (vif v link mac err)
  then show ?thesis using vif_state_keeps [OF vif(2)] assms(3) by simp
qed (simp_all add: wrapper_free_input)

text \<open>C11: No received packet is lost or released twice on its way through the IP stack: after any
  sequence of receptions (also on other virtual interfaces, with an exhausted wrapper pool or a failing
  \<open>tcpip_input\<close>), frees by the stack and link changes, the packets received are exactly those released
  once plus those the stack still holds in distinct wrappers, and every pbuf given to the stack
  shows exactly the data of its packet.\<close>

theorem netif_rx_ownership:
  assumes "netif_runs s0 es s" "mn_wrappers s0 = []" "mn_released s0 = []" "mn_input s0 = []"
    and "\<forall>e \<in> set es. rx_fits e"
  shows "\<Sum>\<^sub># (mset (map packet_of es)) = mset (mn_released s) + mset (map snd (mn_wrappers s)) \<and>
    distinct (map fst (mn_wrappers s)) \<and> (\<forall>(p, v) \<in> set (mn_input s). pbuf_bytes p v = pkt_data v)"
  using assms
proof (induction rule: netif_runs.induct)
  case (more s es t e u)
  then have IH: "\<Sum>\<^sub># (mset (map packet_of es)) = owned t" "distinct (map fst (mn_wrappers t))"
    "\<forall>(p, v) \<in> set (mn_input t). pbuf_bytes p v = pkt_data v"
    by (simp_all add: owned_def)
  show ?case using step_conserves [OF more.hyps(2) IH(2)] step_input [OF more.hyps(2) _ IH(3)] more.prems IH(1)
    by (simp add: owned_def)
qed simp

definition example_netif :: mmnetif where
  "example_netif = \<lparr>mn_netif = \<lparr>ni_state = Some \<lparr>ns_vif = MMWLAN_VIF_STA, ns_tx_qos_tid = 0\<rparr>, ni_hwaddr = [],
     ni_hwaddr_len = 6, ni_mtu = 1500, ni_flags = {}, ni_name = ''MM''\<rparr>, mn_wrappers = [], mn_released = [],
     mn_input = [], mn_core_locked = False, mn_posted = [],
     mn_stats = \<lparr>st_recv = 0, st_xmit = 0, st_memerr = 0, st_drop = 0\<rparr>\<rparr>"

definition example_view :: pktview where
  "example_view = \<lparr>pv_pkt = \<lparr>pk_buf = 2, pk_buf_len = 6, pk_start_offset = 1, pk_data_len = 3, pk_metadata = None\<rparr>,
     pv_mem = [0, 0, 0, 7, 8, 9, 0, 0]\<rparr>"

lemma example_view_ok: "view_ok example_view" "pkt_data example_view = [7, 8, 9]"
  by (simp_all add: view_ok_def example_view_def pkt_fits_def pkt_data_def mmbuf_data_def view_buf_def region_def)

theorem netif_rx_ownership_witness:
  "\<exists>s. netif_runs example_netif [Rx_packet example_view MMWLAN_VIF_STA (Some 4) ERR_OK,
      Rx_packet example_view MMWLAN_VIF_AP None ERR_OK, Pbuf_freed 4] s \<and>
    mset (mn_released s) + mset (map snd (mn_wrappers s)) = {#example_view, example_view#} \<and>
    pbuf_bytes (fst (mn_input s ! 0)) (snd (mn_input s ! 0)) = [7, 8, 9]"
proof -
  let ?es = "[Rx_packet example_view MMWLAN_VIF_STA (Some 4) ERR_OK,
      Rx_packet example_view MMWLAN_VIF_AP None ERR_OK, Pbuf_freed 4]"
  obtain s1 where s1: "mmnetif_rx example_view MMWLAN_VIF_STA (Some 4) ERR_OK example_netif = Returns s1"
    "fst ` set (mn_wrappers s1) = {4}" "mn_netif s1 = mn_netif example_netif" "length (mn_input s1) = 1"
    "snd (mn_input s1 ! 0) = example_view"
    by (simp add: mmnetif_rx_def get_netif_state_def example_netif_def stats_inc_def Let_def)
  obtain s2 where s2: "mmnetif_rx example_view MMWLAN_VIF_AP None ERR_OK s1 = Returns s2"
    "mn_wrappers s2 = mn_wrappers s1" "mn_input s2 = mn_input s1"
    using s1(3) by (simp add: mmnetif_rx_def get_netif_state_def example_netif_def mmpkt_release_def)
  let ?s = "mmpkt_pbuf_wrapper_free (Some 4) s2"
  have "netif_step example_netif (?es ! 0) s1" using netif_step.rx [OF _ s1(1)] by (simp add: example_netif_def)
  moreover have "netif_step s1 (?es ! 1) s2" using netif_step.rx [OF _ s2(1)] by simp
  moreover have "netif_step s2 (?es ! 2) ?s" using netif_step.freed [of 4 s2] s2(2) s1(2) by simp
  ultimately have run: "netif_runs example_netif ?es ?s"
    using netif_runs.more [OF netif_runs.more [OF netif_runs.more [OF netif_runs.none]]] by force
  have "mn_wrappers example_netif = []" "mn_released example_netif = []" "mn_input example_netif = []"
    by (simp_all add: example_netif_def)
  from netif_rx_ownership [OF run this] example_view_ok
  have r: "mset (mn_released ?s) + mset (map snd (mn_wrappers ?s)) = {#example_view, example_view#}"
    "\<forall>(p, v) \<in> set (mn_input ?s). pbuf_bytes p v = pkt_data v" by simp_all
  have i: "mn_input ?s = mn_input s1" using s2(3) by (simp add: wrapper_free_input)
  then have "mn_input s1 ! 0 \<in> set (mn_input ?s)" using s1(4) nth_mem [of 0 "mn_input s1"] by simp
  with r(2) s1(5) example_view_ok i
  have "pbuf_bytes (fst (mn_input ?s ! 0)) (snd (mn_input ?s ! 0)) = [7, 8, 9]"
    by (metis (mono_tags, lifting) case_prod_beta)
  with run r(1) show ?thesis by blast
qed

section \<open>Transmission\<close>

lemma append_data_put:
  assumes "unat len \<le> length d"
  shows "mmpkt_append_data v d len = pkt_put v (take (unat len) d)"
proof -
  have "length (take (unat len) d) = unat len" using assms by simp
  moreover have "unat len < 2 ^ 32" by (rule unat_u32)
  moreover have "(of_nat (unat len) :: u32) = len" by simp
  ultimately show ?thesis
    using assms by (auto simp: pkt_put_def mmpkt_append_data_def view_memcpy_def split: option.splits)
qed

definition pbuf_ok :: "pbuf \<Rightarrow> bool" where
  "pbuf_ok b \<longleftrightarrow> unat (pb_len b) \<le> length (pb_payload b)"

definition pbuf_data :: "pbuf \<Rightarrow> u8 list" where
  "pbuf_data b = take (unat (pb_len b)) (pb_payload b)"

lemma unat_ucast_16_32: "unat (ucast (x :: u16) :: u32) = unat x"
proof -
  have "unat x < 2 ^ LENGTH(16)" by (rule unsigned_less)
  then show ?thesis by (simp add: unsigned_ucast_eq take_bit_eq_mod)
qed

lemma tx_copy_put_all:
  "\<forall>b \<in> set p. pbuf_ok b \<Longrightarrow> tx_copy v p = pkt.put_all v (map pbuf_data p)"
proof (induction p arbitrary: v)
  case (Cons b p)
  then have "mmpkt_append_data v (pb_payload b) (ucast (pb_len b)) = pkt_put v (pbuf_data b)"
    using append_data_put [of "ucast (pb_len b)" "pb_payload b" v]
    by (simp add: pbuf_ok_def pbuf_data_def unat_ucast_16_32)
  then show ?case using Cons by (simp split: option.splits)
qed simp

text \<open>C28: A transmitted frame is the pbuf chain: with the driver's documented allocation, a chain whose
  pbufs hold their lengths and whose total length is their sum never fails an assertion; a packet
  given to the driver holds exactly the bytes of the chain in order, with the interface's TID and
  virtual interface; \<open>ERR_OK\<close> and one more transmitted frame are reported exactly when the driver took
  it, and otherwise exactly one error counter moves.\<close>

theorem netif_tx_sends_chain:
  assumes "wlan_tx_ok W" "ni_state (mn_netif s) = Some st" "\<forall>b \<in> set p. pbuf_ok b"
    and "unat tot_len = sum_list (map (\<lambda>b. unat (pb_len b)) p)"
  shows "\<exists>err sent s'. mmnetif_tx W p tot_len s = Some (err, sent, s') \<and>
    (case sent of None \<Rightarrow> err \<noteq> ERR_OK
     | Some (v, md) \<Rightarrow> pkt_data v = concat (map pbuf_data p) \<and>
         md = \<lparr>tm_tid = ns_tx_qos_tid st, tm_vif = ns_vif st\<rparr> \<and>
         (err = ERR_OK \<longleftrightarrow> mmwlan_tx_pkt W v md = MMWLAN_SUCCESS)) \<and>
    st_xmit (mn_stats s') = st_xmit (mn_stats s) + (if err = ERR_OK then 1 else 0) \<and>
    st_drop (mn_stats s') + st_memerr (mn_stats s') =
      st_drop (mn_stats s) + st_memerr (mn_stats s) + (if err = ERR_OK then 0 else 1)"
proof -
  have "map length (map pbuf_data p) = map (\<lambda>b. unat (pb_len b)) p"
    using assms(3) by (simp add: pbuf_ok_def pbuf_data_def)
  then have len: "sum_list (map length (map pbuf_data p)) = unat tot_len" using assms(4) by metis
  have copy: "\<exists>v'. tx_copy v p = Some v' \<and> pkt_data v' = concat (map pbuf_data p)"
    if "mmwlan_alloc_mmpkt_for_tx W (ucast tot_len) tid = Some v" for v tid
  proof -
    have v: "pkt_inv (view_frame v) v" "pkt_data v = []" "unat tot_len \<le> pkt_tailroom v"
      using assms(1) that unat_ucast_16_32 [of tot_len] by (fastforce simp: wlan_tx_ok_def pkt_inv_def)+
    then show ?thesis
      using pkt.put_all_law [OF v(1), of "map pbuf_data p"] len tx_copy_put_all [OF assms(3)] by auto
  qed
  let ?alloc = "mmwlan_alloc_mmpkt_for_tx W (ucast tot_len) (ns_tx_qos_tid st)"
  show ?thesis
  proof (cases "mmwlan_tx_wait_until_ready W 1000 = MMWLAN_SUCCESS \<and> ?alloc \<noteq> None")
    case True
    then obtain v where v: "?alloc = Some v" by blast
    from copy [OF v] obtain v' where v': "tx_copy v p = Some v'" "pkt_data v' = concat (map pbuf_data p)" by blast
    show ?thesis using assms(2) True v v'
      by (cases "mmwlan_tx_pkt W v' \<lparr>tm_tid = ns_tx_qos_tid st, tm_vif = ns_vif st\<rparr> = MMWLAN_SUCCESS")
        (simp_all add: mmnetif_tx_def get_netif_state_def stats_inc_def Let_def)
  next
    case False
    then show ?thesis using assms(2)
      by (auto simp: mmnetif_tx_def get_netif_state_def stats_inc_def Let_def)
  qed
qed

definition example_wlan_tx :: wlan_tx where
  "example_wlan_tx = \<lparr>mmwlan_tx_wait_until_ready = \<lambda>_. MMWLAN_SUCCESS,
     mmwlan_alloc_mmpkt_for_tx = \<lambda>len tid. if len \<le> 64
       then Some (mmpkt_open (replicate 64 0) (mmpkt_init 0 64 0)) else None,
     mmwlan_tx_pkt = \<lambda>_ _. MMWLAN_SUCCESS\<rparr>"

lemma example_wlan_tx_ok: "wlan_tx_ok example_wlan_tx"
  by (auto simp: wlan_tx_ok_def example_wlan_tx_def view_ok_def pkt_fits_def mmpkt_open_def mmpkt_init_def pkt_data_def
      mmbuf_data_def view_buf_def region_def pkt_tailroom_def mmpkt_available_space_at_end_def word_le_nat_alt
      split: if_splits)

theorem netif_tx_sends_chain_witness:
  "\<exists>v md s'. mmnetif_tx example_wlan_tx [\<lparr>pb_payload = [1, 2], pb_len = 2\<rparr>, \<lparr>pb_payload = [3, 4], pb_len = 1\<rparr>] 3
      example_netif = Some (ERR_OK, Some (v, md), s') \<and> pkt_data v = [1, 2, 3]"
proof -
  let ?p = "[\<lparr>pb_payload = [1, 2], pb_len = 2\<rparr>, \<lparr>pb_payload = [3, 4], pb_len = 1\<rparr>]"
  let ?st = "\<lparr>ns_vif = MMWLAN_VIF_STA, ns_tx_qos_tid = 0\<rparr>"
  have st: "ni_state (mn_netif example_netif) = Some ?st" by (simp add: example_netif_def)
  have p: "\<forall>b \<in> set ?p. pbuf_ok b" "unat (3 :: u16) = sum_list (map (\<lambda>b. unat (pb_len b)) ?p)"
    "concat (map pbuf_data ?p) = [1, 2, 3]" by (simp_all add: pbuf_ok_def pbuf_data_def)
  obtain err sent s' where r: "mmnetif_tx example_wlan_tx ?p 3 example_netif = Some (err, sent, s')"
    "case sent of None \<Rightarrow> err \<noteq> ERR_OK
     | Some (v, md) \<Rightarrow> pkt_data v = concat (map pbuf_data ?p) \<and>
         (err = ERR_OK \<longleftrightarrow> mmwlan_tx_pkt example_wlan_tx v md = MMWLAN_SUCCESS)"
    using netif_tx_sends_chain [OF example_wlan_tx_ok st p(1,2)] by (auto split: option.splits)
  have "sent \<noteq> None"
    using r(1) by (auto simp: mmnetif_tx_def get_netif_state_def st example_wlan_tx_def Let_def
        simp del: tx_copy.simps split: option.splits)
  then show ?thesis using r p(3) by (auto simp: example_wlan_tx_def)
qed

text \<open>The transmit function of the driver interface sends exactly the given bytes at the given TID.\<close>

lemma tx_tid_sends:
  assumes "wlan_tx_ok W" "unat len \<le> length data"
  shows "\<exists>status sent. mmwlan_tx_tid W data len tid = Some (status, sent) \<and>
    (case sent of None \<Rightarrow> status \<noteq> MMWLAN_SUCCESS
     | Some (v, md) \<Rightarrow> pkt_data v = take (unat len) data \<and> tm_tid md = tid \<and> status = mmwlan_tx_pkt W v md)"
proof -
  have "\<exists>v'. mmpkt_append_data v data len = Some v' \<and> pkt_data v' = take (unat len) data"
    if "mmwlan_alloc_mmpkt_for_tx W len tid = Some v" for v
  proof -
    have "pkt_inv (view_frame v) v" "pkt_data v = []" "unat len \<le> pkt_tailroom v"
      using assms(1) that by (simp_all add: wlan_tx_ok_def pkt_inv_def)
    then show ?thesis
      using pkt.put_law [of "view_frame v" v "take (unat len) data"] append_data_put [OF assms(2), of v] assms(2) by auto
  qed
  then show ?thesis
    by (cases "mmwlan_alloc_mmpkt_for_tx W len tid") (auto simp: mmwlan_tx_tid_def Let_def)
qed

section \<open>Changes of the link\<close>

lemma locked_blocks:
  "ni_state (mn_netif s) = Some st \<Longrightarrow> mn_core_locked s \<Longrightarrow> mmnetif_vif_state vif link mac err s = Blocks"
  by (simp add: mmnetif_vif_state_def get_netif_state_def)

lemma rx_lock:
  "mmnetif_rx v vif block ret s = Returns s' \<Longrightarrow>
     mn_core_locked s' = mn_core_locked s \<and> mn_netif s' = mn_netif s"
  by (auto simp: mmnetif_rx_def Let_def get_netif_state_def stats_inc_def mmpkt_release_def
      mmpkt_pbuf_wrapper_free_def split: option.splits if_splits)

lemma locked_stays:
  assumes "netif_step s e s'" "mn_core_locked s" "ni_state (mn_netif s) \<noteq> None"
  shows "mn_core_locked s' \<and> ni_state (mn_netif s') \<noteq> None \<and> \<not> (\<exists>vif link mac err. e = Vif_event vif link mac err)"
  using assms
proof cases
  case (rx block v vif ret)
  then show ?thesis using rx_lock [OF rx(3)] assms by simp
next
  case (vif v link mac err)
  then show ?thesis using locked_blocks assms by fastforce
qed (auto simp: mmpkt_pbuf_wrapper_free_def mmpkt_release_def split: option.splits)

lemma locked_run:
  assumes "netif_runs s es t" "mn_core_locked s" "ni_state (mn_netif s) \<noteq> None"
  shows "mn_core_locked t \<and> ni_state (mn_netif t) \<noteq> None \<and>
    (\<forall>vif link mac err. Vif_event vif link mac err \<notin> set es)"
  using assms
proof (induction rule: netif_runs.induct)
  case (more s es t e u)
  then show ?case using locked_stays [of t e u] by auto
qed simp

text \<open>When \<open>mmnetif_vif_state\<close> returns, the TCP/IP core is unlocked except in one case: a link-down
  event of a virtual interface other than the one in use returns with the lock taken, and from then
  on every state event, whatever it reports, blocks, and no sequence of receptions, frees and posted
  calls gets past one.\<close>

theorem netif_lock_leak:
  assumes "ni_state (mn_netif s) = Some st" "\<not> mn_core_locked s"
    and "mmnetif_vif_state vif link mac err s = Returns s'"
  shows "(mn_core_locked s' \<longleftrightarrow> link = MMWLAN_LINK_DOWN \<and> ns_vif st \<noteq> vif) \<and>
    (mn_core_locked s' \<longrightarrow>
       (\<forall>vif' link' mac' err'. mmnetif_vif_state vif' link' mac' err' s' = Blocks) \<and>
       (\<forall>es t. netif_runs s' es t \<longrightarrow> (\<forall>vif' link' mac' err'. Vif_event vif' link' mac' err' \<notin> set es)))"
proof -
  have l: "mn_core_locked s' \<longleftrightarrow> link = MMWLAN_LINK_DOWN \<and> ns_vif st \<noteq> vif"
    using assms by (auto simp: mmnetif_vif_state_def get_netif_state_def Let_def split: if_splits)
  have n: "\<exists>st'. ni_state (mn_netif s') = Some st'"
    using assms by (auto simp: mmnetif_vif_state_def get_netif_state_def Let_def split: if_splits)
  show ?thesis using l n locked_blocks locked_run by (metis option.distinct(1))
qed

theorem netif_lock_leak_witness:
  "\<exists>s'. mmnetif_vif_state MMWLAN_VIF_AP MMWLAN_LINK_DOWN [] ERR_OK example_netif = Returns s' \<and>
    mmnetif_vif_state MMWLAN_VIF_STA MMWLAN_LINK_UP [] ERR_OK s' = Blocks"
proof -
  let ?s = "example_netif\<lparr>mn_core_locked := True\<rparr>"
  have r: "mmnetif_vif_state MMWLAN_VIF_AP MMWLAN_LINK_DOWN [] ERR_OK example_netif = Returns ?s"
    by (simp add: mmnetif_vif_state_def get_netif_state_def example_netif_def)
  have n: "ni_state (mn_netif example_netif) = Some \<lparr>ns_vif = MMWLAN_VIF_STA, ns_tx_qos_tid = 0\<rparr>"
    "\<not> mn_core_locked example_netif"
    by (simp_all add: example_netif_def)
  from netif_lock_leak [OF n r] r show ?thesis by simp
qed

section \<open>Start\<close>

text \<open>
  After initialisation the interface is on no virtual interface: every packet is released, until the
  first link-up event chooses one and takes its address.
\<close>

lemma init_drops_until_link_up:
  assumes "mmnetif_init env ip6 False netif = Some (err, ini, netif')" "mn_netif s = netif'"
  shows "err = ERR_OK \<and> ini \<and> ni_mtu netif' = 1500 \<and>
    (vif \<noteq> MMWLAN_VIF_UNSPECIFIED \<longrightarrow> mmnetif_rx v vif block ret s = Returns (mmpkt_release v s))"
proof -
  have "err = ERR_OK" "ini" "ni_mtu netif' = 1500"
    "ni_state netif' = Some \<lparr>ns_vif = MMWLAN_VIF_UNSPECIFIED, ns_tx_qos_tid = MMWLAN_TX_DEFAULT_QOS_TID\<rparr>"
    using assms(1) by (auto simp: mmnetif_init_def Let_def split: if_splits)
  then show ?thesis using assms(2) by (simp add: mmnetif_rx_def get_netif_state_def)
qed

lemma init_once: "mmnetif_init env ip6 True netif = Some (ERR_IF, True, netif)"
  by (simp add: mmnetif_init_def)

lemma first_link_up:
  assumes "ni_state (mn_netif s) = Some st" "\<not> mn_core_locked s" "NETIF_FLAG_LINK_UP \<notin> ni_flags (mn_netif s)"
  shows "\<exists>s'. mmnetif_vif_state vif MMWLAN_LINK_UP mac ERR_OK s = Returns s' \<and> \<not> mn_core_locked s' \<and>
    map_option ns_vif (ni_state (mn_netif s')) = Some vif \<and> ni_hwaddr (mn_netif s') = mac \<and>
    mn_posted s' = mn_posted s @ [True]"
  using assms by (simp add: mmnetif_vif_state_def get_netif_state_def Let_def)

lemma set_tx_qos_tid_used:
  assumes "mmnetif_set_tx_qos_tid tid (mn_netif s) = Some n" "mmnetif_tx W p tot_len (s\<lparr>mn_netif := n\<rparr>) = Some (err, Some (v, md), s')"
  shows "tm_tid md = tid \<and> unat tid \<le> 7"
  using assms by (auto simp: mmnetif_set_tx_qos_tid_def mmnetif_tx_def get_netif_state_def Let_def word_le_nat_alt
      MMWLAN_MAX_QOS_TID_def split: if_splits option.splits)

end
