(* ===== verification/Mmipal.thy ===== *)
theory Mmipal
  imports Load_Config Netif
begin

text \<open>
  The IP stack abstraction on lwIP, \<^verbatim>\<open>framework/src/mmipal/lwip/mmipal_lwip.c\<close>, in a build with IPv4 and
  IPv6: starting the stack, address configuration, DHCP leases, static ARP entries, DNS servers, and
  the link status callback. lwIP is outside the sources: the record \<open>lwip\<close> holds its configuration
  and the functions whose result the code uses, and the calls that only start something in lwIP or in
  the driver are recorded in order in \<open>md_calls\<close>. A failed assertion or an access outside an array is
  \<open>None\<close>. The sections under the TCP/IP core lock are taken and released on every path of this file
  and run as a whole.
\<close>

section \<open>Addresses and the stack\<close>

text \<open>\<open>ip_addr_t\<close>: a union of an IPv4 and an IPv6 address, and which of them it is.\<close>

record ip_addr_t =
  ip_u :: "128 word"
  ip_v6 :: bool

definition ip_2_ip4 :: "ip_addr_t \<Rightarrow> u32" where "ip_2_ip4 a = ucast (ip_u a)"

definition ip_2_ip6 :: "ip_addr_t \<Rightarrow> 128 word" where "ip_2_ip6 a = ip_u a"

definition ip4 :: "u32 \<Rightarrow> ip_addr_t" where "ip4 a = \<lparr>ip_u = ucast a, ip_v6 = False\<rparr>"

definition ip_addr_any :: ip_addr_t where "ip_addr_any = ip4 0"

definition ip_addr_isany :: "ip_addr_t \<Rightarrow> bool" where
  "ip_addr_isany a \<longleftrightarrow> (if ip_v6 a then ip_2_ip6 a = 0 else ip_2_ip4 a = 0)"

record lwip =
  LWIP_DHCP :: bool
  LWIP_IPV6_AUTOCONFIG :: bool
  LWIP_IPV6_DHCP6 :: bool
  LWIP_IPV6_DHCP6_STATELESS :: bool
  LWIP_IPV6_NUM_ADDRESSES :: nat
  ETHARP_SUPPORT_STATIC_ENTRIES :: bool
  DNS_MAX_SERVERS :: nat
  ipaddr_aton :: "string \<Rightarrow> ip_addr_t option"
  ipaddr_ntoa_r :: "ip_addr_t \<Rightarrow> nat \<Rightarrow> string option"
  dhcp_start_ok :: bool
  dhcp6_enable_stateless_ok :: bool
  etharp_add_static_entry :: "u32 \<Rightarrow> u8 list \<Rightarrow> int"
  etharp_remove_static_entry :: "u32 \<Rightarrow> int"
  ip6_select_source_address :: "ip_addr_t \<Rightarrow> ip_addr_t option"
  lw_ERR_ARG :: int
  lw_ERR_RTE :: int
  lw_ERR_MEM :: int
  sta_connected :: bool
  enable_dhcp_offload_ok :: bool

datatype ip6_addr_state = IP6_ADDR_INVALID | IP6_ADDR_TENTATIVE | IP6_ADDR_VALID

record ip6_slot =
  sl_addr :: "128 word"
  sl_state :: ip6_addr_state
  sl_static_life :: bool

datatype mmipal_status = MMIPAL_SUCCESS | MMIPAL_INVALID_ARGUMENT | MMIPAL_NO_LINK | MMIPAL_NO_MEM
  | MMIPAL_NOT_SUPPORTED

datatype mmipal_link_state = MMIPAL_LINK_DOWN | MMIPAL_LINK_UP

record mmipal_link_status =
  ls_link_state :: mmipal_link_state
  ls_ip_addr :: string
  ls_netmask :: string
  ls_gateway :: string

datatype ipal_call = Link_status_callback mmipal_link_status | Ext_link_status_callback mmipal_link_status
  | Enable_arp_response_offload u32 | Enable_arp_refresh_offload u32 u32 | Enable_dhcp_offload
  | Dhcp_start | Dhcp_stop | Dhcp6_enable_stateless | Dhcp6_disable | Create_ip6_linklocal

record mmipal_data =
  md_netif :: netif
  md_ip_addr :: u32
  md_netmask :: u32
  md_gw :: u32
  md_ip6 :: "ip6_slot list"
  md_ip6_autoconfig :: bool
  md_dns :: "nat \<Rightarrow> ip_addr_t"
  md_ip_link_state :: mmipal_link_state
  md_offload_arp_response :: bool
  md_offload_arp_refresh_s :: u32
  md_dhcp_offload_init_complete :: bool
  md_link_status_callback :: bool
  md_ext_link_status_callback :: bool
  md_ip4_mode :: mmipal_addr_mode
  md_ip6_mode :: mmipal_ip6_addr_mode
  md_tcpip_init_done :: bool
  md_calls :: "ipal_call list"

definition call :: "ipal_call \<Rightarrow> mmipal_data \<Rightarrow> mmipal_data" where
  "call c d = d\<lparr>md_calls := md_calls d @ [c]\<rparr>"

definition netif_set_addr :: "u32 \<Rightarrow> u32 \<Rightarrow> u32 \<Rightarrow> mmipal_data \<Rightarrow> mmipal_data" where
  "netif_set_addr ip netmask gw d = d\<lparr>md_ip_addr := ip, md_netmask := netmask, md_gw := gw\<rparr>"

definition mmipal_err_to_status :: "lwip \<Rightarrow> int \<Rightarrow> mmipal_status" where
  "mmipal_err_to_status L result =
     (if result = 0 then MMIPAL_SUCCESS
      else if result = lw_ERR_ARG L then MMIPAL_INVALID_ARGUMENT
      else if result = lw_ERR_RTE L then MMIPAL_NO_LINK
      else if result = lw_ERR_MEM L then MMIPAL_NO_MEM
      else MMIPAL_NOT_SUPPORTED)"

section \<open>Link status\<close>

definition mmipal_link_status_check :: "mmipal_data \<Rightarrow> bool" where
  "mmipal_link_status_check d \<longleftrightarrow> md_ip_addr d \<noteq> 0 \<and> NETIF_FLAG_LINK_UP \<in> ni_flags (md_netif d)"

definition ip4_text :: "lwip \<Rightarrow> u32 \<Rightarrow> string option" where
  "ip4_text L a = ipaddr_ntoa_r L (ip4 a) MMIPAL_IPADDR_STR_MAXLEN"

text \<open>What is done when the state changed and a callback is registered.\<close>

definition report_link_status :: "lwip \<Rightarrow> mmipal_data \<Rightarrow> mmipal_data option" where
  "report_link_status L d = do {
     ip \<leftarrow> ip4_text L (md_ip_addr d);
     netmask \<leftarrow> ip4_text L (md_netmask d);
     gw \<leftarrow> ip4_text L (md_gw d);
     let link_status = \<lparr>ls_link_state = md_ip_link_state d, ls_ip_addr = ip, ls_netmask = netmask, ls_gateway = gw\<rparr>;
     let d = (if md_ip_link_state d = MMIPAL_LINK_UP \<and> md_offload_arp_response d
              then call (Enable_arp_response_offload (md_ip_addr d)) d else d);
     let d = (if md_ip_link_state d = MMIPAL_LINK_UP \<and> md_offload_arp_refresh_s d > 0
              then call (Enable_arp_refresh_offload (md_offload_arp_refresh_s d) (md_gw d)) d else d);
     let d = (if md_link_status_callback d then call (Link_status_callback link_status) d else d);
     Some (if md_ext_link_status_callback d then call (Ext_link_status_callback link_status) d else d)}"

definition netif_status_callback :: "lwip \<Rightarrow> mmipal_data \<Rightarrow> mmipal_data option" where
  "netif_status_callback L d =
     (let d = (if md_ip4_mode d = MMIPAL_DHCP_OFFLOAD \<and> \<not> md_dhcp_offload_init_complete d \<and> sta_connected L
               then call Enable_dhcp_offload d else d);
          new_link_state = (if mmipal_link_status_check d then MMIPAL_LINK_UP else MMIPAL_LINK_DOWN) in
      if md_ip_link_state d \<noteq> new_link_state
      then let d = d\<lparr>md_ip_link_state := new_link_state\<rparr> in
        map_option (\<lambda>d. if md_ip_link_state d = MMIPAL_LINK_DOWN
                         then d\<lparr>md_dhcp_offload_init_complete := False\<rparr> else d)
          (if md_link_status_callback d \<or> md_ext_link_status_callback d then report_link_status L d else Some d)
      else Some d)"

definition mmipal_set_link_status_callback :: "bool \<Rightarrow> mmipal_data \<Rightarrow> mmipal_data" where
  "mmipal_set_link_status_callback fn d = d\<lparr>md_link_status_callback := fn\<rparr>"

definition mmipal_set_ext_link_status_callback :: "bool \<Rightarrow> mmipal_data \<Rightarrow> mmipal_data" where
  "mmipal_set_ext_link_status_callback fn d = d\<lparr>md_ext_link_status_callback := fn\<rparr>"

definition mmipal_get_link_state :: "mmipal_data \<Rightarrow> mmipal_link_state" where
  "mmipal_get_link_state d = md_ip_link_state d"

record dhcp_lease_info =
  li_ip4_addr :: u32
  li_mask4_addr :: u32
  li_gw4_addr :: u32
  li_dns4_addr :: u32

definition mmipal_dhcp_lease_updated :: "lwip \<Rightarrow> dhcp_lease_info \<Rightarrow> mmipal_data \<Rightarrow> mmipal_data option" where
  "mmipal_dhcp_lease_updated L lease d =
     (let d = d\<lparr>md_dhcp_offload_init_complete := True\<rparr>;
          d = netif_set_addr (li_ip4_addr lease) (li_mask4_addr lease) (li_gw4_addr lease) d;
          d = d\<lparr>md_dns := (md_dns d)(0 := ip4 (li_dns4_addr lease))\<rparr>
      in netif_status_callback L d)"

section \<open>IPv4 configuration\<close>

record mmipal_ip_config =
  ic_mode :: mmipal_addr_mode
  ic_ip_addr :: string
  ic_netmask :: string
  ic_gateway_addr :: string

definition mmipal_get_ip_config :: "lwip \<Rightarrow> mmipal_data \<Rightarrow> mmipal_ip_config option" where
  "mmipal_get_ip_config L d = do {
     ip \<leftarrow> ip4_text L (md_ip_addr d);
     netmask \<leftarrow> ip4_text L (md_netmask d);
     gw \<leftarrow> ip4_text L (md_gw d);
     Some \<lparr>ic_mode = md_ip4_mode d, ic_ip_addr = ip, ic_netmask = netmask, ic_gateway_addr = gw\<rparr>}"

text \<open>The part of \<open>mmipal_set_ip_config\<close> under the core lock.\<close>

definition apply_ip_config ::
  "lwip \<Rightarrow> mmipal_addr_mode \<Rightarrow> ip_addr_t \<Rightarrow> ip_addr_t \<Rightarrow> ip_addr_t \<Rightarrow> mmipal_data \<Rightarrow> (mmipal_status \<times> mmipal_data) option" where
  "apply_ip_config L mode ip netmask gw d =
     (let d = (if mode \<noteq> MMIPAL_DHCP \<and> md_ip4_mode d = MMIPAL_DHCP then call Dhcp_stop d else d);
          d = netif_set_addr (ip_2_ip4 ip) (ip_2_ip4 netmask) (ip_2_ip4 gw) (d\<lparr>md_ip4_mode := mode\<rparr>) in
      if mode = MMIPAL_DHCP
      then if dhcp_start_ok L then Some (MMIPAL_SUCCESS, call Dhcp_start d) else None
      else Some (MMIPAL_SUCCESS, d))"

definition mmipal_set_ip_config :: "lwip \<Rightarrow> mmipal_ip_config \<Rightarrow> mmipal_data \<Rightarrow> (mmipal_status \<times> mmipal_data) option" where
  "mmipal_set_ip_config L config d =
     (if ic_mode config \<noteq> MMIPAL_DHCP_OFFLOAD \<and> md_ip4_mode d = MMIPAL_DHCP_OFFLOAD
      then Some (MMIPAL_NOT_SUPPORTED, d)
      else case ic_mode config of
        MMIPAL_DISABLED \<Rightarrow> Some (MMIPAL_INVALID_ARGUMENT, d)
      | MMIPAL_AUTOIP \<Rightarrow> Some (MMIPAL_INVALID_ARGUMENT, d)
      | MMIPAL_DHCP_OFFLOAD \<Rightarrow> Some (MMIPAL_INVALID_ARGUMENT, d)
      | MMIPAL_STATIC \<Rightarrow>
          (case (ipaddr_aton L (ic_ip_addr config), ipaddr_aton L (ic_netmask config),
                 ipaddr_aton L (ic_gateway_addr config)) of
             (Some ip, Some netmask, Some gw) \<Rightarrow> apply_ip_config L MMIPAL_STATIC ip netmask gw d
           | _ \<Rightarrow> Some (MMIPAL_INVALID_ARGUMENT, d))
      | MMIPAL_DHCP \<Rightarrow> apply_ip_config L MMIPAL_DHCP ip_addr_any ip_addr_any ip_addr_any d)"

definition mmipal_add_static_arp_entry :: "lwip \<Rightarrow> string \<Rightarrow> u8 list \<Rightarrow> mmipal_status" where
  "mmipal_add_static_arp_entry L ip_addr mac_addr =
     (if ETHARP_SUPPORT_STATIC_ENTRIES L
      then case ipaddr_aton L ip_addr of
          None \<Rightarrow> MMIPAL_INVALID_ARGUMENT
        | Some a \<Rightarrow> mmipal_err_to_status L (etharp_add_static_entry L (ip_2_ip4 a) mac_addr)
      else MMIPAL_NOT_SUPPORTED)"

definition mmipal_remove_static_arp_entry :: "lwip \<Rightarrow> string \<Rightarrow> mmipal_status" where
  "mmipal_remove_static_arp_entry L ip_addr =
     (if ETHARP_SUPPORT_STATIC_ENTRIES L
      then case ipaddr_aton L ip_addr of
          None \<Rightarrow> MMIPAL_INVALID_ARGUMENT
        | Some a \<Rightarrow> mmipal_err_to_status L (etharp_remove_static_entry L (ip_2_ip4 a))
      else MMIPAL_NOT_SUPPORTED)"

definition broadcast_u32 :: "u32 \<Rightarrow> u32 \<Rightarrow> u32" where
  "broadcast_u32 ip_addr netmask = (ip_addr AND netmask) OR (0xffffffff AND NOT netmask)"

definition mmipal_get_ip_broadcast_addr :: "lwip \<Rightarrow> mmipal_data \<Rightarrow> string option" where
  "mmipal_get_ip_broadcast_addr L d = ip4_text L (broadcast_u32 (md_ip_addr d) (md_netmask d))"

section \<open>IPv6 configuration\<close>

record mmipal_ip6_config =
  ic6_mode :: mmipal_ip6_addr_mode
  ic6_addr :: "string list"

definition MMIPAL_MAX_IPV6_ADDRESSES :: nat where "MMIPAL_MAX_IPV6_ADDRESSES = 3"

definition ip6_addr_text :: "lwip \<Rightarrow> mmipal_data \<Rightarrow> nat \<Rightarrow> string option" where
  "ip6_addr_text L d ii = do {
     slot \<leftarrow> load (md_ip6 d) ii;
     ipaddr_ntoa_r L \<lparr>ip_u = (if sl_state slot = IP6_ADDR_VALID then sl_addr slot else 0), ip_v6 = True\<rparr>
       MMIPAL_IPADDR_STR_MAXLEN}"

fun get_ip6_loop :: "lwip \<Rightarrow> mmipal_data \<Rightarrow> nat list \<Rightarrow> string list \<Rightarrow> string list option" where
  "get_ip6_loop L d [] texts = Some texts"
| "get_ip6_loop L d (ii # rest) texts =
     (case ip6_addr_text L d ii of None \<Rightarrow> None
      | Some t \<Rightarrow> (case store texts ii t of None \<Rightarrow> None | Some texts \<Rightarrow> get_ip6_loop L d rest texts))"

text \<open>\<open>None\<close> in the first component of the result is the null configuration pointer.\<close>

definition mmipal_get_ip6_config ::
  "lwip \<Rightarrow> mmipal_data \<Rightarrow> mmipal_ip6_config option \<Rightarrow> (mmipal_status \<times> mmipal_ip6_config option) option" where
  "mmipal_get_ip6_config L d config =
     (case config of None \<Rightarrow> Some (MMIPAL_INVALID_ARGUMENT, None)
      | Some config \<Rightarrow>
        map_option (\<lambda>texts. (MMIPAL_SUCCESS, Some \<lparr>ic6_mode = md_ip6_mode d, ic6_addr = texts\<rparr>))
          (get_ip6_loop L d [0..<LWIP_IPV6_NUM_ADDRESSES L] (ic6_addr config)))"

text \<open>Parsing the addresses of the configuration: \<open>None\<close> outside the array, \<open>Some None\<close> for an invalid one.\<close>

fun parse_ip6_loop :: "lwip \<Rightarrow> string list \<Rightarrow> nat list \<Rightarrow> ip_addr_t list option option" where
  "parse_ip6_loop L texts [] = Some (Some [])"
| "parse_ip6_loop L texts (ii # rest) =
     (case load texts ii of None \<Rightarrow> None
      | Some t \<Rightarrow> (case ipaddr_aton L t of None \<Rightarrow> Some None
         | Some a \<Rightarrow> map_option (map_option ((#) a)) (parse_ip6_loop L texts rest)))"

definition static_ip6_slot :: "ip_addr_t \<Rightarrow> ip6_slot \<Rightarrow> ip6_slot" where
  "static_ip6_slot a slot =
     (if ip_addr_isany a then slot\<lparr>sl_addr := 0, sl_state := IP6_ADDR_INVALID\<rparr>
      else slot\<lparr>sl_addr := ip_2_ip6 a, sl_state := IP6_ADDR_TENTATIVE, sl_static_life := True\<rparr>)"

definition set_ip6_static :: "lwip \<Rightarrow> ip_addr_t list \<Rightarrow> mmipal_data \<Rightarrow> mmipal_data" where
  "set_ip6_static L addrs d =
     (let d = (if md_ip6_mode d \<noteq> MMIPAL_IP6_STATIC
               then (if LWIP_IPV6_DHCP6 L then call Dhcp6_disable d else d)
                  \<lparr>md_ip6_autoconfig := False, md_ip6_mode := MMIPAL_IP6_STATIC\<rparr>
               else d)
      in d\<lparr>md_ip6 := map2 static_ip6_slot addrs (md_ip6 d)\<rparr>)"

definition set_ip6_auto :: "mmipal_data \<Rightarrow> mmipal_data" where
  "set_ip6_auto d =
     (let d = (if md_ip6_mode d = MMIPAL_IP6_STATIC
               then d\<lparr>md_ip6 := map (\<lambda>slot. slot\<lparr>sl_addr := 0, sl_state := IP6_ADDR_INVALID\<rparr>) (md_ip6 d)\<rparr>
               else d)
      in call Create_ip6_linklocal (d\<lparr>md_ip6_autoconfig := True\<rparr>)\<lparr>md_ip6_mode := MMIPAL_IP6_AUTOCONFIG\<rparr>)"

definition mmipal_set_ip6_config ::
  "lwip \<Rightarrow> mmipal_ip6_config \<Rightarrow> mmipal_data \<Rightarrow> (mmipal_status \<times> mmipal_data) option" where
  "mmipal_set_ip6_config L config d =
     (case parse_ip6_loop L (ic6_addr config) [0..<LWIP_IPV6_NUM_ADDRESSES L] of
        None \<Rightarrow> None
      | Some None \<Rightarrow> Some (MMIPAL_INVALID_ARGUMENT, d)
      | Some (Some addrs) \<Rightarrow>
         (let d = (if ic6_mode config = MMIPAL_IP6_STATIC then set_ip6_static L addrs d else set_ip6_auto d) in
          if ic6_mode config = MMIPAL_IP6_DHCP6_STATELESS
          then if LWIP_IPV6_DHCP6 L
               then if dhcp6_enable_stateless_ok L
                    then Some (MMIPAL_SUCCESS, (call Dhcp6_enable_stateless d)\<lparr>md_ip6_mode := MMIPAL_IP6_DHCP6_STATELESS\<rparr>)
                    else None
               else Some (MMIPAL_SUCCESS, d)
          else Some (MMIPAL_SUCCESS, if LWIP_IPV6_DHCP6 L then call Dhcp6_disable d else d)))"

section \<open>Start\<close>

record lwip_init_args =
  la_mode :: mmipal_addr_mode
  la_ip6_mode :: mmipal_ip6_addr_mode
  la_ip_addr :: ip_addr_t
  la_netmask :: ip_addr_t
  la_gateway_addr :: ip_addr_t
  la_ip6_addr :: ip_addr_t

definition tcpip_init_done_handler ::
  "lwip \<Rightarrow> netif_env \<Rightarrow> bool \<Rightarrow> lwip_init_args \<Rightarrow> mmipal_data \<Rightarrow> mmipal_data option" where
  "tcpip_init_done_handler L env initialised args d = do {
     (err, initialised, netif) \<leftarrow> mmnetif_init env True initialised (md_netif d);
     let d = d\<lparr>md_netif := netif, md_ip4_mode := la_mode args\<rparr>;
     d \<leftarrow> (if la_mode args = MMIPAL_DHCP then if dhcp_start_ok L then Some (call Dhcp_start d) else None
           else if la_mode args = MMIPAL_STATIC
           then Some (netif_set_addr (ip_2_ip4 (la_ip_addr args)) (ip_2_ip4 (la_netmask args))
                       (ip_2_ip4 (la_gateway_addr args)) d)
           else Some d);
     let d = d\<lparr>md_ip6_mode := la_ip6_mode args\<rparr>;
     d \<leftarrow> (if la_ip6_mode args = MMIPAL_IP6_STATIC
           then map_option (\<lambda>slots. d\<lparr>md_ip6 := slots\<rparr>)
             (case load (md_ip6 d) 0 of None \<Rightarrow> None
              | Some slot \<Rightarrow> store (md_ip6 d) 0 (slot\<lparr>sl_addr := ip_2_ip6 (la_ip6_addr args),
                                                     sl_state := IP6_ADDR_TENTATIVE\<rparr>))
           else if la_ip6_mode args = MMIPAL_IP6_AUTOCONFIG
           then Some (call Create_ip6_linklocal (d\<lparr>md_ip6_autoconfig := True\<rparr>))
           else if la_ip6_mode args = MMIPAL_IP6_DHCP6_STATELESS \<and> LWIP_IPV6_DHCP6 L
           then if dhcp6_enable_stateless_ok L then Some (call Dhcp6_enable_stateless d) else None
           else Some d);
     Some (d\<lparr>md_tcpip_init_done := True\<rparr>)}"

text \<open>The validation of the arguments; \<open>None\<close> is the jump to the error exit.\<close>

definition validate_ip4 :: "lwip \<Rightarrow> mmipal_init_args \<Rightarrow> lwip_init_args \<Rightarrow> lwip_init_args option" where
  "validate_ip4 L args la =
     (case ia_mode args of
        MMIPAL_DISABLED \<Rightarrow> None
      | MMIPAL_DHCP \<Rightarrow> if LWIP_DHCP L then Some la else None
      | MMIPAL_AUTOIP \<Rightarrow> Some la
      | _ \<Rightarrow> do {
          ip \<leftarrow> ipaddr_aton L (ia_ip_addr args);
          netmask \<leftarrow> ipaddr_aton L (ia_netmask args);
          gw \<leftarrow> ipaddr_aton L (ia_gateway_addr args);
          if ip_addr_isany ip then None
          else Some (la\<lparr>la_ip_addr := ip, la_netmask := netmask, la_gateway_addr := gw\<rparr>)})"

definition validate_ip6 :: "lwip \<Rightarrow> mmipal_init_args \<Rightarrow> lwip_init_args \<Rightarrow> lwip_init_args option" where
  "validate_ip6 L args la =
     (case ia_ip6_mode args of
        MMIPAL_IP6_DISABLED \<Rightarrow> Some la
      | MMIPAL_IP6_STATIC \<Rightarrow> do {
          ip \<leftarrow> ipaddr_aton L (ia_ip6_addr args);
          if ip_addr_isany ip then None else Some (la\<lparr>la_ip6_addr := ip\<rparr>)}
      | MMIPAL_IP6_AUTOCONFIG \<Rightarrow> if LWIP_IPV6_AUTOCONFIG L then Some la else None
      | MMIPAL_IP6_DHCP6_STATELESS \<Rightarrow> if LWIP_IPV6_DHCP6_STATELESS L then Some la else None)"

text \<open>
  \<open>mem\<close> is the result of the allocation; the TCP/IP thread runs the handler, and the function waits
  for it, so that the first call returns after the handler.
\<close>

definition mmipal_init ::
  "lwip \<Rightarrow> netif_env \<Rightarrow> bool \<Rightarrow> bool \<Rightarrow> mmipal_init_args \<Rightarrow> mmipal_data \<Rightarrow> (mmipal_status \<times> mmipal_data) option" where
  "mmipal_init L env initialised mem args d =
     (if \<not> mem then Some (MMIPAL_NO_MEM, d)
      else
       (let la = \<lparr>la_mode = ia_mode args, la_ip6_mode = ia_ip6_mode args, la_ip_addr = ip4 0,
                 la_netmask = ip4 0, la_gateway_addr = ip4 0, la_ip6_addr = ip4 0\<rparr>;
            d = d\<lparr>md_link_status_callback := False,
                  md_offload_arp_response := ia_offload_arp_response args,
                  md_offload_arp_refresh_s := ia_offload_arp_refresh_s args\<rparr> in
        case validate_ip4 L args la of None \<Rightarrow> Some (MMIPAL_INVALID_ARGUMENT, d)
        | Some la \<Rightarrow>
           (case validate_ip6 L args la of None \<Rightarrow> Some (MMIPAL_INVALID_ARGUMENT, d)
            | Some la \<Rightarrow> map_option (Pair MMIPAL_SUCCESS) (tcpip_init_done_handler L env initialised la d))))"

definition mmipal_set_tx_qos_tid :: "u8 \<Rightarrow> mmipal_data \<Rightarrow> mmipal_data option" where
  "mmipal_set_tx_qos_tid tid d =
     (if \<not> md_tcpip_init_done d then None
      else map_option (\<lambda>n. d\<lparr>md_netif := n\<rparr>) (mmnetif_set_tx_qos_tid tid (md_netif d)))"

definition mmipal_get_link_packet_counts :: "bool \<Rightarrow> link_stats \<Rightarrow> nat \<times> nat" where
  "mmipal_get_link_packet_counts lwip_stats stats = (if lwip_stats then (st_xmit stats, st_recv stats) else (0, 0))"

section \<open>Local addresses and DNS servers\<close>

definition mmipal_get_local_addr_ip :: "lwip \<Rightarrow> ip_addr_t \<Rightarrow> mmipal_data \<Rightarrow> mmipal_status + ip_addr_t" where
  "mmipal_get_local_addr_ip L dest_addr d =
     (if ip_v6 dest_addr
      then case ip6_select_source_address L dest_addr of None \<Rightarrow> Inl MMIPAL_NO_LINK | Some a \<Rightarrow> Inr a
      else Inr (ip4 (md_ip_addr d)))"

definition mmipal_get_local_addr :: "lwip \<Rightarrow> string option \<Rightarrow> mmipal_data \<Rightarrow> mmipal_status + string" where
  "mmipal_get_local_addr L dest_addr d =
     (case dest_addr of None \<Rightarrow> Inl MMIPAL_INVALID_ARGUMENT
      | Some dest_addr \<Rightarrow>
        (case ipaddr_aton L dest_addr of None \<Rightarrow> Inl MMIPAL_INVALID_ARGUMENT
         | Some dest \<Rightarrow>
           (case mmipal_get_local_addr_ip L dest d of Inl e \<Rightarrow> Inl e
            | Inr a \<Rightarrow> (case ipaddr_ntoa_r L a MMIPAL_IPADDR_STR_MAXLEN of None \<Rightarrow> Inl MMIPAL_NO_MEM
                        | Some t \<Rightarrow> Inr t))))"

definition mmipal_set_dns_server :: "lwip \<Rightarrow> u8 \<Rightarrow> string \<Rightarrow> mmipal_data \<Rightarrow> mmipal_status \<times> mmipal_data" where
  "mmipal_set_dns_server L index addr d =
     (if DNS_MAX_SERVERS L \<le> unat index then (MMIPAL_INVALID_ARGUMENT, d)
      else case ipaddr_aton L addr of None \<Rightarrow> (MMIPAL_INVALID_ARGUMENT, d)
        | Some a \<Rightarrow> (MMIPAL_SUCCESS, d\<lparr>md_dns := (md_dns d)(unat index := a)\<rparr>))"

definition mmipal_get_dns_server :: "lwip \<Rightarrow> u8 \<Rightarrow> mmipal_data \<Rightarrow> mmipal_status + string" where
  "mmipal_get_dns_server L index d =
     (if DNS_MAX_SERVERS L \<le> unat index then Inl MMIPAL_INVALID_ARGUMENT
      else if md_dns d (unat index) = ip_addr_any then Inr []
      else case ipaddr_ntoa_r L (md_dns d (unat index)) MMIPAL_IPADDR_STR_MAXLEN of
          None \<Rightarrow> Inl MMIPAL_NO_MEM | Some t \<Rightarrow> Inr t)"

section \<open>What the link status callback is told\<close>

text \<open>
  lwIP changes the addresses or the link flag of the interface and then calls the status callback. The
  laws are what lwIP documents of the texts: an IPv4 address fits in 48 characters, and is read back.
\<close>

record netif_change =
  ch_ip :: u32
  ch_netmask :: u32
  ch_gw :: u32
  ch_link_up :: bool

definition lwip_change :: "netif_change \<Rightarrow> mmipal_data \<Rightarrow> mmipal_data" where
  "lwip_change c d = (netif_set_addr (ch_ip c) (ch_netmask c) (ch_gw c) d)
     \<lparr>md_netif := (md_netif d)\<lparr>ni_flags := (if ch_link_up c
        then insert NETIF_FLAG_LINK_UP (ni_flags (md_netif d)) else ni_flags (md_netif d) - {NETIF_FLAG_LINK_UP})\<rparr>\<rparr>"

fun link_run :: "lwip \<Rightarrow> netif_change list \<Rightarrow> mmipal_data \<Rightarrow> mmipal_data option" where
  "link_run L [] d = Some d"
| "link_run L (c # cs) d =
     (case netif_status_callback L (lwip_change c d) of None \<Rightarrow> None | Some d \<Rightarrow> link_run L cs d)"

definition ip4_texts_ok :: "lwip \<Rightarrow> bool" where
  "ip4_texts_ok L \<longleftrightarrow> (\<forall>a. \<exists>t. ip4_text L a = Some t \<and> ipaddr_aton L t = Some (ip4 a))"

definition change_state :: "netif_change \<Rightarrow> mmipal_link_state" where
  "change_state c = (if ch_ip c \<noteq> 0 \<and> ch_link_up c then MMIPAL_LINK_UP else MMIPAL_LINK_DOWN)"

fun report_of :: "ipal_call \<Rightarrow> mmipal_link_status list" where
  "report_of (Link_status_callback s) = [s]"
| "report_of c = []"

definition reports :: "mmipal_data \<Rightarrow> mmipal_link_status list" where
  "reports d = concat (map report_of (md_calls d))"

lemma reports_call [simp]: "reports (call c d) = reports d @ report_of c"
  by (simp add: reports_def call_def)

lemma call_sel [simp]:
  "md_ip_addr (call c d) = md_ip_addr d" "md_netmask (call c d) = md_netmask d" "md_gw (call c d) = md_gw d"
  "md_ip_link_state (call c d) = md_ip_link_state d" "md_netif (call c d) = md_netif d"
  "md_link_status_callback (call c d) = md_link_status_callback d"
  "md_ext_link_status_callback (call c d) = md_ext_link_status_callback d"
  "md_ip4_mode (call c d) = md_ip4_mode d" "md_offload_arp_response (call c d) = md_offload_arp_response d"
  "md_offload_arp_refresh_s (call c d) = md_offload_arp_refresh_s d"
  "md_dhcp_offload_init_complete (call c d) = md_dhcp_offload_init_complete d"
  by (simp_all add: call_def)

definition status_of :: "lwip \<Rightarrow> mmipal_data \<Rightarrow> mmipal_link_status" where
  "status_of L d = \<lparr>ls_link_state = md_ip_link_state d, ls_ip_addr = the (ip4_text L (md_ip_addr d)),
     ls_netmask = the (ip4_text L (md_netmask d)), ls_gateway = the (ip4_text L (md_gw d))\<rparr>"

lemma report_link_status_effect:
  assumes "ip4_texts_ok L"
  shows "\<exists>d'. report_link_status L d = Some d' \<and> md_ip_link_state d' = md_ip_link_state d \<and>
    md_link_status_callback d' = md_link_status_callback d \<and> md_netif d' = md_netif d \<and>
    reports d' = reports d @ (if md_link_status_callback d then [status_of L d] else [])"
proof -
  obtain t where "\<forall>a. ip4_text L a = Some (t a)" using assms unfolding ip4_texts_ok_def by metis
  then show ?thesis by (simp add: report_link_status_def Let_def status_of_def)
qed

lemma lwip_change_check: "mmipal_link_status_check (lwip_change c d) \<longleftrightarrow> change_state c = MMIPAL_LINK_UP"
  by (simp add: mmipal_link_status_check_def lwip_change_def netif_set_addr_def change_state_def)

lemma lwip_change_sel [simp]:
  "md_ip_link_state (lwip_change c d) = md_ip_link_state d" "reports (lwip_change c d) = reports d"
  "md_link_status_callback (lwip_change c d) = md_link_status_callback d"
  by (simp_all add: lwip_change_def netif_set_addr_def reports_def)

lemma link_state_cases: "s \<noteq> MMIPAL_LINK_UP \<longleftrightarrow> s = MMIPAL_LINK_DOWN"
  by (cases s) simp_all

text \<open>One status callback: the state becomes what the interface shows, and a change is reported.\<close>

lemma status_callback_edge:
  fixes c d
  defines "d1 \<equiv> (lwip_change c d)\<lparr>md_ip_link_state := change_state c\<rparr>"
  assumes "ip4_texts_ok L" "md_link_status_callback d"
  shows "\<exists>d'. netif_status_callback L (lwip_change c d) = Some d' \<and> md_ip_link_state d' = change_state c \<and>
    md_link_status_callback d' \<and>
    reports d' = reports d @ (if md_ip_link_state d = change_state c then [] else [status_of L d1])"
proof -
  let ?c = "lwip_change c d"
  define e where "e = (if md_ip4_mode ?c = MMIPAL_DHCP_OFFLOAD \<and> \<not> md_dhcp_offload_init_complete ?c \<and>
    sta_connected L then call Enable_dhcp_offload ?c else ?c)"
  have e: "md_ip_link_state e = md_ip_link_state d" "md_link_status_callback e" "reports e = reports d"
    "mmipal_link_status_check e \<longleftrightarrow> change_state c = MMIPAL_LINK_UP"
    "status_of L (e\<lparr>md_ip_link_state := change_state c\<rparr>) = status_of L d1"
    using assms(3) lwip_change_check [of c d]
    by (simp_all add: e_def mmipal_link_status_check_def status_of_def d1_def)
  have n: "(if mmipal_link_status_check e then MMIPAL_LINK_UP else MMIPAL_LINK_DOWN) = change_state c"
    using e(4) by (simp add: link_state_cases)
  have cb: "netif_status_callback L ?c =
    (if md_ip_link_state e \<noteq> change_state c then
       map_option (\<lambda>d. if md_ip_link_state d = MMIPAL_LINK_DOWN then d\<lparr>md_dhcp_offload_init_complete := False\<rparr> else d)
         (report_link_status L (e\<lparr>md_ip_link_state := change_state c\<rparr>))
     else Some e)"
    using n e(2) by (simp add: netif_status_callback_def Let_def e_def [symmetric])
  obtain r where r: "report_link_status L (e\<lparr>md_ip_link_state := change_state c\<rparr>) = Some r"
    "md_ip_link_state r = change_state c" "md_link_status_callback r" "reports r = reports d @ [status_of L d1]"
    using report_link_status_effect [OF assms(2), of "e\<lparr>md_ip_link_state := change_state c\<rparr>"] e
    by (auto simp: reports_def)
  show ?thesis using cb r e by (auto simp: reports_def)
qed

lemma ip4_inverse [simp]: "ip_2_ip4 (ip4 a) = a"
  by (rule bit_word_eqI) (simp add: ip_2_ip4_def ip4_def bit_simps)

definition tells :: "lwip \<Rightarrow> netif_change \<Rightarrow> mmipal_link_status \<Rightarrow> bool" where
  "tells L c s \<longleftrightarrow> ls_link_state s = change_state c \<and> ipaddr_aton L (ls_ip_addr s) = Some (ip4 (ch_ip c)) \<and>
     ipaddr_aton L (ls_netmask s) = Some (ip4 (ch_netmask c)) \<and> ipaddr_aton L (ls_gateway s) = Some (ip4 (ch_gw c))"

lemma status_of_tells:
  assumes "ip4_texts_ok L"
  shows "tells L c (status_of L ((lwip_change c d)\<lparr>md_ip_link_state := change_state c\<rparr>))"
proof -
  have "ipaddr_aton L (the (ip4_text L a)) = Some (ip4 a)" for a
    using assms unfolding ip4_texts_ok_def by (metis option.sel)
  then show ?thesis by (simp add: tells_def status_of_def lwip_change_def netif_set_addr_def)
qed

lemma remdups_adj_unfold: "remdups_adj (x # xs) = x # tl (remdups_adj (x # xs))"
  by (metis list.collapse list.sel(1) remdups_adj_Nil_iff list.distinct(1) hd_remdups_adj)


text \<open>An lwIP whose texts are the 32 bits of an address.\<close>

definition bits_text :: "u32 \<Rightarrow> string" where
  "bits_text a = map (\<lambda>n. if bit a n then CHR ''1'' else CHR ''0'') [0..<32]"

definition example_lwip :: lwip where
  "example_lwip = \<lparr>LWIP_DHCP = True, LWIP_IPV6_AUTOCONFIG = True, LWIP_IPV6_DHCP6 = False,
     LWIP_IPV6_DHCP6_STATELESS = False, LWIP_IPV6_NUM_ADDRESSES = 3, ETHARP_SUPPORT_STATIC_ENTRIES = False,
     DNS_MAX_SERVERS = 2, ipaddr_aton = \<lambda>t. Some (ip4 (horner_sum of_bool 2 (map (\<lambda>c. c = CHR ''1'') t))),
     ipaddr_ntoa_r = \<lambda>a n. if 32 < n then Some (bits_text (ip_2_ip4 a)) else None,
     dhcp_start_ok = True, dhcp6_enable_stateless_ok = True, etharp_add_static_entry = \<lambda>_ _. 0,
     etharp_remove_static_entry = \<lambda>_. 0, ip6_select_source_address = \<lambda>_. None, lw_ERR_ARG = -16,
     lw_ERR_RTE = -4, lw_ERR_MEM = -1, sta_connected = True, enable_dhcp_offload_ok = True\<rparr>"

lemma bits_text_read: "(horner_sum of_bool 2 (map (\<lambda>c. c = CHR ''1'') (bits_text a)) :: u32) = a"
proof -
  have "map (\<lambda>c. c = CHR ''1'') (bits_text a) = map (bit a) [0..<32]" by (simp add: bits_text_def)
  then have "(horner_sum of_bool 2 (map (\<lambda>c. c = CHR ''1'') (bits_text a)) :: u32) = take_bit 32 a"
    by (simp only: horner_sum_bit_eq_take_bit)
  then show ?thesis by (simp add: take_bit_word_eq_self)
qed

lemma example_aton: "ipaddr_aton example_lwip (bits_text a) = Some (ip4 a)"
  using bits_text_read [of a] by (simp add: example_lwip_def)

lemma example_lwip_ok: "ip4_texts_ok example_lwip"
proof -
  have "ip4_text example_lwip a = Some (bits_text a)" for a
    by (simp add: ip4_text_def example_lwip_def MMIPAL_IPADDR_STR_MAXLEN_def)
  then show ?thesis using example_aton by (simp add: ip4_texts_ok_def)
qed

definition example_ipal :: mmipal_data where
  "example_ipal = \<lparr>md_netif = mn_netif example_netif, md_ip_addr = 0, md_netmask = 0, md_gw = 0,
     md_ip6 = replicate 3 \<lparr>sl_addr = 0, sl_state = IP6_ADDR_INVALID, sl_static_life = False\<rparr>,
     md_ip6_autoconfig = False, md_dns = \<lambda>_. ip_addr_any, md_ip_link_state = MMIPAL_LINK_DOWN,
     md_offload_arp_response = True, md_offload_arp_refresh_s = 0, md_dhcp_offload_init_complete = False,
     md_link_status_callback = True, md_ext_link_status_callback = False, md_ip4_mode = MMIPAL_DHCP,
     md_ip6_mode = MMIPAL_IP6_DISABLED, md_tcpip_init_done = True, md_calls = []\<rparr>"


section \<open>Configuration\<close>

text \<open>IPv4 configuration round trip: a static configuration whose texts are IPv4 addresses is
  accepted unless DHCP offload is active, stops DHCP if it was running, and
  \<open>mmipal_get_ip_config\<close> then returns the static mode with texts of exactly these addresses; every
  configuration that is not accepted leaves the stack as it was.\<close>

theorem ip_config_roundtrip:
  assumes "ip4_texts_ok L" "md_ip4_mode d \<noteq> MMIPAL_DHCP_OFFLOAD" "ic_mode config = MMIPAL_STATIC"
    and "ipaddr_aton L (ic_ip_addr config) = Some (ip4 ip)" "ipaddr_aton L (ic_netmask config) = Some (ip4 nm)"
    and "ipaddr_aton L (ic_gateway_addr config) = Some (ip4 gw)"
  shows "(\<exists>d' c'. mmipal_set_ip_config L config d = Some (MMIPAL_SUCCESS, d') \<and>
      mmipal_get_ip_config L d' = Some c' \<and> ic_mode c' = MMIPAL_STATIC \<and>
      ipaddr_aton L (ic_ip_addr c') = Some (ip4 ip) \<and> ipaddr_aton L (ic_netmask c') = Some (ip4 nm) \<and>
      ipaddr_aton L (ic_gateway_addr c') = Some (ip4 gw) \<and>
      md_calls d' = md_calls d @ (if md_ip4_mode d = MMIPAL_DHCP then [Dhcp_stop] else [])) \<and>
    (\<forall>config' d0 st d'. mmipal_set_ip_config L config' d0 = Some (st, d') \<and> st \<noteq> MMIPAL_SUCCESS \<longrightarrow> d' = d0)"
proof -
  obtain t where t: "\<forall>a. ip4_text L a = Some (t a) \<and> ipaddr_aton L (t a) = Some (ip4 a)"
    using assms(1) unfolding ip4_texts_ok_def by metis
  have "\<exists>d'. mmipal_set_ip_config L config d = Some (MMIPAL_SUCCESS, d') \<and> md_ip4_mode d' = MMIPAL_STATIC \<and>
    md_ip_addr d' = ip \<and> md_netmask d' = nm \<and> md_gw d' = gw \<and>
    md_calls d' = md_calls d @ (if md_ip4_mode d = MMIPAL_DHCP then [Dhcp_stop] else [])"
    using assms(2-6) by (simp add: mmipal_set_ip_config_def apply_ip_config_def netif_set_addr_def call_def Let_def)
  moreover have "d' = d0" if "mmipal_set_ip_config L config' d0 = Some (st, d')" "st \<noteq> MMIPAL_SUCCESS" for config' d0 st d'
    using that by (auto simp: mmipal_set_ip_config_def apply_ip_config_def Let_def
        split: if_splits mmipal_addr_mode.splits option.splits)
  ultimately show ?thesis using t by (auto simp: mmipal_get_ip_config_def)
qed

theorem ip_config_roundtrip_witness:
  "\<exists>d' c'. mmipal_set_ip_config example_lwip \<lparr>ic_mode = MMIPAL_STATIC, ic_ip_addr = bits_text 5,
      ic_netmask = bits_text 7, ic_gateway_addr = bits_text 1\<rparr> example_ipal = Some (MMIPAL_SUCCESS, d') \<and>
    mmipal_get_ip_config example_lwip d' = Some c' \<and>
    ipaddr_aton example_lwip (ic_ip_addr c') = Some (ip4 5) \<and> md_calls d' = [Dhcp_stop]"
  using ip_config_roundtrip [OF example_lwip_ok, of example_ipal
      "\<lparr>ic_mode = MMIPAL_STATIC, ic_ip_addr = bits_text 5, ic_netmask = bits_text 7, ic_gateway_addr = bits_text 1\<rparr>" 5 7 1]
    example_aton
  by (auto simp: example_ipal_def)

text \<open>
  The broadcast address has the network part of the address and ones in the host part.
\<close>

lemma broadcast_address:
  "broadcast_u32 ip netmask AND netmask = ip AND netmask" "broadcast_u32 ip netmask OR netmask = - 1"
proof -
  have b: "broadcast_u32 ip netmask = (ip AND netmask) OR NOT netmask"
  proof -
    have "(0xffffffff :: u32) = - 1" by simp
    then show ?thesis unfolding broadcast_u32_def by (simp only: and.left_neutral)
  qed
  show "broadcast_u32 ip netmask AND netmask = ip AND netmask" "broadcast_u32 ip netmask OR netmask = - 1"
    unfolding b by (rule bit_word_eqI; auto simp: bit_simps)+
qed

text \<open>
  The address type is not looked at: a text that lwIP reads as an IPv6 address is accepted as the
  static IPv4 address, and the first word of it becomes the address of the interface.
\<close>

lemma static_ip_accepts_ip6:
  assumes "md_ip4_mode d \<noteq> MMIPAL_DHCP_OFFLOAD" "ipaddr_aton L t = Some \<lparr>ip_u = w, ip_v6 = True\<rparr>"
  shows "\<exists>d'. mmipal_set_ip_config L \<lparr>ic_mode = MMIPAL_STATIC, ic_ip_addr = t, ic_netmask = t, ic_gateway_addr = t\<rparr> d =
    Some (MMIPAL_SUCCESS, d') \<and> md_ip_addr d' = ucast w"
  using assms by (simp add: mmipal_set_ip_config_def apply_ip_config_def netif_set_addr_def call_def ip_2_ip4_def Let_def)

text \<open>Switching IPv6 off with \<open>mmipal_set_ip6_config\<close> switches automatic configuration on.\<close>

lemma ip6_disabled_autoconfigures:
  assumes "ic6_mode config = MMIPAL_IP6_DISABLED" "mmipal_set_ip6_config L config d = Some (MMIPAL_SUCCESS, d')"
  shows "md_ip6_autoconfig d' \<and> md_ip6_mode d' = MMIPAL_IP6_AUTOCONFIG \<and> Create_ip6_linklocal \<in> set (md_calls d')"
  using assms by (auto simp: mmipal_set_ip6_config_def set_ip6_auto_def call_def Let_def split: option.splits if_splits)

text \<open>Reading the IPv6 addresses stays inside the array of the caller exactly when lwIP has at most as many.\<close>

lemma get_ip6_loop_oob:
  "ii \<in> set is \<Longrightarrow> length texts \<le> ii \<Longrightarrow> get_ip6_loop L d is texts = None"
  by (induction "is" arbitrary: texts) (auto simp: store_def split: option.splits)

lemma get_ip6_loop_safe:
  "(\<And>i. i \<in> set is \<Longrightarrow> ip6_addr_text L d i \<noteq> None) \<Longrightarrow> (\<And>i. i \<in> set is \<Longrightarrow> i < length texts) \<Longrightarrow>
     get_ip6_loop L d is texts \<noteq> None"
proof (induction "is" arbitrary: texts)
  case (Cons i "is")
  obtain t where t: "ip6_addr_text L d i = Some t" using Cons.prems(1) [of i] by auto
  have "get_ip6_loop L d is (texts[i := t]) \<noteq> None" using Cons.prems by (intro Cons.IH) simp_all
  then show ?case using t Cons.prems(2) [of i] by (simp add: store_def)
qed simp

section \<open>Starting the stack\<close>

text \<open>
  ARP offload is requested through the initialisation arguments, but enabled only in the branch that
  reports to a callback: without one it never is.
\<close>

lemma arp_offload_needs_callback:
  assumes "\<not> md_link_status_callback d" "\<not> md_ext_link_status_callback d" "netif_status_callback L d = Some d'"
  shows "set (md_calls d') \<subseteq> set (md_calls d) \<union> {Enable_dhcp_offload}"
  using assms by (auto simp: netif_status_callback_def call_def Let_def split: if_splits)

lemma handler_ip4:
  assumes "tcpip_init_done_handler L env ini la d = Some d'"
  shows "md_ip4_mode d' = la_mode la \<and>
    (la_mode la \<noteq> MMIPAL_STATIC \<longrightarrow> md_ip_addr d' = md_ip_addr d) \<and>
    (la_mode la \<noteq> MMIPAL_DHCP \<longrightarrow> Dhcp_start \<in> set (md_calls d') \<longrightarrow> Dhcp_start \<in> set (md_calls d))"
  using assms
  by (auto simp: tcpip_init_done_handler_def netif_set_addr_def call_def Let_def split: bind_splits if_splits option.splits)

text \<open>
  The mode AutoIP, which initialisation reports as not supported, is nevertheless accepted: the stack
  starts, with no address and no DHCP client.
\<close>

lemma autoip_starts_without_address:
  assumes "ia_mode args = MMIPAL_AUTOIP" "mmipal_init L env ini True args d = Some (st, d')" "st = MMIPAL_SUCCESS"
    and "md_ip_addr d = 0" "md_calls d = []"
  shows "md_ip_addr d' = 0 \<and> Dhcp_start \<notin> set (md_calls d')"
proof -
  obtain la d0 where "tcpip_init_done_handler L env ini la d0 = Some d'" "la_mode la = MMIPAL_AUTOIP"
    "md_ip_addr d0 = 0" "md_calls d0 = []"
    using assms by (auto simp: mmipal_init_def validate_ip4_def validate_ip6_def Let_def
        split: option.splits if_splits mmipal_ip6_addr_mode.splits bind_splits)
  then show ?thesis using handler_ip4 by fastforce
qed

text \<open>The bridge's own arguments start the stack with DHCP and automatic IPv6 configuration.\<close>

lemma bridge_ip_start:
  assumes "LWIP_DHCP L" "LWIP_IPV6_AUTOCONFIG L" "dhcp_start_ok L"
    and "mmnetif_init env True False (md_netif d) = Some (ERR_OK, True, n)"
  shows "\<exists>d'. mmipal_init L env False True (load_mmipal_init_args MMIPAL_INIT_ARGS_DEFAULT) d =
      Some (MMIPAL_SUCCESS, d') \<and> md_netif d' = n \<and> md_ip4_mode d' = MMIPAL_DHCP \<and>
      md_ip6_mode d' = MMIPAL_IP6_AUTOCONFIG \<and> md_tcpip_init_done d' \<and>
      md_calls d' = md_calls d @ [Dhcp_start, Create_ip6_linklocal]"
  using assms by (simp add: mmipal_init_def load_mmipal_init_args_def validate_ip4_def validate_ip6_def Let_def
      tcpip_init_done_handler_def call_def)

end
