(* ===== verification/Fw_Image.thy ===== *)
theory Fw_Image
  imports Bridge_Prelude
begin

text \<open>
  Firmware and board configuration images: the functions of
  \<^verbatim>\<open>framework/mm_shims/mmhal_wlan_binaries.c\<close> that give the driver pieces of the two images linked into
  the program, and the check of the image format in
  \<^verbatim>\<open>examples/porting_assistant/main/src/test_wlan_fw_bcf.c\<close>. An image is a byte list; the pointer of a
  read-only buffer is the bytes from it to the end of the image. Neither function sets a free callback.
\<close>

section \<open>Reading an image\<close>

record mmhal_robuf =
  rb_buf :: "u8 list option"
  rb_len :: u32

definition robuf_zero :: mmhal_robuf where "robuf_zero = \<lparr>rb_buf = None, rb_len = 0\<rparr>"

definition mmhal_wlan_read_bcf_file :: "u8 list \<Rightarrow> u32 \<Rightarrow> u32 \<Rightarrow> mmhal_robuf \<Rightarrow> mmhal_robuf" where
  "mmhal_wlan_read_bcf_file bcf_binary offset requested_len robuf =
     (let bcf_len = (of_nat (length bcf_binary) :: u32) in
      if bcf_len < offset then \<lparr>rb_buf = None, rb_len = 0\<rparr>
      else let len = bcf_len - offset in
        \<lparr>rb_buf = Some (drop (unat offset) bcf_binary), rb_len = (if len < requested_len then len else requested_len)\<rparr>)"

definition mmhal_wlan_read_fw_file :: "u8 list \<Rightarrow> u32 \<Rightarrow> u32 \<Rightarrow> mmhal_robuf \<Rightarrow> mmhal_robuf" where
  "mmhal_wlan_read_fw_file firmware_binary offset requested_len robuf =
     (let firmware_len = (of_nat (length firmware_binary) :: u32) in
      if offset > firmware_len then robuf\<lparr>rb_buf := None\<rparr>
      else let firmware_len' = firmware_len - offset in
        robuf\<lparr>rb_buf := Some (drop (unat offset) firmware_binary),
              rb_len := (if firmware_len' < requested_len then firmware_len' else requested_len)\<rparr>)"

section \<open>The check of an image\<close>

definition FIELD_TYPE_MAGIC :: u16 where "FIELD_TYPE_MAGIC = 0x8000"
definition FIELD_TYPE_EOF :: u16 where "FIELD_TYPE_EOF = 0x8f00"
definition MBIN_FW_MAGIC_NUMBER :: u32 where "MBIN_FW_MAGIC_NUMBER = 0x57464d4d"
definition MBIN_BCF_MAGIC_NUMBER :: u32 where "MBIN_BCF_MAGIC_NUMBER = 0x43424d4d"
definition MAX_TLVS :: nat where "MAX_TLVS = 50"

definition le16 :: "u8 \<Rightarrow> u8 \<Rightarrow> u16" where
  "le16 a b = ucast a OR push_bit 8 (ucast b)"

definition le32 :: "u8 list \<Rightarrow> u32" where
  "le32 b = ucast (b ! 0) OR push_bit 8 (ucast (b ! 1)) OR push_bit 16 (ucast (b ! 2)) OR push_bit 24 (ucast (b ! 3))"

text \<open>Why a check failed; every reason is reported as \<open>TEST_FAILED_NON_CRITICAL\<close>. An access outside the
  image or through a null pointer is \<open>Bad_access\<close>.\<close>

datatype fw_failure = Ended_too_soon | Null_buffer | Header_too_short | No_magic_first | Data_ended | Data_too_long
  | Magic_too_short | Wrong_magic | Bad_access

datatype test_result = TEST_PASSED | TEST_FAILED_NON_CRITICAL fw_failure

definition read_bytes :: "mmhal_robuf \<Rightarrow> nat \<Rightarrow> u8 list option" where
  "read_bytes robuf n = (case rb_buf robuf of None \<Rightarrow> None | Some b \<Rightarrow> if n \<le> length b then Some (take n b) else None)"

text \<open>The loop over the value of one TLV: the offset behind it, or why the check failed.\<close>

function tlv_data_loop :: "(u32 \<Rightarrow> u32 \<Rightarrow> mmhal_robuf \<Rightarrow> mmhal_robuf) \<Rightarrow> u32 \<Rightarrow> bool \<Rightarrow> u32 \<Rightarrow> u32 \<Rightarrow> fw_failure + u32" where
  "tlv_data_loop file_read_fn expected_magic_number magic_tlv offset remaining_len =
     (if remaining_len = 0 then Inr offset
      else let robuf = file_read_fn offset remaining_len robuf_zero in
        if rb_len robuf = 0 then Inl Data_ended
        else if rb_len robuf > remaining_len then Inl Data_too_long
        else if magic_tlv \<and> rb_len robuf < 4 then Inl Magic_too_short
        else if magic_tlv \<and> read_bytes robuf 4 = None then Inl Bad_access
        else if magic_tlv \<and> le32 (the (read_bytes robuf 4)) \<noteq> expected_magic_number then Inl Wrong_magic
        else tlv_data_loop file_read_fn expected_magic_number magic_tlv (offset + rb_len robuf)
               (remaining_len - rb_len robuf))"
  by pat_completeness auto
termination
proof (relation "measure (\<lambda>(_, _, _, _, r). unat r)", goal_cases)
  case (2 rd m b off rem robuf)
  then have le: "rb_len robuf \<le> rem" and pos: "0 < unat (rb_len robuf)" by (simp_all add: unat_gt_0 not_less)
  then have "unat (rem - rb_len robuf) = unat rem - unat (rb_len robuf)" "unat (rb_len robuf) \<le> unat rem"
    by (simp_all add: unat_sub word_le_nat_alt)
  with pos show ?case by simp
qed simp

declare tlv_data_loop.simps [simp del]

fun tlv_loop :: "(u32 \<Rightarrow> u32 \<Rightarrow> mmhal_robuf \<Rightarrow> mmhal_robuf) \<Rightarrow> u32 \<Rightarrow> u32 \<Rightarrow> nat list \<Rightarrow> test_result" where
  "tlv_loop file_read_fn expected_magic_number offset [] = TEST_FAILED_NON_CRITICAL Ended_too_soon"
| "tlv_loop file_read_fn expected_magic_number offset (num_tlvs # rest) =
     (let robuf = file_read_fn offset 4 robuf_zero in
      if rb_len robuf = 0 then TEST_FAILED_NON_CRITICAL Ended_too_soon
      else if rb_buf robuf = None then TEST_FAILED_NON_CRITICAL Null_buffer
      else if rb_len robuf < 4 then TEST_FAILED_NON_CRITICAL Header_too_short
      else case read_bytes robuf 4 of
          None \<Rightarrow> TEST_FAILED_NON_CRITICAL Bad_access
        | Some hdr \<Rightarrow>
          (let hdr_type = le16 (hdr ! 0) (hdr ! 1); hdr_len = le16 (hdr ! 2) (hdr ! 3) in
           if num_tlvs = 0 \<and> hdr_type \<noteq> FIELD_TYPE_MAGIC then TEST_FAILED_NON_CRITICAL No_magic_first
           else if hdr_type = FIELD_TYPE_EOF then TEST_PASSED
           else case tlv_data_loop file_read_fn expected_magic_number (num_tlvs = 0) (offset + 4) (ucast hdr_len) of
               Inl e \<Rightarrow> TEST_FAILED_NON_CRITICAL e
             | Inr offset \<Rightarrow> tlv_loop file_read_fn expected_magic_number offset rest))"

definition execute_fw_bcf_test :: "(u32 \<Rightarrow> u32 \<Rightarrow> mmhal_robuf \<Rightarrow> mmhal_robuf) \<Rightarrow> u32 \<Rightarrow> test_result" where
  "execute_fw_bcf_test file_read_fn expected_magic_number =
     tlv_loop file_read_fn expected_magic_number 0 [0..<MAX_TLVS]"

definition validate_fw :: "u8 list \<Rightarrow> test_result" where
  "validate_fw firmware_binary = execute_fw_bcf_test (mmhal_wlan_read_fw_file firmware_binary) MBIN_FW_MAGIC_NUMBER"

definition validate_bcf :: "u8 list \<Rightarrow> test_result" where
  "validate_bcf bcf_binary = execute_fw_bcf_test (mmhal_wlan_read_bcf_file bcf_binary) MBIN_BCF_MAGIC_NUMBER"

section \<open>Correctness\<close>

text \<open>
  An image of type-length-value fields: type and length in two bytes each, least significant first.
\<close>

definition enc16 :: "u16 \<Rightarrow> u8 list" where "enc16 w = [ucast w, ucast (drop_bit 8 w)]"

definition enc_tlv :: "u16 \<times> u8 list \<Rightarrow> u8 list" where
  "enc_tlv t = enc16 (fst t) @ enc16 (of_nat (length (snd t))) @ snd t"

lemma le16_inverse: "le16 (ucast w) (ucast (drop_bit 8 w)) = w"
  by (rule bit_word_eqI) (auto simp: le16_def bit_simps)

lemma enc16_inverse: "enc16 (le16 a b) = [a, b]"
proof -
  have "(ucast (le16 a b) :: u8) = a" "(ucast (drop_bit 8 (le16 a b)) :: u8) = b"
    by (rule bit_word_eqI; auto simp: le16_def bit_simps dest: bit_imp_le_length)+
  then show ?thesis by (simp add: enc16_def)
qed

definition read_image :: "u8 list \<Rightarrow> u32 \<Rightarrow> u32 \<Rightarrow> mmhal_robuf" where
  "read_image img off req = mmhal_wlan_read_bcf_file img off req robuf_zero"

text \<open>The two functions agree on a zeroed buffer, as the driver gives them.\<close>

lemma readers_agree: "mmhal_wlan_read_fw_file img off req robuf_zero = read_image img off req"
  by (simp add: mmhal_wlan_read_fw_file_def read_image_def mmhal_wlan_read_bcf_file_def robuf_zero_def Let_def)

lemma read_image_inside:
  assumes "length img < 2 ^ 32" "unat off \<le> length img"
  shows "rb_buf (read_image img off req) = Some (drop (unat off) img)"
    and "unat (rb_len (read_image img off req)) = min (length img - unat off) (unat req)"
proof -
  have l: "unat (of_nat (length img) :: u32) = length img"
    using assms(1) by (simp add: unat_of_nat take_bit_eq_mod)
  then have le: "off \<le> of_nat (length img)" using assms(2) by (simp add: word_le_nat_alt)
  then show "rb_buf (read_image img off req) = Some (drop (unat off) img)"
    by (simp add: read_image_def mmhal_wlan_read_bcf_file_def Let_def not_less)
  have "unat (of_nat (length img) - off) = length img - unat off" using le l by (simp add: unat_sub)
  then show "unat (rb_len (read_image img off req)) = min (length img - unat off) (unat req)"
    using l assms(2)
    by (simp add: read_image_def mmhal_wlan_read_bcf_file_def Let_def word_less_nat_alt min_def)
qed

lemma read_image_bytes:
  assumes "length img < 2 ^ 32" "unat off + n \<le> length img"
  shows "read_bytes (read_image img off req) n = Some (take n (drop (unat off) img))"
  using read_image_inside [of img off req] assms by (simp add: read_bytes_def)

lemma unat_add_u32: "unat x + unat y < 2 ^ 32 \<Longrightarrow> unat (x + y :: u32) = unat x + unat y"
  by (rule unat_add_lem [THEN iffD1]) simp

text \<open>The value of a field is read to its end, whatever the reader returns in one piece.\<close>

definition magic_ok :: "u32 \<Rightarrow> u8 list \<Rightarrow> bool" where
  "magic_ok m v \<longleftrightarrow> v = [] \<or> 4 \<le> length v \<and> le32 v = m"

lemma le32_take: "le32 (take 4 v) = le32 v"
  by (simp add: le32_def)

lemma tlv_data_at_end:
  assumes "length img < 2 ^ 32" "unat off = length img" "r \<noteq> 0"
  shows "tlv_data_loop (\<lambda>o' q z. read_image img o' q) m b off r = Inl Data_ended"
proof -
  have "unat (rb_len (read_image img off r)) = 0" using read_image_inside(2) [OF assms(1), of off r] assms(2) by simp
  then show ?thesis using assms(3) by (subst tlv_data_loop.simps) (simp add: Let_def unat_eq_zero)
qed

lemma tlv_data_loop_image:
  assumes "length img < 2 ^ 32" "unat off \<le> length img"
  shows "case tlv_data_loop (\<lambda>o' q z. read_image img o' q) m b off r of
      Inr off' \<Rightarrow> unat off' = unat off + unat r \<and> unat off + unat r \<le> length img \<and>
        (b \<longrightarrow> magic_ok m (take (unat r) (drop (unat off) img)))
    | Inl e \<Rightarrow> \<not> (unat off + unat r \<le> length img \<and> (b \<longrightarrow> magic_ok m (take (unat r) (drop (unat off) img))))"
proof -
  let ?loop = "tlv_data_loop (\<lambda>o' q z. read_image img o' q) m b"
  let ?rb = "read_image img off r"
  have len: "unat (rb_len ?rb) = min (length img - unat off) (unat r)" by (rule read_image_inside(2) [OF assms])
  have o: "unat (off + rb_len ?rb) = unat off + unat (rb_len ?rb)"
    by (rule unat_add_u32) (use len assms in simp)
  have le: "\<not> r < rb_len ?rb" using len by (simp add: word_less_nat_alt)
  have bytes: "read_bytes ?rb 4 = Some (take 4 (drop (unat off) img))" if "\<not> rb_len ?rb < 4"
    using that len by (intro read_image_bytes assms(1)) (auto simp: word_less_nat_alt)
  have step: "?loop off r = (if r = 0 then Inr off
      else if rb_len ?rb = 0 then Inl Data_ended
      else if b \<and> rb_len ?rb < 4 then Inl Magic_too_short
      else if b \<and> le32 (drop (unat off) img) \<noteq> m then Inl Wrong_magic
      else ?loop (off + rb_len ?rb) (r - rb_len ?rb))"
    using le bytes by (subst tlv_data_loop.simps) (auto simp: Let_def le32_take)
  consider "r = 0" | "r \<noteq> 0" "unat off + unat r \<le> length img" | "r \<noteq> 0" "\<not> unat off + unat r \<le> length img" by blast
  then show ?thesis
  proof cases
    case 1
    then show ?thesis using step assms(2) by (simp add: magic_ok_def)
  next
    case 2
    then have "rb_len ?rb = r" using len by (simp add: word_unat_eq_iff)
    moreover have "le32 (take (unat r) (drop (unat off) img)) = le32 (drop (unat off) img)" if "4 \<le> unat r"
      using that by (simp add: le32_def)
    moreover have "0 < unat r" using 2(1) by (simp add: unat_gt_0)
    ultimately show ?thesis using 2 step o tlv_data_loop.simps [of _ m b "off + r" 0]
      by (auto simp: magic_ok_def word_less_nat_alt not_less unat_eq_zero)
  next
    case 3
    have l: "unat (rb_len ?rb) = length img - unat off" using len 3 by simp
    have "r - rb_len ?rb \<noteq> 0" using l 3 assms(2) by auto
    moreover have "unat (off + rb_len ?rb) = length img" using o l assms(2) by simp
    ultimately have "?loop (off + rb_len ?rb) (r - rb_len ?rb) = Inl Data_ended" by (intro tlv_data_at_end assms(1))
    then show ?thesis using step 3 by (auto split: sum.splits)
  qed
qed

abbreviation hdr_type :: "u8 list \<Rightarrow> u16" where "hdr_type xs \<equiv> le16 (xs ! 0) (xs ! 1)"
abbreviation hdr_len :: "u8 list \<Rightarrow> nat" where "hdr_len xs \<equiv> unat (le16 (xs ! 2) (xs ! 3))"

text \<open>One field of the image at \<open>off\<close>.\<close>

lemma tlv_loop_step:
  assumes "length img < 2 ^ 32" "unat off \<le> length img"
  defines "xs \<equiv> drop (unat off) img"
  shows "tlv_loop (\<lambda>o' q z. read_image img o' q) m off (num # rest) = TEST_PASSED \<longleftrightarrow>
    4 \<le> length xs \<and> (num = 0 \<longrightarrow> hdr_type xs = FIELD_TYPE_MAGIC) \<and>
    (hdr_type xs = FIELD_TYPE_EOF \<or>
     4 + hdr_len xs \<le> length xs \<and> (num = 0 \<longrightarrow> magic_ok m (take (hdr_len xs) (drop 4 xs))) \<and>
     (\<exists>off'. unat off' = unat off + 4 + hdr_len xs \<and>
        tlv_loop (\<lambda>o' q z. read_image img o' q) m off' rest = TEST_PASSED))"
proof (cases "4 \<le> length xs")
  case False
  let ?rb = "read_image img off 4"
  have "unat (rb_len ?rb) < 4" using read_image_inside(2) [OF assms(1,2), of 4] False by (simp add: xs_def)
  then have "rb_len ?rb < 4" by (simp add: word_less_nat_alt)
  then show ?thesis using False by (simp add: Let_def)
next
  case True
  let ?rb = "read_image img off 4" and ?l = "ucast (le16 (xs ! 2) (xs ! 3)) :: u32"
  have "hdr_len xs < 2 ^ LENGTH(16)" by (rule unsigned_less)
  then have l: "unat ?l = hdr_len xs" by (simp add: unsigned_ucast_eq take_bit_eq_mod)
  have rb: "rb_buf ?rb = Some xs" "unat (rb_len ?rb) = 4" "read_bytes ?rb 4 = Some (take 4 xs)"
    using read_image_inside [OF assms(1,2), of 4] True read_image_bytes [OF assms(1), of off 4 4]
    by (simp_all add: xs_def)
  then have rl: "rb_len ?rb = 4" using word_unat_eq_iff [of "rb_len ?rb" 4] by simp
  have o: "unat (off + 4) = unat off + 4"
    using unat_add_u32 [of off 4] True assms(1) by (simp add: xs_def)
  have le: "unat (off + 4) \<le> length img" using o True by (simp add: xs_def)
  have d: "drop (unat (off + 4)) img = drop 4 xs" by (simp add: o xs_def add.commute)
  have fit: "unat (off + 4) + unat ?l \<le> length img \<longleftrightarrow> 4 + hdr_len xs \<le> length xs"
    using o l True by (auto simp: xs_def)
  note data = tlv_data_loop_image [OF assms(1) le, where m = m and b = "num = 0" and r = ?l, unfolded d fit, unfolded l o]
  let ?data = "tlv_data_loop (\<lambda>o' q z. read_image img o' q) m (num = 0) (off + 4) ?l"
  have ev: "tlv_loop (\<lambda>o' q z. read_image img o' q) m off (num # rest) =
      (if num = 0 \<and> hdr_type xs \<noteq> FIELD_TYPE_MAGIC then TEST_FAILED_NON_CRITICAL No_magic_first
       else if hdr_type xs = FIELD_TYPE_EOF then TEST_PASSED
       else case ?data of Inl e \<Rightarrow> TEST_FAILED_NON_CRITICAL e
         | Inr off' \<Rightarrow> tlv_loop (\<lambda>o' q z. read_image img o' q) m off' rest)"
    using rb rl by (simp add: Let_def)
  show ?thesis
  proof (cases ?data)
    case (Inl e)
    have "\<not> (4 + hdr_len xs \<le> length xs \<and> (num = 0 \<longrightarrow> magic_ok m (take (hdr_len xs) (drop 4 xs))))"
      using data unfolding Inl by simp
    then show ?thesis unfolding ev Inl using True by auto
  next
    case (Inr off')
    have e: "off'' = off'" if "unat off'' = unat off + 4 + hdr_len xs" for off''
      using that data unfolding Inr by (simp add: word_unat_eq_iff)
    have "(\<exists>off''. unat off'' = unat off + 4 + hdr_len xs \<and> Q off'') \<longleftrightarrow> Q off'" for Q
      using e data unfolding Inr by auto
    then show ?thesis using True data unfolding ev Inr by auto
  qed
qed

text \<open>At most \<open>k - 1\<close> fields of other types and then the end marker.\<close>

definition tlvs :: "nat \<Rightarrow> u8 list \<Rightarrow> bool" where
  "tlvs k xs \<longleftrightarrow> (\<exists>ts e. xs = concat (map enc_tlv ts) @ enc16 FIELD_TYPE_EOF @ e \<and> 2 \<le> length e \<and>
     length ts < k \<and> (\<forall>t \<in> set ts. fst t \<noteq> FIELD_TYPE_EOF \<and> length (snd t) < 2 ^ 16))"

lemma enc16_parts: "enc16 w ! 0 = ucast w" "enc16 w ! 1 = ucast (drop_bit 8 w)" "length (enc16 w) = 2"
  by (simp_all add: enc16_def)

lemma enc_tlv_header:
  assumes "length (snd t) < 2 ^ 16"
  shows "hdr_type (enc_tlv t @ ys) = fst t" "hdr_len (enc_tlv t @ ys) = length (snd t)"
    "length (enc_tlv t) = 4 + length (snd t)" "drop 4 (enc_tlv t) = snd t"
proof -
  have "unat (of_nat (length (snd t)) :: u16) = length (snd t)"
    using assms by (simp add: unat_of_nat take_bit_eq_mod)
  then show "hdr_type (enc_tlv t @ ys) = fst t" "hdr_len (enc_tlv t @ ys) = length (snd t)"
    "length (enc_tlv t) = 4 + length (snd t)" "drop 4 (enc_tlv t) = snd t"
    by (simp_all add: enc_tlv_def enc16_def le16_inverse nth_append)
qed

lemma header_enc_tlv:
  assumes "4 + hdr_len xs \<le> length xs"
  shows "xs = enc_tlv (hdr_type xs, take (hdr_len xs) (drop 4 xs)) @ drop (4 + hdr_len xs) xs"
proof -
  obtain a b c d ys where xs: "xs = a # b # c # d # ys"
    using assms by (cases xs; cases "tl xs"; cases "tl (tl xs)"; cases "tl (tl (tl xs))") auto
  have "length (take (hdr_len xs) (drop 4 xs)) = hdr_len xs" using assms by simp
  then have "enc_tlv (hdr_type xs, take (hdr_len xs) (drop 4 xs)) =
      [a, b] @ enc16 (of_nat (hdr_len xs)) @ take (hdr_len xs) (drop 4 xs)"
    by (simp add: enc_tlv_def enc16_inverse xs)
  moreover have "drop (4 + hdr_len xs) xs = drop (hdr_len xs) ys"
    using drop_drop [of "hdr_len xs" 4 xs] by (simp add: xs add.commute)
  ultimately show ?thesis by (simp add: xs enc16_inverse)
qed

lemma header_eof: "4 \<le> length xs \<Longrightarrow> xs = enc16 (hdr_type xs) @ drop 2 xs"
  by (cases xs; cases "tl xs") (auto simp: enc16_inverse)

lemma tlvs_Suc:
  "tlvs (Suc k) xs \<longleftrightarrow> 4 \<le> length xs \<and> (hdr_type xs = FIELD_TYPE_EOF \<or>
     hdr_type xs \<noteq> FIELD_TYPE_EOF \<and> 4 + hdr_len xs \<le> length xs \<and> tlvs k (drop (4 + hdr_len xs) xs))"
proof
  assume "tlvs (Suc k) xs"
  then obtain ts e where xs: "xs = concat (map enc_tlv ts) @ enc16 FIELD_TYPE_EOF @ e" "2 \<le> length e"
    "length ts < Suc k" "\<forall>t \<in> set ts. fst t \<noteq> FIELD_TYPE_EOF \<and> length (snd t) < 2 ^ 16"
    unfolding tlvs_def by blast
  show "4 \<le> length xs \<and> (hdr_type xs = FIELD_TYPE_EOF \<or>
     hdr_type xs \<noteq> FIELD_TYPE_EOF \<and> 4 + hdr_len xs \<le> length xs \<and> tlvs k (drop (4 + hdr_len xs) xs))"
  proof (cases ts)
    case Nil
    then show ?thesis using xs by (simp add: enc16_def le16_inverse)
  next
    case (Cons t ts')
    let ?ys = "concat (map enc_tlv ts') @ enc16 FIELD_TYPE_EOF @ e"
    have x: "xs = enc_tlv t @ ?ys" using xs(1) Cons by simp
    have t: "fst t \<noteq> FIELD_TYPE_EOF" "length (snd t) < 2 ^ 16" using xs(4) Cons by simp_all
    note h = enc_tlv_header(1,2) [OF t(2), of ?ys, folded x] enc_tlv_header(3) [OF t(2)]
    have "tlvs k ?ys" using xs Cons unfolding tlvs_def by (intro exI [of _ ts'] exI [of _ e]) simp
    moreover have "drop (4 + hdr_len xs) xs = ?ys" using h x by simp
    moreover have "4 + hdr_len xs \<le> length xs" using h x by simp
    ultimately show ?thesis using h(1) t(1) by simp
  qed
next
  assume a: "4 \<le> length xs \<and> (hdr_type xs = FIELD_TYPE_EOF \<or>
     hdr_type xs \<noteq> FIELD_TYPE_EOF \<and> 4 + hdr_len xs \<le> length xs \<and> tlvs k (drop (4 + hdr_len xs) xs))"
  show "tlvs (Suc k) xs"
  proof (cases "hdr_type xs = FIELD_TYPE_EOF")
    case True
    then show ?thesis using header_eof [of xs] a unfolding tlvs_def
      by (intro exI [of _ "[]"] exI [of _ "drop 2 xs"]) auto
  next
    case False
    with a obtain ts e where r: "drop (4 + hdr_len xs) xs = concat (map enc_tlv ts) @ enc16 FIELD_TYPE_EOF @ e"
      "2 \<le> length e" "length ts < k" "\<forall>t \<in> set ts. fst t \<noteq> FIELD_TYPE_EOF \<and> length (snd t) < 2 ^ 16"
      unfolding tlvs_def by blast
    let ?t = "(hdr_type xs, take (hdr_len xs) (drop 4 xs))"
    have "hdr_len xs < 2 ^ LENGTH(16)" by (rule unsigned_less)
    then have "length (snd ?t) < 2 ^ 16" by simp
    moreover have "xs = concat (map enc_tlv (?t # ts)) @ enc16 FIELD_TYPE_EOF @ e"
      using header_enc_tlv [of xs] a False r(1) by simp
    ultimately show ?thesis using r False unfolding tlvs_def
      by (intro exI [of _ "?t # ts"] exI [of _ e]) simp
  qed
qed

lemma unat_of_nat_u32: "n < 2 ^ 32 \<Longrightarrow> unat (of_nat n :: u32) = n"
  by (simp add: unat_of_nat take_bit_eq_mod)

lemma ex_unat: "n < 2 ^ 32 \<Longrightarrow> \<exists>w :: u32. unat w = n"
  using unat_of_nat_u32 by blast

lemma tlv_loop_tlvs:
  assumes "length img < 2 ^ 32" "unat off \<le> length img" "0 \<notin> set ns"
  shows "tlv_loop (\<lambda>o' q z. read_image img o' q) m off ns = TEST_PASSED \<longleftrightarrow> tlvs (length ns) (drop (unat off) img)"
  using assms(2,3)
proof (induction ns arbitrary: off)
  case Nil
  then show ?case by (simp add: tlvs_def)
next
  case (Cons n ns)
  let ?xs = "drop (unat off) img"
  have nxt: "(\<exists>off'. unat off' = unat off + 4 + hdr_len ?xs \<and>
      tlv_loop (\<lambda>o' q z. read_image img o' q) m off' ns = TEST_PASSED) \<longleftrightarrow> tlvs (length ns) (drop (4 + hdr_len ?xs) ?xs)"
    if fit: "4 + hdr_len ?xs \<le> length ?xs"
  proof -
    have "\<exists>off' :: u32. unat off' = unat off + 4 + hdr_len ?xs"
      by (rule ex_unat) (use fit assms(1) in \<open>unfold length_drop, linarith\<close>)
    moreover have "tlv_loop (\<lambda>o' q z. read_image img o' q) m off' ns = TEST_PASSED \<longleftrightarrow>
        tlvs (length ns) (drop (4 + hdr_len ?xs) ?xs)" if "unat off' = unat off + 4 + hdr_len ?xs" for off'
      using Cons.IH [of off'] Cons.prems fit that by (simp add: add.assoc add.commute [of "unat off"])
    ultimately show ?thesis by blast
  qed
  define xs where "xs = ?xs"
  have "n \<noteq> 0" using Cons.prems(2) by auto
  then have "tlv_loop (\<lambda>o' q z. read_image img o' q) m off (n # ns) = TEST_PASSED \<longleftrightarrow> tlvs (Suc (length ns)) xs"
    unfolding tlv_loop_step [OF assms(1) Cons.prems(1)] tlvs_Suc using nxt
    unfolding xs_def [symmetric] by blast
  then show ?case by (simp add: xs_def)
qed

lemma image_check:
  assumes "length img < 2 ^ 32"
  shows "tlv_loop (\<lambda>o' q z. read_image img o' q) m 0 [0..<50] = TEST_PASSED \<longleftrightarrow>
    4 \<le> length img \<and> hdr_type img = FIELD_TYPE_MAGIC \<and> 4 + hdr_len img \<le> length img \<and>
    magic_ok m (take (hdr_len img) (drop 4 img)) \<and> tlvs 49 (drop (4 + hdr_len img) img)"
proof -
  have ns: "[0..<50] = 0 # [1..<50 :: nat]" by (simp add: upt_conv_Cons)
  have "FIELD_TYPE_MAGIC \<noteq> FIELD_TYPE_EOF" by (simp add: FIELD_TYPE_MAGIC_def FIELD_TYPE_EOF_def)
  moreover have "(\<exists>off'. unat off' = 4 + hdr_len img \<and>
      tlv_loop (\<lambda>o' q z. read_image img o' q) m off' [1..<50] = TEST_PASSED) \<longleftrightarrow> tlvs 49 (drop (4 + hdr_len img) img)"
    if fit: "4 + hdr_len img \<le> length img"
  proof -
    have "\<exists>off' :: u32. unat off' = 4 + hdr_len img" using fit assms by (intro ex_unat) simp
    moreover have "tlv_loop (\<lambda>o' q z. read_image img o' q) m off' [1..<50] = TEST_PASSED \<longleftrightarrow>
        tlvs 49 (drop (4 + hdr_len img) img)" if "unat off' = 4 + hdr_len img" for off'
      using tlv_loop_tlvs [OF assms, of off' "[1..<50]" m] fit that by simp
    ultimately show ?thesis by blast
  qed
  ultimately show ?thesis
    using tlv_loop_step [OF assms, of 0 m 0 "[1..<50]"] unfolding ns by auto
qed

text \<open>The check depends on a reader only through what it returns in a zeroed buffer.\<close>

lemma tlv_data_loop_cong:
  "(\<And>o' q. f o' q robuf_zero = g o' q robuf_zero) \<Longrightarrow> tlv_data_loop f m b off r = tlv_data_loop g m b off r"
proof (induction f m b off r rule: tlv_data_loop.induct)
  case (1 f m b off r)
  show ?case
    unfolding tlv_data_loop.simps [of f m b off r] tlv_data_loop.simps [of g m b off r] Let_def 1(2)
    using 1(1) [OF _ refl] 1(2) by (intro if_cong refl) auto
qed

lemma tlv_loop_cong:
  assumes "\<And>o' q. f o' q robuf_zero = g o' q robuf_zero"
  shows "tlv_loop f m off ns = tlv_loop g m off ns"
proof (induction ns arbitrary: off)
  case (Cons n ns)
  show ?case unfolding tlv_loop.simps Let_def assms tlv_data_loop_cong [of f g, OF assms] Cons ..
qed simp

definition passes :: "u32 \<Rightarrow> u8 list \<Rightarrow> bool" where
  "passes m img \<longleftrightarrow> (\<exists>v ts e. img = enc_tlv (FIELD_TYPE_MAGIC, v) @ concat (map enc_tlv ts) @ enc16 FIELD_TYPE_EOF @ e \<and>
     length v < 2 ^ 16 \<and> magic_ok m v \<and> length ts < 49 \<and> 2 \<le> length e \<and>
     (\<forall>t \<in> set ts. fst t \<noteq> FIELD_TYPE_EOF \<and> length (snd t) < 2 ^ 16))"

lemma passes_iff:
  "passes m img \<longleftrightarrow> 4 \<le> length img \<and> hdr_type img = FIELD_TYPE_MAGIC \<and> 4 + hdr_len img \<le> length img \<and>
    magic_ok m (take (hdr_len img) (drop 4 img)) \<and> tlvs 49 (drop (4 + hdr_len img) img)" (is "_ \<longleftrightarrow> ?R")
proof
  assume "passes m img"
  then obtain v ys where img: "img = enc_tlv (FIELD_TYPE_MAGIC, v) @ ys" "length v < 2 ^ 16" "magic_ok m v" "tlvs 49 ys"
    unfolding passes_def tlvs_def by blast
  note h = enc_tlv_header(1,2) [of "(FIELD_TYPE_MAGIC, v)" ys, folded img(1)]
    enc_tlv_header(3,4) [of "(FIELD_TYPE_MAGIC, v)"]
  show ?R using img h by simp
next
  assume r: ?R
  let ?v = "take (hdr_len img) (drop 4 img)"
  have "hdr_len img < 2 ^ LENGTH(16)" by (rule unsigned_less)
  then have "length ?v < 2 ^ 16" by simp
  moreover have "img = enc_tlv (FIELD_TYPE_MAGIC, ?v) @ drop (4 + hdr_len img) img"
    using header_enc_tlv [of img] r by simp
  ultimately show "passes m img" using r unfolding passes_def tlvs_def by fastforce
qed

lemma validate_image:
  assumes "length img < 2 ^ 32"
  shows "validate_fw img = TEST_PASSED \<longleftrightarrow> passes MBIN_FW_MAGIC_NUMBER img"
    and "validate_bcf img = TEST_PASSED \<longleftrightarrow> passes MBIN_BCF_MAGIC_NUMBER img"
proof -
  have "validate_fw img = tlv_loop (\<lambda>o' q z. read_image img o' q) MBIN_FW_MAGIC_NUMBER 0 [0..<50]"
    unfolding validate_fw_def execute_fw_bcf_test_def MAX_TLVS_def
    by (rule tlv_loop_cong) (simp add: readers_agree)
  then show "validate_fw img = TEST_PASSED \<longleftrightarrow> passes MBIN_FW_MAGIC_NUMBER img"
    using image_check [OF assms] passes_iff by simp
  have "validate_bcf img = tlv_loop (\<lambda>o' q z. read_image img o' q) MBIN_BCF_MAGIC_NUMBER 0 [0..<50]"
    unfolding validate_bcf_def execute_fw_bcf_test_def MAX_TLVS_def
    by (rule tlv_loop_cong) (simp add: read_image_def)
  then show "validate_bcf img = TEST_PASSED \<longleftrightarrow> passes MBIN_BCF_MAGIC_NUMBER img"
    using image_check [OF assms] passes_iff by simp
qed

text \<open>C33: The check of the linked images decides their format: the firmware (and likewise the board
  configuration) passes exactly when it is a magic field whose value is empty or starts with the
  magic number, at most 48 further fields, and an end marker, with every value inside the image.\<close>

theorem image_check_decides:
  assumes "length img < 2 ^ 32"
  shows "(validate_fw img = TEST_PASSED \<longleftrightarrow> passes MBIN_FW_MAGIC_NUMBER img) \<and>
    (validate_bcf img = TEST_PASSED \<longleftrightarrow> passes MBIN_BCF_MAGIC_NUMBER img)"
  using validate_image [OF assms] by simp

lemma short_image_passes:
  assumes "length v < 100" "magic_ok m v"
  shows "passes m (enc_tlv (FIELD_TYPE_MAGIC, v) @ enc16 FIELD_TYPE_EOF @ [0, 0])"
  unfolding passes_def using assms by (intro exI [of _ v] exI [of _ "[]"] exI [of _ "[0, 0]"]) simp

theorem image_check_decides_witness:
  "validate_fw (enc_tlv (FIELD_TYPE_MAGIC, [0x4d, 0x4d, 0x46, 0x57]) @ enc16 FIELD_TYPE_EOF @ [0, 0]) = TEST_PASSED"
proof -
  have "magic_ok MBIN_FW_MAGIC_NUMBER [0x4d, 0x4d, 0x46, 0x57]"
    by (simp add: magic_ok_def le32_def MBIN_FW_MAGIC_NUMBER_def)
  then have "passes MBIN_FW_MAGIC_NUMBER (enc_tlv (FIELD_TYPE_MAGIC, [0x4d, 0x4d, 0x46, 0x57]) @ enc16 FIELD_TYPE_EOF @ [0, 0])"
    by (rule short_image_passes [rotated]) simp
  moreover have "length (enc_tlv (FIELD_TYPE_MAGIC, [0x4d, 0x4d, 0x46, 0x57]) @ enc16 FIELD_TYPE_EOF @ [0, 0]) < 2 ^ 32"
    by (simp add: enc_tlv_def enc16_def)
  ultimately show ?thesis using image_check_decides by blast
qed

text \<open>An image whose magic field is empty passes although it contains no magic number.\<close>

lemma empty_magic_passes: "validate_fw (enc_tlv (FIELD_TYPE_MAGIC, []) @ enc16 FIELD_TYPE_EOF @ [0, 0]) = TEST_PASSED"
proof -
  have "length (enc_tlv (FIELD_TYPE_MAGIC, []) @ enc16 FIELD_TYPE_EOF @ [0, 0 :: u8]) < 2 ^ 32"
    by (simp add: enc_tlv_def enc16_def)
  then show ?thesis using validate_image(1) short_image_passes [of "[]"] by (simp add: magic_ok_def)
qed

text \<open>Reading an image piece by piece gives the image.\<close>

definition piece :: "mmhal_robuf \<Rightarrow> u8 list" where
  "piece robuf = (case rb_buf robuf of None \<Rightarrow> [] | Some b \<Rightarrow> take (unat (rb_len robuf)) b)"

lemma pieces_reassemble:
  assumes "length img < 2 ^ 32" "k * n \<le> length img + n" "k * n < 2 ^ 32" "n < 2 ^ 32"
  shows "concat (map (\<lambda>i. piece (read_image img (of_nat (i * n)) (of_nat n))) [0..<k]) = take (k * n) img"
  using assms(2,3)
proof (induction k)
  case (Suc k)
  have u: "unat (of_nat (k * n) :: u32) = k * n" "unat (of_nat n :: u32) = n"
    by (rule unat_of_nat_u32, use Suc.prems assms(4) in simp)+
  have le: "k * n \<le> length img" using Suc.prems by simp
  have "piece (read_image img (of_nat (k * n)) (of_nat n)) = take n (drop (k * n) img)"
    using read_image_inside [OF assms(1), of "of_nat (k * n)" "of_nat n"] u le by (simp add: piece_def min_def)
  moreover have "take (Suc k * n) img = take (k * n) img @ take n (drop (k * n) img)"
    by (simp add: take_add [symmetric] add.commute)
  ultimately show ?case using Suc by simp
qed simp

end
