(* ===== verification/Osal_Task.thy ===== *)
theory Osal_Task
  imports Osal
begin

text \<open>
  Tasks and the remaining kernel calls of \<^verbatim>\<open>framework/mm_shims/mmosal_shim_freertos_esp32.c\<close>. A task
  is created with an allocated block that carries its function and argument; the task's first step
  copies and frees the block. The memory of these blocks and the calls the tasks make are the
  state; what \<open>pvPortMalloc\<close> and \<open>xTaskCreate\<close> return are arguments. The other calls are on
  records of FreeRTOS functions.
\<close>

section \<open>Tasks\<close>

record 'f mmosal_task_arg =
  ta_task_fn :: 'f
  ta_task_fn_arg :: nat

datatype task_state = Created nat | Entered | Deleted

record 'f tasks =
  tk_heap :: "nat \<Rightarrow> 'f mmosal_task_arg option"
  tk_tasks :: "nat \<Rightarrow> task_state option"
  tk_calls :: "(nat \<times> 'f \<times> nat) list"

text \<open>
  \<open>mem\<close> is the result of the allocation and \<open>handle\<close> that of \<open>xTaskCreate\<close>. The stack size is given in
  words and passed in bytes, and the priorities start above the idle priority; both are what
  \<open>task_params\<close> gives to \<open>xTaskCreate\<close>.
\<close>

definition task_params :: "u32 \<Rightarrow> u32 \<Rightarrow> u32 \<Rightarrow> u32 \<times> u32" where
  "task_params idle_priority priority stack_size_u32 = (stack_size_u32 * 4, idle_priority + priority)"

definition mmosal_task_create ::
  "nat option \<Rightarrow> nat option \<Rightarrow> 'f \<Rightarrow> nat \<Rightarrow> 'f tasks \<Rightarrow> nat option \<times> 'f tasks" where
  "mmosal_task_create mem handle task_fn argument s =
     (case mem of None \<Rightarrow> (None, s)
      | Some p \<Rightarrow>
          let s = s\<lparr>tk_heap := (tk_heap s)(p \<mapsto> \<lparr>ta_task_fn = task_fn, ta_task_fn_arg = argument\<rparr>)\<rparr> in
          (case handle of None \<Rightarrow> (None, s\<lparr>tk_heap := (tk_heap s)(p := None)\<rparr>)
           | Some h \<Rightarrow> (Some h, s\<lparr>tk_tasks := (tk_tasks s)(h \<mapsto> Created p)\<rparr>)))"

definition mmosal_task_delete :: "nat \<Rightarrow> 'f tasks \<Rightarrow> 'f tasks" where
  "mmosal_task_delete h s = s\<lparr>tk_tasks := (tk_tasks s)(h \<mapsto> Deleted)\<rparr>"

text \<open>
  \<open>mmosal_task_main\<close> in two steps, up to the call of the task function and from its return on:
  in between the other tasks run. \<open>None\<close> is a read of a block that is not allocated.
\<close>

definition task_main_enter :: "nat \<Rightarrow> nat \<Rightarrow> 'f tasks \<Rightarrow> 'f tasks option" where
  "task_main_enter h arg s =
     (case tk_heap s arg of None \<Rightarrow> None
      | Some a \<Rightarrow> Some (s\<lparr>tk_heap := (tk_heap s)(arg := None), tk_tasks := (tk_tasks s)(h \<mapsto> Entered),
          tk_calls := tk_calls s @ [(h, ta_task_fn a, ta_task_fn_arg a)]\<rparr>))"

definition task_main_return :: "nat \<Rightarrow> 'f tasks \<Rightarrow> 'f tasks" where
  "task_main_return h s = mmosal_task_delete h s"

text \<open>
  What can happen: a task is created (the allocator gives a block that is not in use, the kernel a
  handle not used before), the kernel starts a created task, a task function returns, or a
  task is deleted by another one.
\<close>

datatype 'f task_event = Create "nat option" "nat option" 'f nat | Start nat | Return nat | Delete nat

fun task_allowed :: "'f tasks \<Rightarrow> 'f task_event \<Rightarrow> bool" where
  "task_allowed s (Create mem h f a) \<longleftrightarrow>
     (case mem of None \<Rightarrow> True | Some p \<Rightarrow> tk_heap s p = None) \<and> (case h of None \<Rightarrow> True | Some i \<Rightarrow> tk_tasks s i = None)"
| "task_allowed s (Start h) \<longleftrightarrow> (\<exists>p. tk_tasks s h = Some (Created p))"
| "task_allowed s (Return h) \<longleftrightarrow> tk_tasks s h = Some Entered"
| "task_allowed s (Delete h) \<longleftrightarrow> tk_tasks s h \<noteq> None"

fun task_step :: "'f tasks \<Rightarrow> 'f task_event \<Rightarrow> 'f tasks option" where
  "task_step s (Create mem h f a) = Some (snd (mmosal_task_create mem h f a s))"
| "task_step s (Start h) = (case tk_tasks s h of Some (Created p) \<Rightarrow> task_main_enter h p s | _ \<Rightarrow> Some s)"
| "task_step s (Return h) = Some (task_main_return h s)"
| "task_step s (Delete h) = Some (mmosal_task_delete h s)"

inductive task_runs :: "'f task_event list \<Rightarrow> 'f tasks option \<Rightarrow> bool" where
  empty: "task_runs [] (Some \<lparr>tk_heap = \<lambda>_. None, tk_tasks = \<lambda>_. None, tk_calls = []\<rparr>)"
| step: "task_runs es (Some s) \<Longrightarrow> task_allowed s e \<Longrightarrow> task_runs (es @ [e]) (task_step s e)"

inductive_cases task_runsE: "task_runs es r"

text \<open>The tasks the events create, with what they are to call.\<close>

fun created :: "'f task_event list \<Rightarrow> (nat \<times> 'f \<times> nat) list" where
  "created [] = []"
| "created (Create (Some p) (Some h) f a # es) = (h, f, a) # created es"
| "created (e # es) = created es"

lemma created_append [simp]: "created (es @ es') = created es @ created es'"
  by (induction es rule: created.induct) auto

definition tasks_inv :: "'f task_event list \<Rightarrow> 'f tasks \<Rightarrow> bool" where
  "tasks_inv es s \<longleftrightarrow>
     (\<forall>h p. tk_tasks s h = Some (Created p) \<longrightarrow>
        (\<exists>f a. tk_heap s p = Some \<lparr>ta_task_fn = f, ta_task_fn_arg = a\<rparr> \<and> (h, f, a) \<in> set (created es)) \<and>
        h \<notin> fst ` set (tk_calls s)) \<and>
     (\<forall>h h' p. tk_tasks s h = Some (Created p) \<longrightarrow> tk_tasks s h' = Some (Created p) \<longrightarrow> h = h') \<and>
     (\<forall>h. h \<in> fst ` set (tk_calls s) \<longrightarrow> tk_tasks s h \<noteq> None) \<and>
     (\<forall>h. h \<in> fst ` set (created es) \<longrightarrow> tk_tasks s h \<noteq> None) \<and>
     set (tk_calls s) \<subseteq> set (created es) \<and> distinct (map fst (tk_calls s)) \<and> distinct (map fst (created es)) \<and>
     (\<forall>p. tk_heap s p \<noteq> None \<longrightarrow> (\<exists>h. tk_tasks s h = Some (Created p)) \<or> (\<exists>h. Delete h \<in> set es))"

lemma tasks_invD:
  assumes "tasks_inv es s"
  shows "\<And>h p. tk_tasks s h = Some (Created p) \<Longrightarrow>
      \<exists>f a. tk_heap s p = Some \<lparr>ta_task_fn = f, ta_task_fn_arg = a\<rparr> \<and> (h, f, a) \<in> set (created es)"
    "\<And>h p. tk_tasks s h = Some (Created p) \<Longrightarrow> h \<notin> fst ` set (tk_calls s)"
    "\<And>h h' p. tk_tasks s h = Some (Created p) \<Longrightarrow> tk_tasks s h' = Some (Created p) \<Longrightarrow> h = h'"
    "\<And>h. h \<in> fst ` set (tk_calls s) \<Longrightarrow> tk_tasks s h \<noteq> None"
    "\<And>h. h \<in> fst ` set (created es) \<Longrightarrow> tk_tasks s h \<noteq> None"
    "set (tk_calls s) \<subseteq> set (created es)" "distinct (map fst (tk_calls s))" "distinct (map fst (created es))"
    "\<And>p. tk_heap s p \<noteq> None \<Longrightarrow> (\<exists>h. tk_tasks s h = Some (Created p)) \<or> (\<exists>h. Delete h \<in> set es)"
  using assms unfolding tasks_inv_def by meson+

lemma create_inv:
  assumes "tasks_inv es s" "tk_heap s p = None" "tk_tasks s i = None"
  shows "tasks_inv (es @ [Create (Some p) (Some i) f a]) (snd (mmosal_task_create (Some p) (Some i) f a s))"
proof -
  note D = tasks_invD [OF assms(1)]
  have new: "i \<notin> fst ` set (tk_calls s)" "i \<notin> fst ` set (created es)" using D(4,5) assms(3) by blast+
  have un: "tk_tasks s h \<noteq> Some (Created p)" for h using D(1) assms(2) by fastforce
  let ?s = "snd (mmosal_task_create (Some p) (Some i) f a s)"
  have e: "tk_tasks ?s = (tk_tasks s)(i \<mapsto> Created p)" "tk_calls ?s = tk_calls s"
    "tk_heap ?s = (tk_heap s)(p \<mapsto> \<lparr>ta_task_fn = f, ta_task_fn_arg = a\<rparr>)"
    by (simp_all add: mmosal_task_create_def)
  show ?thesis
    unfolding tasks_inv_def e created_append
  proof (intro conjI allI impI, goal_cases)
    case (1 h q)
    then show ?case using D(1) [of h q] un [of h] by (cases "h = i") auto
  next
    case (2 h q)
    then show ?case using D(2) [of h q] new by (cases "h = i") auto
  next
    case (3 h h' q)
    then show ?case using D(3) [of h q h'] un [of h] un [of h'] by (auto split: if_splits)
  next
    case (4 h)
    then show ?case using D(4) [of h] by simp
  next
    case (5 h)
    then show ?case using D(5) [of h] by auto
  next
    case 6
    then show ?case using D(6) by auto
  next
    case 7
    then show ?case by (rule D(7))
  next
    case 8
    then show ?case using D(8) new by simp
  next
    case (9 q)
    then show ?case using D(9) [of q] un assms(3) by (cases "q = p") force+
  qed
qed

lemma start_inv:
  assumes "tasks_inv es s" "tk_tasks s h0 = Some (Created p)"
  shows "\<exists>s'. task_main_enter h0 p s = Some s' \<and> tasks_inv (es @ [Start h0]) s'"
proof -
  note D = tasks_invD [OF assms(1)]
  obtain f a where a: "tk_heap s p = Some \<lparr>ta_task_fn = f, ta_task_fn_arg = a\<rparr>" "(h0, f, a) \<in> set (created es)"
    using D(1) [OF assms(2)] by blast
  let ?s = "s\<lparr>tk_heap := (tk_heap s)(p := None), tk_tasks := (tk_tasks s)(h0 \<mapsto> Entered), tk_calls := tk_calls s @ [(h0, f, a)]\<rparr>"
  have own: "h = h0" if "tk_tasks s h = Some (Created p)" for h using D(3) [OF that assms(2)] .
  have "tasks_inv (es @ [Start h0]) ?s"
    unfolding tasks_inv_def created_append
  proof (intro conjI allI impI, goal_cases)
    case (1 h q)
    then show ?case using D(1) [of h q] own [of h] by (auto split: if_splits)
  next
    case (2 h q)
    then show ?case using D(2) [of h q] by (auto split: if_splits)
  next
    case (3 h h' q)
    then show ?case using D(3) [of h q h'] by (auto split: if_splits)
  next
    case (4 h)
    then show ?case using D(4) [of h] by auto
  next
    case (5 h)
    then show ?case using D(5) [of h] by auto
  next
    case 6
    then show ?case using D(6) a(2) by auto
  next
    case 7
    then show ?case using D(2) [OF assms(2)] D(7) by simp
  next
    case 8
    then show ?case using D(8) by simp
  next
    case (9 q)
    then show ?case using D(9) [of q] assms(2) by (auto split: if_splits) (metis option.inject task_state.inject)
  qed
  then show ?thesis using a by (simp add: task_main_enter_def)
qed

lemma gone_inv:
  assumes "tasks_inv es s" "tk_tasks s h0 = Some Entered \<or> e = Delete h0" "created [e] = []"
  shows "tasks_inv (es @ [e]) (mmosal_task_delete h0 s)"
proof -
  note D = tasks_invD [OF assms(1)]
  show ?thesis
    unfolding tasks_inv_def created_append assms(3) mmosal_task_delete_def
  proof (intro conjI allI impI, goal_cases)
    case (1 h q)
    then show ?case using D(1) [of h q] by (auto split: if_splits)
  next
    case (2 h q)
    then show ?case using D(2) [of h q] by (auto split: if_splits)
  next
    case (3 h h' q)
    then show ?case using D(3) [of h q h'] by (auto split: if_splits)
  next
    case (4 h)
    then show ?case using D(4) [of h] by auto
  next
    case (5 h)
    then show ?case using D(5) [of h] by auto
  next
    case (9 q)
    then show ?case using D(9) [of q] assms(2) by auto (metis option.inject task_state.distinct(1))
  qed (use D(6,7,8) in auto)
qed

lemma task_step_inv:
  assumes "tasks_inv es s" "task_allowed s e"
  shows "\<exists>s'. task_step s e = Some s' \<and> tasks_inv (es @ [e]) s'"
proof (cases e)
  case (Create mem h f a)
  then show ?thesis
  proof (cases mem; cases h)
    fix p i assume "mem = Some p" "h = Some i"
    then show ?thesis using create_inv [OF assms(1)] assms(2) Create by simp
  next
    fix p assume m: "mem = Some p" "h = None"
    then have "snd (mmosal_task_create mem h f a s) = s"
      using assms(2) Create by (simp add: mmosal_task_create_def fun_upd_idem)
    then show ?thesis using assms(1) Create m by (auto simp: tasks_inv_def)
  qed (use assms Create in \<open>auto simp: mmosal_task_create_def tasks_inv_def\<close>)
next
  case (Start h)
  then show ?thesis using assms(2) start_inv [OF assms(1), of h] by auto
next
  case (Return h)
  then show ?thesis using assms(2) gone_inv [OF assms(1), of h e] by (simp add: task_main_return_def)
next
  case (Delete h)
  then show ?thesis using gone_inv [OF assms(1), of h e] by simp
qed

lemma task_runs_inv: "task_runs es r \<Longrightarrow> \<exists>s. r = Some s \<and> tasks_inv es s"
proof (induction rule: task_runs.induct)
  case empty
  then show ?case by (simp add: tasks_inv_def)
next
  case (step es s e)
  then show ?case using task_step_inv by blast
qed

text \<open>C39: In every sequence of creations, starts, returns and deletions of tasks, no task reads a block
  that has been freed, every call of a task function is that of a created task with its own argument and no
  task makes it twice; and as long as no task is deleted by another one, the only blocks allocated
  are those of tasks that have not started.\<close>

theorem tasks_call_once:
  assumes "task_runs es r"
  shows "\<exists>s. r = Some s \<and> set (tk_calls s) \<subseteq> set (created es) \<and> distinct (map fst (tk_calls s)) \<and>
    ((\<forall>h. Delete h \<notin> set es) \<longrightarrow> (\<forall>p. tk_heap s p \<noteq> None \<longleftrightarrow> (\<exists>h. tk_tasks s h = Some (Created p))))"
proof -
  obtain s where s: "r = Some s" "tasks_inv es s" using task_runs_inv [OF assms] by blast
  note D = tasks_invD [OF s(2)]
  have "tk_heap s p \<noteq> None" if "tk_tasks s h = Some (Created p)" for h p using D(1) [OF that] by auto
  then show ?thesis using s(1) D(6,7,9) by (intro exI [of _ s] conjI impI allI iffI) blast+
qed

abbreviation no_tasks :: "string tasks" where
  "no_tasks \<equiv> \<lparr>tk_heap = \<lambda>_. None, tk_tasks = \<lambda>_. None, tk_calls = []\<rparr>"

lemma task_runs_two: "task_allowed no_tasks e \<Longrightarrow> task_step no_tasks e = Some s \<Longrightarrow> task_allowed s e' \<Longrightarrow> task_runs [e, e'] (task_step s e')"
  using task_runs.step [OF task_runs.empty, of e] task_runs.step [of "[e]" s e'] by simp

theorem tasks_call_once_witness:
  "\<exists>s. task_runs [Create (Some 64) (Some 1) ''halow'' 7, Start 1] (Some s) \<and> tk_calls s = [(1, ''halow'', 7)] \<and>
     distinct (map fst (tk_calls s)) \<and> tk_heap s 64 = None"
proof -
  let ?s = "snd (mmosal_task_create (Some 64) (Some 1) ''halow'' 7 no_tasks)"
  have r: "task_runs [Create (Some 64) (Some 1) ''halow'' 7, Start 1] (task_step ?s (Start 1))"
    by (rule task_runs_two) (simp_all add: mmosal_task_create_def)
  from tasks_call_once [OF this] obtain s where s: "task_step ?s (Start 1) = Some s" "distinct (map fst (tk_calls s))" by blast
  moreover have "tk_calls s = [(1, ''halow'', 7)]" "tk_heap s 64 = None"
    using s(1) by (auto simp: mmosal_task_create_def task_main_enter_def)
  ultimately show ?thesis using r by auto
qed

text \<open>A task that another one deletes before it has started leaves its block allocated.\<close>

lemma deleted_before_start_leaks:
  "task_runs [Create (Some 64) (Some 1) ''halow'' 7, Delete 1]
     (Some (mmosal_task_delete 1 (snd (mmosal_task_create (Some 64) (Some 1) ''halow'' 7 no_tasks))))"
  "tk_heap (mmosal_task_delete 1 (snd (mmosal_task_create (Some 64) (Some 1) ''halow'' 7 no_tasks))) 64 \<noteq> None"
proof -
  show "task_runs [Create (Some 64) (Some 1) ''halow'' 7, Delete 1]
     (Some (mmosal_task_delete 1 (snd (mmosal_task_create (Some 64) (Some 1) ''halow'' 7 no_tasks))))"
    using task_runs_two [of "Create (Some 64) (Some 1) ''halow'' 7" _ "Delete 1"] by (simp add: mmosal_task_create_def)
qed (simp add: mmosal_task_create_def mmosal_task_delete_def)

section \<open>Kernel calls\<close>

text \<open>
  The FreeRTOS functions behind the remaining calls, on a state of the kernel; handles are numbers, a creation
  that fails gives \<open>None\<close>, and a call from an interrupt also tells whether it has woken a task of a higher
  priority.
\<close>

record ('k, 'x) kernel =
  pvPortMalloc :: "'k \<Rightarrow> nat \<Rightarrow> 'k \<times> nat option"
  vPortFree :: "'k \<Rightarrow> nat \<Rightarrow> 'k"
  krealloc :: "'k \<Rightarrow> nat \<Rightarrow> nat \<Rightarrow> 'k \<times> nat option"
  is_eDeleted :: "'k \<Rightarrow> nat \<Rightarrow> bool"
  xTaskGetCurrentTaskHandle :: "'k \<Rightarrow> nat"
  pcTaskGetName :: "'k \<Rightarrow> nat \<Rightarrow> string"
  taskYIELD :: "'k \<Rightarrow> 'k"
  kTaskDelay :: "'k \<Rightarrow> u32 \<Rightarrow> 'k"
  taskENTER_CRITICAL :: "'k \<Rightarrow> 'k"
  taskEXIT_CRITICAL :: "'k \<Rightarrow> 'k"
  taskDISABLE_INTERRUPTS :: "'k \<Rightarrow> 'k"
  taskENABLE_INTERRUPTS :: "'k \<Rightarrow> 'k"
  pdMS_TO_TICKS :: "u32 \<Rightarrow> u32"
  tick_period_ms :: u32
  ulTaskNotifyTake :: "'k \<Rightarrow> u32 \<Rightarrow> 'k \<times> u32"
  xTaskNotifyGive :: "'k \<Rightarrow> nat \<Rightarrow> 'k"
  vTaskNotifyGiveFromISR :: "'k \<Rightarrow> nat \<Rightarrow> 'k \<times> bool"
  portYIELD_FROM_ISR :: "'k \<Rightarrow> bool \<Rightarrow> 'k"
  xSemaphoreCreateMutex :: "'k \<Rightarrow> 'k \<times> nat option"
  xSemaphoreCreateCounting :: "'k \<Rightarrow> u32 \<Rightarrow> u32 \<Rightarrow> 'k \<times> nat option"
  xSemaphoreCreateBinary :: "'k \<Rightarrow> 'k \<times> nat option"
  xQueueCreate :: "'k \<Rightarrow> nat \<Rightarrow> nat \<Rightarrow> 'k \<times> nat option"
  vQueueDelete :: "'k \<Rightarrow> nat \<Rightarrow> 'k"
  xSemaphoreGetMutexHolder :: "'k \<Rightarrow> nat \<Rightarrow> nat"
  uxSemaphoreGetCount :: "'k \<Rightarrow> nat \<Rightarrow> u32"
  xSemaphoreGiveFromISR :: "'k \<Rightarrow> nat \<Rightarrow> 'k \<times> bool \<times> bool"
  xQueueReceiveFromISR :: "'k \<Rightarrow> nat \<Rightarrow> 'k \<times> 'x option \<times> bool"
  xQueueSendToBackFromISR :: "'k \<Rightarrow> nat \<Rightarrow> 'x \<Rightarrow> 'k \<times> bool \<times> bool"

definition mmosal_malloc :: "('k, 'x) kernel \<Rightarrow> 'k \<Rightarrow> nat \<Rightarrow> 'k \<times> nat option" where
  "mmosal_malloc K k sz = pvPortMalloc K k sz"

definition mmosal_free :: "('k, 'x) kernel \<Rightarrow> 'k \<Rightarrow> nat \<Rightarrow> 'k" where
  "mmosal_free K k p = vPortFree K k p"

definition mmosal_realloc :: "('k, 'x) kernel \<Rightarrow> 'k \<Rightarrow> nat \<Rightarrow> nat \<Rightarrow> 'k \<times> nat option" where
  "mmosal_realloc K k p sz = krealloc K k p sz"

text \<open>\<open>None\<close> when the task never ends.\<close>

partial_function (option) mmosal_task_join :: "('k, 'x) kernel \<Rightarrow> nat \<Rightarrow> 'k \<Rightarrow> 'k option" where
  "mmosal_task_join K task k =
     (if is_eDeleted K k task then Some k else mmosal_task_join K task (kTaskDelay K k (10 div tick_period_ms K)))"

definition mmosal_task_get_active :: "('k, 'x) kernel \<Rightarrow> 'k \<Rightarrow> nat" where
  "mmosal_task_get_active K k = xTaskGetCurrentTaskHandle K k"

definition mmosal_task_yield :: "('k, 'x) kernel \<Rightarrow> 'k \<Rightarrow> 'k" where
  "mmosal_task_yield K k = taskYIELD K k"

definition mmosal_task_enter_critical :: "('k, 'x) kernel \<Rightarrow> 'k \<Rightarrow> 'k" where
  "mmosal_task_enter_critical K k = taskENTER_CRITICAL K k"

definition mmosal_task_exit_critical :: "('k, 'x) kernel \<Rightarrow> 'k \<Rightarrow> 'k" where
  "mmosal_task_exit_critical K k = taskEXIT_CRITICAL K k"

definition mmosal_disable_interrupts :: "('k, 'x) kernel \<Rightarrow> 'k \<Rightarrow> 'k" where
  "mmosal_disable_interrupts K k = taskDISABLE_INTERRUPTS K k"

definition mmosal_enable_interrupts :: "('k, 'x) kernel \<Rightarrow> 'k \<Rightarrow> 'k" where
  "mmosal_enable_interrupts K k = taskENABLE_INTERRUPTS K k"

definition mmosal_task_name :: "('k, 'x) kernel \<Rightarrow> 'k \<Rightarrow> string" where
  "mmosal_task_name K k = pcTaskGetName K k (xTaskGetCurrentTaskHandle K k)"

definition mmosal_task_wait_for_notification :: "('k, 'x) kernel \<Rightarrow> 'k \<Rightarrow> u32 \<Rightarrow> 'k \<times> bool" where
  "mmosal_task_wait_for_notification K k timeout_ms =
     (let wait = (if timeout_ms < - 1 then pdMS_TO_TICKS K timeout_ms else portMAX_DELAY);
          (k, ret) = ulTaskNotifyTake K k wait in (k, ret \<noteq> 0))"

definition mmosal_task_notify :: "('k, 'x) kernel \<Rightarrow> 'k \<Rightarrow> nat \<Rightarrow> 'k" where
  "mmosal_task_notify K k task = xTaskNotifyGive K k task"

definition mmosal_task_notify_from_isr :: "('k, 'x) kernel \<Rightarrow> 'k \<Rightarrow> nat \<Rightarrow> 'k" where
  "mmosal_task_notify_from_isr K k task =
     (let (k, woken) = vTaskNotifyGiveFromISR K k task in portYIELD_FROM_ISR K k woken)"

definition mmosal_mutex_create :: "('k, 'x) kernel \<Rightarrow> 'k \<Rightarrow> 'k \<times> nat option" where
  "mmosal_mutex_create K k = xSemaphoreCreateMutex K k"

definition mmosal_mutex_delete :: "('k, 'x) kernel \<Rightarrow> 'k \<Rightarrow> nat option \<Rightarrow> 'k" where
  "mmosal_mutex_delete K k mutex = (case mutex of None \<Rightarrow> k | Some m \<Rightarrow> vQueueDelete K k m)"

definition mmosal_mutex_is_held_by_active_task :: "('k, 'x) kernel \<Rightarrow> 'k \<Rightarrow> nat \<Rightarrow> bool" where
  "mmosal_mutex_is_held_by_active_task K k mutex \<longleftrightarrow> xSemaphoreGetMutexHolder K k mutex = xTaskGetCurrentTaskHandle K k"

definition mmosal_sem_create :: "('k, 'x) kernel \<Rightarrow> 'k \<Rightarrow> u32 \<Rightarrow> u32 \<Rightarrow> 'k \<times> nat option" where
  "mmosal_sem_create K k max_count initial_count = xSemaphoreCreateCounting K k max_count initial_count"

definition mmosal_sem_delete :: "('k, 'x) kernel \<Rightarrow> 'k \<Rightarrow> nat \<Rightarrow> 'k" where
  "mmosal_sem_delete K k sem = vQueueDelete K k sem"

text \<open>The two calls that give a semaphore from an interrupt have the same body.\<close>

definition give_from_isr :: "('k, 'x) kernel \<Rightarrow> 'k \<Rightarrow> nat \<Rightarrow> 'k \<times> bool" where
  "give_from_isr K k sem =
     (let (k, ret, woken) = xSemaphoreGiveFromISR K k sem in
      if ret then (portYIELD_FROM_ISR K k woken, True) else (k, False))"

definition mmosal_sem_give_from_isr :: "('k, 'x) kernel \<Rightarrow> 'k \<Rightarrow> nat \<Rightarrow> 'k \<times> bool" where
  "mmosal_sem_give_from_isr K k sem = give_from_isr K k sem"

definition mmosal_sem_get_count :: "('k, 'x) kernel \<Rightarrow> 'k \<Rightarrow> nat \<Rightarrow> u32" where
  "mmosal_sem_get_count K k sem = uxSemaphoreGetCount K k sem"

definition mmosal_semb_create :: "('k, 'x) kernel \<Rightarrow> 'k \<Rightarrow> 'k \<times> nat option" where
  "mmosal_semb_create K k = xSemaphoreCreateBinary K k"

definition mmosal_semb_delete :: "('k, 'x) kernel \<Rightarrow> 'k \<Rightarrow> nat \<Rightarrow> 'k" where
  "mmosal_semb_delete K k semb = vQueueDelete K k semb"

definition mmosal_semb_give_from_isr :: "('k, 'x) kernel \<Rightarrow> 'k \<Rightarrow> nat \<Rightarrow> 'k \<times> bool" where
  "mmosal_semb_give_from_isr K k semb = give_from_isr K k semb"

definition mmosal_queue_create :: "('k, 'x) kernel \<Rightarrow> 'k \<Rightarrow> nat \<Rightarrow> nat \<Rightarrow> 'k \<times> nat option" where
  "mmosal_queue_create K k num_items item_size = xQueueCreate K k num_items item_size"

definition mmosal_queue_delete :: "('k, 'x) kernel \<Rightarrow> 'k \<Rightarrow> nat \<Rightarrow> 'k" where
  "mmosal_queue_delete K k queue = vQueueDelete K k queue"

definition mmosal_queue_pop_from_isr :: "('k, 'x) kernel \<Rightarrow> 'k \<Rightarrow> nat \<Rightarrow> 'k \<times> 'x option" where
  "mmosal_queue_pop_from_isr K k queue =
     (let (k, item, woken) = xQueueReceiveFromISR K k queue in
      case item of Some x \<Rightarrow> (portYIELD_FROM_ISR K k woken, Some x) | None \<Rightarrow> (k, None))"

definition mmosal_queue_push_from_isr :: "('k, 'x) kernel \<Rightarrow> 'k \<Rightarrow> nat \<Rightarrow> 'x \<Rightarrow> 'k \<times> bool" where
  "mmosal_queue_push_from_isr K k queue item =
     (let (k, ret, woken) = xQueueSendToBackFromISR K k queue item in
      if ret then (portYIELD_FROM_ISR K k woken, True) else (k, False))"

text \<open>
  Notifications are a binary semaphore: with the kernel's documented counter, any number of
  notifications before a wait makes that wait succeed and the next one fail, and no notification is
  lost to a wait that comes later.
\<close>

lemma notifications_collapse:
  assumes give: "\<And>k. notes (xTaskNotifyGive K k task) = notes k + 1"
    and take: "\<And>k w. snd (ulTaskNotifyTake K k w) = notes k \<and> notes (fst (ulTaskNotifyTake K k w)) = 0"
    and n: "0 < n" "n < 2 ^ 32" "notes k = 0"
  defines "k1 \<equiv> ((\<lambda>k. mmosal_task_notify K k task) ^^ n) k"
  shows "snd (mmosal_task_wait_for_notification K k1 t)"
    "\<not> snd (mmosal_task_wait_for_notification K (fst (mmosal_task_wait_for_notification K k1 t)) t')"
proof -
  have "notes (((\<lambda>k. mmosal_task_notify K k task) ^^ i) k) = (of_nat i :: u32)" for i
    using n(3) by (induction i) (simp_all add: mmosal_task_notify_def give)
  then have k1: "notes k1 = of_nat n" by (simp add: k1_def)
  have "unat (of_nat n :: u32) = n" using n(2) by (simp add: unat_of_nat)
  then have "(of_nat n :: u32) \<noteq> 0" using n(1) by (metis less_irrefl unat_0)
  then show "snd (mmosal_task_wait_for_notification K k1 t)"
    using take [of k1] k1 by (simp add: mmosal_task_wait_for_notification_def Let_def split: prod.splits) (metis fst_conv snd_conv)
  have "notes (fst (mmosal_task_wait_for_notification K k1 t)) = 0"
    using take [of k1] by (simp add: mmosal_task_wait_for_notification_def Let_def split: prod.splits) (metis fst_conv snd_conv)
  then show "\<not> snd (mmosal_task_wait_for_notification K (fst (mmosal_task_wait_for_notification K k1 t)) t')"
    using take [of "fst (mmosal_task_wait_for_notification K k1 t)"]
    by (simp add: mmosal_task_wait_for_notification_def [of _ "fst _"] Let_def split: prod.splits) (metis fst_conv snd_conv)
qed

text \<open>A call from an interrupt that fails does not ask for a switch of tasks.\<close>

lemma failed_isr_calls_do_not_yield:
  "\<not> snd (give_from_isr K k sem) \<Longrightarrow> fst (give_from_isr K k sem) = fst (xSemaphoreGiveFromISR K k sem)"
  "\<not> snd (mmosal_queue_push_from_isr K k q x) \<Longrightarrow> fst (mmosal_queue_push_from_isr K k q x) = fst (xQueueSendToBackFromISR K k q x)"
  by (auto simp: give_from_isr_def mmosal_queue_push_from_isr_def split: prod.splits if_splits)

text \<open>A task that is deleted already is not waited for, and one that the delays bring to its end is.\<close>

lemma task_join_ends:
  assumes "is_eDeleted K (((\<lambda>k. kTaskDelay K k (10 div tick_period_ms K)) ^^ n) k) task"
  shows "\<exists>k'. mmosal_task_join K task k = Some k' \<and> is_eDeleted K k' task"
  using assms
proof (induction n arbitrary: k)
  case 0
  then show ?case by (simp add: mmosal_task_join.simps)
next
  case (Suc n)
  have "\<exists>k'. mmosal_task_join K task (kTaskDelay K k (10 div tick_period_ms K)) = Some k' \<and> is_eDeleted K k' task"
    by (rule Suc.IH) (use Suc.prems in \<open>simp add: funpow_Suc_right del: funpow.simps\<close>)
  then show ?case by (simp add: mmosal_task_join.simps [of K task k])
qed

end
