(* ===== verification/Hal.thy ===== *)
theory Hal
  imports Bridge_Prelude
begin

text \<open>
  The hardware abstraction of the ESP32 board: \<^verbatim>\<open>framework/mm_shims/mmhal_core.c\<close>,
  \<^verbatim>\<open>mmhal_os.c\<close> and \<^verbatim>\<open>mmhal_wlan.c\<close>. The drivers of the ESP-IDF are outside the sources; the state is the
  sequence of operations on them, from which the level of an output pin and the registered interrupt
  handlers are read, and what the hardware gives back (a random number, received bytes, the level of an
  input, the address in the fuses) is an argument.
\<close>

section \<open>Operations on the hardware\<close>

datatype pin = MM_WAKE | MM_SPI_CS | MM_BUSY | MM_SPI_IRQ | MM_RESET_N

datatype gpio_mode = GPIO_MODE_OUTPUT | GPIO_MODE_INPUT

datatype gpio_intr = GPIO_INTR_DISABLE | GPIO_INTR_LOW_LEVEL | GPIO_INTR_POSEDGE

datatype hal_op = Gpio_config "pin list" gpio_mode bool | Gpio_set_level pin bool
  | Gpio_set_intr_type pin gpio_intr | Gpio_isr_handler_add pin nat | Gpio_isr_handler_remove pin
  | Gpio_install_isr_service | Spi_bus_initialize | Spi_bus_add_device | Spi_bus_remove_device | Spi_bus_free
  | Spi_polling_transmit "u8 list option" nat | Spi_transmit "u8 list option" nat | Task_sleep nat
  | Putc u8 | Esp_restart

type_synonym hal = "hal_op list"

text \<open>The level last set on a pin, and the handler registered on it.\<close>

fun pin_level :: "pin \<Rightarrow> hal \<Rightarrow> bool option" where
  "pin_level p [] = None"
| "pin_level p (op # ops) = (case pin_level p ops of Some l \<Rightarrow> Some l
     | None \<Rightarrow> (case op of Gpio_set_level q l \<Rightarrow> if q = p then Some l else None | _ \<Rightarrow> None))"

definition isr_step :: "pin \<Rightarrow> hal_op \<Rightarrow> nat option \<Rightarrow> nat option" where
  "isr_step p op h = (case op of Gpio_isr_handler_add q f \<Rightarrow> if q = p then Some f else h
     | Gpio_isr_handler_remove q \<Rightarrow> if q = p then None else h | _ \<Rightarrow> h)"

definition isr_handler :: "pin \<Rightarrow> hal \<Rightarrow> nat option" where
  "isr_handler p ops = fold (isr_step p) ops None"

section \<open>Core functions\<close>

text \<open>\<open>None\<close> is a division by zero.\<close>

definition mmhal_random_u32 :: "u32 \<Rightarrow> u32 \<Rightarrow> u32 \<Rightarrow> u32 option" where
  "mmhal_random_u32 random_value lo hi =
     (if lo = 0 \<and> hi = - 1 then Some random_value
      else if hi - lo + 1 = 0 then None
      else Some (random_value mod (hi - lo + 1) + lo))"

definition mmhal_init :: "hal \<Rightarrow> hal" where
  "mmhal_init h = h @ [Gpio_config [MM_RESET_N] GPIO_MODE_OUTPUT False, Gpio_set_level MM_RESET_N False,
     Gpio_install_isr_service]"

fun mmhal_log_write :: "u8 list \<Rightarrow> nat \<Rightarrow> hal \<Rightarrow> hal option" where
  "mmhal_log_write data 0 h = Some h"
| "mmhal_log_write [] (Suc n) h = None"
| "mmhal_log_write (b # data) (Suc n) h = mmhal_log_write data n (h @ [Putc b])"

definition mmhal_reset :: "hal \<Rightarrow> hal" where "mmhal_reset h = h @ [Esp_restart]"

section \<open>The WLAN transceiver\<close>

definition wlan_hal_gpio_init :: "hal \<Rightarrow> hal" where
  "wlan_hal_gpio_init h = h @ [Gpio_config [MM_WAKE, MM_SPI_CS] GPIO_MODE_OUTPUT False,
     Gpio_set_level MM_WAKE False, Gpio_set_level MM_SPI_CS False,
     Gpio_config [MM_BUSY] GPIO_MODE_INPUT True, Gpio_config [MM_SPI_IRQ] GPIO_MODE_INPUT False]"

definition wlan_hal_spi_init :: "hal \<Rightarrow> hal" where
  "wlan_hal_spi_init h = h @ [Spi_bus_initialize, Spi_bus_add_device]"

definition wlan_hal_spi_deinit :: "hal \<Rightarrow> hal" where
  "wlan_hal_spi_deinit h = h @ [Spi_bus_remove_device, Spi_bus_free]"

definition INTERRUPT_TRANSFER_MIN_LENGTH :: nat where "INTERRUPT_TRANSFER_MIN_LENGTH = 75"

text \<open>\<open>w_data = None\<close> is the null pointer of a pure read.\<close>

definition spi_master_rw :: "u8 list option \<Rightarrow> nat \<Rightarrow> hal \<Rightarrow> hal" where
  "spi_master_rw w_data len h =
     h @ [if len < INTERRUPT_TRANSFER_MIN_LENGTH then Spi_polling_transmit w_data (len * 8)
          else Spi_transmit w_data (len * 8)]"

definition mmhal_wlan_hard_reset :: "hal \<Rightarrow> hal" where
  "mmhal_wlan_hard_reset h = h @ [Gpio_set_level MM_RESET_N False, Task_sleep 5, Gpio_set_level MM_RESET_N True,
     Task_sleep 20]"

definition mmhal_wlan_spi_cs_assert :: "hal \<Rightarrow> hal" where
  "mmhal_wlan_spi_cs_assert h = h @ [Gpio_set_level MM_SPI_CS False]"

definition mmhal_wlan_spi_cs_deassert :: "hal \<Rightarrow> hal" where
  "mmhal_wlan_spi_cs_deassert h = h @ [Gpio_set_level MM_SPI_CS True]"

text \<open>\<open>miso\<close> is the byte the transceiver sends during the transfer.\<close>

definition mmhal_wlan_spi_rw :: "u8 \<Rightarrow> u8 \<Rightarrow> hal \<Rightarrow> u8 \<times> hal" where
  "mmhal_wlan_spi_rw miso data h = (miso, spi_master_rw (Some [data]) 1 h)"

definition mmhal_wlan_spi_read_buf :: "u8 list \<Rightarrow> nat \<Rightarrow> hal \<Rightarrow> u8 list \<times> hal" where
  "mmhal_wlan_spi_read_buf miso len h = (take len miso, spi_master_rw None len h)"

definition mmhal_wlan_spi_write_buf :: "u8 list \<Rightarrow> nat \<Rightarrow> hal \<Rightarrow> hal" where
  "mmhal_wlan_spi_write_buf buf len h = spi_master_rw (Some (take len buf)) len h"

definition BYTE_TRAIN :: nat where "BYTE_TRAIN = 16"

definition mmhal_wlan_send_training_seq :: "hal \<Rightarrow> hal" where
  "mmhal_wlan_send_training_seq h =
     spi_master_rw (Some (replicate BYTE_TRAIN 0xFF)) BYTE_TRAIN (mmhal_wlan_spi_cs_deassert h)"

definition mmhal_wlan_register_spi_irq_handler :: "nat \<Rightarrow> hal \<Rightarrow> hal" where
  "mmhal_wlan_register_spi_irq_handler handler h = h @ [Gpio_isr_handler_add MM_SPI_IRQ handler]"

definition mmhal_wlan_spi_irq_is_asserted :: "bool \<Rightarrow> bool" where
  "mmhal_wlan_spi_irq_is_asserted level = (\<not> level)"

definition mmhal_wlan_set_spi_irq_enabled :: "bool \<Rightarrow> hal \<Rightarrow> hal" where
  "mmhal_wlan_set_spi_irq_enabled enabled h =
     h @ [Gpio_set_intr_type MM_SPI_IRQ (if enabled then GPIO_INTR_LOW_LEVEL else GPIO_INTR_DISABLE)]"

definition mmhal_wlan_init :: "hal \<Rightarrow> hal" where
  "mmhal_wlan_init h = wlan_hal_spi_init (wlan_hal_gpio_init h) @ [Gpio_set_level MM_RESET_N True]"

definition mmhal_wlan_deinit :: "hal \<Rightarrow> hal" where
  "mmhal_wlan_deinit h = wlan_hal_spi_deinit (h @ [Gpio_set_level MM_RESET_N False]) @
     [Gpio_isr_handler_remove MM_SPI_IRQ, Gpio_isr_handler_remove MM_BUSY]"

definition mmhal_wlan_wake_assert :: "hal \<Rightarrow> hal" where
  "mmhal_wlan_wake_assert h = h @ [Gpio_set_level MM_WAKE True]"

definition mmhal_wlan_wake_deassert :: "hal \<Rightarrow> hal" where
  "mmhal_wlan_wake_deassert h = h @ [Gpio_set_level MM_WAKE False]"

definition mmhal_wlan_busy_is_asserted :: "bool \<Rightarrow> bool" where
  "mmhal_wlan_busy_is_asserted level = level"

definition mmhal_wlan_register_busy_irq_handler :: "nat \<Rightarrow> hal \<Rightarrow> hal" where
  "mmhal_wlan_register_busy_irq_handler handler h = h @ [Gpio_isr_handler_add MM_BUSY handler]"

definition mmhal_wlan_set_busy_irq_enabled :: "bool \<Rightarrow> hal \<Rightarrow> hal" where
  "mmhal_wlan_set_busy_irq_enabled enabled h =
     h @ [Gpio_set_intr_type MM_BUSY (if enabled then GPIO_INTR_POSEDGE else GPIO_INTR_DISABLE)]"

text \<open>Addresses of six bytes; \<open>efuse\<close> is what \<open>esp_efuse_mac_get_default\<close> stores.\<close>

definition mm_mac_addr_is_zero :: "u8 list \<Rightarrow> bool" where
  "mm_mac_addr_is_zero m \<longleftrightarrow> (m ! 0 OR m ! 1 OR m ! 2 OR m ! 3 OR m ! 4 OR m ! 5) = 0"

definition generate_stable_mac_addr :: "u8 list \<Rightarrow> u8 list" where
  "generate_stable_mac_addr efuse = efuse[0 := 0x02, 1 := 0x00]"

definition mmhal_read_mac_addr :: "u8 list \<Rightarrow> u8 list \<Rightarrow> u8 list" where
  "mmhal_read_mac_addr efuse mac_addr =
     (if \<not> mm_mac_addr_is_zero mac_addr then mac_addr else generate_stable_mac_addr efuse)"

section \<open>Properties\<close>

lemma unat_u32_lt: "unat (x :: u32) < 2 ^ 32"
proof -
  have "unat x < 2 ^ LENGTH(32)" by (rule unsigned_less)
  then show ?thesis by simp
qed

text \<open>
  A random number lies in the requested range, and every number of the range is the result for some
  random value; the one case of a range that traps is an empty one whose bounds follow each other.
\<close>

lemma random_range_size:
  assumes "lo \<le> (hi :: u32)" "\<not> (lo = 0 \<and> hi = - 1)"
  shows "unat (hi - lo + 1) = unat hi - unat lo + 1"
proof -
  have "unat hi - unat lo + 1 < 2 ^ 32"
  proof (cases "lo = 0")
    case True
    then have "hi \<noteq> - 1" using assms(2) by simp
    then have "unat hi \<noteq> unat (- 1 :: u32)" by (simp add: word_unat_eq_iff)
    moreover have "unat (- 1 :: u32) = 2 ^ 32 - 1" by (simp add: unsigned_minus_1_eq_mask mask_eq_exp_minus_1)
    ultimately show ?thesis using True unat_u32_lt [of hi] by simp
  next
    case False
    then have "0 < unat lo" by (simp add: unat_gt_0)
    then show ?thesis using unat_u32_lt [of hi] by simp
  qed
  then show ?thesis
    using unat_add_lem [of "hi - lo" 1] assms(1) by (simp add: unat_sub)
qed

lemma random_u32_in_range:
  assumes "lo \<le> hi"
  shows "\<exists>r. mmhal_random_u32 v lo hi = Some r \<and> lo \<le> r \<and> r \<le> hi"
proof (cases "lo = 0 \<and> hi = - 1")
  case True
  then show ?thesis by (simp add: mmhal_random_u32_def)
next
  case False
  let ?n = "hi - lo + 1"
  have n: "unat ?n = unat hi - unat lo + 1" by (rule random_range_size [OF assms False])
  then have nz: "?n \<noteq> 0" by (metis add_is_0 one_neq_zero unat_0)
  have m: "unat (v mod ?n) < unat hi - unat lo + 1" using n by (simp add: unat_mod)
  have le: "unat lo \<le> unat hi" using assms by (simp add: word_le_nat_alt)
  have "unat (v mod ?n) + unat lo < 2 ^ 32" using m le unat_u32_lt [of hi] by linarith
  then have "unat (v mod ?n + lo) = unat (v mod ?n) + unat lo"
    using unat_add_lem [of "v mod ?n" lo] by simp
  then have "lo \<le> v mod ?n + lo" "v mod ?n + lo \<le> hi" using m le by (simp_all add: word_le_nat_alt)
  then show ?thesis using nz False by (auto simp: mmhal_random_u32_def)
qed

lemma random_u32_traps: "mmhal_random_u32 v lo hi = None \<longleftrightarrow> lo = hi + 1 \<and> \<not> (lo = 0 \<and> hi = - 1)"
proof -
  have "hi - lo + 1 = 0 \<longleftrightarrow> lo = hi + 1"
  proof -
    have "hi - lo + 1 = (hi + 1) - lo" by simp
    then show ?thesis using right_minus_eq [of "hi + 1" lo] by (metis)
  qed
  then show ?thesis unfolding mmhal_random_u32_def by simp
qed

text \<open>
  The station address is the one in the transceiver when it has one, and otherwise a locally
  administered unicast address that keeps the last four bytes of the one in the fuses.
\<close>

lemma mac_zero_iff: "length m = 6 \<Longrightarrow> mm_mac_addr_is_zero m \<longleftrightarrow> m = replicate 6 0"
proof -
  assume "length m = 6"
  then obtain a b c d e f where m: "m = [a, b, c, d, e, f]" by (auto simp: numeral_eq_Suc length_Suc_conv)
  have "replicate 6 (0 :: u8) = [0, 0, 0, 0, 0, 0]" by (simp add: numeral_eq_Suc)
  then show ?thesis by (simp add: m mm_mac_addr_is_zero_def or_eq_0_iff)
qed

lemma read_mac_addr:
  assumes "length otp = 6" "length efuse = 6"
  shows "length (mmhal_read_mac_addr efuse otp) = 6" "\<not> mm_mac_addr_is_zero (mmhal_read_mac_addr efuse otp)"
    "otp \<noteq> replicate 6 0 \<Longrightarrow> mmhal_read_mac_addr efuse otp = otp"
    "otp = replicate 6 0 \<Longrightarrow> mmhal_read_mac_addr efuse otp = [2, 0] @ drop 2 efuse"
proof -
  have g: "generate_stable_mac_addr efuse = [2, 0] @ drop 2 efuse"
    using assms(2) by (cases efuse; cases "tl efuse") (auto simp: generate_stable_mac_addr_def)
  have "length (generate_stable_mac_addr efuse) = 6" using assms(2) by (simp add: generate_stable_mac_addr_def)
  then have nz: "\<not> mm_mac_addr_is_zero (generate_stable_mac_addr efuse)"
    using mac_zero_iff [of "generate_stable_mac_addr efuse"] g replicate_Suc [of 5 "0 :: u8"] by auto
  show "length (mmhal_read_mac_addr efuse otp) = 6" "\<not> mm_mac_addr_is_zero (mmhal_read_mac_addr efuse otp)"
    "otp \<noteq> replicate 6 0 \<Longrightarrow> mmhal_read_mac_addr efuse otp = otp"
    "otp = replicate 6 0 \<Longrightarrow> mmhal_read_mac_addr efuse otp = [2, 0] @ drop 2 efuse"
    using nz g assms mac_zero_iff [OF assms(1)]
    by (auto simp: mmhal_read_mac_addr_def generate_stable_mac_addr_def)
qed

lemma pin_level_append: "pin_level p (xs @ ys) = (case pin_level p ys of Some l \<Rightarrow> Some l | None \<Rightarrow> pin_level p xs)"
  by (induction xs) (auto split: option.splits)

lemmas hal_defs = mmhal_init_def wlan_hal_gpio_init_def wlan_hal_spi_init_def wlan_hal_spi_deinit_def
  mmhal_wlan_init_def mmhal_wlan_deinit_def mmhal_wlan_hard_reset_def mmhal_wlan_send_training_seq_def
  mmhal_wlan_spi_cs_deassert_def spi_master_rw_def pin_level_append

text \<open>
  The transceiver is in reset until \<open>mmhal_wlan_init\<close> and again after \<open>mmhal_wlan_deinit\<close>, which
  also removes both interrupt handlers; a hard reset ends out of reset; the clock training is sent with
  the chip deselected.
\<close>

lemma reset_line:
  "pin_level MM_RESET_N (mmhal_init h) = Some False" "pin_level MM_RESET_N (mmhal_wlan_init h) = Some True"
  "pin_level MM_RESET_N (mmhal_wlan_deinit h) = Some False"
  "pin_level MM_RESET_N (mmhal_wlan_hard_reset h) = Some True"
  "pin_level MM_SPI_CS (mmhal_wlan_send_training_seq h) = Some True"
  by (simp_all add: hal_defs)

lemma deinit_removes_handlers:
  "isr_handler MM_SPI_IRQ (mmhal_wlan_deinit h) = None" "isr_handler MM_BUSY (mmhal_wlan_deinit h) = None"
  by (simp_all add: isr_handler_def isr_step_def hal_defs)

lemma registered_handlers:
  "isr_handler MM_SPI_IRQ (mmhal_wlan_register_spi_irq_handler f h) = Some f"
  "isr_handler MM_BUSY (mmhal_wlan_register_busy_irq_handler f h) = Some f"
  by (simp_all add: isr_handler_def isr_step_def mmhal_wlan_register_spi_irq_handler_def
      mmhal_wlan_register_busy_irq_handler_def)

lemma log_write_prints: "n \<le> length data \<Longrightarrow> mmhal_log_write data n h = Some (h @ map Putc (take n data))"
  by (induction data n h rule: mmhal_log_write.induct) auto

end
