(* ===== verification/Os_Mmosal.thy ===== *)
theory Os_Mmosal
  imports Osal Hal
begin

text \<open>
  The operating system layer below wpa_supplicant, \<^verbatim>\<open>framework/src/hostap/os_mmosal.c\<close>, with the time
  helpers of \<^verbatim>\<open>framework/src/hostap/src/utils/os.h\<close> that work on its clock: sleeping, time, random bytes,
  allocation and strings. \<open>mktime\<close>, \<open>gmtime\<close>, the allocator and the random generator are arguments; the
  functions that only report failure or pass their arguments to the C library are left out unless they
  change what the name promises.
\<close>

section \<open>Time\<close>

record os_time =
  ot_sec :: int
  ot_usec :: int

text \<open>The sleeps a call asks \<open>mmosal_task_sleep\<close> for, in milliseconds.\<close>

definition os_sleep :: "int \<Rightarrow> int \<Rightarrow> int list" where
  "os_sleep sec usec = (if sec \<noteq> 0 then [sec * 1000] else []) @ (if usec \<noteq> 0 then [usec div 1000] else [])"

text \<open>\<open>now\<close> is \<open>mmosal_get_time_ms()\<close>.\<close>

definition os_get_time :: "u32 \<Rightarrow> os_time" where
  "os_get_time now = \<lparr>ot_sec = uint (now div 1000), ot_usec = uint (now mod 1000)\<rparr>"

definition os_get_reltime :: "u32 \<Rightarrow> os_time" where
  "os_get_reltime now = \<lparr>ot_sec = uint (now div 1000), ot_usec = uint (now mod 1000)\<rparr>"

definition os_reltime_before :: "os_time \<Rightarrow> os_time \<Rightarrow> bool" where
  "os_reltime_before a b \<longleftrightarrow> ot_sec a < ot_sec b \<or> ot_sec a = ot_sec b \<and> ot_usec a < ot_usec b"

definition os_reltime_sub :: "os_time \<Rightarrow> os_time \<Rightarrow> os_time" where
  "os_reltime_sub a b =
     (let r = \<lparr>ot_sec = ot_sec a - ot_sec b, ot_usec = ot_usec a - ot_usec b\<rparr> in
      if ot_usec r < 0 then r\<lparr>ot_sec := ot_sec r - 1, ot_usec := ot_usec r + 1000000\<rparr> else r)"

definition os_reltime_age :: "u32 \<Rightarrow> os_time \<Rightarrow> os_time" where
  "os_reltime_age now start = os_reltime_sub (os_get_reltime now) start"

definition os_reltime_expired :: "os_time \<Rightarrow> os_time \<Rightarrow> int \<Rightarrow> bool" where
  "os_reltime_expired now ts timeout_secs =
     (let age = os_reltime_sub now ts in
      ot_sec age > timeout_secs \<or> ot_sec age = timeout_secs \<and> ot_usec age > 0)"

function carry_up :: "int \<Rightarrow> int \<Rightarrow> int \<times> int" where
  "carry_up sec usec = (if usec \<ge> 1000000 then carry_up (sec + 1) (usec - 1000000) else (sec, usec))"
  by pat_completeness auto
termination by (relation "measure (\<lambda>(s, u). nat u)") auto

function carry_down :: "int \<Rightarrow> int \<Rightarrow> int \<times> int" where
  "carry_down sec usec = (if usec < 0 then carry_down (sec - 1) (usec + 1000000) else (sec, usec))"
  by pat_completeness auto
termination by (relation "measure (\<lambda>(s, u). nat (- u))") auto

declare carry_up.simps [simp del] carry_down.simps [simp del]

definition os_reltime_add_ms :: "os_time \<Rightarrow> int \<Rightarrow> os_time" where
  "os_reltime_add_ms ts ms =
     (let (sec, usec) = carry_up (ot_sec ts) (ot_usec ts + ms * 1000);
          (sec, usec) = carry_down sec usec in \<lparr>ot_sec = sec, ot_usec = usec\<rparr>)"

text \<open>The division of C rounds towards zero.\<close>

definition os_reltime_in_ms :: "os_time \<Rightarrow> int" where
  "os_reltime_in_ms ts = ot_sec ts * 1000 + sgn (ot_usec ts) * (\<bar>ot_usec ts\<bar> div 1000)"

definition os_reltime_initialized :: "os_time \<Rightarrow> bool" where
  "os_reltime_initialized t \<longleftrightarrow> ot_sec t \<noteq> 0 \<or> ot_usec t \<noteq> 0"

text \<open>Calendar time: the fields handed to \<open>mktime\<close>, and those taken from \<open>gmtime\<close>.\<close>

record c_tm =
  tm_year :: int
  tm_mon :: int
  tm_mday :: int
  tm_hour :: int
  tm_min :: int
  tm_sec :: int

definition os_mktime :: "(c_tm \<Rightarrow> int) \<Rightarrow> int \<Rightarrow> int \<Rightarrow> int \<Rightarrow> int \<Rightarrow> int \<Rightarrow> int \<Rightarrow> int option" where
  "os_mktime mktime year month day hour mins sec =
     (if (year < 1970 \<or> month < 1 \<or> month > 12 \<or> day < 1 \<or> day > 31) \<or>
         (hour < 0 \<or> hour > 23 \<or> mins < 0 \<or> mins > 59 \<or> sec < 0 \<or> sec > 60)
      then None
      else Some (mktime \<lparr>tm_year = year - 1900, tm_mon = month - 1, tm_mday = day, tm_hour = hour, tm_min = mins, tm_sec = sec\<rparr>))"

definition os_gmtime :: "(int \<Rightarrow> c_tm option) \<Rightarrow> int \<Rightarrow> c_tm option" where
  "os_gmtime gmtime t = map_option (\<lambda>tm. tm\<lparr>tm_mon := tm_mon tm + 1, tm_year := tm_year tm + 1900\<rparr>) (gmtime t)"

section \<open>Random bytes\<close>

text \<open>\<open>rnd i\<close> is the \<open>i\<close>-th value of the generator; \<open>n\<close> bytes are left to fill from \<open>off\<close> on.\<close>

definition word_bytes :: "u32 \<Rightarrow> u8 list" where
  "word_bytes w = [ucast w, ucast (drop_bit 8 w), ucast (drop_bit 16 w), ucast (drop_bit 24 w)]"

function random_loop :: "(nat \<Rightarrow> u32) \<Rightarrow> u8 list \<Rightarrow> nat \<Rightarrow> nat \<Rightarrow> nat \<Rightarrow> u8 list option" where
  "random_loop rnd buf off n i =
     (if n = 0 then Some buf
      else do {
        dat \<leftarrow> mmhal_random_u32 (rnd i) 0 (- 1);
        let remaining = (if n > 4 then 4 else n);
        buf \<leftarrow> blit buf off (take remaining (word_bytes dat));
        random_loop rnd buf (off + 4) (n - 4) (i + 1) })"
  by pat_completeness auto
termination by (relation "measure (\<lambda>(_, _, _, n, _). n)") auto

declare random_loop.simps [simp del]

definition os_get_random :: "(nat \<Rightarrow> u32) \<Rightarrow> u8 list \<Rightarrow> nat \<Rightarrow> u8 list option" where
  "os_get_random rnd buf len = random_loop rnd buf 0 len 0"

definition os_random :: "u32 \<Rightarrow> u32 option" where
  "os_random rnd = mmhal_random_u32 rnd 0 (- 1)"

section \<open>Memory and strings\<close>

text \<open>\<open>mem\<close> is what the allocator gives: a block with its old contents.\<close>

definition os_zalloc :: "u8 list option \<Rightarrow> nat \<Rightarrow> u8 list option" where
  "os_zalloc mem sz = map_option (\<lambda>p. replicate sz 0 @ drop sz p) mem"

definition os_memdup :: "u8 list option \<Rightarrow> u8 list \<Rightarrow> nat \<Rightarrow> u8 list option" where
  "os_memdup mem src len = map_option (\<lambda>r. take len src @ drop len r) mem"

definition os_strdup :: "string option \<Rightarrow> string \<Rightarrow> string option" where
  "os_strdup mem s = map_option (\<lambda>buf. (cstr s @ drop (length (cstr s)) buf)[length (cstr s) := NUL]) mem"

text \<open>
  The first loop of \<open>os_strlcpy\<close> copies while fewer than \<open>limit\<close> characters are written; the index
  reached is both that of the source and that of the destination.
\<close>

function strlcpy_copy :: "string \<Rightarrow> string \<Rightarrow> nat \<Rightarrow> int \<Rightarrow> (string \<times> nat) option" where
  "strlcpy_copy dest src i limit =
     (if int i < limit then do {
        c \<leftarrow> load src i;
        dest \<leftarrow> store dest i c;
        if c = NUL then Some (dest, i) else strlcpy_copy dest src (i + 1) limit }
      else Some (dest, i))"
  by pat_completeness auto
termination by (relation "measure (\<lambda>(_, _, i, limit). nat (limit - int i))") auto

declare strlcpy_copy.simps [simp del]

function skip_string :: "string \<Rightarrow> nat \<Rightarrow> nat option" where
  "skip_string src i = (if i < length src then (if src ! i \<noteq> NUL then skip_string src (i + 1) else Some (i + 1)) else None)"
  by pat_completeness auto
termination by (relation "measure (\<lambda>(src, i). length src - i)") auto

declare skip_string.simps [simp del]

definition os_strlcpy :: "string \<Rightarrow> string \<Rightarrow> u32 \<Rightarrow> (string \<times> nat) option" where
  "os_strlcpy dest src siz = do {
     (dest, i) \<leftarrow> strlcpy_copy dest src 0 (sint (siz - 1));
     dest \<leftarrow> (if siz \<noteq> 0 \<and> int i = sint (siz - 1) then store dest i NUL else Some dest);
     j \<leftarrow> skip_string src i;
     Some (dest, j - 1) }"

text \<open>\<open>memcmp\<close> on arrays of bytes, and the comparison for secrets, which calls it.\<close>

fun memcmp :: "u8 list \<Rightarrow> u8 list \<Rightarrow> nat \<Rightarrow> int" where
  "memcmp (a # as) (b # bs) (Suc n) = (if a = b then memcmp as bs n else if a < b then - 1 else 1)"
| "memcmp as bs n = 0"

definition os_memcmp_const :: "u8 list \<Rightarrow> u8 list \<Rightarrow> nat \<Rightarrow> int" where
  "os_memcmp_const a b len = memcmp a b len"

fun strncmp :: "string \<Rightarrow> string \<Rightarrow> nat \<Rightarrow> int" where
  "strncmp as bs 0 = 0"
| "strncmp [] [] (Suc n) = 0"
| "strncmp [] (b # bs) (Suc n) = - 1"
| "strncmp (a # as) [] (Suc n) = 1"
| "strncmp (a # as) (b # bs) (Suc n) =
     (if a = b then strncmp as bs n else if (of_char a :: nat) < of_char b then - 1 else 1)"

definition os_strncasecmp :: "string \<Rightarrow> string \<Rightarrow> nat \<Rightarrow> int" where
  "os_strncasecmp s1 s2 n = strncmp (cstr s1) (cstr s2) n"

definition os_strcasecmp :: "string \<Rightarrow> string \<Rightarrow> int" where
  "os_strcasecmp s1 s2 = strncmp (cstr s1) (cstr s2) (Suc (max (length s1) (length s2)))"

section \<open>Properties\<close>

lemma u32_ms:
  "uint ((now :: u32) div 1000) = uint now div 1000" "uint ((now :: u32) mod 1000) = uint now mod 1000"
  by (simp_all add: uint_div uint_mod)

text \<open>Timeouts of the supplicant in whole seconds are exact although the clock stores milliseconds in the
  field for microseconds: for two times of the millisecond clock in order, a timeout counts as expired exactly
  when more than its seconds have passed, and the seconds of the age are right.\<close>

theorem reltime_expired_exact:
  assumes "start \<le> now"
  shows "(os_reltime_expired (os_get_reltime now) (os_get_reltime start) t \<longleftrightarrow> uint now - uint start > 1000 * t) \<and>
    ot_sec (os_reltime_age now (os_get_reltime start)) = (uint now - uint start) div 1000"
proof -
  define q r p s where d: "q = uint now div 1000" "r = uint now mod 1000" "p = uint start div 1000" "s = uint start mod 1000"
  have b: "0 \<le> r" "r < 1000" "0 \<le> s" "s < 1000" "uint now = 1000 * q + r" "uint start = 1000 * p + s"
    by (simp_all add: d)
  have sub: "os_reltime_sub (os_get_reltime now) (os_get_reltime start) =
      (if r < s then \<lparr>ot_sec = q - p - 1, ot_usec = r - s + 1000000\<rparr> else \<lparr>ot_sec = q - p, ot_usec = r - s\<rparr>)"
    by (simp add: os_reltime_sub_def os_get_reltime_def u32_ms d [symmetric])
  have "uint now - uint start = 1000 * (q - p) + (r - s)" using b by simp
  moreover have "(1000 * (q - p) + (r - s)) div 1000 = (if r < s then q - p - 1 else q - p)" using b(1-4) by auto
  moreover have "(if r < s then q - p - 1 > t \<or> q - p - 1 = t else q - p > t \<or> q - p = t \<and> r > s) \<longleftrightarrow>
      1000 * (q - p) + (r - s) > 1000 * t" using b(1-4) by auto
  ultimately show ?thesis
    using b(1-4) by (auto simp: os_reltime_expired_def os_reltime_age_def sub Let_def)
qed

theorem reltime_expired_exact_witness:
  "\<not> os_reltime_expired (os_get_reltime 12500) (os_get_reltime 2500) 10 \<and> os_reltime_expired (os_get_reltime 12501) (os_get_reltime 2500) 10"
  using reltime_expired_exact [of 2500 12500 10] reltime_expired_exact [of 2500 12501 10] by simp

text \<open>
  Within a second the age is wrong: one millisecond across the turn of a second is reported as
  999 ms, and half a second inside one as nothing.
\<close>

lemma age_in_ms_wrong:
  "os_reltime_in_ms (os_reltime_age 2000 (os_get_reltime 1999)) = 999"
  "os_reltime_in_ms (os_reltime_age 1600 (os_get_reltime 1100)) = 0"
  by (simp_all add: os_reltime_in_ms_def os_reltime_age_def os_reltime_sub_def os_get_reltime_def)

lemma carry_up_value:
  "carry_up s u = (s', u') \<Longrightarrow> s' * 1000000 + u' = s * 1000000 + u \<and> u' < 1000000 \<and> (0 \<le> u \<longrightarrow> 0 \<le> u') \<and> (u < 0 \<longrightarrow> u' = u)"
  by (induction s u rule: carry_up.induct) (subst (asm) (2) carry_up.simps, auto split: if_splits)

lemma carry_down_value:
  "carry_down s u = (s', u') \<Longrightarrow> u < 1000000 \<Longrightarrow> s' * 1000000 + u' = s * 1000000 + u \<and> 0 \<le> u' \<and> u' < 1000000"
  by (induction s u rule: carry_down.induct) (subst (asm) (2) carry_down.simps, auto split: if_splits)

text \<open>Adding milliseconds gives a normal time of exactly that many milliseconds later.\<close>

lemma add_ms_exact:
  "let r = os_reltime_add_ms ts ms in
     ot_sec r * 1000000 + ot_usec r = ot_sec ts * 1000000 + ot_usec ts + ms * 1000 \<and> 0 \<le> ot_usec r \<and> ot_usec r < 1000000"
proof -
  obtain s1 u1 where u: "carry_up (ot_sec ts) (ot_usec ts + ms * 1000) = (s1, u1)" by force
  obtain s2 u2 where dn: "carry_down s1 u1 = (s2, u2)" by force
  show ?thesis using carry_up_value [OF u] carry_down_value [OF dn] u dn by (simp add: os_reltime_add_ms_def)
qed

text \<open>The random bytes are those of the generator's words, low byte first, and nothing outside is written.\<close>

lemma word_bytes_length [simp]: "length (word_bytes w) = 4"
  by (simp add: word_bytes_def)

lemma random_loop_fills:
  "off + n \<le> length buf \<Longrightarrow>
     random_loop rnd buf off n i = Some (take off buf @ take n (concat (map (word_bytes \<circ> rnd) [i..<i + n])) @ drop (off + n) buf)"
proof (induction n arbitrary: buf off i rule: less_induct)
  case (less n)
  show ?case
  proof (cases "n = 0")
    case True
    then show ?thesis by (simp add: random_loop.simps)
  next
    case False
    let ?m = "min n 4"
    let ?b = "take off buf @ take ?m (word_bytes (rnd i)) @ drop (off + ?m) buf"
    have lb: "length ?b = length buf" using less.prems by simp
    have u: "[i..<i + n] = i # [i + 1..<i + n]" using False by (simp add: upt_conv_Cons)
    have step: "random_loop rnd buf off n i = random_loop rnd ?b (off + 4) (n - 4) (i + 1)"
      using less.prems False by (subst random_loop.simps) (auto simp: mmhal_random_u32_def blit_def min_def)
    show ?thesis
    proof (cases "n \<le> 4")
      case True
      then have "random_loop rnd ?b (off + 4) (n - 4) (i + 1) = Some ?b" by (subst random_loop.simps) simp
      then show ?thesis using step True by (simp add: u min_def)
    next
      case F: False
      have "random_loop rnd ?b (off + 4) (n - 4) (i + 1) = Some (take (off + 4) ?b @
          take (n - 4) (concat (map (word_bytes \<circ> rnd) [i + 1..<i + 1 + (n - 4)])) @ drop (off + 4 + (n - 4)) ?b)"
        using F less.prems lb by (intro less.IH) simp_all
      moreover have "take (n - 4) (concat (map (word_bytes \<circ> rnd) [i + 1..<i + 1 + (n - 4)])) =
          take (n - 4) (concat (map (word_bytes \<circ> rnd) [i + 1..<i + n]))"
      proof -
        have "[i + 1..<i + n] = [i + 1..<i + 1 + (n - 4)] @ [i + 1 + (n - 4)..<i + n]"
          using F upt_add_eq_append [of "i + 1" "i + 1 + (n - 4)" 3] by simp
        moreover have "n - 4 \<le> length (concat (map (word_bytes \<circ> rnd) [i + 1..<i + 1 + (n - 4)]))"
          by (simp add: length_concat o_def sum_list_triv) linarith
        ultimately show ?thesis by simp
      qed
      ultimately show ?thesis using step F less.prems by (simp add: u min_def add.commute o_def)
    qed
  qed
qed

lemma get_random_fills:
  "len \<le> length buf \<Longrightarrow> os_get_random rnd buf len = Some (take len (concat (map (word_bytes \<circ> rnd) [0..<len])) @ drop len buf)"
  using random_loop_fills [of 0 len buf rnd 0] by (simp add: os_get_random_def)

lemma strlcpy_copy_value:
  assumes "src = s @ NUL # r" "NUL \<notin> set s" "i \<le> L" "i \<le> length s" "L < length dest" "take i dest = take i s"
  shows "strlcpy_copy dest src i (int L) =
    (if length s < L then Some (s @ NUL # drop (Suc (length s)) dest, length s) else Some (take L s @ drop L dest, L))"
  using assms
proof (induction "L - i" arbitrary: i dest)
  case 0
  then show ?case by (subst strlcpy_copy.simps) (auto, metis append_take_drop_id)
next
  case (Suc n)
  have iL: "i < L" using Suc by simp
  show ?case
  proof (cases "i = length s")
    case True
    have "dest[i := NUL] = s @ NUL # drop (Suc (length s)) dest"
      using True iL Suc.prems(5,6) by (simp add: upd_conv_take_nth_drop)
    then show ?thesis using True iL Suc.prems by (subst strlcpy_copy.simps) (simp add: load_def store_def)
  next
    case False
    then have i: "i < length s" using Suc.prems(4) by simp
    then have c: "s ! i \<noteq> NUL" "src ! i = s ! i" using Suc.prems(1,2) by (auto simp: nth_append) (metis nth_mem)
    have "take (Suc i) (dest[i := s ! i]) = take (Suc i) s"
      using i iL Suc.prems(5,6) by (simp add: take_Suc_conv_app_nth)
    then have "strlcpy_copy (dest[i := s ! i]) src (Suc i) (int L) =
        (if length s < L then Some (s @ NUL # drop (Suc (length s)) (dest[i := s ! i]), length s)
         else Some (take L s @ drop L (dest[i := s ! i]), L))"
      using Suc.hyps(2) i iL Suc.prems by (intro Suc.hyps(1)) simp_all
    moreover have "strlcpy_copy dest src i (int L) = strlcpy_copy (dest[i := s ! i]) src (Suc i) (int L)"
      using i iL c Suc.prems(1,5) by (subst strlcpy_copy.simps) (simp add: load_def store_def)
    ultimately show ?thesis using i iL by simp
  qed
qed

lemma skip_string_value:
  "src = s @ NUL # r \<Longrightarrow> NUL \<notin> set s \<Longrightarrow> i \<le> length s \<Longrightarrow> skip_string src i = Some (Suc (length s))"
proof (induction "length s - i" arbitrary: i)
  case 0
  then have "i = length s" by simp
  then show ?case using 0 by (subst skip_string.simps) (simp add: nth_append)
next
  case (Suc n)
  then have "i < length s" by simp
  moreover from this have "s ! i \<noteq> NUL" using Suc.prems(2) by (metis nth_mem)
  ultimately show ?case using Suc by (subst skip_string.simps) (simp add: nth_append)
qed

lemma size_limit: "siz \<noteq> 0 \<Longrightarrow> unat siz \<le> 2 ^ 31 \<Longrightarrow> sint ((siz :: u32) - 1) = int (unat siz - 1)"
proof -
  assume a: "siz \<noteq> 0" "unat siz \<le> 2 ^ 31"
  have u: "unat (siz - 1) = unat siz - 1" using a(1) by (simp add: unat_minus_one)
  have ui: "uint (siz - 1) = int (unat siz - 1)" using u by (simp only: uint_nat)
  moreover have "0 < unat siz" using a(1) by (simp add: unat_gt_0)
  moreover have "int (unat siz - 1) < 2 ^ 31 \<longleftrightarrow> unat siz - 1 < 2 ^ 31" by simp
  ultimately have "uint (siz - 1) < 2 ^ 31" using a(2) by (simp only: ui)
  moreover have "sint (siz - 1) = signed_take_bit 31 (uint (siz - 1))" by (simp add: sint_uint)
  moreover have "signed_take_bit 31 (uint (siz - 1)) = uint (siz - 1)"
    by (rule signed_take_bit_int_eq_self) (use \<open>uint (siz - 1) < 2 ^ 31\<close> in \<open>simp_all add: order.trans [of _ 0]\<close>)
  ultimately have "sint (siz - 1) = uint (siz - 1)" by (simp only:)
  then show ?thesis using ui by (simp only:)
qed

text \<open>\<open>os_strlcpy\<close> is a bounded copy: with a source string \<open>s\<close> and a destination of at least \<open>siz\<close>
  characters it stays inside both arrays, leaves the longest prefix of \<open>s\<close> that fits with its
  terminator, changes nothing after the first \<open>siz\<close> characters and returns the length of \<open>s\<close>, so that a
  truncation can be seen; with a size of zero it only returns the length.\<close>

theorem os_strlcpy_correct:
  assumes "src = s @ NUL # r" "NUL \<notin> set s" "unat siz \<le> length dest" "unat siz \<le> 2 ^ 31"
  shows "\<exists>d. os_strlcpy dest src siz = Some (d, length s) \<and> length d = length dest \<and> drop (unat siz) d = drop (unat siz) dest \<and>
    (if siz = 0 then d = dest else cstr d = take (unat siz - 1) s \<and> NUL \<in> set (take (unat siz) d))"
proof (cases "siz = 0")
  case True
  have "sint (- 1 :: u32) = - 1" by simp
  then have "strlcpy_copy dest src 0 (sint (siz - 1)) = Some (dest, 0)" using True by (subst strlcpy_copy.simps) simp
  then show ?thesis using True skip_string_value [OF assms(1,2), of 0] by (simp add: os_strlcpy_def)
next
  case False
  let ?n = "unat siz"
  have n: "0 < ?n" using False by (simp add: unat_gt_0)
  define L where "L = ?n - 1"
  have L: "?n = Suc L" "L < length dest" using n assms(3) by (simp_all add: L_def)
  have lim: "sint (siz - 1) = int L" using size_limit [OF False assms(4)] by (simp add: L_def)
  have copy: "strlcpy_copy dest src 0 (int L) = (if length s < L
      then Some (s @ NUL # drop (Suc (length s)) dest, length s) else Some (take L s @ drop L dest, L))"
    by (rule strlcpy_copy_value [OF assms(1,2)]) (use L in simp_all)
  show ?thesis
  proof (cases "length s < L")
    case True
    let ?d = "s @ NUL # drop (Suc (length s)) dest"
    have "os_strlcpy dest src siz = Some (?d, length s)"
      unfolding os_strlcpy_def lim copy using True skip_string_value [OF assms(1,2), of "length s"] by simp
    then show ?thesis using True False assms(2) L by (intro exI [of _ ?d]) (simp add: cstr_append_NUL Suc_diff_le)
  next
    case F: False
    let ?t = "take L s"
    let ?d = "?t @ NUL # drop (Suc L) dest"
    have lt: "length ?t = L" using F by simp
    have nt: "NUL \<notin> set ?t" using assms(2) by (meson in_set_takeD)
    have "drop L dest = dest ! L # drop (Suc L) dest" using L by (simp add: Cons_nth_drop_Suc)
    then have "(?t @ drop L dest)[L := NUL] = ?d" using lt by (simp add: list_update_append)
    then have "os_strlcpy dest src siz = Some (?d, length s)"
      unfolding os_strlcpy_def lim copy
      using F skip_string_value [OF assms(1,2), of L] False L lt by (simp add: store_def)
    then show ?thesis using F False nt lt L by (intro exI [of _ ?d]) (simp add: cstr_append_NUL)
  qed
qed

theorem os_strlcpy_correct_witness:
  "\<exists>d. os_strlcpy ''abcdefgh'' (''halow'' @ NUL # []) 4 = Some (d, length ''halow'') \<and> length d = 8 \<and> cstr d = ''hal'' \<and> drop 4 d = ''efgh''"
proof -
  have "\<exists>d. os_strlcpy ''abcdefgh'' (''halow'' @ NUL # []) 4 = Some (d, length ''halow'') \<and> length d = length ''abcdefgh'' \<and>
      drop (unat (4 :: u32)) d = drop (unat (4 :: u32)) ''abcdefgh'' \<and>
      (if (4 :: u32) = 0 then d = ''abcdefgh'' else cstr d = take (unat (4 :: u32) - 1) ''halow'' \<and> NUL \<in> set (take (unat (4 :: u32)) d))"
    by (rule os_strlcpy_correct) (simp_all add: NUL_def)
  then show ?thesis by auto
qed

text \<open>
  The comparison for secrets is equality, but it stops at the first difference: the number of bytes it looks
  at depends on the data.
\<close>

fun memcmp_steps :: "u8 list \<Rightarrow> u8 list \<Rightarrow> nat \<Rightarrow> nat" where
  "memcmp_steps (a # as) (b # bs) (Suc n) = (if a = b then Suc (memcmp_steps as bs n) else 1)"
| "memcmp_steps as bs n = 0"

lemma memcmp_const_eq: "length a = n \<Longrightarrow> length b = n \<Longrightarrow> os_memcmp_const a b n = 0 \<longleftrightarrow> a = b"
proof -
  have "length a = n \<Longrightarrow> length b = n \<Longrightarrow> memcmp a b n = 0 \<longleftrightarrow> a = b"
    by (induction a b n rule: memcmp.induct) auto
  then show "length a = n \<Longrightarrow> length b = n \<Longrightarrow> os_memcmp_const a b n = 0 \<longleftrightarrow> a = b" by (simp add: os_memcmp_const_def)
qed

lemma memcmp_const_leaks: "memcmp_steps [1, 2, 3, 4] [9, 2, 3, 4] 4 = 1" "memcmp_steps [1, 2, 3, 4] [1, 2, 3, 9] 4 = 4"
  by code_simp+

lemma strcasecmp_is_case_sensitive: "os_strcasecmp ''AES'' ''aes'' \<noteq> 0" "os_strncasecmp ''AES'' ''aes'' 3 \<noteq> 0"
  by (simp_all add: os_strcasecmp_def os_strncasecmp_def cstr_def NUL_def numeral_eq_Suc)

lemma strdup_copies:
  assumes "length buf = Suc (length (cstr s))"
  shows "\<exists>d. os_strdup (Some buf) s = Some d \<and> cstr d = cstr s \<and> length d = length buf"
proof -
  have "(cstr s @ drop (length (cstr s)) buf)[length (cstr s) := NUL] = cstr s @ [NUL]"
    using assms by (simp add: list_update_append) (cases "drop (length (cstr s)) buf"; auto dest: arg_cong [of _ _ length])
  then show ?thesis using assms by (simp add: os_strdup_def cstr_append_NUL cstr_no_NUL)
qed

end
