(* ===== verification/Sdio_Spi.thy ===== *)
theory Sdio_Spi
  imports Crc
begin

text \<open>
  The driver for SDIO commands over SPI in \<^verbatim>\<open>examples/porting_assistant/main/src/sdio_spi.c\<close>: the
  byte-order macros, the two checksums, commands with their responses, and the reads and writes of
  blocks and of whole buffers. The bus is what the transceiver drives on its data line at each byte
  clocked (an arbitrary stream, so every behaviour of the transceiver is covered) and the record of
  what the driver did. A buffer is an array with an offset; \<open>None\<close> stands for a failed assertion, an access
  outside an array and, in the two outer loops, for not returning. The messages printed are left out.
\<close>

section \<open>The bus\<close>

datatype spi_op = Spi_cs bool | Spi_rw u8 | Spi_read nat | Spi_write "u8 list"

record spi_bus =
  sb_miso :: "nat \<Rightarrow> u8"
  sb_pos :: nat
  sb_log :: "spi_op list"

definition spi_cs :: "bool \<Rightarrow> spi_bus \<Rightarrow> spi_bus" where
  "spi_cs a b = b\<lparr>sb_log := sb_log b @ [Spi_cs a]\<rparr>"

definition spi_rw :: "u8 \<Rightarrow> spi_bus \<Rightarrow> u8 \<times> spi_bus" where
  "spi_rw d b = (sb_miso b (sb_pos b), b\<lparr>sb_pos := sb_pos b + 1, sb_log := sb_log b @ [Spi_rw d]\<rparr>)"

definition spi_read_buf :: "nat \<Rightarrow> spi_bus \<Rightarrow> u8 list \<times> spi_bus" where
  "spi_read_buf n b = (map (sb_miso b) [sb_pos b..<sb_pos b + n],
     b\<lparr>sb_pos := sb_pos b + n, sb_log := sb_log b @ [Spi_read n]\<rparr>)"

definition spi_write_buf :: "u8 list \<Rightarrow> spi_bus \<Rightarrow> spi_bus" where
  "spi_write_buf ds b = b\<lparr>sb_pos := sb_pos b + length ds, sb_log := sb_log b @ [Spi_write ds]\<rparr>"

section \<open>Byte order\<close>

definition PACK_LE16 :: "u8 list \<Rightarrow> u16" where
  "PACK_LE16 a = ucast (a ! 0) OR push_bit 8 (ucast (a ! 1))"

definition PACK_BE16 :: "u8 list \<Rightarrow> u16" where
  "PACK_BE16 a = ucast (a ! 1) OR push_bit 8 (ucast (a ! 0))"

definition UNPACK_LE16 :: "u16 \<Rightarrow> u8 list" where
  "UNPACK_LE16 x = [ucast x, ucast (drop_bit 8 x)]"

definition UNPACK_BE16 :: "u16 \<Rightarrow> u8 list" where
  "UNPACK_BE16 x = [ucast (drop_bit 8 x), ucast x]"

definition PACK_LE32 :: "u8 list \<Rightarrow> u32" where
  "PACK_LE32 a = ucast (a ! 0) OR push_bit 8 (ucast (a ! 1)) OR push_bit 16 (ucast (a ! 2)) OR push_bit 24 (ucast (a ! 3))"

definition PACK_BE32 :: "u8 list \<Rightarrow> u32" where
  "PACK_BE32 a = ucast (a ! 3) OR push_bit 8 (ucast (a ! 2)) OR push_bit 16 (ucast (a ! 1)) OR push_bit 24 (ucast (a ! 0))"

definition UNPACK_LE32 :: "u32 \<Rightarrow> u8 list" where
  "UNPACK_LE32 x = [ucast x, ucast (drop_bit 8 x), ucast (drop_bit 16 x), ucast (drop_bit 24 x)]"

definition UNPACK_BE32 :: "u32 \<Rightarrow> u8 list" where
  "UNPACK_BE32 x = [ucast (drop_bit 24 x), ucast (drop_bit 16 x), ucast (drop_bit 8 x), ucast x]"

definition PACK_LE64 :: "u8 list \<Rightarrow> u64" where
  "PACK_LE64 a = ucast (a ! 0) OR push_bit 8 (ucast (a ! 1)) OR push_bit 16 (ucast (a ! 2)) OR
     push_bit 24 (ucast (a ! 3)) OR push_bit 32 (ucast (a ! 4)) OR push_bit 40 (ucast (a ! 5)) OR
     push_bit 48 (ucast (a ! 6)) OR push_bit 56 (ucast (a ! 7))"

definition PACK_BE64 :: "u8 list \<Rightarrow> u64" where
  "PACK_BE64 a = ucast (a ! 7) OR push_bit 8 (ucast (a ! 6)) OR push_bit 16 (ucast (a ! 5)) OR
     push_bit 24 (ucast (a ! 4)) OR push_bit 32 (ucast (a ! 3)) OR push_bit 40 (ucast (a ! 2)) OR
     push_bit 48 (ucast (a ! 1)) OR push_bit 56 (ucast (a ! 0))"

definition UNPACK_LE64 :: "u64 \<Rightarrow> u8 list" where
  "UNPACK_LE64 x = [ucast x, ucast (drop_bit 8 x), ucast (drop_bit 16 x), ucast (drop_bit 24 x),
     ucast (drop_bit 32 x), ucast (drop_bit 40 x), ucast (drop_bit 48 x), ucast (drop_bit 56 x)]"

definition UNPACK_BE64 :: "u64 \<Rightarrow> u8 list" where
  "UNPACK_BE64 x = [ucast (drop_bit 56 x), ucast (drop_bit 48 x), ucast (drop_bit 40 x), ucast (drop_bit 32 x),
     ucast (drop_bit 24 x), ucast (drop_bit 16 x), ucast (drop_bit 8 x), ucast x]"

section \<open>Constants\<close>

definition MORSE_REG_ADDRESS_BASE :: u32 where "MORSE_REG_ADDRESS_BASE = 0x10000"
definition MORSE_REG_ADDRESS_WINDOW_0 :: u32 where "MORSE_REG_ADDRESS_WINDOW_0 = MORSE_REG_ADDRESS_BASE"
definition MORSE_REG_ADDRESS_WINDOW_1 :: u32 where "MORSE_REG_ADDRESS_WINDOW_1 = MORSE_REG_ADDRESS_BASE + 1"
definition MORSE_REG_ADDRESS_CONFIG :: u32 where "MORSE_REG_ADDRESS_CONFIG = MORSE_REG_ADDRESS_BASE + 2"
definition MORSE_CONFIG_ACCESS_4BYTE :: u8 where "MORSE_CONFIG_ACCESS_4BYTE = 2"

datatype block_size = BLOCK_SIZE_FN1 | BLOCK_SIZE_FN2

fun bs_log2 :: "block_size \<Rightarrow> nat" where
  "bs_log2 BLOCK_SIZE_FN1 = 3"
| "bs_log2 BLOCK_SIZE_FN2 = 9"

fun bs_bytes :: "block_size \<Rightarrow> nat" where
  "bs_bytes BLOCK_SIZE_FN1 = 8"
| "bs_bytes BLOCK_SIZE_FN2 = 512"

definition CMD53_MAX_BLOCKS :: u32 where "CMD53_MAX_BLOCKS = 128"
definition MAX_BLOCK_TRANSFER_SIZE_FN2 :: u32 where "MAX_BLOCK_TRANSFER_SIZE_FN2 = 512 * CMD53_MAX_BLOCKS"

definition SDIO_SPI_TKN_MULTI_WRITE :: u8 where "SDIO_SPI_TKN_MULTI_WRITE = 0xFC"
definition SDIO_SPI_TKN_READ_SINGLE_WRITE :: u8 where "SDIO_SPI_TKN_READ_SINGLE_WRITE = 0xFE"
definition SDIO_SPI_TKN_STOP_TRANSACTION :: u8 where "SDIO_SPI_TKN_STOP_TRANSACTION = 0xFD"
definition SDIO_SPI_TKN_DATA_RSP_ACCEPTED :: u8 where "SDIO_SPI_TKN_DATA_RSP_ACCEPTED = 0xE1 OR push_bit 1 0x02"
definition SDIO_SPI_TKN_DATA_RSP_REJ_CRC :: u8 where "SDIO_SPI_TKN_DATA_RSP_REJ_CRC = 0xE1 OR push_bit 1 0x05"
definition SDIO_SPI_TKN_DATA_RSP_REJ_WRITE :: u8 where "SDIO_SPI_TKN_DATA_RSP_REJ_WRITE = 0xE1 OR push_bit 1 0x06"

definition MAX_BUS_ATTEMPTS :: nat where "MAX_BUS_ATTEMPTS = 200"
definition SDIO_DIR_HOST_TO_CARD :: u8 where "SDIO_DIR_HOST_TO_CARD = push_bit 6 1"
definition SDIO_CMD52 :: u8 where "SDIO_CMD52 = 52"
definition SDIO_CMD53 :: u8 where "SDIO_CMD53 = 53"
definition SDIO_CMD63 :: u8 where "SDIO_CMD63 = 63"

datatype sdio_rw = SDIO_READ | SDIO_WRITE
datatype sdio_function = SDIO_FUNCTION_0 | SDIO_FUNCTION_1 | SDIO_FUNCTION_2
datatype sdio_mode = SDIO_MODE_BYTE | SDIO_MODE_BLOCK

fun rw_bits :: "sdio_rw \<Rightarrow> u32" where
  "rw_bits SDIO_READ = 0"
| "rw_bits SDIO_WRITE = push_bit 31 1"

fun function_bits :: "sdio_function \<Rightarrow> u32" where
  "function_bits SDIO_FUNCTION_0 = 0"
| "function_bits SDIO_FUNCTION_1 = push_bit 28 1"
| "function_bits SDIO_FUNCTION_2 = push_bit 28 2"

fun mode_bits :: "sdio_mode \<Rightarrow> u32" where
  "mode_bits SDIO_MODE_BYTE = 0"
| "mode_bits SDIO_MODE_BLOCK = push_bit 27 1"

definition SDIO_OPCODE_INC_ADDR :: u32 where "SDIO_OPCODE_INC_ADDR = push_bit 26 1"
definition SDIO_ADDRESS_OFFSET :: nat where "SDIO_ADDRESS_OFFSET = 9"
definition SDIO_ADDRESS_MAX :: u32 where "SDIO_ADDRESS_MAX = push_bit 18 1 - 1"
definition SDIO_COUNT_OFFSET :: nat where "SDIO_COUNT_OFFSET = 0"
definition SDIO_COUNT_MAX :: u32 where "SDIO_COUNT_MAX = push_bit 10 1 - 1"
definition SDIO_CMD52_DATA_OFFSET :: nat where "SDIO_CMD52_DATA_OFFSET = 0"

text \<open>The results; \<open>RC_unset\<close> is the -1 with which some functions initialise theirs.\<close>

datatype sdio_spi_rc = RC_SUCCESS | RC_UNSPECIFIED_ERROR | RC_DEVICE_NOT_READY | RC_INVALID_RESPONSE
  | RC_INVALID_RESPONSE_DATA | RC_INVALID_CRC_RECIEVED | RC_RESPONSE_TIMEOUT | RC_INVALID_INPUT | RC_unset

section \<open>Checksums\<close>

definition crc7_lookup_table :: "u8 list" where
  "crc7_lookup_table =
   [0x00, 0x09, 0x12, 0x1b, 0x24, 0x2d, 0x36, 0x3f, 0x48, 0x41, 0x5a, 0x53, 0x6c, 0x65, 0x7e, 0x77,
    0x19, 0x10, 0x0b, 0x02, 0x3d, 0x34, 0x2f, 0x26, 0x51, 0x58, 0x43, 0x4a, 0x75, 0x7c, 0x67, 0x6e,
    0x32, 0x3b, 0x20, 0x29, 0x16, 0x1f, 0x04, 0x0d, 0x7a, 0x73, 0x68, 0x61, 0x5e, 0x57, 0x4c, 0x45,
    0x2b, 0x22, 0x39, 0x30, 0x0f, 0x06, 0x1d, 0x14, 0x63, 0x6a, 0x71, 0x78, 0x47, 0x4e, 0x55, 0x5c,
    0x64, 0x6d, 0x76, 0x7f, 0x40, 0x49, 0x52, 0x5b, 0x2c, 0x25, 0x3e, 0x37, 0x08, 0x01, 0x1a, 0x13,
    0x7d, 0x74, 0x6f, 0x66, 0x59, 0x50, 0x4b, 0x42, 0x35, 0x3c, 0x27, 0x2e, 0x11, 0x18, 0x03, 0x0a,
    0x56, 0x5f, 0x44, 0x4d, 0x72, 0x7b, 0x60, 0x69, 0x1e, 0x17, 0x0c, 0x05, 0x3a, 0x33, 0x28, 0x21,
    0x4f, 0x46, 0x5d, 0x54, 0x6b, 0x62, 0x79, 0x70, 0x07, 0x0e, 0x15, 0x1c, 0x23, 0x2a, 0x31, 0x38,
    0x41, 0x48, 0x53, 0x5a, 0x65, 0x6c, 0x77, 0x7e, 0x09, 0x00, 0x1b, 0x12, 0x2d, 0x24, 0x3f, 0x36,
    0x58, 0x51, 0x4a, 0x43, 0x7c, 0x75, 0x6e, 0x67, 0x10, 0x19, 0x02, 0x0b, 0x34, 0x3d, 0x26, 0x2f,
    0x73, 0x7a, 0x61, 0x68, 0x57, 0x5e, 0x45, 0x4c, 0x3b, 0x32, 0x29, 0x20, 0x1f, 0x16, 0x0d, 0x04,
    0x6a, 0x63, 0x78, 0x71, 0x4e, 0x47, 0x5c, 0x55, 0x22, 0x2b, 0x30, 0x39, 0x06, 0x0f, 0x14, 0x1d,
    0x25, 0x2c, 0x37, 0x3e, 0x01, 0x08, 0x13, 0x1a, 0x6d, 0x64, 0x7f, 0x76, 0x49, 0x40, 0x5b, 0x52,
    0x3c, 0x35, 0x2e, 0x27, 0x18, 0x11, 0x0a, 0x03, 0x74, 0x7d, 0x66, 0x6f, 0x50, 0x59, 0x42, 0x4b,
    0x17, 0x1e, 0x05, 0x0c, 0x33, 0x3a, 0x21, 0x28, 0x5f, 0x56, 0x4d, 0x44, 0x7b, 0x72, 0x69, 0x60,
    0x0e, 0x07, 0x1c, 0x15, 0x2a, 0x23, 0x38, 0x31, 0x46, 0x4f, 0x54, 0x5d, 0x62, 0x6b, 0x70, 0x79]"

text \<open>\<open>crc << 1\<close> is promoted to \<open>int\<close>, so a register above 0x7f would index past the table.\<close>

fun morse_crc7 :: "u8 \<Rightarrow> u8 list \<Rightarrow> u8 option" where
  "morse_crc7 crc [] = Some crc"
| "morse_crc7 crc (d # ds) = do {
     crc' \<leftarrow> load crc7_lookup_table (unat (push_bit 1 (ucast crc) XOR ucast d :: u32));
     morse_crc7 crc' ds }"

definition crc16_lookup_table :: "u16 list" where
  "crc16_lookup_table =
   [0x0000, 0x1021, 0x2042, 0x3063, 0x4084, 0x50a5, 0x60c6, 0x70e7, 0x8108, 0x9129, 0xa14a, 0xb16b,
    0xc18c, 0xd1ad, 0xe1ce, 0xf1ef, 0x1231, 0x0210, 0x3273, 0x2252, 0x52b5, 0x4294, 0x72f7, 0x62d6,
    0x9339, 0x8318, 0xb37b, 0xa35a, 0xd3bd, 0xc39c, 0xf3ff, 0xe3de, 0x2462, 0x3443, 0x0420, 0x1401,
    0x64e6, 0x74c7, 0x44a4, 0x5485, 0xa56a, 0xb54b, 0x8528, 0x9509, 0xe5ee, 0xf5cf, 0xc5ac, 0xd58d,
    0x3653, 0x2672, 0x1611, 0x0630, 0x76d7, 0x66f6, 0x5695, 0x46b4, 0xb75b, 0xa77a, 0x9719, 0x8738,
    0xf7df, 0xe7fe, 0xd79d, 0xc7bc, 0x48c4, 0x58e5, 0x6886, 0x78a7, 0x0840, 0x1861, 0x2802, 0x3823,
    0xc9cc, 0xd9ed, 0xe98e, 0xf9af, 0x8948, 0x9969, 0xa90a, 0xb92b, 0x5af5, 0x4ad4, 0x7ab7, 0x6a96,
    0x1a71, 0x0a50, 0x3a33, 0x2a12, 0xdbfd, 0xcbdc, 0xfbbf, 0xeb9e, 0x9b79, 0x8b58, 0xbb3b, 0xab1a,
    0x6ca6, 0x7c87, 0x4ce4, 0x5cc5, 0x2c22, 0x3c03, 0x0c60, 0x1c41, 0xedae, 0xfd8f, 0xcdec, 0xddcd,
    0xad2a, 0xbd0b, 0x8d68, 0x9d49, 0x7e97, 0x6eb6, 0x5ed5, 0x4ef4, 0x3e13, 0x2e32, 0x1e51, 0x0e70,
    0xff9f, 0xefbe, 0xdfdd, 0xcffc, 0xbf1b, 0xaf3a, 0x9f59, 0x8f78, 0x9188, 0x81a9, 0xb1ca, 0xa1eb,
    0xd10c, 0xc12d, 0xf14e, 0xe16f, 0x1080, 0x00a1, 0x30c2, 0x20e3, 0x5004, 0x4025, 0x7046, 0x6067,
    0x83b9, 0x9398, 0xa3fb, 0xb3da, 0xc33d, 0xd31c, 0xe37f, 0xf35e, 0x02b1, 0x1290, 0x22f3, 0x32d2,
    0x4235, 0x5214, 0x6277, 0x7256, 0xb5ea, 0xa5cb, 0x95a8, 0x8589, 0xf56e, 0xe54f, 0xd52c, 0xc50d,
    0x34e2, 0x24c3, 0x14a0, 0x0481, 0x7466, 0x6447, 0x5424, 0x4405, 0xa7db, 0xb7fa, 0x8799, 0x97b8,
    0xe75f, 0xf77e, 0xc71d, 0xd73c, 0x26d3, 0x36f2, 0x0691, 0x16b0, 0x6657, 0x7676, 0x4615, 0x5634,
    0xd94c, 0xc96d, 0xf90e, 0xe92f, 0x99c8, 0x89e9, 0xb98a, 0xa9ab, 0x5844, 0x4865, 0x7806, 0x6827,
    0x18c0, 0x08e1, 0x3882, 0x28a3, 0xcb7d, 0xdb5c, 0xeb3f, 0xfb1e, 0x8bf9, 0x9bd8, 0xabbb, 0xbb9a,
    0x4a75, 0x5a54, 0x6a37, 0x7a16, 0x0af1, 0x1ad0, 0x2ab3, 0x3a92, 0xfd2e, 0xed0f, 0xdd6c, 0xcd4d,
    0xbdaa, 0xad8b, 0x9de8, 0x8dc9, 0x7c26, 0x6c07, 0x5c64, 0x4c45, 0x3ca2, 0x2c83, 0x1ce0, 0x0cc1,
    0xef1f, 0xff3e, 0xcf5d, 0xdf7c, 0xaf9b, 0xbfba, 0x8fd9, 0x9ff8, 0x6e17, 0x7e36, 0x4e55, 0x5e74,
    0x2e93, 0x3eb2, 0x0ed1, 0x1ef0]"

fun morse_crc16 :: "u16 \<Rightarrow> u8 list \<Rightarrow> u16" where
  "morse_crc16 crc [] = crc"
| "morse_crc16 crc (d # ds) =
     morse_crc16 (crc16_lookup_table ! unat (drop_bit 8 crc XOR ucast d) XOR push_bit 8 crc) ds"

section \<open>Commands\<close>

definition morse_receive_spi :: "spi_bus \<Rightarrow> u8 \<times> spi_bus" where
  "morse_receive_spi b = spi_rw 0xff b"

text \<open>
  The polling loops of the driver: receive until a byte satisfies \<open>P\<close>, at most \<open>n\<close> times, and
  keep the byte received last (\<open>r\<close> before the first).
\<close>

fun receive_until :: "(u8 \<Rightarrow> bool) \<Rightarrow> nat \<Rightarrow> u8 \<Rightarrow> spi_bus \<Rightarrow> u8 \<times> spi_bus" where
  "receive_until P 0 r b = (r, b)"
| "receive_until P (Suc n) r b = (let (r, b) = morse_receive_spi b in if P r then (r, b) else receive_until P n r b)"

definition morse_wait_ready :: "spi_bus \<Rightarrow> bool \<times> spi_bus" where
  "morse_wait_ready b = (let (r, b) = receive_until (\<lambda>r. r = 0xff) MAX_BUS_ATTEMPTS 0 b in (r = 0xff, b))"

fun response_loop :: "nat \<Rightarrow> u8 \<Rightarrow> u8 \<Rightarrow> spi_bus \<Rightarrow> u8 \<times> u8 \<times> spi_bus" where
  "response_loop 0 status dat b = (status, dat, b)"
| "response_loop (Suc n) status dat b =
     (let status = dat; (dat, b) = morse_receive_spi b in
      if status \<noteq> 0xFF then (status, dat, b) else response_loop n status dat b)"

definition cmd_frame :: "u8 \<Rightarrow> u32 \<Rightarrow> u8 list option" where
  "cmd_frame cmd_idx arg = (let buf = (cmd_idx OR SDIO_DIR_HOST_TO_CARD) # UNPACK_BE32 arg in
     if cmd_idx = SDIO_CMD52 \<or> cmd_idx = SDIO_CMD53
     then do { c \<leftarrow> morse_crc7 0 buf; Some (buf @ [push_bit 1 c OR 1]) }
     else Some (buf @ [0xFF]))"

text \<open>The second result is what is stored in \<open>*rsp\<close>, if anything and unless \<open>rsp\<close> is \<open>NULL\<close>.\<close>

definition sdio_spi_send_cmd :: "u8 \<Rightarrow> u32 \<Rightarrow> spi_bus \<Rightarrow> (sdio_spi_rc \<times> u8 option \<times> spi_bus) option" where
  "sdio_spi_send_cmd cmd_idx arg b =
     (let b = spi_cs True b;
          (ready, b) = (if cmd_idx \<noteq> SDIO_CMD63 then morse_wait_ready b else (True, b)) in
      if \<not> ready then Some (RC_DEVICE_NOT_READY, None, spi_cs False b)
      else do {
        buf \<leftarrow> cmd_frame cmd_idx arg;
        let b = spi_write_buf buf b;
        let (dat, b) = morse_receive_spi b;
        let (status, dat, b) = response_loop MAX_BUS_ATTEMPTS 0 dat b;
        let ret = (if status \<noteq> 0x00 then RC_INVALID_RESPONSE else RC_SUCCESS);
        let ret = (if cmd_idx = SDIO_CMD53 \<and> dat \<noteq> 0x00 then RC_INVALID_RESPONSE_DATA else ret);
        Some (ret, Some status, spi_cs False b) })"

definition send_cmd_null :: "u8 \<Rightarrow> u32 \<Rightarrow> spi_bus \<Rightarrow> (sdio_spi_rc \<times> spi_bus) option" where
  "send_cmd_null cmd_idx arg b = map_option (\<lambda>(r, _, b). (r, b)) (sdio_spi_send_cmd cmd_idx arg b)"

definition cmd53_arg :: "sdio_rw \<Rightarrow> sdio_function \<Rightarrow> sdio_mode \<Rightarrow> u32 \<Rightarrow> u16 \<Rightarrow> u32" where
  "cmd53_arg rw_flag func mode address count =
     rw_bits rw_flag OR function_bits func OR mode_bits mode OR SDIO_OPCODE_INC_ADDR OR
     push_bit SDIO_ADDRESS_OFFSET address OR push_bit SDIO_COUNT_OFFSET (ucast count)"

definition morse_cmd53_send_cmd ::
  "sdio_rw \<Rightarrow> sdio_function \<Rightarrow> sdio_mode \<Rightarrow> u32 \<Rightarrow> u16 \<Rightarrow> spi_bus \<Rightarrow> (sdio_spi_rc \<times> spi_bus) option" where
  "morse_cmd53_send_cmd rw_flag func mode address count b =
     (if address \<le> SDIO_ADDRESS_MAX \<and> ucast count \<le> SDIO_COUNT_MAX
      then send_cmd_null 53 (cmd53_arg rw_flag func mode address count) b else None)"

definition cmd52_arg :: "u32 \<Rightarrow> u8 \<Rightarrow> sdio_function \<Rightarrow> u32" where
  "cmd52_arg address dat func =
     rw_bits SDIO_WRITE OR function_bits func OR mode_bits SDIO_MODE_BYTE OR
     push_bit SDIO_ADDRESS_OFFSET address OR push_bit SDIO_CMD52_DATA_OFFSET (ucast dat)"

definition morse_cmd52_write :: "u32 \<Rightarrow> u8 \<Rightarrow> sdio_function \<Rightarrow> spi_bus \<Rightarrow> (sdio_spi_rc \<times> spi_bus) option" where
  "morse_cmd52_write address dat func b =
     (if address \<le> SDIO_ADDRESS_MAX then send_cmd_null SDIO_CMD52 (cmd52_arg address dat func) b else None)"

section \<open>Data phases\<close>

definition be16_of :: "u8 \<Rightarrow> u8 \<Rightarrow> u16" where
  "be16_of hi lo = push_bit 8 (ucast hi) OR ucast lo"

function get_data_loop ::
  "nat \<Rightarrow> u8 list \<Rightarrow> nat \<Rightarrow> block_size \<Rightarrow> spi_bus \<Rightarrow> (sdio_spi_rc \<times> u8 list \<times> spi_bus) option" where
  "get_data_loop byte_cnt dat off bs b =
     (if byte_cnt = 0 then Some (RC_SUCCESS, dat, b)
      else let (rcv, b) = receive_until (\<lambda>r. r = SDIO_SPI_TKN_READ_SINGLE_WRITE) MAX_BUS_ATTEMPTS 0 b in
        if rcv \<noteq> SDIO_SPI_TKN_READ_SINGLE_WRITE then Some (RC_RESPONSE_TIMEOUT, dat, b)
        else let size = min byte_cnt (bs_bytes bs);
                 (blk, b) = spi_read_buf size b in
          do {
            dat \<leftarrow> blit dat off blk;
            let (hi, b) = morse_receive_spi b;
            let (lo, b) = morse_receive_spi b;
            if morse_crc16 0 (region dat off size) \<noteq> be16_of hi lo
            then Some (RC_INVALID_CRC_RECIEVED, dat, b)
            else get_data_loop (byte_cnt - size) dat (off + size) bs b })"
  by pat_completeness auto
termination
proof (relation "measure (\<lambda>(n, _). n)", goal_cases)
  case (2 byte_cnt dat off bs b x y z w size)
  then show ?case by (cases bs) auto
qed simp

declare get_data_loop.simps [simp del]

definition morse_cmd53_get_data ::
  "u16 \<Rightarrow> u8 list \<Rightarrow> nat \<Rightarrow> block_size \<Rightarrow> spi_bus \<Rightarrow> (sdio_spi_rc \<times> u8 list \<times> spi_bus) option" where
  "morse_cmd53_get_data byte_cnt dat off bs b =
     map_option (\<lambda>(r, d, b). (r, d, spi_cs False b)) (get_data_loop (unat byte_cnt) dat off bs (spi_cs True b))"

definition morse_test_data_rsp_token :: "u8 \<Rightarrow> sdio_spi_rc" where
  "morse_test_data_rsp_token token =
     (if token = SDIO_SPI_TKN_DATA_RSP_ACCEPTED then RC_SUCCESS
      else if token = SDIO_SPI_TKN_DATA_RSP_REJ_CRC then RC_INVALID_RESPONSE
      else if token = SDIO_SPI_TKN_DATA_RSP_REJ_WRITE then RC_INVALID_RESPONSE
      else RC_INVALID_RESPONSE)"

fun put_data_loop ::
  "nat \<Rightarrow> u8 list \<Rightarrow> nat \<Rightarrow> sdio_mode \<Rightarrow> block_size \<Rightarrow> nat \<Rightarrow> u8 \<Rightarrow> sdio_spi_rc \<Rightarrow> spi_bus \<Rightarrow> (sdio_spi_rc \<times> spi_bus) option" where
  "put_data_loop 0 dat off mode bs sz start_tkn result b = Some (result, b)"
| "put_data_loop (Suc n) dat off mode bs sz start_tkn result b =
     (if mode = SDIO_MODE_BYTE \<and> \<not> Suc n \<le> bs_bytes bs then None
      else let cnt = (if mode = SDIO_MODE_BYTE then 0 else n) in
        if length dat < off + sz then None
        else let crc16 = morse_crc16 0 (region dat off sz);
                 (bus_ready, b) = morse_wait_ready b in
          if \<not> bus_ready then Some (RC_UNSPECIFIED_ERROR, b)
          else let b = snd (spi_rw start_tkn b);
                   b = spi_write_buf (region dat off sz) b;
                   b = snd (spi_rw (ucast (drop_bit 8 crc16)) b);
                   b = snd (spi_rw (ucast crc16) b);
                   (rcv, b) = receive_until (\<lambda>r. r \<noteq> 0xff) 4 0xff b;
                   result = morse_test_data_rsp_token rcv in
            if result \<noteq> RC_SUCCESS then Some (result, b)
            else put_data_loop cnt dat (off + sz) mode bs sz start_tkn result b)"

definition morse_cmd53_put_data ::
  "u16 \<Rightarrow> u8 list \<Rightarrow> nat \<Rightarrow> sdio_mode \<Rightarrow> block_size \<Rightarrow> spi_bus \<Rightarrow> (sdio_spi_rc \<times> spi_bus) option" where
  "morse_cmd53_put_data cnt dat off mode bs b =
     (let size = (if mode = SDIO_MODE_BLOCK then bs_bytes bs else unat cnt);
          start_tkn = (if mode = SDIO_MODE_BLOCK \<and> cnt > 1 then SDIO_SPI_TKN_MULTI_WRITE else SDIO_SPI_TKN_READ_SINGLE_WRITE)
      in do {
        (result, b) \<leftarrow> put_data_loop (unat cnt) dat off mode bs size start_tkn RC_UNSPECIFIED_ERROR (spi_cs True b);
        let b = (if start_tkn = SDIO_SPI_TKN_MULTI_WRITE then snd (spi_rw SDIO_SPI_TKN_STOP_TRANSACTION b) else b);
        let b = snd (morse_wait_ready b);
        Some (result, spi_cs False b) })"

section \<open>Reads and writes\<close>

text \<open>A failure of the block part leaves nothing for the byte part, as the jump to the exit does.\<close>

definition function_block_size :: "sdio_function \<Rightarrow> block_size" where
  "function_block_size func = (if func = SDIO_FUNCTION_1 then BLOCK_SIZE_FN1 else BLOCK_SIZE_FN2)"

definition morse_cmd53_read ::
  "sdio_function \<Rightarrow> u32 \<Rightarrow> u8 list \<Rightarrow> nat \<Rightarrow> u32 \<Rightarrow> spi_bus \<Rightarrow> (sdio_spi_rc \<times> u8 list \<times> spi_bus) option" where
  "morse_cmd53_read func address dat off len b =
     (let bs = function_block_size func;
          num_blocks = ucast (drop_bit (bs_log2 bs) len) :: u16;
          transfer_size = ucast num_blocks * word_of_nat (bs_bytes bs) :: u32 in
      do {
        (result, dat, b, address, off, len) \<leftarrow>
          (if num_blocks > 0 then do {
             (result, b) \<leftarrow> morse_cmd53_send_cmd SDIO_READ func SDIO_MODE_BLOCK (address AND 0x0000FFFF) num_blocks b;
             if result \<noteq> RC_SUCCESS then Some (result, dat, b, address, off, 0)
             else do {
               (result, dat, b) \<leftarrow> morse_cmd53_get_data (ucast transfer_size) dat off bs b;
               if result \<noteq> RC_SUCCESS then Some (result, dat, b, address, off, 0)
               else Some (result, dat, b, address + transfer_size, off + unat transfer_size, len - transfer_size) } }
           else Some (RC_unset, dat, b, address, off, len));
        if len > 0 then do {
          (result, b) \<leftarrow> morse_cmd53_send_cmd SDIO_READ func SDIO_MODE_BYTE (address AND 0x0000FFFF) (ucast len) b;
          if result \<noteq> RC_SUCCESS then Some (result, dat, b)
          else morse_cmd53_get_data (ucast len) dat off bs b }
        else Some (result, dat, b) })"

definition morse_cmd53_write ::
  "sdio_function \<Rightarrow> u32 \<Rightarrow> u8 list \<Rightarrow> nat \<Rightarrow> u32 \<Rightarrow> spi_bus \<Rightarrow> (sdio_spi_rc \<times> spi_bus) option" where
  "morse_cmd53_write func address dat off len b =
     (let bs = function_block_size func;
          num_blocks = ucast (drop_bit (bs_log2 bs) len) :: u16;
          transfer_size = ucast num_blocks * word_of_nat (bs_bytes bs) :: u32 in
      do {
        (result, b, address, off, len) \<leftarrow>
          (if num_blocks > 0 then do {
             (result, b) \<leftarrow> morse_cmd53_send_cmd SDIO_WRITE func SDIO_MODE_BLOCK (address AND 0x0000FFFF) num_blocks b;
             if result \<noteq> RC_SUCCESS then Some (result, b, address, off, 0)
             else do {
               (result, b) \<leftarrow> morse_cmd53_put_data num_blocks dat off SDIO_MODE_BLOCK bs b;
               if result \<noteq> RC_SUCCESS then Some (result, b, address, off, 0)
               else Some (result, b, address + transfer_size, off + unat transfer_size, len - transfer_size) } }
           else Some (RC_UNSPECIFIED_ERROR, b, address, off, len));
        if len > 0 then do {
          (result, b) \<leftarrow> morse_cmd53_send_cmd SDIO_WRITE func SDIO_MODE_BYTE (address AND 0x0000FFFF) (ucast len) b;
          if result \<noteq> RC_SUCCESS then Some (result, b)
          else morse_cmd53_put_data (ucast len) dat off SDIO_MODE_BYTE bs b }
        else Some (result, b) })"

definition morse_address_base_set :: "u32 \<Rightarrow> u8 \<Rightarrow> sdio_function \<Rightarrow> spi_bus \<Rightarrow> (sdio_spi_rc \<times> spi_bus) option" where
  "morse_address_base_set address acc func b =
     (let address = address AND 0xFFFF0000 in
      if \<not> acc \<le> MORSE_CONFIG_ACCESS_4BYTE then None
      else do {
        (result, b) \<leftarrow> morse_cmd52_write MORSE_REG_ADDRESS_WINDOW_0 (ucast (drop_bit 16 address)) func b;
        if result \<noteq> RC_SUCCESS then Some (result, b)
        else do {
          (result, b) \<leftarrow> morse_cmd52_write MORSE_REG_ADDRESS_WINDOW_1 (ucast (drop_bit 24 address)) func b;
          if result \<noteq> RC_SUCCESS then Some (result, b)
          else morse_cmd52_write MORSE_REG_ADDRESS_CONFIG acc func b } })"

text \<open>\<open>rd0\<close> is what the local array holds at first; the value is stored on success only.\<close>

definition sdio_spi_read_le32 :: "u32 \<Rightarrow> u8 list \<Rightarrow> u32 option \<Rightarrow> spi_bus \<Rightarrow> (sdio_spi_rc \<times> u32 option \<times> spi_bus) option" where
  "sdio_spi_read_le32 address rd0 dat b =
     (case dat of None \<Rightarrow> Some (RC_INVALID_INPUT, None, b)
      | Some old \<Rightarrow> do {
          (result, b) \<leftarrow> morse_address_base_set address MORSE_CONFIG_ACCESS_4BYTE SDIO_FUNCTION_1 b;
          if result \<noteq> RC_SUCCESS then Some (result, Some old, b)
          else do {
            (result, rd, b) \<leftarrow> morse_cmd53_read SDIO_FUNCTION_1 address rd0 0 4 b;
            if result \<noteq> RC_SUCCESS then Some (result, Some old, b)
            else Some (result, Some (PACK_LE32 rd), b) } })"

definition next_transfer :: "u32 \<Rightarrow> u32 \<Rightarrow> u32" where
  "next_transfer address len =
     (let size = min len MAX_BLOCK_TRANSFER_SIZE_FN2;
          next_boundary = (address AND 0xFFFF0000) + 0x10000 in
      if address + size > next_boundary then next_boundary - address else size)"

partial_function (option) read_multi_loop ::
  "u32 \<Rightarrow> u8 list \<Rightarrow> nat \<Rightarrow> u32 \<Rightarrow> sdio_spi_rc \<Rightarrow> spi_bus \<Rightarrow> (sdio_spi_rc \<times> u8 list \<times> spi_bus) option" where
  "read_multi_loop address dat off len result b =
     (if len = 0 then Some (result, dat, b)
      else do {
        (result, b) \<leftarrow> morse_address_base_set address MORSE_CONFIG_ACCESS_4BYTE SDIO_FUNCTION_2 b;
        if result \<noteq> RC_SUCCESS then Some (result, dat, b)
        else let size = next_transfer address len in do {
          (result, dat, b) \<leftarrow> morse_cmd53_read SDIO_FUNCTION_2 address dat off size b;
          if result \<noteq> RC_SUCCESS then Some (result, dat, b)
          else if length dat < off + 8 then None
          else do {
            (result, dat, b) \<leftarrow>
              (if region dat off 4 = region dat (off + 4) 4
               then morse_cmd53_read SDIO_FUNCTION_2 address dat off 8 b else Some (result, dat, b));
            if result \<noteq> RC_SUCCESS then Some (result, dat, b)
            else read_multi_loop (address + size) dat (off + unat size) (len - size) result b } } })"

definition sdio_spi_read_multi_byte :: "u32 \<Rightarrow> u8 list \<Rightarrow> u32 \<Rightarrow> spi_bus \<Rightarrow> (sdio_spi_rc \<times> u8 list \<times> spi_bus) option" where
  "sdio_spi_read_multi_byte address dat len b =
     (if len = 0 \<or> len AND 0x03 \<noteq> 0 then Some (RC_INVALID_INPUT, dat, b)
      else read_multi_loop address dat 0 len RC_unset b)"

partial_function (option) write_multi_loop ::
  "u32 \<Rightarrow> u8 list \<Rightarrow> nat \<Rightarrow> u32 \<Rightarrow> sdio_spi_rc \<Rightarrow> spi_bus \<Rightarrow> (sdio_spi_rc \<times> spi_bus) option" where
  "write_multi_loop address dat off len result b =
     (if len = 0 then Some (result, b)
      else do {
        (result, b) \<leftarrow> morse_address_base_set address MORSE_CONFIG_ACCESS_4BYTE SDIO_FUNCTION_2 b;
        if result \<noteq> RC_SUCCESS then Some (result, b)
        else let size = next_transfer address len in do {
          (_, b) \<leftarrow> morse_cmd53_write SDIO_FUNCTION_2 address dat off size b;
          write_multi_loop (address + size) dat (off + unat size) (len - size) result b } })"

definition sdio_spi_write_multi_byte :: "u32 \<Rightarrow> u8 list \<Rightarrow> u32 \<Rightarrow> spi_bus \<Rightarrow> (sdio_spi_rc \<times> spi_bus) option" where
  "sdio_spi_write_multi_byte address dat len b =
     (if len = 0 \<or> len AND 0x03 \<noteq> 0 then Some (RC_INVALID_INPUT, b)
      else write_multi_loop address dat 0 len RC_unset b)"

end
