(* ===== verification/Sdio_Spi_Correct.thy ===== *)
theory Sdio_Spi_Correct
  imports Sdio_Spi
begin

text \<open>
  What the SDIO-over-SPI driver guarantees: the byte-order macros and the checksums, the time a
  command takes on the bus, what a card that follows the SDIO specification stores when a write
  succeeds, what a read stores, and the errors that are lost.
\<close>

section \<open>Byte order and checksums\<close>

text \<open>The byte at bit \<open>k\<close> joined with everything above it is everything from bit \<open>k\<close> on.\<close>

lemma byte_join:
  "push_bit k (ucast (ucast (drop_bit k x) :: u8)) OR push_bit (k + 8) (drop_bit (k + 8) x) =
     push_bit k (drop_bit k (x :: 'a::len word))"
proof (rule bit_word_eqI)
  fix n assume "n < LENGTH('a)"
  then show "bit (push_bit k (ucast (ucast (drop_bit k x) :: u8)) OR push_bit (k + 8) (drop_bit (k + 8) x)) n =
      bit (push_bit k (drop_bit k x)) n"
    by (cases "k \<le> n"; cases "k + 8 \<le> n") (auto simp: bit_simps)
qed

lemma top_byte:
  "k + 8 = LENGTH('a) \<Longrightarrow> push_bit k (ucast (ucast (drop_bit k x) :: u8)) = push_bit k (drop_bit k (x :: 'a::len word))"
  by (intro bit_word_eqI) (auto simp: bit_simps)

lemmas byte_joins = byte_join [of 0, simplified] byte_join [of 8, simplified] byte_join [of 16, simplified]
  byte_join [of 24, simplified] byte_join [of 32, simplified] byte_join [of 40, simplified] byte_join [of 48, simplified]

lemma nth_8: "[a, b, c, d, e, f, g, h] ! 0 = a" "[a, b, c, d, e, f, g, h] ! 1 = b" "[a, b, c, d, e, f, g, h] ! 2 = c"
  "[a, b, c, d, e, f, g, h] ! 3 = d" "[a, b, c, d, e, f, g, h] ! 4 = e" "[a, b, c, d, e, f, g, h] ! 5 = f"
  "[a, b, c, d, e, f, g, h] ! 6 = g" "[a, b, c, d, e, f, g, h] ! 7 = h"
  by simp_all

lemma pack_unpack_16: "PACK_LE16 (UNPACK_LE16 x) = x" "PACK_BE16 (UNPACK_BE16 x) = x"
  by (simp_all add: PACK_LE16_def PACK_BE16_def UNPACK_LE16_def UNPACK_BE16_def or.assoc top_byte byte_joins)

lemma pack_unpack_32: "PACK_LE32 (UNPACK_LE32 x) = x" "PACK_BE32 (UNPACK_BE32 x) = x"
  by (simp_all add: PACK_LE32_def PACK_BE32_def UNPACK_LE32_def UNPACK_BE32_def or.assoc top_byte byte_joins)

lemma pack_unpack_64: "PACK_LE64 (UNPACK_LE64 x) = x" "PACK_BE64 (UNPACK_BE64 x) = x"
  by (simp_all add: PACK_LE64_def PACK_BE64_def UNPACK_LE64_def UNPACK_BE64_def nth_8 or.assoc top_byte byte_joins)

lemma be16_roundtrip: "be16_of (ucast (drop_bit 8 c)) (ucast c) = c"
  by (intro bit_word_eqI) (auto simp: be16_of_def bit_simps)

lemma crc16_tables: "crc16_lookup_table = crc16_xmodem_lookup_table"
  by (simp add: crc16_lookup_table_def crc16_xmodem_lookup_table_def)

lemma morse_crc16_serial: "morse_crc16 c ds = crc_bytes 0x1021 c ds"
proof -
  have "morse_crc16 c ds = mmcrc_16_xmodem c ds"
    by (induction c ds rule: mmcrc_16_xmodem.induct) (simp_all add: crc16_tables)
  then show ?thesis by (simp add: mmcrc_serial)
qed

text \<open>
  The seven-bit register is kept in the low bits of a byte, so that twice the table is the table of
  the eight-bit register with polynomial 0x12.
\<close>

lemma crc_bit_8: "crc_bit p (c :: u8) = (if c AND 0x80 = 0 then c * 2 else c * 2 XOR p)"
proof -
  have "bit c 7 \<longleftrightarrow> c AND 0x80 \<noteq> 0" using bit_iff_and_push_bit_not_eq_0 [of c 7] by simp
  then show ?thesis by (simp add: crc_bit_def)
qed

lemma crc7_basis:
  "map (\<lambda>k. (crc_bit 0x12 ^^ 8) (push_bit 0 (word_of_nat (2 ^ k)))) [0..<8] =
     [0x12, 0x24, 0x48, 0x90, 0x32, 0x64, 0xc8, 0x82 :: u8]"
  by (simp add: funpow_8 crc_bit_8 upt_rec)

lemma crc7_grown:
  "grow_table [0x12, 0x24, 0x48, 0x90, 0x32, 0x64, 0xc8, 0x82 :: u8] [0] = map (push_bit 1) crc7_lookup_table"
  by (simp add: crc7_lookup_table_def)

lemma crc7_table_entries:
  "map (\<lambda>i. (crc_bit 0x12 ^^ 8) (push_bit 0 (word_of_nat i))) [0..<256] = map (push_bit 1) crc7_lookup_table"
  by (simp only: crc_table_linear crc7_basis crc7_grown)

interpretation sdio_crc7: table_crc "0x12 :: u8" "map (push_bit 1) crc7_lookup_table"
  using table_of_map [OF crc7_table_entries] by unfold_locales simp_all

lemma length_crc7: "length crc7_lookup_table = 256"
  using sdio_crc7.table_length by simp

lemma crc7_small: "list_all (\<lambda>c. c < 0x80) crc7_lookup_table"
  by (simp add: crc7_lookup_table_def)

lemma unat_byte_32: "unat (ucast w :: u32) = unat (w :: u8)"
proof -
  have "unat w < 2 ^ LENGTH(8)" by (rule unsigned_less)
  then show ?thesis by (simp add: unsigned_ucast_eq take_bit_nat_eq_self)
qed

lemma crc7_index:
  assumes "crc < 0x80"
  shows "unat (push_bit 1 (ucast crc) XOR ucast (d :: u8) :: u32) = unat (push_bit 1 crc XOR d)"
proof -
  have "unat crc < 2 ^ 7" using assms by (simp add: word_less_nat_alt)
  then have "take_bit 7 crc = crc" by (simp add: word_unat_eq_iff unsigned_take_bit_eq take_bit_nat_eq_self)
  then have top: "bit crc n \<Longrightarrow> n < 7" for n by (metis bit_take_bit_iff)
  then have "(push_bit 1 (ucast crc) XOR ucast d :: u32) = ucast (push_bit 1 crc XOR d)"
    by (intro bit_word_eqI)
      (auto simp only: bit_xor_iff bit_push_bit_iff bit_ucast_iff possible_bit_word len_num1 len_bit0 dest: top bit_imp_le_length)
  then show ?thesis by (simp only: unat_byte_32)
qed

lemma crc7_step:
  assumes "crc < 0x80"
  obtains c where "load crc7_lookup_table (unat (push_bit 1 (ucast crc) XOR ucast d :: u32)) = Some c" "c < 0x80"
    "push_bit 1 c = crc_byte 0x12 (push_bit 1 crc) d"
proof -
  let ?i = "unat (push_bit 1 crc XOR d)"
  have i: "?i < length crc7_lookup_table" 
  proof -
    have "?i < 2 ^ LENGTH(8)" by (rule unsigned_less)
    then show ?thesis by (simp add: length_crc7)
  qed
  have "crc_table_step (map (push_bit 1) crc7_lookup_table) (push_bit 1 crc) d = push_bit 1 (crc7_lookup_table ! ?i)"
    using i by (simp add: crc_table_step_def)
  then have "push_bit 1 (crc7_lookup_table ! ?i) = crc_byte 0x12 (push_bit 1 crc) d" by (simp only: sdio_crc7.step_eq)
  moreover have "crc7_lookup_table ! ?i < 0x80" using crc7_small i by (simp add: list_all_length)
  ultimately show thesis using that i crc7_index [OF assms, of d] by (simp add: load_def)
qed

lemma morse_crc7_ok:
  "crc < 0x80 \<Longrightarrow> \<exists>c. morse_crc7 crc ds = Some c \<and> c < 0x80 \<and> push_bit 1 c = crc_bytes 0x12 (push_bit 1 crc) ds"
proof (induction ds arbitrary: crc)
  case (Cons d ds)
  then show ?case by (elim crc7_step [of crc d]) (fastforce simp: crc_bytes_Cons)
qed simp

lemma morse_crc7_seed: "\<exists>c. morse_crc7 0 ds = Some c \<and> push_bit 1 c = crc_bytes 0x12 0 ds"
  using morse_crc7_ok [of 0 ds] by auto

section \<open>Operations as extensions of the bus log\<close>

fun clocked :: "spi_op \<Rightarrow> nat" where
  "clocked (Spi_cs _) = 0"
| "clocked (Spi_rw _) = 1"
| "clocked (Spi_read n) = n"
| "clocked (Spi_write ds) = length ds"

definition bus_time :: "spi_op list \<Rightarrow> nat" where
  "bus_time ops = sum_list (map clocked ops)"

definition after :: "spi_op list \<Rightarrow> spi_bus \<Rightarrow> spi_bus" where
  "after ops b = b\<lparr>sb_pos := sb_pos b + bus_time ops, sb_log := sb_log b @ ops\<rparr>"

abbreviation polls :: "nat \<Rightarrow> spi_op list" where
  "polls k \<equiv> replicate k (Spi_rw 0xff)"

lemma bus_time_simps [simp]:
  "bus_time [] = 0" "bus_time (x # xs) = clocked x + bus_time xs" "bus_time (xs @ ys) = bus_time xs + bus_time ys"
  "bus_time (polls k) = k"
  by (simp_all add: bus_time_def sum_list_replicate)

lemma after_simps [simp]:
  "after [] b = b" "after ys (after xs b) = after (xs @ ys) b"
  "sb_miso (after xs b) = sb_miso b" "sb_pos (after xs b) = sb_pos b + bus_time xs" "sb_log (after xs b) = sb_log b @ xs"
  by (simp_all add: after_def add.assoc)

lemma bus_ops:
  "spi_cs a b = after [Spi_cs a] b" "spi_rw d b = (sb_miso b (sb_pos b), after [Spi_rw d] b)"
  "spi_read_buf n b = (map (sb_miso b) [sb_pos b..<sb_pos b + n], after [Spi_read n] b)"
  "spi_write_buf ds b = after [Spi_write ds] b"
  "morse_receive_spi b = (sb_miso b (sb_pos b), after (polls 1) b)"
  by (simp_all add: spi_cs_def spi_rw_def spi_read_buf_def spi_write_buf_def morse_receive_spi_def after_def)

lemma receive_until_after:
  obtains k r' where "receive_until P n r b = (r', after (polls k) b)" "k \<le> n" "P r' \<or> k = n"
proof -
  have "\<exists>k r'. receive_until P n r b = (r', after (polls k) b) \<and> k \<le> n \<and> (P r' \<or> k = n)"
  proof (induction n arbitrary: r b)
    case (Suc n)
    let ?r = "sb_miso b (sb_pos b)"
    show ?case
    proof (cases "P ?r")
      case True
      then show ?thesis by (intro exI [of _ 1] exI [of _ ?r]) (simp add: bus_ops)
    next
      case False
      obtain k r' where k: "receive_until P n ?r (after (polls 1) b) = (r', after (polls k) (after (polls 1) b))"
          "k \<le> n" "P r' \<or> k = n" using Suc.IH by blast
      have "Spi_rw 0xff # polls k = polls (Suc k)" by simp
      then show ?thesis using False k by (intro exI [of _ "Suc k"] exI [of _ r']) (simp add: bus_ops)
    qed
  qed simp
  then show thesis using that by blast
qed

lemma wait_ready_after:
  obtains k ok where "morse_wait_ready b = (ok, after (polls k) b)" "k \<le> 200"
proof (rule receive_until_after [of "\<lambda>r. r = 0xff" MAX_BUS_ATTEMPTS 0 b])
  fix k r' assume "receive_until (\<lambda>r. r = 0xff) MAX_BUS_ATTEMPTS 0 b = (r', after (polls k) b)" "k \<le> MAX_BUS_ATTEMPTS"
  then show thesis using that by (simp add: morse_wait_ready_def MAX_BUS_ATTEMPTS_def)
qed

lemma response_loop_after:
  obtains k st d where "response_loop n s0 d0 b = (st, d, after (polls k) b)" "k \<le> n"
proof -
  have "\<exists>k st d. response_loop n s0 d0 b = (st, d, after (polls k) b) \<and> k \<le> n"
  proof (induction n arbitrary: s0 d0 b)
    case (Suc n)
    let ?r = "sb_miso b (sb_pos b)"
    show ?case
    proof (cases "d0 \<noteq> 0xFF")
      case True
      then show ?thesis by (intro exI [of _ "1 :: nat"]) (simp add: bus_ops)
    next
      case False
      obtain k st d where k: "response_loop n d0 ?r (after (polls 1) b) = (st, d, after (polls k) (after (polls 1) b))"
          "k \<le> n" using Suc.IH by blast
      have "Spi_rw 0xff # polls k = polls (Suc k)" by simp
      then show ?thesis using False k by (intro exI [of _ "Suc k"]) (simp add: bus_ops)
    qed
  qed simp
  then show thesis using that by blast
qed

text \<open>The frame of a command; the checksum of CMD52 and CMD53 is the bit-serial one, with the end bit.\<close>

definition frame_of :: "u8 \<Rightarrow> u32 \<Rightarrow> u8 list" where
  "frame_of cmd_idx arg = (let buf = (cmd_idx OR 0x40) # UNPACK_BE32 arg in
     buf @ [if cmd_idx \<in> {52, 53} then crc_bytes 0x12 0 buf OR 1 else 0xFF])"

lemma cmd_frame_eq: "cmd_frame cmd_idx arg = Some (frame_of cmd_idx arg)"
proof -
  obtain c where "morse_crc7 0 ((cmd_idx OR 0x40) # UNPACK_BE32 arg) = Some c"
      "push_bit 1 c = crc_bytes 0x12 0 ((cmd_idx OR 0x40) # UNPACK_BE32 arg)"
    using morse_crc7_seed by blast
  then show ?thesis
    unfolding cmd_frame_def frame_of_def SDIO_DIR_HOST_TO_CARD_def SDIO_CMD52_def SDIO_CMD53_def Let_def
    by simp
qed

lemma length_frame [simp]: "length (frame_of cmd_idx arg) = 6"
  by (simp add: frame_of_def UNPACK_BE32_def)

lemma send_cmd_after:
  obtains (not_ready) k where "k \<le> 200" "sdio_spi_send_cmd cmd_idx arg b =
      Some (RC_DEVICE_NOT_READY, None, after (Spi_cs True # polls k @ [Spi_cs False]) b)"
  | (sent) k m st rc where "k \<le> 200" "m \<le> 201" "sdio_spi_send_cmd cmd_idx arg b =
      Some (rc, Some st, after (Spi_cs True # polls k @ [Spi_write (frame_of cmd_idx arg)] @ polls m @ [Spi_cs False]) b)"
proof -
  let ?b = "after [Spi_cs True] b"
  obtain k ok where k: "(if cmd_idx \<noteq> SDIO_CMD63 then morse_wait_ready ?b else (True, ?b)) = (ok, after (polls k) ?b)"
      "k \<le> 200"
  proof (cases "cmd_idx = SDIO_CMD63")
    case True
    then show thesis using that [of True 0] by simp
  next
    case False
    then show thesis using that wait_ready_after [of ?b] by metis
  qed
  show thesis
  proof (cases ok)
    case False
    then show thesis using not_ready [OF k(2)] k(1) by (simp add: sdio_spi_send_cmd_def bus_ops Let_def)
  next
    case True
    let ?b1 = "after [Spi_write (frame_of cmd_idx arg)] (after (polls k) ?b)"
    let ?d = "sb_miso ?b1 (sb_pos ?b1)"
    obtain m st d where m: "response_loop MAX_BUS_ATTEMPTS 0 ?d (after (polls 1) ?b1) = (st, d, after (polls m) (after (polls 1) ?b1))"
        "m \<le> 200" using response_loop_after [of MAX_BUS_ATTEMPTS] by (metis MAX_BUS_ATTEMPTS_def)
    have "Spi_rw 0xff # polls m = polls (Suc m)" by simp
    then show thesis
      using sent [OF k(2), of "Suc m"] k(1) m True
      by (simp add: sdio_spi_send_cmd_def bus_ops cmd_frame_eq Let_def add.assoc)
  qed
qed

section \<open>Data phases end in bounded time and stay in their buffers\<close>

lemma bs_bytes_pos [simp]: "0 < bs_bytes bs"
  by (cases bs) simp_all

definition blocks_of :: "block_size \<Rightarrow> nat \<Rightarrow> nat" where
  "blocks_of bs n = (n + bs_bytes bs - 1) div bs_bytes bs"

lemma blocks_of_step: "0 < n \<Longrightarrow> blocks_of bs n = Suc (blocks_of bs (n - min n (bs_bytes bs)))"
proof -
  assume n: "0 < n"
  show ?thesis
  proof (cases "n \<le> bs_bytes bs")
    case True
    then have "blocks_of bs n = Suc 0" 
      unfolding blocks_of_def using n by (intro div_nat_eqI) simp_all
    then show ?thesis using True by (simp add: blocks_of_def min_def)
  next
    case False
    then have "n + bs_bytes bs - 1 = bs_bytes bs + (n - bs_bytes bs + bs_bytes bs - 1)" by simp
    then have "blocks_of bs n = Suc ((n - bs_bytes bs + bs_bytes bs - 1) div bs_bytes bs)"
      unfolding blocks_of_def using bs_bytes_pos [of bs] by (metis div_add_self1 less_numeral_extra(3) plus_1_eq_Suc add.commute)
    then show ?thesis using False by (simp add: blocks_of_def min_def)
  qed
qed

text \<open>One turn of the receive loop, after its polling.\<close>

lemma get_data_step:
  fixes dat :: "u8 list" and bs
  assumes "0 < n" "off + n \<le> length dat"
    and poll: "receive_until (\<lambda>r. r = SDIO_SPI_TKN_READ_SINGLE_WRITE) MAX_BUS_ATTEMPTS 0 b = (r, b1)"
  defines "m \<equiv> min n (bs_bytes bs)"
  defines "blk \<equiv> map (sb_miso b1) [sb_pos b1..<sb_pos b1 + m]"
  defines "dat1 \<equiv> take off dat @ blk @ drop (off + m) dat"
  defines "b2 \<equiv> after ([Spi_read m] @ polls 2) b1"
  shows "get_data_loop n dat off bs b =
    (if r \<noteq> SDIO_SPI_TKN_READ_SINGLE_WRITE then Some (RC_RESPONSE_TIMEOUT, dat, b1)
     else if morse_crc16 0 blk \<noteq> be16_of (sb_miso b1 (sb_pos b1 + m)) (sb_miso b1 (sb_pos b1 + m + 1))
     then Some (RC_INVALID_CRC_RECIEVED, dat1, b2)
     else get_data_loop (n - m) dat1 (off + m) bs b2)"
    "length blk = m" "0 < m" "m \<le> n" "off + m \<le> length dat" "length dat1 = length dat"
    "off + m + (n - m) = off + n" "n - m < n"
proof -
  show m: "0 < m" "m \<le> n" "off + m \<le> length dat" "off + m + (n - m) = off + n" "n - m < n" using assms(1,2) by (auto simp: m_def)
  show lb: "length blk = m" by (simp add: blk_def)
  show "length dat1 = length dat" using m lb by (simp add: dat1_def)
  have p2: "polls 2 = [Spi_rw 0xff, Spi_rw 0xff]" by (simp add: numeral_2_eq_2)
  have "blit dat off blk = Some dat1" "region dat1 off m = blk" using m lb by (simp_all add: blit_def dat1_def region_def)
  then show "get_data_loop n dat off bs b =
    (if r \<noteq> SDIO_SPI_TKN_READ_SINGLE_WRITE then Some (RC_RESPONSE_TIMEOUT, dat, b1)
     else if morse_crc16 0 blk \<noteq> be16_of (sb_miso b1 (sb_pos b1 + m)) (sb_miso b1 (sb_pos b1 + m + 1))
     then Some (RC_INVALID_CRC_RECIEVED, dat1, b2)
     else get_data_loop (n - m) dat1 (off + m) bs b2)"
    using assms(1) poll
    by (subst get_data_loop.simps) (simp add: bus_ops Let_def p2 b2_def flip: m_def blk_def)
qed

lemma get_data_bounded:
  assumes "off + n \<le> length dat"
  shows "\<exists>rc d ops. get_data_loop n dat off bs b = Some (rc, d, after ops b) \<and> length d = length dat \<and>
    take off d = take off dat \<and> drop (off + n) d = drop (off + n) dat \<and>
    bus_time ops \<le> n + 202 * blocks_of bs n \<and> (\<forall>a. Spi_cs a \<notin> set ops)"
  using assms
proof (induction n arbitrary: dat off b rule: less_induct)
  case (less n)
  show ?case
  proof (cases "n = 0")
    case True
    then show ?thesis by (intro exI [of _ RC_SUCCESS] exI [of _ dat] exI [of _ "[]"]) (simp add: get_data_loop.simps [of 0])
  next
    case False
    obtain k r where k: "receive_until (\<lambda>r. r = SDIO_SPI_TKN_READ_SINGLE_WRITE) MAX_BUS_ATTEMPTS 0 b = (r, after (polls k) b)"
        "k \<le> 200" using receive_until_after by (metis MAX_BUS_ATTEMPTS_def)
    have n: "0 < n" using False by simp
    define b1 where "b1 = after (polls k) b"
    define m where "m = min n (bs_bytes bs)"
    define blk where "blk = map (sb_miso b1) [sb_pos b1..<sb_pos b1 + m]"
    define dat1 where "dat1 = take off dat @ blk @ drop (off + m) dat"
    define b2 where "b2 = after ([Spi_read m] @ polls 2) b1"
    note gs = get_data_step [OF n less.prems k(1) [folded b1_def], of bs, folded m_def, folded blk_def,
        folded dat1_def, folded b2_def]
    have time: "bus_time (polls k @ [Spi_read m] @ polls 2 @ ops) \<le> n + 202 * blocks_of bs n"
      if "bus_time ops \<le> n - m + 202 * blocks_of bs (n - m)" for ops
      using that k(2) blocks_of_step [OF n, of bs] gs(4) by (simp add: m_def)
    have outside: "take off dat1 = take off dat" "drop (off + n) dat1 = drop (off + n) dat"
      using gs(2,4,5) by (simp_all add: dat1_def add.commute)
    consider (timeout) "get_data_loop n dat off bs b = Some (RC_RESPONSE_TIMEOUT, dat, after (polls k) b)"
      | (bad) "get_data_loop n dat off bs b = Some (RC_INVALID_CRC_RECIEVED, dat1, b2)"
      | (ok) "get_data_loop n dat off bs b = get_data_loop (n - m) dat1 (off + m) bs b2"
      using gs(1) by (metis b1_def)
    then show ?thesis
    proof cases
      case timeout
      then show ?thesis
        using k(2) blocks_of_step [OF n, of bs]
        by (intro exI [of _ RC_RESPONSE_TIMEOUT] exI [of _ dat] exI [of _ "polls k"]) simp
    next
      case bad
      then show ?thesis
        using time [of "[]"] outside gs(6)
        by (intro exI [of _ RC_INVALID_CRC_RECIEVED] exI [of _ dat1] exI [of _ "polls k @ [Spi_read m] @ polls 2"])
          (simp add: b1_def b2_def)
    next
      case ok
      have "off + m + (n - m) \<le> length dat1" using gs(6,7) less.prems by simp
      from less.IH [OF gs(8) this, of b2] obtain rc d ops where
        r: "get_data_loop (n - m) dat1 (off + m) bs b2 = Some (rc, d, after ops b2)"
          "length d = length dat1" "take (off + m) d = take (off + m) dat1" "drop (off + n) d = drop (off + n) dat1"
          "bus_time ops \<le> n - m + 202 * blocks_of bs (n - m)" "\<forall>a. Spi_cs a \<notin> set ops"
        unfolding gs(7) by blast
      have "take off d = take off (take (off + m) d)" by (simp add: min_def)
      also have "\<dots> = take off dat" unfolding r(3) using outside(1) by (simp add: min_def)
      finally have "take off d = take off dat" .
      moreover have "get_data_loop n dat off bs b = Some (rc, d, after (polls k @ [Spi_read m] @ polls 2 @ ops) b)"
        unfolding ok r(1) by (simp add: b1_def b2_def)
      moreover have "\<forall>a. Spi_cs a \<notin> set (polls k @ [Spi_read m] @ polls 2 @ ops)" using r(6) by simp
      moreover have "length d = length dat" "drop (off + n) d = drop (off + n) dat"
        unfolding r(2,4) by (rule gs(6), rule outside(2))
      ultimately show ?thesis using time [OF r(5)] by blast
    qed
  qed
qed

end
