(* ===== verification/Sdio_Card.thy ===== *)
theory Sdio_Card
  imports Sdio_Spi_Correct
begin

text \<open>
  The other end of the bus: a card that follows the SDIO specification reads the operations of
  \<^verbatim>\<open>sdio_spi.c\<close> off the bus, checks the CRC of each frame and block, and stores what is written. A
  write that the driver reports as successful is what this card has in its memory; the theory also
  shows which errors the driver loses on the way.
\<close>

section \<open>A card that listens\<close>

text \<open>
  Between commands the card is in \<open>Ph_cmd\<close>. After a CMD53 write it waits for \<open>n\<close> blocks of \<open>sz\<close>
  bytes, each introduced by a start token and followed by its CRC, high byte first. The
  window registers of each function give the upper half of the addresses.
\<close>

datatype card_phase = Ph_cmd | Ph_wait u32 nat nat | Ph_data u32 nat nat | Ph_crc u32 nat "u8 list" "u8 option"

record card =
  cd_phase :: card_phase
  cd_window :: "u32 \<Rightarrow> u8 \<times> u8"
  cd_mem :: "u32 \<Rightarrow> u8 option"

definition mem_put :: "(u32 \<Rightarrow> u8 option) \<Rightarrow> u32 \<Rightarrow> u8 list \<Rightarrow> (u32 \<Rightarrow> u8 option)" where
  "mem_put m a ds = (\<lambda>x. if unat (x - a) < length ds then Some (ds ! unat (x - a)) else m x)"

definition window_base :: "u8 \<times> u8 \<Rightarrow> u32" where
  "window_base w = push_bit 16 (ucast (fst w)) OR push_bit 24 (ucast (snd w))"

definition card_cmd :: "u8 \<Rightarrow> u32 \<Rightarrow> card \<Rightarrow> card" where
  "card_cmd idx arg c =
     (let fn = take_bit 3 (drop_bit 28 arg); addr = take_bit 17 (drop_bit 9 arg); w = cd_window c fn;
          a = window_base w + addr; n = unat (take_bit 9 arg) in
      if idx = 52 \<and> bit arg 31 then
        c\<lparr>cd_phase := Ph_cmd, cd_window := (cd_window c)(fn :=
            if addr = 0x10000 then (ucast arg, snd w) else if addr = 0x10001 then (fst w, ucast arg) else w)\<rparr>
      else if idx = 53 \<and> bit arg 31 \<and> addr < 0x10000 then
        c\<lparr>cd_phase := (if bit arg 27 then Ph_wait a n (if fn = 1 then 8 else 512) else Ph_wait a 1 n)\<rparr>
      else c\<lparr>cd_phase := Ph_cmd\<rparr>)"

definition card_frame :: "u8 list \<Rightarrow> card \<Rightarrow> card" where
  "card_frame ds c =
     (if length ds = 6 \<and> ds ! 5 = crc_bytes 0x12 0 (take 5 ds) OR 1
      then card_cmd (take_bit 6 (ds ! 0)) (PACK_BE32 (tl ds)) c else c\<lparr>cd_phase := Ph_cmd\<rparr>)"

fun card_step :: "card \<Rightarrow> spi_op \<Rightarrow> card" where
  "card_step c (Spi_cs a) = c"
| "card_step c (Spi_read n) = c"
| "card_step c (Spi_write ds) =
     (case cd_phase c of
        Ph_data a n sz \<Rightarrow> c\<lparr>cd_phase := (if length ds = sz then Ph_crc a n ds None else Ph_cmd)\<rparr>
      | _ \<Rightarrow> card_frame ds c)"
| "card_step c (Spi_rw d) =
     (case cd_phase c of
        Ph_wait a n sz \<Rightarrow> if d = 0xFE \<or> d = 0xFC then c\<lparr>cd_phase := Ph_data a n sz\<rparr>
          else if d = 0xFD then c\<lparr>cd_phase := Ph_cmd\<rparr> else c
      | Ph_crc a n blk None \<Rightarrow> c\<lparr>cd_phase := Ph_crc a n blk (Some d)\<rparr>
      | Ph_crc a n blk (Some hi) \<Rightarrow>
          (if be16_of hi d = crc_bytes 0x1021 0 blk
           then c\<lparr>cd_phase := (if n \<le> 1 then Ph_cmd else Ph_wait (a + word_of_nat (length blk)) (n - 1) (length blk)),
                  cd_mem := mem_put (cd_mem c) a blk\<rparr>
           else c\<lparr>cd_phase := Ph_cmd\<rparr>)
      | _ \<Rightarrow> c)"

definition card_reads :: "card \<Rightarrow> spi_op list \<Rightarrow> card" where
  "card_reads c ops = foldl card_step c ops"

lemma card_reads_simps [simp]:
  "card_reads c [] = c" "card_reads c (x # xs) = card_reads (card_step c x) xs"
  "card_reads c (xs @ ys) = card_reads (card_reads c xs) ys"
  by (simp_all add: card_reads_def)

definition between_blocks :: "card \<Rightarrow> bool" where
  "between_blocks c \<longleftrightarrow> (case cd_phase c of Ph_cmd \<Rightarrow> True | Ph_wait _ _ _ \<Rightarrow> True | _ \<Rightarrow> False)"

lemma polls_ignored [simp]: "between_blocks c \<Longrightarrow> card_reads c (polls k) = c"
  by (induction k) (auto simp: between_blocks_def split: card_phase.splits)

lemma frame_heard: "between_blocks c \<Longrightarrow> card_step c (Spi_write ds) = card_frame ds c"
  by (auto simp: between_blocks_def split: card_phase.splits)

lemma mem_put_append:
  assumes "length xs + length ys \<le> 2 ^ 32"
  shows "mem_put (mem_put m a xs) (a + word_of_nat (length xs)) ys = mem_put m a (xs @ ys)"
proof
  fix x
  let ?d = "unat (x - a)"
  let ?e = "unat (x - (a + word_of_nat (length xs)))"
  have dlt: "unat (w :: u32) < 2 ^ 32" for w
  proof -
    have "unat w < 2 ^ LENGTH(32)" by (rule unsigned_less)
    then show ?thesis by simp
  qed
  have e: "x - (a + word_of_nat (length xs)) = word_of_nat ?d - word_of_nat (length xs)" by simp
  show "mem_put (mem_put m a xs) (a + word_of_nat (length xs)) ys x = mem_put m a (xs @ ys) x"
  proof (cases "length xs \<le> ?d")
    case True
    have "?e = ?d - length xs"
    proof -
      have "word_of_nat ?d - word_of_nat (length xs) = (word_of_nat (?d - length xs) :: u32)"
        using True by (simp only: of_nat_diff)
      moreover have "unat (word_of_nat (?d - length xs) :: u32) = ?d - length xs"
        using dlt [of "x - a"] by (simp add: unat_of_nat)
      ultimately show ?thesis using e by metis
    qed
    then show ?thesis using True by (auto simp: mem_put_def nth_append)
  next
    case False
    have "length ys \<le> ?e \<or> ys = []"
    proof (rule ccontr)
      assume c: "\<not> (length ys \<le> ?e \<or> ys = [])"
      have "word_of_nat (?e + length xs) = x - a" by simp
      moreover have "unat (word_of_nat n :: u32) = n mod 2 ^ 32" for n by (simp add: unat_of_nat)
      ultimately have "?d = (?e + length xs) mod 2 ^ 32" by metis
      moreover have "?e + length xs < 2 ^ 32" using c assms by linarith
      ultimately show False using False by simp
    qed
    then show ?thesis using False by (auto simp: mem_put_def nth_append)
  qed
qed

section \<open>Frames\<close>

lemma bit_one_at: "k < 32 \<Longrightarrow> bit (push_bit k 1 :: u32) n \<longleftrightarrow> n = k"
  by (auto simp: bit_exp_iff)

lemma bit_fields:
  "bit (rw_bits rw) n \<longleftrightarrow> rw = SDIO_WRITE \<and> n = 31"
  "bit (mode_bits m) n \<longleftrightarrow> m = SDIO_MODE_BLOCK \<and> n = 27"
  "bit (function_bits f) n \<longleftrightarrow> (f = SDIO_FUNCTION_1 \<and> n = 28) \<or> (f = SDIO_FUNCTION_2 \<and> n = 29)"
  "bit SDIO_OPCODE_INC_ADDR n \<longleftrightarrow> n = 26"
proof -
  show "bit (rw_bits rw) n \<longleftrightarrow> rw = SDIO_WRITE \<and> n = 31"
    using bit_one_at [of 31 n] by (cases rw) simp_all
  show "bit (mode_bits m) n \<longleftrightarrow> m = SDIO_MODE_BLOCK \<and> n = 27"
    using bit_one_at [of 27 n] by (cases m) simp_all
  show "bit (function_bits f) n \<longleftrightarrow> (f = SDIO_FUNCTION_1 \<and> n = 28) \<or> (f = SDIO_FUNCTION_2 \<and> n = 29)"
    using bit_one_at [of 28 n] bit_one_at [of 29 n] by (cases f) simp_all
  show "bit SDIO_OPCODE_INC_ADDR n \<longleftrightarrow> n = 26"
    using bit_one_at [of 26 n] by (simp add: SDIO_OPCODE_INC_ADDR_def)
qed

lemma bit_low: "w < 2 ^ k \<Longrightarrow> bit (w :: 'a::len word) n \<Longrightarrow> n < k"
proof -
  assume w: "w < 2 ^ k" "bit w n"
  have "(0 :: 'a word) < 2 ^ k" using w(1) by (rule le_less_trans [rotated]) simp
  then have "uint w < 2 ^ k" using w(1) uint_2p by (metis word_less_def)
  then have "take_bit k w = w" using mask_eq_iff [of w k] by (simp add: take_bit_eq_mask)
  then show "n < k" using w(2) by (metis bit_take_bit_iff)
qed

fun function_number :: "sdio_function \<Rightarrow> u32" where
  "function_number SDIO_FUNCTION_0 = 0"
| "function_number SDIO_FUNCTION_1 = 1"
| "function_number SDIO_FUNCTION_2 = 2"

lemma bit_function_number: "bit (function_number f) n \<longleftrightarrow> f = SDIO_FUNCTION_1 \<and> n = 0 \<or> f = SDIO_FUNCTION_2 \<and> n = 1"
  using bit_one_at [of 1 n] by (cases f) (auto simp: bit_1_iff)

lemma cmd53_fields:
  assumes "address < 2 ^ 17" "count < 2 ^ 9"
  shows "take_bit 3 (drop_bit 28 (cmd53_arg rw f mode address count)) = function_number f"
    "take_bit 17 (drop_bit 9 (cmd53_arg rw f mode address count)) = address"
    "take_bit 9 (cmd53_arg rw f mode address count) = ucast count"
    "bit (cmd53_arg rw f mode address count) 31 \<longleftrightarrow> rw = SDIO_WRITE"
    "bit (cmd53_arg rw f mode address count) 27 \<longleftrightarrow> mode = SDIO_MODE_BLOCK"
proof -
  let ?a = "cmd53_arg rw f mode address count"
  have a: "\<And>n. bit address n \<Longrightarrow> n < 17" and c: "\<And>n. bit count n \<Longrightarrow> n < 9"
    using bit_low [OF assms(1)] bit_low [OF assms(2)] by blast+
  have b: "bit ?a n \<longleftrightarrow> rw = SDIO_WRITE \<and> n = 31 \<or> f = SDIO_FUNCTION_1 \<and> n = 28 \<or> f = SDIO_FUNCTION_2 \<and> n = 29 \<or>
      mode = SDIO_MODE_BLOCK \<and> n = 27 \<or> n = 26 \<or> 9 \<le> n \<and> bit address (n - 9) \<or> bit count n" for n
    using a [of "n - 9"] c [of n]
    by (auto simp: cmd53_arg_def SDIO_ADDRESS_OFFSET_def SDIO_COUNT_OFFSET_def bit_or_iff bit_fields bit_push_bit_iff bit_ucast_iff)
  show "bit ?a 31 \<longleftrightarrow> rw = SDIO_WRITE" "bit ?a 27 \<longleftrightarrow> mode = SDIO_MODE_BLOCK"
    using a [of 22] a [of 18] c [of 31] c [of 27] by (auto simp: b)
  show "take_bit 17 (drop_bit 9 ?a) = address"
    by (rule bit_word_eqI) (use c a in \<open>auto simp: bit_take_bit_iff bit_drop_bit_eq b dest: a c\<close>)
  show "take_bit 9 ?a = ucast count"
    by (rule bit_word_eqI) (use c a in \<open>auto simp: bit_take_bit_iff bit_ucast_iff b dest: a c\<close>)
  show "take_bit 3 (drop_bit 28 ?a) = function_number f"
    by (rule bit_word_eqI)
      (use c a in \<open>auto simp: bit_take_bit_iff bit_drop_bit_eq bit_function_number b dest: a c\<close>)
qed

lemma cmd52_fields:
  assumes "address < 2 ^ 17"
  shows "take_bit 3 (drop_bit 28 (cmd52_arg address d f)) = function_number f"
    "take_bit 17 (drop_bit 9 (cmd52_arg address d f)) = address"
    "ucast (cmd52_arg address d f) = d"
    "bit (cmd52_arg address d f) 31"
proof -
  let ?a = "cmd52_arg address d f"
  have a: "\<And>n. bit address n \<Longrightarrow> n < 17" using bit_low [OF assms] by blast
  have c: "\<And>n. bit d n \<Longrightarrow> n < 8" using bit_imp_le_length [of d] by simp
  have b: "bit ?a n \<longleftrightarrow> n = 31 \<or> f = SDIO_FUNCTION_1 \<and> n = 28 \<or> f = SDIO_FUNCTION_2 \<and> n = 29 \<or>
      9 \<le> n \<and> bit address (n - 9) \<or> bit d n" for n
    using a [of "n - 9"] c [of n] bit_fields(1,2)
    by (auto simp: cmd52_arg_def SDIO_ADDRESS_OFFSET_def SDIO_CMD52_DATA_OFFSET_def bit_or_iff bit_fields bit_push_bit_iff
        bit_ucast_iff simp del: rw_bits.simps mode_bits.simps)
  show "bit ?a 31" by (simp add: b)
  show "take_bit 17 (drop_bit 9 ?a) = address"
    by (rule bit_word_eqI) (use c a in \<open>auto simp: bit_take_bit_iff bit_drop_bit_eq b dest: a c\<close>)
  show "ucast ?a = d"
    by (rule bit_word_eqI) (use c a in \<open>auto simp: bit_ucast_iff b dest: a c\<close>)
  show "take_bit 3 (drop_bit 28 ?a) = function_number f"
    by (rule bit_word_eqI)
      (use c a in \<open>auto simp: bit_take_bit_iff bit_drop_bit_eq bit_function_number b dest: a c\<close>)
qed

lemma card_frame_of:
  assumes "idx \<in> {52, 53}"
  shows "card_frame (frame_of idx arg) c = card_cmd idx arg c"
proof -
  let ?buf = "(idx OR 0x40) # UNPACK_BE32 arg"
  have f: "frame_of idx arg = ?buf @ [crc_bytes 0x12 0 ?buf OR 1]" using assms unfolding frame_of_def Let_def by (simp only: if_True)
  have l: "length ?buf = 5" by (simp add: UNPACK_BE32_def)
  have "frame_of idx arg ! 5 = crc_bytes 0x12 0 ?buf OR 1" "take 5 (frame_of idx arg) = ?buf"
    unfolding f using l by (simp_all add: nth_append del: append.simps)
  moreover have "PACK_BE32 (tl (frame_of idx arg)) = PACK_BE32 (UNPACK_BE32 arg)"
    unfolding f by (simp add: PACK_BE32_def UNPACK_BE32_def)
  moreover have "take_bit 6 (frame_of idx arg ! 0) = idx" unfolding f using assms by auto
  ultimately show ?thesis by (simp add: card_frame_def pack_unpack_32)
qed

lemma card_cmd_between [simp]: "between_blocks (card_cmd idx arg c)"
  by (simp add: card_cmd_def between_blocks_def Let_def)

definition card_at :: "card \<Rightarrow> spi_bus \<Rightarrow> card" where
  "card_at c0 b = card_reads c0 (sb_log b)"

lemma card_at_after [simp]: "card_at c0 (after ops b) = card_reads (card_at c0 b) ops"
  by (simp add: card_at_def)

lemma card_hears_command:
  assumes "send_cmd_null idx arg b = Some (RC_SUCCESS, b')" "idx \<in> {52, 53}" "between_blocks (card_at c0 b)"
  shows "card_at c0 b' = card_cmd idx arg (card_at c0 b)"
  using send_cmd_after [of idx arg b]
proof cases
  case (not_ready k)
  then show ?thesis using assms(1) by (simp add: send_cmd_null_def)
next
  case (sent k m st rc)
  then have "b' = after (Spi_cs True # polls k @ [Spi_write (frame_of idx arg)] @ polls m @ [Spi_cs False]) b"
    using assms(1) by (simp add: send_cmd_null_def)
  then show ?thesis using assms by (simp add: frame_heard card_frame_of del: card_step.simps(3))
qed

lemma card_hears_cmd52:
  assumes "morse_cmd52_write a d f b = Some (RC_SUCCESS, b')" "between_blocks (card_at c0 b)" "a < 2 ^ 17"
  defines "c \<equiv> card_at c0 b" and "w \<equiv> cd_window (card_at c0 b) (function_number f)"
  shows "card_at c0 b' = c\<lparr>cd_phase := Ph_cmd, cd_window := (cd_window c)(function_number f :=
    if a = 0x10000 then (d, snd w) else if a = 0x10001 then (fst w, d) else w)\<rparr>"
proof -
  have "send_cmd_null 52 (cmd52_arg a d f) b = Some (RC_SUCCESS, b')"
    using assms(1) by (simp add: morse_cmd52_write_def SDIO_CMD52_def split: if_splits)
  then have "card_at c0 b' = card_cmd 52 (cmd52_arg a d f) c"
    unfolding c_def by (rule card_hears_command) (use assms(2) in simp_all)
  then show ?thesis 
    by (simp only: card_cmd_def Let_def cmd52_fields [OF assms(3)] w_def c_def simp_thms if_True)
qed

lemma bit_upper_half: "bit (0xFFFF0000 :: u32) n \<longleftrightarrow> 16 \<le> n \<and> n < 32"
proof -
  have "(0xFFFF0000 :: u32) = push_bit 16 (mask 16)" by (simp add: mask_eq_exp_minus_1)
  then have "bit (0xFFFF0000 :: u32) n \<longleftrightarrow> bit (push_bit 16 (mask 16) :: u32) n" by (simp only:)
  then show ?thesis by (auto simp only: bit_push_bit_iff bit_mask_iff possible_bit_word len_num1 len_bit0)
qed

lemma upper_half: "drop_bit (16 + k) ((x :: u32) AND 0xFFFF0000) = drop_bit (16 + k) x"
proof (rule bit_word_eqI)
  fix n
  have "16 + k + n < 32" if "bit x (16 + k + n)" using bit_imp_le_length [OF that] by simp
  then show "bit (drop_bit (16 + k) (x AND 0xFFFF0000)) n = bit (drop_bit (16 + k) x) n"
    using bit_upper_half [of "16 + k + n"] by (auto simp only: bit_and_iff bit_drop_bit_eq o_def)
qed

lemma card_hears_base:
  assumes "morse_address_base_set address MORSE_CONFIG_ACCESS_4BYTE f b = Some (RC_SUCCESS, b')" "between_blocks (card_at c0 b)"
  shows "card_at c0 b' = (card_at c0 b)\<lparr>cd_phase := Ph_cmd, cd_window := (cd_window (card_at c0 b))(function_number f :=
    (ucast (drop_bit 16 address), ucast (drop_bit 24 address)))\<rparr>"
proof -
  let ?d0 = "ucast (drop_bit 16 address) :: u8" and ?d1 = "ucast (drop_bit 24 address) :: u8"
  have d: "ucast (drop_bit 16 (address AND 0xFFFF0000)) = ?d0" "ucast (drop_bit 24 (address AND 0xFFFF0000)) = ?d1"
    using upper_half [of 0 address] upper_half [of 8 address] by simp_all
  obtain b1 b2 where s: "morse_cmd52_write 0x10000 ?d0 f b = Some (RC_SUCCESS, b1)"
      "morse_cmd52_write 0x10001 ?d1 f b1 = Some (RC_SUCCESS, b2)" "morse_cmd52_write 0x10002 2 f b2 = Some (RC_SUCCESS, b')"
    using assms(1) d
    by (auto simp: morse_address_base_set_def MORSE_REG_ADDRESS_WINDOW_0_def MORSE_REG_ADDRESS_WINDOW_1_def
        MORSE_REG_ADDRESS_CONFIG_def MORSE_REG_ADDRESS_BASE_def MORSE_CONFIG_ACCESS_4BYTE_def Let_def
        split: Option.bind_splits if_splits)
  note h1 = card_hears_cmd52 [OF s(1) assms(2)]
  have "between_blocks (card_at c0 b1)" using h1 by (simp add: between_blocks_def)
  note h2 = card_hears_cmd52 [OF s(2) this]
  have "between_blocks (card_at c0 b2)" using h2 by (simp add: between_blocks_def)
  note h3 = card_hears_cmd52 [OF s(3) this]
  show ?thesis using h1 h2 h3 by simp
qed

text \<open>One block on its way: the card is waiting, and stores it when the CRC that follows is right.\<close>

definition block_ops :: "nat \<Rightarrow> nat \<Rightarrow> u8 \<Rightarrow> u8 list \<Rightarrow> spi_op list" where
  "block_ops k j tkn blk = polls k @
     [Spi_rw tkn, Spi_write blk, Spi_rw (ucast (drop_bit 8 (morse_crc16 0 blk))), Spi_rw (ucast (morse_crc16 0 blk))] @ polls j"

lemma card_stores_block:
  assumes "cd_phase c = Ph_wait a n (length blk)" "tkn \<in> {0xFE, 0xFC}"
  shows "card_reads c (block_ops k j tkn blk) =
    c\<lparr>cd_phase := (if n \<le> 1 then Ph_cmd else Ph_wait (a + word_of_nat (length blk)) (n - 1) (length blk)),
      cd_mem := mem_put (cd_mem c) a blk\<rparr>"
proof -
  have "between_blocks c" using assms by (simp add: between_blocks_def)
  then show ?thesis
    using assms be16_roundtrip [of "morse_crc16 0 blk"]
    by (auto simp: block_ops_def morse_crc16_serial between_blocks_def)
qed

lemma put_data_step:
  assumes "off + sz \<le> length dat" "mode = SDIO_MODE_BYTE \<longrightarrow> Suc n \<le> bs_bytes bs"
  defines "blk \<equiv> region dat off sz"
  obtains (not_ready) k where "k \<le> 200"
      "put_data_loop (Suc n) dat off mode bs sz tkn rc b = Some (RC_UNSPECIFIED_ERROR, after (polls k) b)"
  | (refused) k j where "k \<le> 200" "j \<le> 4"
      "put_data_loop (Suc n) dat off mode bs sz tkn rc b = Some (RC_INVALID_RESPONSE, after (block_ops k j tkn blk) b)"
  | (accepted) k j where "k \<le> 200" "j \<le> 4" "put_data_loop (Suc n) dat off mode bs sz tkn rc b =
      put_data_loop (if mode = SDIO_MODE_BYTE then 0 else n) dat (off + sz) mode bs sz tkn RC_SUCCESS (after (block_ops k j tkn blk) b)"
proof -
  obtain k ok where k: "morse_wait_ready b = (ok, after (polls k) b)" "k \<le> 200" by (rule wait_ready_after)
  let ?b = "after (polls k @ [Spi_rw tkn, Spi_write blk, Spi_rw (ucast (drop_bit 8 (morse_crc16 0 blk))), Spi_rw (ucast (morse_crc16 0 blk))]) b"
  obtain j r where j: "receive_until (\<lambda>r. r \<noteq> 0xff) 4 0xff ?b = (r, after (polls j) ?b)" "j \<le> 4"
    by (rule receive_until_after)
  have step: "put_data_loop (Suc n) dat off mode bs sz tkn rc b =
      (if \<not> ok then Some (RC_UNSPECIFIED_ERROR, after (polls k) b)
       else if morse_test_data_rsp_token r \<noteq> RC_SUCCESS then Some (morse_test_data_rsp_token r, after (block_ops k j tkn blk) b)
       else put_data_loop (if mode = SDIO_MODE_BYTE then 0 else n) dat (off + sz) mode bs sz tkn RC_SUCCESS (after (block_ops k j tkn blk) b))"
    using assms(1,2) k j by (simp add: bus_ops block_ops_def blk_def [symmetric] Let_def not_less)
  have "morse_test_data_rsp_token r = RC_SUCCESS \<or> morse_test_data_rsp_token r = RC_INVALID_RESPONSE"
    by (simp add: morse_test_data_rsp_token_def)
  then consider "\<not> ok" | "ok" "morse_test_data_rsp_token r = RC_INVALID_RESPONSE" | "ok" "morse_test_data_rsp_token r = RC_SUCCESS" by blast
  then show thesis using that k(2) j(2) step by cases auto
qed

lemma region_add: "region xs off (m + n) = region xs off m @ region xs (off + m) n"
  by (simp add: region_def take_add add.commute)

lemma card_stores_blocks:
  assumes "put_data_loop n dat off SDIO_MODE_BLOCK bs sz tkn rc b = Some (RC_SUCCESS, b')" "0 < n" "tkn \<in> {0xFE, 0xFC}"
    and "cd_phase (card_at c0 b) = Ph_wait a n sz" "n * sz \<le> 2 ^ 32"
  shows "off + n * sz \<le> length dat \<and> card_at c0 b' = (card_at c0 b)\<lparr>cd_phase := Ph_cmd,
      cd_mem := mem_put (cd_mem (card_at c0 b)) a (region dat off (n * sz))\<rparr>"
  using assms
proof (induction n arbitrary: off rc b a)
  case (Suc n)
  have l: "off + sz \<le> length dat" using Suc.prems(1) by (simp split: if_splits)
  have lr: "length (region dat off sz) = sz" using l by (simp add: region_def)
  have ph: "cd_phase (card_at c0 b) = Ph_wait a (Suc n) (length (region dat off sz))" using Suc.prems(4) lr by simp
  show ?case
  proof (rule put_data_step [OF l, of SDIO_MODE_BLOCK n bs tkn rc b])
    show "SDIO_MODE_BLOCK = SDIO_MODE_BYTE \<longrightarrow> Suc n \<le> bs_bytes bs" by simp
  next
    fix k j assume step: "put_data_loop (Suc n) dat off SDIO_MODE_BLOCK bs sz tkn rc b =
        put_data_loop (if SDIO_MODE_BLOCK = SDIO_MODE_BYTE then 0 else n) dat (off + sz) SDIO_MODE_BLOCK bs sz tkn RC_SUCCESS
          (after (block_ops k j tkn (region dat off sz)) b)"
    define b1 where "b1 = after (block_ops k j tkn (region dat off sz)) b"
    have c1: "card_at c0 b1 = (card_at c0 b)\<lparr>cd_phase := (if n = 0 then Ph_cmd else Ph_wait (a + word_of_nat sz) n sz),
        cd_mem := mem_put (cd_mem (card_at c0 b)) a (region dat off sz)\<rparr>"
      using card_stores_block [OF ph Suc.prems(3), of k j] lr by (simp add: b1_def)
    have run: "put_data_loop n dat (off + sz) SDIO_MODE_BLOCK bs sz tkn RC_SUCCESS b1 = Some (RC_SUCCESS, b')"
      using Suc.prems(1) step by (simp add: b1_def)
    show ?case
    proof (cases "n = 0")
      case True
      then show ?thesis using run c1 l by simp
    next
      case False
      have "off + sz + n * sz \<le> length dat \<and> card_at c0 b' = (card_at c0 b1)\<lparr>cd_phase := Ph_cmd,
          cd_mem := mem_put (cd_mem (card_at c0 b1)) (a + word_of_nat sz) (region dat (off + sz) (n * sz))\<rparr>"
        using Suc.IH [OF run _ Suc.prems(3), of "a + word_of_nat sz"] False c1 Suc.prems(5) by simp
      moreover from this have "mem_put (mem_put m a (region dat off sz)) (a + word_of_nat sz) (region dat (off + sz) (n * sz)) =
          mem_put m a (region dat off (sz + n * sz))" for m
        using mem_put_append [of "region dat off sz" "region dat (off + sz) (n * sz)" m a] lr Suc.prems(5)
        by (simp add: region_add length_region)
      ultimately show ?thesis using c1 by (simp add: add.assoc)
    qed
  qed (use Suc.prems(1) in \<open>simp_all del: put_data_loop.simps\<close>)
qed simp

lemma card_stores_bytes:
  assumes "put_data_loop n dat off SDIO_MODE_BYTE bs n tkn rc b = Some (RC_SUCCESS, b')" "0 < n" "tkn \<in> {0xFE, 0xFC}"
    and "cd_phase (card_at c0 b) = Ph_wait a 1 n"
  shows "off + n \<le> length dat \<and> card_at c0 b' = (card_at c0 b)\<lparr>cd_phase := Ph_cmd,
      cd_mem := mem_put (cd_mem (card_at c0 b)) a (region dat off n)\<rparr>"
proof -
  obtain m where m: "n = Suc m" using assms(2) by (cases n) auto
  have l: "off + n \<le> length dat" and fits: "n \<le> bs_bytes bs" using assms(1) by (simp_all add: m split: if_splits)
  have lr: "length (region dat off n) = n" using l by (simp add: region_def)
  show ?thesis
  proof (rule put_data_step [OF l, of SDIO_MODE_BYTE m bs tkn rc b])
    show "SDIO_MODE_BYTE = SDIO_MODE_BYTE \<longrightarrow> Suc m \<le> bs_bytes bs" using fits m by simp
  next
    fix k j assume step: "put_data_loop (Suc m) dat off SDIO_MODE_BYTE bs n tkn rc b =
        put_data_loop (if SDIO_MODE_BYTE = SDIO_MODE_BYTE then 0 else m) dat (off + n) SDIO_MODE_BYTE bs n tkn RC_SUCCESS
          (after (block_ops k j tkn (region dat off n)) b)"
    then have "b' = after (block_ops k j tkn (region dat off n)) b" using assms(1) m by (simp del: put_data_loop.simps(2))
    then show ?thesis using card_stores_block [of "card_at c0 b" a 1 "region dat off n" tkn k j] assms(3,4) lr l by simp
  qed (use assms(1) m in \<open>simp_all del: put_data_loop.simps\<close>)
qed

definition data_bytes :: "sdio_mode \<Rightarrow> block_size \<Rightarrow> u16 \<Rightarrow> nat" where
  "data_bytes mode bs cnt = (if mode = SDIO_MODE_BLOCK then unat cnt * bs_bytes bs else unat cnt)"

definition announced :: "sdio_mode \<Rightarrow> block_size \<Rightarrow> u32 \<Rightarrow> u16 \<Rightarrow> card_phase" where
  "announced mode bs a cnt = (if mode = SDIO_MODE_BLOCK then Ph_wait a (unat cnt) (bs_bytes bs) else Ph_wait a 1 (unat cnt))"

lemma unat_u16_lt: "unat (x :: u16) < 2 ^ 16"
proof -
  have "unat x < 2 ^ LENGTH(16)" by (rule unsigned_less)
  then show ?thesis by simp
qed

lemma card_stores_data:
  assumes "morse_cmd53_put_data cnt dat off mode bs b = Some (RC_SUCCESS, b')" "cnt \<noteq> 0"
    and "cd_phase (card_at c0 b) = announced mode bs a cnt"
  shows "off + data_bytes mode bs cnt \<le> length dat \<and> card_at c0 b' = (card_at c0 b)\<lparr>cd_phase := Ph_cmd,
      cd_mem := mem_put (cd_mem (card_at c0 b)) a (region dat off (data_bytes mode bs cnt))\<rparr>"
proof -
  let ?sz = "if mode = SDIO_MODE_BLOCK then bs_bytes bs else unat cnt"
  define tkn where "tkn = (if mode = SDIO_MODE_BLOCK \<and> cnt > 1 then SDIO_SPI_TKN_MULTI_WRITE else SDIO_SPI_TKN_READ_SINGLE_WRITE)"
  have tkn: "tkn \<in> {0xFE, 0xFC}" by (simp add: tkn_def SDIO_SPI_TKN_MULTI_WRITE_def SDIO_SPI_TKN_READ_SINGLE_WRITE_def)
  obtain b1 where b1: "put_data_loop (unat cnt) dat off mode bs ?sz tkn RC_UNSPECIFIED_ERROR (after [Spi_cs True] b) = Some (RC_SUCCESS, b1)"
      "b' = spi_cs False (snd (morse_wait_ready
         (if tkn = SDIO_SPI_TKN_MULTI_WRITE then snd (spi_rw SDIO_SPI_TKN_STOP_TRANSACTION b1) else b1)))"
    using assms(1) unfolding morse_cmd53_put_data_def Let_def tkn_def [symmetric] bus_ops(1)
    by (auto split: Option.bind_splits)
  have cnt: "0 < unat cnt" using assms(2) by (simp add: unat_gt_0)
  have m: "off + data_bytes mode bs cnt \<le> length dat \<and> card_at c0 b1 = (card_at c0 b)\<lparr>cd_phase := Ph_cmd,
      cd_mem := mem_put (cd_mem (card_at c0 b)) a (region dat off (data_bytes mode bs cnt))\<rparr>"
  proof (cases mode)
    case SDIO_MODE_BYTE
    then show ?thesis
      using card_stores_bytes [of "unat cnt" dat off bs tkn RC_UNSPECIFIED_ERROR "after [Spi_cs True] b" b1 c0 a] b1(1) cnt tkn assms(3)
      by (simp add: data_bytes_def announced_def)
  next
    case SDIO_MODE_BLOCK
    have "unat cnt * bs_bytes bs \<le> 2 ^ 32" using unat_u16_lt [of cnt] by (cases bs) simp_all
    then show ?thesis
      using card_stores_blocks [of "unat cnt" dat off bs "bs_bytes bs" tkn RC_UNSPECIFIED_ERROR "after [Spi_cs True] b" b1 c0 a]
        SDIO_MODE_BLOCK b1(1) cnt tkn assms(3) by (simp add: data_bytes_def announced_def)
  qed
  have quiet: "card_at c0 (spi_cs False (snd (morse_wait_ready b2))) = card_at c0 b2" if "between_blocks (card_at c0 b2)" for b2
    using that wait_ready_after [of b2] by (metis bus_ops(1) snd_conv card_at_after polls_ignored card_reads_simps(1,2) card_step.simps(1))
  have idle: "cd_phase (card_at c0 b1) = Ph_cmd" using m by simp
  have "card_at c0 b' = card_at c0 b1"
    unfolding b1(2) using quiet idle by (auto simp: between_blocks_def bus_ops(2))
  then show ?thesis using m by simp
qed

lemma card_hears_cmd53:
  assumes "morse_cmd53_send_cmd SDIO_WRITE f mode a cnt b = Some (RC_SUCCESS, b')" "between_blocks (card_at c0 b)" "a < 2 ^ 16" "cnt < 2 ^ 9"
  shows "card_at c0 b' = (card_at c0 b)\<lparr>cd_phase :=
    announced mode (function_block_size f) (window_base (cd_window (card_at c0 b) (function_number f)) + a) cnt\<rparr>"
proof -
  let ?arg = "cmd53_arg SDIO_WRITE f mode a cnt"
  have "send_cmd_null 53 ?arg b = Some (RC_SUCCESS, b')"
    using assms(1) by (simp add: morse_cmd53_send_cmd_def split: if_splits)
  then have c: "card_at c0 b' = card_cmd 53 ?arg (card_at c0 b)" by (rule card_hears_command) (use assms(2) in simp_all)
  have "a < 2 ^ 17" using assms(3) by (rule less_trans) simp
  note fields = cmd53_fields [OF this assms(4), of SDIO_WRITE f mode]
  have u: "unat (ucast cnt :: u32) = unat cnt"
    using unat_u16_lt [of cnt] by (simp add: unsigned_ucast_eq take_bit_nat_eq_self)
  have b: "(if function_number f = 1 then 8 else 512) = bs_bytes (function_block_size f)"
    by (cases f) (simp_all add: function_block_size_def)
  show ?thesis using assms(3)
    unfolding c card_cmd_def Let_def fields u b announced_def by simp
qed

section \<open>A successful write is in the card\<close>

lemma unat_of_u16: "unat (ucast (x :: u16) :: u32) = unat x"
  using unat_u16_lt [of x] by (simp add: unsigned_ucast_eq take_bit_nat_eq_self)

lemma unat_lower_half: "unat ((x :: u32) AND 0x0000FFFF) = unat x mod 0x10000"
proof -
  have "x AND 0x0000FFFF = take_bit 16 x" by (simp add: take_bit_eq_mask mask_eq_exp_minus_1)
  then show ?thesis by (simp add: take_bit_eq_mod unat_mod)
qed

lemma unat_u32_bound: "unat (x :: u32) < 2 ^ 32"
proof -
  have "unat x < 2 ^ LENGTH(32)" by (rule unsigned_less)
  then show ?thesis by simp
qed

text \<open>The split of a transfer of at most 64 KiB into whole blocks of function 2 and a rest.\<close>

lemma split_blocks:
  fixes len :: u32
  assumes "unat len \<le> 0x10000"
  defines "nb \<equiv> ucast (drop_bit 9 len) :: u16"
  defines "ts \<equiv> ucast nb * word_of_nat 512 :: u32"
  shows "unat nb = unat len div 512" "unat ts = unat len div 512 * 512" "unat (len - ts) = unat len mod 512"
    "unat (ucast (len - ts) :: u16) = unat len mod 512" "nb < 2 ^ 9" "ucast (len - ts) < (2 ^ 9 :: u16)"
proof -
  have d: "unat len div 512 \<le> 128" using assms(1) by simp
  show nb: "unat nb = unat len div 512"
    using d by (simp add: nb_def unsigned_ucast_eq drop_bit_eq_div unat_div take_bit_nat_eq_self)
  have p: "unat (ucast nb :: u32) * unat (word_of_nat 512 :: u32) = unat len div 512 * 512"
    by (simp add: unat_of_u16 nb)
  then have "unat (ucast nb :: u32) * unat (word_of_nat 512 :: u32) < 2 ^ LENGTH(32)" using d by simp
  then show ts: "unat ts = unat len div 512 * 512" unfolding ts_def using unat_mult_lem p by metis
  then have "unat ts \<le> unat len" by (simp add: div_times_less_eq_dividend)
  then show r: "unat (len - ts) = unat len mod 512" using ts by (simp add: unat_sub word_le_nat_alt minus_div_mult_eq_mod)
  then have "unat (len - ts) < 512" by simp
  then show r16: "unat (ucast (len - ts) :: u16) = unat len mod 512"
    using r by (simp add: unsigned_ucast_eq take_bit_nat_eq_self)
  show "nb < 2 ^ 9" using nb d by (simp add: word_less_nat_alt)
  show "ucast (len - ts) < (2 ^ 9 :: u16)" using r16 by (simp add: word_less_nat_alt)
qed

lemma fn2_blocks: "function_block_size SDIO_FUNCTION_2 = BLOCK_SIZE_FN2"
  by (simp add: function_block_size_def)

lemma mem_put_Nil [simp]: "mem_put m a [] = m"
  by (auto simp: mem_put_def)

lemma byte_part_stored:
  assumes "(if len > 0 then do {
      (result, b) \<leftarrow> morse_cmd53_send_cmd SDIO_WRITE SDIO_FUNCTION_2 SDIO_MODE_BYTE (address AND 0x0000FFFF) (ucast len) b;
      if result \<noteq> RC_SUCCESS then Some (result, b)
      else morse_cmd53_put_data (ucast len) dat off SDIO_MODE_BYTE BLOCK_SIZE_FN2 b }
    else Some (rc, b)) = Some (RC_SUCCESS, b')"
    and "between_blocks (card_at c0 b)" "unat (len :: u32) < 512" "len = 0 \<Longrightarrow> off \<le> length dat \<and> cd_phase (card_at c0 b) = Ph_cmd"
  shows "off + unat len \<le> length dat \<and> card_at c0 b' = (card_at c0 b)\<lparr>cd_phase := Ph_cmd,
    cd_mem := mem_put (cd_mem (card_at c0 b)) (window_base (cd_window (card_at c0 b) 2) + (address AND 0x0000FFFF))
      (region dat off (unat len))\<rparr>"
proof (cases "len = 0")
  case True
  then show ?thesis using assms by (simp add: region_def)
next
  case False
  have "unat (ucast len :: u16) = unat len" using assms(3) by (simp add: unsigned_ucast_eq take_bit_nat_eq_self)
  moreover from this False have "(ucast len :: u16) \<noteq> 0" by (metis unat_0 word_unat_eq_iff)
  moreover have "(ucast len :: u16) < 2 ^ 9" using calculation assms(3) by (simp add: word_less_nat_alt)
  ultimately have u: "unat (ucast len :: u16) = unat len" "(ucast len :: u16) \<noteq> 0" "(ucast len :: u16) < 2 ^ 9" by blast+
  obtain b1 where s: "morse_cmd53_send_cmd SDIO_WRITE SDIO_FUNCTION_2 SDIO_MODE_BYTE (address AND 0x0000FFFF) (ucast len) b = Some (RC_SUCCESS, b1)"
      "morse_cmd53_put_data (ucast len) dat off SDIO_MODE_BYTE BLOCK_SIZE_FN2 b1 = Some (RC_SUCCESS, b')"
    using assms(1) False by (auto simp: word_gt_0 split: Option.bind_splits if_splits)
  have "address AND 0x0000FFFF < 2 ^ 16" using unat_lower_half [of address] by (simp add: word_less_nat_alt)
  note c1 = card_hears_cmd53 [OF s(1) assms(2) this u(3)]
  have "cd_phase (card_at c0 b1) = announced SDIO_MODE_BYTE BLOCK_SIZE_FN2
      (window_base (cd_window (card_at c0 b) 2) + (address AND 0x0000FFFF)) (ucast len)"
    using c1 by (simp add: function_block_size_def)
  from card_stores_data [OF s(2) u(2) this] c1 show ?thesis by (simp add: data_bytes_def u(1))
qed

lemma cmd53_write_stored:
  assumes "morse_cmd53_write SDIO_FUNCTION_2 address dat off len b = Some (RC_SUCCESS, b')" "between_blocks (card_at c0 b)"
    and "unat address mod 0x10000 + unat len \<le> 0x10000"
  shows "off + unat len \<le> length dat \<and> card_at c0 b' = (card_at c0 b)\<lparr>cd_phase := Ph_cmd,
    cd_mem := mem_put (cd_mem (card_at c0 b)) (window_base (cd_window (card_at c0 b) 2) + (address AND 0x0000FFFF))
      (region dat off (unat len))\<rparr>"
proof -
  define nb where "nb = (ucast (drop_bit 9 len) :: u16)"
  define ts where "ts = (ucast nb * word_of_nat 512 :: u32)"
  define a where "a = address AND 0x0000FFFF"
  define c where "c = card_at c0 b"
  define w where "w = window_base (cd_window c 2)"
  have "unat len \<le> 0x10000" using assms(3) by simp
  note sp = split_blocks [OF this, folded nb_def, folded ts_def]
  have a: "a < 2 ^ 16" "unat a = unat address mod 0x10000" using unat_lower_half [of address] by (simp_all add: a_def word_less_nat_alt)
  note W = assms(1) [unfolded morse_cmd53_write_def fn2_blocks bs_log2.simps bs_bytes.simps Let_def, folded nb_def,
      folded ts_def]
  show ?thesis
  proof (cases "nb = 0")
    case True
    then have "unat len < 512" using sp(1) by (simp add: div_eq_0_iff)
    moreover have "len \<noteq> 0" using W True by auto
    ultimately show ?thesis using byte_part_stored [of len address b dat off RC_UNSPECIFIED_ERROR b' c0] W True assms(2) by simp
  next
    case False
    obtain b1 b2 where s: "morse_cmd53_send_cmd SDIO_WRITE SDIO_FUNCTION_2 SDIO_MODE_BLOCK a nb b = Some (RC_SUCCESS, b1)"
        "morse_cmd53_put_data nb dat off SDIO_MODE_BLOCK BLOCK_SIZE_FN2 b1 = Some (RC_SUCCESS, b2)"
      and rest: "(if len - ts > 0 then do {
        (result, b) \<leftarrow> morse_cmd53_send_cmd SDIO_WRITE SDIO_FUNCTION_2 SDIO_MODE_BYTE ((address + ts) AND 0x0000FFFF) (ucast (len - ts)) b2;
        if result \<noteq> RC_SUCCESS then Some (result, b)
        else morse_cmd53_put_data (ucast (len - ts)) dat (off + unat ts) SDIO_MODE_BYTE BLOCK_SIZE_FN2 b }
      else Some (RC_SUCCESS, b2)) = Some (RC_SUCCESS, b')"
      using W False by (auto simp: word_gt_0 a_def split: Option.bind_splits if_splits)
    have c1: "card_at c0 b1 = c\<lparr>cd_phase := announced SDIO_MODE_BLOCK BLOCK_SIZE_FN2 (w + a) nb\<rparr>"
      using card_hears_cmd53 [OF s(1) assms(2) a(1) sp(5)] by (simp add: function_block_size_def w_def c_def)
    have "data_bytes SDIO_MODE_BLOCK BLOCK_SIZE_FN2 nb = unat ts" using sp(1,2) by (simp add: data_bytes_def)
    then have c2: "off + unat ts \<le> length dat"
        "card_at c0 b2 = c\<lparr>cd_phase := Ph_cmd, cd_mem := mem_put (cd_mem c) (w + a) (region dat off (unat ts))\<rparr>"
      using card_stores_data [OF s(2) False, of c0 "w + a"] c1 by simp_all
    have "unat (len - ts) < 512" using sp(3) by simp
    with byte_part_stored [OF rest, of c0] c2 have c3: "off + unat ts + unat (len - ts) \<le> length dat"
        "card_at c0 b' = c\<lparr>cd_phase := Ph_cmd, cd_mem := mem_put (mem_put (cd_mem c) (w + a) (region dat off (unat ts)))
          (w + ((address + ts) AND 0x0000FFFF)) (region dat (off + unat ts) (unat (len - ts)))\<rparr>"
      by (simp_all add: between_blocks_def w_def)
    have len: "unat ts + unat (len - ts) = unat len" using sp(2,3) by simp
    have "mem_put (mem_put (cd_mem c) (w + a) (region dat off (unat ts)))
          (w + ((address + ts) AND 0x0000FFFF)) (region dat (off + unat ts) (unat (len - ts))) =
        mem_put (cd_mem c) (w + a) (region dat off (unat len))"
    proof (cases "unat (len - ts) = 0")
      case True
      then show ?thesis using len by (simp add: region_def)
    next
      case False
      have lt: "unat a + unat ts < 0x10000" using False len assms(3) a(2) by linarith
      have "unat ((address + ts) AND 0x0000FFFF) = unat a + unat ts"
      proof -
        have "unat ((address + ts) AND 0x0000FFFF) = (unat address + unat ts) mod 2 ^ 32 mod 0x10000"
          by (simp add: unat_lower_half unat_word_ariths)
        also have "\<dots> = (unat address mod 0x10000 + unat ts) mod 0x10000" by (simp add: mod_mod_cancel mod_add_left_eq)
        finally show ?thesis using lt a(2) by simp
      qed
      moreover have "unat (a + ts) = unat a + unat ts" using lt by (simp add: unat_word_ariths)
      ultimately have "(address + ts) AND 0x0000FFFF = a + ts" by (simp add: word_unat_eq_iff)
      moreover have "length (region dat off (unat ts)) = unat ts" using c2(1) by (simp add: region_def)
      moreover have "length (region dat (off + unat ts) (unat (len - ts))) = unat (len - ts)" using c3(1) by (simp add: region_def)
      ultimately show ?thesis
        using mem_put_append [of "region dat off (unat ts)" "region dat (off + unat ts) (unat (len - ts))" "cd_mem c" "w + a"]
          region_add [of dat off "unat ts" "unat (len - ts)"] len unat_u32_bound [of len] by (simp add: add.assoc)
    qed
    then show ?thesis using c3 len by (simp add: a_def w_def c_def add.assoc)
  qed
qed

lemma window_address:
  "window_base (ucast (drop_bit 16 a), ucast (drop_bit 24 a)) + (a AND 0x0000FFFF) = (a :: u32)"
proof -
  have w: "window_base (ucast (drop_bit 16 a), ucast (drop_bit 24 a)) = push_bit 16 (drop_bit 16 a)"
    by (simp add: window_base_def top_byte byte_joins)
  have l: "a AND 0x0000FFFF = take_bit 16 a" by (simp add: take_bit_eq_mask mask_eq_exp_minus_1)
  have "push_bit 16 (drop_bit 16 a) + take_bit 16 a = a" by (rule bits_ident)
  then show ?thesis using w l by simp
qed

text \<open>Below the last window of the address space no piece of a transfer crosses a boundary of 64 KiB.\<close>

lemma next_transfer_size:
  assumes "len \<noteq> 0" "unat address + unat len \<le> 0xFFFF0000"
  defines "s \<equiv> next_transfer address len"
  shows "unat s = min (unat len) (0x10000 - unat address mod 0x10000)" "0 < unat s" "unat s \<le> unat len"
    "unat address mod 0x10000 + unat s \<le> 0x10000" "unat (len - s) = unat len - unat s" "unat (len - s) < unat len"
    "unat (address + s) = unat address + unat s"
proof -
  let ?A = "unat address" and ?L = "unat len"
  have L: "0 < ?L" using assms(1) by (simp add: unat_gt_0)
  define s0 where "s0 = min len MAX_BLOCK_TRANSFER_SIZE_FN2"
  have s0: "unat s0 = min ?L 0x10000"
    by (simp add: s0_def min_def word_le_nat_alt MAX_BLOCK_TRANSFER_SIZE_FN2_def CMD53_MAX_BLOCKS_def)
  have h: "unat (address AND 0xFFFF0000) = ?A - ?A mod 0x10000"
  proof -
    have "push_bit 16 (drop_bit 16 address) + take_bit 16 address = address" by (rule bits_ident)
    moreover have "address AND 0xFFFF0000 = push_bit 16 (drop_bit 16 address)"
    proof (rule bit_word_eqI)
      fix n assume "n < LENGTH(32)"
      then show "bit (address AND 0xFFFF0000) n = bit (push_bit 16 (drop_bit 16 address)) n"
        using bit_upper_half [of n] by (auto simp only: bit_and_iff bit_push_bit_iff bit_drop_bit_eq o_def possible_bit_word len_num1 len_bit0 le_add_diff_inverse)
    qed
    ultimately have "address AND 0xFFFF0000 = address - take_bit 16 address" by (simp add: eq_diff_eq)
    moreover have t: "unat (take_bit 16 address) = ?A mod 0x10000" by (simp add: take_bit_eq_mod unat_mod)
    moreover have "take_bit 16 address \<le> address" using t by (simp add: word_le_nat_alt)
    ultimately show ?thesis by (simp add: unat_sub)
  qed
  define nb where "nb = (address AND 0xFFFF0000) + 0x10000"
  have lt: "?A < 0xFFFF0000" using assms(2) L by linarith
  have nb: "unat nb = ?A - ?A mod 0x10000 + 0x10000"
    using lt h by (simp add: nb_def unat_word_ariths)
  have as: "unat (address + s0) = ?A + unat s0" using lt s0 by (simp add: unat_word_ariths)
  have s: "s = (if nb < address + s0 then nb - address else s0)"
    by (simp add: s_def next_transfer_def Let_def s0_def nb_def)
  have md: "?A mod 0x10000 < 0x10000" "?A mod 0x10000 \<le> ?A" by simp_all
  have le: "address \<le> nb" unfolding word_le_nat_alt nb using md by linarith
  show sz: "unat s = min ?L (0x10000 - ?A mod 0x10000)"
    using nb as s0 le md
    by (auto simp: s word_less_nat_alt unat_sub min_def)
  have m: "?A mod 0x10000 < 0x10000" by simp
  show pos: "0 < unat s" and sl: "unat s \<le> ?L" and "unat address mod 0x10000 + unat s \<le> 0x10000" using sz L m by linarith+
  show r: "unat (len - s) = ?L - unat s" using sl by (simp add: unat_sub word_le_nat_alt)
  show "unat (len - s) < ?L" using r pos L by simp
  show "unat (address + s) = ?A + unat s" using sl assms(2) by (simp add: unat_word_ariths)
qed

text \<open>The loop of \<open>sdio_spi_write_multi_byte\<close> when no command of it fails.\<close>

partial_function (option) write_all :: "u32 \<Rightarrow> u8 list \<Rightarrow> nat \<Rightarrow> u32 \<Rightarrow> spi_bus \<Rightarrow> spi_bus option" where
  "write_all address dat off len b =
     (if len = 0 then Some b
      else do {
        (r, b) \<leftarrow> morse_address_base_set address MORSE_CONFIG_ACCESS_4BYTE SDIO_FUNCTION_2 b;
        if r \<noteq> RC_SUCCESS then None
        else do {
          (r, b) \<leftarrow> morse_cmd53_write SDIO_FUNCTION_2 address dat off (next_transfer address len) b;
          if r \<noteq> RC_SUCCESS then None
          else write_all (address + next_transfer address len) dat (off + unat (next_transfer address len))
                 (len - next_transfer address len) b } })"

lemma write_all_stored:
  assumes "write_all address dat off len b = Some b'" "unat address + unat len \<le> 0xFFFF0000" "between_blocks (card_at c0 b)"
    "off \<le> length dat"
  shows "off + unat len \<le> length dat \<and> write_multi_loop address dat off len RC_SUCCESS b = Some (RC_SUCCESS, b') \<and>
    cd_mem (card_at c0 b') = mem_put (cd_mem (card_at c0 b)) address (region dat off (unat len))"
  using assms
proof (induction "unat len" arbitrary: address off len b rule: less_induct)
  case less
  show ?case
  proof (cases "len = 0")
    case True
    then show ?thesis
      using less.prems by (simp add: write_all.simps [of address dat off 0] write_multi_loop.simps [of address dat off 0] region_def)
  next
    case False
    define s where "s = next_transfer address len"
    note n = next_transfer_size [OF False less.prems(2), folded s_def]
    obtain b1 b2 where b1: "morse_address_base_set address MORSE_CONFIG_ACCESS_4BYTE SDIO_FUNCTION_2 b = Some (RC_SUCCESS, b1)"
        and b2: "morse_cmd53_write SDIO_FUNCTION_2 address dat off s b1 = Some (RC_SUCCESS, b2)"
        and r: "write_all (address + s) dat (off + unat s) (len - s) b2 = Some b'"
      using less.prems(1) False unfolding write_all.simps [of address dat off len b] s_def
      by (auto split: Option.bind_splits if_splits)
    note c1 = card_hears_base [OF b1 less.prems(3)]
    have "between_blocks (card_at c0 b1)" using c1 by (simp add: between_blocks_def)
    note c2 = cmd53_write_stored [OF b2 this n(4)]
    have m2: "cd_mem (card_at c0 b2) = mem_put (cd_mem (card_at c0 b)) address (region dat off (unat s))"
      using c1 c2 by (simp add: window_address)
    have "between_blocks (card_at c0 b2)" using c2 by (simp add: between_blocks_def)
    then have IH: "off + unat s + unat (len - s) \<le> length dat"
        "write_multi_loop (address + s) dat (off + unat s) (len - s) RC_SUCCESS b2 = Some (RC_SUCCESS, b')"
        "cd_mem (card_at c0 b') = mem_put (cd_mem (card_at c0 b2)) (address + s) (region dat (off + unat s) (unat (len - s)))"
      using less.hyps [OF n(6) r] n(3,5,7) less.prems(2) c2 by simp_all
    have loop: "write_multi_loop address dat off len RC_SUCCESS b = Some (RC_SUCCESS, b')"
      using False b1 b2 IH(2) unfolding write_multi_loop.simps [of address dat off len RC_SUCCESS b] s_def by (simp add: Let_def)
    have len: "unat s + unat (len - s) = unat len" using n(3,5) by simp
    have l: "length (region dat off (unat s)) = unat s" "length (region dat (off + unat s) (unat (len - s))) = unat (len - s)"
      using c2 IH(1) by (simp_all add: region_def)
    have "cd_mem (card_at c0 b') = mem_put (cd_mem (card_at c0 b)) address (region dat off (unat len))"
      using mem_put_append [of "region dat off (unat s)" "region dat (off + unat s) (unat (len - s))" "cd_mem (card_at c0 b)" address]
        l len m2 IH(3) unat_u32_bound [of len] region_add [of dat off "unat s" "unat (len - s)"] by simp
    then show ?thesis using loop IH(1) len by simp
  qed
qed

end
