(* ===== verification/Sdio_Read.thy ===== *)
theory Sdio_Read
  imports Sdio_Card
begin

text \<open>
  The answers of the card: what \<^verbatim>\<open>sdio_spi.c\<close> makes of a card that replies to commands and sends
  data blocks after any delays the driver tolerates, of a corrupted block, and of a card that
  refuses every data command.
\<close>

section \<open>Replies on the bus\<close>

definition drives :: "spi_bus \<Rightarrow> u8 list \<Rightarrow> bool" where
  "drives b ds \<longleftrightarrow> map (sb_miso b) [sb_pos b..<sb_pos b + length ds] = ds"

lemma drives_append:
  "drives b (xs @ ys) \<longleftrightarrow> drives b xs \<and>
     map (sb_miso b) [sb_pos b + length xs..<sb_pos b + length xs + length ys] = ys"
proof -
  have "[sb_pos b..<sb_pos b + length (xs @ ys)] =
      [sb_pos b..<sb_pos b + length xs] @ [sb_pos b + length xs..<sb_pos b + length xs + length ys]"
    using upt_add_eq_append [of "sb_pos b" "sb_pos b + length xs" "length ys"] by (simp add: add.assoc)
  then show ?thesis by (simp add: drives_def append_eq_append_conv)
qed

lemma drives_prefix: "drives b (xs @ ys) \<Longrightarrow> drives b xs"
  by (simp add: drives_append)

lemma drives_after:
  "drives b (xs @ ys) \<Longrightarrow> bus_time ops = length xs \<Longrightarrow> drives (after ops b) ys"
  by (simp add: drives_append) (simp add: drives_def)

lemma drives_first: "drives b (x # xs) \<Longrightarrow> sb_miso b (sb_pos b) = x"
  by (simp add: drives_def upt_conv_Cons del: upt_Suc)

lemma drives_second: "drives b (x # y # xs) \<Longrightarrow> sb_miso b (sb_pos b + 1) = y"
  using drives_first [OF drives_after [of b "[x]" "y # xs" "polls 1"]] by simp

lemma receive_until_found:
  assumes "drives b (xs @ [x])" "length xs < n" "\<forall>y \<in> set xs. \<not> P y" "P x"
  shows "receive_until P n r b = (x, after (polls (Suc (length xs))) b)"
  using assms
proof (induction xs arbitrary: n r b)
  case Nil
  then obtain m where "n = Suc m" by (cases n) auto
  then show ?case using Nil drives_first [of b x "[]"] by (simp add: bus_ops)
next
  case (Cons y ys)
  then obtain m where m: "n = Suc m" by (cases n) auto
  have d: "drives (after (polls 1) b) (ys @ [x])" using drives_after [of b "[y]" "ys @ [x]" "polls 1"] Cons.prems(1) by simp
  have "sb_miso b (sb_pos b) = y" using Cons.prems(1) drives_first by simp
  then have "receive_until P n r b = receive_until P m y (after (polls 1) b)"
    using Cons.prems(3) m by (simp add: bus_ops)
  also have "\<dots> = (x, after (polls (Suc (length ys))) (after (polls 1) b))" using Cons.IH [OF d] Cons.prems m by simp
  finally show ?case by simp
qed

lemma response_loop_found:
  assumes "drives b (replicate k 0xFF @ [s, d])" "k < n" "s \<noteq> 0xFF"
  shows "response_loop n s0 (sb_miso b (sb_pos b)) (after (polls 1) b) = (s, d, after (polls (k + 2)) b)"
  using assms
proof (induction k arbitrary: n s0 b)
  case 0
  then obtain m where "n = Suc m" by (cases n) auto
  moreover have "sb_miso b (sb_pos b) = s" "sb_miso b (sb_pos b + 1) = d" 
    using 0(1) drives_first drives_second by simp_all
  ultimately show ?case using 0(3) by (simp add: bus_ops numeral_2_eq_2)
next
  case (Suc k)
  then obtain m where m: "n = Suc m" by (cases n) auto
  have d: "drives (after (polls 1) b) (replicate k 0xFF @ [s, d])"
    using drives_after [of b "[0xFF]" "replicate k 0xFF @ [s, d]" "polls 1"] Suc.prems(1) by simp
  have "sb_miso b (sb_pos b) = 0xFF" using Suc.prems(1) drives_first by simp
  then have "response_loop n s0 (sb_miso b (sb_pos b)) (after (polls 1) b) =
      response_loop m 0xFF (sb_miso (after (polls 1) b) (sb_pos (after (polls 1) b))) (after (polls 1) (after (polls 1) b))"
    using m by (simp add: bus_ops)
  also have "\<dots> = (s, d, after (polls (k + 2)) (after (polls 1) b))" using Suc.IH [OF d] Suc.prems m by blast
  finally show ?case by simp
qed

text \<open>
  A reply to a command: busy bytes, a ready byte, whatever is on the line during the six bytes of the
  frame, idle bytes, the status and the data byte.
\<close>

datatype reply = Reply (rp_busy: "u8 list") (rp_during: "u8 list") (rp_idle: nat) (rp_status: u8) (rp_data: u8)

fun reply_bytes :: "reply \<Rightarrow> u8 list" where
  "reply_bytes (Reply busy during idle status d) = busy @ [0xFF] @ during @ replicate idle 0xFF @ [status, d]"

fun timely :: "reply \<Rightarrow> bool" where
  "timely (Reply busy during idle status d) \<longleftrightarrow>
     length busy < 200 \<and> 0xFF \<notin> set busy \<and> length during = 6 \<and> idle < 200 \<and> status \<noteq> 0xFF"

definition reply_result :: "u8 \<Rightarrow> reply \<Rightarrow> sdio_spi_rc" where
  "reply_result idx r = (if idx = 53 \<and> rp_data r \<noteq> 0 then RC_INVALID_RESPONSE_DATA
     else if rp_status r \<noteq> 0 then RC_INVALID_RESPONSE else RC_SUCCESS)"

fun reply_ops :: "u8 \<Rightarrow> u32 \<Rightarrow> reply \<Rightarrow> spi_op list" where
  "reply_ops idx arg (Reply busy during idle status d) =
     Spi_cs True # polls (Suc (length busy)) @ [Spi_write (frame_of idx arg)] @ polls (idle + 2) @ [Spi_cs False]"

lemma bus_time_reply: "timely r \<Longrightarrow> bus_time (reply_ops idx arg r) = length (reply_bytes r)"
  by (cases r) simp

lemma send_cmd_reply:
  assumes "drives b (reply_bytes r)" "timely r" "idx \<noteq> 63"
  shows "send_cmd_null idx arg b = Some (reply_result idx r, after (reply_ops idx arg r) b)"
proof -
  obtain busy during idle status d where r: "r = Reply busy during idle status d" by (cases r)
  let ?f = "Spi_write (frame_of idx arg)"
  define b1 where "b1 = after [Spi_cs True] b"
  define b2 where "b2 = after (polls (Suc (length busy))) b1"
  define b3 where "b3 = after [?f] b2"
  have t: "length busy < MAX_BUS_ATTEMPTS" "0xFF \<notin> set busy" "length during = 6" "idle < MAX_BUS_ATTEMPTS" "status \<noteq> 0xFF"
    using assms(2) by (simp_all add: r MAX_BUS_ATTEMPTS_def)
  have d1: "drives b1 ((busy @ [0xFF]) @ during @ replicate idle 0xFF @ [status, d])"
    using assms(1) drives_after [of b "[]" _ "[Spi_cs True]"] by (simp add: r b1_def)
  have "\<forall>y \<in> set busy. y \<noteq> 0xFF" using t(2) by auto
  with receive_until_found [OF drives_prefix [OF d1] t(1), of "\<lambda>r. r = 0xff" 0]
  have ready: "morse_wait_ready b1 = (True, b2)" by (simp add: morse_wait_ready_def b2_def)
  have "drives b2 (during @ replicate idle 0xFF @ [status, d])" unfolding b2_def by (rule drives_after [OF d1]) simp
  then have "drives b3 (replicate idle 0xFF @ [status, d])" unfolding b3_def by (rule drives_after) (simp add: t(3))
  note resp = response_loop_found [OF this t(4,5), of 0]
  have "sdio_spi_send_cmd idx arg b = Some (reply_result idx r, Some status, spi_cs False (after (polls (idle + 2)) b3))"
    using ready resp assms(3) unfolding sdio_spi_send_cmd_def bus_ops(1) b1_def [symmetric]
    by (simp add: SDIO_CMD63_def SDIO_CMD53_def cmd_frame_eq bus_ops(1,4,5) b3_def reply_result_def r)
  then show ?thesis by (simp add: send_cmd_null_def bus_ops r b1_def b2_def b3_def)
qed

section \<open>Data blocks\<close>

text \<open>A block on its way to the driver: idle bytes, the start token, the data and its checksum.\<close>

type_synonym data_block = "u8 list \<times> u8 list"

definition block_bytes :: "u8 list \<Rightarrow> u8 list \<Rightarrow> u16 \<Rightarrow> u8 list" where
  "block_bytes idle blk crc = (idle @ [0xFE]) @ blk @ [ucast (drop_bit 8 crc), ucast crc]"

definition sent_block :: "data_block \<Rightarrow> u8 list" where
  "sent_block f = block_bytes (fst f) (snd f) (crc_bytes 0x1021 0 (snd f))"

definition prompt :: "data_block \<Rightarrow> bool" where
  "prompt f \<longleftrightarrow> length (fst f) < 200 \<and> 0xFE \<notin> set (fst f)"

text \<open>The blocks of \<open>n\<close> bytes: all of the block size, the last one with what is left.\<close>

fun blocked :: "block_size \<Rightarrow> nat \<Rightarrow> data_block list \<Rightarrow> bool" where
  "blocked bs n [] \<longleftrightarrow> n = 0"
| "blocked bs n (f # fs) \<longleftrightarrow> 0 < n \<and> length (snd f) = min n (bs_bytes bs) \<and> blocked bs (n - length (snd f)) fs"

lemma blocked_length: "blocked bs n fs \<Longrightarrow> length (concat (map snd fs)) = n"
  by (induction fs arbitrary: n) auto

lemma get_block:
  assumes "0 < n" "off + n \<le> length dat" "drives b (block_bytes idle blk crc)" "prompt (idle, blk)"
    and "length blk = min n (bs_bytes bs)"
  defines "dat1 \<equiv> take off dat @ blk @ drop (off + length blk) dat"
    and "b1 \<equiv> after (polls (Suc (length idle)) @ [Spi_read (length blk)] @ polls 2) b"
  shows "get_data_loop n dat off bs b =
    (if crc_bytes 0x1021 0 blk \<noteq> crc then Some (RC_INVALID_CRC_RECIEVED, dat1, b1)
     else get_data_loop (n - length blk) dat1 (off + length blk) bs b1)"
    "length dat1 = length dat"
proof -
  let ?hi = "ucast (drop_bit 8 crc) :: u8" and ?lo = "ucast crc :: u8"
  define b0 where "b0 = after (polls (Suc (length idle))) b"
  have d: "drives b ((idle @ [0xFE]) @ blk @ [?hi, ?lo])" using assms(3) by (simp only: block_bytes_def)
  have t: "length idle < MAX_BUS_ATTEMPTS" "\<forall>y \<in> set idle. \<not> y = SDIO_SPI_TKN_READ_SINGLE_WRITE"
    using assms(4) by (auto simp: prompt_def MAX_BUS_ATTEMPTS_def SDIO_SPI_TKN_READ_SINGLE_WRITE_def)
  have poll: "receive_until (\<lambda>r. r = SDIO_SPI_TKN_READ_SINGLE_WRITE) MAX_BUS_ATTEMPTS 0 b = (0xFE, b0)"
    unfolding b0_def by (rule receive_until_found [OF drives_prefix [OF d] t]) (simp add: SDIO_SPI_TKN_READ_SINGLE_WRITE_def)
  have d0: "drives b0 (blk @ [?hi, ?lo])" unfolding b0_def by (rule drives_after [OF d]) simp
  have blk: "map (sb_miso b0) [sb_pos b0..<sb_pos b0 + length blk] = blk" using drives_prefix [OF d0] by (simp add: drives_def)
  have "drives (after [Spi_read (length blk)] b0) [?hi, ?lo]" by (rule drives_after [OF d0]) simp
  then have "sb_miso b0 (sb_pos b0 + length blk) = ?hi" "sb_miso b0 (sb_pos b0 + length blk + 1) = ?lo"
    using drives_first drives_second by fastforce+
  moreover have "be16_of ?hi ?lo = crc" by (rule be16_roundtrip)
  moreover note get_data_step [OF assms(1,2) poll, of bs, folded assms(5), unfolded blk]
  ultimately show "get_data_loop n dat off bs b =
    (if crc_bytes 0x1021 0 blk \<noteq> crc then Some (RC_INVALID_CRC_RECIEVED, dat1, b1)
     else get_data_loop (n - length blk) dat1 (off + length blk) bs b1)" "length dat1 = length dat"
    by (simp_all add: SDIO_SPI_TKN_READ_SINGLE_WRITE_def morse_crc16_serial dat1_def b1_def b0_def)
qed

lemma bus_time_block: "bus_time (polls (Suc (length idle)) @ [Spi_read (length blk)] @ polls 2) = length (block_bytes idle blk crc)"
  by (simp add: block_bytes_def)

text \<open>Good blocks are received whole, and a later stage of the loop starts after them.\<close>

lemma get_blocks:
  assumes "drives b (concat (map sent_block fs) @ rest)" "\<forall>f \<in> set fs. prompt f" "off + n + m \<le> length dat"
    and "blocked bs n fs" "m = 0 \<or> n mod bs_bytes bs = 0"
  shows "\<exists>ops. bus_time ops = length (concat (map sent_block fs)) \<and> get_data_loop (n + m) dat off bs b =
    get_data_loop m (take off dat @ concat (map snd fs) @ drop (off + n) dat) (off + n) bs (after ops b)"
  using assms
proof (induction fs arbitrary: b n off dat)
  case Nil
  then show ?case by (intro exI [of _ "[]"]) simp
next
  case (Cons f fs)
  obtain idle blk where f: "f = (idle, blk)" by (cases f)
  let ?ops = "polls (Suc (length idle)) @ [Spi_read (length blk)] @ polls 2"
  have n: "0 < n" "length blk = min n (bs_bytes bs)" "blocked bs (n - length blk) fs" using Cons.prems(4) by (auto simp: f)
  have full: "length blk = min (n + m) (bs_bytes bs)"
  proof (cases "m = 0")
    case False
    then have "bs_bytes bs dvd n" using Cons.prems(5) by auto
    then have "bs_bytes bs \<le> n" using n(1) by (rule dvd_imp_le)
    then show ?thesis using n(2) by simp
  qed (use n(2) in simp)
  have d: "drives b (sent_block f @ (concat (map sent_block fs) @ rest))" using Cons.prems(1) by simp
  define dat1 where "dat1 = take off dat @ blk @ drop (off + length blk) dat"
  define b1 where "b1 = after ?ops b"
  have s: "get_data_loop (n + m) dat off bs b = get_data_loop (n + m - length blk) dat1 (off + length blk) bs b1"
      "length dat1 = length dat"
    using get_block [of "n + m" off dat b idle blk "crc_bytes 0x1021 0 blk" bs] n(1) Cons.prems(2,3) full drives_prefix [OF d]
    by (simp_all add: f sent_block_def dat1_def b1_def)
  have time: "bus_time ?ops = length (sent_block f)" unfolding sent_block_def f fst_conv snd_conv by (rule bus_time_block)
  have d1: "drives b1 (concat (map sent_block fs) @ rest)" unfolding b1_def by (rule drives_after [OF d time])
  have off: "off + length blk + (n - length blk) = off + n" using n(2) by simp
  have mm: "m = 0 \<or> (n - length blk) mod bs_bytes bs = 0"
  proof (cases "m = 0")
    case False
    then have "bs_bytes bs dvd n" "length blk = bs_bytes bs" using Cons.prems(5) n(1,2) dvd_imp_le [of "bs_bytes bs" n] by auto
    then show ?thesis by (metis dvd_diff_nat dvd_refl dvd_imp_mod_0)
  qed simp
  have "off + length blk + (n - length blk) + m \<le> length dat1" using Cons.prems(3) s(2) off by simp
  from Cons.IH [OF d1 _ this n(3) mm] Cons.prems(2) obtain ops where ops: "bus_time ops = length (concat (map sent_block fs))"
      "get_data_loop (n - length blk + m) dat1 (off + length blk) bs b1 =
        get_data_loop m (take (off + length blk) dat1 @ concat (map snd fs) @ drop (off + n) dat1) (off + n) bs (after ops b1)"
    unfolding off by auto
  have "n + m - length blk = n - length blk + m" using n(2) by simp
  moreover have "take (off + length blk) dat1 @ concat (map snd fs) @ drop (off + n) dat1 =
      take off dat @ concat (map snd (f # fs)) @ drop (off + n) dat"
    using Cons.prems(3) n(2) by (simp add: dat1_def f) (simp add: add.commute)
  ultimately have "get_data_loop (n + m) dat off bs b =
      get_data_loop m (take off dat @ concat (map snd (f # fs)) @ drop (off + n) dat) (off + n) bs (after (?ops @ ops) b)"
    using s(1) ops(2) unfolding b1_def after_simps(2) by simp
  moreover have "bus_time (?ops @ ops) = length (concat (map sent_block (f # fs)))" using time ops(1) by simp
  ultimately show ?case by blast
qed

lemma get_data_receives:
  assumes "drives b (concat (map sent_block fs))" "\<forall>f \<in> set fs. prompt f" "off + unat cnt \<le> length dat" "blocked bs (unat cnt) fs"
  shows "\<exists>ops. bus_time ops = length (concat (map sent_block fs)) \<and> morse_cmd53_get_data cnt dat off bs b =
    Some (RC_SUCCESS, take off dat @ concat (map snd fs) @ drop (off + unat cnt) dat, after ops b)"
proof -
  have "drives (after [Spi_cs True] b) (concat (map sent_block fs) @ [])" using assms(1) drives_after [of b "[]" _ "[Spi_cs True]"] by simp
  from get_blocks [OF this assms(2) _ assms(4), of off 0 dat] assms(3) obtain ops where
    "bus_time ops = length (concat (map sent_block fs))" "get_data_loop (unat cnt) dat off bs (after [Spi_cs True] b) =
      get_data_loop 0 (take off dat @ concat (map snd fs) @ drop (off + unat cnt) dat) (off + unat cnt) bs (after ops (after [Spi_cs True] b))"
    by auto
  then show ?thesis
    by (intro exI [of _ "Spi_cs True # ops @ [Spi_cs False]"]) (simp add: morse_cmd53_get_data_def bus_ops get_data_loop.simps [of 0])
qed

section \<open>Commands that succeed\<close>

text \<open>Replies to a sequence of commands.\<close>

definition accepts :: "reply \<Rightarrow> bool" where
  "accepts r \<longleftrightarrow> timely r \<and> rp_status r = 0 \<and> rp_data r = 0"

lemma accepted_command:
  assumes "drives b (reply_bytes r @ ds)" "accepts r" "idx \<in> {52, 53}"
  obtains ops where "send_cmd_null idx arg b = Some (RC_SUCCESS, after ops b)" "drives (after ops b) ds"
proof -
  have "timely r" "reply_result idx r = RC_SUCCESS" using assms(2) by (simp_all add: accepts_def reply_result_def)
  moreover have "idx \<noteq> 63" using assms(3) by auto
  ultimately show thesis
    using that send_cmd_reply [OF drives_prefix [OF assms(1)], of idx arg] drives_after [OF assms(1)] bus_time_reply by metis
qed

lemma accepted_cmd52:
  assumes "drives b (reply_bytes r @ ds)" "accepts r" "a \<le> SDIO_ADDRESS_MAX"
  obtains ops where "morse_cmd52_write a d f b = Some (RC_SUCCESS, after ops b)" "drives (after ops b) ds"
  using accepted_command [OF assms(1,2), of 52 "cmd52_arg a d f"] assms(3) that by (auto simp: morse_cmd52_write_def SDIO_CMD52_def)

lemma register_addresses:
  "MORSE_REG_ADDRESS_WINDOW_0 \<le> SDIO_ADDRESS_MAX" "MORSE_REG_ADDRESS_WINDOW_1 \<le> SDIO_ADDRESS_MAX"
  "MORSE_REG_ADDRESS_CONFIG \<le> SDIO_ADDRESS_MAX"
  by (simp_all add: MORSE_REG_ADDRESS_WINDOW_0_def MORSE_REG_ADDRESS_WINDOW_1_def MORSE_REG_ADDRESS_CONFIG_def
      MORSE_REG_ADDRESS_BASE_def SDIO_ADDRESS_MAX_def)

lemma accepted_base:
  assumes "drives b (reply_bytes r0 @ reply_bytes r1 @ reply_bytes r2 @ ds)" "accepts r0" "accepts r1" "accepts r2"
  obtains ops where "morse_address_base_set a MORSE_CONFIG_ACCESS_4BYTE f b = Some (RC_SUCCESS, after ops b)" "drives (after ops b) ds"
proof -
  let ?a = "a AND 0xFFFF0000"
  obtain o0 where o0: "morse_cmd52_write MORSE_REG_ADDRESS_WINDOW_0 (ucast (drop_bit 16 ?a)) f b = Some (RC_SUCCESS, after o0 b)"
      "drives (after o0 b) (reply_bytes r1 @ reply_bytes r2 @ ds)" using accepted_cmd52 [OF assms(1,2) register_addresses(1)] .
  obtain o1 where o1: "morse_cmd52_write MORSE_REG_ADDRESS_WINDOW_1 (ucast (drop_bit 24 ?a)) f (after o0 b) = Some (RC_SUCCESS, after o1 (after o0 b))"
      "drives (after o1 (after o0 b)) (reply_bytes r2 @ ds)" using accepted_cmd52 [OF o0(2) assms(3) register_addresses(2)] .
  obtain o2 where o2: "morse_cmd52_write MORSE_REG_ADDRESS_CONFIG MORSE_CONFIG_ACCESS_4BYTE f (after o1 (after o0 b)) =
        Some (RC_SUCCESS, after o2 (after o1 (after o0 b)))" "drives (after o2 (after o1 (after o0 b))) ds"
    using accepted_cmd52 [OF o1(2) assms(4) register_addresses(3)] .
  show thesis
    using that [of "o0 @ o1 @ o2"] o0(1) o1(1) o2 by (simp add: morse_address_base_set_def Let_def)
qed

lemma accepted_cmd53:
  assumes "drives b (reply_bytes r @ ds)" "accepts r" "a < 2 ^ 17" "cnt < 2 ^ 9"
  obtains ops where "morse_cmd53_send_cmd rw f mode a cnt b = Some (RC_SUCCESS, after ops b)" "drives (after ops b) ds"
proof -
  have "a \<le> SDIO_ADDRESS_MAX" using assms(3) by (simp add: SDIO_ADDRESS_MAX_def word_le_nat_alt word_less_nat_alt)
  moreover have "(ucast cnt :: u32) \<le> SDIO_COUNT_MAX"
    using assms(4) by (simp add: SDIO_COUNT_MAX_def word_le_nat_alt word_less_nat_alt unat_of_u16)
  ultimately show thesis
    using accepted_command [OF assms(1,2), of 53 "cmd53_arg rw f mode a cnt"] that by (auto simp: morse_cmd53_send_cmd_def)
qed

text \<open>A card whose line carries given bytes, and is idle after them.\<close>

definition bus_of :: "u8 list \<Rightarrow> spi_bus" where
  "bus_of ds = \<lparr>sb_miso = (\<lambda>i. if i < length ds then ds ! i else 0xFF), sb_pos = 0, sb_log = []\<rparr>"

lemma drives_bus_of: "drives (bus_of ds) ds"
  by (auto simp: drives_def bus_of_def intro!: nth_equalityI)

abbreviation example_reply :: reply where
  "example_reply \<equiv> Reply [0x00] (replicate 6 0x55) 2 0 0"

lemma example_reply_accepts: "accepts example_reply"
  by (simp add: accepts_def)

section \<open>Properties\<close>

text \<open>A little-endian word of the transceiver is read as its value: when the card accepts the four
  commands and sends the four bytes with their checksum, each after any delay the driver
  waits for, \<open>sdio_spi_read_le32\<close> succeeds and stores the value.\<close>

theorem sdio_read_le32_roundtrip:
  assumes "drives b (reply_bytes r0 @ reply_bytes r1 @ reply_bytes r2 @ reply_bytes r3 @ sent_block (idle, UNPACK_LE32 v))"
    and "\<forall>r \<in> {r0, r1, r2, r3}. accepts r" "prompt (idle, UNPACK_LE32 v)" "length rd0 = 4"
  shows "\<exists>ops. sdio_spi_read_le32 address rd0 (Some old) b = Some (RC_SUCCESS, Some v, after ops b)"
proof -
  have acc: "accepts r0" "accepts r1" "accepts r2" "accepts r3" using assms(2) by simp_all
  obtain o1 where o1: "morse_address_base_set address MORSE_CONFIG_ACCESS_4BYTE SDIO_FUNCTION_1 b = Some (RC_SUCCESS, after o1 b)"
      "drives (after o1 b) (reply_bytes r3 @ sent_block (idle, UNPACK_LE32 v))"
    using accepted_base [OF assms(1) acc(1-3)] .
  have "address AND 0x0000FFFF < 2 ^ 17" using unat_lower_half [of address] by (simp add: word_less_nat_alt)
  moreover have "(4 :: u16) < 2 ^ 9" by simp
  ultimately obtain o2 where o2: "morse_cmd53_send_cmd SDIO_READ SDIO_FUNCTION_1 SDIO_MODE_BYTE (address AND 0x0000FFFF) 4 (after o1 b) =
        Some (RC_SUCCESS, after o2 (after o1 b))" "drives (after o2 (after o1 b)) (sent_block (idle, UNPACK_LE32 v))"
    using accepted_cmd53 [OF o1(2) acc(4)] by metis
  have "length (UNPACK_LE32 v) = 4" by (simp add: UNPACK_LE32_def)
  then have "blocked BLOCK_SIZE_FN1 (unat (4 :: u16)) [(idle, UNPACK_LE32 v)]" by simp
  with get_data_receives [of "after o2 (after o1 b)" "[(idle, UNPACK_LE32 v)]" 0 4 rd0 BLOCK_SIZE_FN1] o2(2) assms(3,4)
  obtain o3 where o3: "morse_cmd53_get_data 4 rd0 0 BLOCK_SIZE_FN1 (after o2 (after o1 b)) =
      Some (RC_SUCCESS, UNPACK_LE32 v, after o3 (after o2 (after o1 b)))" by auto
  have "drop_bit 3 (4 :: u32) = 0" by (simp add: drop_bit_eq_div)
  then have "morse_cmd53_read SDIO_FUNCTION_1 address rd0 0 4 (after o1 b) = Some (RC_SUCCESS, UNPACK_LE32 v, after o3 (after o2 (after o1 b)))"
    using o2(1) o3 by (simp add: morse_cmd53_read_def function_block_size_def)
  then have "sdio_spi_read_le32 address rd0 (Some old) b = Some (RC_SUCCESS, Some v, after (o1 @ o2 @ o3) b)"
    using o1(1) by (simp add: sdio_spi_read_le32_def pack_unpack_32)
  then show ?thesis by blast
qed

theorem sdio_read_le32_roundtrip_witness:
  "\<exists>ops. sdio_spi_read_le32 0x10054014 [0, 0, 0, 0] (Some 7)
     (bus_of (reply_bytes example_reply @ reply_bytes example_reply @ reply_bytes example_reply @ reply_bytes example_reply @
       sent_block ([0xFF], UNPACK_LE32 0x306))) =
     Some (RC_SUCCESS, Some 0x306, after ops (bus_of (reply_bytes example_reply @ reply_bytes example_reply @ reply_bytes example_reply @
       reply_bytes example_reply @ sent_block ([0xFF], UNPACK_LE32 0x306))))"
  by (rule sdio_read_le32_roundtrip [OF drives_bus_of])
    (use example_reply_accepts in \<open>simp_all add: prompt_def\<close>)

text \<open>C32: A corrupted block is never taken for data: after any number of good blocks, a block in which one
  byte differs from what the checksum was computed for makes the driver report the CRC error.\<close>

theorem sdio_read_detects_corruption:
  assumes "drives b (concat (map sent_block fs) @ block_bytes idle (pre @ y # post) (crc_bytes 0x1021 0 (pre @ x # post)) @ rest)"
    and "\<forall>f \<in> set fs. prompt f" "prompt (idle, pre @ y # post)" "x \<noteq> y"
    and "\<forall>f \<in> set fs. length (snd f) = bs_bytes bs" "length (pre @ y # post) = bs_bytes bs"
    and "unat cnt = Suc (length fs + k) * bs_bytes bs" "off + unat cnt \<le> length dat"
  shows "\<exists>d b'. morse_cmd53_get_data cnt dat off bs b = Some (RC_INVALID_CRC_RECIEVED, d, b')"
proof -
  let ?n = "length fs * bs_bytes bs" and ?m = "Suc k * bs_bytes bs"
  let ?b = "after [Spi_cs True] b"
  have bl: "blocked bs (length gs * bs_bytes bs) gs" if "\<forall>f \<in> set gs. length (snd f) = bs_bytes bs" for gs
    using that by (induction gs) auto
  have nm: "unat cnt = ?n + ?m" using assms(7) by (simp add: algebra_simps)
  have d: "drives ?b (concat (map sent_block fs) @ block_bytes idle (pre @ y # post) (crc_bytes 0x1021 0 (pre @ x # post)) @ rest)"
    using assms(1) drives_after [of b "[]" _ "[Spi_cs True]"] by simp
  have "off + ?n + ?m \<le> length dat" using assms(8) nm by simp
  from get_blocks [OF d assms(2) this bl [OF assms(5)]] obtain ops where
    ops: "bus_time ops = length (concat (map sent_block fs))" "get_data_loop (unat cnt) dat off bs ?b =
      get_data_loop ?m (take off dat @ concat (map snd fs) @ drop (off + ?n) dat) (off + ?n) bs (after ops ?b)"
    unfolding nm by auto
  let ?dat = "take off dat @ concat (map snd fs) @ drop (off + ?n) dat"
  have "length (concat (map snd fs)) = ?n" using blocked_length [OF bl [OF assms(5)]] .
  then have l: "off + ?n + ?m \<le> length ?dat" using assms(8) nm by simp
  have "drives (after ops ?b) (block_bytes idle (pre @ y # post) (crc_bytes 0x1021 0 (pre @ x # post)))"
    using drives_prefix [OF drives_after [OF d ops(1)]] .
  moreover have "0 < ?m" "length (pre @ y # post) = min ?m (bs_bytes bs)" using assms(6) by simp_all
  moreover have "crc_bytes 0x1021 0 (pre @ y # post) \<noteq> (crc_bytes 0x1021 0 (pre @ x # post) :: u16)"
    using xmodem.detects_byte assms(4) by metis
  ultimately have "\<exists>d b'. get_data_loop ?m ?dat (off + ?n) bs (after ops ?b) = Some (RC_INVALID_CRC_RECIEVED, d, b')"
    using get_block(1) [OF _ l _ assms(3)] by simp
  then show ?thesis using ops(2) by (auto simp: morse_cmd53_get_data_def bus_ops)
qed

theorem sdio_read_detects_corruption_witness:
  "\<exists>d b'. morse_cmd53_get_data 16 (replicate 16 0) 0 BLOCK_SIZE_FN1
     (bus_of (concat (map sent_block [([0xFF], [1, 2, 3, 4, 5, 6, 7, 8])]) @
       block_bytes [] ([9, 9] @ 8 # [9, 9, 9, 9, 9]) (crc_bytes 0x1021 0 ([9, 9] @ 9 # [9, 9, 9, 9, 9])) @ [])) =
     Some (RC_INVALID_CRC_RECIEVED, d, b')"
  by (rule sdio_read_detects_corruption [OF drives_bus_of, where k = 0]) (simp_all add: prompt_def)

text \<open>
  The limits of the assertions are one bit wider than the fields they protect: address 0x20000 is
  sent as address 0, and a count of 512 as count 0 of the next odd address.
\<close>

lemma cmd53_fields_overlap:
  "cmd53_arg rw f mode 0x20000 n = cmd53_arg rw f mode 0 n" "cmd53_arg rw f mode 0 512 = cmd53_arg rw f mode 1 0"
  "0x20000 \<le> SDIO_ADDRESS_MAX" "ucast (512 :: u16) \<le> SDIO_COUNT_MAX"
proof -
  show "cmd53_arg rw f mode 0x20000 n = cmd53_arg rw f mode 0 n"
    by (simp add: cmd53_arg_def SDIO_ADDRESS_OFFSET_def SDIO_COUNT_OFFSET_def SDIO_OPCODE_INC_ADDR_def or.assoc or.left_commute)
  show "cmd53_arg rw f mode 0 512 = cmd53_arg rw f mode 1 0"
    by (simp add: cmd53_arg_def SDIO_ADDRESS_OFFSET_def SDIO_COUNT_OFFSET_def or.assoc)
qed (simp_all add: SDIO_ADDRESS_MAX_def SDIO_COUNT_MAX_def)

text \<open>
  A read of exactly 64 KiB succeeds without reading: its size does not fit the 16 bits of \<open>byte_cnt\<close>.
\<close>

lemma read_64k_reads_nothing:
  assumes "drives b (reply_bytes r0 @ reply_bytes r1 @ reply_bytes r2 @ reply_bytes r3)" "\<forall>r \<in> {r0, r1, r2, r3}. accepts r"
    and "unat address mod 0x10000 = 0" "unat address + 0x10000 \<le> 0xFFFF0000" "length dat = 0x10000" "take 4 dat \<noteq> take 4 (drop 4 dat)"
  shows "\<exists>ops. sdio_spi_read_multi_byte address dat 0x10000 b = Some (RC_SUCCESS, dat, after ops b)"
proof -
  have acc: "accepts r0" "accepts r1" "accepts r2" "accepts r3" using assms(2) by simp_all
  obtain o1 where o1: "morse_address_base_set address MORSE_CONFIG_ACCESS_4BYTE SDIO_FUNCTION_2 b = Some (RC_SUCCESS, after o1 b)"
      "drives (after o1 b) (reply_bytes r3 @ [])"
    using accepted_base [OF _ acc(1-3), of b "reply_bytes r3" address SDIO_FUNCTION_2] assms(1) by auto
  have "address AND 0x0000FFFF < 2 ^ 17" using unat_lower_half [of address] by (simp add: word_less_nat_alt)
  moreover have "(128 :: u16) < 2 ^ 9" by simp
  ultimately obtain o2 where o2: "morse_cmd53_send_cmd SDIO_READ SDIO_FUNCTION_2 SDIO_MODE_BLOCK (address AND 0x0000FFFF) 128 (after o1 b) =
        Some (RC_SUCCESS, after o2 (after o1 b))"
    using accepted_cmd53 [OF o1(2) acc(4)] by metis
  have nt: "next_transfer address 0x10000 = 0x10000"
    using next_transfer_size(1) [of "0x10000" address] assms(3,4) by (simp add: word_unat_eq_iff)
  have "drop_bit 9 (0x10000 :: u32) = 128" by (simp add: drop_bit_eq_div)
  then have rd: "morse_cmd53_read SDIO_FUNCTION_2 address dat 0 0x10000 (after o1 b) =
      Some (RC_SUCCESS, dat, after (o1 @ o2 @ [Spi_cs True, Spi_cs False]) b)"
    using o2 by (simp add: morse_cmd53_read_def fn2_blocks morse_cmd53_get_data_def get_data_loop.simps [of 0] bus_ops)
  have "read_multi_loop address dat 0 0x10000 RC_unset b = Some (RC_SUCCESS, dat, after (o1 @ o2 @ [Spi_cs True, Spi_cs False]) b)"
    using o1(1) rd nt assms(5,6)
    by (subst read_multi_loop.simps) (simp add: region_def read_multi_loop.simps [of _ _ _ 0])
  then show ?thesis by (auto simp: sdio_spi_read_multi_byte_def)
qed

text \<open>
  A read of four bytes looks past them: the comparison with the second word reads outside a buffer of
  the length asked for.
\<close>

lemma read_4_overruns:
  assumes "drives b (reply_bytes r0 @ reply_bytes r1 @ reply_bytes r2 @ reply_bytes r3 @ sent_block (idle, blk))"
    and "\<forall>r \<in> {r0, r1, r2, r3}. accepts r" "prompt (idle, blk)" "length blk = 4" "length dat = 4"
    and "unat address mod 0x10000 \<le> 0xFFFC" "unat address + 4 \<le> 0xFFFF0000"
  shows "sdio_spi_read_multi_byte address dat 4 b = None"
proof -
  have acc: "accepts r0" "accepts r1" "accepts r2" "accepts r3" using assms(2) by simp_all
  obtain o1 where o1: "morse_address_base_set address MORSE_CONFIG_ACCESS_4BYTE SDIO_FUNCTION_2 b = Some (RC_SUCCESS, after o1 b)"
      "drives (after o1 b) (reply_bytes r3 @ sent_block (idle, blk))"
    using accepted_base [OF assms(1) acc(1-3)] .
  have "address AND 0x0000FFFF < 2 ^ 17" using unat_lower_half [of address] by (simp add: word_less_nat_alt)
  moreover have "(4 :: u16) < 2 ^ 9" by simp
  ultimately obtain o2 where o2: "morse_cmd53_send_cmd SDIO_READ SDIO_FUNCTION_2 SDIO_MODE_BYTE (address AND 0x0000FFFF) 4 (after o1 b) =
        Some (RC_SUCCESS, after o2 (after o1 b))" "drives (after o2 (after o1 b)) (sent_block (idle, blk))"
    using accepted_cmd53 [OF o1(2) acc(4)] by metis
  have "blocked BLOCK_SIZE_FN2 (unat (4 :: u16)) [(idle, blk)]" using assms(4) by simp
  with get_data_receives [of "after o2 (after o1 b)" "[(idle, blk)]" 0 4 dat BLOCK_SIZE_FN2] o2(2) assms(3,5)
  obtain o3 where o3: "morse_cmd53_get_data 4 dat 0 BLOCK_SIZE_FN2 (after o2 (after o1 b)) =
      Some (RC_SUCCESS, blk, after o3 (after o2 (after o1 b)))" by auto
  have nt: "next_transfer address 4 = 4"
    using next_transfer_size(1) [of 4 address] assms(6,7) by (simp add: word_unat_eq_iff)
  have "drop_bit 9 (4 :: u32) = 0" by (simp add: drop_bit_eq_div)
  then have "morse_cmd53_read SDIO_FUNCTION_2 address dat 0 4 (after o1 b) = Some (RC_SUCCESS, blk, after o3 (after o2 (after o1 b)))"
    using o2(1) o3 by (simp add: morse_cmd53_read_def fn2_blocks)
  then have "read_multi_loop address dat 0 4 RC_unset b = None"
    using o1(1) nt assms(4) by (subst read_multi_loop.simps) simp
  then show ?thesis by (simp add: sdio_spi_read_multi_byte_def)
qed

text \<open>In the last window of the address space the boundary wraps to zero and a transfer exceeds its length.\<close>

lemma last_window_overruns: "next_transfer 0xFFFFFFF0 4 = 16"
  by (simp add: next_transfer_def MAX_BLOCK_TRANSFER_SIZE_FN2_def CMD53_MAX_BLOCKS_def Let_def)

section \<open>Writes\<close>

lemma write_loop_result: "len \<noteq> 0 \<Longrightarrow> write_multi_loop address dat off len rc b = write_multi_loop address dat off len rc' b"
  by (simp add: write_multi_loop.simps [of address dat off len])


text \<open>
  A card that accepts CMD52 but answers every CMD53 with a non-zero data byte: the line repeats ready,
  six bytes during the frame, status 0 and the data byte 5.
\<close>

definition refusing :: "spi_bus \<Rightarrow> bool" where
  "refusing b \<longleftrightarrow> (\<forall>i. sb_miso b (sb_pos b + i) = (if i mod 9 = 0 then 0xFF else if i mod 9 = 8 then 5 else 0))"

abbreviation refusal :: reply where
  "refusal \<equiv> Reply [] (replicate 6 0) 0 0 5"

lemma refusing_drives: "refusing b \<Longrightarrow> drives b (reply_bytes refusal)"
proof -
  assume "refusing b"
  then have i: "sb_miso b (sb_pos b + i) = (if i mod 9 = 0 then 0xFF else if i mod 9 = 8 then 5 else 0)" for i
    by (simp only: refusing_def)
  have "map (sb_miso b) [sb_pos b..<sb_pos b + 9] = map (\<lambda>i. sb_miso b (sb_pos b + i)) [0..<9]"
    by (rule nth_equalityI) (simp_all add: add.commute)
  also have "\<dots> = [0xFF, 0, 0, 0, 0, 0, 0, 0, 5]" unfolding i by (simp add: upt_rec)
  finally show ?thesis by (simp add: drives_def numeral_eq_Suc)
qed

lemma refusing_after: "refusing b \<Longrightarrow> refusing (after (reply_ops idx arg refusal) b)"
proof -
  assume r: "refusing b"
  have t: "bus_time (reply_ops idx arg refusal) = 9" by simp
  have "sb_miso b (sb_pos b + (9 + i)) = (if (9 + i) mod 9 = 0 then 0xFF else if (9 + i) mod 9 = 8 then 5 else 0)" for i
    using r by (simp only: refusing_def)
  then show ?thesis unfolding refusing_def after_simps t by (simp add: add.assoc)
qed

lemma reply_heard:
  assumes "between_blocks c" "idx \<in> {52, 53}"
  shows "card_reads c (reply_ops idx arg r) = card_cmd idx arg c"
  using assms
  by (cases r) (simp only: reply_ops.simps card_reads_simps card_step.simps(1) polls_ignored frame_heard card_frame_of
      card_cmd_between)

lemma refused_command:
  assumes "refusing b" "idx \<in> {52, 53}" "between_blocks (card_at c0 b)"
  obtains b' where "send_cmd_null idx arg b = Some (if idx = 53 then RC_INVALID_RESPONSE_DATA else RC_SUCCESS, b')"
    "refusing b'" "between_blocks (card_at c0 b')" "cd_mem (card_at c0 b') = cd_mem (card_at c0 b)"
proof -
  let ?b = "after (reply_ops idx arg refusal) b"
  have "idx \<noteq> 63" using assms(2) by auto
  then have "send_cmd_null idx arg b = Some (if idx = 53 then RC_INVALID_RESPONSE_DATA else RC_SUCCESS, ?b)"
    using send_cmd_reply [OF refusing_drives [OF assms(1)]] by (simp add: reply_result_def)
  moreover have "card_at c0 ?b = card_cmd idx arg (card_at c0 b)" using reply_heard [OF assms(3,2)] by (simp del: reply_ops.simps)
  moreover have "cd_mem (card_cmd idx arg c) = cd_mem c" for c by (simp add: card_cmd_def Let_def)
  ultimately show thesis using that refusing_after [OF assms(1)] by (metis card_cmd_between)
qed

lemma refused_cmd52:
  assumes "refusing b" "between_blocks (card_at c0 b)" "a \<le> SDIO_ADDRESS_MAX"
  obtains b' where "morse_cmd52_write a d f b = Some (RC_SUCCESS, b')"
    "refusing b'" "between_blocks (card_at c0 b')" "cd_mem (card_at c0 b') = cd_mem (card_at c0 b)"
  using refused_command [OF assms(1) _ assms(2), of 52 "cmd52_arg a d f"] assms(3) that
  by (auto simp: morse_cmd52_write_def SDIO_CMD52_def)

lemma refused_cmd53:
  assumes "refusing b" "between_blocks (card_at c0 b)"
  obtains b' where "send_cmd_null 53 arg b = Some (RC_INVALID_RESPONSE_DATA, b')"
    "refusing b'" "between_blocks (card_at c0 b')" "cd_mem (card_at c0 b') = cd_mem (card_at c0 b)"
  using refused_command [OF assms(1) _ assms(2), of 53 arg] that by auto

lemma refused_base:
  assumes "refusing b" "between_blocks (card_at c0 b)"
  obtains b' where "morse_address_base_set a MORSE_CONFIG_ACCESS_4BYTE f b = Some (RC_SUCCESS, b')"
    "refusing b'" "between_blocks (card_at c0 b')" "cd_mem (card_at c0 b') = cd_mem (card_at c0 b)"
proof -
  let ?a = "a AND 0xFFFF0000"
  obtain b1 where b1: "morse_cmd52_write MORSE_REG_ADDRESS_WINDOW_0 (ucast (drop_bit 16 ?a)) f b = Some (RC_SUCCESS, b1)"
      "refusing b1" "between_blocks (card_at c0 b1)" "cd_mem (card_at c0 b1) = cd_mem (card_at c0 b)"
    using refused_cmd52 [OF assms register_addresses(1)] .
  obtain b2 where b2: "morse_cmd52_write MORSE_REG_ADDRESS_WINDOW_1 (ucast (drop_bit 24 ?a)) f b1 = Some (RC_SUCCESS, b2)"
      "refusing b2" "between_blocks (card_at c0 b2)" "cd_mem (card_at c0 b2) = cd_mem (card_at c0 b1)"
    using refused_cmd52 [OF b1(2,3) register_addresses(2)] .
  obtain b3 where b3: "morse_cmd52_write MORSE_REG_ADDRESS_CONFIG MORSE_CONFIG_ACCESS_4BYTE f b2 = Some (RC_SUCCESS, b3)"
      "refusing b3" "between_blocks (card_at c0 b3)" "cd_mem (card_at c0 b3) = cd_mem (card_at c0 b2)"
    using refused_cmd52 [OF b2(2,3) register_addresses(3)] .
  show thesis using that [of b3] b1 b2 b3 by (simp add: morse_address_base_set_def Let_def)
qed

lemma refused_write:
  assumes "refusing b" "between_blocks (card_at c0 b)" "len \<noteq> 0" "unat len \<le> 0x10000"
  obtains b' where "morse_cmd53_write SDIO_FUNCTION_2 address dat off len b = Some (RC_INVALID_RESPONSE_DATA, b')"
    "refusing b'" "between_blocks (card_at c0 b')" "cd_mem (card_at c0 b') = cd_mem (card_at c0 b)"
proof -
  let ?a = "address AND 0x0000FFFF"
  have lim: "?a \<le> SDIO_ADDRESS_MAX" using unat_lower_half [of address] by (simp add: SDIO_ADDRESS_MAX_def word_le_nat_alt)
  have lim2: "(ucast n :: u32) \<le> SDIO_COUNT_MAX" if "n < (2 ^ 9 :: u16)" for n
    using that by (simp add: SDIO_COUNT_MAX_def word_le_nat_alt word_less_nat_alt unat_of_u16)
  define nb where "nb = (ucast (drop_bit 9 len) :: u16)"
  define ts where "ts = (ucast nb * word_of_nat 512 :: u32)"
  note sp = split_blocks [OF assms(4), folded nb_def, folded ts_def]
  show thesis
  proof (cases "nb = 0")
    case True
    obtain b' where "send_cmd_null 53 (cmd53_arg SDIO_WRITE SDIO_FUNCTION_2 SDIO_MODE_BYTE ?a (ucast len)) b = Some (RC_INVALID_RESPONSE_DATA, b')"
        "refusing b'" "between_blocks (card_at c0 b')" "cd_mem (card_at c0 b') = cd_mem (card_at c0 b)"
      using refused_cmd53 [OF assms(1,2)] .
    moreover have "ts = 0" using True by (simp add: ts_def)
    ultimately show thesis
      using that [of b'] lim lim2 [of "ucast len"] sp(6) assms(3) True
      unfolding morse_cmd53_write_def fn2_blocks bs_log2.simps bs_bytes.simps Let_def nb_def [symmetric] ts_def [symmetric]
      by (simp add: morse_cmd53_send_cmd_def word_gt_0)
  next
    case False
    obtain b' where "send_cmd_null 53 (cmd53_arg SDIO_WRITE SDIO_FUNCTION_2 SDIO_MODE_BLOCK ?a nb) b = Some (RC_INVALID_RESPONSE_DATA, b')"
        "refusing b'" "between_blocks (card_at c0 b')" "cd_mem (card_at c0 b') = cd_mem (card_at c0 b)"
      using refused_cmd53 [OF assms(1,2)] .
    then show thesis
      using that [of b'] lim lim2 [OF sp(5)] assms(3) False
      unfolding morse_cmd53_write_def fn2_blocks bs_log2.simps bs_bytes.simps Let_def nb_def [symmetric] ts_def [symmetric]
      by (simp add: morse_cmd53_send_cmd_def word_gt_0)
  qed
qed

lemma refused_loop:
  assumes "refusing b" "between_blocks (card_at c0 b)" "unat address + unat len \<le> 0xFFFF0000"
  shows "\<exists>b'. write_multi_loop address dat off len RC_SUCCESS b = Some (RC_SUCCESS, b') \<and> cd_mem (card_at c0 b') = cd_mem (card_at c0 b)"
  using assms
proof (induction "unat len" arbitrary: address off len b rule: less_induct)
  case less
  show ?case
  proof (cases "len = 0")
    case True
    then show ?thesis by (simp add: write_multi_loop.simps [of address dat off 0])
  next
    case False
    define s where "s = next_transfer address len"
    note n = next_transfer_size [OF False less.prems(3), folded s_def]
    obtain b1 where b1: "morse_address_base_set address MORSE_CONFIG_ACCESS_4BYTE SDIO_FUNCTION_2 b = Some (RC_SUCCESS, b1)"
        "refusing b1" "between_blocks (card_at c0 b1)" "cd_mem (card_at c0 b1) = cd_mem (card_at c0 b)"
      using refused_base [OF less.prems(1,2)] .
    have "s \<noteq> 0" "unat s \<le> 0x10000" using n(2,4) by (auto simp: unat_gt_0)
    then obtain b2 where b2: "morse_cmd53_write SDIO_FUNCTION_2 address dat off s b1 = Some (RC_INVALID_RESPONSE_DATA, b2)"
        "refusing b2" "between_blocks (card_at c0 b2)" "cd_mem (card_at c0 b2) = cd_mem (card_at c0 b1)"
      using refused_write [OF b1(2,3)] by metis
    have "unat (address + s) + unat (len - s) \<le> 0xFFFF0000" using n(3,5,7) less.prems(3) by simp
    from less.hyps [OF n(6) b2(2,3) this, of "off + unat s"] b1(4) b2(4)
    show ?thesis
      using False b1(1) b2(1) unfolding write_multi_loop.simps [of address dat off len RC_SUCCESS b] s_def by (simp add: Let_def)
  qed
qed

text \<open>The result of the data commands is lost: against a card that refuses every CMD53,
  \<open>sdio_spi_write_multi_byte\<close> still returns success for every address and length, although not one byte has
  reached the memory of the card.\<close>

theorem sdio_write_loses_errors:
  assumes "refusing b" "between_blocks (card_at c0 b)" "len \<noteq> 0" "len AND 0x03 = 0" "unat address + unat len \<le> 0xFFFF0000"
  shows "\<exists>b'. sdio_spi_write_multi_byte address dat len b = Some (RC_SUCCESS, b') \<and> cd_mem (card_at c0 b') = cd_mem (card_at c0 b)"
  using refused_loop [OF assms(1,2,5), of dat 0] assms(3,4) write_loop_result [of len address dat 0 RC_unset b RC_SUCCESS]
  by (simp add: sdio_spi_write_multi_byte_def)

abbreviation empty_card :: card where
  "empty_card \<equiv> \<lparr>cd_phase = Ph_cmd, cd_window = (\<lambda>_. (0, 0)), cd_mem = (\<lambda>_. None)\<rparr>"

abbreviation refusing_bus :: spi_bus where
  "refusing_bus \<equiv> \<lparr>sb_miso = (\<lambda>i. if i mod 9 = 0 then 0xFF else if i mod 9 = 8 then 5 else 0), sb_pos = 0, sb_log = []\<rparr>"

theorem sdio_write_loses_errors_witness:
  "\<exists>b'. sdio_spi_write_multi_byte 0x100000 [1, 2, 3, 4] 4 refusing_bus = Some (RC_SUCCESS, b') \<and>
     cd_mem (card_at empty_card b') = cd_mem (card_at empty_card refusing_bus)"
  by (rule sdio_write_loses_errors) (simp_all add: refusing_def card_at_def between_blocks_def)

lemma wait_ready_found: "drives b (0xFF # ds) \<Longrightarrow> morse_wait_ready b = (True, after (polls 1) b)"
  using receive_until_found [of b "[]" "0xFF" MAX_BUS_ATTEMPTS "\<lambda>r. r = 0xff" 0] drives_prefix [of b "[0xFF]" ds]
  by (simp add: morse_wait_ready_def MAX_BUS_ATTEMPTS_def)

text \<open>A single block in byte mode that the card takes.\<close>

lemma accepted_put:
  assumes "drives b (0xFF # during @ [0xE5, 0xFF] @ ds)" "length during = unat cnt + 3" "0 < unat cnt" "unat cnt \<le> bs_bytes bs"
    "off + unat cnt \<le> length dat"
  obtains ops where "morse_cmd53_put_data cnt dat off SDIO_MODE_BYTE bs b = Some (RC_SUCCESS, after ops b)"
proof -
  define blk where "blk = region dat off (unat cnt)"
  let ?crc = "morse_crc16 0 blk"
  define os where "os = [Spi_rw 0xFE, Spi_write blk, Spi_rw (ucast (drop_bit 8 ?crc)), Spi_rw (ucast ?crc)]"
  define b1 where "b1 = after [Spi_cs True] b"
  define b2 where "b2 = after (polls 1 @ os) b1"
  have d1: "drives b1 (0xFF # during @ [0xE5, 0xFF] @ ds)"
    using assms(1) drives_after [of b "[]" _ "[Spi_cs True]"] by (simp add: b1_def)
  have lb: "length blk = unat cnt" using assms(5) by (simp add: blk_def region_def)
  have "bus_time (polls 1 @ os) = length (0xFF # during)" using assms(2) lb by (simp add: os_def)
  then have d2: "drives b2 ([0xE5] @ 0xFF # ds)" unfolding b2_def using drives_after [of b1 "0xFF # during" "[0xE5, 0xFF] @ ds"] d1 by simp
  have rsp: "receive_until (\<lambda>r. r \<noteq> 0xff) 4 0xff b2 = (0xE5, after (polls 1) b2)"
    using receive_until_found [of b2 "[]" "0xE5" 4 "\<lambda>r. r \<noteq> 0xff" "0xff"] drives_prefix [OF d2] by simp
  have d3: "drives (after (polls 1) b2) (0xFF # ds)" by (rule drives_after [OF d2]) simp
  obtain m where m: "unat cnt = Suc m" using assms(3) by (cases "unat cnt") auto
  have "put_data_loop (unat cnt) dat off SDIO_MODE_BYTE bs (unat cnt) 0xFE RC_UNSPECIFIED_ERROR b1 = Some (RC_SUCCESS, after (polls 1) b2)"
    using wait_ready_found [OF d1] rsp assms(4,5) unfolding m
    by (simp add: Let_def bus_ops not_less b2_def os_def blk_def m morse_test_data_rsp_token_def SDIO_SPI_TKN_DATA_RSP_ACCEPTED_def)
  then show thesis
    using that wait_ready_found [OF d3]
    by (simp add: morse_cmd53_put_data_def bus_ops SDIO_SPI_TKN_READ_SINGLE_WRITE_def SDIO_SPI_TKN_MULTI_WRITE_def b1_def b2_def)
qed

lemma accepted_write:
  assumes "drives b (reply_bytes r0 @ reply_bytes r1 @ reply_bytes r2 @ reply_bytes r3 @ 0xFF # during @ [0xE5, 0xFF])"
    and "\<forall>r \<in> {r0, r1, r2, r3}. accepts r" "length during = 7" "length dat = 4" "unat address mod 0x10000 \<le> 0xFFFC" "unat address + 4 \<le> 0xFFFF0000"
  obtains b' where "write_all address dat 0 4 b = Some b'"
proof -
  have acc: "accepts r0" "accepts r1" "accepts r2" "accepts r3" using assms(2) by simp_all
  obtain o1 where o1: "morse_address_base_set address MORSE_CONFIG_ACCESS_4BYTE SDIO_FUNCTION_2 b = Some (RC_SUCCESS, after o1 b)"
      "drives (after o1 b) (reply_bytes r3 @ 0xFF # during @ [0xE5, 0xFF])"
    using accepted_base [OF assms(1) acc(1-3)] .
  have "address AND 0x0000FFFF < 2 ^ 17" using unat_lower_half [of address] by (simp add: word_less_nat_alt)
  moreover have "(4 :: u16) < 2 ^ 9" by simp
  ultimately obtain o2 where o2: "morse_cmd53_send_cmd SDIO_WRITE SDIO_FUNCTION_2 SDIO_MODE_BYTE (address AND 0x0000FFFF) 4 (after o1 b) =
        Some (RC_SUCCESS, after o2 (after o1 b))" "drives (after o2 (after o1 b)) (0xFF # during @ [0xE5, 0xFF] @ [])"
    using accepted_cmd53 [OF o1(2) acc(4)] by (metis append_Nil2)
  obtain o3 where o3: "morse_cmd53_put_data 4 dat 0 SDIO_MODE_BYTE BLOCK_SIZE_FN2 (after o2 (after o1 b)) = Some (RC_SUCCESS, after o3 (after o2 (after o1 b)))"
    using accepted_put [OF o2(2), of 4 BLOCK_SIZE_FN2 0 dat] assms(3,4) by auto
  have nt: "next_transfer address 4 = 4"
    using next_transfer_size(1) [of 4 address] assms(5,6) by (simp add: word_unat_eq_iff)
  have "drop_bit 9 (4 :: u32) = 0" by (simp add: drop_bit_eq_div)
  then have "morse_cmd53_write SDIO_FUNCTION_2 address dat 0 4 (after o1 b) = Some (RC_SUCCESS, after o3 (after o2 (after o1 b)))"
    using o2(1) o3 by (simp add: morse_cmd53_write_def fn2_blocks)
  then have "write_all address dat 0 4 b = Some (after o3 (after o2 (after o1 b)))"
    using o1(1) nt by (subst write_all.simps) (simp add: write_all.simps [of _ _ _ 0])
  then show thesis using that by blast
qed


section \<open>Time on the bus\<close>

lemma put_data_bounded:
  assumes "off + n * sz \<le> length dat"
  shows "\<exists>rc ops. put_data_loop n dat off SDIO_MODE_BLOCK bs sz tkn rc0 b = Some (rc, after ops b) \<and>
    bus_time ops \<le> n * (sz + 207) \<and> (\<forall>a. Spi_cs a \<notin> set ops)"
  using assms
proof (induction n arbitrary: off rc0 b)
  case 0
  then show ?case by (intro exI [of _ rc0] exI [of _ "[]"]) simp
next
  case (Suc n)
  have l: "off + sz \<le> length dat" using Suc.prems by simp
  have lb: "length (region dat off sz) = sz" using l by (simp add: region_def)
  show ?case
  proof (rule put_data_step [OF l, of SDIO_MODE_BLOCK n bs tkn rc0 b])
    show "SDIO_MODE_BLOCK = SDIO_MODE_BYTE \<longrightarrow> Suc n \<le> bs_bytes bs" by simp
  next
    fix k assume "k \<le> 200" "put_data_loop (Suc n) dat off SDIO_MODE_BLOCK bs sz tkn rc0 b = Some (RC_UNSPECIFIED_ERROR, after (polls k) b)"
    then show ?case
      by (intro exI [of _ RC_UNSPECIFIED_ERROR] exI [of _ "polls k"]) (simp del: put_data_loop.simps)
  next
    fix k j let ?ops = "block_ops k j tkn (region dat off sz)"
    assume "k \<le> 200" "j \<le> 4" "put_data_loop (Suc n) dat off SDIO_MODE_BLOCK bs sz tkn rc0 b = Some (RC_INVALID_RESPONSE, after ?ops b)"
    then show ?case using lb
      by (intro exI [of _ RC_INVALID_RESPONSE] exI [of _ ?ops]) (simp add: block_ops_def del: put_data_loop.simps)
  next
    fix k j let ?ops = "block_ops k j tkn (region dat off sz)"
    assume k: "k \<le> 200" "j \<le> 4" and step: "put_data_loop (Suc n) dat off SDIO_MODE_BLOCK bs sz tkn rc0 b =
        put_data_loop (if SDIO_MODE_BLOCK = SDIO_MODE_BYTE then 0 else n) dat (off + sz) SDIO_MODE_BLOCK bs sz tkn RC_SUCCESS (after ?ops b)"
    have "off + sz + n * sz \<le> length dat" using Suc.prems by simp
    from Suc.IH [OF this, of RC_SUCCESS "after ?ops b"] obtain rc ops where
      "put_data_loop n dat (off + sz) SDIO_MODE_BLOCK bs sz tkn RC_SUCCESS (after ?ops b) = Some (rc, after ops (after ?ops b))"
      "bus_time ops \<le> n * (sz + 207)" "\<forall>a. Spi_cs a \<notin> set ops" by blast
    then show ?case using step lb k
      by (intro exI [of _ rc] exI [of _ "?ops @ ops"]) (simp add: block_ops_def del: put_data_loop.simps)
  qed
qed

text \<open>From bus \<open>b\<close> to bus \<open>b'\<close> the chip is selected, at most \<open>t\<close> bytes are clocked and it is deselected.\<close>

definition bracketed :: "spi_bus \<Rightarrow> nat \<Rightarrow> spi_bus \<Rightarrow> bool" where
  "bracketed b t b' \<longleftrightarrow> (\<exists>ops. b' = after (Spi_cs True # ops @ [Spi_cs False]) b \<and> bus_time ops \<le> t \<and> (\<forall>a. Spi_cs a \<notin> set ops))"

lemma bracketedI: "bus_time ops \<le> t \<Longrightarrow> \<forall>a. Spi_cs a \<notin> set ops \<Longrightarrow> bracketed b t (after (Spi_cs True # ops @ [Spi_cs False]) b)"
  by (auto simp: bracketed_def)

lemma send_cmd_bracketed: "\<exists>rc rsp b'. sdio_spi_send_cmd idx arg b = Some (rc, rsp, b') \<and> bracketed b 407 b'"
  using send_cmd_after [of idx arg b]
proof cases
  case (not_ready k)
  then show ?thesis using bracketedI [of "polls k" 407 b] by simp
next
  case (sent k m st rc)
  then show ?thesis using bracketedI [of "polls k @ [Spi_write (frame_of idx arg)] @ polls m" 407 b] by simp
qed

lemma get_data_bracketed:
  assumes "off + unat cnt \<le> length dat"
  shows "\<exists>rc d b'. morse_cmd53_get_data cnt dat off bs b = Some (rc, d, b') \<and>
    bracketed b (unat cnt + 202 * blocks_of bs (unat cnt)) b' \<and>
    length d = length dat \<and> take off d = take off dat \<and> drop (off + unat cnt) d = drop (off + unat cnt) dat"
proof -
  obtain rc d ops where g: "get_data_loop (unat cnt) dat off bs (after [Spi_cs True] b) = Some (rc, d, after ops (after [Spi_cs True] b))"
      "length d = length dat" "take off d = take off dat" "drop (off + unat cnt) d = drop (off + unat cnt) dat"
      "bus_time ops \<le> unat cnt + 202 * blocks_of bs (unat cnt)" "\<forall>a. Spi_cs a \<notin> set ops"
    using get_data_bounded [OF assms, of bs "after [Spi_cs True] b"] by blast
  then show ?thesis using bracketedI [OF g(5,6), of b] by (simp add: morse_cmd53_get_data_def bus_ops)
qed

lemma put_data_bracketed:
  assumes "off + unat cnt * bs_bytes bs \<le> length dat"
  shows "\<exists>rc b'. morse_cmd53_put_data cnt dat off SDIO_MODE_BLOCK bs b = Some (rc, b') \<and>
    bracketed b (unat cnt * (bs_bytes bs + 207) + 201) b'"
proof -
  define tkn where "tkn = (if cnt > 1 then SDIO_SPI_TKN_MULTI_WRITE else SDIO_SPI_TKN_READ_SINGLE_WRITE)"
  obtain rc ops where p: "put_data_loop (unat cnt) dat off SDIO_MODE_BLOCK bs (bs_bytes bs) tkn RC_UNSPECIFIED_ERROR (after [Spi_cs True] b) =
      Some (rc, after ops (after [Spi_cs True] b))" "bus_time ops \<le> unat cnt * (bs_bytes bs + 207)" "\<forall>a. Spi_cs a \<notin> set ops"
    using put_data_bounded [OF assms] by blast
  define stop where "stop = (if tkn = SDIO_SPI_TKN_MULTI_WRITE then [Spi_rw SDIO_SPI_TKN_STOP_TRANSACTION] else [])"
  obtain k ok where k: "morse_wait_ready (after (Spi_cs True # ops @ stop) b) = (ok, after (polls k) (after (Spi_cs True # ops @ stop) b))"
      "k \<le> 200" by (rule wait_ready_after)
  have "morse_cmd53_put_data cnt dat off SDIO_MODE_BLOCK bs b = Some (rc, after (Spi_cs True # (ops @ stop @ polls k) @ [Spi_cs False]) b)"
    using p(1) k(1) by (auto simp: morse_cmd53_put_data_def Let_def bus_ops stop_def simp flip: tkn_def split: if_splits)
  moreover have "bus_time (ops @ stop @ polls k) \<le> unat cnt * (bs_bytes bs + 207) + 201" using p(2) k(2) by (simp add: stop_def)
  moreover have "\<forall>a. Spi_cs a \<notin> set (ops @ stop @ polls k)" using p(3) by (simp add: stop_def)
  ultimately show ?thesis using bracketedI [of "ops @ stop @ polls k" _ b] by blast
qed

text \<open>C17: The driver never waits for ever and always lets go of the chip: whatever the transceiver does,
  a command clocks at most 407 bytes, receiving data at most 202 bytes per block beside the data and
  sending blocks at most 207 beside each block and 201 at the end, each between one assertion and one release of
  chip select; received data stay inside the region of the buffer they are meant for.\<close>

theorem sdio_bus_time_bounded:
  "(\<exists>rc rsp b'. sdio_spi_send_cmd idx arg b = Some (rc, rsp, b') \<and> bracketed b 407 b') \<and>
   (off + unat cnt \<le> length dat \<longrightarrow> (\<exists>rc d b'. morse_cmd53_get_data cnt dat off bs b = Some (rc, d, b') \<and>
     bracketed b (unat cnt + 202 * blocks_of bs (unat cnt)) b' \<and>
     length d = length dat \<and> take off d = take off dat \<and> drop (off + unat cnt) d = drop (off + unat cnt) dat)) \<and>
   (off + unat cnt * bs_bytes bs \<le> length dat \<longrightarrow> (\<exists>rc b'. morse_cmd53_put_data cnt dat off SDIO_MODE_BLOCK bs b = Some (rc, b') \<and>
     bracketed b (unat cnt * (bs_bytes bs + 207) + 201) b'))"
  using send_cmd_bracketed get_data_bracketed put_data_bracketed by blast

theorem sdio_bus_time_bounded_witness:
  "(\<exists>rc d b'. morse_cmd53_get_data 2 [0, 0, 0] 1 BLOCK_SIZE_FN1 refusing_bus = Some (rc, d, b') \<and>
      bracketed refusing_bus (2 + 202 * blocks_of BLOCK_SIZE_FN1 2) b' \<and> take 1 d = [0]) \<and>
   (\<exists>rc b'. morse_cmd53_put_data 1 (replicate 8 0) 0 SDIO_MODE_BLOCK BLOCK_SIZE_FN1 refusing_bus = Some (rc, b') \<and>
      bracketed refusing_bus 416 b')"
proof
  show "\<exists>rc d b'. morse_cmd53_get_data 2 [0, 0, 0] 1 BLOCK_SIZE_FN1 refusing_bus = Some (rc, d, b') \<and>
      bracketed refusing_bus (2 + 202 * blocks_of BLOCK_SIZE_FN1 2) b' \<and> take 1 d = [0]"
    using sdio_bus_time_bounded [of 0 0 refusing_bus 1 2 "[0, 0, 0]" BLOCK_SIZE_FN1] by auto
  show "\<exists>rc b'. morse_cmd53_put_data 1 (replicate 8 0) 0 SDIO_MODE_BLOCK BLOCK_SIZE_FN1 refusing_bus = Some (rc, b') \<and>
      bracketed refusing_bus 416 b'"
    using sdio_bus_time_bounded [of 0 0 refusing_bus 0 1 "replicate 8 0" BLOCK_SIZE_FN1] by auto
qed

end
