(* ===== verification/Porting_Tests.thy ===== *)
theory Porting_Tests
  imports Sdio_Read Osal
begin

text \<open>
  The test steps of the porting assistant, \<^verbatim>\<open>examples/porting_assistant/main/src\<close>: the runner of
  \<^verbatim>\<open>porting_assistant.c\<close>, the bus tests of \<^verbatim>\<open>test_wlan_io.c\<close> on the driver of \<open>Sdio_Spi\<close>, and the tests of
  \<^verbatim>\<open>test_os.c\<close>. \<open>None\<close> is an access outside an array, a failed assertion or a loop that does not end. The
  messages are left out. Results of the heap and the clock are arguments.
\<close>

section \<open>The runner\<close>

datatype test_result = TEST_NO_RESULT | TEST_PASSED | TEST_SKIPPED | TEST_FAILED | TEST_FAILED_NON_CRITICAL

text \<open>The values of the enumerators.\<close>

fun test_result_value :: "test_result \<Rightarrow> int" where
  "test_result_value TEST_NO_RESULT = 0"
| "test_result_value TEST_PASSED = 1"
| "test_result_value TEST_SKIPPED = 2"
| "test_result_value TEST_FAILED = 3"
| "test_result_value TEST_FAILED_NON_CRITICAL = 4"

record test_counters =
  tc_no_result :: nat
  tc_pass :: nat
  tc_fail :: nat

fun count_result :: "test_result \<Rightarrow> test_counters \<Rightarrow> test_counters" where
  "count_result TEST_NO_RESULT c = c\<lparr>tc_no_result := tc_no_result c + 1\<rparr>"
| "count_result TEST_PASSED c = c\<lparr>tc_pass := tc_pass c + 1\<rparr>"
| "count_result TEST_SKIPPED c = c"
| "count_result TEST_FAILED c = c\<lparr>tc_fail := tc_fail c + 1\<rparr>"
| "count_result TEST_FAILED_NON_CRITICAL c = c\<lparr>tc_fail := tc_fail c + 1\<rparr>"

text \<open>A step changes the state of the board and returns its result.\<close>

fun run_test_steps :: "('s \<Rightarrow> test_result \<times> 's) list \<Rightarrow> test_counters \<Rightarrow> 's \<Rightarrow> test_counters \<times> 's" where
  "run_test_steps [] ctrs s = (ctrs, s)"
| "run_test_steps (step # steps) ctrs s =
     (let (result, s) = step s; ctrs = count_result result ctrs in
      if result = TEST_FAILED then (ctrs, s) else run_test_steps steps ctrs s)"

text \<open>The numbers of the last line: steps, passed, failed, without result, skipped.\<close>

definition porting_app_main :: "('s \<Rightarrow> test_result \<times> 's) list \<Rightarrow> 's \<Rightarrow> (nat \<times> nat \<times> nat \<times> nat \<times> nat) \<times> 's" where
  "porting_app_main steps s =
     (let (c, s) = run_test_steps steps \<lparr>tc_no_result = 0, tc_pass = 0, tc_fail = 0\<rparr> s; n = length steps in
      ((n, tc_pass c, tc_fail c, tc_no_result c, n - tc_no_result c - tc_pass c - tc_fail c), s))"

section \<open>Tests of the bus\<close>

definition MM6108_REG_CHIP_ID :: u32 where "MM6108_REG_CHIP_ID = 0x10054d20"
definition MM6108_BENCHMARK_ADDR_START :: u32 where "MM6108_BENCHMARK_ADDR_START = 0x80100000"
definition BULK_RW_PACKET_LEN_BYTES :: u32 where "BULK_RW_PACKET_LEN_BYTES = 1496"
definition BENCHMARK_WAIT_MS :: u32 where "BENCHMARK_WAIT_MS = 2500"

definition valid_chip_ids :: "u32 list" where "valid_chip_ids = [0x206, 0x306, 0x406]"

fun chip_id_in :: "u32 list \<Rightarrow> u32 \<Rightarrow> bool" where
  "chip_id_in [] chip_id = False"
| "chip_id_in (v # vs) chip_id = (if chip_id = v then True else chip_id_in vs chip_id)"

definition valid_chip_id :: "u32 \<Rightarrow> bool" where
  "valid_chip_id chip_id = chip_id_in valid_chip_ids chip_id"

definition test_step_device_ready :: "spi_bus \<Rightarrow> test_result \<times> spi_bus" where
  "test_step_device_ready b =
     (let b = spi_cs True b;
          (result, b) = receive_until (\<lambda>r. r = 0xff) 255 0 b;
          b = spi_cs False b in
      if result = 0xff then (TEST_PASSED, b) else (TEST_FAILED, b))"

text \<open>Up to three attempts, with a reset command after each that failed.\<close>

fun set_spi_mode_loop :: "nat \<Rightarrow> spi_bus \<Rightarrow> (test_result \<times> spi_bus) option" where
  "set_spi_mode_loop 0 b = Some (TEST_FAILED, b)"
| "set_spi_mode_loop (Suc n) b = do {
     (ret, _, b) \<leftarrow> sdio_spi_send_cmd 63 0 b;
     if ret = RC_SUCCESS then Some (TEST_PASSED, b)
     else do {
       (_, b) \<leftarrow> send_cmd_null 0 0 b;
       set_spi_mode_loop n b
     }
   }"

definition test_step_set_spi_mode :: "spi_bus \<Rightarrow> (test_result \<times> spi_bus) option" where
  "test_step_set_spi_mode b = set_spi_mode_loop 3 b"

text \<open>\<open>dat\<close> is what the variable for the chip id holds, at first anything.\<close>

fun read_chip_id_loop :: "nat \<Rightarrow> sdio_spi_rc \<Rightarrow> u8 list \<Rightarrow> u32 \<Rightarrow> spi_bus \<Rightarrow> (sdio_spi_rc \<times> u32 \<times> spi_bus) option" where
  "read_chip_id_loop 0 ret rd dat b = Some (ret, dat, b)"
| "read_chip_id_loop (Suc n) ret rd dat b = do {
     (ret, v, b) \<leftarrow> sdio_spi_read_le32 MM6108_REG_CHIP_ID rd (Some dat) b;
     dat \<leftarrow> v;
     if ret = RC_SUCCESS then Some (ret, dat, b) else read_chip_id_loop n ret rd dat b
   }"

definition test_step_read_chip_id :: "u8 list \<Rightarrow> u32 \<Rightarrow> spi_bus \<Rightarrow> (test_result \<times> spi_bus) option" where
  "test_step_read_chip_id rd dat b = do {
     (ret, dat, b) \<leftarrow> read_chip_id_loop 3 RC_UNSPECIFIED_ERROR rd dat b;
     Some (if ret = RC_SUCCESS \<and> valid_chip_id dat then TEST_PASSED else TEST_FAILED, b)
   }"

text \<open>The function returns \<open>bool\<close>; after an error it returns the enumerator \<open>TEST_FAILED\<close>, converted.\<close>

definition process_sdio_spi_multi_byte_return :: "sdio_spi_rc \<Rightarrow> bool" where
  "process_sdio_spi_multi_byte_return ret =
     (if ret = RC_SUCCESS then True else test_result_value TEST_FAILED \<noteq> 0)"

fun populate_loop :: "u8 list \<Rightarrow> nat \<Rightarrow> u8 \<Rightarrow> u8 list option" where
  "populate_loop dat 0 value = Some dat"
| "populate_loop dat (Suc n) value = do { dat \<leftarrow> store dat n value; populate_loop dat n (value + 1) }"

definition populate_buffer :: "u8 list \<Rightarrow> u32 \<Rightarrow> u8 list option" where
  "populate_buffer dat len = populate_loop dat (unat len) 0"

fun valid_loop :: "u8 list \<Rightarrow> nat \<Rightarrow> u8 \<Rightarrow> bool option" where
  "valid_loop dat 0 value = Some True"
| "valid_loop dat (Suc n) value = do {
     d \<leftarrow> load dat n;
     if d \<noteq> value then Some False else valid_loop dat n (value + 1)
   }"

definition valid_buffer :: "u8 list \<Rightarrow> u32 \<Rightarrow> bool option" where
  "valid_buffer dat len = valid_loop dat (unat len) 0"

text \<open>The two buffers as the heap hands them out, \<open>None\<close> when it has none.\<close>

definition test_step_bulk_write_read ::
  "u8 list option \<Rightarrow> u8 list option \<Rightarrow> spi_bus \<Rightarrow> (test_result \<times> spi_bus) option" where
  "test_step_bulk_write_read tx_mem rx_mem b =
     (case (tx_mem, rx_mem) of
        (Some tx_data, Some rx_data) \<Rightarrow> do {
          tx_data \<leftarrow> populate_buffer tx_data BULK_RW_PACKET_LEN_BYTES;
          (ret, b) \<leftarrow> sdio_spi_write_multi_byte MM6108_BENCHMARK_ADDR_START tx_data BULK_RW_PACKET_LEN_BYTES b;
          if \<not> process_sdio_spi_multi_byte_return ret then Some (TEST_FAILED, b)
          else do {
            (ret, rx_data, b) \<leftarrow> sdio_spi_read_multi_byte MM6108_BENCHMARK_ADDR_START rx_data BULK_RW_PACKET_LEN_BYTES b;
            if \<not> process_sdio_spi_multi_byte_return ret then Some (TEST_FAILED, b)
            else do {
              ok \<leftarrow> valid_buffer rx_data BULK_RW_PACKET_LEN_BYTES;
              Some (if ok then TEST_PASSED else TEST_FAILED, b)
            }
          }
        }
      | _ \<Rightarrow> Some (TEST_FAILED, b))"

text \<open>The throughput test: \<open>clk k\<close> is the clock at its \<open>k\<close>th reading. The loop returns the number of transactions and the
  number of readings, or the failure.\<close>

partial_function (option) tput_loop ::
  "(nat \<Rightarrow> u32) \<Rightarrow> nat \<Rightarrow> u32 \<Rightarrow> u32 \<Rightarrow> u8 list \<Rightarrow> u8 list \<Rightarrow> spi_bus \<Rightarrow> (bool \<times> nat \<times> u32 \<times> u8 list \<times> spi_bus) option" where
  "tput_loop clk k end_time transaction_count tx_data rx_data b =
     (if \<not> mmosal_time_le (clk k) end_time then Some (True, k + 1, transaction_count, rx_data, b)
      else do {
        (ret, b) \<leftarrow> sdio_spi_write_multi_byte MM6108_BENCHMARK_ADDR_START tx_data BULK_RW_PACKET_LEN_BYTES b;
        if \<not> process_sdio_spi_multi_byte_return ret then Some (False, k + 1, transaction_count, rx_data, b)
        else do {
          (ret, rx_data, b) \<leftarrow> sdio_spi_read_multi_byte MM6108_BENCHMARK_ADDR_START rx_data BULK_RW_PACKET_LEN_BYTES b;
          if \<not> process_sdio_spi_multi_byte_return ret then Some (False, k + 1, transaction_count, rx_data, b)
          else tput_loop clk (k + 1) end_time (transaction_count + 1) tx_data rx_data b
        }
      })"

text \<open>The result is the verdict with, when it is printed, the time and the throughput in kbit/s; a division by zero is
  \<open>None\<close>.\<close>

definition test_step_raw_tput ::
  "(nat \<Rightarrow> u32) \<Rightarrow> u8 list option \<Rightarrow> u8 list option \<Rightarrow> spi_bus \<Rightarrow> (test_result \<times> (u32 \<times> u32) option \<times> spi_bus) option" where
  "test_step_raw_tput clk tx_mem rx_mem b =
     (case (tx_mem, rx_mem) of
        (Some tx_data, Some rx_data) \<Rightarrow> do {
          tx_data \<leftarrow> populate_buffer tx_data BULK_RW_PACKET_LEN_BYTES;
          let start_time = clk 0;
          (done, k, transaction_count, rx_data, b) \<leftarrow>
            tput_loop clk 1 (start_time + BENCHMARK_WAIT_MS) 0 tx_data rx_data b;
          if \<not> done then Some (TEST_FAILED, None, b)
          else do {
            let end_time = clk k;
            ok \<leftarrow> valid_buffer rx_data BULK_RW_PACKET_LEN_BYTES;
            if \<not> ok then Some (TEST_FAILED, None, b)
            else let time_taken_ms = end_time - start_time in
              if time_taken_ms = 0 then None
              else Some (TEST_PASSED,
                Some (time_taken_ms, (transaction_count * 2 * BULK_RW_PACKET_LEN_BYTES * 8) div time_taken_ms), b)
          }
        }
      | _ \<Rightarrow> Some (TEST_FAILED, None, b))"

section \<open>Tests of the operating system\<close>

definition test_step_os_malloc :: "u8 list option \<Rightarrow> test_result" where
  "test_step_os_malloc buf = (if buf = None then TEST_FAILED else TEST_PASSED)"

fun all_c0 :: "u8 list \<Rightarrow> nat \<Rightarrow> nat \<Rightarrow> bool option" where
  "all_c0 buf ii 0 = Some True"
| "all_c0 buf ii (Suc n) = do { d \<leftarrow> load buf ii; if d \<noteq> 0xc0 then Some False else all_c0 buf (Suc ii) n }"

text \<open>\<open>realloc\<close> gets the contents of the block and returns the new block. The number is the blocks left allocated.\<close>

definition test_step_os_realloc :: "u8 list option \<Rightarrow> (u8 list \<Rightarrow> u8 list option) \<Rightarrow> (test_result \<times> nat) option" where
  "test_step_os_realloc buf realloc =
     (case buf of
        None \<Rightarrow> Some (TEST_FAILED_NON_CRITICAL, 0)
      | Some buf \<Rightarrow> do {
          buf \<leftarrow> blit buf 0 (replicate 100 0xc0);
          case realloc buf of
            None \<Rightarrow> Some (TEST_FAILED_NON_CRITICAL, 1)
          | Some buf1 \<Rightarrow> do {
              ok \<leftarrow> all_c0 buf1 0 100;
              Some (if ok then (TEST_PASSED, 0) else (TEST_FAILED_NON_CRITICAL, 1))
            }
        })"

definition test_step_os_time :: "u32 \<Rightarrow> u32 \<Rightarrow> test_result" where
  "test_step_os_time start_time end_time =
     (let delta = sint (end_time - start_time) in
      if delta < 49 \<or> delta > 51 then TEST_FAILED else TEST_PASSED)"

datatype task_state = TASK_NOT_STARTED | TASK_STARTED | TASK_WAITING_FOR_NOTIFICATION | TASK_TERMINATING
| TASK_ERROR_WAITING_FOR_NOTIFICATION | TASK_ERROR_GET_ACTIVE_INVALID

text \<open>The values the new task gives \<open>task_state\<close>, up to where it gets: \<open>active_ok\<close> is the comparison of the handles, \<open>notified\<close> the
  result of the wait, \<open>None\<close> while it waits.\<close>

definition new_task_main :: "bool \<Rightarrow> bool option \<Rightarrow> task_state list" where
  "new_task_main active_ok notified =
     TASK_STARTED #
     (if \<not> active_ok then [TASK_ERROR_GET_ACTIVE_INVALID]
      else TASK_WAITING_FOR_NOTIFICATION #
        (case notified of None \<Rightarrow> [] | Some ok \<Rightarrow> if ok then [TASK_TERMINATING] else [TASK_ERROR_WAITING_FOR_NOTIFICATION]))"

text \<open>The three values of \<open>task_state\<close> that the creator reads.\<close>

definition test_step_os_task_creation :: "bool \<Rightarrow> task_state \<Rightarrow> task_state \<Rightarrow> task_state \<Rightarrow> test_result" where
  "test_step_os_task_creation created s1 s2 s3 =
     (if \<not> created then TEST_FAILED_NON_CRITICAL
      else if s1 \<noteq> TASK_STARTED then TEST_FAILED_NON_CRITICAL
      else if s2 \<noteq> TASK_WAITING_FOR_NOTIFICATION then TEST_FAILED_NON_CRITICAL
      else if s3 = TASK_TERMINATING then TEST_PASSED else TEST_FAILED_NON_CRITICAL)"

section \<open>The runner counts every step\<close>

text \<open>The results of the steps that run: up to and including the first critical failure.\<close>

fun results_of :: "('s \<Rightarrow> test_result \<times> 's) list \<Rightarrow> 's \<Rightarrow> test_result list" where
  "results_of [] s = []"
| "results_of (step # steps) s =
     (case step s of (r, s') \<Rightarrow> r # (if r = TEST_FAILED then [] else results_of steps s'))"

lemma length_results: "length (results_of steps s) \<le> length steps"
  by (induction steps arbitrary: s) (auto split: prod.splits)

lemma run_counts:
  "fst (run_test_steps steps c s) =
    \<lparr>tc_no_result = tc_no_result c + count_list (results_of steps s) TEST_NO_RESULT,
     tc_pass = tc_pass c + count_list (results_of steps s) TEST_PASSED,
     tc_fail = tc_fail c + count_list (results_of steps s) TEST_FAILED + count_list (results_of steps s) TEST_FAILED_NON_CRITICAL\<rparr>"
proof (induction steps arbitrary: c s)
  case (Cons step steps)
  obtain r s' where r: "step s = (r, s')" by force
  show ?case using Cons.IH [of "count_result r c" s'] r by (cases r) (simp_all add: Let_def)
qed simp

lemma count_results:
  "count_list rs TEST_NO_RESULT + count_list rs TEST_PASSED + count_list rs TEST_SKIPPED + count_list rs TEST_FAILED +
     count_list rs TEST_FAILED_NON_CRITICAL = length rs"
proof (induction rs)
  case (Cons r rs)
  then show ?case by (cases r) simp_all
qed simp

text \<open>The last line adds up: passed, failed, without result and skipped are all the steps, and the steps that a
  critical failure kept from running are among the skipped.\<close>

lemma porting_counts:
  "fst (porting_app_main steps s) =
    (let rs = results_of steps s in
     (length steps, count_list rs TEST_PASSED, count_list rs TEST_FAILED + count_list rs TEST_FAILED_NON_CRITICAL,
      count_list rs TEST_NO_RESULT, count_list rs TEST_SKIPPED + (length steps - length rs)))"
  using run_counts [of steps "\<lparr>tc_no_result = 0, tc_pass = 0, tc_fail = 0\<rparr>" s]
    count_results [of "results_of steps s"] length_results [of steps s]
  by (simp add: porting_app_main_def Let_def case_prod_unfold)

section \<open>The test pattern\<close>

definition pattern :: "nat \<Rightarrow> u8 list" where
  "pattern n = map (\<lambda>i. of_nat (n - 1 - i)) [0..<n]"

lemma populate_loop_eq:
  "n \<le> length dat \<Longrightarrow> populate_loop dat n v = Some (map (\<lambda>i. v + of_nat (n - 1 - i)) [0..<n] @ drop n dat)"
proof (induction n arbitrary: dat v)
  case (Suc n)
  have "(v + 1) + of_nat (n - 1 - i) = v + (of_nat (n - i) :: u8)" if "i < n" for i
  proof -
    have "n - i = Suc (n - 1 - i)" using that by simp
    then show ?thesis by simp
  qed
  then show ?case using Suc.prems Suc.IH [of "dat[n := v]" "v + 1"]
    by (simp add: store_def Cons_nth_drop_Suc [symmetric] cong: map_cong)
qed simp

lemma valid_loop_eq:
  "n \<le> length dat \<Longrightarrow> valid_loop dat n v = Some (\<forall>i < n. dat ! i = v + of_nat (n - 1 - i))"
proof (induction n arbitrary: v)
  case (Suc n)
  have e: "(v + 1) + of_nat (n - 1 - i) = v + (of_nat (n - i) :: u8)" if "i < n" for i
  proof -
    have "n - i = Suc (n - 1 - i)" using that by simp
    then show ?thesis by simp
  qed
  have "(\<forall>i < Suc n. dat ! i = v + of_nat (Suc n - 1 - i)) \<longleftrightarrow>
      dat ! n = v \<and> (\<forall>i < n. dat ! i = (v + 1) + of_nat (n - 1 - i))"
    using e by (auto simp: less_Suc_eq)
  then show ?case using Suc.prems Suc.IH [of "v + 1"] by (simp add: load_def)
qed simp

lemma populate_pattern: "length dat = unat n \<Longrightarrow> populate_buffer dat n = Some (pattern (unat n))"
  by (simp add: populate_buffer_def populate_loop_eq pattern_def)

lemma valid_pattern: "length dat = unat n \<Longrightarrow> valid_buffer dat n = Some (dat = pattern (unat n))"
  by (simp add: valid_buffer_def valid_loop_eq pattern_def list_eq_iff_nth_eq)

section \<open>A dead bus\<close>

definition never_ready :: "spi_bus \<Rightarrow> bool" where
  "never_ready b \<longleftrightarrow> (\<forall>i. sb_miso b i \<noteq> 0xFF)"

lemma receive_until_never: "never_ready b \<Longrightarrow> n > 0 \<Longrightarrow>
    \<exists>r b'. receive_until (\<lambda>r. r = 0xff) n r0 b = (r, b') \<and> r \<noteq> 0xff \<and> never_ready b'"
proof (induction n arbitrary: r0 b)
  case (Suc n)
  let ?b = "snd (morse_receive_spi b)"
  have b: "fst (morse_receive_spi b) \<noteq> 0xff" "never_ready ?b"
    using Suc.prems by (simp_all add: morse_receive_spi_def spi_rw_def never_ready_def)
  show ?case
  proof (cases n)
    case 0
    then show ?thesis using b by (cases "morse_receive_spi b") (simp add: Let_def)
  next
    case (Suc m)
    then show ?thesis using Suc.IH [OF b(2)] b(1) by (simp add: case_prod_unfold Let_def)
  qed
qed simp

lemma dead_cmd:
  assumes "never_ready b" "idx \<noteq> SDIO_CMD63"
  shows "\<exists>b'. send_cmd_null idx arg b = Some (RC_DEVICE_NOT_READY, b') \<and> never_ready b'"
proof -
  have "never_ready (spi_cs True b)" using assms(1) by (simp add: never_ready_def spi_cs_def)
  from receive_until_never [OF this, of MAX_BUS_ATTEMPTS 0] show ?thesis
    using assms(2) by (auto simp: send_cmd_null_def sdio_spi_send_cmd_def morse_wait_ready_def Let_def MAX_BUS_ATTEMPTS_def
        never_ready_def spi_cs_def)
qed

lemma cmd52_not_63: "(52 :: u8) \<noteq> 63"
  by simp

lemma dead_base_set:
  assumes "never_ready b"
  shows "\<exists>b'. morse_address_base_set MM6108_BENCHMARK_ADDR_START MORSE_CONFIG_ACCESS_4BYTE f b =
    Some (RC_DEVICE_NOT_READY, b') \<and> never_ready b'"
proof -
  have "MORSE_REG_ADDRESS_WINDOW_0 \<le> SDIO_ADDRESS_MAX"
    by (simp add: MORSE_REG_ADDRESS_WINDOW_0_def MORSE_REG_ADDRESS_BASE_def SDIO_ADDRESS_MAX_def push_bit_eq_mult)
  then obtain b' where "morse_cmd52_write MORSE_REG_ADDRESS_WINDOW_0
      (ucast (drop_bit 16 (MM6108_BENCHMARK_ADDR_START AND 0xFFFF0000))) f b = Some (RC_DEVICE_NOT_READY, b')" "never_ready b'"
    using dead_cmd [OF assms, of SDIO_CMD52] unfolding morse_cmd52_write_def
    by (metis SDIO_CMD52_def SDIO_CMD63_def cmd52_not_63)
  then show ?thesis by (simp only: morse_address_base_set_def Let_def) simp
qed

lemma dead_transfers:
  assumes "never_ready b"
  shows "\<exists>b'. sdio_spi_write_multi_byte MM6108_BENCHMARK_ADDR_START tx BULK_RW_PACKET_LEN_BYTES b =
      Some (RC_DEVICE_NOT_READY, b') \<and> never_ready b'"
    and "\<exists>b'. sdio_spi_read_multi_byte MM6108_BENCHMARK_ADDR_START rx BULK_RW_PACKET_LEN_BYTES b =
      Some (RC_DEVICE_NOT_READY, rx, b') \<and> never_ready b'"
proof -
  obtain b' where b': "morse_address_base_set MM6108_BENCHMARK_ADDR_START MORSE_CONFIG_ACCESS_4BYTE SDIO_FUNCTION_2 b =
      Some (RC_DEVICE_NOT_READY, b')" "never_ready b'"
    using dead_base_set [OF assms] by blast
  have "write_multi_loop MM6108_BENCHMARK_ADDR_START tx 0 1496 RC_unset b = Some (RC_DEVICE_NOT_READY, b')"
    "read_multi_loop MM6108_BENCHMARK_ADDR_START rx 0 1496 RC_unset b = Some (RC_DEVICE_NOT_READY, rx, b')"
    by (subst write_multi_loop.simps, simp add: b'(1)) (subst read_multi_loop.simps, simp add: b'(1))
  then show "\<exists>b'. sdio_spi_write_multi_byte MM6108_BENCHMARK_ADDR_START tx BULK_RW_PACKET_LEN_BYTES b =
      Some (RC_DEVICE_NOT_READY, b') \<and> never_ready b'"
    "\<exists>b'. sdio_spi_read_multi_byte MM6108_BENCHMARK_ADDR_START rx BULK_RW_PACKET_LEN_BYTES b =
      Some (RC_DEVICE_NOT_READY, rx, b') \<and> never_ready b'"
    using b'(2) by (simp_all add: sdio_spi_write_multi_byte_def sdio_spi_read_multi_byte_def BULK_RW_PACKET_LEN_BYTES_def)
qed

lemma errors_taken_for_success: "process_sdio_spi_multi_byte_return rc"
  by (simp add: process_sdio_spi_multi_byte_return_def)

lemma dead_tput_loop:
  assumes "never_ready b" "\<forall>j < m. mmosal_time_le (clk (k + j)) e" "\<not> mmosal_time_le (clk (k + m)) e"
  shows "\<exists>b'. tput_loop clk k e c tx rx b = Some (True, k + m + 1, c + of_nat m, rx, b')"
  using assms
proof (induction m arbitrary: k c b)
  case 0
  then show ?case by (subst tput_loop.simps) simp
next
  case (Suc m)
  obtain b1 where b1: "sdio_spi_write_multi_byte MM6108_BENCHMARK_ADDR_START tx BULK_RW_PACKET_LEN_BYTES b =
      Some (RC_DEVICE_NOT_READY, b1)" "never_ready b1"
    using dead_transfers(1) [OF Suc.prems(1)] by blast
  obtain b2 where b2: "sdio_spi_read_multi_byte MM6108_BENCHMARK_ADDR_START rx BULK_RW_PACKET_LEN_BYTES b1 =
      Some (RC_DEVICE_NOT_READY, rx, b2)" "never_ready b2"
    using dead_transfers(2) [OF b1(2)] by blast
  have c: "\<forall>j < m. mmosal_time_le (clk (k + 1 + j)) e" "\<not> mmosal_time_le (clk (k + 1 + m)) e" "mmosal_time_le (clk k) e"
    using Suc.prems(2,3) by (force, simp) (use Suc.prems(2) in force)
  show ?case using Suc.IH [OF b2(2) c(1,2), of "c + 1"] c(3) b1(1) b2(1)
    by (subst tput_loop.simps) (simp add: errors_taken_for_success add_ac)
qed

text \<open>The error codes of the bulk transfers are lost: on a bus where the chip is never ready both the
  write/read test and the throughput test pass when the receive buffer happens to hold the test pattern, as the
  block that an earlier test has freed does, and every failed transfer is counted in the throughput.\<close>

theorem bulk_tests_pass_on_dead_bus:
  assumes "never_ready b" "length tx = 1496" "rx = pattern 1496"
    and "0 < m" "\<forall>j. 1 \<le> j \<and> j \<le> m \<longrightarrow> mmosal_time_le (clk j) (clk 0 + 2500)" "\<not> mmosal_time_le (clk (m + 1)) (clk 0 + 2500)"
    and "clk (m + 2) \<noteq> clk 0"
  shows "(\<exists>b'. test_step_bulk_write_read (Some tx) (Some rx) b = Some (TEST_PASSED, b')) \<and>
    (\<exists>b'. test_step_raw_tput clk (Some tx) (Some rx) b =
      Some (TEST_PASSED, Some (clk (m + 2) - clk 0, (of_nat m * 2 * 1496 * 8) div (clk (m + 2) - clk 0)), b'))"
proof
  have tx: "populate_buffer tx BULK_RW_PACKET_LEN_BYTES = Some (pattern 1496)"
    using populate_pattern [of tx BULK_RW_PACKET_LEN_BYTES] assms(2) by (simp add: BULK_RW_PACKET_LEN_BYTES_def)
  have "length rx = 1496" using assms(3) by (simp add: pattern_def)
  then have rx: "valid_buffer rx BULK_RW_PACKET_LEN_BYTES = Some True"
    using valid_pattern [of rx BULK_RW_PACKET_LEN_BYTES] assms(3) by (simp add: BULK_RW_PACKET_LEN_BYTES_def)
  obtain b1 where b1: "sdio_spi_write_multi_byte MM6108_BENCHMARK_ADDR_START (pattern 1496) BULK_RW_PACKET_LEN_BYTES b =
      Some (RC_DEVICE_NOT_READY, b1)" "never_ready b1"
    using dead_transfers(1) [OF assms(1)] by blast
  obtain b2 where b2: "sdio_spi_read_multi_byte MM6108_BENCHMARK_ADDR_START rx BULK_RW_PACKET_LEN_BYTES b1 =
      Some (RC_DEVICE_NOT_READY, rx, b2)" using dead_transfers(2) [OF b1(2)] by blast
  show "\<exists>b'. test_step_bulk_write_read (Some tx) (Some rx) b = Some (TEST_PASSED, b')"
    using tx rx b1 b2 by (simp add: test_step_bulk_write_read_def errors_taken_for_success)
  have "\<forall>j < m. mmosal_time_le (clk (1 + j)) (clk 0 + 2500)" "\<not> mmosal_time_le (clk (1 + m)) (clk 0 + 2500)"
    using assms(5,6) by simp_all
  from dead_tput_loop [OF assms(1) this, of 0 "pattern 1496" rx] obtain b3 where
    "tput_loop clk 1 (clk 0 + 2500) 0 (pattern 1496) rx b = Some (True, m + 2, of_nat m, rx, b3)" by auto
  then show "\<exists>b'. test_step_raw_tput clk (Some tx) (Some rx) b =
      Some (TEST_PASSED, Some (clk (m + 2) - clk 0, (of_nat m * 2 * 1496 * 8) div (clk (m + 2) - clk 0)), b')"
    using tx rx assms(7)
    by (simp add: test_step_raw_tput_def BENCHMARK_WAIT_MS_def BULK_RW_PACKET_LEN_BYTES_def Let_def)
qed

theorem bulk_tests_pass_on_dead_bus_witness:
  "let b = \<lparr>sb_miso = (\<lambda>_. 0), sb_pos = 0, sb_log = []\<rparr>; clk = (\<lambda>k. if k = 0 then 0 else if k = 1 then 100 else if k = 2 then 2600 else 2601) in
   (\<exists>b'. test_step_bulk_write_read (Some (replicate 1496 0)) (Some (pattern 1496)) b = Some (TEST_PASSED, b')) \<and>
   (\<exists>b'. test_step_raw_tput clk (Some (replicate 1496 0)) (Some (pattern 1496)) b = Some (TEST_PASSED, Some (2601, 9), b'))"
proof -
  let ?b = "\<lparr>sb_miso = (\<lambda>_. 0), sb_pos = 0, sb_log = []\<rparr>"
  let ?clk = "\<lambda>k :: nat. if k = 0 then 0 else if k = 1 then 100 else if k = 2 then 2600 else 2601 :: u32"
  have h: "never_ready ?b" "0 < (1 :: nat)" "?clk (1 + 2) \<noteq> ?clk 0" by (simp_all add: never_ready_def)
  have c: "\<forall>j. 1 \<le> j \<and> j \<le> 1 \<longrightarrow> mmosal_time_le (?clk j) (?clk 0 + 2500)"
    "\<not> mmosal_time_le (?clk (1 + 1)) (?clk 0 + 2500)" by (auto simp: mmosal_time_le_def)
  have d: "?clk (1 + 2) - ?clk 0 = 2601" "of_nat 1 * 2 * 1496 * 8 div 2601 = (9 :: u32)" by simp_all
  show ?thesis
    using bulk_tests_pass_on_dead_bus [OF h(1) length_replicate [of 1496 0] refl h(2) c h(3), unfolded d]
    unfolding Let_def .
qed

section \<open>Further steps\<close>

text \<open>The chip is taken for ready exactly when one of the first 255 bytes is 0xFF.\<close>

lemma receive_until_iff:
  "fst (receive_until (\<lambda>r. r = v) n r0 b) = v \<longleftrightarrow> (n = 0 \<and> r0 = v) \<or> (\<exists>i < n. sb_miso b (sb_pos b + i) = v)"
proof (induction n arbitrary: r0 b)
  case (Suc n)
  let ?b = "b\<lparr>sb_pos := sb_pos b + 1, sb_log := sb_log b @ [Spi_rw 0xff]\<rparr>"
  have "(\<exists>i < Suc n. sb_miso b (sb_pos b + i) = v) \<longleftrightarrow>
      sb_miso b (sb_pos b) = v \<or> (\<exists>i < n. sb_miso b (Suc (sb_pos b + i)) = v)"
    by (auto simp: less_Suc_eq_0_disj)
  then show ?case using Suc.IH [of "sb_miso b (sb_pos b)" ?b]
    by (auto simp: morse_receive_spi_def spi_rw_def Let_def)
qed simp

lemma device_ready_iff:
  "fst (test_step_device_ready b) = TEST_PASSED \<longleftrightarrow> (\<exists>i < 255. sb_miso b (sb_pos b + i) = 0xff)"
  using receive_until_iff [of "0xff" 255 0 "spi_cs True b"]
  by (simp add: test_step_device_ready_def Let_def case_prod_unfold spi_cs_def)

text \<open>The clock test measures across the wrap of the clock.\<close>

lemma os_time_test:
  assumes "d < 2 ^ 31"
  shows "test_step_os_time t (t + of_nat d) = TEST_PASSED \<longleftrightarrow> 49 \<le> d \<and> d \<le> 51"
proof -
  have "sint (of_nat d :: u32) = int d" using assms by (simp add: signed_of_nat signed_take_bit_int_eq_self)
  then show ?thesis by (auto simp: test_step_os_time_def Let_def)
qed

text \<open>The task test passes exactly on the schedule it expects, and a reallocation that fails leaves the block allocated.\<close>

lemma task_test_iff:
  "test_step_os_task_creation True s1 s2 s3 = TEST_PASSED \<longleftrightarrow> [s1, s2, s3] = new_task_main True (Some True)"
  by (auto simp: test_step_os_task_creation_def new_task_main_def)

lemma realloc_test_leaks:
  assumes "length m = 100" "realloc (replicate 100 0xc0) = None"
  shows "test_step_os_realloc (Some m) realloc = Some (TEST_FAILED_NON_CRITICAL, 1)"
  using assms by (simp add: test_step_os_realloc_def blit_def)

end
