(* ===== verification/Scan.thy ===== *)
theory Scan
  imports Ie_Parser Netif Load_Config
begin

text \<open>
  The scan application, \<^verbatim>\<open>examples/scan/main/src/scan.c\<close>: its own parser of the RSN element, what it
  prints for each probe response, and its start. \<open>None\<close> is a read or write outside an array. The
  parser is compared with the one of \<^verbatim>\<open>mmutils_wlan.c\<close> (\<open>Ie_Parser\<close>), whose record of results it
  shares. A received pointer is the list of bytes from there to the end of the frame's memory.
\<close>

section \<open>Parser\<close>

definition AKM_SUITE_NONE :: u32 where "AKM_SUITE_NONE = 0"
definition AKM_SUITE_PSK :: u32 where "AKM_SUITE_PSK = 0x506f9a02"
definition AKM_SUITE_SAE :: u32 where "AKM_SUITE_SAE = 0x000fac08"
definition AKM_SUITE_OWE :: u32 where "AKM_SUITE_OWE = 0x000fac12"

definition akm_suite_to_string :: "u32 \<Rightarrow> string" where
  "akm_suite_to_string akm_suite_oui =
     (if akm_suite_oui = AKM_SUITE_NONE then ''None''
      else if akm_suite_oui = AKM_SUITE_PSK then ''PSK''
      else if akm_suite_oui = AKM_SUITE_SAE then ''SAE''
      else if akm_suite_oui = AKM_SUITE_OWE then ''OWE''
      else ''Other'')"

type_synonym rsn_information = mm_rsn_information

definition RSN_INFORMATION_IE_TYPE :: u8 where "RSN_INFORMATION_IE_TYPE = 48"

text \<open>From the count of AKM suites on, and from the version on. \<open>offset\<close> and \<open>len\<close> are the
  variables \<open>offset\<close> and \<open>length\<close> of the code, the latter a byte.\<close>

definition parse_akm_suites :: "u8 list \<Rightarrow> nat \<Rightarrow> u8 \<Rightarrow> rsn_information \<Rightarrow> (int \<times> rsn_information) option" where
  "parse_akm_suites ies offset len out = do {
     num_akm_suites \<leftarrow> load_le16 ies offset;
     let offset = offset + 2;
     let len = len - 2;
     let out = out\<lparr>rsn_num_akm_suites := (if num_akm_suites > 2 then 2 else num_akm_suites)\<rparr>;
     if int (unat len) < 4 * int (unat num_akm_suites) + 2 then Some (- 1, out)
     else do {
       (akms, offset, len) \<leftarrow>
         suites_loop ies (unat (rsn_num_akm_suites out)) (unat num_akm_suites) 0 (rsn_akm_suites out) offset len;
       caps \<leftarrow> load_le16 ies offset;
       Some (1, out\<lparr>rsn_akm_suites := akms, rsn_capabilities := caps\<rparr>)
     }
   }"

definition parse_rsn_element :: "u8 list \<Rightarrow> nat \<Rightarrow> nat \<Rightarrow> u8 \<Rightarrow> (int \<times> rsn_information) option" where
  "parse_rsn_element ies ies_len offset len =
     (if offset + unat len > ies_len then Some (- 1, rsn_zero)
      else if len < 8 then Some (- 1, rsn_zero)
      else do {
        version \<leftarrow> load_le16 ies offset;
        let offset = offset + 2;
        let len = len - 2;
        grp \<leftarrow> load_be32 ies offset;
        let offset = offset + 4;
        let len = len - 4;
        num_pairwise \<leftarrow> load_le16 ies offset;
        let offset = offset + 2;
        let len = len - 2;
        let out = rsn_zero\<lparr>rsn_version := version, rsn_group_cipher_suite := grp,
          rsn_num_pairwise_cipher_suites := (if num_pairwise > 2 then 2 else num_pairwise)\<rparr>;
        if int (unat len) < 4 * int (unat num_pairwise) + 2 then Some (- 1, out)
        else do {
          (pws, offset, len) \<leftarrow> suites_loop ies (unat (rsn_num_pairwise_cipher_suites out)) (unat num_pairwise) 0
            (rsn_pairwise_cipher_suites out) offset len;
          parse_akm_suites ies offset len (out\<lparr>rsn_pairwise_cipher_suites := pws\<rparr>)
        }
      })"

text \<open>The loop over the elements. \<open>ies_len\<close> is a 16-bit number in the caller, so the offset stays far
  below the range of \<open>size_t\<close>. Only the first of the two bytes it reads is checked against it.\<close>

function parse_rsn_loop :: "u8 list \<Rightarrow> nat \<Rightarrow> nat \<Rightarrow> (int \<times> rsn_information) option" where
  "parse_rsn_loop ies ies_len offset =
     (if offset < ies_len then do {
        ty \<leftarrow> load ies offset;
        len \<leftarrow> load ies (offset + 1);
        if ty = RSN_INFORMATION_IE_TYPE then parse_rsn_element ies ies_len (offset + 2) len
        else parse_rsn_loop ies ies_len (offset + 2 + unat len)
      }
      else Some (0, rsn_zero))"
  by pat_completeness auto
termination by (relation "measure (\<lambda>(ies, ies_len, offset). ies_len - offset)") auto

declare parse_rsn_loop.simps [simp del]

definition parse_rsn_information :: "u8 list \<Rightarrow> nat \<Rightarrow> (int \<times> rsn_information) option" where
  "parse_rsn_information ies ies_len = parse_rsn_loop ies ies_len 0"

section \<open>Callbacks\<close>

record mmwlan_scan_result =
  sr_rssi :: "16 word"
  sr_bssid :: "u8 list"
  sr_ssid :: string
  sr_ies :: "u8 list"
  sr_beacon_interval :: u16
  sr_capability_info :: u16
  sr_ies_len :: u16
  sr_ssid_len :: u8
  sr_channel_freq_hz :: u32
  sr_bw_mhz :: u8
  sr_op_bw_mhz :: u8
  sr_noise_dbm :: "8 word"
  sr_tsf :: "64 word"

definition MAC_ADDR_STR_LEN :: nat where "MAC_ADDR_STR_LEN = 18"

text \<open>The conversions of \<open>printf\<close>: \<open>%02x\<close>, \<open>%04x\<close>, and a field padded on the left.\<close>

definition hex_lower :: "nat \<Rightarrow> char" where "hex_lower k = ''0123456789abcdef'' ! (k mod 16)"
definition hex2 :: "nat \<Rightarrow> string" where "hex2 n = [hex_lower (n div 16), hex_lower n]"
definition hex4 :: "nat \<Rightarrow> string" where "hex4 n = hex2 (n div 256) @ hex2 n"
definition pad_left :: "nat \<Rightarrow> string \<Rightarrow> string" where "pad_left w s = replicate (w - length s) (CHR '' '') @ s"

text \<open>\<open>snprintf(dst, n, "%s", src)\<close> for positive \<open>n\<close>: the source is read to its NUL, at most \<open>n - 1\<close>
  characters and a NUL are stored.\<close>

definition snprintf_s :: "string \<Rightarrow> nat \<Rightarrow> string \<Rightarrow> string option" where
  "snprintf_s dst n src =
     (let w = take (n - 1) (cstr src) @ [NUL] in
      if NUL \<in> set src \<and> length w \<le> length dst then Some (w @ drop (length w) dst) else None)"

definition mac_string :: "u8 list \<Rightarrow> string option" where
  "mac_string m = (case m of
     b0 # b1 # b2 # b3 # b4 # b5 # _ \<Rightarrow>
       Some (hex2 (unat b0) @ '':'' @ hex2 (unat b1) @ '':'' @ hex2 (unat b2) @ '':'' @
             hex2 (unat b3) @ '':'' @ hex2 (unat b4) @ '':'' @ hex2 (unat b5))
   | _ \<Rightarrow> None)"

definition ANSI_BOLD :: string where "ANSI_BOLD = char_of (0x1b :: nat) # ''[1m''"
definition ANSI_RESET :: string where "ANSI_RESET = char_of (0x1b :: nat) # ''[0m''"

fun akm_names :: "u32 list \<Rightarrow> nat \<Rightarrow> nat \<Rightarrow> string option" where
  "akm_names akms ii 0 = Some []"
| "akm_names akms ii (Suc n) = do {
     s \<leftarrow> load akms ii;
     rest \<leftarrow> akm_names akms (Suc ii) n;
     Some ('' '' @ akm_suite_to_string s @ rest)
   }"

definition security_line :: "int \<Rightarrow> rsn_information \<Rightarrow> string option" where
  "security_line ret rsn_info =
     (if ret < 0 then Some (''    Invalid probe response'' @ [CHR 0x0A])
      else if rsn_num_akm_suites rsn_info = 0 then Some (''    Security: None'' @ [CHR 0x0A])
      else if ret > 0 then do {
        names \<leftarrow> akm_names (rsn_akm_suites rsn_info) 0 (unat (rsn_num_akm_suites rsn_info));
        Some (''    Security:'' @ names @ [CHR 0x0A])
      }
      else Some [])"

text \<open>The callback takes and returns the number of results, and returns what it prints;
  \<open>bssid_str\<close> and \<open>ssid_str\<close> are the contents of its two arrays before.\<close>

definition scan_rx_callback ::
  "string \<Rightarrow> string \<Rightarrow> mmwlan_scan_result \<Rightarrow> nat \<Rightarrow> (nat \<times> string) option" where
  "scan_rx_callback bssid_str ssid_str result num_scan_results = do {
     let num_scan_results = num_scan_results + 1;
     mac \<leftarrow> mac_string (sr_bssid result);
     bssid_str \<leftarrow> snprintf_s bssid_str MAC_ADDR_STR_LEN (mac @ [NUL]);
     ssid_str \<leftarrow> snprintf_s ssid_str (unat (sr_ssid_len result) + 1) (sr_ssid result);
     (ret, rsn_info) \<leftarrow> parse_rsn_information (sr_ies result) (unat (sr_ies_len result));
     security \<leftarrow> security_line ret rsn_info;
     Some (num_scan_results,
       ANSI_BOLD @ pad_left 2 (show_nat num_scan_results) @ ''. '' @ cstr ssid_str @ ANSI_RESET @ [CHR 0x0A] @
       ''    Operating BW: '' @ show_nat (unat (sr_op_bw_mhz result)) @ '' MHz'' @ [CHR 0x0A] @
       ''    BSSID: '' @ cstr bssid_str @ [CHR 0x0A] @
       ''    RSSI: '' @ pad_left 3 (show_int (sint (sr_rssi result))) @ [CHR 0x0A] @
       ''    Beacon Interval(TUs): '' @ show_nat (unat (sr_beacon_interval result)) @ [CHR 0x0A] @
       ''    Capability Info: 0x'' @ hex4 (unat (sr_capability_info result)) @ [CHR 0x0A] @
       security)
   }"

definition scan_complete_callback :: string where
  "scan_complete_callback = ''Scanning completed.'' @ [CHR 0x0A]"

section \<open>Start\<close>

datatype scan_action = Mmhal_init | Mmwlan_init | Set_channel_list mmwlan_s1g_channel_list | Mmwlan_boot
| Get_version | Scan_request

record scan_env =
  se_lookup :: "mmwlan_s1g_channel_list option"
  se_set_channel_list :: mmwlan_status
  se_boot :: mmwlan_status
  se_version :: mmwlan_status
  se_scan :: mmwlan_status

text \<open>The calls made, and whether the end is reached; otherwise an assertion stops the program.
  The results of the library are in the environment.\<close>

definition scan_app_main :: "scan_env \<Rightarrow> scan_action list \<times> bool" where
  "scan_app_main e =
     (case se_lookup e of None \<Rightarrow> ([Mmhal_init, Mmwlan_init], False)
      | Some channel_list \<Rightarrow>
          let done = [Mmhal_init, Mmwlan_init, Set_channel_list channel_list] in
          if se_set_channel_list e \<noteq> MMWLAN_SUCCESS then (done, False)
          else
            let done = done @ [Mmwlan_boot] in
            if se_boot e \<noteq> MMWLAN_SUCCESS then (done, False)
            else
              let done = done @ [Get_version] in
              if se_version e \<noteq> MMWLAN_SUCCESS then (done, False)
              else (done @ [Scan_request], se_scan e = MMWLAN_SUCCESS))"

section \<open>Comparison with the parser of the library\<close>

text \<open>A type byte at the very end, without its length, where the loop above reads one byte too far.\<close>

fun lone_type :: "u8 list \<Rightarrow> bool" where
  "lone_type (ty # len # rest) = (ty \<noteq> RSN_INFORMATION_IE_TYPE \<and> lone_type (drop (unat len) rest))"
| "lone_type [ty] = True"
| "lone_type [] = False"

text \<open>The codes of the library, 0 for success, -1 for no element and -2 for a malformed one, as 1, 0 and -1.\<close>

definition scan_code :: "int \<Rightarrow> int" where
  "scan_code r = (if r = 0 then 1 else if r = - 1 then 0 else - 1)"

lemma map_bind: "map_option f (Option.bind m g) = Option.bind m (\<lambda>x. map_option f (g x))"
  by (cases m) simp_all

lemma akm_part_equiv:
  "parse_akm_suites ies off len out = map_option (map_prod scan_code (\<lambda>x. x)) (rsn_akm_part ies off len out)"
  by (simp add: parse_akm_suites_def rsn_akm_part_def Let_def scan_code_def map_bind case_prod_unfold
      if_distrib [of "map_option _"] cong: if_cong)

lemma element_equiv:
  assumes "off + unat len \<le> n" "\<not> len < 8"
  shows "parse_rsn_element ies n off len = map_option (map_prod scan_code (\<lambda>x. x)) (rsn_body ies off len)"
  using assms
  by (simp add: parse_rsn_element_def rsn_body_def Let_def akm_part_equiv scan_code_def map_bind case_prod_unfold
      if_distrib [of "map_option _"] add.commute cong: if_cong)

lemma loop_equiv:
  assumes "off < length ies + 258"
  shows "parse_rsn_loop ies (length ies) off =
    (if lone_type (drop off ies) then None
     else let r = ie_search RSN_INFORMATION_IE_TYPE off (drop off ies) in
       if r < 0 then Some (scan_code r, rsn_zero)
       else parse_rsn_element ies (length ies) (nat r + 2) (ies ! (nat r + 1)))"
  using assms
proof (induction "length ies - off" arbitrary: off rule: less_induct)
  case less
  consider "length ies \<le> off" | "off + 1 = length ies" | "off + 2 \<le> length ies" by linarith
  then show ?case
  proof cases
    case 1
    then show ?thesis by (subst parse_rsn_loop.simps) (simp add: scan_code_def)
  next
    case 2
    then have "drop off ies = [ies ! off]" by (simp add: Cons_nth_drop_Suc [symmetric])
    then show ?thesis using 2 by (subst parse_rsn_loop.simps) (simp add: load_def)
  next
    case 3
    let ?n = "off + 2 + unat (ies ! Suc off)"
    have "unat (ies ! Suc off) < 256" using unsigned_less [of "ies ! Suc off"] by simp
    then have "ies ! off \<noteq> RSN_INFORMATION_IE_TYPE \<Longrightarrow> ?thesis"
      using less.hyps [of ?n] 3 drop_two [OF 3]
      by (subst parse_rsn_loop.simps) (simp add: load_def add.commute)
    moreover have ?thesis if t: "ies ! off = RSN_INFORMATION_IE_TYPE"
      using 3 t drop_two [OF 3]
      by (subst parse_rsn_loop.simps) (auto simp: load_def parse_rsn_element_def scan_code_def)
    ultimately show ?thesis by blast
  qed
qed

lemma parser_agrees:
  assumes "length ies < 2 ^ 31"
  shows "parse_rsn_information ies (length ies) =
    (if lone_type ies then None
     else map_option (map_prod scan_code (\<lambda>x. x)) (mm_parse_rsn_information ies (of_nat (length ies))))"
proof -
  let ?r = "ie_search RSN_INFORMATION_IE_TYPE 0 ies"
  have ty: "RSN_INFORMATION_IE_TYPE = MM_RSN_INFORMATION_IE_TYPE"
    by (simp add: RSN_INFORMATION_IE_TYPE_def MM_RSN_INFORMATION_IE_TYPE_def)
  have find: "mm_find_ie ies (of_nat (length ies)) MM_RSN_INFORMATION_IE_TYPE = Some ?r"
    using find_ie_search [OF assms, of 0] by (simp add: mm_find_ie_def ty)
  have loop: "parse_rsn_information ies (length ies) = (if lone_type ies then None
      else if ?r < 0 then Some (scan_code ?r, rsn_zero)
      else parse_rsn_element ies (length ies) (nat ?r + 2) (ies ! (nat ?r + 1)))"
    using loop_equiv [of 0 ies] by (simp add: parse_rsn_information_def Let_def)
  consider "?r < 0" | k where "?r = int k" "ie_found ies RSN_INFORMATION_IE_TYPE k"
    using ie_search_result [of 0 ies RSN_INFORMATION_IE_TYPE] by auto
  then show ?thesis
  proof cases
    case 1
    then show ?thesis using find loop by (simp add: mm_parse_rsn_information_def)
  next
    case 2
    then have b: "k + 1 < length ies" "k + 2 + unat (ies ! (k + 1)) \<le> length ies" by (simp_all add: ie_found_def)
    show ?thesis using 2 find loop b element_equiv [OF b(2)]
      by (auto simp: mm_parse_rsn_information_def load_def parse_rsn_element_def scan_code_def)
  qed
qed

text \<open>C23: The scan application's parser agrees with the library's: for every block of fewer than \<open>2 ^ 31\<close>
  bytes it ends and returns what \<open>mm_parse_rsn_information\<close> returns, with 1 for found, 0 for
  absent and -1 for malformed, unless the elements end with a type byte without a length;
  then, and only then, it reads past the end of the block.\<close>

theorem scan_parser_equiv:
  assumes "length ies < 2 ^ 31"
  shows "parse_rsn_information ies (length ies) =
    (if lone_type ies then None
     else map_option (map_prod scan_code (\<lambda>x. x)) (mm_parse_rsn_information ies (of_nat (length ies))))"
  by (rule parser_agrees [OF assms])

theorem scan_parser_equiv_witness:
  "parse_rsn_information [0, 1, 65, 48, 2, 1, 0] 7 = Some (- 1, rsn_zero) \<and>
   parse_rsn_information [0, 1, 65, 7] 4 = None"
proof -
  have f: "mm_find_ie [0, 1, 65, 48, 2, 1, 0] 7 48 = Some 3"
    using find_ie_search [of "[0, 1, 65, 48, 2, 1, 0]" 0 48] by (simp add: mm_find_ie_def)
  have l: "length [0, 1, 65, 48, 2, 1, 0 :: u8] = 7" "length [0, 1, 65, 7 :: u8] = 4" by simp_all
  show ?thesis
    using scan_parser_equiv [of "[0, 1, 65, 48, 2, 1, 0]", unfolded l]
      scan_parser_equiv [of "[0, 1, 65, 7]", unfolded l] f
    by (simp add: RSN_INFORMATION_IE_TYPE_def mm_parse_rsn_information_def MM_RSN_INFORMATION_IE_TYPE_def
        load_def scan_code_def)
qed

section \<open>The callback\<close>

text \<open>The count of AKM suites never exceeds the array, so the loop that prints them stays inside it.\<close>

definition akm_ok :: "rsn_information \<Rightarrow> bool" where
  "akm_ok out \<longleftrightarrow> length (rsn_akm_suites out) = 2 \<and> unat (rsn_num_akm_suites out) \<le> 2"

lemma akm_ok_zero: "akm_ok rsn_zero"
  by (simp add: akm_ok_def rsn_zero_def)

lemma suites_loop_length:
  "suites_loop ies kept n ii arr off len = Some (arr', off', len') \<Longrightarrow> length arr' = length arr"
  by (induction n arbitrary: ii arr off len) (auto simp: store_def split: if_splits option.splits)

lemma akm_part_ok:
  assumes "parse_akm_suites ies off len out = Some (r, out')" "length (rsn_akm_suites out) = 2"
  shows "akm_ok out'"
  using assms
  by (auto simp: word_less_nat_alt parse_akm_suites_def akm_ok_def Let_def bind_eq_Some_conv dest: suites_loop_length split: if_splits)

lemma element_ok: "parse_rsn_element ies n off len = Some (r, out) \<Longrightarrow> akm_ok out"
  by (auto simp: parse_rsn_element_def Let_def bind_eq_Some_conv rsn_zero_def akm_ok_def split: if_splits
      dest: akm_part_ok)

lemma loop_ok: "parse_rsn_loop ies n off = Some (r, out) \<Longrightarrow> akm_ok out"
proof (induction ies n off rule: parse_rsn_loop.induct)
  case (1 ies n off)
  from 1(2) show ?case unfolding parse_rsn_loop.simps [of ies n off]
    using 1(1) by (auto simp: bind_eq_Some_conv akm_ok_zero dest: element_ok split: if_splits)
qed

lemma akm_names_eq:
  "ii + n \<le> length akms \<Longrightarrow>
   akm_names akms ii n = Some (concat (map (\<lambda>s. '' '' @ akm_suite_to_string s) (take n (drop ii akms))))"
  by (induction n arbitrary: ii) (auto simp: load_def Cons_nth_drop_Suc [symmetric])

lemma security_line_defined: "akm_ok out \<Longrightarrow> \<exists>s. security_line ret out = Some s"
  by (simp add: security_line_def akm_names_eq akm_ok_def)

text \<open>What is printed about the security of a network, from the library's view of its elements.\<close>

definition security_text :: "u8 list \<Rightarrow> string" where
  "security_text ies = (case mm_parse_rsn_information ies (of_nat (length ies)) of
     None \<Rightarrow> []
   | Some (r, out) \<Rightarrow>
       if r = - 2 then ''    Invalid probe response'' @ [CHR 0x0A]
       else if r = - 1 \<or> rsn_num_akm_suites out = 0 then ''    Security: None'' @ [CHR 0x0A]
       else ''    Security:'' @ concat (map (\<lambda>s. '' '' @ akm_suite_to_string s)
         (take (unat (rsn_num_akm_suites out)) (rsn_akm_suites out))) @ [CHR 0x0A])"

lemma snprintf_s_cases:
  assumes "0 < length dst"
  shows "snprintf_s dst (n + 1) src = (if NUL \<in> set src \<and> (length (cstr src) < length dst \<or> n < length dst)
    then Some (take n (cstr src) @ NUL # drop (length (take n (cstr src)) + 1) dst) else None)"
  using assms by (auto simp: snprintf_s_def Let_def min_def)

lemma parsed_security:
  assumes "length ies < 2 ^ 31" "\<not> lone_type ies"
  obtains ret out where "parse_rsn_information ies (length ies) = Some (ret, out)"
    "security_line ret out = Some (security_text ies)"
proof -
  obtain r out where p: "mm_parse_rsn_information ies (of_nat (length ies)) = Some (r, out)"
    and r: "r = 0 \<or> r = - 1 \<or> r = - 2" using rsn_reads_inside [OF assms(1)] by auto
  have q: "parse_rsn_information ies (length ies) = Some (scan_code r, out)"
    using parser_agrees [OF assms(1)] assms(2) p by simp
  have ok: "akm_ok out" using q loop_ok by (simp add: parse_rsn_information_def)
  have "r = - 1 \<Longrightarrow> out = rsn_zero"
    using p by (auto simp: mm_parse_rsn_information_def rsn_body_def rsn_akm_part_def Let_def bind_eq_Some_conv
        split: if_splits)
  then have "security_line (scan_code r) out = Some (security_text ies)"
    using r ok by (auto simp: security_line_def security_text_def p scan_code_def akm_names_eq akm_ok_def
        rsn_zero_def)
  then show ?thesis using that q by blast
qed

lemma mac_string_6:
  assumes "length m = 6"
  obtains t where "mac_string m = Some t" "length t = 17" "NUL \<notin> set t"
proof -
  obtain a b c d e f where "m = [a, b, c, d, e, f]"
    using assms by (auto simp: numeral_eq_Suc length_Suc_conv)
  moreover have "NUL \<noteq> hex_lower k" for k
  proof -
    have all: "list_all (\<lambda>c. c \<noteq> NUL) ''0123456789abcdef''" by (simp add: NUL_def)
    have "''0123456789abcdef'' ! (k mod 16) \<noteq> NUL"
      by (rule all [unfolded list_all_length, rule_format]) simp
    then show ?thesis unfolding hex_lower_def by (rule not_sym)
  qed
  ultimately show ?thesis using that by (simp add: mac_string_def hex2_def NUL_def)
qed

text \<open>One scan result: for a probe response with a BSSID of six bytes the callback counts it and
  prints its number, the first \<open>ssid_len\<close> characters of its name and the security that the
  library's parser finds. It leaves its arrays exactly when the memory after the name holds no NUL, the name and its
  length both reach 32, or the elements end with a type byte alone.\<close>

theorem scan_rx_correct:
  assumes "length bssid_str = MAC_ADDR_STR_LEN" "length ssid_str = MMWLAN_SSID_MAXLEN"
    and "length (sr_bssid r) = 6" "unat (sr_ies_len r) = length (sr_ies r)"
  shows "if NUL \<in> set (sr_ssid r) \<and> (length (cstr (sr_ssid r)) < 32 \<or> sr_ssid_len r < 32) \<and> \<not> lone_type (sr_ies r)
    then \<exists>fields. scan_rx_callback bssid_str ssid_str r n =
      Some (n + 1, ANSI_BOLD @ pad_left 2 (show_nat (n + 1)) @ ''. '' @
        take (unat (sr_ssid_len r)) (cstr (sr_ssid r)) @ ANSI_RESET @ [CHR 0x0A] @ fields @ security_text (sr_ies r))
    else scan_rx_callback bssid_str ssid_str r n = None"
proof -
  obtain mac where m: "mac_string (sr_bssid r) = Some mac" "length mac = 17" "NUL \<notin> set mac"
    using mac_string_6 assms(3) by blast
  have b: "snprintf_s bssid_str MAC_ADDR_STR_LEN (mac @ [NUL]) = Some (mac @ [NUL])"
    using snprintf_s_cases [of bssid_str 17 "mac @ [NUL]"] assms(1) m
    by (simp add: MAC_ADDR_STR_LEN_def cstr_append_NUL)
  note s = snprintf_s_cases [of ssid_str "unat (sr_ssid_len r)" "sr_ssid r"]
  have small: "length (sr_ies r) < 2 ^ 31" using unsigned_less [of "sr_ies_len r", where 'a = nat] assms(4) by simp
  show ?thesis
  proof (cases "lone_type (sr_ies r)")
    case True
    then have "parse_rsn_information (sr_ies r) (length (sr_ies r)) = None" using parser_agrees [OF small] by simp
    then show ?thesis using True m b s assms by (auto simp: scan_rx_callback_def Let_def)
  next
    case False
    obtain ret out where "parse_rsn_information (sr_ies r) (length (sr_ies r)) = Some (ret, out)"
      "security_line ret out = Some (security_text (sr_ies r))" by (rule parsed_security [OF small False])
    then show ?thesis using False m b s assms
      by (auto simp: scan_rx_callback_def Let_def MMWLAN_SSID_MAXLEN_def word_less_nat_alt cstr_append_NUL
          cstr_take_no_NUL)
  qed
qed

theorem scan_rx_correct_witness:
  "let r = \<lparr>sr_rssi = - 40, sr_bssid = [2, 0, 0, 0, 0, 1], sr_ssid = ''halow'' @ [NUL], sr_ies = [0, 5, 104, 97, 108, 111, 119],
      sr_beacon_interval = 100, sr_capability_info = 0x11, sr_ies_len = 7, sr_ssid_len = 5,
      sr_channel_freq_hz = 916000000, sr_bw_mhz = 2, sr_op_bw_mhz = 2, sr_noise_dbm = - 90, sr_tsf = 0\<rparr> in
   (\<exists>fields. scan_rx_callback (replicate 18 NUL) (replicate 32 NUL) r 0 =
     Some (1, ANSI_BOLD @ '' 1. halow'' @ ANSI_RESET @ [CHR 0x0A] @ fields @ security_text (sr_ies r))) \<and>
   scan_rx_callback (replicate 18 NUL) (replicate 32 NUL)
     (r\<lparr>sr_ssid := replicate 32 (CHR ''a'') @ [NUL], sr_ssid_len := 32\<rparr>) 0 = None"
proof -
  let ?r = "\<lparr>sr_rssi = - 40, sr_bssid = [2, 0, 0, 0, 0, 1], sr_ssid = ''halow'' @ [NUL], sr_ies = [0, 5, 104, 97, 108, 111, 119],
      sr_beacon_interval = 100, sr_capability_info = 0x11, sr_ies_len = 7, sr_ssid_len = 5,
      sr_channel_freq_hz = 916000000, sr_bw_mhz = 2, sr_op_bw_mhz = 2, sr_noise_dbm = - 90, sr_tsf = 0\<rparr>"
  let ?r2 = "?r\<lparr>sr_ssid := replicate 32 (CHR ''a'') @ [NUL], sr_ssid_len := 32\<rparr>"
  have c: "cstr (''halow'' @ [NUL]) = ''halow''" "cstr (replicate 32 (CHR ''a'') @ [NUL]) = replicate 32 (CHR ''a'')"
    by (rule cstr_append_NUL, simp add: NUL_def)+
  have p: "pad_left 2 (show_nat 1) = '' 1''" by (subst show_nat.simps) (simp add: pad_left_def char_of_def bit_0)
  show ?thesis
    using scan_rx_correct [of "replicate 18 NUL" "replicate 32 NUL" ?r 0]
      scan_rx_correct [of "replicate 18 NUL" "replicate 32 NUL" ?r2 0] c p
    by (simp add: MAC_ADDR_STR_LEN_def MMWLAN_SSID_MAXLEN_def RSN_INFORMATION_IE_TYPE_def Let_def)
qed

section \<open>The start\<close>

text \<open>A scan is requested only on a booted chip whose channels are set, and each call happens at most once.\<close>

lemma scan_only_when_ready:
  assumes "Scan_request \<in> set (fst (scan_app_main e))"
  shows "se_set_channel_list e = MMWLAN_SUCCESS" "se_boot e = MMWLAN_SUCCESS" "se_version e = MMWLAN_SUCCESS"
    "\<exists>l. se_lookup e = Some l \<and>
      fst (scan_app_main e) = [Mmhal_init, Mmwlan_init, Set_channel_list l, Mmwlan_boot, Get_version, Scan_request]"
  using assms by (auto simp: scan_app_main_def Let_def split: option.splits if_splits)

end
