(* ===== verification/Rf_Test.thy ===== *)
theory Rf_Test
  imports Slip Crc Mmbuf Scan
begin

text \<open>
  The RF test application, \<^verbatim>\<open>examples/rf-test/main/src\<close>: commands arrive on a UART in SLIP frames
  with a checksum, are executed by the WLAN library and answered in frames of the same form. It puts
  together the framing of \<open>Slip\<close>, the checksum of \<open>Crc\<close> and the buffers of \<open>Mmbuf\<close>. \<open>None\<close> is an access
  outside memory, through a null pointer, or a failed assertion. The library's command processor, the UART
  driver and the heap are the fields of \<open>rf_env\<close>.
\<close>

section \<open>The UART\<close>

text \<open>\<open>mmhal_uart_tx\<close> over the driver's \<open>uart_write_bytes\<close>, which gets what was written before and the
  data left and returns how many bytes it took.\<close>

function mmhal_uart_tx :: "(u8 list \<Rightarrow> u8 list \<Rightarrow> int) \<Rightarrow> u8 list \<Rightarrow> u8 list \<Rightarrow> u8 list option" where
  "mmhal_uart_tx uart_write_bytes sent tx_data =
     (if tx_data = [] then Some sent
      else let ret = uart_write_bytes sent tx_data in
        if ret > 0 \<and> ret \<le> int (length tx_data)
        then mmhal_uart_tx uart_write_bytes (sent @ take (nat ret) tx_data) (drop (nat ret) tx_data)
        else None)"
  by pat_completeness auto
termination by (relation "measure (\<lambda>(w, s, d). length d)") auto

declare mmhal_uart_tx.simps [simp del]

definition slip_tx_handler :: "(u8 list \<Rightarrow> u8 list \<Rightarrow> int) \<Rightarrow> u8 list option slip_transport" where
  "slip_tx_handler uart_write_bytes c uart =
     (Option.bind uart (\<lambda>sent. mmhal_uart_tx uart_write_bytes sent [c]), 0)"

section \<open>Commands\<close>

definition SEQ_NUM_LEN :: u32 where "SEQ_NUM_LEN = 4"
definition RESPONSE_MAX_LEN :: u32 where "RESPONSE_MAX_LEN = 2048"
definition RESPONSE_HDR_LEN :: u32 where "RESPONSE_HDR_LEN = 12"
definition SLIP_RX_BUFFER_SIZE :: nat where "SLIP_RX_BUFFER_SIZE = 2000"

text \<open>The library's command processor gets the commands executed before and the command, and returns a status and
  what it wrote to the response buffer, \<open>response_len\<close> bytes. The state outside the receiver: the bytes
  sent, the commands executed and the number of buffers on the heap.\<close>

record rf_env =
  rf_malloc :: "u32 \<Rightarrow> u8 list option"
  rf_ate :: "u8 list list \<Rightarrow> u8 list \<Rightarrow> mmwlan_status \<times> u8 list"
  rf_write :: "u8 list \<Rightarrow> u8 list \<Rightarrow> int"

record rf_world =
  rf_uart :: "u8 list"
  rf_executed :: "u8 list list"
  rf_live :: int

definition rf_errno :: "mmwlan_status \<Rightarrow> u8" where
  "rf_errno status = (case status of
     MMWLAN_NO_MEM \<Rightarrow> 12
   | MMWLAN_UNAVAILABLE \<Rightarrow> 19
   | MMWLAN_INVALID_ARGUMENT \<Rightarrow> 22
   | MMWLAN_TIMED_OUT \<Rightarrow> 110
   | _ \<Rightarrow> 14)"

text \<open>The bytes from the start of the data, as the calls that get the start and the length see them.\<close>

definition mmbuf_bytes :: "mmbuf \<Rightarrow> u8 list option" where
  "mmbuf_bytes b = load_n (bf_buf b) (unat (mmbuf_get_data_start b)) (unat (mmbuf_get_data_length b))"

definition rf_response :: "mmwlan_status \<Rightarrow> u8 list \<Rightarrow> mmbuf \<Rightarrow> mmbuf option" where
  "rf_response status response rsp_buf =
     (if status = MMWLAN_SUCCESS then map_option fst (mmbuf_append rsp_buf (of_nat (length response)))
      else do {
        (rsp_buf, hdr) \<leftarrow> mmbuf_append rsp_buf RESPONSE_HDR_LEN;
        mem \<leftarrow> blit (bf_buf rsp_buf) (unat hdr) (replicate (unat RESPONSE_HDR_LEN) 0);
        mmbuf_append_data (rsp_buf\<lparr>bf_buf := mem\<rparr>) [rf_errno status, 0, 0, 0] 4
      })"

definition rf_test_handle_command :: "rf_env \<Rightarrow> mmbuf \<Rightarrow> rf_world \<Rightarrow> rf_world option" where
  "rf_test_handle_command env cmd_buf w =
     (let (cmd_buf, seq_num) = mmbuf_remove_from_end cmd_buf SEQ_NUM_LEN in
      case seq_num of
        None \<Rightarrow> Some (w\<lparr>rf_live := rf_live w - 1\<rparr>)
      | Some seq_num \<Rightarrow>
          (case mmbuf_alloc_on_heap (rf_malloc env) 0 (SEQ_NUM_LEN + RESPONSE_MAX_LEN) of
             None \<Rightarrow> None
           | Some rsp_buf \<Rightarrow> do {
               let w = w\<lparr>rf_live := rf_live w + 1\<rparr>;
               cmd \<leftarrow> mmbuf_bytes cmd_buf;
               (rsp_buf, dest) \<leftarrow> mmbuf_append rsp_buf 0;
               let (status, response) = rf_ate env (rf_executed w) cmd;
               let w = w\<lparr>rf_executed := rf_executed w @ [cmd]\<rparr>;
               mem \<leftarrow> blit (bf_buf rsp_buf) (unat dest) response;
               rsp_buf \<leftarrow> rf_response status response (rsp_buf\<lparr>bf_buf := mem\<rparr>);
               seq \<leftarrow> load_n (bf_buf cmd_buf) (unat seq_num) (unat SEQ_NUM_LEN);
               rsp_buf \<leftarrow> mmbuf_append_data rsp_buf seq SEQ_NUM_LEN;
               body \<leftarrow> mmbuf_bytes rsp_buf;
               let crc = mmcrc_16_xmodem 0 body;
               rsp_buf \<leftarrow> mmbuf_append_data rsp_buf (le16 crc) 2;
               packet \<leftarrow> mmbuf_bytes rsp_buf;
               let (uart, ret) = slip_tx (slip_tx_handler (rf_write env)) packet (Some (rf_uart w));
               uart \<leftarrow> uart;
               Some (w\<lparr>rf_uart := uart, rf_live := rf_live w - 2\<rparr>)
             }))"

section \<open>Reception\<close>

text \<open>What happens when \<open>slip_rx\<close> reports a complete frame, and the loop over the received bytes.\<close>

definition rf_frame :: "rf_env \<Rightarrow> slip_rx_state \<Rightarrow> rf_world \<Rightarrow> (slip_rx_state \<times> rf_world) option" where
  "rf_frame env slip_state w =
     (let len = slip_length slip_state in
      if len < 2 then Some (slip_state, w)
      else do {
        body \<leftarrow> load_n (slip_buffer slip_state) 0 (len - 2);
        let crc = mmcrc_16_xmodem 0 body;
        lo \<leftarrow> load (slip_buffer slip_state) (len - 2);
        hi \<leftarrow> load (slip_buffer slip_state) (len - 1);
        if ucast lo = crc AND 0xFF \<and> ucast hi = drop_bit 8 crc then
          (case mmbuf_alloc_on_heap (rf_malloc env) 0 (of_nat len) of
             None \<Rightarrow> Some (slip_state\<lparr>slip_length := 0\<rparr>, w)
           | Some mmbuffer \<Rightarrow> do {
               mmbuffer \<leftarrow> mmbuf_append_data mmbuffer (slip_buffer slip_state) (of_nat len);
               let (mmbuffer, _) = mmbuf_remove_from_end mmbuffer 2;
               w \<leftarrow> rf_test_handle_command env mmbuffer (w\<lparr>rf_live := rf_live w + 1\<rparr>);
               Some (slip_state\<lparr>slip_length := 0\<rparr>, w)
             })
        else Some (slip_state\<lparr>slip_length := 0\<rparr>, w)
      })"

fun uart_rx_handler :: "rf_env \<Rightarrow> u8 list \<Rightarrow> slip_rx_state \<Rightarrow> rf_world \<Rightarrow> (slip_rx_state \<times> rf_world) option" where
  "uart_rx_handler env [] slip_state w = Some (slip_state, w)"
| "uart_rx_handler env (c # cs) slip_state w = do {
     (slip_state, status) \<leftarrow> slip_rx slip_state c;
     (slip_state, w) \<leftarrow> (if status = SLIP_RX_COMPLETE then rf_frame env slip_state w else Some (slip_state, w));
     uart_rx_handler env cs slip_state w
   }"

text \<open>The receive task of \<^verbatim>\<open>mmhal_uart.c\<close>: one read of at most one byte, the callback, and the test of the loop; when it
  fails the task reports its end. The ring buffer of the struct is never used and left out.\<close>

record mmhal_uart_data =
  ua_rx_cb :: bool
  ua_handle :: bool
  ua_run :: bool
  ua_complete :: bool

definition uart_rx_step ::
  "rf_env \<Rightarrow> u8 list \<Rightarrow> mmhal_uart_data \<times> slip_rx_state \<times> rf_world \<Rightarrow>
   (mmhal_uart_data \<times> slip_rx_state \<times> rf_world) option" where
  "uart_rx_step env data s =
     (let (ua, st, w) = s in
      if ua_complete ua then Some s
      else do {
        (st, w) \<leftarrow> (if data \<noteq> [] \<and> ua_rx_cb ua then uart_rx_handler env data st w else Some (st, w));
        Some (ua\<lparr>ua_complete := \<not> ua_run ua\<rparr>, st, w)
      })"

definition mmhal_uart_init :: "bool \<Rightarrow> bool \<Rightarrow> mmhal_uart_data" where
  "mmhal_uart_init rx_cb task_created =
     \<lparr>ua_rx_cb = rx_cb, ua_handle = task_created, ua_run = True, ua_complete = False\<rparr>"

text \<open>\<open>mmhal_uart_deinit\<close> asks the task to end and then polls until it has; in the second part \<open>None\<close>
  means that it goes on waiting.\<close>

definition mmhal_uart_deinit_start :: "mmhal_uart_data \<Rightarrow> mmhal_uart_data" where
  "mmhal_uart_deinit_start ua = (if ua_handle ua then ua\<lparr>ua_run := False\<rparr> else ua)"

definition mmhal_uart_deinit_end :: "mmhal_uart_data \<Rightarrow> mmhal_uart_data option" where
  "mmhal_uart_deinit_end ua =
     (if \<not> ua_handle ua then Some ua else if ua_complete ua then Some (ua\<lparr>ua_handle := False\<rparr>) else None)"

section \<open>Start\<close>

definition rf_mmwlan_start :: "scan_env \<Rightarrow> scan_action list \<times> mmwlan_status" where
  "rf_mmwlan_start e =
     (case se_lookup e of None \<Rightarrow> ([Mmhal_init, Mmwlan_init], MMWLAN_INVALID_ARGUMENT)
      | Some channel_list \<Rightarrow>
          let calls = [Mmhal_init, Mmwlan_init, Set_channel_list channel_list] in
          if se_set_channel_list e \<noteq> MMWLAN_SUCCESS then (calls, se_set_channel_list e)
          else
            let calls = calls @ [Mmwlan_boot] in
            if se_boot e \<noteq> MMWLAN_SUCCESS then (calls, se_boot e)
            else
              let calls = calls @ [Get_version] in
              if se_version e \<noteq> MMWLAN_SUCCESS then (calls, se_version e)
              else (calls, MMWLAN_SUCCESS))"

definition rf_app_main :: "scan_env \<Rightarrow> bool \<Rightarrow> mmhal_uart_data option" where
  "rf_app_main e task_created =
     (if snd (rf_mmwlan_start e) = MMWLAN_SUCCESS then Some (mmhal_uart_init True task_created) else None)"

section \<open>Replies on the wire\<close>

definition write_ok :: "(u8 list \<Rightarrow> u8 list \<Rightarrow> int) \<Rightarrow> bool" where
  "write_ok wr \<longleftrightarrow> (\<forall>sent d. d \<noteq> [] \<longrightarrow> 0 < wr sent d \<and> wr sent d \<le> int (length d))"

lemma uart_tx_all: "write_ok wr \<Longrightarrow> mmhal_uart_tx wr sent d = Some (sent @ d)"
proof (induction wr sent d rule: mmhal_uart_tx.induct)
  case (1 wr sent d)
  show ?case
  proof (cases "d = []")
    case False
    then have r: "0 < wr sent d \<and> wr sent d \<le> int (length d)" using 1(2) by (simp add: write_ok_def)
    show ?thesis using 1(1) [OF False refl r 1(2)] False r by (subst mmhal_uart_tx.simps) (simp add: Let_def)
  qed (simp add: mmhal_uart_tx.simps)
qed

lemma slip_tx_uart:
  assumes "write_ok wr"
  shows "slip_tx (slip_tx_handler wr) packet (Some sent) = (Some (sent @ slip_frame packet), 0)"
proof -
  have h: "slip_tx_handler wr c (Some s) = (Some (s @ [c]), 0)" for c s
    by (simp add: slip_tx_handler_def uart_tx_all [OF assms])
  have c: "slip_tx_char (slip_tx_handler wr) c (Some s) = (Some (s @ slip_escape_char c), 0)" for c s
    by (simp add: slip_tx_char_def h slip_escape_char_def)
  have "slip_tx_loop (slip_tx_handler wr) packet 0 (Some s) = (Some (s @ concat (map slip_escape_char packet)), 0)" for s
    by (induction packet arbitrary: s) (simp_all add: c)
  then show ?thesis by (simp add: slip_tx_def h slip_frame_def)
qed

lemma bytes_data: "mmbuf_ok b \<Longrightarrow> mmbuf_bytes b = Some (mmbuf_data b)"
  by (simp add: mmbuf_bytes_def load_n_def mmbuf_data_def mmbuf_get_data_start_def mmbuf_get_data_length_def
      mmbuf_ok_def)

lemma append_is_put:
  "length d < 2 ^ 32 \<Longrightarrow> n = of_nat (length d) \<Longrightarrow> mmbuf_append_data b d n = mmbuf_put b d"
  by (simp add: mmbuf_put_def)

lemma append_data_prefix:
  "unat n \<le> length d \<Longrightarrow> mmbuf_append_data b d n = mmbuf_append_data b (take (unat n) d) n"
  by (simp add: mmbuf_append_data_def memcpy_in_def split: option.splits)

text \<open>Writing behind the data and then taking the bytes in is one append; so is reserving and then filling.\<close>

lemma append_after_write:
  assumes "blit (bf_buf b) (unat (mmbuf_get_data_end b)) d = Some mem" "length d < 2 ^ 32"
  shows "map_option fst (mmbuf_append (b\<lparr>bf_buf := mem\<rparr>) (of_nat (length d))) = mmbuf_put b d"
  using assms unat_of_nat32 [OF assms(2)]
  by (simp add: mmbuf_put_def mmbuf_append_data_def mmbuf_append_def memcpy_in_def Let_def
      mmbuf_get_data_end_def mmbuf_available_space_at_end_def)

lemma reserve_and_fill:
  assumes "length d < 2 ^ 32" "n = of_nat (length d)"
  shows "do { (b, h) \<leftarrow> mmbuf_append b n; mem \<leftarrow> blit (bf_buf b) (unat h) d; f (b\<lparr>bf_buf := mem\<rparr>) } =
    Option.bind (mmbuf_put b d) f"
  using assms unat_of_nat32 [OF assms(1)]
  by (cases "blit (bf_buf b) (unat (mmbuf_get_data_end b)) d")
    (simp_all add: mmbuf_put_def mmbuf_append_data_def mmbuf_append_def memcpy_in_def Let_def)

definition response_bytes :: "mmwlan_status \<Rightarrow> u8 list \<Rightarrow> u8 list" where
  "response_bytes status response =
     (if status = MMWLAN_SUCCESS then response else replicate 12 0 @ [rf_errno status, 0, 0, 0])"

text \<open>A packet with its checksum behind it, low byte first.\<close>

definition with_crc :: "u8 list \<Rightarrow> u8 list" where
  "with_crc body = body @ le16 (mmcrc_16_xmodem 0 body)"

lemma rf_response_ok:
  assumes "mmbuf_ok b" "mmbuf_data b = []" "2052 \<le> mmbuf_tailroom b" "length response \<le> 2046"
    and "blit (bf_buf b) (unat (mmbuf_get_data_end b)) response = Some mem"
  obtains b' where "rf_response status response (b\<lparr>bf_buf := mem\<rparr>) = Some b'" "mmbuf_ok b'"
    "mmbuf_data b' = response_bytes status response" "6 \<le> mmbuf_tailroom b'"
proof (cases "status = MMWLAN_SUCCESS")
  case True
  obtain b' where "mmbuf_put b response = Some b'" "mmbuf_ok b'" "mmbuf_data b' = response"
    "mmbuf_tailroom b' = mmbuf_tailroom b - length response"
    using mmbuf.put_law [OF assms(1), of response] assms(2-4) by auto
  then show ?thesis using that True append_after_write [OF assms(5)] assms(3,4)
    by (simp add: rf_response_def response_bytes_def)
next
  case False
  let ?b = "b\<lparr>bf_buf := mem\<rparr>"
  have ok: "mmbuf_ok ?b" using assms(1) blit_length [OF assms(5)] by (simp add: mmbuf_ok_def)
  have nil: "mmbuf_data ?b = []"
    using assms(2) length_mmbuf_data [OF assms(1)] length_mmbuf_data [OF ok] by simp
  have room: "mmbuf_tailroom ?b = mmbuf_tailroom b"
    by (simp add: mmbuf_tailroom_def mmbuf_available_space_at_end_def)
  obtain b1 where b1: "mmbuf_put ?b (replicate 12 0) = Some b1" "mmbuf_ok b1" "mmbuf_data b1 = replicate 12 0"
    "mmbuf_tailroom b1 = mmbuf_tailroom b - 12"
    using mmbuf.put_law [OF ok, of "replicate 12 0"] nil room assms(3) by auto
  have r1: "length [rf_errno status, 0, 0, 0] \<le> mmbuf_tailroom b1" using b1(4) assms(3) by simp
  obtain b2 where b2: "mmbuf_put b1 [rf_errno status, 0, 0, 0] = Some b2" "mmbuf_ok b2"
    "mmbuf_data b2 = replicate 12 0 @ [rf_errno status, 0, 0, 0]" "mmbuf_tailroom b2 = mmbuf_tailroom b1 - 4"
    using mmbuf.put_law [OF b1(2) r1] b1(3,4) by auto
  have "rf_response status response ?b =
      Option.bind (mmbuf_put ?b (replicate 12 0)) (\<lambda>b. mmbuf_append_data b [rf_errno status, 0, 0, 0] 4)"
    using False reserve_and_fill [of "replicate 12 0" RESPONSE_HDR_LEN ?b]
    by (simp add: rf_response_def RESPONSE_HDR_LEN_def)
  also have "\<dots> = Some b2"
    using b1(1) b2(1) append_is_put [of "[rf_errno status, 0, 0, 0]" 4 b1] by simp
  finally show ?thesis using that b1 b2 assms(3) False by (simp add: response_bytes_def)
qed

text \<open>
  What is asked of the environment: the heap hands out blocks of the size asked for and has room for a response, the
  UART takes at least one byte at a time, and a response leaves room for the checksum.
\<close>

definition rf_env_ok :: "rf_env \<Rightarrow> bool" where
  "rf_env_ok env \<longleftrightarrow> malloc_law (rf_malloc env) \<and>
     mmbuf_alloc_on_heap (rf_malloc env) 0 (SEQ_NUM_LEN + RESPONSE_MAX_LEN) \<noteq> None \<and>
     write_ok (rf_write env) \<and> (\<forall>h c. length (snd (rf_ate env h c)) \<le> 2046)"

definition rf_reply :: "rf_env \<Rightarrow> u8 list list \<Rightarrow> u8 list \<Rightarrow> u8 list \<Rightarrow> u8 list" where
  "rf_reply env history cmd seq =
     with_crc (case_prod response_bytes (rf_ate env history cmd) @ seq)"

lemma length_le16: "length (le16 v) = 2"
  by (simp add: le16_def)

text \<open>Removing the last bytes leaves the rest as the data, and the removed bytes where the result points.\<close>

lemma remove_tail:
  assumes ok: "mmbuf_ok b" and d: "mmbuf_data b = d @ t" "length t = n"
  obtains b' where "mmbuf_remove_from_end b (of_nat n) = (b', Some (mmbuf_get_data_end b - of_nat n))"
    "mmbuf_ok b'" "mmbuf_data b' = d" "bf_buf b' = bf_buf b"
    "load_n (bf_buf b) (unat (mmbuf_get_data_end b - of_nat n)) n = Some t"
proof -
  let ?b = "b\<lparr>bf_data_len := bf_data_len b - of_nat n\<rparr>"
  have len: "unat (bf_data_len b) = length d + n" using length_mmbuf_data [OF ok] d by simp
  then have n: "unat (of_nat n :: u32) = n" using unat_u32 [of "bf_data_len b"] by (intro unat_of_nat32) simp
  then have le: "of_nat n \<le> bf_data_len b" "of_nat n \<le> mmbuf_get_data_end b"
    using len mmbuf_end [OF ok] by (simp_all add: word_le_nat_alt mmbuf_get_data_end_def)
  have dl: "unat (bf_data_len b - of_nat n) = length d" using len n unat_sub [OF le(1)] by simp
  have pt: "unat (mmbuf_get_data_end b - of_nat n) = unat (bf_start_offset b) + length d"
    using len n unat_sub [OF le(2)] mmbuf_end [OF ok] by (simp add: mmbuf_get_data_end_def)
  have r: "region (bf_buf b) (unat (bf_start_offset b)) (length d + n) = d @ t"
    using d(1) len by (simp add: mmbuf_data_def)
  have "mmbuf_remove_from_end b (of_nat n) = (?b, Some (mmbuf_get_data_end b - of_nat n))"
    using le(1) by (simp add: mmbuf_remove_from_end_def mmbuf_get_data_length_def)
  moreover have "mmbuf_ok ?b" using ok dl len by (simp add: mmbuf_ok_def)
  moreover have "mmbuf_data ?b = d"
    using arg_cong [OF r, of "take (length d)"] dl by (simp add: mmbuf_data_def region_def)
  moreover have "load_n (bf_buf b) (unat (mmbuf_get_data_end b - of_nat n)) n = Some t"
    using arg_cong [OF r, of "drop (length d)"] pt ok len
    by (simp add: load_n_def region_def mmbuf_ok_def drop_take add.commute)
  ultimately show ?thesis using that by simp
qed

lemma handle_command_ok:
  assumes env: "rf_env_ok env" and b: "mmbuf_ok cmd_buf" "mmbuf_data cmd_buf = cmd @ seq" "length seq = 4"
  shows "rf_test_handle_command env cmd_buf w = Some (w\<lparr>rf_uart := rf_uart w @ slip_frame (rf_reply env (rf_executed w) cmd seq),
    rf_executed := rf_executed w @ [cmd], rf_live := rf_live w - 1\<rparr>)"
proof -
  obtain rsp where rsp: "mmbuf_alloc_on_heap (rf_malloc env) 0 (SEQ_NUM_LEN + RESPONSE_MAX_LEN) = Some rsp"
    using env by (auto simp: rf_env_ok_def)
  have fresh: "mmbuf_ok rsp" "mmbuf_data rsp = []" "2052 \<le> mmbuf_tailroom rsp"
    using mmbuf_alloc_fresh [OF _ _ rsp] env by (simp_all add: rf_env_ok_def SEQ_NUM_LEN_def RESPONSE_MAX_LEN_def)
  obtain status response where ate: "rf_ate env (rf_executed w) cmd = (status, response)" by force
  have short: "length response \<le> 2046" using env ate by (metis rf_env_ok_def snd_conv)
  have "unat (mmbuf_get_data_end rsp) + length response \<le> length (bf_buf rsp)"
    using fresh short mmbuf_rooms(2) [OF fresh(1)] mmbuf_end [OF fresh(1)]
    by (simp add: mmbuf_ok_def mmbuf_get_data_end_def)
  then obtain mem where mem: "blit (bf_buf rsp) (unat (mmbuf_get_data_end rsp)) response = Some mem"
    by (simp add: blit_def)
  obtain b1 where b1: "rf_response status response (rsp\<lparr>bf_buf := mem\<rparr>) = Some b1" "mmbuf_ok b1"
    "mmbuf_data b1 = response_bytes status response" "6 \<le> mmbuf_tailroom b1"
    by (rule rf_response_ok [OF fresh short mem])
  obtain b2 where b2: "mmbuf_put b1 seq = Some b2" "mmbuf_ok b2" "mmbuf_data b2 = response_bytes status response @ seq"
    "mmbuf_tailroom b2 = mmbuf_tailroom b1 - 4"
    using mmbuf.put_law [OF b1(2), of seq] b1 b(3) by auto
  let ?crc = "mmcrc_16_xmodem 0 (mmbuf_data b2)"
  have "length (le16 ?crc) \<le> mmbuf_tailroom b2" using b1(4) b2(4) by (simp add: length_le16)
  then obtain b3 where b3: "mmbuf_put b2 (le16 ?crc) = Some b3" "mmbuf_ok b3" "mmbuf_data b3 = with_crc (mmbuf_data b2)"
    using mmbuf.put_law [OF b2(2)] by (metis with_crc_def)
  obtain cmd' where rm: "mmbuf_remove_from_end cmd_buf SEQ_NUM_LEN = (cmd', Some (mmbuf_get_data_end cmd_buf - SEQ_NUM_LEN))"
    and c': "mmbuf_ok cmd'" "mmbuf_data cmd' = cmd" "bf_buf cmd' = bf_buf cmd_buf"
    and sq: "load_n (bf_buf cmd_buf) (unat (mmbuf_get_data_end cmd_buf - SEQ_NUM_LEN)) 4 = Some seq"
    using remove_tail [OF b] by (metis SEQ_NUM_LEN_def of_nat_numeral)
  have app: "mmbuf_append rsp 0 = Some (rsp, mmbuf_get_data_end rsp)"
    by (simp add: mmbuf_append_def Let_def)
  have a1: "mmbuf_append_data b1 seq SEQ_NUM_LEN = Some b2"
    using append_is_put [of seq SEQ_NUM_LEN b1] b(3) b2(1) by (simp add: SEQ_NUM_LEN_def)
  have a2: "mmbuf_append_data b2 (le16 ?crc) 2 = Some b3"
    using append_is_put [of "le16 ?crc" 2 b2] b3(1) by (simp add: length_le16)
  have wr: "write_ok (rf_write env)" using env by (simp add: rf_env_ok_def)
  show ?thesis
    using rm rsp app ate mem b1(1) sq a1 a2 b2(3) b3(3) bytes_data [OF c'(1)] bytes_data [OF b2(2)] bytes_data [OF b3(2)] c'
    by (simp add: rf_test_handle_command_def Let_def slip_tx_uart [OF wr] rf_reply_def SEQ_NUM_LEN_def)
qed

lemma handle_command_short:
  assumes "mmbuf_ok cmd_buf" "length (mmbuf_data cmd_buf) < 4"
  shows "rf_test_handle_command env cmd_buf w = Some (w\<lparr>rf_live := rf_live w - 1\<rparr>)"
  using assms length_mmbuf_data [OF assms(1)]
  by (simp add: rf_test_handle_command_def mmbuf_remove_from_end_def mmbuf_get_data_length_def SEQ_NUM_LEN_def
      word_less_nat_alt)

section \<open>Frames\<close>

text \<open>What a frame does to the world, from its contents: the reference for reception.\<close>

definition crc_valid :: "u8 list \<Rightarrow> bool" where
  "crc_valid packet \<longleftrightarrow> (\<exists>body. packet = with_crc body)"

definition frame_effect :: "rf_env \<Rightarrow> u8 list \<Rightarrow> rf_world \<Rightarrow> rf_world" where
  "frame_effect env packet w =
     (let body = take (length packet - 2) packet; n = length body - 4; cmd = take n body; seq = drop n body in
      if 2 \<le> length packet \<and> packet = with_crc body \<and> 4 \<le> length body \<and>
        mmbuf_alloc_on_heap (rf_malloc env) 0 (of_nat (length packet)) \<noteq> None
      then w\<lparr>rf_uart := rf_uart w @ slip_frame (rf_reply env (rf_executed w) cmd seq), rf_executed := rf_executed w @ [cmd]\<rparr>
      else w)"

lemma low_byte: "(crc :: u16) AND 0xFF = ucast (ucast crc :: u8)"
proof -
  have m: "(0xFF :: u16) = mask 8" by (simp add: mask_eq_exp_minus_1)
  show ?thesis unfolding m by (rule bit_word_eqI) (auto simp: bit_and_iff bit_mask_iff bit_unsigned_iff)
qed

lemma high_byte: "drop_bit 8 crc = (ucast (ucast (drop_bit 8 (crc :: u16)) :: u8) :: u16)"
proof (rule bit_word_eqI)
  fix n
  show "bit (drop_bit 8 crc) n \<longleftrightarrow> bit (ucast (ucast (drop_bit 8 crc) :: u8) :: u16) n"
    using bit_imp_le_length [of crc "8 + n"] by (auto simp: bit_simps)
qed

lemma widen_inj: "(ucast (a :: u8) :: u16) = ucast b \<longleftrightarrow> a = b"
proof -
  have "ucast (ucast c :: u16) = c" for c :: u8 by (rule bit_word_eqI) (auto simp: bit_simps)
  then show ?thesis by metis
qed

lemma le16_match: "ucast lo = crc AND 0xFF \<and> ucast hi = drop_bit 8 crc \<longleftrightarrow> [lo, hi] = le16 (crc :: u16)"
  by (subst low_byte, subst high_byte) (simp add: widen_inj le16_def)

lemma split_last_two: "2 \<le> length p \<Longrightarrow> p = take (length p - 2) p @ [p ! (length p - 2), p ! (length p - 1)]"
  by (rule nth_equalityI) (auto simp: nth_append nth_Cons' not_less, (rule arg_cong [of _ _ "nth p"], simp)+)

lemma frame_effect_valid:
  assumes "packet = with_crc body" "4 \<le> length body"
    and "mmbuf_alloc_on_heap (rf_malloc env) 0 (of_nat (length packet)) \<noteq> None"
  shows "frame_effect env packet w =
    w\<lparr>rf_uart := rf_uart w @ slip_frame (rf_reply env (rf_executed w) (take (length body - 4) body) (drop (length body - 4) body)),
      rf_executed := rf_executed w @ [take (length body - 4) body]\<rparr>"
proof -
  have b: "take (length packet - 2) packet = body" "2 \<le> length packet"
    using assms(1) by (simp_all add: with_crc_def length_le16)
  show ?thesis unfolding frame_effect_def Let_def b(1) using assms b(2) by simp
qed

lemma rf_frame_effect:
  assumes env: "rf_env_ok env" and st: "slip_inv st" "slip_buffer_length st < 2 ^ 31"
  shows "rf_frame env st w = Some (if slip_length st < 2 then st else st\<lparr>slip_length := 0\<rparr>,
    frame_effect env (take (slip_length st) (slip_buffer st)) w)"
proof (cases "slip_length st < 2")
  case True
  then show ?thesis by (simp add: rf_frame_def frame_effect_def Let_def)
next
  case False
  let ?len = "slip_length st" let ?p = "take ?len (slip_buffer st)" let ?body = "take (?len - 2) ?p"
  have l: "length ?p = ?len" "?len < 2 ^ 31" "?len \<le> length (slip_buffer st)" using st by (auto simp: slip_inv_def)
  have body: "load_n (slip_buffer st) 0 (?len - 2) = Some ?body"
    using l by (simp add: load_n_def region_def)
  have tail: "load (slip_buffer st) (?len - 2) = Some (?p ! (?len - 2))"
      "load (slip_buffer st) (?len - 1) = Some (?p ! (?len - 1))"
    using l False by (simp_all add: load_def)
  have match: "(ucast (?p ! (?len - 2)) = crc AND 0xFF \<and> ucast (?p ! (?len - 1)) = drop_bit 8 crc) \<longleftrightarrow>
      ?p = with_crc ?body" if "crc = mmcrc_16_xmodem 0 ?body" for crc
    unfolding le16_match using split_last_two [of ?p] l(1) False that
    by (metis append_same_eq same_append_eq with_crc_def not_less)
  show ?thesis
  proof (cases "?p = with_crc ?body \<and> mmbuf_alloc_on_heap (rf_malloc env) 0 (of_nat ?len) \<noteq> None")
    case False2: False
    then show ?thesis using body tail match False l
      by (auto simp: rf_frame_def frame_effect_def Let_def)
  next
    case True
    then obtain b where a: "mmbuf_alloc_on_heap (rf_malloc env) 0 (of_nat ?len) = Some b" by blast
    have n: "unat (of_nat ?len :: u32) = ?len" using l(2) by (intro unat_of_nat32) simp
    have fresh: "mmbuf_ok b" "mmbuf_data b = []" "?len \<le> mmbuf_tailroom b"
      using mmbuf_alloc_fresh [OF _ _ a] env n l(2) by (simp_all add: rf_env_ok_def)
    obtain b1 where b1: "mmbuf_put b ?p = Some b1" "mmbuf_ok b1" "mmbuf_data b1 = ?p"
      using mmbuf.put_law [OF fresh(1), of ?p] fresh l by auto
    have app: "mmbuf_append_data b (slip_buffer st) (of_nat ?len) = Some b1"
      using append_data_prefix [of "of_nat ?len" "slip_buffer st" b] append_is_put [of ?p "of_nat ?len" b] n l b1(1)
      by simp
    have "mmbuf_data b1 = ?body @ le16 (mmcrc_16_xmodem 0 ?body)" by (rule trans [OF b1(3) conjunct1 [OF True, unfolded with_crc_def]])
    then obtain b2 r where b2: "mmbuf_remove_from_end b1 2 = (b2, r)" "mmbuf_ok b2" "mmbuf_data b2 = ?body"
      using remove_tail [OF b1(2) _ length_le16] by (metis of_nat_numeral)
    let ?w = "w\<lparr>rf_live := rf_live w + 1\<rparr>" and ?n = "length ?body - 4"
    have frame: "rf_frame env st w = map_option (Pair (st\<lparr>slip_length := 0\<rparr>)) (rf_test_handle_command env b2 ?w)"
      using False body tail match True a app b2(1)
      by (simp add: rf_frame_def Let_def map_conv_bind_option o_def)
    show ?thesis
    proof (cases "length ?body < 4")
      case short: True
      then have "rf_test_handle_command env b2 ?w = Some w" using handle_command_short [OF b2(2)] b2(3) by simp
      then show ?thesis using frame False short l by (simp add: frame_effect_def Let_def)
    next
      case long: False
      have d: "mmbuf_data b2 = take ?n ?body @ drop ?n ?body" unfolding b2(3) by (rule append_take_drop_id [symmetric])
      have "length (drop ?n ?body) = 4" unfolding length_drop using long by linarith
      note h = handle_command_ok [OF env b2(2) d this, of ?w]
      have ld: "4 \<le> length ?body" using long by linarith
      have al: "mmbuf_alloc_on_heap (rf_malloc env) 0 (of_nat (length ?p)) \<noteq> None" using True l(1) by simp
      show ?thesis unfolding frame h frame_effect_valid [OF conjunct1 [OF True] ld al] using False by simp
    qed
  qed
qed

section \<open>Streams\<close>

text \<open>The receiver between frames.\<close>

definition rf_ready :: "slip_rx_state \<Rightarrow> bool" where
  "rf_ready st \<longleftrightarrow> slip_inv st \<and> \<not> slip_escape st \<and> slip_length st = 0 \<and> slip_buffer_length st = SLIP_RX_BUFFER_SIZE"

lemma handler_append:
  "uart_rx_handler env (xs @ ys) st w = do { (st, w) \<leftarrow> uart_rx_handler env xs st w; uart_rx_handler env ys st w }"
  by (induction xs arbitrary: st w) (auto simp: bind_eq_Some_conv split: prod.splits option.splits Option.bind_splits)

lemma handler_complete:
  assumes "slip_rx_stream st cs = Some (st', replicate (length cs - 1) SLIP_RX_IN_PROGRESS @ [SLIP_RX_COMPLETE])"
  shows "uart_rx_handler env cs st w = rf_frame env st' w"
  using assms
proof (induction cs arbitrary: st)
  case (Cons c cs)
  then obtain st1 r rs where r: "slip_rx st c = Some (st1, r)" "slip_rx_stream st1 cs = Some (st', rs)"
    "r # rs = replicate (length cs) SLIP_RX_IN_PROGRESS @ [SLIP_RX_COMPLETE]"
    by (auto simp: bind_eq_Some_conv)
  show ?case
  proof (cases cs)
    case Nil
    then show ?thesis using r by (cases "rf_frame env st' w") auto
  next
    case (Cons d ds)
    then show ?thesis using r Cons.IH [of st1] by simp
  qed
qed simp

lemma frame_received:
  assumes "rf_env_ok env" "rf_ready st" "length packet \<le> SLIP_RX_BUFFER_SIZE" "2 \<le> length packet"
  obtains st' where "uart_rx_handler env (slip_frame packet) st w = Some (st', frame_effect env packet w)" "rf_ready st'"
proof -
  have "packet \<noteq> []" using assms(4) by auto
  then obtain st1 where st1: "slip_rx_stream st (slip_frame packet) =
       Some (st1, replicate (length (slip_frame packet) - 1) SLIP_RX_IN_PROGRESS @ [SLIP_RX_COMPLETE])"
    "slip_inv st1" "\<not> slip_escape st1" "take (slip_length st1) (slip_buffer st1) = packet"
    "slip_length st1 = length packet" "slip_buffer_length st1 = slip_buffer_length st"
    using slip_rx_frame [of st packet] assms(2,3) unfolding rf_ready_def by metis
  have "slip_buffer_length st1 < 2 ^ 31" using st1(6) assms(2) by (simp add: rf_ready_def SLIP_RX_BUFFER_SIZE_def)
  note f = rf_frame_effect [OF assms(1) st1(2) this, of w]
  show ?thesis
  proof (rule that [of "st1\<lparr>slip_length := 0\<rparr>"])
    show "uart_rx_handler env (slip_frame packet) st w = Some (st1\<lparr>slip_length := 0\<rparr>, frame_effect env packet w)"
      using handler_complete [OF st1(1)] f st1(4,5) assms(4) by simp
    show "rf_ready (st1\<lparr>slip_length := 0\<rparr>)"
      using st1(2,3,6) assms(2) by (simp add: rf_ready_def slip_inv_def)
  qed
qed

lemma rf_ready_init: "length buf = SLIP_RX_BUFFER_SIZE \<Longrightarrow> rf_ready (SLIP_RX_STATE_INIT buf SLIP_RX_BUFFER_SIZE)"
  by (simp add: rf_ready_def slip_inv_def SLIP_RX_STATE_INIT_def)

text \<open>The world after a sequence of numbered commands, each executed after those before it.\<close>

fun rf_replies :: "rf_env \<Rightarrow> u8 list list \<Rightarrow> (u8 list \<times> u8 list) list \<Rightarrow> u8 list list" where
  "rf_replies env history [] = []"
| "rf_replies env history ((cmd, seq) # cs) = rf_reply env history cmd seq # rf_replies env (history @ [cmd]) cs"

lemma command_effect:
  assumes "length seq = 4" "\<forall>n. mmbuf_alloc_on_heap (rf_malloc env) 0 n \<noteq> None"
  shows "frame_effect env (with_crc (cmd @ seq)) w =
    w\<lparr>rf_uart := rf_uart w @ slip_frame (rf_reply env (rf_executed w) cmd seq), rf_executed := rf_executed w @ [cmd]\<rparr>"
  using frame_effect_valid [OF refl, of "cmd @ seq" env w] assms by simp

lemma commands_received:
  assumes "rf_env_ok env" "\<forall>n. mmbuf_alloc_on_heap (rf_malloc env) 0 n \<noteq> None"
    and "\<forall>(cmd, seq) \<in> set cs. length seq = 4 \<and> length cmd + 6 \<le> SLIP_RX_BUFFER_SIZE" "rf_ready st"
  shows "\<exists>st'. rf_ready st' \<and> uart_rx_handler env (concat (map (\<lambda>(cmd, seq). slip_frame (with_crc (cmd @ seq))) cs)) st w =
    Some (st', w\<lparr>rf_uart := rf_uart w @ concat (map slip_frame (rf_replies env (rf_executed w) cs)),
      rf_executed := rf_executed w @ map fst cs\<rparr>)"
  using assms(3,4)
proof (induction cs arbitrary: st w)
  case (Cons c cs)
  obtain cmd seq where c: "c = (cmd, seq)" by force
  let ?p = "with_crc (cmd @ seq)" and ?w = "frame_effect env (with_crc (cmd @ seq)) w"
  have len: "length ?p \<le> SLIP_RX_BUFFER_SIZE" "2 \<le> length ?p" "length seq = 4"
    using Cons.prems c by (auto simp: with_crc_def length_le16)
  obtain st1 where st1: "uart_rx_handler env (slip_frame ?p) st w = Some (st1, ?w)" "rf_ready st1"
    by (rule frame_received [OF assms(1) Cons.prems(2) len(1,2)])
  note e = command_effect [OF len(3) assms(2), of cmd w]
  show ?case using Cons.IH [of st1 ?w] Cons.prems(1) st1 c e by (auto simp: handler_append)
qed simp


text \<open>An environment with a heap that never runs out, an echo for a command processor and a UART that takes one byte
  at a time.\<close>

definition echo_env :: rf_env where
  "echo_env = \<lparr>rf_malloc = (\<lambda>n. Some (replicate (unat n - 24) 0)),
     rf_ate = (\<lambda>h c. if c = [] then (MMWLAN_INVALID_ARGUMENT, []) else (MMWLAN_SUCCESS, take 2046 c)), rf_write = (\<lambda>s d. 1)\<rparr>"

lemma echo_alloc: "mmbuf_alloc_on_heap (rf_malloc echo_env) a b \<noteq> None"
  by (simp add: mmbuf_alloc_on_heap_def echo_env_def Let_def)

lemma echo_env_ok: "rf_env_ok echo_env"
  unfolding rf_env_ok_def using echo_alloc
  by (auto simp: malloc_law_def write_ok_def echo_env_def Suc_le_eq)


section \<open>Corrupted and arbitrary input\<close>

lemma with_crc_inj:
  assumes "i < length (with_crc body)" "y \<noteq> with_crc body ! i"
  shows "\<not> crc_valid ((with_crc body)[i := y])"
proof
  assume "crc_valid ((with_crc body)[i := y])"
  then obtain b where b: "(with_crc body)[i := y] = with_crc b" by (auto simp: crc_valid_def)
  have lb: "length b = length body" using arg_cong [OF b, of length] by (simp add: with_crc_def length_le16)
  show False
  proof (cases "i < length body")
    case True
    then have "b = body[i := y]" "le16 (mmcrc_16_xmodem 0 b) = le16 (mmcrc_16_xmodem 0 body)"
      using b lb by (simp_all add: with_crc_def list_update_append)
    moreover have "mmcrc_16_xmodem 0 (body[i := y]) \<noteq> mmcrc_16_xmodem 0 body"
      using mmcrc_detects_byte_error [of 0 "take i body" y "drop (Suc i) body" "body ! i"] True assms(2)
      by (simp add: upd_conv_take_nth_drop id_take_nth_drop [symmetric] with_crc_def nth_append)
    ultimately show False using load_le16_at(1) [of 0 _ _ "[]"] by (metis append_Nil2 drop0 option.inject)
  next
    case False
    then have "b = body" using b lb by (simp add: with_crc_def list_update_append)
    then show False using b assms by (metis nth_list_update_eq)
  qed
qed

text \<open>C40: A damaged command is not executed: when one byte of a packet, in the command, its number or its
  checksum, arrives changed, nothing is executed and nothing is sent, and the receiver is ready for the next
  frame.\<close>

theorem rf_damaged_ignored:
  assumes "rf_env_ok env" "rf_ready st" "length body + 2 \<le> SLIP_RX_BUFFER_SIZE"
    and "i < length (with_crc body)" "y \<noteq> with_crc body ! i"
  shows "\<exists>st'. uart_rx_handler env (slip_frame ((with_crc body)[i := y])) st w = Some (st', w) \<and> rf_ready st'"
proof -
  let ?p = "(with_crc body)[i := y]"
  have "length ?p \<le> SLIP_RX_BUFFER_SIZE" "2 \<le> length ?p" using assms(3) by (simp_all add: with_crc_def length_le16)
  then obtain st' where st': "uart_rx_handler env (slip_frame ?p) st w = Some (st', frame_effect env ?p w)" "rf_ready st'"
    using frame_received [OF assms(1,2)] by metis
  have "frame_effect env ?p w = w"
    using with_crc_inj [OF assms(4,5)] by (auto simp: frame_effect_def Let_def crc_valid_def)
  then show ?thesis using st' by auto
qed

theorem rf_damaged_ignored_witness:
  "\<exists>st'. uart_rx_handler echo_env (slip_frame ((with_crc [7, 0, 0, 0, 1])[0 := 6]))
     (SLIP_RX_STATE_INIT (replicate 2000 0) 2000) \<lparr>rf_uart = [], rf_executed = [], rf_live = 0\<rparr> =
     Some (st', \<lparr>rf_uart = [], rf_executed = [], rf_live = 0\<rparr>) \<and> rf_ready st'"
  using rf_damaged_ignored [OF echo_env_ok rf_ready_init [of "replicate 2000 0"], of "[7, 0, 0, 0, 1]" 0 6
      "\<lparr>rf_uart = [], rf_executed = [], rf_live = 0\<rparr>"]
  by (simp add: SLIP_RX_BUFFER_SIZE_def with_crc_def)

lemma slip_rx_buffer_length: "slip_rx st c = Some (st', r) \<Longrightarrow> slip_buffer_length st' = slip_buffer_length st"
  by (auto simp: slip_rx_def slip_rx_append_def slip_rx_state_reinit_def Let_def bind_eq_Some_conv split: if_splits)

lemma stream_effects:
  assumes "rf_env_ok env" "slip_inv st" "slip_buffer_length st < 2 ^ 31"
  shows "\<exists>st' packets. uart_rx_handler env cs st w = Some (st', foldl (\<lambda>w p. frame_effect env p w) w packets) \<and> slip_inv st'"
  using assms(2,3)
proof (induction cs arbitrary: st w)
  case Nil
  then show ?case by (auto intro: exI [of _ "[]"])
next
  case (Cons c cs)
  obtain st1 r where r: "slip_rx st c = Some (st1, r)" "slip_inv st1" using slip_rx_safe [OF Cons.prems(1)] by blast
  note bl = slip_rx_buffer_length [OF r(1)]
  show ?case
  proof (cases "r = SLIP_RX_COMPLETE")
    case True
    let ?p = "take (slip_length st1) (slip_buffer st1)"
    let ?st = "if slip_length st1 < 2 then st1 else st1\<lparr>slip_length := 0\<rparr>"
    have f: "rf_frame env st1 w = Some (?st, frame_effect env ?p w)"
      using rf_frame_effect [OF assms(1) r(2)] bl Cons.prems(2) by simp
    have i: "slip_inv ?st" "slip_buffer_length ?st < 2 ^ 31" using r(2) bl Cons.prems(2) by (simp_all add: slip_inv_def)
    obtain st' ps where "uart_rx_handler env cs ?st (frame_effect env ?p w) =
        Some (st', foldl (\<lambda>w p. frame_effect env p w) (frame_effect env ?p w) ps)" "slip_inv st'"
      using Cons.IH [OF i, of "frame_effect env ?p w"] by blast
    then show ?thesis using r(1) True f by (intro exI [of _ st'] exI [of _ "?p # ps"]) simp
  next
    case False
    then show ?thesis using Cons.IH [of st1 w] r bl Cons.prems(2) by simp
  qed
qed

lemma effect_step:
  obtains "frame_effect env p w = w"
  | cmd reply where "frame_effect env p w = w\<lparr>rf_uart := rf_uart w @ slip_frame reply, rf_executed := rf_executed w @ [cmd]\<rparr>"
proof -
  assume *: "frame_effect env p w = w \<Longrightarrow> thesis"
    "\<And>cmd reply. frame_effect env p w =
      w\<lparr>rf_uart := rf_uart w @ slip_frame reply, rf_executed := rf_executed w @ [cmd]\<rparr> \<Longrightarrow> thesis"
  show thesis by (cases "frame_effect env p w = w", erule *(1), rule *(2))
    (simp add: frame_effect_def Let_def split: if_splits)
qed

lemma effects_total:
  "\<exists>new replies. foldl (\<lambda>w p. frame_effect env p w) w packets =
     w\<lparr>rf_uart := rf_uart w @ concat (map slip_frame replies), rf_executed := rf_executed w @ new\<rparr> \<and>
     length replies = length new"
proof (induction packets arbitrary: w)
  case Nil
  show ?case by (intro exI [of _ "[]"]) simp
next
  case (Cons p ps)
  obtain new replies where n: "foldl (\<lambda>w p. frame_effect env p w) (frame_effect env p w) ps = (frame_effect env p w)
      \<lparr>rf_uart := rf_uart (frame_effect env p w) @ concat (map slip_frame replies),
       rf_executed := rf_executed (frame_effect env p w) @ new\<rparr>" "length replies = length new"
    using Cons.IH [of "frame_effect env p w"] by blast
  show ?case
  proof (cases rule: effect_step [of env p w])
    case 1
    then show ?thesis using n by auto
  next
    case (2 cmd reply)
    then show ?thesis using n by (intro exI [of _ "cmd # new"] exI [of _ "reply # replies"]) simp
  qed
qed



section \<open>Two defects\<close>

lemma handler_progress:
  assumes "slip_rx_stream st cs = Some (st', replicate (length cs) SLIP_RX_IN_PROGRESS)"
  shows "uart_rx_handler env (cs @ ds) st w = uart_rx_handler env ds st' w"
  using assms by (induction cs arbitrary: st) (auto simp: bind_eq_Some_conv)

lemma with_crc_zero: "with_crc (0 # body) = 0 # with_crc body"
  by (simp add: with_crc_def crc16_xmodem_lookup_table_def)

lemma short_frame_kept:
  assumes "rf_env_ok env" "rf_ready st" "length packet < SLIP_RX_BUFFER_SIZE"
  shows "\<exists>st'. uart_rx_handler env (slip_frame [b] @ slip_frame packet) st w = Some (st', frame_effect env (b # packet) w)"
proof -
  obtain st1 where st1: "slip_rx_stream st (slip_frame [b]) =
       Some (st1, replicate (length (slip_frame [b]) - 1) SLIP_RX_IN_PROGRESS @ [SLIP_RX_COMPLETE])"
    "slip_inv st1" "slip_frame_started st1" "\<not> slip_escape st1" "take (slip_length st1) (slip_buffer st1) = [b]"
    "slip_length st1 = 1" "slip_buffer_length st1 = slip_buffer_length st"
    using slip_rx_frame [of st "[b]"] assms(2) by (auto simp: rf_ready_def SLIP_RX_BUFFER_SIZE_def)
  have f1: "rf_frame env st1 w = Some (st1, w)" using st1(6) by (simp add: rf_frame_def)
  let ?esc = "concat (map slip_escape_char packet)"
  obtain st2 where st2: "slip_rx_stream st1 ?esc = Some (st2, replicate (length ?esc) SLIP_RX_IN_PROGRESS)"
    "slip_inv st2" "slip_frame_started st2" "\<not> slip_escape st2" "slip_length st2 = slip_length st1 + length packet"
    "slip_buffer_length st2 = slip_buffer_length st1"
    "take (slip_length st2) (slip_buffer st2) = take (slip_length st1) (slip_buffer st1) @ packet"
    using slip_rx_payload [OF st1(2-4), of packet] st1(6,7) assms(2,3) by (auto simp: rf_ready_def)
  have e: "slip_rx st1 SLIP_FRAME_END = Some (st1, SLIP_RX_COMPLETE)" "slip_rx st2 SLIP_FRAME_END = Some (st2, SLIP_RX_COMPLETE)"
    using st1(4,6) st2(4,5) by (simp_all add: slip_rx_def)
  have "slip_buffer_length st2 < 2 ^ 31" using st2(6) st1(7) assms(2) by (simp add: rf_ready_def SLIP_RX_BUFFER_SIZE_def)
  note f2 = rf_frame_effect [OF assms(1) st2(2) this, of w]
  have "uart_rx_handler env (slip_frame packet) st1 w = uart_rx_handler env (?esc @ [SLIP_FRAME_END]) st1 w"
    using e(1) f1 by (simp add: slip_frame_def)
  also have "\<dots> = rf_frame env st2 w" unfolding handler_progress [OF st2(1)] using e(2) by (cases "rf_frame env st2 w") auto
  finally show ?thesis
    using handler_complete [OF st1(1), of env w] f1 f2 st2(7) st1(5) by (simp add: handler_append)
qed

text \<open>A frame that is too short is left in the buffer: after a frame of the single byte 0, the next command,
  although sent correctly, is executed with that byte put in front of it, and its checksum still fits.\<close>

theorem rf_short_frame_prepends:
  assumes "rf_env_ok env" "\<forall>n. mmbuf_alloc_on_heap (rf_malloc env) 0 n \<noteq> None" "rf_ready st" "length seq = 4"
    and "length cmd + 6 < SLIP_RX_BUFFER_SIZE"
  shows "\<exists>st' w'. uart_rx_handler env (slip_frame [0] @ slip_frame (with_crc (cmd @ seq))) st w = Some (st', w') \<and>
    rf_executed w' = rf_executed w @ [0 # cmd]"
proof -
  have "length (with_crc (cmd @ seq)) < SLIP_RX_BUFFER_SIZE" using assms(4,5) by (simp add: with_crc_def length_le16)
  from short_frame_kept [OF assms(1,3) this, of 0 w] show ?thesis
    using command_effect [OF assms(4,2), of "0 # cmd" w] by (auto simp: with_crc_zero)
qed

theorem rf_short_frame_prepends_witness:
  "\<exists>st' w'. uart_rx_handler echo_env (slip_frame [0] @ slip_frame (with_crc [7, 0, 0, 0, 1]))
     (SLIP_RX_STATE_INIT (replicate 2000 0) 2000) \<lparr>rf_uart = [], rf_executed = [], rf_live = 0\<rparr> = Some (st', w') \<and>
    rf_executed w' = [[0, 7]]"
  using rf_short_frame_prepends [OF echo_env_ok _ rf_ready_init [of "replicate 2000 0"], of "[0, 0, 0, 1]" "[7]"
      "\<lparr>rf_uart = [], rf_executed = [], rf_live = 0\<rparr>"] echo_alloc
  by (simp add: SLIP_RX_BUFFER_SIZE_def)

text \<open>The response buffer has room for the longest response and the number, not for the checksum.\<close>

lemma response_tailroom:
  assumes "malloc_law m" "mmbuf_alloc_on_heap m 0 (SEQ_NUM_LEN + RESPONSE_MAX_LEN) = Some b"
  shows "mmbuf_ok b" "mmbuf_data b = []" "mmbuf_tailroom b = 2052"
proof -
  show "mmbuf_ok b" "mmbuf_data b = []"
    using mmbuf_alloc_fresh [OF assms(1) _ assms(2)] by (simp_all add: SEQ_NUM_LEN_def RESPONSE_MAX_LEN_def)
  have "MM_FAST_ROUND_UP 2052 4 = 2052" by (simp add: MM_FAST_ROUND_UP_def)
  then show "mmbuf_tailroom b = 2052" using assms(2)
    by (auto simp: mmbuf_alloc_on_heap_def SEQ_NUM_LEN_def RESPONSE_MAX_LEN_def mmbuf_tailroom_def
        mmbuf_available_space_at_end_def mmbuf_init_def Let_def split: option.splits)
qed

lemma rf_long_response_asserts:
  assumes m: "malloc_law (rf_malloc env)" and b: "mmbuf_ok cmd_buf" "mmbuf_data cmd_buf = cmd @ seq" "length seq = 4"
    and ate: "rf_ate env (rf_executed w) cmd = (MMWLAN_SUCCESS, response)" "2046 < length response"
    "length response \<le> unat RESPONSE_MAX_LEN"
  shows "rf_test_handle_command env cmd_buf w = None"
proof (cases "mmbuf_alloc_on_heap (rf_malloc env) 0 (SEQ_NUM_LEN + RESPONSE_MAX_LEN)")
  case None
  then show ?thesis
    using b length_mmbuf_data [OF b(1)]
    by (simp add: rf_test_handle_command_def mmbuf_remove_from_end_def mmbuf_get_data_length_def SEQ_NUM_LEN_def
        word_less_nat_alt)
next
  case (Some rsp)
  note fresh = response_tailroom [OF m Some]
  have "unat (mmbuf_get_data_end rsp) + length response \<le> length (bf_buf rsp)"
    using fresh ate(3) mmbuf_rooms(2) [OF fresh(1)] mmbuf_end [OF fresh(1)]
    by (simp add: mmbuf_ok_def mmbuf_get_data_end_def RESPONSE_MAX_LEN_def)
  then obtain mem where mem: "blit (bf_buf rsp) (unat (mmbuf_get_data_end rsp)) response = Some mem"
    by (simp add: blit_def)
  obtain b1 where b1: "mmbuf_put rsp response = Some b1" "mmbuf_ok b1" "mmbuf_tailroom b1 = 2052 - length response"
    using mmbuf.put_law [OF fresh(1), of response] fresh ate(3) by (auto simp: RESPONSE_MAX_LEN_def)
  have r: "rf_response MMWLAN_SUCCESS response (rsp\<lparr>bf_buf := mem\<rparr>) = Some b1"
    using append_after_write [OF mem] b1(1) ate(3) by (simp add: rf_response_def RESPONSE_MAX_LEN_def)
  have sl: "length seq \<le> mmbuf_tailroom b1" using b1(3) b(3) ate(3) by (simp add: RESPONSE_MAX_LEN_def)
  obtain b2 where b2: "mmbuf_put b1 seq = Some b2" "mmbuf_ok b2" "mmbuf_tailroom b2 = 2048 - length response"
    using mmbuf.put_law [OF b1(2) sl] b1(3) b(3) by auto
  have full: "mmbuf_append_data b2 (le16 v) 2 = None" for v
    using mmbuf.put_fails [OF b2(2), of "le16 v"] append_is_put [of "le16 v" 2 b2] b2(3) ate(2) by (simp add: length_le16)
  obtain cmd' where rm: "mmbuf_remove_from_end cmd_buf SEQ_NUM_LEN = (cmd', Some (mmbuf_get_data_end cmd_buf - SEQ_NUM_LEN))"
    and c': "mmbuf_ok cmd'" "mmbuf_data cmd' = cmd" "bf_buf cmd' = bf_buf cmd_buf"
    and sq: "load_n (bf_buf cmd_buf) (unat (mmbuf_get_data_end cmd_buf - SEQ_NUM_LEN)) 4 = Some seq"
    using remove_tail [OF b] by (metis SEQ_NUM_LEN_def of_nat_numeral)
  have "mmbuf_append_data b1 seq 4 = Some b2"
    using append_is_put [of seq 4 b1] b(3) b2(1) by simp
  moreover have "mmbuf_append rsp 0 = Some (rsp, mmbuf_get_data_end rsp)"
    by (simp add: mmbuf_append_def Let_def)
  ultimately show ?thesis
    using rm Some ate(1) mem r sq full bytes_data [OF c'(1)] bytes_data [OF b2(2)] c'
    by (simp add: rf_test_handle_command_def Let_def SEQ_NUM_LEN_def)
qed

section \<open>The receive task\<close>

text \<open>The task waits for a byte without a time limit and looks at \<open>run\<close> only after one has arrived:
  \<open>mmhal_uart_deinit\<close> returns only if the other side sends once more.\<close>

lemma deinit_needs_a_byte:
  assumes "ua_handle ua" "\<not> ua_complete ua"
  shows "mmhal_uart_deinit_end (mmhal_uart_deinit_start ua) = None"
    and "uart_rx_step env data (mmhal_uart_deinit_start ua, st, w) = Some (ua', st', w') \<Longrightarrow>
      mmhal_uart_deinit_end ua' = Some (ua'\<lparr>ua_handle := False\<rparr>)"
  using assms by (auto simp: mmhal_uart_deinit_end_def mmhal_uart_deinit_start_def uart_rx_step_def Let_def
      bind_eq_Some_conv split: if_splits)

text \<open>Reading the stream one byte at a time is the same as handling it in one piece.\<close>

lemma task_handles_stream:
  "foldl (\<lambda>s c. Option.bind s (uart_rx_step env [c])) (Some (mmhal_uart_init True h, st, w)) cs =
     map_option (Pair (mmhal_uart_init True h)) (uart_rx_handler env cs st w)"
proof (induction cs arbitrary: st w)
  case (Cons c cs)
  have none: "foldl (\<lambda>s c. Option.bind s (uart_rx_step env [c])) None cs = None" by (induction cs) simp_all
  have step: "uart_rx_step env [c] (mmhal_uart_init True h, st, w) =
      map_option (Pair (mmhal_uart_init True h)) (uart_rx_handler env [c] st w)"
    by (cases "uart_rx_handler env [c] st w")
      (auto simp: uart_rx_step_def mmhal_uart_init_def simp del: uart_rx_handler.simps)
  have app: "uart_rx_handler env (c # cs) st w =
      Option.bind (uart_rx_handler env [c] st w) (\<lambda>(st, w). uart_rx_handler env cs st w)"
    using handler_append [of env "[c]" cs st w] by (simp del: uart_rx_handler.simps)
  show ?case
  proof (cases "uart_rx_handler env [c] st w")
    case None
    then show ?thesis using none step app by (simp del: uart_rx_handler.simps)
  next
    case (Some r)
    then show ?thesis using step app Cons.IH by (cases r) (simp del: uart_rx_handler.simps)
  qed
qed (simp add: mmhal_uart_init_def)

end
