(* ===== verification/Crypto_Hash.thy ===== *)
theory Crypto_Hash
  imports Bridge_Prelude
begin

text \<open>
  The keyed hashes and ciphers that the bridge hands to the supplicant
  (\<^verbatim>\<open>framework/mm_shims/crypto_mbedtls_mm.c\<close>): constant-time selection, the entropy source and the
  lazily seeded generator, hashes and HMACs over scattered buffers, the two key derivation
  functions of IEEE 802.11, PBKDF2, AES, CMAC and key wrap. mbedTLS is a record of functions
  with their return codes, an argument of every operation; what the code relies on is stated
  as predicates on it (\<open>sha_contract\<close>, \<open>hmac_contract\<close>, \<open>aes_contract\<close>, \<open>cmac_contract\<close>).
\<close>

named_theorems crypto_simps \<open>evaluation of the crypto wrappers\<close>

section \<open>Constant-time selection\<close>

definition const_time_fill_msb :: "u32 \<Rightarrow> u32" where
  "const_time_fill_msb val = drop_bit 31 val * NOT 0"

definition const_time_is_zero :: "u32 \<Rightarrow> u32" where
  "const_time_is_zero val = const_time_fill_msb (NOT val AND (val - 1))"

definition const_time_eq :: "u32 \<Rightarrow> u32 \<Rightarrow> u32" where
  "const_time_eq a b = const_time_is_zero (a XOR b)"

definition const_time_eq_u8 :: "u32 \<Rightarrow> u32 \<Rightarrow> u8" where
  "const_time_eq_u8 a b = ucast (const_time_eq a b)"

definition const_time_select :: "u32 \<Rightarrow> u32 \<Rightarrow> u32 \<Rightarrow> u32" where
  "const_time_select msk true_val false_val = (msk AND true_val) OR (NOT msk AND false_val)"

definition const_time_select_int :: "u32 \<Rightarrow> int \<Rightarrow> int \<Rightarrow> int" where
  "const_time_select_int msk true_val false_val =
     sint (const_time_select msk (word_of_int true_val) (word_of_int false_val))"

lemma msb_iff: "bit (v :: u32) 31 \<longleftrightarrow> 2 ^ 31 \<le> unat v"
proof -
  have "unat v < 2 * 2 ^ 31" using unsigned_less [of v] by simp
  then have "unat v div 2 ^ 31 = 0 \<or> unat v div 2 ^ 31 = 1"
    using less_mult_imp_div_less [of "unat v" 2 "2 ^ 31"] by arith
  moreover have "bit v 31 \<longleftrightarrow> odd (unat v div 2 ^ 31)"
    using bit_iff_odd [of "unat v" 31] by (simp add: bit_unsigned_iff)
  moreover have "unat v div 2 ^ 31 = 0 \<longleftrightarrow> unat v < 2 ^ 31" by (simp add: div_eq_0_iff)
  ultimately show ?thesis by (metis dvd_0_right not_less odd_one)
qed

lemma fill_msb: "const_time_fill_msb v = (if bit v 31 then - 1 else 0)"
proof -
  have "bit v (31 + n) \<longleftrightarrow> n = 0 \<and> bit v 31" for n
    using bit_imp_le_length [of v "31 + n"] by (cases n) auto
  then have "drop_bit 31 v = (if bit v 31 then 1 else 0)"
    by (intro bit_word_eqI) (auto simp: bit_drop_bit_eq bit_1_iff)
  then show ?thesis by (simp add: const_time_fill_msb_def)
qed

lemma is_zero_exact: "const_time_is_zero v = (if v = 0 then - 1 else 0)"
proof (cases "v = 0")
  case False
  then have "\<not> bit (v - 1) 31" if "\<not> bit v 31"
    using that by (simp add: msb_iff unat_minus_one)
  then show ?thesis using False by (auto simp: const_time_is_zero_def fill_msb bit_simps)
qed (simp add: const_time_is_zero_def fill_msb)

text \<open>The masks are all ones or all zeros, and selection with such a mask is the conditional.\<close>

lemma const_time_eq_exact [crypto_simps]: "const_time_eq a b = (if a = b then - 1 else 0)"
  by (simp add: const_time_eq_def is_zero_exact word_xor_eq_0)

lemma ucast_minus_one_u8: "ucast (- 1 :: u32) = (0xFF :: u8)"
  by code_simp

lemma const_time_eq_u8_exact: "const_time_eq_u8 a b = (if a = b then 0xFF else 0)"
  by (simp add: const_time_eq_u8_def const_time_eq_exact ucast_minus_one_u8)

lemma const_time_select_exact [crypto_simps]:
  "const_time_select (if c then - 1 else 0) t f = (if c then t else f)"
  by (simp add: const_time_select_def)

lemma const_time_select_int_exact:
  assumes "- (2 ^ 31) \<le> t" "t < 2 ^ 31" "- (2 ^ 31) \<le> f" "f < 2 ^ 31"
  shows "const_time_select_int (if c then - 1 else 0) t f = (if c then t else f)"
  using assms by (simp add: const_time_select_int_def const_time_select_exact sint_sbintrunc'
      signed_take_bit_int_eq_self)

section \<open>Streams of equal blocks\<close>

text \<open>
  The entropy source and both key derivation functions fill a buffer with numbered blocks of one
  length and cut the last block short. \<open>blocks blk m i n\<close> is the first \<open>n\<close> bytes of the blocks
  from number \<open>i\<close> on.
\<close>

definition blocks :: "(nat \<Rightarrow> 'a list) \<Rightarrow> nat \<Rightarrow> nat \<Rightarrow> nat \<Rightarrow> 'a list" where
  "blocks blk m i n = take n (concat (map blk [i..<i + (n + m - 1) div m]))"

locale block_stream =
  fixes blk :: "nat \<Rightarrow> 'a list" and m :: nat
  assumes block_length: "length (blk i) = m" and block_pos: "0 < m"
begin

lemma blocks_step:
  assumes "m \<le> n" shows "blocks blk m i n = blk i @ blocks blk m (Suc i) (n - m)"
proof -
  have "(n + m - 1) div m = Suc ((n - m + m - 1) div m)"
    using assms block_pos div_add_self2 [of m "n - 1"] by (simp add: add.commute)
  then have "[i..<i + (n + m - 1) div m] = i # [Suc i..<Suc i + (n - m + m - 1) div m]"
    by (simp add: upt_conv_Cons)
  then show ?thesis using assms block_length by (simp add: blocks_def)
qed

lemma blocks_last:
  assumes "n < m" shows "blocks blk m i n = take n (blk i)"
proof (cases "n = 0")
  case False
  then have "(n + m - 1) div m = 1"
    using assms div_add_self2 [of m "n - 1"] by (simp add: add.commute)
  then show ?thesis by (simp add: blocks_def)
qed (simp add: blocks_def)

lemma length_concat_blocks: "length (concat (map blk is)) = length is * m"
  by (induction "is") (auto simp: block_length)

lemma length_blocks: "length (blocks blk m i n) = n"
proof -
  have "n \<le> (n + m - 1) div m * m"
    using block_pos div_mult_mod_eq [of "n + m - 1" m] mod_less_divisor [of m "n + m - 1"] by linarith
  then show ?thesis by (simp add: blocks_def length_concat_blocks)
qed

end

section \<open>Entropy and the random generator\<close>

text \<open>The bytes of a 32-bit word in memory; both targets are little-endian.\<close>

definition u32_bytes :: "u32 \<Rightarrow> u8 list" where
  "u32_bytes r = [ucast r, ucast (drop_bit 8 r), ucast (drop_bit 16 r), ucast (drop_bit 24 r)]"

text \<open>\<open>rnd t\<close> is what the \<open>t\<close>-th call of \<open>mmhal_random_u32(0, UINT32_MAX)\<close> returns.\<close>

function entropy_loop :: "(nat \<Rightarrow> u32) \<Rightarrow> nat \<Rightarrow> nat \<Rightarrow> u8 list \<Rightarrow> u8 list" where
  "entropy_loop rnd t len out =
     (if len \<noteq> 0
      then let cpylen = (if len < 4 then len else 4)
           in entropy_loop rnd (Suc t) (len - cpylen) (out @ take cpylen (u32_bytes (rnd t)))
      else out)"
  by pat_completeness auto
termination by (relation "measure (\<lambda>(_, _, len, _). len)") auto

declare entropy_loop.simps [simp del]

definition entropy_poll :: "(nat \<Rightarrow> u32) \<Rightarrow> nat \<Rightarrow> int \<times> u8 list \<times> nat" where
  "entropy_poll rnd len = (let out = entropy_loop rnd 0 len [] in (0, out, length out))"

interpretation entropy: block_stream "\<lambda>t. u32_bytes (rnd t)" 4 for rnd
  by unfold_locales (auto simp: u32_bytes_def)

lemma entropy_loop_blocks:
  "entropy_loop rnd t len out = out @ blocks (\<lambda>t. u32_bytes (rnd t)) 4 t len"
proof (induction rnd t len out rule: entropy_loop.induct)
  case (1 rnd t len out)
  consider "len = 0" | "0 < len" "len < 4" | "4 \<le> len" by linarith
  then show ?case
  proof cases
    case 1
    then show ?thesis by (simp add: entropy_loop.simps entropy.blocks_last)
  next
    case 2
    then show ?thesis using "1.IH" by (subst entropy_loop.simps) (simp add: entropy.blocks_last)
  next
    case 3
    then show ?thesis using "1.IH"
      by (subst entropy_loop.simps) (simp add: entropy.blocks_step entropy.block_length)
  qed
qed

text \<open>
  The entropy source fills exactly the requested length with the generator's words in order and
  reports that length.
\<close>

lemma entropy_poll_fills:
  "entropy_poll rnd len = (0, blocks (\<lambda>t. u32_bytes (rnd t)) 4 0 len, len)"
  by (simp add: entropy_poll_def entropy_loop_blocks entropy.length_blocks Let_def)

text \<open>
  The generator: mbedTLS's entropy and CTR-DRBG contexts, and the flag that says they are set up.
\<close>

record ('e, 'd) rng_lib =
  entropy_init :: 'e
  entropy_add_source :: "'e \<Rightarrow> int \<times> 'e"
  entropy_free :: "'e \<Rightarrow> 'e"
  drbg_init :: 'd
  drbg_seed :: "'d \<Rightarrow> 'e \<Rightarrow> int \<times> 'd \<times> 'e"
  drbg_free :: "'d \<Rightarrow> 'd"
  drbg_random :: "'d \<Rightarrow> 'e \<Rightarrow> nat \<Rightarrow> int \<times> 'd \<times> 'e \<times> u8 list"

record ('e, 'd) rng_state =
  ctr_drbg_init_state :: bool
  ctr_drbg :: 'd
  rng_entropy :: 'e

definition ctr_drbg_init :: "('e, 'd) rng_lib \<Rightarrow> ('e, 'd) rng_state \<Rightarrow> ('e, 'd) rng_state" where
  "ctr_drbg_init L s =
     (let d = drbg_init L;
          (_, e) = entropy_add_source L (entropy_init L);
          (rc, d', e') = drbg_seed L d e
      in if rc \<noteq> 0 then s\<lparr>ctr_drbg := d', rng_entropy := e'\<rparr>
         else s\<lparr>ctr_drbg := d', rng_entropy := e', ctr_drbg_init_state := True\<rparr>)"

text \<open>The third context that \<open>crypto_unload\<close> frees, the coefficient \<open>mpi_sw_A\<close>, is \<open>mpi_sw_A_set\<close>.\<close>

definition crypto_unload :: "('e, 'd) rng_lib \<Rightarrow> ('e, 'd) rng_state \<Rightarrow> bool \<Rightarrow> ('e, 'd) rng_state \<times> bool" where
  "crypto_unload L s mpi_sw_A_set =
     (if ctr_drbg_init_state s
      then (s\<lparr>ctr_drbg := drbg_free L (ctr_drbg s), rng_entropy := entropy_free L (rng_entropy s),
              ctr_drbg_init_state := False\<rparr>, False)
      else (s, mpi_sw_A_set))"

definition crypto_mbedtls_ctr_drbg :: "('e, 'd) rng_lib \<Rightarrow> ('e, 'd) rng_state \<Rightarrow> ('e, 'd) rng_state" where
  "crypto_mbedtls_ctr_drbg L s = (if ctr_drbg_init_state s then s else ctr_drbg_init L s)"

definition crypto_get_random :: "('e, 'd) rng_lib \<Rightarrow> ('e, 'd) rng_state \<Rightarrow> nat \<Rightarrow> int \<times> ('e, 'd) rng_state \<times> u8 list" where
  "crypto_get_random L s len =
     (let s1 = crypto_mbedtls_ctr_drbg L s;
          (rc, d, e, bs) = drbg_random L (ctr_drbg s1) (rng_entropy s1) len
      in (if rc \<noteq> 0 then - 1 else 0, s1\<lparr>ctr_drbg := d, rng_entropy := e\<rparr>, bs))"

text \<open>
  Once seeded, the generator is never set up again before \<open>crypto_unload\<close>; a failed seeding leaves
  the flag clear, so that the next request starts over.
\<close>

lemma seeded_generator_kept:
  assumes "ctr_drbg_init_state s"
  shows "ctr_drbg_init_state (fst (snd (crypto_get_random L s len)))"
    and "crypto_mbedtls_ctr_drbg L s = s"
  using assms by (auto simp: crypto_get_random_def crypto_mbedtls_ctr_drbg_def split: prod.splits)

lemma random_seeds_on_first_use:
  assumes "\<not> ctr_drbg_init_state s"
  shows "ctr_drbg_init_state (fst (snd (crypto_get_random L s len))) \<longleftrightarrow>
     fst (drbg_seed L (drbg_init L) (snd (entropy_add_source L (entropy_init L)))) = 0"
  using assms
  by (auto simp: crypto_get_random_def crypto_mbedtls_ctr_drbg_def ctr_drbg_init_def Let_def
      split: prod.splits)

text \<open>
  The coefficient is not released when the generator was never used: \<open>crypto_unload\<close> asks only
  for the flag of the generator.
\<close>

lemma unload_keeps_coefficient:
  "\<not> ctr_drbg_init_state s \<Longrightarrow> crypto_unload L s True = (s, True)"
  by (simp add: crypto_unload_def)

section \<open>Hashes over scattered buffers\<close>

text \<open>
  \<open>addr\<close> and \<open>len\<close> are the list of the \<open>num_elem\<close> buffers. A library call returns its code with the
  new context; the wrappers ignore the codes of all calls but the set-up.
\<close>

record ('a, 'c) sha_lib =
  sha_init :: 'c
  sha_starts :: "'a \<Rightarrow> 'c \<Rightarrow> int \<times> 'c"
  sha_update :: "u8 list \<Rightarrow> 'c \<Rightarrow> int \<times> 'c"
  sha_finish :: "'c \<Rightarrow> int \<times> u8 list"

definition sha_update_all :: "('a, 'c) sha_lib \<Rightarrow> u8 list list \<Rightarrow> 'c \<Rightarrow> 'c" where
  "sha_update_all L addr c = fold (\<lambda>d c. snd (sha_update L d c)) addr c"

definition sha384_512_vector :: "(int, 'c) sha_lib \<Rightarrow> u8 list list \<Rightarrow> int \<Rightarrow> int \<times> u8 list" where
  "sha384_512_vector L addr is384 =
     (let ctx = sha_init L;
          ctx = snd (sha_starts L is384 ctx);
          ctx = sha_update_all L addr ctx
      in (0, snd (sha_finish L ctx)))"

definition sha512_vector :: "(int, 'c) sha_lib \<Rightarrow> u8 list list \<Rightarrow> int \<times> u8 list" where
  "sha512_vector L addr = sha384_512_vector L addr 0"

definition sha384_vector :: "(int, 'c) sha_lib \<Rightarrow> u8 list list \<Rightarrow> int \<times> u8 list" where
  "sha384_vector L addr = sha384_512_vector L addr 1"

definition sha256_vector :: "(int, 'c) sha_lib \<Rightarrow> u8 list list \<Rightarrow> int \<times> u8 list" where
  "sha256_vector L addr =
     (let ctx = sha_init L;
          ctx = snd (sha_starts L 0 ctx);
          ctx = sha_update_all L addr ctx
      in (0, snd (sha_finish L ctx)))"

definition sha1_vector :: "(unit, 'c) sha_lib \<Rightarrow> u8 list list \<Rightarrow> int \<times> u8 list" where
  "sha1_vector L addr =
     (let ctx = sha_init L;
          ctx = snd (sha_starts L () ctx);
          ctx = sha_update_all L addr ctx
      in (0, snd (sha_finish L ctx)))"

text \<open>
  The documented behaviour of a hash context: it stands for the bytes it has absorbed since it was
  started (\<open>R\<close>), and finishing it gives their digest.
\<close>

definition sha_contract :: "('a, 'c) sha_lib \<Rightarrow> 'a \<Rightarrow> (u8 list \<Rightarrow> 'c \<Rightarrow> bool) \<Rightarrow> (u8 list \<Rightarrow> u8 list) \<Rightarrow> bool" where
  "sha_contract L a R H \<longleftrightarrow>
     R [] (snd (sha_starts L a (sha_init L)))
   \<and> (\<forall>bs c d. R bs c \<longrightarrow> R (bs @ d) (snd (sha_update L d c)))
   \<and> (\<forall>bs c. R bs c \<longrightarrow> snd (sha_finish L c) = H bs)"

lemma absorb_all:
  assumes "\<And>bs c d. R bs c \<Longrightarrow> R (bs @ d) (upd d c)"
  shows "R bs c \<Longrightarrow> R (bs @ concat ds) (fold upd ds c)"
proof (induction ds arbitrary: bs c)
  case (Cons d ds)
  from Cons.IH [OF assms [OF Cons.prems, of d]] show ?case by simp
qed simp

lemma sha_contract_run:
  assumes "sha_contract L a R H"
  shows "snd (sha_finish L (sha_update_all L addr (snd (sha_starts L a (sha_init L))))) = H (concat addr)"
  using assms absorb_all [of R "\<lambda>d c. snd (sha_update L d c)" "[]" _ addr]
  by (auto simp: sha_contract_def sha_update_all_def)

text \<open>Each digest of scattered buffers is the digest of their concatenation.\<close>

lemma sha_vectors_digest:
  shows "sha_contract L5 0 R H \<Longrightarrow> sha512_vector L5 addr = (0, H (concat addr))"
    and "sha_contract L5 1 R H \<Longrightarrow> sha384_vector L5 addr = (0, H (concat addr))"
    and "sha_contract L2 0 R H \<Longrightarrow> sha256_vector L2 addr = (0, H (concat addr))"
    and "sha_contract L1 () R H \<Longrightarrow> sha1_vector L1 addr = (0, H (concat addr))"
  by (simp_all add: sha512_vector_def sha384_vector_def sha384_512_vector_def sha256_vector_def
      sha1_vector_def Let_def sha_contract_run)

section \<open>HMAC\<close>

datatype mbedtls_md_type_t =
  MBEDTLS_MD_SHA1 | MBEDTLS_MD_SHA256 | MBEDTLS_MD_SHA384 | MBEDTLS_MD_SHA512

record 'c md_lib =
  md_init :: 'c
  md_setup :: "mbedtls_md_type_t \<Rightarrow> 'c \<Rightarrow> int \<times> 'c"
  md_get_size :: "mbedtls_md_type_t \<Rightarrow> nat"
  md_hmac_starts :: "u8 list \<Rightarrow> 'c \<Rightarrow> int \<times> 'c"
  md_hmac_update :: "u8 list \<Rightarrow> 'c \<Rightarrow> int \<times> 'c"
  md_hmac_finish :: "'c \<Rightarrow> int \<times> 'c \<times> u8 list"
  md_hmac_reset :: "'c \<Rightarrow> int \<times> 'c"

definition hmac_update_all :: "'c md_lib \<Rightarrow> u8 list list \<Rightarrow> 'c \<Rightarrow> 'c" where
  "hmac_update_all L addr c = fold (\<lambda>d c. snd (md_hmac_update L d c)) addr c"

text \<open>The result is \<open>None\<close> beside the code \<open>- 1\<close> when nothing is written to \<open>mac\<close>.\<close>

definition hmac_vector :: "'c md_lib \<Rightarrow> u8 list \<Rightarrow> u8 list list \<Rightarrow> mbedtls_md_type_t \<Rightarrow> int \<times> u8 list option" where
  "hmac_vector L key addr md_type =
     (let (rc, ctx) = md_setup L md_type (md_init L)
      in if rc \<noteq> 0 then (- 1, None)
         else let ctx = snd (md_hmac_starts L key ctx);
                  ctx = hmac_update_all L addr ctx;
                  (_, _, mac) = md_hmac_finish L ctx
              in (0, Some mac))"

definition hmac_sha512_vector :: "'c md_lib \<Rightarrow> u8 list \<Rightarrow> u8 list list \<Rightarrow> int \<times> u8 list option" where
  "hmac_sha512_vector L key addr = hmac_vector L key addr MBEDTLS_MD_SHA512"

definition hmac_sha512 :: "'c md_lib \<Rightarrow> u8 list \<Rightarrow> u8 list \<Rightarrow> int \<times> u8 list option" where
  "hmac_sha512 L key data = hmac_vector L key [data] MBEDTLS_MD_SHA512"

definition hmac_sha384_vector :: "'c md_lib \<Rightarrow> u8 list \<Rightarrow> u8 list list \<Rightarrow> int \<times> u8 list option" where
  "hmac_sha384_vector L key addr = hmac_vector L key addr MBEDTLS_MD_SHA384"

definition hmac_sha384 :: "'c md_lib \<Rightarrow> u8 list \<Rightarrow> u8 list \<Rightarrow> int \<times> u8 list option" where
  "hmac_sha384 L key data = hmac_vector L key [data] MBEDTLS_MD_SHA384"

definition hmac_sha256_vector :: "'c md_lib \<Rightarrow> u8 list \<Rightarrow> u8 list list \<Rightarrow> int \<times> u8 list option" where
  "hmac_sha256_vector L key addr = hmac_vector L key addr MBEDTLS_MD_SHA256"

definition hmac_sha256 :: "'c md_lib \<Rightarrow> u8 list \<Rightarrow> u8 list \<Rightarrow> int \<times> u8 list option" where
  "hmac_sha256 L key data = hmac_vector L key [data] MBEDTLS_MD_SHA256"

definition hmac_sha1_vector :: "'c md_lib \<Rightarrow> u8 list \<Rightarrow> u8 list list \<Rightarrow> int \<times> u8 list option" where
  "hmac_sha1_vector L key addr = hmac_vector L key addr MBEDTLS_MD_SHA1"

definition hmac_sha1 :: "'c md_lib \<Rightarrow> u8 list \<Rightarrow> u8 list \<Rightarrow> int \<times> u8 list option" where
  "hmac_sha1 L key data = hmac_vector L key [data] MBEDTLS_MD_SHA1"

definition hmac_md5 :: "u8 list \<Rightarrow> u8 list \<Rightarrow> int" where
  "hmac_md5 key data = - 1"

text \<open>
  The documented behaviour of an HMAC context: after the start with a key it stands for the key and
  the bytes absorbed; finishing gives the MAC \<open>H\<close> of the digest's length, and a reset after that
  starts over with the same key.
\<close>

definition hmac_contract ::
  "'c md_lib \<Rightarrow> mbedtls_md_type_t \<Rightarrow> (u8 list \<Rightarrow> u8 list \<Rightarrow> 'c \<Rightarrow> bool) \<Rightarrow> (u8 list \<Rightarrow> u8 list \<Rightarrow> u8 list) \<Rightarrow> bool" where
  "hmac_contract L t R H \<longleftrightarrow>
     0 < md_get_size L t
   \<and> fst (md_setup L t (md_init L)) = 0
   \<and> (\<forall>k. R k [] (snd (md_hmac_starts L k (snd (md_setup L t (md_init L))))))
   \<and> (\<forall>k bs c d. R k bs c \<longrightarrow> R k (bs @ d) (snd (md_hmac_update L d c)))
   \<and> (\<forall>k bs c. R k bs c \<longrightarrow>
        snd (snd (md_hmac_finish L c)) = H k bs \<and> length (H k bs) = md_get_size L t
      \<and> R k [] (snd (md_hmac_reset L (fst (snd (md_hmac_finish L c))))))"

lemma hmac_contract_update_all:
  assumes "hmac_contract L t R H" "R k bs c"
  shows "R k (bs @ concat addr) (hmac_update_all L addr c)"
  using assms absorb_all [of "R k" "\<lambda>d c. snd (md_hmac_update L d c)" bs c addr]
  by (auto simp: hmac_contract_def hmac_update_all_def)

lemma hmac_contractD:
  assumes "hmac_contract L t R H"
  shows hmac_contract_setup: "fst (md_setup L t (md_init L)) = 0"
    and hmac_contract_starts: "R k [] (snd (md_hmac_starts L k (snd (md_setup L t (md_init L)))))"
    and hmac_contract_finish: "R k bs c \<Longrightarrow> snd (snd (md_hmac_finish L c)) = H k bs"
    and hmac_contract_reset: "R k bs c \<Longrightarrow> R k [] (snd (md_hmac_reset L (fst (snd (md_hmac_finish L c)))))"
    and hmac_contract_size: "0 < md_get_size L t"
  using assms unfolding hmac_contract_def by blast+

lemma hmac_contract_length:
  assumes "hmac_contract L t R H"
  shows "length (H k bs) = md_get_size L t"
  using assms hmac_contract_update_all [OF assms hmac_contract_starts [OF assms, of k], of "[bs]"]
  unfolding hmac_contract_def by (metis append_Nil append_Nil2 concat.simps)

lemma hmac_vector_mac:
  assumes "hmac_contract L t R H"
  shows "hmac_vector L key addr t = (0, Some (H key (concat addr)))"
proof -
  have "R key ([] @ concat addr)
      (hmac_update_all L addr (snd (md_hmac_starts L key (snd (md_setup L t (md_init L))))))"
    by (rule hmac_contract_update_all [OF assms hmac_contract_starts [OF assms]])
  from hmac_contract_finish [OF assms this] show ?thesis
    using hmac_contract_setup [OF assms] by (auto simp: hmac_vector_def Let_def split: prod.splits)
qed

text \<open>
  The code of the wrapper says only whether the context could be set up: a failed start, update or
  finish is reported as success.
\<close>

lemma hmac_vector_code:
  "fst (hmac_vector L key addr t) = (if fst (md_setup L t (md_init L)) = 0 then 0 else - 1)"
  by (auto simp: hmac_vector_def Let_def split: prod.splits)

section \<open>Key derivation\<close>

text \<open>The bytes of a 16-bit word in memory, and the text of the C string \<open>label\<close>.\<close>

definition u16_bytes :: "u16 \<Rightarrow> u8 list" where
  "u16_bytes w = [ucast w, ucast (drop_bit 8 w)]"

definition label_text :: "u8 list \<Rightarrow> u8 list" where
  "label_text label = takeWhile (\<lambda>c. c \<noteq> 0) label"

definition prf_addr :: "u8 list \<Rightarrow> u8 list \<Rightarrow> u32 \<Rightarrow> u16 \<Rightarrow> u8 list list" where
  "prf_addr label data buf_len_bits ctr =
     [u16_bytes ctr, label_text label, data, u16_bytes (ucast buf_len_bits)]"

text \<open>
  The loop over whole blocks. It would not end for a digest of length 0, hence the fuel; one more
  round than there are bytes is enough otherwise.
\<close>

fun hmac_prf_loop :: "nat \<Rightarrow> 'c md_lib \<Rightarrow> (u16 \<Rightarrow> u8 list list) \<Rightarrow> nat \<Rightarrow> 'c \<Rightarrow> u16 \<Rightarrow> nat \<Rightarrow> u8 list
    \<Rightarrow> ('c \<times> u16 \<times> nat \<times> u8 list) option" where
  "hmac_prf_loop 0 L addr mac_len ctx ctr buf_len buf = None"
| "hmac_prf_loop (Suc fuel) L addr mac_len ctx ctr buf_len buf =
     (if mac_len \<le> buf_len
      then let ctx = hmac_update_all L (addr ctr) ctx;
               (_, ctx, mac) = md_hmac_finish L ctx;
               ctx = snd (md_hmac_reset L ctx)
           in hmac_prf_loop fuel L addr mac_len ctx (ctr + 1) (buf_len - mac_len) (buf @ mac)
      else Some (ctx, ctr, buf_len, buf))"

text \<open>
  The whole function: the bytes written to \<open>buf\<close> beside the code. \<open>None\<close> stands for no return and
  for the write before the buffer by \<^verbatim>\<open>buf[-1] &= ...\<close> when no byte was written.
\<close>

definition mask_last :: "u32 \<Rightarrow> u8 list \<Rightarrow> u8 list option" where
  "mask_last buf_len_bits buf =
     (let r = unat (buf_len_bits AND 7)
      in if r = 0 then Some buf
         else if buf = [] then None
         else Some (butlast buf @ [last buf AND push_bit (8 - r) 0xFF]))"

definition hmac_prf_bits ::
  "'c md_lib \<Rightarrow> u8 list \<Rightarrow> u8 list \<Rightarrow> u8 list \<Rightarrow> u32 \<Rightarrow> mbedtls_md_type_t \<Rightarrow> (int \<times> u8 list) option" where
  "hmac_prf_bits L key label data buf_len_bits md_type =
     (let (rc, ctx) = md_setup L md_type (md_init L)
      in if rc \<noteq> 0 then Some (- 1, [])
         else let ctx = snd (md_hmac_starts L key ctx);
                  addr = prf_addr label data buf_len_bits;
                  mac_len = md_get_size L md_type;
                  buf_len = unat ((buf_len_bits + 7) div 8)
              in do {
                (ctx, ctr, buf_len, buf) \<leftarrow> hmac_prf_loop (Suc buf_len) L addr mac_len ctx 1 buf_len [];
                let buf = (if buf_len \<noteq> 0
                           then buf @ take buf_len (snd (snd (md_hmac_finish L (hmac_update_all L (addr ctr) ctx))))
                           else buf);
                buf \<leftarrow> mask_last buf_len_bits buf;
                Some (0, buf)
              })"

definition sha512_prf :: "'c md_lib \<Rightarrow> u8 list \<Rightarrow> u8 list \<Rightarrow> u8 list \<Rightarrow> u32 \<Rightarrow> (int \<times> u8 list) option" where
  "sha512_prf L key label data buf_len = hmac_prf_bits L key label data (buf_len * 8) MBEDTLS_MD_SHA512"

definition sha384_prf :: "'c md_lib \<Rightarrow> u8 list \<Rightarrow> u8 list \<Rightarrow> u8 list \<Rightarrow> u32 \<Rightarrow> (int \<times> u8 list) option" where
  "sha384_prf L key label data buf_len = hmac_prf_bits L key label data (buf_len * 8) MBEDTLS_MD_SHA384"

definition sha256_prf :: "'c md_lib \<Rightarrow> u8 list \<Rightarrow> u8 list \<Rightarrow> u8 list \<Rightarrow> u32 \<Rightarrow> (int \<times> u8 list) option" where
  "sha256_prf L key label data buf_len = hmac_prf_bits L key label data (buf_len * 8) MBEDTLS_MD_SHA256"

definition sha256_prf_bits :: "'c md_lib \<Rightarrow> u8 list \<Rightarrow> u8 list \<Rightarrow> u8 list \<Rightarrow> u32 \<Rightarrow> (int \<times> u8 list) option" where
  "sha256_prf_bits L key label data buf_len_bits =
     hmac_prf_bits L key label data buf_len_bits MBEDTLS_MD_SHA256"

text \<open>\<open>label\<close> goes into the MAC with its terminating NUL here; \<open>SHA1_MAC_LEN\<close> is 20.\<close>

definition SHA1_MAC_LEN :: nat where "SHA1_MAC_LEN = 20"

definition sha1_prf_addr :: "u8 list \<Rightarrow> u8 list \<Rightarrow> u8 \<Rightarrow> u8 list list" where
  "sha1_prf_addr label data counter = [label_text label @ [0], data, [counter]]"

function sha1_prf_loop :: "'c md_lib \<Rightarrow> u8 list \<Rightarrow> u8 list \<Rightarrow> u8 list \<Rightarrow> u8 \<Rightarrow> nat \<Rightarrow> u8 list \<Rightarrow> int \<times> u8 list" where
  "sha1_prf_loop L key label data counter buf_len buf =
     (if SHA1_MAC_LEN \<le> buf_len
      then case hmac_sha1_vector L key (sha1_prf_addr label data counter) of
             (_, None) \<Rightarrow> (- 1, buf)
           | (rc, Some mac) \<Rightarrow> (if rc \<noteq> 0 then (- 1, buf)
               else sha1_prf_loop L key label data (counter + 1) (buf_len - SHA1_MAC_LEN) (buf @ mac))
      else if buf_len \<noteq> 0
      then case hmac_sha1_vector L key (sha1_prf_addr label data counter) of
             (_, None) \<Rightarrow> (- 1, buf)
           | (rc, Some hash) \<Rightarrow> (if rc \<noteq> 0 then (- 1, buf) else (0, buf @ take buf_len hash))
      else (0, buf))"
  by pat_completeness auto
termination by (relation "measure (\<lambda>(_, _, _, _, _, n, _). n)") (auto simp: SHA1_MAC_LEN_def)

declare sha1_prf_loop.simps [simp del]

definition sha1_prf :: "'c md_lib \<Rightarrow> u8 list \<Rightarrow> u8 list \<Rightarrow> u8 list \<Rightarrow> nat \<Rightarrow> int \<times> u8 list" where
  "sha1_prf L key label data buf_len = sha1_prf_loop L key label data 0 buf_len []"

subsection \<open>The key derivation function of IEEE 802.11\<close>

text \<open>
  The standard speaks of bit strings: the derived key is the first bits of the concatenated MACs.
  \<open>bits_of\<close> reads an octet string with the most significant bit of each octet first.
\<close>

definition bits_of :: "u8 list \<Rightarrow> bool list" where
  "bits_of bs = concat (map (\<lambda>b. map (\<lambda>j. bit b (7 - j)) [0..<8]) bs)"

definition kdf_block :: "(u8 list \<Rightarrow> u8 list \<Rightarrow> u8 list) \<Rightarrow> u8 list \<Rightarrow> u8 list \<Rightarrow> u8 list \<Rightarrow> nat \<Rightarrow> nat \<Rightarrow> u8 list" where
  "kdf_block H key label data bits i =
     H key (u16_bytes (of_nat i) @ label @ data @ u16_bytes (of_nat bits))"

definition kdf_bits :: "(u8 list \<Rightarrow> u8 list \<Rightarrow> u8 list) \<Rightarrow> nat \<Rightarrow> u8 list \<Rightarrow> u8 list \<Rightarrow> u8 list \<Rightarrow> nat \<Rightarrow> bool list" where
  "kdf_bits H m key label data bits =
     take bits (bits_of (concat (map (kdf_block H key label data bits) [1..<1 + (bits + 8 * m - 1) div (8 * m)])))"

lemma bits_of_simps [simp]:
  "bits_of [] = []" "bits_of (xs @ ys) = bits_of xs @ bits_of ys"
  by (simp_all add: bits_of_def)

lemma bits_of_Cons: "bits_of (b # bs) = map (\<lambda>j. bit b (7 - j)) [0..<8] @ bits_of bs"
  by (simp add: bits_of_def)

lemma length_bits_of: "length (bits_of bs) = 8 * length bs"
  by (induction bs) (simp_all add: bits_of_Cons)

lemma bits_of_take: "bits_of (take n bs) = take (8 * n) (bits_of bs)"
proof (induction bs arbitrary: n)
  case (Cons b bs)
  then show ?case by (cases n) (simp_all add: bits_of_Cons)
qed simp

lemma bits_of_masked:
  assumes "0 < r" "r < 8"
  shows "bits_of [b AND push_bit (8 - r) 0xFF] = take r (bits_of [b]) @ replicate (8 - r) False"
proof (rule nth_equalityI)
  fix j assume "j < length (bits_of [b AND push_bit (8 - r) 0xFF])"
  then have j: "j < 8" by (simp add: length_bits_of)
  have "(255 :: int) = mask 8" by (simp add: mask_eq_exp_minus_1)
  then have ff: "bit (255 :: int) k \<longleftrightarrow> k < 8" for k by (simp only: bit_mask_iff) simp
  show "bits_of [b AND push_bit (8 - r) 0xFF] ! j = (take r (bits_of [b]) @ replicate (8 - r) False) ! j"
    using j assms by (auto simp: bits_of_Cons nth_append bit_simps ff)
qed (use assms in \<open>simp add: length_bits_of\<close>)

lemma hmac_block_stream:
  "hmac_contract L t R H \<Longrightarrow> block_stream (\<lambda>i. H key (f i)) (md_get_size L t)"
  by unfold_locales (auto intro: hmac_contract_length hmac_contract_size)

lemma prf_loop_blocks:
  assumes "hmac_contract L t R H" "R key [] ctx" "n < fuel"
    and blk: "blk = (\<lambda>i. H key (concat (addr (of_nat i))))" and m: "m = md_get_size L t"
  shows "\<exists>ctx' j n' buf'. hmac_prf_loop fuel L addr m ctx (of_nat i) n buf = Some (ctx', of_nat j, n', buf')
     \<and> R key [] ctx' \<and> n' < m \<and> buf' @ take n' (blk j) = buf @ blocks blk m i n"
  using assms(2,3)
proof (induction fuel arbitrary: ctx i n buf)
  case (Suc fuel)
  have bs: "block_stream blk m" unfolding blk m by (rule hmac_block_stream [OF assms(1)])
  show ?case
  proof (cases "m \<le> n")
    case True
    let ?c = "hmac_update_all L (addr (of_nat i)) ctx"
    have R: "R key ([] @ concat (addr (of_nat i))) ?c"
      by (rule hmac_contract_update_all [OF assms(1) Suc.prems(1)])
    have mac: "snd (snd (md_hmac_finish L ?c)) = blk i"
      using hmac_contract_finish [OF assms(1) R] by (simp add: blk)
    have "n - m < fuel" using Suc.prems(2) True hmac_contract_size [OF assms(1)] m by simp
    note IH = Suc.IH [OF hmac_contract_reset [OF assms(1) R] this, of "Suc i" "buf @ blk i"]
    then show ?thesis using True mac block_stream.blocks_step [OF bs True]
      by (auto simp: Let_def add.commute split: prod.splits)
  next
    case False
    then show ?thesis using Suc.prems block_stream.blocks_last [OF bs] by auto
  qed
qed simp

lemma unat_and_7: "unat ((w :: u32) AND 7) = unat w mod 8"
proof -
  have "w AND 7 = take_bit 3 w" by (simp add: take_bit_eq_mask mask_eq_exp_minus_1)
  then have "unat (w AND 7) = take_bit 3 (unat w)" by (simp only: unsigned_take_bit_eq)
  then show ?thesis by (simp add: take_bit_eq_mod)
qed

lemma mask_last_bits:
  assumes "length buf = (unat bits + 7) div 8"
  shows "\<exists>buf'. mask_last bits buf = Some buf' \<and> length buf' = length buf
     \<and> bits_of buf' = take (unat bits) (bits_of buf) @ replicate (8 * length buf - unat bits) False"
proof (cases "unat bits mod 8 = 0")
  case True
  then have "8 * length buf = unat bits" using assms by (auto elim!: dvdE simp: mod_eq_0_iff_dvd)
  then show ?thesis using True
    by (simp add: mask_last_def unat_and_7 length_bits_of flip: word_unat_eq_iff)
next
  case False
  define r where "r = unat bits mod 8"
  define q where "q = unat bits div 8"
  have r: "0 < r" "r < 8" and b: "unat bits = 8 * q + r" using False by (auto simp: r_def q_def)
  then have len: "length buf = Suc q" using assms by simp
  then obtain xs b0 where buf: "buf = xs @ [b0]" "length xs = q" by (metis length_Suc_conv_rev)
  have "bits_of (xs @ [b0 AND push_bit (8 - r) 0xFF])
      = take (8 * q + r) (bits_of buf) @ replicate (8 - r) False"
    using bits_of_masked [OF r, of b0] buf by (simp add: length_bits_of)
  then show ?thesis using r b len buf by (auto simp: mask_last_def unat_and_7)
qed

lemma ucast_of_nat_unat: "of_nat (unat (w :: u32)) = (ucast w :: u16)"
  by simp

lemma kdf_block_count:
  assumes "0 < (m :: nat)"
  shows "(bits + 8 * m - 1) div (8 * m) = ((bits + 7) div 8 + m - 1) div m"
proof -
  obtain k where k: "m = Suc k" using assms by (cases m) auto
  have "(bits + 8 * m - 1) div 8 = (bits + 7) div 8 + m - 1"
    unfolding k using div_mult_self1 [of 8 "bits + 7" k] by simp
  then show ?thesis by (simp add: div_mult2_eq)
qed

text \<open>C9: hmac_prf_bits is the key derivation function of IEEE 802.11: for every digest, every
  key, label and context, and every length up to the overflow of its rounding, it returns 0 and
  fills the buffer with the first bits of the MACs of \<open>i || label || context || length\<close> for
  \<open>i = 1, 2, ...\<close>, and with zero bits up to the end of the last octet.
\<close>

theorem hmac_prf_bits_is_kdf:
  assumes "hmac_contract L t R H" and "unat bits + 7 < 2 ^ 32"
  shows "\<exists>buf. hmac_prf_bits L key label data bits t = Some (0, buf)
     \<and> length buf = (unat bits + 7) div 8
     \<and> bits_of buf = kdf_bits H (md_get_size L t) key (label_text label) data (unat bits)
          @ replicate (8 * length buf - unat bits) False"
proof -
  define n where "n = (unat bits + 7) div 8"
  define m where "m = md_get_size L t"
  define blk where "blk = kdf_block H key (label_text label) data (unat bits)"
  let ?c = "snd (md_hmac_starts L key (snd (md_setup L t (md_init L))))"
  have n: "unat ((bits + 7) div 8) = n"
    using assms(2) by (simp add: n_def unat_div unat_word_ariths)
  have blk: "blk = (\<lambda>i. H key (concat (prf_addr label data bits (of_nat i))))"
    by (rule ext) (simp add: blk_def kdf_block_def prf_addr_def ucast_of_nat_unat)
  obtain ctx j n' buf' where loop:
      "hmac_prf_loop (Suc n) L (prf_addr label data bits) m ?c (of_nat 1) n [] = Some (ctx, of_nat j, n', buf')"
      "R key [] ctx" "n' < m" "buf' @ take n' (blk j) = [] @ blocks blk m 1 n"
    using prf_loop_blocks [OF assms(1) hmac_contract_starts [OF assms(1)] lessI blk m_def] by blast
  have fin: "snd (snd (md_hmac_finish L (hmac_update_all L (prf_addr label data bits (of_nat j)) ctx))) = blk j"
    using hmac_contract_finish [OF assms(1) hmac_contract_update_all [OF assms(1) loop(2)]] by (simp add: blk)
  have bs: "block_stream blk m" unfolding blk m_def by (rule hmac_block_stream [OF assms(1)])
  have stream: "take n (concat (map blk [1..<1 + (unat bits + 8 * m - 1) div (8 * m)])) = blocks blk m 1 n"
    by (simp only: blocks_def kdf_block_count [OF block_stream.block_pos [OF bs]] n_def)
  obtain buf where buf: "mask_last bits (blocks blk m 1 n) = Some buf" "length buf = n"
      "bits_of buf = take (unat bits) (bits_of (blocks blk m 1 n)) @ replicate (8 * n - unat bits) False"
    using mask_last_bits [of "blocks blk m 1 n" bits] block_stream.length_blocks [OF bs]
    by (auto simp: n_def)
  have "unat bits \<le> 8 * n" by (simp add: n_def)
  then have "take (unat bits) (bits_of (blocks blk m 1 n)) = kdf_bits H m key (label_text label) data (unat bits)"
    unfolding kdf_bits_def blk_def [symmetric] stream [symmetric] by (simp add: bits_of_take)
  moreover have "hmac_prf_bits L key label data bits t = Some (0, buf)"
    using hmac_contract_setup [OF assms(1)] loop(1,4) fin buf(1) n m_def
    by (auto simp: hmac_prf_bits_def Let_def split: prod.splits if_splits)
  ultimately show ?thesis using buf by (simp add: n_def m_def)
qed

text \<open>
  An HMAC that satisfies the contract: the context is the digest, the key and the bytes absorbed,
  and the MAC is the head of the key followed by the bytes.
\<close>

definition demo_mac :: "nat \<Rightarrow> u8 list \<Rightarrow> u8 list \<Rightarrow> u8 list" where
  "demo_mac m k bs = take m (k @ bs @ replicate m 0)"

definition demo_md :: "(u8 list \<times> u8 list) md_lib" where
  "demo_md = \<lparr>md_init = ([], []), md_setup = (\<lambda>t c. (0, c)),
     md_get_size = (\<lambda>t. case t of MBEDTLS_MD_SHA1 \<Rightarrow> 20 | MBEDTLS_MD_SHA256 \<Rightarrow> 32
                              | MBEDTLS_MD_SHA384 \<Rightarrow> 48 | MBEDTLS_MD_SHA512 \<Rightarrow> 64),
     md_hmac_starts = (\<lambda>k c. (0, (k, []))), md_hmac_update = (\<lambda>d (k, bs). (0, (k, bs @ d))),
     md_hmac_finish = (\<lambda>(k, bs). (0, (k, bs), demo_mac 20 k bs)),
     md_hmac_reset = (\<lambda>(k, bs). (0, (k, [])))\<rparr>"

lemma demo_md_contract:
  "hmac_contract demo_md MBEDTLS_MD_SHA1 (\<lambda>k bs c. c = (k, bs)) (demo_mac 20)"
  by (auto simp: hmac_contract_def demo_md_def demo_mac_def)

lemma demo_md_size: "md_get_size demo_md MBEDTLS_MD_SHA1 = 20"
  by (simp add: demo_md_def)

theorem hmac_prf_bits_is_kdf_witness:
  "\<exists>buf. hmac_prf_bits demo_md [1, 2] [97, 0] [7] 172 MBEDTLS_MD_SHA1 = Some (0, buf)
     \<and> length buf = 22
     \<and> bits_of buf = kdf_bits (demo_mac 20) 20 [1, 2] [97] [7] 172 @ replicate 4 False"
  using hmac_prf_bits_is_kdf [OF demo_md_contract, of 172 "[1, 2]" "[97, 0]" "[7]"]
  by (auto simp: label_text_def demo_md_size)

text \<open>
  sha1_prf is the pseudo-random function of IEEE 802.11: the first bytes of the MACs of
  \<open>label || 0 || data || i\<close> for \<open>i = 0, 1, ...\<close>.
\<close>

lemma sha1_prf_loop_blocks:
  assumes "hmac_contract L MBEDTLS_MD_SHA1 R H" "md_get_size L MBEDTLS_MD_SHA1 = SHA1_MAC_LEN"
    and blk: "blk = (\<lambda>i. H key (concat (sha1_prf_addr label data (of_nat i))))"
  shows "sha1_prf_loop L key label data (of_nat i) n buf = (0, buf @ blocks blk SHA1_MAC_LEN i n)"
proof (induction n arbitrary: i buf rule: less_induct)
  case (less n)
  have bs: "block_stream blk SHA1_MAC_LEN"
    unfolding blk assms(2) [symmetric] by (rule hmac_block_stream [OF assms(1)])
  have mac: "hmac_sha1_vector L key (sha1_prf_addr label data (of_nat i)) = (0, Some (blk i))"
    by (simp add: hmac_sha1_vector_def hmac_vector_mac [OF assms(1)] blk)
  have i: "of_nat (Suc i) = (of_nat i + 1 :: u8)" by simp
  show ?case
    using less [of "n - SHA1_MAC_LEN" "Suc i" "buf @ blk i"] mac i
      block_stream.blocks_step [OF bs, of n i] block_stream.blocks_last [OF bs, of n i]
    by (subst sha1_prf_loop.simps) (cases "SHA1_MAC_LEN \<le> n"; auto simp: SHA1_MAC_LEN_def add.commute)
qed

lemma sha1_prf_correct:
  assumes "hmac_contract L MBEDTLS_MD_SHA1 R H" "md_get_size L MBEDTLS_MD_SHA1 = SHA1_MAC_LEN"
  shows "sha1_prf L key label data n =
     (0, blocks (\<lambda>i. H key (label_text label @ 0 # data @ [of_nat i])) SHA1_MAC_LEN 0 n)"
  using sha1_prf_loop_blocks [OF assms refl, of key label data 0 n "[]"]
  by (simp add: sha1_prf_def sha1_prf_addr_def)

text \<open>Without a context nothing is derived and the error is reported.\<close>

lemma prf_setup_failure:
  assumes "fst (md_setup L t (md_init L)) \<noteq> 0"
  shows "hmac_prf_bits L key label data bits t = Some (- 1, [])"
    and "t = MBEDTLS_MD_SHA1 \<Longrightarrow> 0 < n \<Longrightarrow> sha1_prf L key label data n = (- 1, [])"
  using assms
  by (auto simp: hmac_prf_bits_def sha1_prf_def sha1_prf_loop.simps [of _ _ _ _ 0] hmac_sha1_vector_def
      hmac_vector_def Let_def split: prod.splits)

section \<open>PBKDF2\<close>

text \<open>
  The library writes its output to \<open>buf\<close>, an array of \<open>buflen\<close> bytes; a write past it is \<open>None\<close>.
  The length handed to the library is the constant 32, \<open>buflen\<close> is not used.
\<close>

type_synonym pbkdf2_fn = "mbedtls_md_type_t \<Rightarrow> u8 list \<Rightarrow> u8 list \<Rightarrow> u32 \<Rightarrow> nat \<Rightarrow> int \<times> u8 list"

definition pbkdf2_sha1 :: "pbkdf2_fn \<Rightarrow> u8 list \<Rightarrow> u8 list \<Rightarrow> int \<Rightarrow> u8 list \<Rightarrow> (int \<times> u8 list) option" where
  "pbkdf2_sha1 ext passphrase ssid iterations buf =
     (let (rc, out) = ext MBEDTLS_MD_SHA1 (label_text passphrase) ssid (word_of_int iterations) 32
      in map_option (\<lambda>b. (if rc \<noteq> 0 then - 1 else 0, b)) (blit buf 0 out))"

lemma pbkdf2_ignores_buflen:
  assumes "ext MBEDTLS_MD_SHA1 (label_text passphrase) ssid (word_of_int iterations) 32 = (0, psk)"
    and "length psk = 32"
  shows "pbkdf2_sha1 ext passphrase ssid iterations buf =
     (if length buf < 32 then None else Some (0, psk @ drop 32 buf))"
  using assms by (simp add: pbkdf2_sha1_def blit_def)

section \<open>AES\<close>

text \<open>
  A cipher context on the heap: \<open>malloc_ok\<close> is whether the allocation succeeds and the last component
  counts the live allocations.
\<close>

datatype aes_mode = MBEDTLS_AES_ENCRYPT | MBEDTLS_AES_DECRYPT

record 'k aes_lib =
  aes_init :: 'k
  aes_setkey_enc :: "u8 list \<Rightarrow> u32 \<Rightarrow> 'k \<Rightarrow> int \<times> 'k"
  aes_setkey_dec :: "u8 list \<Rightarrow> u32 \<Rightarrow> 'k \<Rightarrow> int \<times> 'k"
  aes_crypt_ecb :: "'k \<Rightarrow> aes_mode \<Rightarrow> u8 list \<Rightarrow> int \<times> u8 list"

definition aes_decrypt_init :: "'k aes_lib \<Rightarrow> bool \<Rightarrow> u8 list \<Rightarrow> nat \<Rightarrow> 'k option \<times> nat" where
  "aes_decrypt_init L malloc_ok key live =
     (if \<not> malloc_ok then (None, live)
      else let live = Suc live;
               (rc, aes) = aes_setkey_dec L key (of_nat (length key) * 8) (aes_init L)
           in if rc = 0 then (Some aes, live) else (None, live - 1))"

definition aes_decrypt :: "'k aes_lib \<Rightarrow> 'k \<Rightarrow> u8 list \<Rightarrow> int \<times> u8 list" where
  "aes_decrypt L ctx crypt = aes_crypt_ecb L ctx MBEDTLS_AES_DECRYPT crypt"

definition aes_decrypt_deinit :: "nat \<Rightarrow> nat" where
  "aes_decrypt_deinit live = live - 1"

definition aes_encrypt_init :: "'k aes_lib \<Rightarrow> bool \<Rightarrow> u8 list \<Rightarrow> nat \<Rightarrow> 'k option \<times> nat" where
  "aes_encrypt_init L malloc_ok key live =
     (if \<not> malloc_ok then (None, live)
      else let live = Suc live;
               (rc, aes) = aes_setkey_dec L key (of_nat (length key) * 8) (aes_init L)
           in if rc = 0 then (Some aes, live) else (None, live - 1))"

definition aes_encrypt :: "'k aes_lib \<Rightarrow> 'k \<Rightarrow> u8 list \<Rightarrow> int \<times> u8 list" where
  "aes_encrypt L ctx crypt = aes_crypt_ecb L ctx MBEDTLS_AES_ENCRYPT crypt"

definition aes_encrypt_deinit :: "nat \<Rightarrow> nat" where
  "aes_encrypt_deinit live = live - 1"

text \<open>
  The documented behaviour: a key of 16, 24 or 32 bytes set for one direction makes the block
  function of that direction work. Nothing is promised for the other direction.
\<close>

definition aes_contract :: "'k aes_lib \<Rightarrow> (u8 list \<Rightarrow> u8 list \<Rightarrow> u8 list) \<Rightarrow> bool" where
  "aes_contract L E \<longleftrightarrow> (\<forall>k. length k \<in> {16, 24, 32} \<longrightarrow>
     fst (aes_setkey_enc L k (of_nat (length k) * 8) (aes_init L)) = 0
   \<and> fst (aes_setkey_dec L k (of_nat (length k) * 8) (aes_init L)) = 0
   \<and> (\<forall>p. length p = 16 \<longrightarrow>
        aes_crypt_ecb L (snd (aes_setkey_enc L k (of_nat (length k) * 8) (aes_init L))) MBEDTLS_AES_ENCRYPT p = (0, E k p)
      \<and> aes_crypt_ecb L (snd (aes_setkey_dec L k (of_nat (length k) * 8) (aes_init L))) MBEDTLS_AES_DECRYPT (E k p) = (0, p)))"

lemma aes_decrypt_inverts:
  assumes "aes_contract L E" "length k \<in> {16, 24, 32}" "length p = 16"
  shows "\<exists>c. aes_decrypt_init L True k live = (Some c, Suc live) \<and> aes_decrypt L c (E k p) = (0, p)"
proof -
  let ?s = "aes_setkey_dec L k (of_nat (length k) * 8) (aes_init L)"
  have "fst ?s = 0" "aes_crypt_ecb L (snd ?s) MBEDTLS_AES_DECRYPT (E k p) = (0, p)"
    using assms unfolding aes_contract_def by blast+
  then show ?thesis
    by (auto simp: aes_decrypt_init_def aes_decrypt_def Let_def split: prod.splits)
qed

lemma aes_contexts_balanced:
  "fst (aes_decrypt_init L ok k live) = None \<Longrightarrow> snd (aes_decrypt_init L ok k live) = live"
  "fst (aes_decrypt_init L ok k live) = Some c \<Longrightarrow> aes_decrypt_deinit (snd (aes_decrypt_init L ok k live)) = live"
  by (auto simp: aes_decrypt_init_def aes_decrypt_deinit_def Let_def split: prod.splits if_splits)

text \<open>
  Encryption is set up with the key schedule of decryption: the two initialisations are the same
  function, and with a library whose schedules differ, encryption does not encrypt.
\<close>

lemma aes_encrypt_init_is_decrypt_init: "aes_encrypt_init = aes_decrypt_init"
  by (intro ext) (simp add: aes_encrypt_init_def aes_decrypt_init_def)

definition demo_aes :: "bool aes_lib" where
  "demo_aes = \<lparr>aes_init = False, aes_setkey_enc = (\<lambda>k n c. (0, False)), aes_setkey_dec = (\<lambda>k n c. (0, True)),
     aes_crypt_ecb = (\<lambda>dec m bs. (0, map (\<lambda>b. if dec then b - 1 else b + 1) bs))\<rparr>"

lemma demo_aes_contract: "aes_contract demo_aes (\<lambda>k. map (\<lambda>b. b + 1))"
  by (simp add: aes_contract_def demo_aes_def comp_def)

lemma aes_encrypt_wrong_schedule:
  "\<exists>c. aes_encrypt_init demo_aes True (replicate 16 0) 0 = (Some c, 1)
     \<and> aes_encrypt demo_aes c (replicate 16 0) \<noteq> (0, map (\<lambda>b. b + 1) (replicate 16 0))"
  by (intro exI [of _ True]) (simp add: aes_encrypt_init_def aes_encrypt_def demo_aes_def)

section \<open>CMAC\<close>

datatype mbedtls_cipher_type_t =
  MBEDTLS_CIPHER_AES_128_ECB | MBEDTLS_CIPHER_AES_192_ECB | MBEDTLS_CIPHER_AES_256_ECB

record 'c cipher_lib =
  cipher_info_from_type :: "mbedtls_cipher_type_t \<Rightarrow> bool"
  cipher_setup :: "mbedtls_cipher_type_t \<Rightarrow> int \<times> 'c"
  cipher_cmac_starts :: "u8 list \<Rightarrow> u32 \<Rightarrow> 'c \<Rightarrow> int \<times> 'c"
  cipher_cmac_update :: "u8 list \<Rightarrow> 'c \<Rightarrow> int \<times> 'c"
  cipher_cmac_finish :: "'c \<Rightarrow> int \<times> u8 list"

definition omac1_cipher_type :: "nat \<Rightarrow> mbedtls_cipher_type_t option" where
  "omac1_cipher_type key_len =
     (if key_len = 16 then Some MBEDTLS_CIPHER_AES_128_ECB
      else if key_len = 24 then Some MBEDTLS_CIPHER_AES_192_ECB
      else if key_len = 32 then Some MBEDTLS_CIPHER_AES_256_ECB
      else None)"

fun cmac_update_loop :: "'c cipher_lib \<Rightarrow> u8 list list \<Rightarrow> int \<Rightarrow> 'c \<Rightarrow> int \<times> 'c" where
  "cmac_update_loop L [] ret ctx = (ret, ctx)"
| "cmac_update_loop L (a # as) ret ctx =
     (if ret = 0 then let (ret, ctx) = cipher_cmac_update L a ctx in cmac_update_loop L as ret ctx
      else (ret, ctx))"

definition omac1_aes_vector :: "'c cipher_lib \<Rightarrow> u8 list \<Rightarrow> u8 list list \<Rightarrow> int \<times> u8 list option" where
  "omac1_aes_vector L key addr =
     (case omac1_cipher_type (length key) of
        None \<Rightarrow> (- 1, None)
      | Some cipher_type \<Rightarrow>
          if \<not> cipher_info_from_type L cipher_type then (- 1, None)
          else let (rc, ctx) = cipher_setup L cipher_type;
                   (rc2, ctx2) = cipher_cmac_starts L key (of_nat (length key) * 8) ctx;
                   (ret, ctx3) = (if rc = 0 \<and> rc2 = 0 then cmac_update_loop L addr 0 ctx2 else (- 1, ctx))
               in if ret = 0 then let (ret, mac) = cipher_cmac_finish L ctx3
                                  in (if ret \<noteq> 0 then - 1 else 0, Some mac)
                  else (- 1, None))"

definition omac1_aes_128 :: "'c cipher_lib \<Rightarrow> u8 list \<Rightarrow> u8 list \<Rightarrow> int \<times> u8 list option" where
  "omac1_aes_128 L key data = omac1_aes_vector L (take 16 key) [data]"

definition cmac_contract :: "'c cipher_lib \<Rightarrow> (u8 list \<Rightarrow> u8 list \<Rightarrow> 'c \<Rightarrow> bool) \<Rightarrow> (u8 list \<Rightarrow> u8 list \<Rightarrow> u8 list) \<Rightarrow> bool" where
  "cmac_contract L R M \<longleftrightarrow>
     (\<forall>t k c. cipher_setup L t = (0, c) \<longrightarrow> fst (cipher_cmac_starts L k (of_nat (length k) * 8) c) = 0 \<longrightarrow>
        R k [] (snd (cipher_cmac_starts L k (of_nat (length k) * 8) c)))
   \<and> (\<forall>k bs c d. R k bs c \<longrightarrow> fst (cipher_cmac_update L d c) = 0 \<longrightarrow> R k (bs @ d) (snd (cipher_cmac_update L d c)))
   \<and> (\<forall>k bs c. R k bs c \<longrightarrow> fst (cipher_cmac_finish L c) = 0 \<longrightarrow> snd (cipher_cmac_finish L c) = M k bs)"

lemma cmac_loop_absorbs:
  assumes "cmac_contract L R M"
  shows "R k bs c \<Longrightarrow> fst (cmac_update_loop L addr 0 c) = 0 \<Longrightarrow>
     R k (bs @ concat addr) (snd (cmac_update_loop L addr 0 c))"
proof (induction addr arbitrary: bs c)
  case (Cons a as)
  obtain rc c' where u: "cipher_cmac_update L a c = (rc, c')" by fastforce
  have rc: "rc = 0" using Cons.prems(2) u by (cases as) (auto split: if_splits)
  then have "R k (bs @ a) c'" using assms Cons.prems(1) u unfolding cmac_contract_def
    by (metis fst_conv snd_conv)
  from Cons.IH [OF this] show ?case using Cons.prems(2) u rc by simp
qed simp

text \<open>
  A return of 0 means that the MAC over the concatenated buffers was written; every failure of the
  library, and a key of another length than 16, 24 or 32 bytes, is the code \<open>- 1\<close>.
\<close>

lemma omac1_success_is_mac:
  assumes "cmac_contract L R M" "omac1_aes_vector L key addr = (0, mac)"
  shows "mac = Some (M key (concat addr)) \<and> length key \<in> {16, 24, 32}"
proof -
  obtain t c where t: "omac1_cipher_type (length key) = Some t"
      and c: "cipher_setup L t = (0, c)"
      "fst (cipher_cmac_starts L key (of_nat (length key) * 8) c) = 0"
    using assms(2) by (auto simp: omac1_aes_vector_def Let_def split: option.splits prod.splits if_splits)
  let ?c = "snd (cipher_cmac_starts L key (of_nat (length key) * 8) c)"
  have R: "R key [] ?c" using assms(1) c unfolding cmac_contract_def by blast
  have u: "fst (cmac_update_loop L addr 0 ?c) = 0"
    and f: "fst (cipher_cmac_finish L (snd (cmac_update_loop L addr 0 ?c))) = 0"
      "mac = Some (snd (cipher_cmac_finish L (snd (cmac_update_loop L addr 0 ?c))))"
    using assms(2) t c by (auto simp: omac1_aes_vector_def Let_def split: prod.splits if_splits)
  have "R key ([] @ concat addr) (snd (cmac_update_loop L addr 0 ?c))"
    by (rule cmac_loop_absorbs [OF assms(1) R u])
  then have "mac = Some (M key (concat addr))"
    using assms(1) f unfolding cmac_contract_def by auto
  then show ?thesis using t by (auto simp: omac1_cipher_type_def split: if_splits)
qed

lemma omac1_code: "fst (omac1_aes_vector L key addr) \<in> {0, - 1}"
  by (auto simp: omac1_aes_vector_def Let_def split: option.splits prod.splits if_splits)

section \<open>Key wrap\<close>

text \<open>The code of the library is returned as it is; the library gets the exact size of the output.\<close>

record 'c kw_lib =
  kw_setkey :: "u8 list \<Rightarrow> u32 \<Rightarrow> int \<times> 'c"
  kw_wrap :: "'c \<Rightarrow> u8 list \<Rightarrow> u32 \<Rightarrow> u32 \<Rightarrow> int \<times> u8 list"

definition aes_wrap :: "'c kw_lib \<Rightarrow> u8 list \<Rightarrow> int \<Rightarrow> u8 list \<Rightarrow> int \<times> u8 list option" where
  "aes_wrap L kek n plain =
     (let (ret, ctx) = kw_setkey L kek (of_nat (length kek) * 8)
      in if ret \<noteq> 0 then (ret, None)
         else let (ret, cipher) = kw_wrap L ctx (take (nat (n * 8)) plain) (word_of_int (n * 8)) (word_of_int (8 * (n + 1)))
              in (ret, Some cipher))"

end
