(* ===== verification/Mod_Prime.thy ===== *)
theory Mod_Prime
  imports Main
begin

text \<open>
  Residues modulo an odd prime, for the Legendre symbol of the big number operations: the
  elements other than 0 pair up to any given product, which gives Wilson's theorem and Euler's
  criterion. Nothing here depends on the program.
\<close>

definition is_prime :: "int \<Rightarrow> bool" where
  "is_prime p \<longleftrightarrow> 1 < p \<and> (\<forall>d. 0 < d \<longrightarrow> d dvd p \<longrightarrow> d = 1 \<or> d = p)"

definition is_square_mod :: "int \<Rightarrow> int \<Rightarrow> bool" where
  "is_square_mod p a \<longleftrightarrow> (\<exists>x \<in> {0..<p}. x * x mod p = a mod p)"

definition legendre :: "int \<Rightarrow> int \<Rightarrow> int" where
  "legendre a p = (if a mod p = 0 then 0 else if is_square_mod p a then 1 else - 1)"

section \<open>Divisibility\<close>

lemma prime_coprime: "is_prime p \<Longrightarrow> \<not> p dvd a \<Longrightarrow> coprime p a"
  unfolding is_prime_def coprime_iff_gcd_eq_1
  by (metis gcd_dvd1 gcd_dvd2 gcd_pos_int less_irrefl less_trans zero_less_one)

lemma prime_dvd_mult: "is_prime p \<Longrightarrow> p dvd a * b \<Longrightarrow> p dvd a \<or> p dvd b"
  using prime_coprime coprime_dvd_mult_right_iff by blast

lemma unit_not_dvd: "x \<in> {1..<p} \<Longrightarrow> \<not> p dvd (x :: int)"
  using zdvd_imp_le [of p x] by auto

lemma mod_unit: "1 < p \<Longrightarrow> \<not> p dvd (a :: int) \<Longrightarrow> a mod p \<in> {1..<p}"
  using pos_mod_bound [of p a] pos_mod_sign [of p a] dvd_eq_mod_eq_0 [of p a]
  unfolding atLeastLessThan_iff by linarith

lemma units_eq: "x \<in> {1..<p} \<Longrightarrow> y \<in> {1..<p} \<Longrightarrow> p dvd x - y \<Longrightarrow> x = (y :: int)"
  by (metis atLeastLessThan_iff mod_eq_dvd_iff mod_pos_pos_trivial order_trans zero_le_one)

lemma mult_cancel_mod:
  assumes "is_prime p" "x \<in> {1..<p}" "y \<in> {1..<p}" "z \<in> {1..<p}" "x * y mod p = x * z mod p"
  shows "y = z"
proof -
  have "p dvd x * (y - z)" using assms(5) by (simp add: mod_eq_dvd_iff right_diff_distrib)
  then have "p dvd y - z" using prime_dvd_mult [OF assms(1)] unit_not_dvd [OF assms(2)] by blast
  then show ?thesis using units_eq assms(3,4) by blast
qed

section \<open>Partners\<close>

lemma partner_exists:
  assumes "is_prime p" "\<not> p dvd a" "x \<in> {1..<p}"
  shows "\<exists>!y. y \<in> {1..<p} \<and> x * y mod p = a mod p"
proof -
  let ?f = "\<lambda>y. x * y mod p"
  have p: "1 < p" using assms(1) by (simp add: is_prime_def)
  have "inj_on ?f {1..<p}" using mult_cancel_mod [OF assms(1,3)] by (auto intro: inj_onI)
  moreover have "?f ` {1..<p} \<subseteq> {1..<p}"
    using mod_unit [OF p] prime_dvd_mult [OF assms(1)] unit_not_dvd assms(3) by blast
  ultimately have "?f ` {1..<p} = {1..<p}" by (intro endo_inj_surj) auto
  then have "a mod p \<in> ?f ` {1..<p}" using mod_unit [OF p assms(2)] by (rule ssubst)
  then obtain y where "y \<in> {1..<p}" "a mod p = ?f y" by (rule imageE)
  then show ?thesis using mult_cancel_mod [OF assms(1,3)] by (intro ex1I [of _ y]) auto
qed

definition partner :: "int \<Rightarrow> int \<Rightarrow> int \<Rightarrow> int" where
  "partner p a x = (THE y. y \<in> {1..<p} \<and> x * y mod p = a mod p)"

lemma partner:
  assumes "is_prime p" "\<not> p dvd a" "x \<in> {1..<p}"
  shows "partner p a x \<in> {1..<p}" "x * partner p a x mod p = a mod p"
  using theI' [OF partner_exists [OF assms]] by (simp_all add: partner_def)

lemma partner_eqI:
  assumes "is_prime p" "\<not> p dvd a" "x \<in> {1..<p}" "y \<in> {1..<p}" "x * y mod p = a mod p"
  shows "partner p a x = y"
  using partner_exists [OF assms(1-3)] partner [OF assms(1-3)] assms(4,5) by blast

lemma partner_partner:
  assumes "is_prime p" "\<not> p dvd a" "x \<in> {1..<p}"
  shows "partner p a (partner p a x) = x"
  using partner [OF assms] assms by (intro partner_eqI) (auto simp: mult.commute)

lemma paired_product:
  assumes "finite S" "\<And>x. x \<in> S \<Longrightarrow> f x \<in> S \<and> f x \<noteq> x \<and> f (f x) = x \<and> x * f x mod p = c mod (p :: int)"
  shows "\<Prod>S mod p = c ^ (card S div 2) mod p \<and> even (card S)"
  using assms
proof (induction "card S" arbitrary: S rule: less_induct)
  case less
  show ?case
  proof (cases "S = {}")
    case False
    then obtain x where x: "x \<in> S" by blast
    let ?T = "S - {x, f x}"
    have fx: "f x \<in> S" "f x \<noteq> x" "x * f x mod p = c mod p" using less.prems(2) [OF x] by auto
    have S: "S = insert x (insert (f x) ?T)" "x \<notin> insert (f x) ?T" "f x \<notin> ?T" using x fx by auto
    have card: "card S = Suc (Suc (card ?T))"
      using S less.prems(1) by (metis card_insert_disjoint finite_Diff finite_insert)
    have "\<Prod>S = x * f x * \<Prod>?T"
      using S less.prems(1) by (metis prod.insert finite_Diff finite_insert mult.assoc)
    moreover have IH: "\<Prod>?T mod p = c ^ (card ?T div 2) mod p \<and> even (card ?T)"
    proof (rule less.hyps)
      fix y assume y: "y \<in> ?T"
      have "f y \<noteq> x" "f y \<noteq> f x" using less.prems(2) [of y] less.prems(2) [OF x] y by auto
      then show "f y \<in> ?T \<and> f y \<noteq> y \<and> f (f y) = y \<and> y * f y mod p = c mod p"
        using less.prems(2) [of y] y by auto
    qed (use card less.prems(1) in auto)
    ultimately have "\<Prod>S mod p = c * c ^ (card ?T div 2) mod p"
      using fx(3) by (metis mod_mult_cong)
    then show ?thesis using card IH by simp
  qed simp
qed

section \<open>Euler's criterion\<close>

lemma nonresidue_product:
  assumes "is_prime p" "\<not> p dvd a" "\<not> is_square_mod p a"
  shows "\<Prod>{1..<p} mod p = a ^ nat ((p - 1) div 2) mod p"
proof -
  have "partner p a x \<noteq> x" if "x \<in> {1..<p}" for x
    using partner [OF assms(1,2) that] assms(3) that by (auto simp: is_square_mod_def)
  then have "\<Prod>{1..<p} mod p = a ^ (card {1..<p} div 2) mod p"
    using paired_product [of "{1..<p}" "partner p a"] partner [OF assms(1,2)] partner_partner [OF assms(1,2)]
    by blast
  then show ?thesis using assms(1) by (simp add: is_prime_def nat_div_distrib)
qed

lemma square_roots:
  assumes "is_prime p" "b \<in> {1..<p}" "x \<in> {1..<p}" "x * x mod p = b * b mod p"
  shows "x = b \<or> x = p - b"
proof -
  have "p dvd (x - b) * (x + b)" using assms(4) by (simp add: mod_eq_dvd_iff algebra_simps)
  then have "p dvd x - b \<or> p dvd x + b" by (rule prime_dvd_mult [OF assms(1)])
  then have "p dvd x - b \<or> p dvd x - (p - b)"
    using dvd_diff [of p "x + b" p] by (auto simp: algebra_simps)
  then show ?thesis using units_eq [of _ p] assms(2,3) by auto
qed

lemma residue_product:
  assumes "is_prime p" "odd p" "b \<in> {1..<p}" "b * b mod p = a mod p"
  shows "\<Prod>{1..<p} mod p = - (a ^ nat ((p - 1) div 2)) mod p"
proof -
  let ?T = "{1..<p} - {b, p - b}"
  have pd: "\<not> p dvd a"
    using assms prime_dvd_mult unit_not_dvd by (metis dvd_eq_mod_eq_0)
  have ne: "b \<noteq> p - b" using assms(2) by presburger
  have roots: "x = b \<or> x = p - b" if "x \<in> {1..<p}" "partner p a x = x" for x
    using square_roots [OF assms(1,3) that(1)] partner [OF assms(1) pd that(1)] that(2) assms(4) by metis
  have "(p - b) * (p - b) = b * b + p * (p - 2 * b)" by (simp add: algebra_simps)
  then have "(p - b) * (p - b) mod p = a mod p" using assms(4) by (simp only: mod_mult_self2)
  then have fixb: "partner p a b = b" "partner p a (p - b) = p - b"
    using assms pd by (auto intro!: partner_eqI simp only: atLeastLessThan_iff)
  have "\<Prod>?T mod p = a ^ (card ?T div 2) mod p \<and> even (card ?T)"
  proof (rule paired_product)
    fix x assume x: "x \<in> ?T"
    then have u: "x \<in> {1..<p}" by blast
    have "partner p a x \<noteq> b" "partner p a x \<noteq> p - b"
      using partner_partner [OF assms(1) pd u] fixb x by auto
    then show "partner p a x \<in> ?T \<and> partner p a x \<noteq> x \<and> partner p a (partner p a x) = x
        \<and> x * partner p a x mod p = a mod p"
      using partner [OF assms(1) pd u] partner_partner [OF assms(1) pd u] roots [OF u] x by blast
  qed simp
  moreover have U: "{1..<p} = insert b (insert (p - b) ?T)" using assms(3) by auto
  then have "\<Prod>{1..<p} = \<Prod>(insert b (insert (p - b) ?T))" by (rule arg_cong)
  then have "\<Prod>{1..<p} = b * (p - b) * \<Prod>?T" using ne by simp
  moreover have "b * (p - b) mod p = - a mod p"
  proof -
    have "b * (p - b) = - (b * b) + p * b" by (simp add: algebra_simps)
    then show ?thesis using mod_minus_cong [OF assms(4)] by (simp only: mod_mult_self2)
  qed
  ultimately have "\<Prod>{1..<p} mod p = - a * a ^ (card ?T div 2) mod p" by (metis mod_mult_cong)
  moreover have "nat ((p - 1) div 2) = Suc (card ?T div 2)"
    using arg_cong [OF U, of card] ne by (simp add: nat_div_distrib)
  ultimately show ?thesis by simp
qed

text \<open>Wilson's theorem is the case \<open>a = 1\<close>, and the criterion compares the two products with it.\<close>

lemma wilson:
  assumes "is_prime p" "odd p"
  shows "\<Prod>{1..<p} mod p = - 1 mod p"
  using residue_product [OF assms, of 1 1] assms by (simp add: is_prime_def)

lemma euler_criterion:
  assumes "is_prime p" "odd p"
  shows "a ^ nat ((p - 1) div 2) mod p = legendre a p mod p"
proof -
  have "1 < p" using assms(1) by (simp add: is_prime_def)
  then have p: "2 < p" using assms(2) by presburger
  show ?thesis
  proof (cases "p dvd a")
    case True
    have "0 < nat ((p - 1) div 2)" using p by simp
    then obtain k where k: "nat ((p - 1) div 2) = Suc k" using gr0_implies_Suc by blast
    have "p dvd a ^ Suc k" using True by simp
    moreover have "legendre a p = 0" using True by (simp add: legendre_def dvd_eq_mod_eq_0)
    ultimately show ?thesis unfolding k by (simp only: dvd_eq_mod_eq_0 mod_0)
  next
    case False
    show ?thesis
    proof (cases "is_square_mod p a")
      case True
      then obtain b where b: "b \<in> {0..<p}" "b * b mod p = a mod p" by (auto simp: is_square_mod_def)
      have "b \<noteq> 0" using b(2) False by (auto simp: dvd_eq_mod_eq_0)
      then have "b \<in> {1..<p}" using b(1) by auto
      from residue_product [OF assms this b(2)]
      have "- (a ^ nat ((p - 1) div 2)) mod p = - 1 mod p" unfolding wilson [OF assms] by (rule sym)
      from mod_minus_cong [OF this] have "a ^ nat ((p - 1) div 2) mod p = 1 mod p"
        by (simp only: minus_minus)
      moreover have "legendre a p = 1" using True False by (simp add: legendre_def dvd_eq_mod_eq_0)
      ultimately show ?thesis by (simp only:)
    next
      case nonres: False
      then have "legendre a p = - 1" using False by (simp add: legendre_def dvd_eq_mod_eq_0)
      then show ?thesis
        using nonresidue_product [OF assms(1) False nonres] wilson [OF assms] by (simp only:)
    qed
  qed
qed

end
