(* ===== verification/Crypto_Bignum.thy ===== *)
theory Crypto_Bignum
  imports Crypto_Hash Mod_Prime
begin

text \<open>
  The big number operations that the bridge hands to the supplicant
  (\<^verbatim>\<open>framework/mm_shims/crypto_mbedtls_mm.c\<close>, \<open>crypto_bignum_*\<close>). Numbers are objects on a heap,
  so that an operation whose result is one of its operands is seen as such; mbedTLS's own
  arithmetic is a record of functions, an argument of every operation, with its documented laws
  as the predicate \<open>mpi_contract\<close>.
\<close>

section \<open>Numbers\<close>

text \<open>An \<^verbatim>\<open>mbedtls_mpi\<close>: the sign and the 32-bit limbs, the lowest first; no limbs is a null \<open>p\<close>.\<close>

record mpi =
  mpi_s :: int
  mpi_p :: "u32 list"

fun limbs_val :: "u32 list \<Rightarrow> int" where
  "limbs_val [] = 0"
| "limbs_val (w # ws) = uint w + 2 ^ 32 * limbs_val ws"

definition mpi_val :: "mpi \<Rightarrow> int" where
  "mpi_val x = mpi_s x * limbs_val (mpi_p x)"

definition mpi_wf :: "mpi \<Rightarrow> bool" where
  "mpi_wf x \<longleftrightarrow> mpi_s x = 1 \<or> mpi_s x = - 1"

lemma limbs_val_nonneg: "0 \<le> limbs_val ws"
  by (induction ws) auto

lemma limbs_val_0: "limbs_val ws = 0 \<longleftrightarrow> (\<forall>w \<in> set ws. w = 0)"
proof (induction ws)
  case (Cons w ws)
  have "uint w + 2 ^ 32 * limbs_val ws = 0 \<longleftrightarrow> uint w = 0 \<and> limbs_val ws = 0"
    using limbs_val_nonneg [of ws] uint_ge_0 [of w] by (subst add_nonneg_eq_0_iff) auto
  then show ?case using Cons by (simp add: unsigned_eq_0_iff)
qed simp

lemma mpi_val_0: "mpi_wf x \<Longrightarrow> mpi_val x = 0 \<longleftrightarrow> (\<forall>w \<in> set (mpi_p x). w = 0)"
  by (auto simp: mpi_wf_def mpi_val_def limbs_val_0)

text \<open>Big-endian octet strings.\<close>

definition be_val :: "u8 list \<Rightarrow> int" where
  "be_val bs = foldl (\<lambda>a b. a * 256 + uint b) 0 bs"

fun be_bytes :: "nat \<Rightarrow> int \<Rightarrow> u8 list" where
  "be_bytes 0 v = []"
| "be_bytes (Suc n) v = be_bytes n (v div 256) @ [word_of_int v]"

lemma length_be_bytes [simp]: "length (be_bytes n v) = n"
  by (induction n arbitrary: v) auto

lemma div_256_less: "v < 256 * k \<Longrightarrow> v div 256 < (k :: int)"
  by presburger

lemma be_val_be_bytes: "0 \<le> v \<Longrightarrow> v < 256 ^ n \<Longrightarrow> be_val (be_bytes n v) = v"
proof (induction n arbitrary: v)
  case (Suc n)
  have "v div 256 < 256 ^ n" using Suc.prems(2) by (simp add: div_256_less)
  moreover have "0 \<le> v div 256" using Suc.prems(1) by simp
  ultimately have "be_val (be_bytes n (v div 256)) = v div 256" by (intro Suc.IH)
  then show ?case by (simp add: be_val_def uint_word_of_int)
qed (simp add: be_val_def)

section \<open>The library\<close>

text \<open>
  A call returns its code and the number it leaves in its first argument. \<open>mpi_exp_mod\<close> is told
  whether its result is also its exponent or its modulus, for which the library promises nothing.
\<close>

record mpi_lib =
  mpi_init :: mpi
  mpi_read_binary :: "u8 list \<Rightarrow> int \<times> mpi"
  mpi_write_binary :: "mpi \<Rightarrow> nat \<Rightarrow> int \<times> u8 list"
  mpi_size :: "mpi \<Rightarrow> nat"
  mpi_lset :: "int \<Rightarrow> int \<times> mpi"
  mpi_random :: "int \<Rightarrow> mpi \<Rightarrow> int \<times> mpi"
  mpi_add_mpi :: "mpi \<Rightarrow> mpi \<Rightarrow> int \<times> mpi"
  mpi_sub_mpi :: "mpi \<Rightarrow> mpi \<Rightarrow> int \<times> mpi"
  mpi_mul_mpi :: "mpi \<Rightarrow> mpi \<Rightarrow> int \<times> mpi"
  mpi_mod_mpi :: "mpi \<Rightarrow> mpi \<Rightarrow> int \<times> mpi"
  mpi_div_mpi :: "mpi \<Rightarrow> mpi \<Rightarrow> int \<times> mpi"
  mpi_inv_mod :: "mpi \<Rightarrow> mpi \<Rightarrow> int \<times> mpi"
  mpi_exp_mod :: "bool \<Rightarrow> mpi \<Rightarrow> mpi \<Rightarrow> mpi \<Rightarrow> int \<times> mpi"
  mpi_copy :: "mpi \<Rightarrow> int \<times> mpi"
  mpi_shift_r :: "mpi \<Rightarrow> nat \<Rightarrow> int \<times> mpi"
  mpi_sub_int :: "mpi \<Rightarrow> int \<Rightarrow> int \<times> mpi"
  mpi_sub_abs :: "mpi \<Rightarrow> mpi \<Rightarrow> int \<times> mpi"
  mpi_cmp_mpi :: "mpi \<Rightarrow> mpi \<Rightarrow> int"
  mpi_cmp_int :: "mpi \<Rightarrow> int \<Rightarrow> int"
  mpi_get_bit :: "mpi \<Rightarrow> nat \<Rightarrow> int"
  mpi_bitlen :: "mpi \<Rightarrow> nat"

text \<open>
  \<open>gives mem_ok r dm v\<close>: the code 0 means that the call was in its domain and left the value \<open>v\<close>;
  with \<open>mem_ok\<close> there is memory enough, so that a call in its domain does not fail.
\<close>

definition gives :: "bool \<Rightarrow> int \<times> mpi \<Rightarrow> bool \<Rightarrow> int \<Rightarrow> bool" where
  "gives mem_ok r dm v \<longleftrightarrow>
     (fst r = 0 \<longrightarrow> dm \<and> mpi_val (snd r) = v \<and> mpi_wf (snd r)) \<and> (mem_ok \<and> dm \<longrightarrow> fst r = 0)"

definition quot_int :: "int \<Rightarrow> int \<Rightarrow> int" where
  "quot_int x y = sgn x * sgn y * (\<bar>x\<bar> div \<bar>y\<bar>)"

definition shr_int :: "int \<Rightarrow> nat \<Rightarrow> int" where
  "shr_int x k = sgn x * (\<bar>x\<bar> div 2 ^ k)"

text \<open>The residue that \<open>x\<close> multiplies to 1 modulo \<open>n\<close>, if there is one.\<close>

definition inv_mod_int :: "int \<Rightarrow> int \<Rightarrow> int option" where
  "inv_mod_int x n = find (\<lambda>r. x * r mod n = 1) [0..n - 1]"

definition mpi_contract :: "bool \<Rightarrow> mpi_lib \<Rightarrow> bool" where
  "mpi_contract mem_ok L \<longleftrightarrow>
     (\<forall>bs. gives mem_ok (mpi_read_binary L bs) True (be_val bs))
   \<and> (\<forall>i. gives mem_ok (mpi_lset L i) True i)
   \<and> (\<forall>x y. gives mem_ok (mpi_add_mpi L x y) True (mpi_val x + mpi_val y))
   \<and> (\<forall>x y. gives mem_ok (mpi_sub_mpi L x y) True (mpi_val x - mpi_val y))
   \<and> (\<forall>x y. gives mem_ok (mpi_mul_mpi L x y) True (mpi_val x * mpi_val y))
   \<and> (\<forall>x y. gives mem_ok (mpi_mod_mpi L x y) (0 < mpi_val y) (mpi_val x mod mpi_val y))
   \<and> (\<forall>x y. gives mem_ok (mpi_div_mpi L x y) (mpi_val y \<noteq> 0) (quot_int (mpi_val x) (mpi_val y)))
   \<and> (\<forall>x y. gives mem_ok (mpi_inv_mod L x y) (1 < mpi_val y \<and> inv_mod_int (mpi_val x) (mpi_val y) \<noteq> None)
        (the (inv_mod_int (mpi_val x) (mpi_val y))))
   \<and> (\<forall>x e n. gives mem_ok (mpi_exp_mod L False x e n) (0 < mpi_val n \<and> odd (mpi_val n) \<and> 0 \<le> mpi_val e)
        (mpi_val x ^ nat (mpi_val e) mod mpi_val n))
   \<and> (\<forall>x. gives mem_ok (mpi_copy L x) True (mpi_val x))
   \<and> (\<forall>x k. gives mem_ok (mpi_shift_r L x k) True (shr_int (mpi_val x) k))
   \<and> (\<forall>x i. gives mem_ok (mpi_sub_int L x i) True (mpi_val x - i))
   \<and> (\<forall>x y. gives mem_ok (mpi_sub_abs L x y) (\<bar>mpi_val y\<bar> \<le> \<bar>mpi_val x\<bar>) (\<bar>mpi_val x\<bar> - \<bar>mpi_val y\<bar>))
   \<and> (\<forall>x n. mpi_size L x \<le> n \<longleftrightarrow> \<bar>mpi_val x\<bar> < 256 ^ n)
   \<and> (\<forall>x n. \<bar>mpi_val x\<bar> < 256 ^ n \<longrightarrow> mpi_write_binary L x n = (0, be_bytes n \<bar>mpi_val x\<bar>))
   \<and> (\<forall>x n. \<not> \<bar>mpi_val x\<bar> < 256 ^ n \<longrightarrow> fst (mpi_write_binary L x n) \<noteq> 0)
   \<and> (\<forall>x y. mpi_cmp_mpi L x y = sgn (mpi_val x - mpi_val y))
   \<and> (\<forall>x i. mpi_cmp_int L x i = sgn (mpi_val x - i))
   \<and> (\<forall>x k. mpi_get_bit L x k = of_bool (bit \<bar>mpi_val x\<bar> k))"

lemma mpi_contractD:
  assumes "mpi_contract mem_ok L"
  shows lib_read: "gives mem_ok (mpi_read_binary L bs) True (be_val bs)"
    and lib_lset: "gives mem_ok (mpi_lset L i) True i"
    and lib_add: "gives mem_ok (mpi_add_mpi L x y) True (mpi_val x + mpi_val y)"
    and lib_sub: "gives mem_ok (mpi_sub_mpi L x y) True (mpi_val x - mpi_val y)"
    and lib_mul: "gives mem_ok (mpi_mul_mpi L x y) True (mpi_val x * mpi_val y)"
    and lib_mod: "gives mem_ok (mpi_mod_mpi L x y) (0 < mpi_val y) (mpi_val x mod mpi_val y)"
    and lib_div: "gives mem_ok (mpi_div_mpi L x y) (mpi_val y \<noteq> 0) (quot_int (mpi_val x) (mpi_val y))"
    and lib_inv: "gives mem_ok (mpi_inv_mod L x y) (1 < mpi_val y \<and> inv_mod_int (mpi_val x) (mpi_val y) \<noteq> None)
        (the (inv_mod_int (mpi_val x) (mpi_val y)))"
    and lib_exp: "gives mem_ok (mpi_exp_mod L False x e y) (0 < mpi_val y \<and> odd (mpi_val y) \<and> 0 \<le> mpi_val e)
        (mpi_val x ^ nat (mpi_val e) mod mpi_val y)"
    and lib_copy: "gives mem_ok (mpi_copy L x) True (mpi_val x)"
    and lib_shift: "gives mem_ok (mpi_shift_r L x k) True (shr_int (mpi_val x) k)"
    and lib_sub_int: "gives mem_ok (mpi_sub_int L x i) True (mpi_val x - i)"
    and lib_sub_abs: "gives mem_ok (mpi_sub_abs L x y) (\<bar>mpi_val y\<bar> \<le> \<bar>mpi_val x\<bar>) (\<bar>mpi_val x\<bar> - \<bar>mpi_val y\<bar>)"
    and lib_size: "mpi_size L x \<le> n \<longleftrightarrow> \<bar>mpi_val x\<bar> < 256 ^ n"
    and lib_write: "\<bar>mpi_val x\<bar> < 256 ^ n \<Longrightarrow> mpi_write_binary L x n = (0, be_bytes n \<bar>mpi_val x\<bar>)"
    and lib_write_fail: "\<not> \<bar>mpi_val x\<bar> < 256 ^ n \<Longrightarrow> fst (mpi_write_binary L x n) \<noteq> 0"
    and lib_cmp: "mpi_cmp_mpi L x y = sgn (mpi_val x - mpi_val y)"
    and lib_cmp_int: "mpi_cmp_int L x i = sgn (mpi_val x - i)"
    and lib_bit: "mpi_get_bit L x k = of_bool (bit \<bar>mpi_val x\<bar> k)"
  using assms by (simp_all add: mpi_contract_def)

section \<open>Operations\<close>

text \<open>
  The heap of numbers. Reading or writing an object that is not there is \<open>None\<close>. An allocation
  returns the address the allocator chose, or \<open>None\<close>.
\<close>

type_synonym bn_heap = "nat \<rightharpoonup> mpi"

definition lib_call :: "bn_heap \<Rightarrow> nat \<Rightarrow> int \<times> mpi \<Rightarrow> (int \<times> bn_heap) option" where
  "lib_call h d r = (if h d = None then None else Some (if fst r \<noteq> 0 then - 1 else 0, h(d \<mapsto> snd r)))"

definition crypto_bignum_init :: "mpi_lib \<Rightarrow> nat option \<Rightarrow> bn_heap \<Rightarrow> nat option \<times> bn_heap" where
  "crypto_bignum_init L alloc h =
     (case alloc of None \<Rightarrow> (None, h) | Some bn \<Rightarrow> (Some bn, h(bn \<mapsto> mpi_init L)))"

definition crypto_bignum_init_set :: "mpi_lib \<Rightarrow> nat option \<Rightarrow> u8 list \<Rightarrow> bn_heap \<Rightarrow> nat option \<times> bn_heap" where
  "crypto_bignum_init_set L alloc buf h =
     (case alloc of None \<Rightarrow> (None, h)
      | Some bn \<Rightarrow> let (rc, v) = mpi_read_binary L buf
                   in if rc = 0 then (Some bn, h(bn \<mapsto> v)) else (None, h(bn := None)))"

definition crypto_bignum_init_uint :: "mpi_lib \<Rightarrow> nat option \<Rightarrow> u32 \<Rightarrow> bn_heap \<Rightarrow> nat option \<times> bn_heap" where
  "crypto_bignum_init_uint L alloc val h =
     (case alloc of None \<Rightarrow> (None, h)
      | Some bn \<Rightarrow> let (rc, v) = mpi_lset L (sint val)
                   in if rc = 0 then (Some bn, h(bn \<mapsto> v)) else (None, h(bn := None)))"

definition crypto_bignum_deinit :: "nat \<Rightarrow> bn_heap \<Rightarrow> bn_heap" where
  "crypto_bignum_deinit n h = h(n := None)"

text \<open>\<open>buf\<close> is the array of \<open>buflen\<close> bytes.\<close>

definition crypto_bignum_to_bin :: "mpi_lib \<Rightarrow> mpi \<Rightarrow> u8 list \<Rightarrow> nat \<Rightarrow> int \<times> u8 list" where
  "crypto_bignum_to_bin L a buf padlen =
     (let n = mpi_size L a;
          n = (if n < padlen then padlen else n)
      in if n > length buf then (- 1, buf)
         else let (rc, out) = mpi_write_binary L a n
              in (if rc \<noteq> 0 then - 1 else int n, out @ drop (length out) buf))"

definition crypto_bignum_rand :: "mpi_lib \<Rightarrow> bn_heap \<Rightarrow> nat \<Rightarrow> nat \<Rightarrow> (int \<times> bn_heap) option" where
  "crypto_bignum_rand L h r m = do { n \<leftarrow> h m; lib_call h r (mpi_random L 0 n) }"

definition crypto_bignum_add :: "mpi_lib \<Rightarrow> bn_heap \<Rightarrow> nat \<Rightarrow> nat \<Rightarrow> nat \<Rightarrow> (int \<times> bn_heap) option" where
  "crypto_bignum_add L h a b c = do { x \<leftarrow> h a; y \<leftarrow> h b; lib_call h c (mpi_add_mpi L x y) }"

definition crypto_bignum_mod :: "mpi_lib \<Rightarrow> bn_heap \<Rightarrow> nat \<Rightarrow> nat \<Rightarrow> nat \<Rightarrow> (int \<times> bn_heap) option" where
  "crypto_bignum_mod L h a b c = do { x \<leftarrow> h a; y \<leftarrow> h b; lib_call h c (mpi_mod_mpi L x y) }"

definition crypto_bignum_exptmod :: "mpi_lib \<Rightarrow> bn_heap \<Rightarrow> nat \<Rightarrow> nat \<Rightarrow> nat \<Rightarrow> nat \<Rightarrow> (int \<times> bn_heap) option" where
  "crypto_bignum_exptmod L h a b c d = do {
     x \<leftarrow> h a; e \<leftarrow> h b; n \<leftarrow> h c;
     if b = d \<or> c = d
     then let (rc, R) = mpi_exp_mod L False x e n
          in if rc \<noteq> 0 then Some (- 1, h) else lib_call h d (mpi_copy L R)
     else lib_call h d (mpi_exp_mod L (d = b \<or> d = c) x e n) }"

definition crypto_bignum_inverse :: "mpi_lib \<Rightarrow> bn_heap \<Rightarrow> nat \<Rightarrow> nat \<Rightarrow> nat \<Rightarrow> (int \<times> bn_heap) option" where
  "crypto_bignum_inverse L h a b c = do { x \<leftarrow> h a; y \<leftarrow> h b; lib_call h c (mpi_inv_mod L x y) }"

definition crypto_bignum_sub :: "mpi_lib \<Rightarrow> bn_heap \<Rightarrow> nat \<Rightarrow> nat \<Rightarrow> nat \<Rightarrow> (int \<times> bn_heap) option" where
  "crypto_bignum_sub L h a b c = do { x \<leftarrow> h a; y \<leftarrow> h b; lib_call h c (mpi_sub_mpi L x y) }"

definition crypto_bignum_div :: "mpi_lib \<Rightarrow> bn_heap \<Rightarrow> nat \<Rightarrow> nat \<Rightarrow> nat \<Rightarrow> (int \<times> bn_heap) option" where
  "crypto_bignum_div L h a b c = do {
     x \<leftarrow> h a; y \<leftarrow> h b;
     let (rc, R) = mpi_div_mpi L x y
     in if rc \<noteq> 0 then Some (- 1, h) else lib_call h c (mpi_copy L R) }"

text \<open>The sum or product is reduced in place: \<open>d\<close> is written before \<open>c\<close> is read.\<close>

definition then_mod :: "mpi_lib \<Rightarrow> nat \<Rightarrow> nat \<Rightarrow> int \<times> bn_heap \<Rightarrow> (int \<times> bn_heap) option" where
  "then_mod L c d r = (if fst r \<noteq> 0 then Some (- 1, snd r)
     else do { x \<leftarrow> snd r d; n \<leftarrow> snd r c; lib_call (snd r) d (mpi_mod_mpi L x n) })"

definition crypto_bignum_addmod :: "mpi_lib \<Rightarrow> bn_heap \<Rightarrow> nat \<Rightarrow> nat \<Rightarrow> nat \<Rightarrow> nat \<Rightarrow> (int \<times> bn_heap) option" where
  "crypto_bignum_addmod L h a b c d = do {
     x \<leftarrow> h a; y \<leftarrow> h b; r \<leftarrow> lib_call h d (mpi_add_mpi L x y); then_mod L c d r }"

definition crypto_bignum_mulmod :: "mpi_lib \<Rightarrow> bn_heap \<Rightarrow> nat \<Rightarrow> nat \<Rightarrow> nat \<Rightarrow> nat \<Rightarrow> (int \<times> bn_heap) option" where
  "crypto_bignum_mulmod L h a b c d = do {
     x \<leftarrow> h a; y \<leftarrow> h b; r \<leftarrow> lib_call h d (mpi_mul_mpi L x y); then_mod L c d r }"

definition crypto_bignum_sqrmod :: "mpi_lib \<Rightarrow> bn_heap \<Rightarrow> nat \<Rightarrow> nat \<Rightarrow> nat \<Rightarrow> (int \<times> bn_heap) option" where
  "crypto_bignum_sqrmod L h a b c = crypto_bignum_mulmod L h a a b c"

definition crypto_bignum_rshift :: "mpi_lib \<Rightarrow> bn_heap \<Rightarrow> nat \<Rightarrow> nat \<Rightarrow> nat \<Rightarrow> (int \<times> bn_heap) option" where
  "crypto_bignum_rshift L h a n r = do {
     x \<leftarrow> h a; (rc, h1) \<leftarrow> lib_call h r (mpi_copy L x);
     if rc \<noteq> 0 then Some (- 1, h1)
     else do { y \<leftarrow> h1 r; lib_call h1 r (mpi_shift_r L y n) } }"

definition crypto_bignum_cmp :: "mpi_lib \<Rightarrow> mpi \<Rightarrow> mpi \<Rightarrow> int" where
  "crypto_bignum_cmp L a b = mpi_cmp_mpi L a b"

definition crypto_bignum_is_zero :: "mpi \<Rightarrow> int" where
  "crypto_bignum_is_zero a = (let v = fold (\<lambda>w v. v OR w) (mpi_p a) 0 in if v = 0 then 1 else 0)"

definition crypto_bignum_is_one :: "mpi \<Rightarrow> int" where
  "crypto_bignum_is_one a =
     (let v = fold (\<lambda>w v. v OR w) (drop 1 (mpi_p a)) 0
      in if mpi_p a \<noteq> [] then (if mpi_p a ! 0 = 1 \<and> v = 0 then 1 else 0) else 0)"

definition crypto_bignum_is_odd :: "mpi_lib \<Rightarrow> mpi \<Rightarrow> int" where
  "crypto_bignum_is_odd L a = mpi_get_bit L a 0"

definition crypto_bignum_legendre :: "mpi_lib \<Rightarrow> mpi \<Rightarrow> mpi \<Rightarrow> int" where
  "crypto_bignum_legendre L a p =
     (let (rc1, exp) = mpi_sub_int L p 1;
          (rc2, exp2) = mpi_shift_r L exp 1;
          (rc3, tmp) = mpi_exp_mod L False a exp2 p
      in if rc1 = 0 \<and> rc2 = 0 \<and> rc3 = 0
         then let res = - 1;
                  msk = const_time_eq (word_of_int (crypto_bignum_is_one tmp)) 1;
                  res = const_time_select_int msk 1 res;
                  msk = const_time_eq (word_of_int (crypto_bignum_is_zero tmp)) 1
              in const_time_select_int msk 0 res
         else - 2)"

section \<open>Tests on the limbs\<close>

lemma fold_or_zero: "fold (\<lambda>w v. v OR w) ws v = (0 :: u32) \<longleftrightarrow> v = 0 \<and> (\<forall>w \<in> set ws. w = 0)"
proof (induction ws arbitrary: v)
  case (Cons w ws)
  have "v OR w = 0 \<longleftrightarrow> v = 0 \<and> w = 0" by (auto simp: bit_eq_iff bit_or_iff)
  then show ?case using Cons by auto
qed simp

text \<open>The constant-time tests agree with the comparisons they replace; \<open>is_one\<close> ignores the sign.\<close>

lemma is_zero_correct: "mpi_wf a \<Longrightarrow> crypto_bignum_is_zero a = of_bool (mpi_val a = 0)"
  by (simp add: crypto_bignum_is_zero_def fold_or_zero mpi_val_0)

lemma limbs_val_1: "limbs_val ws = 1 \<longleftrightarrow> (\<exists>us. ws = 1 # us \<and> (\<forall>u \<in> set us. u = 0))"
proof (cases ws)
  case (Cons w us)
  have "1 < uint w + 2 ^ 32 * limbs_val us" if "limbs_val us \<noteq> 0"
  proof -
    have "1 \<le> limbs_val us" using that limbs_val_nonneg [of us] by linarith
    then have "1 < 2 ^ 32 * limbs_val us" by simp
    then show ?thesis using uint_ge_0 [of w] by linarith
  qed
  then have "uint w + 2 ^ 32 * limbs_val us = 1 \<longleftrightarrow> uint w = 1 \<and> limbs_val us = 0"
    by (cases "limbs_val us = 0") auto
  moreover have "uint w = 1 \<longleftrightarrow> w = 1" using word_uint_eq_iff [of w 1] by simp
  ultimately show ?thesis using Cons by (simp add: limbs_val_0)
qed simp

lemma is_one_correct: "mpi_wf a \<Longrightarrow> crypto_bignum_is_one a = of_bool (\<bar>mpi_val a\<bar> = 1)"
proof -
  assume "mpi_wf a"
  then have "\<bar>mpi_val a\<bar> = 1 \<longleftrightarrow> limbs_val (mpi_p a) = 1"
    using limbs_val_nonneg [of "mpi_p a"] by (auto simp: mpi_wf_def mpi_val_def)
  then show ?thesis unfolding limbs_val_1
    by (cases "mpi_p a") (auto simp: crypto_bignum_is_one_def fold_or_zero)
qed

section \<open>Refinement of integer arithmetic\<close>

text \<open>
  The operations as one step function, and what they are to do on a store of integers: the object
  written, the precondition and the value. The modulus of \<open>addmod\<close>, \<open>mulmod\<close> and \<open>sqrmod\<close> must
  not be the object written; every other aliasing is allowed.
\<close>

datatype bn_op =
    BnAdd nat nat nat
  | BnSub nat nat nat
  | BnMod nat nat nat
  | BnDiv nat nat nat
  | BnInverse nat nat nat
  | BnExptmod nat nat nat nat
  | BnAddmod nat nat nat nat
  | BnMulmod nat nat nat nat
  | BnSqrmod nat nat nat
  | BnRshift nat nat nat

fun bn_call :: "mpi_lib \<Rightarrow> bn_heap \<Rightarrow> bn_op \<Rightarrow> (int \<times> bn_heap) option" where
  "bn_call L h (BnAdd a b c) = crypto_bignum_add L h a b c"
| "bn_call L h (BnSub a b c) = crypto_bignum_sub L h a b c"
| "bn_call L h (BnMod a b c) = crypto_bignum_mod L h a b c"
| "bn_call L h (BnDiv a b c) = crypto_bignum_div L h a b c"
| "bn_call L h (BnInverse a b c) = crypto_bignum_inverse L h a b c"
| "bn_call L h (BnExptmod a b c d) = crypto_bignum_exptmod L h a b c d"
| "bn_call L h (BnAddmod a b c d) = crypto_bignum_addmod L h a b c d"
| "bn_call L h (BnMulmod a b c d) = crypto_bignum_mulmod L h a b c d"
| "bn_call L h (BnSqrmod a b c) = crypto_bignum_sqrmod L h a b c"
| "bn_call L h (BnRshift a n r) = crypto_bignum_rshift L h a n r"

definition bn_step :: "mpi_lib \<Rightarrow> bn_heap \<Rightarrow> bn_op \<Rightarrow> (bn_heap \<times> int) option" where
  "bn_step L h e = map_option prod.swap (bn_call L h e)"

fun bn_objects :: "bn_op \<Rightarrow> nat set" where
  "bn_objects (BnAdd a b c) = {a, b, c}"
| "bn_objects (BnSub a b c) = {a, b, c}"
| "bn_objects (BnMod a b c) = {a, b, c}"
| "bn_objects (BnDiv a b c) = {a, b, c}"
| "bn_objects (BnInverse a b c) = {a, b, c}"
| "bn_objects (BnExptmod a b c d) = {a, b, c, d}"
| "bn_objects (BnAddmod a b c d) = {a, b, c, d}"
| "bn_objects (BnMulmod a b c d) = {a, b, c, d}"
| "bn_objects (BnSqrmod a b c) = {a, b, c}"
| "bn_objects (BnRshift a n r) = {a, r}"

fun bn_spec :: "(nat \<Rightarrow> int) \<Rightarrow> bn_op \<Rightarrow> nat \<times> bool \<times> int" where
  "bn_spec m (BnAdd a b c) = (c, True, m a + m b)"
| "bn_spec m (BnSub a b c) = (c, True, m a - m b)"
| "bn_spec m (BnMod a b c) = (c, 0 < m b, m a mod m b)"
| "bn_spec m (BnDiv a b c) = (c, m b \<noteq> 0, quot_int (m a) (m b))"
| "bn_spec m (BnInverse a b c) = (c, 1 < m b \<and> inv_mod_int (m a) (m b) \<noteq> None, the (inv_mod_int (m a) (m b)))"
| "bn_spec m (BnExptmod a b c d) = (d, 0 < m c \<and> odd (m c) \<and> 0 \<le> m b, m a ^ nat (m b) mod m c)"
| "bn_spec m (BnAddmod a b c d) = (d, d \<noteq> c \<and> 0 < m c, (m a + m b) mod m c)"
| "bn_spec m (BnMulmod a b c d) = (d, d \<noteq> c \<and> 0 < m c, m a * m b mod m c)"
| "bn_spec m (BnSqrmod a b c) = (c, c \<noteq> b \<and> 0 < m b, m a * m a mod m b)"
| "bn_spec m (BnRshift a n r) = (r, True, shr_int (m a) n)"

definition bn_astep :: "(nat \<rightharpoonup> int) \<Rightarrow> bn_op \<Rightarrow> (nat \<rightharpoonup> int) \<times> int" where
  "bn_astep m e = (let (d, _, v) = bn_spec (\<lambda>a. the (m a)) e in (m(d \<mapsto> v), 0))"

definition bn_pre :: "(nat \<rightharpoonup> int) \<Rightarrow> bn_op \<Rightarrow> bool" where
  "bn_pre m e \<longleftrightarrow> (\<forall>a \<in> bn_objects e. m a \<noteq> None) \<and> fst (snd (bn_spec (\<lambda>a. the (m a)) e))"

definition bn_abs :: "bn_heap \<Rightarrow> nat \<rightharpoonup> int" where
  "bn_abs h = (\<lambda>a. map_option mpi_val (h a))"

lemma bn_abs_iff [simp]:
  "bn_abs h a = None \<longleftrightarrow> h a = None" "h a = Some x \<Longrightarrow> bn_abs h a = Some (mpi_val x)"
  "bn_abs (h(d \<mapsto> x)) = (bn_abs h)(d \<mapsto> mpi_val x)"
  by (auto simp: bn_abs_def)

lemma gives_total: "gives True r dm v \<Longrightarrow> dm \<Longrightarrow> fst r = 0 \<and> mpi_val (snd r) = v \<and> mpi_wf (snd r)"
  by (simp add: gives_def)

lemma lib_call_sim:
  assumes "gives True r dm v" dm "h d \<noteq> None"
  shows "\<exists>h'. lib_call h d r = Some (0, h') \<and> bn_abs h' = (bn_abs h)(d \<mapsto> v)"
  using gives_total [OF assms(1,2)] assms(3) by (simp add: lib_call_def)

lemma then_mod_sim:
  assumes "mpi_contract True L" "gives True r True v" "h d \<noteq> None" "h c = Some n" "d \<noteq> c" "0 < mpi_val n"
  shows "\<exists>h'. do { s \<leftarrow> lib_call h d r; then_mod L c d s } = Some (0, h')
     \<and> bn_abs h' = (bn_abs h)(d \<mapsto> v mod mpi_val n)"
  using lib_call_sim [OF lib_mod [OF assms(1), of "snd r" n] assms(6), of "h(d \<mapsto> snd r)" d]
    gives_total [OF assms(2)] assms(3-5)
  by (auto simp: lib_call_def then_mod_def)

lemma copied_sim:
  assumes "mpi_contract True L" "gives True r dm v" dm "h d \<noteq> None"
  shows "\<exists>h'. (if fst r \<noteq> 0 then Some (- 1, h) else lib_call h d (mpi_copy L (snd r))) = Some (0, h')
     \<and> bn_abs h' = (bn_abs h)(d \<mapsto> v)"
  using lib_call_sim [OF lib_copy [OF assms(1), of "snd r"] TrueI, of h d] gives_total [OF assms(2,3)] assms(4)
  by auto

lemma rshift_sim:
  assumes "mpi_contract True L" "h a = Some x" "h r \<noteq> None"
  shows "\<exists>h'. crypto_bignum_rshift L h a n r = Some (0, h')
     \<and> bn_abs h' = (bn_abs h)(r \<mapsto> shr_int (mpi_val x) n)"
  using gives_total [OF lib_copy [OF assms(1), of x]]
    gives_total [OF lib_shift [OF assms(1), of "snd (mpi_copy L x)" n]] assms(2,3)
  by (simp add: crypto_bignum_rshift_def lib_call_def)

lemmas bn_op_defs = bn_astep_def bn_pre_def case_prod_beta crypto_bignum_add_def crypto_bignum_sub_def
  crypto_bignum_mod_def crypto_bignum_div_def crypto_bignum_inverse_def crypto_bignum_exptmod_def
  crypto_bignum_addmod_def crypto_bignum_mulmod_def crypto_bignum_sqrmod_def

lemma bn_call_refines:
  assumes L: "mpi_contract True L" and pre: "bn_pre (bn_abs h) e"
  shows "\<exists>h'. bn_call L h e = Some (0, h') \<and> bn_abs h' = fst (bn_astep (bn_abs h) e)"
proof (cases e)
  case (BnAdd a b c)
  then show ?thesis using pre by (auto simp: bn_op_defs intro!: lib_call_sim [OF lib_add [OF L]])
next
  case (BnSub a b c)
  then show ?thesis using pre by (auto simp: bn_op_defs intro!: lib_call_sim [OF lib_sub [OF L]])
next
  case (BnMod a b c)
  then show ?thesis using pre by (auto simp: bn_op_defs intro!: lib_call_sim [OF lib_mod [OF L]])
next
  case (BnDiv a b c)
  then show ?thesis using pre copied_sim [OF L lib_div [OF L]] by (auto simp: bn_op_defs)
next
  case (BnInverse a b c)
  then obtain x y z where v: "h a = Some x" "h b = Some y" "h c = Some z" "1 < mpi_val y"
      "inv_mod_int (mpi_val x) (mpi_val y) \<noteq> None"
    using pre by (auto simp: bn_pre_def)
  then show ?thesis using lib_call_sim [OF lib_inv [OF L, of x y], of h c] BnInverse
    by (auto simp: bn_op_defs)
next
  case (BnExptmod a b c d)
  then show ?thesis using pre copied_sim [OF L lib_exp [OF L]] lib_call_sim [OF lib_exp [OF L]]
    by (auto simp: bn_op_defs)
next
  case (BnAddmod a b c d)
  then show ?thesis using pre by (auto simp: bn_op_defs intro!: then_mod_sim [OF L lib_add [OF L]])
next
  case (BnMulmod a b c d)
  then show ?thesis using pre by (auto simp: bn_op_defs intro!: then_mod_sim [OF L lib_mul [OF L]])
next
  case (BnSqrmod a b c)
  then show ?thesis using pre by (auto simp: bn_op_defs intro!: then_mod_sim [OF L lib_mul [OF L]])
next
  case (BnRshift a n r)
  then show ?thesis using pre rshift_sim [OF L] by (auto simp: bn_op_defs)
qed

lemma bn_simulation:
  assumes "mpi_contract True L"
  shows "simulation (bn_step L) bn_astep (\<lambda>h m. bn_abs h = m) bn_pre"
proof (unfold_locales, clarify)
  fix h e
  assume "bn_pre (bn_abs h) e"
  from bn_call_refines [OF assms this] obtain h' where
    "bn_call L h e = Some (0, h')" "bn_abs h' = fst (bn_astep (bn_abs h) e)" by blast
  then show "\<exists>h'. bn_step L h e = Some (h', snd (bn_astep (bn_abs h) e)) \<and> bn_abs h' = fst (bn_astep (bn_abs h) e)"
    by (simp add: bn_step_def bn_astep_def case_prod_beta)
qed


text \<open>
  Where the result of \<open>addmod\<close> is also its modulus, the sum has replaced the modulus when it is
  reduced, and the result is 0.
\<close>

lemma addmod_into_modulus:
  assumes "mpi_contract True L" "h a = Some x" "h b = Some y" "h c \<noteq> None" "0 < mpi_val x + mpi_val y"
  shows "\<exists>h'. crypto_bignum_addmod L h a b c c = Some (0, h') \<and> bn_abs h' = (bn_abs h)(c \<mapsto> 0)"
  using gives_total [OF lib_add [OF assms(1), of x y]] assms
    lib_call_sim [OF lib_mod [OF assms(1), of "snd (mpi_add_mpi L x y)" "snd (mpi_add_mpi L x y)"],
      of "h(c \<mapsto> snd (mpi_add_mpi L x y))" c]
  by (simp add: crypto_bignum_addmod_def lib_call_def then_mod_def)

section \<open>The Legendre symbol\<close>

lemma legendre_selection:
  assumes "mpi_wf t"
  shows "const_time_select_int (const_time_eq (word_of_int (crypto_bignum_is_zero t)) 1) 0
      (const_time_select_int (const_time_eq (word_of_int (crypto_bignum_is_one t)) 1) 1 (- 1))
    = (if mpi_val t = 0 then 0 else if \<bar>mpi_val t\<bar> = 1 then 1 else - 1)"
  using const_time_select_int_exact [of 1 "- 1" "\<bar>mpi_val t\<bar> = 1"]
    const_time_select_int_exact [of 0 "if \<bar>mpi_val t\<bar> = 1 then 1 else - 1" "mpi_val t = 0"]
  by (simp add: is_zero_correct is_one_correct assms const_time_eq_exact)

lemma legendre_cases:
  assumes "is_prime p" "odd p" "v = legendre a p mod p"
  shows "(if v = 0 then 0 else if v = 1 then 1 else - 1) = legendre a p"
proof -
  have "1 < p" using assms(1) by (simp add: is_prime_def)
  then have "2 < p" using assms(2) by presburger
  then show ?thesis using assms(3) by (auto simp: legendre_def zmod_minus1)
qed

text \<open>C10: crypto_bignum_legendre computes the Legendre symbol: for an odd prime \<open>p\<close> and any number
  \<open>a\<close> it returns 0 when \<open>p\<close> divides \<open>a\<close>, 1 when \<open>a\<close> is a square modulo \<open>p\<close> and -1 when it is
  none; and -2 exactly when a call of the library fails, which with memory enough none does.
\<close>

theorem legendre_correct:
  assumes "mpi_contract mem_ok L" and "is_prime (mpi_val p)" and "odd (mpi_val p)"
  shows "crypto_bignum_legendre L a p \<in> {legendre (mpi_val a) (mpi_val p), - 2}
     \<and> (mem_ok \<longrightarrow> crypto_bignum_legendre L a p = legendre (mpi_val a) (mpi_val p))"
proof -
  let ?e1 = "mpi_sub_int L p 1"
  let ?e = "mpi_shift_r L (snd ?e1) 1"
  let ?t = "mpi_exp_mod L False a (snd ?e) p"
  have p: "1 < mpi_val p" using assms(2) by (simp add: is_prime_def)
  have e: "mpi_val (snd ?e) = (mpi_val p - 1) div 2" if "fst ?e1 = 0" "fst ?e = 0"
    using that lib_sub_int [OF assms(1), of p 1] lib_shift [OF assms(1), of "snd ?e1" 1] p
    by (simp add: gives_def shr_int_def sgn_if)
  have ok: "crypto_bignum_legendre L a p = legendre (mpi_val a) (mpi_val p)"
    if rc: "fst ?e1 = 0" "fst ?e = 0" "fst ?t = 0"
  proof -
    have "mpi_val (snd ?t) = mpi_val a ^ nat (mpi_val (snd ?e)) mod mpi_val p" and wf: "mpi_wf (snd ?t)"
      using lib_exp [OF assms(1), of a "snd ?e" p] rc(3) unfolding gives_def by blast+
    then have t: "mpi_val (snd ?t) = legendre (mpi_val a) (mpi_val p) mod mpi_val p"
      by (simp only: e [OF rc(1,2)] euler_criterion [OF assms(2,3)])
    then have "\<bar>mpi_val (snd ?t)\<bar> = mpi_val (snd ?t)" using p by simp
    moreover have "crypto_bignum_legendre L a p =
        (if mpi_val (snd ?t) = 0 then 0 else if \<bar>mpi_val (snd ?t)\<bar> = 1 then 1 else - 1)"
      using rc by (simp only: crypto_bignum_legendre_def case_prod_beta Let_def legendre_selection [OF wf]) simp
    ultimately show ?thesis using legendre_cases [OF assms(2,3) t] by (simp only:)
  qed
  moreover have "crypto_bignum_legendre L a p = - 2" if "\<not> (fst ?e1 = 0 \<and> fst ?e = 0 \<and> fst ?t = 0)"
    using that by (auto simp: crypto_bignum_legendre_def case_prod_beta Let_def)
  moreover have "fst ?e1 = 0 \<and> fst ?e = 0 \<and> fst ?t = 0" if mem_ok
  proof -
    have rc: "fst ?e1 = 0" "fst ?e = 0"
      using that lib_sub_int [OF assms(1), of p 1] lib_shift [OF assms(1), of "snd ?e1" 1]
      by (simp_all add: gives_def)
    then show ?thesis using that e lib_exp [OF assms(1), of a "snd ?e" p] p assms(3) by (simp add: gives_def)
  qed
  ultimately show ?thesis by blast
qed

section \<open>Octet strings\<close>

text \<open>
  A number goes through its octet string: the string fills at least \<open>padlen\<close> bytes, leaves the rest
  of the buffer alone, and reading it back gives the magnitude. A number that does not fit is
  refused and nothing is written.
\<close>

lemma bignum_bin_roundtrip:
  assumes L: "mpi_contract True L" and fits: "\<bar>mpi_val a\<bar> < 256 ^ length buf" "padlen \<le> length buf"
  shows "\<exists>n out h'. crypto_bignum_to_bin L a buf padlen = (int n, out) \<and> padlen \<le> n
     \<and> length out = length buf \<and> drop n out = drop n buf
     \<and> crypto_bignum_init_set L (Some bn) (take n out) h = (Some bn, h')
     \<and> bn_abs h' = (bn_abs h)(bn \<mapsto> \<bar>mpi_val a\<bar>)"
proof -
  define n where "n = (if mpi_size L a < padlen then padlen else mpi_size L a)"
  have n: "mpi_size L a \<le> n" "padlen \<le> n" "n \<le> length buf"
    using fits lib_size [OF L, of a "length buf"] by (auto simp: n_def)
  then have small: "\<bar>mpi_val a\<bar> < 256 ^ n" using lib_size [OF L] by blast
  let ?out = "be_bytes n \<bar>mpi_val a\<bar> @ drop n buf"
  have "crypto_bignum_to_bin L a buf padlen = (int n, ?out)"
    using lib_write [OF L small] n(3) by (simp add: crypto_bignum_to_bin_def Let_def n_def [symmetric])
  moreover have "be_val (take n ?out) = \<bar>mpi_val a\<bar>" using small by (simp add: be_val_be_bytes)
  then have "\<exists>h'. crypto_bignum_init_set L (Some bn) (take n ?out) h = (Some bn, h')
      \<and> bn_abs h' = (bn_abs h)(bn \<mapsto> \<bar>mpi_val a\<bar>)"
    using gives_total [OF lib_read [OF L, of "take n ?out"]]
    by (auto simp: crypto_bignum_init_set_def case_prod_beta)
  moreover have "length ?out = length buf" "drop n ?out = drop n buf" using n(3) by simp_all
  ultimately show ?thesis using n(2) by blast
qed

lemma to_bin_too_small:
  assumes "mpi_contract mem_ok L" "256 ^ length buf \<le> \<bar>mpi_val a\<bar> \<or> length buf < padlen"
  shows "crypto_bignum_to_bin L a buf padlen = (- 1, buf)"
  using assms(2) lib_size [OF assms(1), of a "length buf"] by (auto simp: crypto_bignum_to_bin_def Let_def)

text \<open>An unsigned value from \<open>2 ^ 31\<close> on becomes a negative number.\<close>

lemma init_uint_negative:
  assumes "mpi_contract True L" "2 ^ 31 \<le> uint val"
  shows "\<exists>h'. crypto_bignum_init_uint L (Some bn) val h = (Some bn, h')
     \<and> bn_abs h' = (bn_abs h)(bn \<mapsto> uint val - 2 ^ 32)"
proof -
  have u: "2147483648 \<le> uint val" "uint val < 4294967296" using assms(2) uint_lt2p [of val] by simp_all
  then have "uint val div 2147483648 = 1" by (simp add: div_pos_geq div_pos_pos_trivial)
  then have "sint val = uint val - 2 ^ 32"
    using u by (simp add: sint_uint signed_take_bit_eq_take_bit_minus take_bit_eq_mod bit_iff_odd)
  then show ?thesis using gives_total [OF lib_lset [OF assms(1), of "sint val"]]
    by (auto simp: crypto_bignum_init_uint_def case_prod_beta)
qed

section \<open>A library that keeps the contract\<close>

function limbs_of :: "nat \<Rightarrow> u32 list" where
  "limbs_of v = (if v = 0 then [] else of_nat v # limbs_of (v div 2 ^ 32))"
  by pat_completeness auto
termination by (relation "measure id") auto

declare limbs_of.simps [simp del]

lemma limbs_val_of: "limbs_val (limbs_of v) = int v"
proof (induction v rule: limbs_of.induct)
  case (1 v)
  show ?case
  proof (cases "v = 0")
    case False
    have "int v mod 2 ^ 32 + 2 ^ 32 * (int v div 2 ^ 32) = int v" by (rule mod_mult_div_eq)
    then show ?thesis using False 1
      by (subst limbs_of.simps) (simp add: unsigned_of_nat take_bit_eq_mod zdiv_int zmod_int)
  qed (simp add: limbs_of.simps)
qed

definition mpi_of :: "int \<Rightarrow> mpi" where
  "mpi_of i = \<lparr>mpi_s = (if i < 0 then - 1 else 1), mpi_p = limbs_of (nat \<bar>i\<bar>)\<rparr>"

lemma mpi_val_of [simp]: "mpi_val (mpi_of i) = i"
  by (simp add: mpi_of_def mpi_val_def limbs_val_of)

lemma mpi_wf_of [simp]: "mpi_wf (mpi_of i)"
  by (simp add: mpi_of_def mpi_wf_def)

function byte_len :: "nat \<Rightarrow> nat" where
  "byte_len v = (if v = 0 then 0 else Suc (byte_len (v div 256)))"
  by pat_completeness auto
termination by (relation "measure id") auto

declare byte_len.simps [simp del]

lemma byte_len_le: "byte_len v \<le> n \<longleftrightarrow> v < 256 ^ n"
proof (induction v arbitrary: n rule: byte_len.induct)
  case (1 v)
  show ?case
  proof (cases "v = 0")
    case False
    have "byte_len v = Suc (byte_len (v div 256))" using False by (subst byte_len.simps) simp
    moreover have "v div 256 < 256 ^ k \<longleftrightarrow> v < 256 ^ Suc k" for k
      by (simp add: div_less_iff_less_mult mult.commute)
    ultimately show ?thesis using 1 False by (cases n) auto
  qed (simp add: byte_len.simps)
qed

definition demo_res :: "bool \<Rightarrow> int \<Rightarrow> int \<times> mpi" where
  "demo_res dm v = (if dm then (0, mpi_of v) else (- 4, mpi_of 0))"

lemma gives_demo: "gives True (demo_res dm v) dm v"
  by (simp add: gives_def demo_res_def)

definition demo_mpi :: mpi_lib where
  "demo_mpi = \<lparr>mpi_init = mpi_of 0,
     mpi_read_binary = (\<lambda>bs. demo_res True (be_val bs)),
     mpi_write_binary = (\<lambda>x n. if \<bar>mpi_val x\<bar> < 256 ^ n then (0, be_bytes n \<bar>mpi_val x\<bar>) else (- 8, [])),
     mpi_size = (\<lambda>x. byte_len (nat \<bar>mpi_val x\<bar>)),
     mpi_lset = demo_res True,
     mpi_random = (\<lambda>lo n. demo_res (lo < mpi_val n) lo),
     mpi_add_mpi = (\<lambda>x y. demo_res True (mpi_val x + mpi_val y)),
     mpi_sub_mpi = (\<lambda>x y. demo_res True (mpi_val x - mpi_val y)),
     mpi_mul_mpi = (\<lambda>x y. demo_res True (mpi_val x * mpi_val y)),
     mpi_mod_mpi = (\<lambda>x y. demo_res (0 < mpi_val y) (mpi_val x mod mpi_val y)),
     mpi_div_mpi = (\<lambda>x y. demo_res (mpi_val y \<noteq> 0) (quot_int (mpi_val x) (mpi_val y))),
     mpi_inv_mod = (\<lambda>x y. demo_res (1 < mpi_val y \<and> inv_mod_int (mpi_val x) (mpi_val y) \<noteq> None)
       (the (inv_mod_int (mpi_val x) (mpi_val y)))),
     mpi_exp_mod = (\<lambda>alias x e n. demo_res (0 < mpi_val n \<and> odd (mpi_val n) \<and> 0 \<le> mpi_val e)
       (if alias then 0 else mpi_val x ^ nat (mpi_val e) mod mpi_val n)),
     mpi_copy = (\<lambda>x. demo_res True (mpi_val x)),
     mpi_shift_r = (\<lambda>x k. demo_res True (shr_int (mpi_val x) k)),
     mpi_sub_int = (\<lambda>x i. demo_res True (mpi_val x - i)),
     mpi_sub_abs = (\<lambda>x y. demo_res (\<bar>mpi_val y\<bar> \<le> \<bar>mpi_val x\<bar>) (\<bar>mpi_val x\<bar> - \<bar>mpi_val y\<bar>)),
     mpi_cmp_mpi = (\<lambda>x y. sgn (mpi_val x - mpi_val y)),
     mpi_cmp_int = (\<lambda>x i. sgn (mpi_val x - i)),
     mpi_get_bit = (\<lambda>x k. of_bool (bit \<bar>mpi_val x\<bar> k)),
     mpi_bitlen = (\<lambda>x. 8 * byte_len (nat \<bar>mpi_val x\<bar>))\<rparr>"

lemma byte_len_abs: "byte_len (nat \<bar>v\<bar>) \<le> n \<longleftrightarrow> \<bar>v\<bar> < 256 ^ n"
  by (simp add: byte_len_le nat_less_iff)

lemma demo_mpi_contract: "mpi_contract True demo_mpi"
  unfolding mpi_contract_def by (simp add: demo_mpi_def gives_demo byte_len_abs)

lemma prime_7: "is_prime 7"
proof -
  have "d = 1 \<or> d = 7" if "0 < d" "d dvd 7" for d :: int
  proof -
    have "d \<le> 7" using that(2) by (rule zdvd_imp_le) simp
    then have "d \<in> {1, 2, 3, 4, 5, 6, 7}" using that(1) by auto
    then show ?thesis using that(2) by auto
  qed
  then show ?thesis by (simp add: is_prime_def)
qed

theorem legendre_correct_witness:
  "crypto_bignum_legendre demo_mpi (mpi_of 9) (mpi_of 7) = 1 \<and> legendre 9 7 = 1"
proof -
  have "is_square_mod 7 9" unfolding is_square_mod_def by (intro bexI [of _ 3]) auto
  then have "legendre 9 7 = 1" by (simp add: legendre_def)
  then show ?thesis using legendre_correct [OF demo_mpi_contract, of "mpi_of 7" "mpi_of 9"] prime_7 by simp
qed

text \<open>5 times 3 modulo 7 in place, a power whose result is its exponent, and an inverse in place.\<close>

definition demo_heap :: bn_heap where
  "demo_heap = [0 \<mapsto> mpi_of 5, 1 \<mapsto> mpi_of 7, 2 \<mapsto> mpi_of 3]"


end
