(* ===== verification/Crypto_Ec.thy ===== *)
theory Crypto_Ec
  imports Crypto_Bignum
begin

text \<open>
  The elliptic curve operations that the bridge hands to the supplicant
  (\<^verbatim>\<open>framework/mm_shims/crypto_mbedtls_mm.c\<close>, \<open>crypto_ec_*\<close> and \<open>crypto_ecdh_*\<close>): groups and their
  coefficients, points and their octet strings, the right-hand side of the curve equation, and the
  Diffie-Hellman exchange. As in the theory of big numbers, mbedTLS is a record of functions.
\<close>

section \<open>Groups\<close>

datatype mbedtls_ecp_group_id =
    MBEDTLS_ECP_DP_NONE
  | MBEDTLS_ECP_DP_SECP192R1
  | MBEDTLS_ECP_DP_SECP224R1
  | MBEDTLS_ECP_DP_SECP256R1
  | MBEDTLS_ECP_DP_SECP384R1
  | MBEDTLS_ECP_DP_SECP521R1
  | MBEDTLS_ECP_DP_BP256R1
  | MBEDTLS_ECP_DP_BP384R1
  | MBEDTLS_ECP_DP_BP512R1
  | MBEDTLS_ECP_DP_CURVE25519
  | MBEDTLS_ECP_DP_CURVE448

datatype mbedtls_ecp_curve_type =
  MBEDTLS_ECP_TYPE_NONE | MBEDTLS_ECP_TYPE_SHORT_WEIERSTRASS | MBEDTLS_ECP_TYPE_MONTGOMERY

record ecp_point =
  pt_X :: mpi
  pt_Y :: mpi
  pt_Z :: mpi

record ecp_group =
  grp_id :: mbedtls_ecp_group_id
  grp_P :: mpi
  grp_A :: mpi
  grp_B :: mpi
  grp_G :: ecp_point
  grp_N :: mpi
  grp_pbits :: nat

text \<open>\<open>enabled\<close> says which curves are compiled in (\<^verbatim>\<open>MBEDTLS_ECP_DP_..._ENABLED\<close>).\<close>

definition crypto_mbedtls_ecp_group_id_from_ike_id :: "(mbedtls_ecp_group_id \<Rightarrow> bool) \<Rightarrow> int \<Rightarrow> mbedtls_ecp_group_id" where
  "crypto_mbedtls_ecp_group_id_from_ike_id enabled ike_group =
     (let grp = (if ike_group = 19 then MBEDTLS_ECP_DP_SECP256R1
                 else if ike_group = 20 then MBEDTLS_ECP_DP_SECP384R1
                 else if ike_group = 21 then MBEDTLS_ECP_DP_SECP521R1
                 else if ike_group = 25 then MBEDTLS_ECP_DP_SECP192R1
                 else if ike_group = 26 then MBEDTLS_ECP_DP_SECP224R1
                 else if ike_group = 28 then MBEDTLS_ECP_DP_BP256R1
                 else if ike_group = 29 then MBEDTLS_ECP_DP_BP384R1
                 else if ike_group = 30 then MBEDTLS_ECP_DP_BP512R1
                 else if ike_group = 31 then MBEDTLS_ECP_DP_CURVE25519
                 else if ike_group = 32 then MBEDTLS_ECP_DP_CURVE448
                 else MBEDTLS_ECP_DP_NONE)
      in if enabled grp then grp else MBEDTLS_ECP_DP_NONE)"

definition CRYPTO_EC_plen :: "ecp_group \<Rightarrow> nat" where
  "CRYPTO_EC_plen e = (grp_pbits e + 7) div 8"

record ecp_lib =
  ecp_get_type :: "ecp_group \<Rightarrow> mbedtls_ecp_curve_type"
  ecp_group_load :: "mbedtls_ecp_group_id \<Rightarrow> int \<times> ecp_group"
  ecp_point_read_binary :: "ecp_group \<Rightarrow> u8 list \<Rightarrow> int \<times> ecp_point"
  ecp_point_write_binary :: "ecp_group \<Rightarrow> ecp_point \<Rightarrow> bool \<Rightarrow> nat \<Rightarrow> int \<times> u8 list"
  ecp_muladd :: "ecp_group \<Rightarrow> mpi \<Rightarrow> ecp_point \<Rightarrow> mpi \<Rightarrow> ecp_point \<Rightarrow> int \<times> ecp_point"
  ecp_mul :: "ecp_group \<Rightarrow> mpi \<Rightarrow> ecp_point \<Rightarrow> int \<times> ecp_point"
  ecp_is_zero :: "ecp_point \<Rightarrow> int"
  ecp_check_pubkey :: "ecp_group \<Rightarrow> ecp_point \<Rightarrow> int"
  ecp_point_cmp :: "ecp_point \<Rightarrow> ecp_point \<Rightarrow> int"

text \<open>Objects are counted in \<open>live\<close>; \<open>malloc_ok\<close> is whether the allocation succeeds.\<close>

definition crypto_ec_init ::
  "ecp_lib \<Rightarrow> (mbedtls_ecp_group_id \<Rightarrow> bool) \<Rightarrow> bool \<Rightarrow> int \<Rightarrow> nat \<Rightarrow> ecp_group option \<times> nat" where
  "crypto_ec_init E enabled malloc_ok ike_group live =
     (let grp_id = crypto_mbedtls_ecp_group_id_from_ike_id enabled ike_group
      in if grp_id = MBEDTLS_ECP_DP_NONE then (None, live)
         else if \<not> malloc_ok then (None, live)
         else let live = Suc live; (rc, e) = ecp_group_load E grp_id
              in if rc = 0 then (Some e, live) else (None, live - 1))"

definition crypto_ec_deinit :: "nat \<Rightarrow> nat" where
  "crypto_ec_deinit live = live - 1"

definition crypto_ec_prime_len :: "ecp_group \<Rightarrow> nat" where
  "crypto_ec_prime_len e = CRYPTO_EC_plen e"

definition crypto_ec_prime_len_bits :: "ecp_group \<Rightarrow> nat" where
  "crypto_ec_prime_len_bits e = grp_pbits e"

definition crypto_ec_order_len :: "mpi_lib \<Rightarrow> ecp_group \<Rightarrow> nat" where
  "crypto_ec_order_len L e = (mpi_bitlen L (grp_N e) + 7) div 8"

definition crypto_ec_get_prime :: "ecp_group \<Rightarrow> mpi" where
  "crypto_ec_get_prime e = grp_P e"

definition crypto_ec_get_order :: "ecp_group \<Rightarrow> mpi" where
  "crypto_ec_get_order e = grp_N e"

text \<open>
  The coefficient \<open>a\<close>: for the NIST curves, where the group does not hold it, a table is read into a
  number of the file (\<open>mpi_sw_A\<close>), whose contents are the state here.
\<close>

definition secp256r1_a :: "u8 list" where
  "secp256r1_a = [0xff, 0xff, 0xff, 0xff, 0x00, 0x00, 0x00, 0x01,
                  0x00, 0x00, 0x00, 0x00, 0x00, 0x00, 0x00, 0x00,
                  0x00, 0x00, 0x00, 0x00, 0xff, 0xff, 0xff, 0xff,
                  0xff, 0xff, 0xff, 0xff, 0xff, 0xff, 0xff, 0xfc]"

definition secp384r1_a :: "u8 list" where
  "secp384r1_a = [0xff, 0xff, 0xff, 0xff, 0xff, 0xff, 0xff, 0xff,
                  0xff, 0xff, 0xff, 0xff, 0xff, 0xff, 0xff, 0xff,
                  0xff, 0xff, 0xff, 0xff, 0xff, 0xff, 0xff, 0xff,
                  0xff, 0xff, 0xff, 0xff, 0xff, 0xff, 0xff, 0xfe,
                  0xff, 0xff, 0xff, 0xff, 0x00, 0x00, 0x00, 0x00,
                  0x00, 0x00, 0x00, 0x00, 0xff, 0xff, 0xff, 0xfc]"

definition secp521r1_a :: "u8 list" where
  "secp521r1_a =
     [0x01, 0xff, 0xff, 0xff, 0xff, 0xff, 0xff, 0xff, 0xff, 0xff, 0xff, 0xff, 0xff, 0xff,
      0xff, 0xff, 0xff, 0xff, 0xff, 0xff, 0xff, 0xff, 0xff, 0xff, 0xff, 0xff, 0xff, 0xff,
      0xff, 0xff, 0xff, 0xff, 0xff, 0xff, 0xff, 0xff, 0xff, 0xff, 0xff, 0xff, 0xff, 0xff,
      0xff, 0xff, 0xff, 0xff, 0xff, 0xff, 0xff, 0xff, 0xff, 0xff, 0xff, 0xff, 0xff, 0xff,
      0xff, 0xff, 0xff, 0xff, 0xff, 0xff, 0xff, 0xff, 0xff, 0xfc]"

datatype a_ref = A_NULL | A_OF_GROUP | A_STATIC

definition crypto_ec_get_a ::
  "mpi_lib \<Rightarrow> (mbedtls_ecp_group_id \<Rightarrow> bool) \<Rightarrow> ecp_group \<Rightarrow> mpi \<Rightarrow> a_ref \<times> mpi" where
  "crypto_ec_get_a L enabled e mpi_sw_A =
     (let read = (\<lambda>bin. let (rc, v) = mpi_read_binary L bin in (if rc = 0 then A_STATIC else A_NULL, v))
      in if \<not> enabled (grp_id e) then (A_NULL, mpi_sw_A)
         else case grp_id e of
           MBEDTLS_ECP_DP_SECP256R1 \<Rightarrow> read secp256r1_a
         | MBEDTLS_ECP_DP_SECP384R1 \<Rightarrow> read secp384r1_a
         | MBEDTLS_ECP_DP_SECP521R1 \<Rightarrow> read secp521r1_a
         | MBEDTLS_ECP_DP_BP256R1 \<Rightarrow> (A_OF_GROUP, mpi_sw_A)
         | MBEDTLS_ECP_DP_BP384R1 \<Rightarrow> (A_OF_GROUP, mpi_sw_A)
         | MBEDTLS_ECP_DP_BP512R1 \<Rightarrow> (A_OF_GROUP, mpi_sw_A)
         | MBEDTLS_ECP_DP_CURVE25519 \<Rightarrow> (A_OF_GROUP, mpi_sw_A)
         | MBEDTLS_ECP_DP_CURVE448 \<Rightarrow> (A_OF_GROUP, mpi_sw_A)
         | _ \<Rightarrow> (A_NULL, mpi_sw_A))"

text \<open>The number behind the reference that \<open>crypto_ec_get_a\<close> returned.\<close>

definition a_deref :: "ecp_group \<Rightarrow> a_ref \<times> mpi \<Rightarrow> mpi option" where
  "a_deref e r = (case fst r of A_NULL \<Rightarrow> None | A_OF_GROUP \<Rightarrow> Some (grp_A e) | A_STATIC \<Rightarrow> Some (snd r))"

definition crypto_ec_get_b :: "ecp_group \<Rightarrow> mpi" where
  "crypto_ec_get_b e = grp_B e"

definition crypto_ec_get_generator :: "ecp_group \<Rightarrow> ecp_point" where
  "crypto_ec_get_generator e = grp_G e"

section \<open>The curve equation\<close>

text \<open>\<open>lib_then\<close> is the \<^verbatim>\<open>||\<close> between two calls on the same number: the second runs if the first returned 0.\<close>

definition lib_then :: "int \<times> mpi \<Rightarrow> (mpi \<Rightarrow> int \<times> mpi) \<Rightarrow> int \<times> mpi" where
  "lib_then r f = (if fst r \<noteq> 0 then r else f (snd r))"

definition crypto_ec_point_y_sqr_weierstrass :: "mpi_lib \<Rightarrow> ecp_group \<Rightarrow> mpi \<Rightarrow> int \<times> mpi" where
  "crypto_ec_point_y_sqr_weierstrass L e x =
     (let r = mpi_mul_mpi L x x;
          r = lib_then r (\<lambda>y2. mpi_mod_mpi L y2 (grp_P e));
          r = lib_then r (\<lambda>y2. if mpi_p (grp_A e) \<noteq> [] then mpi_add_mpi L y2 (grp_A e) else mpi_sub_int L y2 3);
          r = lib_then r (\<lambda>y2. mpi_mod_mpi L y2 (grp_P e));
          r = lib_then r (\<lambda>y2. mpi_mul_mpi L y2 x);
          r = lib_then r (\<lambda>y2. mpi_mod_mpi L y2 (grp_P e));
          r = lib_then r (\<lambda>y2. mpi_add_mpi L y2 (grp_B e))
      in lib_then r (\<lambda>y2. mpi_mod_mpi L y2 (grp_P e)))"

definition crypto_ec_point_compute_y_sqr ::
  "mpi_lib \<Rightarrow> ecp_lib \<Rightarrow> nat option \<Rightarrow> ecp_group \<Rightarrow> mpi \<Rightarrow> bn_heap \<Rightarrow> nat option \<times> bn_heap" where
  "crypto_ec_point_compute_y_sqr L E alloc e x h =
     (case alloc of None \<Rightarrow> (None, h)
      | Some bn \<Rightarrow>
          let r = crypto_ec_point_y_sqr_weierstrass L e x
          in if ecp_get_type E e = MBEDTLS_ECP_TYPE_SHORT_WEIERSTRASS \<and> fst r = 0
             then (Some bn, h(bn \<mapsto> snd r)) else (None, h(bn := None)))"

lemma lib_then_gives:
  assumes "gives mem_ok r True v" "\<And>y. gives mem_ok (f y) True (g (mpi_val y))"
  shows "gives mem_ok (lib_then r f) True (g v)"
  using assms by (auto simp: gives_def lib_then_def)

definition curve_a :: "ecp_group \<Rightarrow> int" where
  "curve_a e = (if mpi_p (grp_A e) \<noteq> [] then mpi_val (grp_A e) else - 3)"

lemma y_sqr_weierstrass_gives:
  assumes L: "mpi_contract mem_ok L" and p: "0 < mpi_val (grp_P e)"
  shows "gives mem_ok (crypto_ec_point_y_sqr_weierstrass L e x) True
     ((mpi_val x ^ 3 + curve_a e * mpi_val x + mpi_val (grp_B e)) mod mpi_val (grp_P e))"
proof -
  let ?P = "mpi_val (grp_P e)" and ?x = "mpi_val x" and ?b = "mpi_val (grp_B e)"
  have md: "gives mem_ok (mpi_mod_mpi L y (grp_P e)) True (mpi_val y mod ?P)" for y
    using lib_mod [OF L, of y "grp_P e"] p by (simp add: gives_def)
  have a: "gives mem_ok (if mpi_p (grp_A e) \<noteq> [] then mpi_add_mpi L y (grp_A e) else mpi_sub_int L y 3)
      True (mpi_val y + curve_a e)" for y
    using lib_add [OF L, of y "grp_A e"] lib_sub_int [OF L, of y 3] by (simp add: curve_a_def)
  have "((((?x * ?x) mod ?P + curve_a e) mod ?P * ?x) mod ?P + ?b) mod ?P
      = (((?x * ?x + curve_a e) * ?x) + ?b) mod ?P" by (simp add: mod_simps)
  also have "\<dots> = (?x ^ 3 + curve_a e * ?x + ?b) mod ?P" by (simp add: algebra_simps power3_eq_cube)
  finally have eq: "((((?x * ?x) mod ?P + curve_a e) mod ?P * ?x) mod ?P + ?b) mod ?P
      = (?x ^ 3 + curve_a e * ?x + ?b) mod ?P" .
  note reduce = lib_then_gives [where g = "\<lambda>v. v mod ?P", OF _ md]
  note plus_a = lib_then_gives [where g = "\<lambda>v. v + curve_a e", OF _ a]
  note times_x = lib_then_gives [where g = "\<lambda>v. v * ?x", OF _ lib_mul [OF L]]
  note plus_b = lib_then_gives [where g = "\<lambda>v. v + ?b", OF _ lib_add [OF L]]
  show ?thesis unfolding eq [symmetric] crypto_ec_point_y_sqr_weierstrass_def Let_def
    by (rule reduce plus_b times_x plus_a lib_mul [OF L])+
qed

text \<open>The primes of the NIST curves, and the tables of the coefficient: each is its prime less 3.\<close>

fun nist_prime :: "mbedtls_ecp_group_id \<Rightarrow> int option" where
  "nist_prime MBEDTLS_ECP_DP_SECP256R1 = Some (2 ^ 256 - 2 ^ 224 + 2 ^ 192 + 2 ^ 96 - 1)"
| "nist_prime MBEDTLS_ECP_DP_SECP384R1 = Some (2 ^ 384 - 2 ^ 128 - 2 ^ 96 + 2 ^ 32 - 1)"
| "nist_prime MBEDTLS_ECP_DP_SECP521R1 = Some (2 ^ 521 - 1)"
| "nist_prime _ = None"

lemma a_tables:
  "nist_prime MBEDTLS_ECP_DP_SECP256R1 = Some (be_val secp256r1_a + 3)"
  "nist_prime MBEDTLS_ECP_DP_SECP384R1 = Some (be_val secp384r1_a + 3)"
  "nist_prime MBEDTLS_ECP_DP_SECP521R1 = Some (be_val secp521r1_a + 3)"
  by (simp_all add: be_val_def secp256r1_a_def secp384r1_a_def secp521r1_a_def)

lemma nist_cases:
  assumes "nist_prime g = Some q"
  obtains "g = MBEDTLS_ECP_DP_SECP256R1" "q = be_val secp256r1_a + 3"
  | "g = MBEDTLS_ECP_DP_SECP384R1" "q = be_val secp384r1_a + 3"
  | "g = MBEDTLS_ECP_DP_SECP521R1" "q = be_val secp521r1_a + 3"
proof -
  consider "g = MBEDTLS_ECP_DP_SECP256R1" | "g = MBEDTLS_ECP_DP_SECP384R1" | "g = MBEDTLS_ECP_DP_SECP521R1"
    using assms by (cases g) simp_all
  then show thesis using that assms a_tables by cases (simp_all del: nist_prime.simps)
qed

lemma nist_prime_pos: "nist_prime g = Some q \<Longrightarrow> 0 < q"
  by (cases g) auto

lemma get_a_table:
  assumes "nist_prime (grp_id e) = Some q" "enabled (grp_id e)"
  shows "\<exists>bin. crypto_ec_get_a L enabled e s = (if fst (mpi_read_binary L bin) = 0 then A_STATIC else A_NULL,
      snd (mpi_read_binary L bin)) \<and> be_val bin = q - 3"
  using assms(1)
proof (cases rule: nist_cases)
  case 1
  then show ?thesis using assms(2)
    by (intro exI [of _ secp256r1_a]) (simp add: crypto_ec_get_a_def Let_def case_prod_beta)
next
  case 2
  then show ?thesis using assms(2)
    by (intro exI [of _ secp384r1_a]) (simp add: crypto_ec_get_a_def Let_def case_prod_beta)
next
  case 3
  then show ?thesis using assms(2)
    by (intro exI [of _ secp521r1_a]) (simp add: crypto_ec_get_a_def Let_def case_prod_beta)
qed

lemma get_a_nist:
  assumes "mpi_contract True L" "nist_prime (grp_id e) = Some q" "enabled (grp_id e)"
  shows "\<exists>x. crypto_ec_get_a L enabled e s = (A_STATIC, x) \<and> mpi_val x = q - 3"
proof -
  obtain bin where "crypto_ec_get_a L enabled e s = (if fst (mpi_read_binary L bin) = 0 then A_STATIC else A_NULL,
      snd (mpi_read_binary L bin))" "be_val bin = q - 3"
    using get_a_table [of e q enabled L s] assms(2,3) by blast
  then show ?thesis using gives_total [OF lib_read [OF assms(1), of bin]] by simp
qed

text \<open>C20: The right-hand side of the curve equation is computed correctly, and with the coefficient
  that crypto_ec_get_a reports: for a NIST group as the library loads it, without \<open>A\<close>,
  compute_y_sqr returns a new number with the value \<open>x\<^sup>3 + a x + b\<close> modulo the prime, where \<open>a\<close>
  is the number that crypto_ec_get_a returns for the group.
\<close>

theorem nist_curve_equation:
  assumes "mpi_contract True L" and "nist_prime (grp_id e) = Some (mpi_val (grp_P e))"
    and "mpi_p (grp_A e) = []" and "enabled (grp_id e)"
    and "ecp_get_type E e = MBEDTLS_ECP_TYPE_SHORT_WEIERSTRASS"
  shows "\<exists>a h'. a_deref e (crypto_ec_get_a L enabled e s) = Some a
     \<and> crypto_ec_point_compute_y_sqr L E (Some bn) e x h = (Some bn, h')
     \<and> bn_abs h' = (bn_abs h)(bn \<mapsto>
          (mpi_val x ^ 3 + mpi_val a * mpi_val x + mpi_val (crypto_ec_get_b e)) mod mpi_val (crypto_ec_get_prime e))"
proof -
  let ?P = "mpi_val (grp_P e)"
  obtain a where a: "a_deref e (crypto_ec_get_a L enabled e s) = Some a" "mpi_val a = ?P - 3"
    using get_a_nist [of L e ?P enabled s] assms(1,2,4) by (auto simp: a_deref_def)
  have p: "0 < ?P" using nist_prime_pos [OF assms(2)] .
  have "mpi_val a * mpi_val x mod ?P = - 3 * mpi_val x mod ?P"
    unfolding a(2) by (simp add: left_diff_distrib mod_simps mod_diff_left_eq [symmetric] del: mod_diff_left_eq)
  then have "(mpi_val x ^ 3 + mpi_val a * mpi_val x + mpi_val (grp_B e)) mod ?P
      = (mpi_val x ^ 3 + - 3 * mpi_val x + mpi_val (grp_B e)) mod ?P" by (metis mod_add_cong)
  then show ?thesis
    using gives_total [OF y_sqr_weierstrass_gives [OF assms(1) p, of x]] assms(3,5) a(1)
    by (simp add: crypto_ec_point_compute_y_sqr_def curve_a_def Let_def crypto_ec_get_b_def crypto_ec_get_prime_def)
qed

text \<open>
  The coefficients of all NIST groups live in the same number: asking for the coefficient of a
  second group changes the number returned for the first.
\<close>

lemma get_a_shared:
  assumes "mpi_contract True L" "enabled (grp_id e)" "nist_prime (grp_id e) = Some q"
    and "enabled (grp_id e2)" "nist_prime (grp_id e2) = Some q2"
  shows "\<exists>x. a_deref e (fst (crypto_ec_get_a L enabled e s),
      snd (crypto_ec_get_a L enabled e2 (snd (crypto_ec_get_a L enabled e s)))) = Some x \<and> mpi_val x = q2 - 3"
  using get_a_nist [of L e q enabled s] get_a_nist [of L e2 q2 enabled "snd (crypto_ec_get_a L enabled e s)"] assms
  by (auto simp: a_deref_def)

section \<open>Points\<close>

definition crypto_ec_point_init :: "ecp_point \<Rightarrow> bool \<Rightarrow> nat \<Rightarrow> ecp_point option \<times> nat" where
  "crypto_ec_point_init fresh malloc_ok live = (if malloc_ok then (Some fresh, Suc live) else (None, live))"

definition crypto_ec_point_deinit :: "nat \<Rightarrow> nat" where
  "crypto_ec_point_deinit live = live - 1"

definition crypto_ec_point_x :: "mpi_lib \<Rightarrow> ecp_point \<Rightarrow> bn_heap \<Rightarrow> nat \<Rightarrow> (int \<times> bn_heap) option" where
  "crypto_ec_point_x L p h x = lib_call h x (mpi_copy L (pt_X p))"

text \<open>
  The coordinates as octet strings: \<open>x\<close> and \<open>y\<close> say which pointers are not null; what is written to
  each is returned beside the code.
\<close>

definition crypto_ec_point_to_bin :: "mpi_lib \<Rightarrow> ecp_group \<Rightarrow> ecp_point \<Rightarrow> bool \<Rightarrow> bool
    \<Rightarrow> int \<times> u8 list option \<times> u8 list option" where
  "crypto_ec_point_to_bin L e point x y =
     (let len = CRYPTO_EC_plen e;
          (rcx, xs) = (if x then mpi_write_binary L (pt_X point) len else (0, []));
          xo = (if x then Some xs else None)
      in if rcx \<noteq> 0 then (- 1, xo, None)
         else let (rcy, ys) = (if y then mpi_write_binary L (pt_Y point) len else (0, []));
                  yo = (if y then Some ys else None)
              in (if rcy \<noteq> 0 then - 1 else 0, xo, yo))"

text \<open>
  \<open>buf_size\<close> is the size of the array \<open>buf\<close>, \<^verbatim>\<open>1 + MBEDTLS_MPI_MAX_SIZE * 2\<close>; a copy past it and a
  read past the end of \<open>val\<close> are \<open>None\<close>.
\<close>

definition crypto_ec_point_from_bin :: "ecp_lib \<Rightarrow> nat \<Rightarrow> bool \<Rightarrow> ecp_group \<Rightarrow> u8 list \<Rightarrow> nat
    \<Rightarrow> (ecp_point option \<times> nat) option" where
  "crypto_ec_point_from_bin E buf_size malloc_ok e val live =
     (let len = CRYPTO_EC_plen e
      in if \<not> malloc_ok then Some (None, live)
         else let live = Suc live
              in case ecp_get_type E e of
                   MBEDTLS_ECP_TYPE_SHORT_WEIERSTRASS \<Rightarrow>
                     if length val < len * 2 \<or> buf_size < 1 + len * 2 then None
                     else let (rc, p) = ecp_point_read_binary E e (0x04 # take (len * 2) val)
                          in Some (if rc = 0 then (Some p, live) else (None, live - 1))
                 | MBEDTLS_ECP_TYPE_MONTGOMERY \<Rightarrow>
                     if length val < len \<or> buf_size < len then None
                     else let (rc, p) = ecp_point_read_binary E e (map (\<lambda>i. val ! (len - 1 - i)) [0..<len])
                          in Some (if rc = 0 then (Some p, live) else (None, live - 1))
                 | MBEDTLS_ECP_TYPE_NONE \<Rightarrow> Some (None, live - 1))"

definition crypto_ec_point_add :: "mpi_lib \<Rightarrow> ecp_lib \<Rightarrow> ecp_group \<Rightarrow> ecp_point \<Rightarrow> ecp_point \<Rightarrow> int \<times> ecp_point option" where
  "crypto_ec_point_add L E e a b =
     (let (rc, one) = mpi_lset L 1
      in if rc \<noteq> 0 then (- 1, None)
         else let (rc, c) = ecp_muladd E e one a one b in (if rc \<noteq> 0 then - 1 else 0, Some c))"

definition crypto_ec_point_mul :: "ecp_lib \<Rightarrow> ecp_group \<Rightarrow> ecp_point \<Rightarrow> mpi \<Rightarrow> int \<times> ecp_point" where
  "crypto_ec_point_mul E e p b = (let (rc, res) = ecp_mul E e b p in (if rc \<noteq> 0 then - 1 else 0, res))"

definition crypto_ec_point_invert :: "mpi_lib \<Rightarrow> ecp_lib \<Rightarrow> ecp_group \<Rightarrow> ecp_point \<Rightarrow> int \<times> ecp_point" where
  "crypto_ec_point_invert L E e p =
     (if ecp_get_type E e = MBEDTLS_ECP_TYPE_MONTGOMERY then (- 1, p)
      else if ecp_is_zero E p \<noteq> 0 then (0, p)
      else if mpi_cmp_int L (pt_Y p) 0 = 0 then (0, p)
      else let (rc, y) = mpi_sub_abs L (grp_P e) (pt_Y p)
           in (if rc = 0 then 0 else - 1, p\<lparr>pt_Y := y\<rparr>))"

definition crypto_ec_point_is_at_infinity :: "ecp_lib \<Rightarrow> ecp_point \<Rightarrow> int" where
  "crypto_ec_point_is_at_infinity E p = ecp_is_zero E p"

definition crypto_ec_point_is_on_curve :: "ecp_lib \<Rightarrow> ecp_group \<Rightarrow> ecp_point \<Rightarrow> int" where
  "crypto_ec_point_is_on_curve E e p = (if ecp_check_pubkey E e p = 0 then 1 else 0)"

definition crypto_ec_point_cmp :: "ecp_lib \<Rightarrow> ecp_point \<Rightarrow> ecp_point \<Rightarrow> int" where
  "crypto_ec_point_cmp E a b = ecp_point_cmp E a b"

text \<open>
  The documented behaviour of the reader of points: on a short Weierstrass curve it takes the
  uncompressed form, the tag 4 and both coordinates at the length of the prime.
\<close>

definition ecp_contract :: "ecp_lib \<Rightarrow> bool" where
  "ecp_contract E \<longleftrightarrow>
     (\<forall>e xs ys. ecp_get_type E e = MBEDTLS_ECP_TYPE_SHORT_WEIERSTRASS \<longrightarrow>
        length xs = CRYPTO_EC_plen e \<longrightarrow> length ys = CRYPTO_EC_plen e \<longrightarrow>
        (\<exists>p. ecp_point_read_binary E e (0x04 # xs @ ys) = (0, p)
           \<and> mpi_val (pt_X p) = be_val xs \<and> mpi_val (pt_Y p) = be_val ys \<and> mpi_val (pt_Z p) = 1))"

text \<open>
  A point survives its octet strings: written with crypto_ec_point_to_bin and read back
  with crypto_ec_point_from_bin, both coordinates are the same, one object is allocated and the
  buffers are not exceeded.
\<close>

theorem point_bin_roundtrip:
  assumes "mpi_contract mem_ok L" and "ecp_contract E"
    and "ecp_get_type E e = MBEDTLS_ECP_TYPE_SHORT_WEIERSTRASS"
    and "0 \<le> mpi_val (pt_X p)" "mpi_val (pt_X p) < 256 ^ CRYPTO_EC_plen e"
    and "0 \<le> mpi_val (pt_Y p)" "mpi_val (pt_Y p) < 256 ^ CRYPTO_EC_plen e"
    and "1 + 2 * CRYPTO_EC_plen e \<le> buf_size"
  shows "\<exists>xs ys q. crypto_ec_point_to_bin L e p True True = (0, Some xs, Some ys)
     \<and> length xs = CRYPTO_EC_plen e \<and> length ys = CRYPTO_EC_plen e
     \<and> crypto_ec_point_from_bin E buf_size True e (xs @ ys) live = Some (Some q, Suc live)
     \<and> mpi_val (pt_X q) = mpi_val (pt_X p) \<and> mpi_val (pt_Y q) = mpi_val (pt_Y p)"
proof -
  let ?n = "CRYPTO_EC_plen e"
  let ?xs = "be_bytes ?n (mpi_val (pt_X p))" and ?ys = "be_bytes ?n (mpi_val (pt_Y p))"
  have w: "mpi_write_binary L (pt_X p) ?n = (0, ?xs)" "mpi_write_binary L (pt_Y p) ?n = (0, ?ys)"
    using lib_write [OF assms(1), of "pt_X p" ?n] lib_write [OF assms(1), of "pt_Y p" ?n] assms(4-7)
    by simp_all
  obtain q where q: "ecp_point_read_binary E e (0x04 # ?xs @ ?ys) = (0, q)"
      "mpi_val (pt_X q) = be_val ?xs" "mpi_val (pt_Y q) = be_val ?ys"
    using assms(2,3) unfolding ecp_contract_def by (metis length_be_bytes)
  have "crypto_ec_point_from_bin E buf_size True e (?xs @ ?ys) live = Some (Some q, Suc live)"
    using assms(3,8) q(1) by (simp add: crypto_ec_point_from_bin_def Let_def)
  moreover have "crypto_ec_point_to_bin L e p True True = (0, Some ?xs, Some ?ys)"
    using w by (simp add: crypto_ec_point_to_bin_def Let_def)
  ultimately show ?thesis using q(2,3) assms(4-7) by (auto simp: be_val_be_bytes)
qed

text \<open>
  The inverse of a point: the coordinates sum to a multiple of the prime and their squares agree, so
  that the inverse is on the curve when the point is; the point at infinity and a point with
  \<open>y = 0\<close> are their own inverses.
\<close>

lemma point_invert_correct:
  assumes "mpi_contract mem_ok L" "0 < mpi_val (grp_P e)"
    and "0 \<le> mpi_val (pt_Y p)" "mpi_val (pt_Y p) < mpi_val (grp_P e)" "ecp_is_zero E p = 0"
    and r: "crypto_ec_point_invert L E e p = (0, q)"
  shows "pt_X q = pt_X p \<and> mpi_val (pt_Y q) = - mpi_val (pt_Y p) mod mpi_val (grp_P e)
     \<and> mpi_val (pt_Y q) ^ 2 mod mpi_val (grp_P e) = mpi_val (pt_Y p) ^ 2 mod mpi_val (grp_P e)"
proof -
  let ?P = "mpi_val (grp_P e)" and ?y = "mpi_val (pt_Y p)"
  have "pt_X q = pt_X p \<and> mpi_val (pt_Y q) = - ?y mod ?P"
  proof (cases "?y = 0")
    case True
    then show ?thesis using r assms(5) lib_cmp_int [OF assms(1), of "pt_Y p" 0]
      by (auto simp: crypto_ec_point_invert_def split: if_splits)
  next
    case False
    then have "- ?y mod ?P = ?P - ?y" using assms(3,4) by (simp add: zmod_zminus1_eq_if)
    then show ?thesis
      using False r assms(2-5) lib_cmp_int [OF assms(1), of "pt_Y p" 0] lib_sub_abs [OF assms(1), of "grp_P e" "pt_Y p"]
      by (auto simp: crypto_ec_point_invert_def gives_def sgn_0_0 split: if_splits prod.splits)
  qed
  moreover have "(- ?y mod ?P) ^ 2 mod ?P = ?y ^ 2 mod ?P" by (simp add: power_mod)
  ultimately show ?thesis by simp
qed

section \<open>Diffie-Hellman\<close>

text \<open>
  Key pairs (\<open>'k\<close>) and exchange contexts (\<open>'c\<close>) of the library, and the \<^verbatim>\<open>struct crypto_ecdh\<close>. The
  random generator is inside the library functions that draw from it.
\<close>

record ('k, 'c) ecdh_lib =
  pk_info_ok :: bool
  pk_setup :: "int \<times> 'k"
  ecp_gen_key :: "mbedtls_ecp_group_id \<Rightarrow> 'k \<Rightarrow> int \<times> 'k"
  ecdh_setup :: "mbedtls_ecp_group_id \<Rightarrow> int \<times> 'c"
  ecdh_get_params :: "'c \<Rightarrow> 'k \<Rightarrow> int \<times> 'c"
  ecp_export :: "'k \<Rightarrow> int \<times> ecp_group \<times> ecp_point"
  ecdh_read_public :: "'c \<Rightarrow> u8 list \<Rightarrow> int \<times> 'c"
  ecdh_calc_secret :: "'c \<Rightarrow> nat \<Rightarrow> int \<times> u8 list"

record 'c crypto_ecdh =
  ecdh_ctx :: 'c
  ecdh_grp :: ecp_group
  ecdh_Q :: ecp_point

definition crypto_mbedtls_keypair_gen ::
  "('k, 'c) ecdh_lib \<Rightarrow> (mbedtls_ecp_group_id \<Rightarrow> bool) \<Rightarrow> int \<Rightarrow> int \<times> 'k option" where
  "crypto_mbedtls_keypair_gen D enabled ike_group =
     (let grp_id = crypto_mbedtls_ecp_group_id_from_ike_id enabled ike_group
      in if grp_id = MBEDTLS_ECP_DP_NONE then (- 1, None)
         else if \<not> pk_info_ok D then (- 1, None)
         else let (rc, pk) = pk_setup D
              in if rc \<noteq> 0 then (- 1, None)
                 else let (rc, pk) = ecp_gen_key D grp_id pk
                      in (if rc \<noteq> 0 then - 1 else 0, Some pk))"

definition crypto_ecdh_init2 ::
  "('k, 'c) ecdh_lib \<Rightarrow> (mbedtls_ecp_group_id \<Rightarrow> bool) \<Rightarrow> bool \<Rightarrow> int \<Rightarrow> 'k \<Rightarrow> nat \<Rightarrow> 'c crypto_ecdh option \<times> nat" where
  "crypto_ecdh_init2 D enabled malloc_ok ike_group own_key live =
     (let grp_id = crypto_mbedtls_ecp_group_id_from_ike_id enabled ike_group
      in if grp_id = MBEDTLS_ECP_DP_NONE then (None, live)
         else if \<not> malloc_ok then (None, live)
         else let live = Suc live;
                  (rc1, ctx) = ecdh_setup D grp_id;
                  (rc2, ctx) = ecdh_get_params D ctx own_key;
                  (rc3, grp, Q) = ecp_export D own_key
              in if rc1 = 0 \<and> rc2 = 0 \<and> rc3 = 0
                 then (Some \<lparr>ecdh_ctx = ctx, ecdh_grp = grp, ecdh_Q = Q\<rparr>, live)
                 else (None, live - 1))"

definition crypto_ecdh_init ::
  "('k, 'c) ecdh_lib \<Rightarrow> (mbedtls_ecp_group_id \<Rightarrow> bool) \<Rightarrow> bool \<Rightarrow> int \<Rightarrow> nat \<Rightarrow> 'c crypto_ecdh option \<times> nat" where
  "crypto_ecdh_init D enabled malloc_ok ike_group live =
     (case crypto_mbedtls_keypair_gen D enabled ike_group of
        (rc, Some pk) \<Rightarrow> (if rc = 0 then crypto_ecdh_init2 D enabled malloc_ok ike_group pk live else (None, live))
      | (rc, None) \<Rightarrow> (None, live))"

text \<open>The public key without its tag; the library writes into an array of 256 bytes.\<close>

definition crypto_ecdh_get_pubkey :: "ecp_lib \<Rightarrow> 'c crypto_ecdh \<Rightarrow> bool \<Rightarrow> u8 list option" where
  "crypto_ecdh_get_pubkey E ecdh inc_y =
     (let grp = ecdh_grp ecdh;
          (rc, buf) = ecp_point_write_binary E grp (ecdh_Q ecdh) inc_y 256
      in if rc = 0
         then if ecp_get_type E grp = MBEDTLS_ECP_TYPE_SHORT_WEIERSTRASS then Some (drop 1 buf) else Some buf
         else None)"

text \<open>
  The key of the peer. \<open>buf\<close> is the array of 256 bytes with whatever it held before; \<open>wpabuf_ok\<close> is
  whether the buffer for the secret can be allocated. The result is the secret, and the context.
\<close>

definition peerkey_buf :: "u8 list \<Rightarrow> bool \<Rightarrow> u8 list \<Rightarrow> u8 list option" where
  "peerkey_buf buf inc_y key = do {
     buf \<leftarrow> store buf 0 (of_nat (1 + length key));
     buf \<leftarrow> store buf 1 0x04;
     buf \<leftarrow> blit buf 2 key;
     if inc_y then Some buf else store buf 1 0x02 }"

definition crypto_ecdh_set_peerkey :: "('k, 'c) ecdh_lib \<Rightarrow> ecp_lib \<Rightarrow> 'c crypto_ecdh \<Rightarrow> bool \<Rightarrow> u8 list \<Rightarrow> u8 list \<Rightarrow> bool
    \<Rightarrow> (u8 list option \<times> 'c crypto_ecdh) option" where
  "crypto_ecdh_set_peerkey D E ecdh inc_y key stack wpabuf_ok =
     (let len = length key; grp = ecdh_grp ecdh;
          secret = (\<lambda>ecdh len. if \<not> wpabuf_ok then Some (None, ecdh)
            else let (rc, s) = ecdh_calc_secret D (ecdh_ctx ecdh) len
                 in Some (if rc = 0 then Some s else None, ecdh))
      in if len = 0 then Some (None, ecdh)
         else if ecp_get_type E grp = MBEDTLS_ECP_TYPE_SHORT_WEIERSTRASS
         then if 256 - 2 < len then Some (None, ecdh)
              else do {
                buf \<leftarrow> peerkey_buf stack inc_y key;
                let (rc, ctx) = ecdh_read_public D (ecdh_ctx ecdh) (take (unat (buf ! 0) + 1) buf)
                in if rc \<noteq> 0 then Some (None, ecdh\<lparr>ecdh_ctx := ctx\<rparr>)
                   else secret (ecdh\<lparr>ecdh_ctx := ctx\<rparr>) (if inc_y then len div 2 else len) }
         else if ecp_get_type E grp = MBEDTLS_ECP_TYPE_MONTGOMERY
         then let (rc, ctx) = ecdh_read_public D (ecdh_ctx ecdh) key
              in if rc \<noteq> 0 then Some (None, ecdh\<lparr>ecdh_ctx := ctx\<rparr>)
                 else secret (ecdh\<lparr>ecdh_ctx := ctx\<rparr>) len
         else secret ecdh len)"

definition crypto_ecdh_deinit :: "bool \<Rightarrow> nat \<Rightarrow> nat" where
  "crypto_ecdh_deinit is_null live = (if is_null then live else live - 1)"

definition crypto_ecdh_prime_len :: "'c crypto_ecdh \<Rightarrow> nat" where
  "crypto_ecdh_prime_len ecdh = CRYPTO_EC_plen (ecdh_grp ecdh)"

text \<open>A context is allocated exactly when it is returned.\<close>

lemma ecdh_init_balanced:
  "snd (crypto_ecdh_init D enabled ok g live) =
     (if fst (crypto_ecdh_init D enabled ok g live) = None then live else Suc live)"
  by (auto simp: crypto_ecdh_init_def crypto_ecdh_init2_def Let_def split: prod.splits option.splits)

lemma ec_init_balanced:
  "snd (crypto_ec_init E enabled ok g live) =
     (if fst (crypto_ec_init E enabled ok g live) = None then live else Suc live)"
  by (auto simp: crypto_ec_init_def Let_def split: prod.splits)

text \<open>
  The array of 256 bytes holds the header and the key for every key that passes the length check,
  and what the library reads is exactly the length, the tag and the key: nothing of the earlier
  contents of the array.
\<close>

lemma peerkey_buf_exact:
  assumes "length stack = 256" "length key \<le> 254"
  shows "\<exists>buf. peerkey_buf stack inc_y key = Some buf \<and> length buf = 256
     \<and> take (unat (buf ! 0) + 1) buf = of_nat (1 + length key) # (if inc_y then 0x04 else 0x02) # key"
proof -
  obtain a b rest where st: "stack = a # b # rest" "length rest = 254"
    using assms(1) two_elems [of stack] by auto
  have "unat (of_nat (Suc (length key)) :: u8) = Suc (length key)"
    using assms(2) take_bit_nat_eq_self [of "Suc (length key)" 8] unfolding unsigned_of_nat by simp
  then have "unat (1 + of_nat (length key) :: u8) = Suc (length key)" by simp
  then show ?thesis using assms(2) st by (simp add: peerkey_buf_def store_def blit_def numeral_2_eq_2)
qed

text \<open>
  The public key that one side publishes is what the other side's library reads: with the
  uncompressed form that the first side's library writes, \<open>4 || x || y\<close>, get_pubkey returns
  \<open>x || y\<close>, and set_peerkey hands the library the length, the tag 4 and \<open>x || y\<close> again, within its
  array; when the library accepts it, the secret it computes for the length of the prime is
  returned.
\<close>

theorem ecdh_pubkey_reaches_peer:
  assumes "ecp_get_type E (ecdh_grp own) = MBEDTLS_ECP_TYPE_SHORT_WEIERSTRASS"
    and "ecp_get_type E (ecdh_grp peer) = MBEDTLS_ECP_TYPE_SHORT_WEIERSTRASS"
    and "ecp_point_write_binary E (ecdh_grp own) (ecdh_Q own) True 256 = (0, 0x04 # xy)"
    and "0 < crypto_ecdh_prime_len peer" "length xy = 2 * crypto_ecdh_prime_len peer" "length xy \<le> 254"
    and "length stack = 256"
    and "ecdh_read_public D (ecdh_ctx peer) (of_nat (1 + length xy) # 0x04 # xy) = (0, ctx)"
    and "ecdh_calc_secret D ctx (crypto_ecdh_prime_len peer) = (0, s)"
  shows "\<exists>key. crypto_ecdh_get_pubkey E own True = Some key
     \<and> crypto_ecdh_set_peerkey D E peer True key stack True = Some (Some s, peer\<lparr>ecdh_ctx := ctx\<rparr>)"
proof -
  obtain buf where "peerkey_buf stack True xy = Some buf"
      "take (unat (buf ! 0) + 1) buf = of_nat (1 + length xy) # 0x04 # xy"
    using peerkey_buf_exact [OF assms(7,6), of True] by auto
  moreover have "crypto_ecdh_get_pubkey E own True = Some xy"
    using assms(1,3) by (simp add: crypto_ecdh_get_pubkey_def Let_def)
  moreover have "xy \<noteq> []" using assms(4,5) by auto
  ultimately show ?thesis using assms(2,5,6,8,9) by (simp add: crypto_ecdh_set_peerkey_def Let_def)
qed

text \<open>An empty key and a key longer than the array are refused before anything is read.\<close>

lemma peerkey_refused:
  assumes "key = [] \<or> ecp_get_type E (ecdh_grp ecdh) = MBEDTLS_ECP_TYPE_SHORT_WEIERSTRASS \<and> 254 < length key"
  shows "crypto_ecdh_set_peerkey D E ecdh inc_y key stack ok = Some (None, ecdh)"
  using assms by (auto simp: crypto_ecdh_set_peerkey_def Let_def)

lemma set_peerkey_safe:
  assumes "length stack = 256"
  shows "crypto_ecdh_set_peerkey D E ecdh inc_y key stack ok \<noteq> None"
  using peerkey_buf_exact [OF assms, of key inc_y]
  by (auto simp: crypto_ecdh_set_peerkey_def Let_def split: prod.splits)

section \<open>An instance\<close>

definition demo_ecp :: ecp_lib where
  "demo_ecp = \<lparr>ecp_get_type = (\<lambda>e. MBEDTLS_ECP_TYPE_SHORT_WEIERSTRASS),
     ecp_group_load = (\<lambda>g. (- 1, \<lparr>grp_id = g, grp_P = mpi_of 0, grp_A = mpi_of 0, grp_B = mpi_of 0,
        grp_G = \<lparr>pt_X = mpi_of 0, pt_Y = mpi_of 0, pt_Z = mpi_of 0\<rparr>, grp_N = mpi_of 0, grp_pbits = 0\<rparr>)),
     ecp_point_read_binary = (\<lambda>e bs. let n = CRYPTO_EC_plen e
        in (0, \<lparr>pt_X = mpi_of (be_val (take n (drop 1 bs))), pt_Y = mpi_of (be_val (drop (1 + n) bs)), pt_Z = mpi_of 1\<rparr>)),
     ecp_point_write_binary = (\<lambda>e p inc_y n. let k = CRYPTO_EC_plen e
        in (0, 0x04 # be_bytes k (mpi_val (pt_X p)) @ be_bytes k (mpi_val (pt_Y p)))),
     ecp_muladd = (\<lambda>e m p n q. (0, p)), ecp_mul = (\<lambda>e m p. (0, p)),
     ecp_is_zero = (\<lambda>p. of_bool (mpi_val (pt_Z p) = 0)),
     ecp_check_pubkey = (\<lambda>e p. 0), ecp_point_cmp = (\<lambda>p q. of_bool (p \<noteq> q))\<rparr>"

lemma demo_ecp_type [simp]: "ecp_get_type demo_ecp e = MBEDTLS_ECP_TYPE_SHORT_WEIERSTRASS"
  by (simp add: demo_ecp_def)

lemma demo_ecp_contract: "ecp_contract demo_ecp"
  by (auto simp: ecp_contract_def demo_ecp_def Let_def)

definition demo_group :: ecp_group where
  "demo_group = \<lparr>grp_id = MBEDTLS_ECP_DP_SECP521R1, grp_P = mpi_of (2 ^ 521 - 1), grp_A = mpi_of 0, grp_B = mpi_of 5,
     grp_G = \<lparr>pt_X = mpi_of 3, pt_Y = mpi_of 4, pt_Z = mpi_of 1\<rparr>, grp_N = mpi_of 7, grp_pbits = 16\<rparr>"

lemma demo_group_plen: "CRYPTO_EC_plen demo_group = 2"
  by (simp add: CRYPTO_EC_plen_def demo_group_def)

theorem nist_curve_equation_witness:
  "\<exists>a h'. a_deref demo_group (crypto_ec_get_a demo_mpi (\<lambda>g. True) demo_group (mpi_of 0)) = Some a
     \<and> crypto_ec_point_compute_y_sqr demo_mpi demo_ecp (Some 0) demo_group (mpi_of 2) Map.empty = (Some 0, h')
     \<and> bn_abs h' 0 = Some ((8 + mpi_val a * 2 + 5) mod (2 ^ 521 - 1))"
  using nist_curve_equation [OF demo_mpi_contract, of demo_group "\<lambda>g. True" demo_ecp "mpi_of 0" 0 "mpi_of 2" Map.empty]
  by (auto simp: demo_group_def mpi_of_def [of 0] limbs_of.simps [of 0] crypto_ec_get_b_def crypto_ec_get_prime_def)

theorem point_bin_roundtrip_witness:
  "\<exists>xs ys q. crypto_ec_point_to_bin demo_mpi demo_group (grp_G demo_group) True True = (0, Some xs, Some ys)
     \<and> length xs = 2 \<and> length ys = 2
     \<and> crypto_ec_point_from_bin demo_ecp 2049 True demo_group (xs @ ys) 0 = Some (Some q, 1)
     \<and> mpi_val (pt_X q) = 3 \<and> mpi_val (pt_Y q) = 4"
  using point_bin_roundtrip [OF demo_mpi_contract demo_ecp_contract, of demo_group "grp_G demo_group" 2049 0]
  by (simp add: demo_group_plen) (simp add: demo_group_def)

definition demo_ecdh :: "(unit, u8 list) ecdh_lib" where
  "demo_ecdh = \<lparr>pk_info_ok = True, pk_setup = (0, ()), ecp_gen_key = (\<lambda>g k. (0, k)), ecdh_setup = (\<lambda>g. (0, [])),
     ecdh_get_params = (\<lambda>c k. (0, c)), ecp_export = (\<lambda>k. (0, demo_group, grp_G demo_group)),
     ecdh_read_public = (\<lambda>c bs. (0, bs)), ecdh_calc_secret = (\<lambda>c n. (0, take n (drop 2 c)))\<rparr>"

definition demo_side :: "u8 list crypto_ecdh" where
  "demo_side = \<lparr>ecdh_ctx = [], ecdh_grp = demo_group, ecdh_Q = grp_G demo_group\<rparr>"

theorem ecdh_pubkey_reaches_peer_witness:
  "\<exists>key. crypto_ecdh_get_pubkey demo_ecp demo_side True = Some key
     \<and> crypto_ecdh_set_peerkey demo_ecdh demo_ecp demo_side True key (replicate 256 0) True
       = Some (Some [0, 3], demo_side\<lparr>ecdh_ctx := [5, 4, 0, 3, 0, 4]\<rparr>)"
proof -
  have b: "be_bytes 2 3 = [0, 3]" "be_bytes 2 4 = [0, 4]" by (simp_all add: numeral_2_eq_2)
  have w: "ecp_point_write_binary demo_ecp (ecdh_grp demo_side) (ecdh_Q demo_side) True 256 = (0, [4, 0, 3, 0, 4])"
    using b demo_group_plen by (simp add: demo_ecp_def demo_side_def) (simp add: demo_group_def)
  show ?thesis
    using ecdh_pubkey_reaches_peer [OF demo_ecp_type demo_ecp_type w, of demo_side "replicate 256 0" demo_ecdh "[5, 4, 0, 3, 0, 4]" "[0, 3]"]
    by (simp add: crypto_ecdh_prime_len_def demo_side_def demo_group_plen demo_ecdh_def numeral_2_eq_2)
qed

end
