(* ===== verification/Station_Examples.thy ===== *)
theory Station_Examples
  imports Load_Config Iperf_App
begin

text \<open>
  The example applications that join a HaLow network: \<^verbatim>\<open>examples/sta_connect\<close>, which connects and sends
  one packet, \<^verbatim>\<open>examples/sta_reboot\<close>, which does so over and over, and
  \<^verbatim>\<open>examples/transfer_reset\<close>, which resets the device after one transfer. The main task and the
  callbacks of the WLAN library run in any order: an event is one call of the main task, with what the
  library returned, or one callback.
\<close>

section \<open>The main tasks\<close>

datatype main_op =
    Semb_create
  | Hal_init
  | Wlan_init
  | Lookup_regulatory_domain
  | Set_channel_list
  | Register_link_state_cb
  | Register_rx_cb
  | Wlan_boot
  | Get_version
  | Get_mac_addr
  | Sta_enable
  | Semb_wait
  | Wlan_tx
  | Wlan_shutdown
  | Task_sleep nat

definition REBOOT_DELAY_MS :: nat where "REBOOT_DELAY_MS = 50"

text \<open>The calls of \<open>app_main\<close> of the two applications in order, and of one round of \<open>sta_reboot\<close>.\<close>

definition sta_connect_main :: "main_op list" where
  "sta_connect_main =
     [Semb_create, Hal_init, Wlan_init, Lookup_regulatory_domain, Set_channel_list, Register_link_state_cb,
      Register_rx_cb, Wlan_boot, Get_version, Get_mac_addr, Sta_enable, Semb_wait, Wlan_tx]"

definition sta_reboot_start :: "main_op list" where
  "sta_reboot_start =
     [Semb_create, Hal_init, Wlan_init, Lookup_regulatory_domain, Set_channel_list, Register_link_state_cb,
      Register_rx_cb]"

definition reboot_iteration :: "main_op list" where
  "reboot_iteration = [Wlan_boot, Get_version, Get_mac_addr, Sta_enable, Semb_wait, Wlan_tx, Wlan_shutdown]"

definition sta_reboot_main :: "main_op list" where
  "sta_reboot_main = sta_reboot_start @ reboot_iteration @ [Task_sleep REBOOT_DELAY_MS]"

text \<open>The arguments of the connection; the passphrase is defined, so that the security is SAE.\<close>

definition STA_SSID :: string where "STA_SSID = ''MorseMicro''"
definition STA_PASSPHRASE :: string where "STA_PASSPHRASE = ''12345678''"

definition sta_example_args :: "mmwlan_sta_args option" where
  "sta_example_args = do {
     ssid \<leftarrow> blit (sta_ssid MMWLAN_STA_ARGS_INIT) 0 STA_SSID;
     pass \<leftarrow> blit (sta_passphrase MMWLAN_STA_ARGS_INIT) 0 STA_PASSPHRASE;
     Some (MMWLAN_STA_ARGS_INIT\<lparr>sta_ssid_len := of_nat (length STA_SSID), sta_ssid := ssid,
       sta_passphrase_len := of_nat (length STA_PASSPHRASE), sta_passphrase := pass,
       sta_security_type := MMWLAN_SAE\<rparr>) }"

definition arp_packet :: "u8 list \<Rightarrow> u8 list" where
  "arp_packet mac =
     [0xff, 0xff, 0xff, 0xff, 0xff, 0xff] @ mac @ [0x08, 0x06]
     @ [0x00, 0x01, 0x08, 0x00, 0x06, 0x04, 0x00, 0x01] @ mac
     @ [0xc0, 0xa8, 0x01, 0x02] @ [0x00, 0x00, 0x00, 0x00, 0x00, 0x00] @ [0xc0, 0xa8, 0x01, 0x01]"

section \<open>State and events\<close>

record sta_app =
  sa_pc :: nat
  sa_sem :: bool
  sa_mac :: "u8 list"
  sa_tx :: "u8 list list"
  sa_assert :: bool

definition sta_init :: sta_app where
  "sta_init = \<lparr>sa_pc = 0, sa_sem = False, sa_mac = replicate 6 0, sa_tx = [], sa_assert = False\<rparr>"

text \<open>
  \<open>Main ok mac\<close>: the next call of the main task, which succeeds if \<open>ok\<close> and returns the address \<open>mac\<close>
  if it asks for it. \<open>Link up\<close> and \<open>Rx len\<close> are the callbacks.
\<close>

datatype sta_event = Main bool "u8 list" | Link bool | Rx nat

definition link_state_change_hanndler :: "bool \<Rightarrow> sta_app \<Rightarrow> sta_app" where
  "link_state_change_hanndler up s =
     (if up then if sa_sem s then s\<lparr>sa_assert := True\<rparr> else s\<lparr>sa_sem := True\<rparr> else s)"

text \<open>The size of the packed header is 14 bytes.\<close>

definition rx_handler :: "nat \<Rightarrow> sta_app \<Rightarrow> sta_app" where
  "rx_handler header_len s = (if 14 = header_len then s else s\<lparr>sa_assert := True\<rparr>)"

definition main_exec :: "main_op \<Rightarrow> bool \<Rightarrow> u8 list \<Rightarrow> sta_app \<Rightarrow> sta_app" where
  "main_exec x ok mac s =
     (let next = s\<lparr>sa_pc := Suc (sa_pc s)\<rparr>; failed = s\<lparr>sa_assert := True\<rparr>
      in case x of
           Hal_init \<Rightarrow> next
         | Wlan_init \<Rightarrow> next
         | Wlan_shutdown \<Rightarrow> next
         | Task_sleep n \<Rightarrow> next
         | Semb_wait \<Rightarrow> (if sa_sem s then next\<lparr>sa_sem := False\<rparr> else s)
         | Get_mac_addr \<Rightarrow> (if ok then next\<lparr>sa_mac := mac\<rparr> else failed)
         | Wlan_tx \<Rightarrow> (if ok then next\<lparr>sa_tx := sa_tx s @ [arp_packet (sa_mac s)]\<rparr> else failed)
         | _ \<Rightarrow> (if ok then next else failed))"

text \<open>
  One event. A failed assertion stops everything; a callback is invoked only once the main task
  has registered it, and the main task of \<open>sta_connect\<close> ends after its last call, that of \<open>sta_reboot\<close> goes
  back to the boot of the transceiver.
\<close>

definition sta_step :: "main_op list \<Rightarrow> sta_app \<Rightarrow> sta_event \<Rightarrow> sta_app" where
  "sta_step prog s e =
     (if sa_assert s then s
      else case e of
             Main ok mac \<Rightarrow> (if sa_pc s < length prog then main_exec (prog ! sa_pc s) ok mac s else s)
           | Link up \<Rightarrow> (if Register_link_state_cb \<in> set (take (sa_pc s) prog)
                          then link_state_change_hanndler up s else s)
           | Rx len \<Rightarrow> (if Register_rx_cb \<in> set (take (sa_pc s) prog) then rx_handler len s else s))"

definition sta_connect_step :: "sta_app \<Rightarrow> sta_event \<Rightarrow> sta_app" where
  "sta_connect_step = sta_step sta_connect_main"

definition sta_reboot_step :: "sta_app \<Rightarrow> sta_event \<Rightarrow> sta_app" where
  "sta_reboot_step s e =
     (let s = sta_step sta_reboot_main s e
      in if sa_pc s = length sta_reboot_main then s\<lparr>sa_pc := length sta_reboot_start\<rparr> else s)"

section \<open>Packets follow the link\<close>

fun link_ups :: "sta_event list \<Rightarrow> nat" where
  "link_ups [] = 0"
| "link_ups (e # es) = (if e = Link True then Suc (link_ups es) else link_ups es)"

lemma link_ups_append [simp]: "link_ups (es @ fs) = link_ups es + link_ups fs"
  by (induction es) auto

text \<open>
  Tokens: every link-up that was delivered is at most one of the token in the semaphore, the wait that has been passed
  and whose packet is not sent yet, and a packet sent.
\<close>

definition sta_tokens :: "nat \<Rightarrow> sta_app \<Rightarrow> nat" where
  "sta_tokens tx_pc s = length (sa_tx s) + of_bool (sa_sem s) + of_bool (sa_pc s = tx_pc)"

definition tx_follows_wait :: "main_op list \<Rightarrow> nat \<Rightarrow> bool" where
  "tx_follows_wait prog k \<longleftrightarrow> 0 < k \<and> k < length prog \<and> prog ! k = Wlan_tx \<and> prog ! (k - 1) = Semb_wait
     \<and> (\<forall>j < length prog. (prog ! j = Wlan_tx \<longrightarrow> j = k) \<and> (prog ! j = Semb_wait \<longrightarrow> Suc j = k))"

lemma main_exec_tokens:
  assumes "x = Wlan_tx \<longleftrightarrow> sa_pc s = k" "x = Semb_wait \<longleftrightarrow> Suc (sa_pc s) = k"
  shows "sta_tokens k (main_exec x ok mac s) \<le> sta_tokens k s"
  using assms by (cases x) (simp_all add: sta_tokens_def main_exec_def Let_def)

lemma sta_step_tokens:
  assumes prog: "tx_follows_wait prog k"
  shows "sta_tokens k (sta_step prog s e) \<le> sta_tokens k s + of_bool (e = Link True)"
proof (cases e)
  case (Main ok mac)
  have "(prog ! sa_pc s = Wlan_tx) = (sa_pc s = k) \<and> (prog ! sa_pc s = Semb_wait) = (Suc (sa_pc s) = k)"
    if "sa_pc s < length prog" using prog that unfolding tx_follows_wait_def by (metis diff_Suc_1)
  then show ?thesis using Main main_exec_tokens [of "prog ! sa_pc s" s k ok mac] by (auto simp: sta_step_def)
next
  case (Link up)
  then show ?thesis by (auto simp: sta_step_def sta_tokens_def link_state_change_hanndler_def)
next
  case (Rx len)
  then show ?thesis by (auto simp: sta_step_def sta_tokens_def rx_handler_def)
qed

lemma connect_tx_follows_wait: "tx_follows_wait sta_connect_main 12"
  by (simp add: tx_follows_wait_def sta_connect_main_def All_less_Suc numeral_eq_Suc)

lemma reboot_tx_follows_wait: "tx_follows_wait sta_reboot_main 12"
  by (simp add: tx_follows_wait_def sta_reboot_main_def sta_reboot_start_def reboot_iteration_def All_less_Suc
      numeral_eq_Suc)

lemma sta_reboot_tokens:
  "sta_tokens 12 (sta_reboot_step s e) \<le> sta_tokens 12 s + of_bool (e = Link True)"
  using sta_step_tokens [OF reboot_tx_follows_wait, of s e]
  by (auto simp: sta_reboot_step_def Let_def sta_tokens_def sta_reboot_main_def sta_reboot_start_def reboot_iteration_def
      split: if_splits)

lemma counted_run:
  assumes "\<And>s e. (T (step s e) :: nat) \<le> T s + of_bool (e = Link True)"
  shows "T (foldl step s es) \<le> T s + link_ups es"
proof (induction es arbitrary: s)
  case (Cons e es)
  show ?case using Cons [of "step s e"] assms [of s e] by auto
qed simp

text \<open>
  In both applications every packet that is sent has a link-up of its own before it, whatever the order of
  callbacks and calls.
\<close>

theorem packets_follow_link:
  "length (sa_tx (foldl sta_connect_step sta_init es)) \<le> link_ups es
   \<and> length (sa_tx (foldl sta_reboot_step sta_init es)) \<le> link_ups es"
proof -
  have "sta_tokens 12 sta_init = 0" by (simp add: sta_tokens_def sta_init_def)
  then show ?thesis
    using counted_run [of "sta_tokens 12" sta_connect_step sta_init es]
      counted_run [of "sta_tokens 12" sta_reboot_step sta_init es, OF sta_reboot_tokens]
      sta_step_tokens [OF connect_tx_follows_wait]
    unfolding sta_connect_step_def by (auto simp: sta_tokens_def)
qed

text \<open>With every call succeeding and one link-up, the packet goes out with the address that was read.\<close>

definition good_run :: "u8 list \<Rightarrow> sta_event list" where
  "good_run mac = replicate 11 (Main True mac) @ [Link True, Main True mac, Main True mac]"

lemma sta_connect_sends:
  "foldl sta_connect_step sta_init (good_run mac) =
     \<lparr>sa_pc = 13, sa_sem = False, sa_mac = mac, sa_tx = [arp_packet mac], sa_assert = False\<rparr>"
  by (simp add: good_run_def numeral_eq_Suc sta_connect_step_def sta_step_def sta_connect_main_def main_exec_def
      sta_init_def link_state_change_hanndler_def)

text \<open>
  After its packet \<open>sta_connect\<close> no longer waits for the semaphore: the second time the link comes back,
  the callback cannot give it and the assertion stops the device.
\<close>

lemma sta_connect_dies_on_reconnect:
  assumes "sa_pc s = 13" "\<not> sa_assert s"
  shows "sa_assert (foldl sta_connect_step s [Link False, Link True, Link False, Link True])"
  using assms
  by (auto simp: sta_connect_step_def sta_step_def sta_connect_main_def link_state_change_hanndler_def)

text \<open>
  A link that comes back while a round of \<open>sta_reboot\<close> is not waiting leaves its token in the semaphore, and
  the next round sends its packet without the link having come up in it.
\<close>

definition stale_run :: "sta_event list" where
  "stale_run = good_run [1, 2, 3, 4, 5, 6] @ [Link False, Link True, Main True [], Main True []]"

lemma sta_reboot_stale_token:
  "foldl sta_reboot_step sta_init stale_run =
     \<lparr>sa_pc = 7, sa_sem = True, sa_mac = [1, 2, 3, 4, 5, 6], sa_tx = [arp_packet [1, 2, 3, 4, 5, 6]], sa_assert = False\<rparr>"
  "length (sa_tx (foldl sta_reboot_step sta_init (stale_run @ replicate 6 (Main True [1, 2, 3, 4, 5, 6])))) = 2"
  by code_simp+

section \<open>Transfer and reset\<close>

text \<open>
  \<^verbatim>\<open>transfer_reset\<close>: the main task starts one iperf instance, waits for its report and resets the device.
  \<open>started\<close> is whether the library started the instance; the report handler gives the semaphore.
\<close>

definition TRANSFER_TIME_AMOUNT :: "32 word" where "TRANSFER_TIME_AMOUNT = 2097000"
definition TRANSFER_TYPE :: iperf_type where "TRANSFER_TYPE = IPERF_TCP_SERVER"

definition transfer_client_args :: "mmiperf_client_args option" where
  "transfer_client_args = client_args IPERF_SERVER_PORT TRANSFER_TIME_AMOUNT"

definition transfer_server_args :: mmiperf_server_args where
  "transfer_server_args = MMIPERF_SERVER_ARGS_DEFAULT\<lparr>sa_local_port := ucast IPERF_SERVER_PORT\<rparr>"

datatype transfer_pc = Tr_connect | Tr_start | Tr_wait | Tr_reset

record transfer_app =
  tr_pc :: transfer_pc
  tr_running :: bool
  tr_sem :: bool
  tr_resets :: nat

definition transfer_init :: transfer_app where
  "transfer_init = \<lparr>tr_pc = Tr_connect, tr_running = False, tr_sem = False, tr_resets = 0\<rparr>"

text \<open>\<open>Tr_main started\<close> is a step of the main task, \<open>Tr_report\<close> the report of a running instance.\<close>

datatype transfer_event = Tr_main bool | Tr_report

definition transfer_report_handler :: "transfer_app \<Rightarrow> transfer_app" where
  "transfer_report_handler s = s\<lparr>tr_sem := True\<rparr>"

definition transfer_main :: "bool \<Rightarrow> transfer_app \<Rightarrow> transfer_app" where
  "transfer_main started s =
     (case tr_pc s of
        Tr_connect \<Rightarrow> s\<lparr>tr_pc := Tr_start\<rparr>
      | Tr_start \<Rightarrow> s\<lparr>tr_pc := Tr_wait, tr_running := started\<rparr>
      | Tr_wait \<Rightarrow> (if tr_sem s then s\<lparr>tr_pc := Tr_reset, tr_sem := False, tr_resets := Suc (tr_resets s)\<rparr> else s)
      | Tr_reset \<Rightarrow> s)"

definition transfer_step :: "transfer_app \<Rightarrow> transfer_event \<Rightarrow> transfer_app" where
  "transfer_step s e =
     (case e of Tr_main started \<Rightarrow> transfer_main started s
      | Tr_report \<Rightarrow> (if tr_running s then transfer_report_handler s else s))"

text \<open>The device is reset at most once and only after a report of an instance that was started.\<close>

interpretation transfer: invariant_system transfer_step
  "\<lambda>s. tr_resets s = of_bool (tr_pc s = Tr_reset) \<and> (tr_sem s \<longrightarrow> tr_running s)
     \<and> (tr_pc s = Tr_reset \<longrightarrow> tr_running s) \<and> (tr_running s \<longrightarrow> tr_pc s \<in> {Tr_wait, Tr_reset})"
  by unfold_locales
    (auto simp: transfer_step_def transfer_main_def transfer_report_handler_def
      split: transfer_event.splits transfer_pc.splits)

lemma transfer_resets_once:
  "tr_resets (foldl transfer_step transfer_init es) \<le> 1
   \<and> (0 < tr_resets (foldl transfer_step transfer_init es) \<longrightarrow> tr_running (foldl transfer_step transfer_init es))"
  using transfer.run_inv [of transfer_init es] by (auto simp: transfer_init_def)

text \<open>When the server cannot be started, nothing gives the semaphore: the device waits for ever.\<close>

lemma transfer_failed_start_hangs:
  "tr_resets (foldl transfer_step transfer_init ([Tr_main ok, Tr_main False] @ es)) = 0"
proof -
  let ?s = "foldl transfer_step transfer_init [Tr_main ok, Tr_main False]"
  have s: "?s = \<lparr>tr_pc = Tr_wait, tr_running = False, tr_sem = False, tr_resets = 0\<rparr>"
    by (simp add: transfer_step_def transfer_main_def transfer_init_def)
  have "foldl transfer_step ?s es = ?s" unfolding s
    by (induction es) (auto simp: transfer_step_def transfer_main_def split: transfer_event.splits)
  then show ?thesis using s by simp
qed

end
