(* ===== verification/Camera.thy ===== *)
theory Camera
  imports Crypto_Hash
begin

text \<open>
  The camera server example, \<^verbatim>\<open>examples/web_camera_serve\<close>: the handler that streams pictures as a
  multipart HTTP response (\<^verbatim>\<open>main.c\<close>), and the announcement of the device on the network
  (\<^verbatim>\<open>mm_app_common.c\<close>). The camera driver, the converter and the HTTP server are arguments: what each of
  their calls returned.
\<close>

section \<open>The stream\<close>

definition CRLF :: string where "CRLF = [CHR 0x0D, CHR 0x0A]"

definition PART_BOUNDARY :: string where "PART_BOUNDARY = ''123456789000000000000987654321''"

definition STREAM_CONTENT_TYPE :: string where
  "STREAM_CONTENT_TYPE = ''multipart/x-mixed-replace;boundary='' @ PART_BOUNDARY"

definition STREAM_BOUNDARY :: string where
  "STREAM_BOUNDARY = CRLF @ ''--'' @ PART_BOUNDARY @ CRLF"

definition stream_part :: "nat \<Rightarrow> string" where
  "stream_part n = ''Content-Type: image/jpeg'' @ CRLF @ ''Content-Length: '' @ show_nat n @ CRLF @ CRLF"

text \<open>A picture: whether it is a JPEG, its bytes, and what \<open>frame2jpg\<close> makes of it (\<open>None\<close>: it fails).\<close>

record frame =
  fb_jpeg :: bool
  fb_buf :: "u8 list"
  fb_conv :: "u8 list option"

datatype chunk = Text string | Data "u8 list"

text \<open>
  \<open>cam_held\<close> counts the frame buffers taken from the driver and not returned, \<open>cam_jpg\<close> the converted
  pictures that are allocated; \<open>cam_sent\<close> is what was handed to the server, in order.
\<close>

record cam_state =
  cam_held :: nat
  cam_jpg :: nat
  cam_sent :: "chunk list"

datatype cam_error = Use_after_return | Header_overrun

datatype cam_result = Ended bool cam_state | Running cam_state | Broken cam_error

text \<open>\<open>httpd_resp_send_chunk\<close>: \<open>send_ok i\<close> is whether the \<open>i\<close>-th chunk is accepted.\<close>

definition send_chunk :: "(nat \<Rightarrow> bool) \<Rightarrow> chunk \<Rightarrow> bool \<times> cam_state \<Rightarrow> bool \<times> cam_state" where
  "send_chunk send_ok c r =
     (if fst r then (send_ok (length (cam_sent (snd r))), (snd r)\<lparr>cam_sent := cam_sent (snd r) @ [c]\<rparr>) else r)"

text \<open>
  One round with a picture: the result \<open>res\<close> and the state. When the conversion fails, the frame buffer is returned
  at once, and read again below.
\<close>

definition stream_frame :: "(nat \<Rightarrow> bool) \<Rightarrow> frame \<Rightarrow> cam_state \<Rightarrow> cam_error + bool \<times> cam_state" where
  "stream_frame send_ok fb s =
     (let s = s\<lparr>cam_held := Suc (cam_held s)\<rparr>;
          (res, jpg_buf, s, returned) =
            (if \<not> fb_jpeg fb
             then case fb_conv fb of
                    None \<Rightarrow> (False, [], s\<lparr>cam_held := cam_held s - 1\<rparr>, True)
                  | Some b \<Rightarrow> (True, b, s\<lparr>cam_jpg := Suc (cam_jpg s)\<rparr>, False)
             else (True, fb_buf fb, s, False));
          hdr = stream_part (length jpg_buf);
          r = send_chunk send_ok (Text STREAM_BOUNDARY) (res, s)
      in if fst r \<and> 64 \<le> length hdr then Inl Header_overrun
         else let r = send_chunk send_ok (Text hdr) r;
                  r = send_chunk send_ok (Data jpg_buf) r
              in if returned then Inl Use_after_return
                 else let s = (if \<not> fb_jpeg fb then (snd r)\<lparr>cam_jpg := cam_jpg (snd r) - 1\<rparr> else snd r)
                      in Inr (fst r, s\<lparr>cam_held := cam_held s - 1\<rparr>))"

text \<open>The loop over what the camera delivers; an empty list is the time before the next picture.\<close>

fun stream_loop :: "(nat \<Rightarrow> bool) \<Rightarrow> frame option list \<Rightarrow> cam_state \<Rightarrow> cam_result" where
  "stream_loop send_ok [] s = Running s"
| "stream_loop send_ok (None # fs) s = Ended False s"
| "stream_loop send_ok (Some fb # fs) s =
     (case stream_frame send_ok fb s of
        Inl e \<Rightarrow> Broken e
      | Inr (res, s) \<Rightarrow> (if \<not> res then Ended False s else stream_loop send_ok fs s))"

definition jpg_stream_httpd_handler :: "bool \<Rightarrow> (nat \<Rightarrow> bool) \<Rightarrow> frame option list \<Rightarrow> cam_result" where
  "jpg_stream_httpd_handler set_type_ok send_ok fs =
     (let s = \<lparr>cam_held = 0, cam_jpg = 0, cam_sent = []\<rparr>
      in if \<not> set_type_ok then Ended False s else stream_loop send_ok fs s)"

section \<open>What the browser gets\<close>

definition picture :: "frame \<Rightarrow> u8 list" where
  "picture fb = (if fb_jpeg fb then fb_buf fb else the (fb_conv fb))"

definition part :: "frame \<Rightarrow> chunk list" where
  "part fb = [Text STREAM_BOUNDARY, Text (stream_part (length (picture fb))), Data (picture fb)]"

definition good_frame :: "frame \<Rightarrow> bool" where
  "good_frame fb \<longleftrightarrow> (fb_jpeg fb \<or> fb_conv fb \<noteq> None) \<and> length (picture fb) < 2 ^ 32"

text \<open>What is sent until the first chunk that is refused, that chunk included.\<close>

definition accepted :: "(nat \<Rightarrow> bool) \<Rightarrow> nat \<Rightarrow> nat \<Rightarrow> bool" where
  "accepted send_ok k n \<longleftrightarrow> (\<forall>i < n. send_ok (k + i))"

lemma header_fits:
  assumes "n < 2 ^ 32" shows "length (stream_part n) < 64"
proof -
  have "n < 10 ^ 10" using assms by simp
  then have "length (show_nat n) \<le> 10" by (rule length_show_nat) simp
  then show ?thesis by (simp add: stream_part_def CRLF_def)
qed

lemma stream_frame_good:
  assumes "good_frame fb"
  shows "accepted send_ok (length (cam_sent s)) 3 \<Longrightarrow>
      stream_frame send_ok fb s = Inr (True, s\<lparr>cam_sent := cam_sent s @ part fb\<rparr>)"
    and "j < 3 \<Longrightarrow> accepted send_ok (length (cam_sent s)) j \<Longrightarrow> \<not> send_ok (length (cam_sent s) + j) \<Longrightarrow>
      stream_frame send_ok fb s = Inr (False, s\<lparr>cam_sent := cam_sent s @ take (Suc j) (part fb)\<rparr>)"
proof -
  have h: "length (stream_part (length (picture fb))) < 64"
    using assms by (intro header_fits) (simp add: good_frame_def)
  have c: "fb_jpeg fb \<or> (\<exists>b. fb_conv fb = Some b)" using assms by (auto simp: good_frame_def)
  note defs = stream_frame_def send_chunk_def part_def picture_def accepted_def numeral_3_eq_3 All_less_Suc Let_def
  show "accepted send_ok (length (cam_sent s)) 3 \<Longrightarrow>
      stream_frame send_ok fb s = Inr (True, s\<lparr>cam_sent := cam_sent s @ part fb\<rparr>)"
    using h c by (cases "fb_jpeg fb") (auto simp: defs)
  show "j < 3 \<Longrightarrow> accepted send_ok (length (cam_sent s)) j \<Longrightarrow> \<not> send_ok (length (cam_sent s) + j) \<Longrightarrow>
      stream_frame send_ok fb s = Inr (False, s\<lparr>cam_sent := cam_sent s @ take (Suc j) (part fb)\<rparr>)"
    using h c by (cases "fb_jpeg fb"; cases j; cases "j - 1") (auto simp: defs)
qed

lemma length_stream_parts: "length (part fb) = 3"
  by (simp add: part_def)

lemma accepted_split: "accepted send_ok k (m + n) \<longleftrightarrow> accepted send_ok k m \<and> accepted send_ok (k + m) n"
proof -
  have "(\<forall>i < m + n. P i) \<longleftrightarrow> (\<forall>i < m. P i) \<and> (\<forall>i < n. P (m + i))" for P :: "nat \<Rightarrow> bool"
    by (metis add_less_cancel_left le_add_diff_inverse not_less trans_less_add1)
  then show ?thesis by (simp add: accepted_def add.assoc)
qed

lemma stream_loop_all:
  assumes "\<forall>fb \<in> set fs. good_frame fb" "accepted send_ok (length (cam_sent s)) (3 * length fs)"
  shows "stream_loop send_ok (map Some fs) s = Running (s\<lparr>cam_sent := cam_sent s @ concat (map part fs)\<rparr>)"
  using assms
proof (induction fs arbitrary: s)
  case (Cons fb fs)
  have "accepted send_ok (length (cam_sent s)) 3" "accepted send_ok (length (cam_sent s) + 3) (3 * length fs)"
    using Cons.prems(2) accepted_split [of send_ok "length (cam_sent s)" 3 "3 * length fs"] by simp_all
  then show ?case
    using Cons.IH [of "s\<lparr>cam_sent := cam_sent s @ part fb\<rparr>"] Cons.prems(1) stream_frame_good(1) [of fb send_ok s]
    by (simp add: length_stream_parts)
qed simp

lemma stream_loop_refused:
  assumes "\<forall>fb \<in> set fs. good_frame fb" "j < 3 * length fs"
    and "accepted send_ok (length (cam_sent s)) j" "\<not> send_ok (length (cam_sent s) + j)"
  shows "stream_loop send_ok (map Some fs) s =
     Ended False (s\<lparr>cam_sent := cam_sent s @ take (Suc j) (concat (map part fs))\<rparr>)"
  using assms
proof (induction fs arbitrary: s j)
  case (Cons fb fs)
  show ?case
  proof (cases "j < 3")
    case True
    then show ?thesis using Cons.prems stream_frame_good(2) [of fb j send_ok s] by (simp add: length_stream_parts)
  next
    case False
    then have j: "j = 3 + (j - 3)" "Suc j - 3 = Suc (j - 3)" by simp_all
    have a: "accepted send_ok (length (cam_sent s)) 3" "accepted send_ok (length (cam_sent s) + 3) (j - 3)"
      using Cons.prems(3) accepted_split [of send_ok "length (cam_sent s)" 3 "j - 3"] j(1) by simp_all
    show ?thesis
      using a Cons.IH [of "j - 3" "s\<lparr>cam_sent := cam_sent s @ part fb\<rparr>"] Cons.prems False j(2)
        stream_frame_good(1) [of fb send_ok s]
      by (simp add: length_stream_parts)
  qed
qed simp

text \<open>
  The stream is a sequence of whole parts, each the boundary, the header with the length of the picture and
  the picture, up to the first chunk that the server refuses, which ends the handler; every frame buffer is
  returned to the driver and every converted picture freed, in each case.
\<close>

theorem stream_is_multipart:
  assumes "\<forall>fb \<in> set fs. good_frame fb"
  shows "jpg_stream_httpd_handler True send_ok (map Some fs) =
     (case first_idx (\<lambda>i. \<not> send_ok i) [0..<3 * length fs] of
        None \<Rightarrow> Running \<lparr>cam_held = 0, cam_jpg = 0, cam_sent = concat (map part fs)\<rparr>
      | Some k \<Rightarrow> Ended False \<lparr>cam_held = 0, cam_jpg = 0, cam_sent = take (Suc k) (concat (map part fs))\<rparr>)"
proof (cases "first_idx (\<lambda>i. \<not> send_ok i) [0..<3 * length fs]")
  case None
  then have "accepted send_ok 0 (3 * length fs)"
    using first_idx_None [of "\<lambda>i. \<not> send_ok i" "[0..<3 * length fs]"] by (simp add: accepted_def)
  then show ?thesis unfolding None
    using stream_loop_all [OF assms, of send_ok "\<lparr>cam_held = 0, cam_jpg = 0, cam_sent = []\<rparr>"]
    by (simp add: jpg_stream_httpd_handler_def)
next
  case (Some k)
  then have "k < 3 * length fs" "accepted send_ok 0 k" "\<not> send_ok k"
    using first_idx_SomeD [OF Some] by (auto simp: accepted_def)
  then show ?thesis
    using stream_loop_refused [OF assms, of k send_ok "\<lparr>cam_held = 0, cam_jpg = 0, cam_sent = []\<rparr>"] Some
    by (simp add: jpg_stream_httpd_handler_def)
qed

text \<open>A picture that cannot be converted is used and returned again after it has been returned.\<close>

lemma failed_conversion_breaks:
  assumes "\<not> fb_jpeg fb" "fb_conv fb = None"
  shows "jpg_stream_httpd_handler True send_ok (Some fb # fs) = Broken Use_after_return"
  using assms by (simp add: jpg_stream_httpd_handler_def stream_frame_def send_chunk_def)

section \<open>Announcement on the network\<close>

text \<open>The addresses as the words that lwIP's \<open>ipaddr_addr\<close> returns, in memory order.\<close>

record cam_link =
  cl_link_up :: bool
  cl_ip :: u32
  cl_gw :: u32
  cl_mac :: "u8 list"
  cl_tx :: "u8 list list"
  cl_sem :: bool
  cl_assert :: bool

definition cam_arp_packet :: "cam_link \<Rightarrow> u8 list" where
  "cam_arp_packet c =
     [0xff, 0xff, 0xff, 0xff, 0xff, 0xff] @ cl_mac c @ [0x08, 0x06]
     @ [0x00, 0x01, 0x08, 0x00, 0x06, 0x04, 0x00, 0x01] @ cl_mac c
     @ u32_bytes (cl_ip c) @ [0x00, 0x00, 0x00, 0x00, 0x00, 0x00] @ u32_bytes (cl_gw c)"

definition app_wlan_arp_send :: "bool \<Rightarrow> cam_link \<Rightarrow> cam_link" where
  "app_wlan_arp_send tx_ok c =
     (if cl_link_up c
      then if tx_ok then c\<lparr>cl_tx := cl_tx c @ [cam_arp_packet c]\<rparr> else c\<lparr>cl_assert := True\<rparr>
      else c)"

definition cam_link_status_callback :: "(string \<Rightarrow> u32) \<Rightarrow> bool \<Rightarrow> bool \<Rightarrow> string \<Rightarrow> string \<Rightarrow> cam_link \<Rightarrow> cam_link" where
  "cam_link_status_callback ipaddr_addr tx_ok up ip gateway c =
     (if up
      then let c = c\<lparr>cl_ip := ipaddr_addr ip, cl_gw := ipaddr_addr gateway, cl_link_up := True\<rparr>;
               c = app_wlan_arp_send tx_ok c
           in if cl_assert c then c else c\<lparr>cl_sem := True\<rparr>
      else c\<lparr>cl_link_up := False\<rparr>)"

text \<open>
  The packet has the length of an ARP request when the address has six bytes; a new link is announced with
  its own addresses; without a link nothing is sent.
\<close>

lemma cam_announcement:
  assumes "length (cl_mac c) = 6" "\<not> cl_assert c"
  shows "length (cam_arp_packet c) = 42"
    and "cl_tx (cam_link_status_callback f True True ip gw c) =
       cl_tx c @ [cam_arp_packet (c\<lparr>cl_ip := f ip, cl_gw := f gw\<rparr>)]"
    and "app_wlan_arp_send ok (cam_link_status_callback f ok2 False ip gw c) = cam_link_status_callback f ok2 False ip gw c"
  using assms
  by (simp_all add: cam_arp_packet_def u32_bytes_def cam_link_status_callback_def app_wlan_arp_send_def)

end
