(* ===== verification/Spec2Isabelle.thy ===== *)
theory Spec2Isabelle
  imports Crc Slip Dns_Forwarder Web_Config Halow_Link Regdb Load_Config Nat_Router Iperf_App
    Pktmem_Static Mmbuf_List Ie_Parser Osal Iperf_Tcp_Correct Mmipal Fw_Image Osal_Task Os_Mmosal
    Porting_Tests Rf_Test Crypto_Ec Station_Examples Camera
begin

text \<open>
  Verification of the XIAO HaLow-to-WiFi bridge: an ESP32 that connects to a Wi-Fi HaLow
  (802.11ah) access point as a station, opens a 2.4 GHz access point of its own, and routes between
  the two with network address translation. Paths below are relative to \<^verbatim>\<open>src/\<close>.

  \<^bold>\<open>The program.\<close> The application is in \<^verbatim>\<open>examples/iperf/main/src\<close>. At boot \<^verbatim>\<open>iperf.c\<close> loads
  the settings (\<^verbatim>\<open>settings.c\<close>), turns them into the arguments of the WLAN and IP libraries
  (\<^verbatim>\<open>mm_app_loadconfig.c\<close>, with the channel tables of \<^verbatim>\<open>framework/src/mmregdb\<close>), connects and
  supervises the link (\<^verbatim>\<open>mm_app_common.c\<close>), opens the access point and repairs the routes
  (\<^verbatim>\<open>nat_router.c\<close>), and starts the configuration web server (\<^verbatim>\<open>web_config.c\<close>), the DNS forwarder
  (\<^verbatim>\<open>dns_forwarder.c\<close>) and the iperf servers (\<^verbatim>\<open>framework/src/mmiperf\<close>). Below the application,
  \<^verbatim>\<open>framework/src/mmipal\<close> joins lwIP to the WLAN driver, \<^verbatim>\<open>framework/src/mmpktmem\<close> gives the packets,
  \<^verbatim>\<open>framework/src/mmutils\<close> and \<^verbatim>\<open>framework/src/slip\<close> hold buffers, checksums, parsers and framing,
  and \<^verbatim>\<open>framework/mm_shims\<close> ports the driver to FreeRTOS and the ESP32. The porting assistant
  (\<^verbatim>\<open>examples/porting_assistant\<close>) checks a new board: its image check and its SDIO-over-SPI driver
  are part of this development.

  \<^bold>\<open>How the code is modelled.\<close> A C struct is a record, an enumeration a datatype, an unsigned
  integer a word of its width (\<open>u8\<close>, \<open>u16\<close>, \<open>u32\<close> of \<open>Bridge_Prelude\<close>), so that wrap-around is the
  code's own; an \<open>int\<close> or \<open>size_t\<close> that provably stays in range is an \<open>int\<close> or \<open>nat\<close>. A character array is a
  list with its fixed length, read as a C string up to its first NUL. An access outside an array, a
  failed assertion and a use after release are \<open>None\<close> or a value of an error type, so a theorem
  that gives \<open>Some\<close> also states memory safety. State is passed explicitly; callbacks that may come in any order are
  events of a step function or of an inductive relation. Code outside the repository (lwIP,
  ESP-IDF, FreeRTOS, the NVS store, the WLAN library of \<^verbatim>\<open>framework/morselib\<close>, malloc) is an argument: a function
  or a record of functions, and where a theorem needs a law of it, a named hypothesis
  such as \<open>nvs_laws\<close>, which the witness of the theorem discharges on a concrete instance.

  \<^bold>\<open>Theories of the bridge application.\<close>
  \<^item> \<open>Settings\<close> (\<^verbatim>\<open>settings.c\<close>): defaults, load, save. Loaded settings are well formed whatever the store
    holds; saving and loading is the identity on valid settings.
  \<^item> \<open>Web_Forms\<close> and \<open>Web_Config\<close> (\<^verbatim>\<open>web_config.c\<close>): URL decoding, form fields, HTML escaping, page
    generation, the GET, POST and reboot handlers, server start. The page is sent whole and
    escaped faithfully; the posted form is what the next load returns.
  \<^item> \<open>Dns_Forwarder\<close> (\<^verbatim>\<open>dns_forwarder.c\<close>): pending table, cache, one step per received datagram.
    Every datagram is handled within its buffers; an answer reaches the client that asked. The
    locale \<open>pending_queries\<close> states what the table promises; \<open>pq\<close> interprets it on the code's table.
  \<^item> \<open>Halow_Link\<close> (\<^verbatim>\<open>mm_app_common.c\<close>): callbacks, reconnection timer, LED, start semaphore, as a
    step relation. The semaphore is given once; a lost link leads to a new connection attempt.
  \<^item> \<open>Regdb\<close> and \<open>Load_Config\<close> (\<^verbatim>\<open>mmregdb.c\<close>, \<^verbatim>\<open>mm_app_loadconfig.c\<close>): all tables and the lookup, and the
    arguments for the libraries.
  \<^item> \<open>Nat_Router\<close> (\<^verbatim>\<open>nat_router.c\<close>): default route and gateway repair on lwIP's interface list, the access
    point's events and start.
  \<^item> \<open>Iperf_App\<close> (\<^verbatim>\<open>iperf.c\<close>): report formatting and the start-up sequence.
  \<^item> This theory: the path of a configuration from the browser through the store to the arguments of
    the radio at the next boot.

  \<^bold>\<open>Theories of the framework.\<close>
  \<^item> \<open>Crc\<close> (\<^verbatim>\<open>mmcrc.c\<close>): the locale \<open>table_crc\<close> proves once that a byte loop over a table is the
    bit-serial shift register when each table entry is; \<open>xmodem\<close> interprets it on the code's table,
    and \<open>Sdio_Spi\<close> reuses it.
  \<^item> \<open>Slip\<close> (\<^verbatim>\<open>slip.c\<close>): the receive state machine and the transmitter. \<open>invariant_system\<close> of
    the prelude is interpreted on it, so that the buffer invariant holds for every stream.
  \<^item> \<open>Mmpkt\<close>, \<open>Mmpkt_View\<close> (\<^verbatim>\<open>mmpkt.h\<close>): layout of a packet in a block and its accessors.
    \<open>Pktmem_Heap\<close>, \<open>Pktmem_Static\<close> (\<^verbatim>\<open>mmpktmem_heap.c\<close>, \<^verbatim>\<open>mmpktmem_static.c\<close>): the two packet memories; the locale
    \<open>tx_pool\<close> of \<open>Mmpkt\<close> holds their flow control contract, interpreted as \<open>heap_pool\<close> and
    \<open>static_pool\<close>.
  \<^item> \<open>Mmbuf\<close>, \<open>Mmbuf_List\<close> (\<^verbatim>\<open>mmbuf.h\<close>, \<^verbatim>\<open>mmbuf.c\<close>): buffers with room at both ends, and
    linked lists of them, which refine a double-ended queue (locale \<open>simulation\<close>, interpretation
    \<open>mmbuf_deque\<close>). The locale \<open>packet_buffer\<close> is the contract of prepending and appending;
    both \<open>mmbuf\<close> and the packets of \<open>Mmpkt_View\<close> (\<open>pkt\<close>) interpret it.
  \<^item> \<open>Ie_Parser\<close> (\<^verbatim>\<open>mmutils_wlan.c\<close>): information element search, RSN and S1G parsers on arbitrary bytes.
  \<^item> \<open>Iperf_Common\<close>, \<open>Iperf_Udp\<close>, \<open>Iperf_Tcp\<close> and their \<open>_Correct\<close> theories
    (\<^verbatim>\<open>framework/src/mmiperf\<close>): sessions, reports, both engines on lwIP; counting, byte streams,
    termination of the client loops, and the use of a freed session after a reset. The list of sessions is
    a \<open>simulation\<close> too (\<open>active_sessions\<close>).
  \<^item> \<open>Netif\<close>, \<open>Mmipal\<close> (\<^verbatim>\<open>mmnetif.c\<close>, \<^verbatim>\<open>mmipal_lwip.c\<close>): packets between the driver and lwIP with their
    ownership, the core lock, link reports, address configuration.
  \<^item> \<open>Osal\<close>, \<open>Osal_Task\<close>, \<open>Hal\<close>, \<open>Fw_Image\<close> (\<^verbatim>\<open>framework/mm_shims\<close>): failure log, time,
    synchronisation, timers; tasks from creation to join over the calls of the FreeRTOS kernel; pins,
    SPI transfers, random numbers; the firmware images and the check of their format.
  \<^item> \<open>Os_Mmosal\<close> (\<^verbatim>\<open>hostap/os_mmosal.c\<close>, \<^verbatim>\<open>hostap/src/utils/os.h\<close>): the operating system layer under
    the supplicant: relative time and its order, random numbers, bounded string copy.

  \<^bold>\<open>Theories of the cryptography under the supplicant\<close> (\<^verbatim>\<open>framework/mm_shims/crypto_mbedtls_mm.c\<close>, over mbedTLS
  as records of functions with their documented laws as predicates, e.g. \<open>hmac_contract\<close>, \<open>mpi_contract\<close>).
  \<^item> \<open>Crypto_Hash\<close>: constant-time selection, entropy, hashes, HMAC, both key derivation functions of IEEE 802.11,
    PBKDF2, AES, CMAC, key wrap. The locale \<open>block_stream\<close> covers the three loops that fill a buffer with
    numbered blocks; \<open>entropy\<close> interprets it on the entropy source.
  \<^item> \<open>Mod_Prime\<close>: residues modulo a prime up to Euler's criterion, independent of the program.
  \<^item> \<open>Crypto_Bignum\<close>: the big number operations on a heap, so that aliasing of operands and results is seen; a
    \<open>simulation\<close> of integer arithmetic, and the Legendre symbol.
  \<^item> \<open>Crypto_Ec\<close>: groups, coefficients, points, the curve equation, and the octet strings of a key exchange.

  \<^bold>\<open>Theories of the porting assistant.\<close>
  \<^item> \<open>Sdio_Spi\<close> (\<^verbatim>\<open>sdio_spi.c\<close>): commands, responses, block and byte transfers, whole buffers. The bus is
    an arbitrary stream of bytes from the transceiver and the log of what the driver did.
    \<open>Sdio_Spi_Correct\<close>: byte order, both checksums as interpretations of \<open>table_crc\<close>, every operation as an
    extension of the log with its time on the bus. \<open>Sdio_Card\<close>: the specification's view of the log, a card that
    decodes frames and blocks, and the proof that a successful write is what the card stores.
    \<open>Sdio_Read\<close>: the replies of a card, received data, corrupted blocks, and the errors the driver loses.
  \<^item> \<open>Porting_Tests\<close> (\<^verbatim>\<open>porting_assistant.c\<close>, \<^verbatim>\<open>test_wlan_io.c\<close>, \<^verbatim>\<open>test_os.c\<close>): the runner and its counters, the tests of
    the bus on that driver and of the operating system; the tests of bulk transfers pass on a dead bus.

  \<^bold>\<open>Theories of the other examples.\<close>
  \<^item> \<open>Scan\<close> (\<^verbatim>\<open>examples/scan\<close>): its own RSN parser, equal to the library's where it stays inside its input, and
    what it prints for a result.
  \<^item> \<open>Rf_Test\<close> (\<^verbatim>\<open>examples/rf-test\<close>): commands over a UART, the composition of \<open>Slip\<close>, \<open>Crc\<close> and \<open>Mmbuf\<close>:
    numbered commands are executed in order and answered, a damaged packet is dropped, every input is processed
    safely; \<open>frame_effect\<close> is the reference for one packet.
  \<^item> \<open>Station_Examples\<close> (\<^verbatim>\<open>examples/sta_connect\<close>, \<^verbatim>\<open>sta_reboot\<close>, \<^verbatim>\<open>transfer_reset\<close>): main tasks and callbacks in any
    order; a packet follows a link-up of its own, the device is reset at most once.
  \<^item> \<open>Camera\<close> (\<^verbatim>\<open>examples/web_camera_serve\<close>): the picture stream is a sequence of whole parts and gives back every
    buffer, unless a conversion fails.

  \<^bold>\<open>Bounds and fuel.\<close> Most functions are total without fuel. A loop bounded by the code keeps
  the code's bound (200 polls of the SPI bus, 60 consecutive failures of a UDP send, three requests for the report). The UDP client's
  loop takes fuel, and \<open>61 * (amount / size + 1)\<close> iterations are proved to be enough for a byte-limited
  session; the TCP client's takes more fuel than bytes remain, which is proved to be enough as well, and so is one
  round more than there are bytes for the key derivation.
  A wait for a pin or a semaphore is a step that the environment enables.

  \<^bold>\<open>Not modelled.\<close> The supplicant in \<^verbatim>\<open>framework/src/hostap\<close> is third-party code, only its
  operating system layer is the port's own; the WLAN library and the
  firmware are binaries; mbedTLS is not in the repository; the
  \<^verbatim>\<open>freertosplustcp\<close> variants of mmipal and mmiperf are not compiled for the ESP32; \<^verbatim>\<open>iperf_esp32c6\<close> is
  ESP-IDF's own example. Within the modelled files, log output, the
  contents of the HTML outside the generated fields, and code behind debug switches (\<^verbatim>\<open>MMPKT_DEBUG\<close>,
  \<^verbatim>\<open>MMBUF_SANITY\<close>) are left out. Operations of the packet memories run to their end before the next one
  starts, which their locks and atomic counters provide.

  \<^bold>\<open>What could come next.\<close> Interleavings inside the operations of \<open>Pktmem_Heap\<close> on its atomic
  counters; a lossless UDP transfer from client to server as one theorem.
\<close>

section \<open>Configuration from the browser to the radio\<close>

lemma boot_channel_list:
  fixes n
  assumes "nvs_reads_ok nvs" "settings_arrays s0" "length strval0 = 16"
  defines "cc \<equiv> (let c = cstr (country (settings_load nvs n s0)) in if c = [] then COUNTRY_CODE else c)"
  shows "load_channel_list get_regulatory_db nvs n s0 strval0 =
    (case find (\<lambda>d. country_code d = take 2 cc) regulatory_db_domains of
       None \<Rightarrow> Inl Assert_failed | Some l \<Rightarrow> Inr l)"
proof -
  let ?s = "settings_load nvs n s0"
  have v: "holds_str 4 (country ?s)"
    using settings_load_wf [OF assms(1,2)] by (simp add: settings_valid_def settings_sizes)
  have cc: "cstr (or_default (country ?s) COUNTRY_CODE) = cc"
    using or_default_cstr [OF v, of COUNTRY_CODE] by (auto simp: cc_def COUNTRY_CODE_def NUL_def Let_def)
  have "length cc < 16" using holds_str_cstr [OF v] by (auto simp: cc_def COUNTRY_CODE_def Let_def)
  then obtain r where "snd (mmosal_safer_strcpy strval0 (or_default (country ?s) COUNTRY_CODE) 16) = cc @ NUL # r"
    using safer_strcpy_array [OF assms(3)] cc by metis
  then show ?thesis
    by (simp add: load_channel_list_def Let_def regdb_lookup_find split: option.splits)
qed



end
